(* ===== verification/Prelude.thy ===== *)
theory Prelude
  imports Main "HOL-Library.Word"
begin

text \<open>
  Shared vocabulary of the development: machine integers and bytes, C strings held in byte
  buffers, little-endian 32-bit fields, fallible computations, and the lemmas on lists and words
  that the component theories use.  The collection \<open>le_simps\<close> gathers the facts about the
  little-endian codec, \<open>io_simps\<close> those about byte streams.
\<close>

unbundle bit_operations_syntax

type_synonym byte = "8 word"
type_synonym u16 = "16 word"
type_synonym u32 = "32 word"

named_theorems le_simps
named_theorems io_simps

section \<open>Fallible computations\<close>

text \<open>
  A C function that may call \<open>fatal\<close> returns a sum: \<open>Inl\<close> carries the abort, \<open>Inr\<close> the
  state with which it returns.
\<close>

definition sbind :: "'e + 'a \<Rightarrow> ('a \<Rightarrow> 'e + 'b) \<Rightarrow> 'e + 'b" where
  "sbind x f = (case x of Inl e \<Rightarrow> Inl e | Inr a \<Rightarrow> f a)"

lemma sbind_Inl [simp]: "sbind (Inl e) f = Inl e"
  by (simp add: sbind_def)

lemma sbind_Inr [simp]: "sbind (Inr a) f = f a"
  by (simp add: sbind_def)

lemma sbind_Inr_iff: "sbind x f = Inr b \<longleftrightarrow> (\<exists>a. x = Inr a \<and> f a = Inr b)"
  by (cases x) auto

lemma sbind_InrE:
  assumes "sbind x f = Inr b"
  obtains a where "x = Inr a" "f a = Inr b"
  using assms by (auto simp: sbind_Inr_iff)

lemma sbind_cong:
  assumes "x = y" and "\<And>a. y = Inr a \<Longrightarrow> f a = g a"
  shows "sbind x f = sbind y g"
  using assms by (cases y) auto

section \<open>C strings\<close>

text \<open>
  A NUL-terminated string inside a byte buffer: the bytes before the first zero.
\<close>

definition cstr :: "byte list \<Rightarrow> byte list" where
  "cstr bs = takeWhile (\<lambda>b. b \<noteq> 0) bs"

text \<open>
  The macro \<open>snprintf\<close> of this build (\<open>include/win32_adb.h\<close>) is \<open>_snprintf\<close>: a text that leaves no room in
  the buffer for the zero at its end is written without one, and then the buffer holds no C string.
\<close>

definition snprintf :: "nat \<Rightarrow> byte list \<Rightarrow> byte list option" where
  "snprintf n bs = (if length bs < n then Some bs else None)"

lemma snprintf_fits [simp]: "length bs < n \<Longrightarrow> snprintf n bs = Some bs"
  by (simp add: snprintf_def)

text \<open>The bytes of a string literal of the source.\<close>

definition ascii :: "string \<Rightarrow> byte list" where
  "ascii s = map (\<lambda>c. word_of_nat (of_char c)) s"

lemma length_ascii [simp]: "length (ascii s) = length s"
  by (simp add: ascii_def)

lemma ascii_Nil [simp]: "ascii [] = []"
  by (simp add: ascii_def)

lemma ascii_append [simp]: "ascii (s @ t) = ascii s @ ascii t"
  by (simp add: ascii_def)

lemma cstr_Nil [simp]: "cstr [] = []"
  by (simp add: cstr_def)

lemma cstr_no_nul: "0 \<notin> set (cstr bs)"
  unfolding cstr_def by (metis (mono_tags, lifting) set_takeWhileD)

lemma cstr_id: "0 \<notin> set bs \<Longrightarrow> cstr bs = bs"
  unfolding cstr_def by (rule takeWhile_eq_all_conv [THEN iffD2]) metis

lemma cstr_terminated: "0 \<notin> set s \<Longrightarrow> cstr (s @ 0 # rest) = s"
proof -
  assume "0 \<notin> set s"
  then have "takeWhile (\<lambda>b. b \<noteq> 0) s = s"
    by (rule cstr_id [unfolded cstr_def])
  with \<open>0 \<notin> set s\<close> show ?thesis
    unfolding cstr_def by (subst takeWhile_append) auto
qed

lemma length_cstr_le: "length (cstr bs) \<le> length bs"
  by (simp add: cstr_def length_takeWhile_le)

section \<open>Numbers in text\<close>

text \<open>\<open>%d\<close> of a number that is not negative.\<close>

fun decimal :: "nat \<Rightarrow> byte list" where
  "decimal n = (if n < 10 then [] else decimal (n div 10)) @ [word_of_nat (48 + n mod 10)]"

declare decimal.simps [simp del]

text \<open>\<open>%d\<close> of any number.\<close>

definition fmt_d :: "int \<Rightarrow> byte list" where
  "fmt_d i = (if i < 0 then 45 # decimal (nat (- i)) else decimal (nat i))"

text \<open>The digits that \<open>strtoul\<close>, \<open>atoi\<close> and \<open>sscanf\<close> take, in a base, after white space.\<close>

definition digit_of :: "byte \<Rightarrow> nat option" where
  "digit_of c = (if 48 \<le> c \<and> c \<le> 57 then Some (unat c - 48)
     else if 97 \<le> c \<and> c \<le> 122 then Some (unat c - 87)
     else if 65 \<le> c \<and> c \<le> 90 then Some (unat c - 55) else None)"

fun digits :: "nat \<Rightarrow> byte list \<Rightarrow> nat \<Rightarrow> nat" where
  "digits b [] n = n"
| "digits b (c # cs) n = (case digit_of c of
     Some d \<Rightarrow> if d < b then digits b cs (n * b + d) else n
   | None \<Rightarrow> n)"

definition is_space :: "byte \<Rightarrow> bool" where
  "is_space c \<longleftrightarrow> c = 32 \<or> (9 \<le> c \<and> c \<le> 13)"

lemma sint_small: "n < 2 ^ 31 \<Longrightarrow> sint (word_of_nat n :: u32) = int n"
  by (simp add: signed_of_nat signed_take_bit_int_eq_self)

section \<open>Little-endian 32-bit fields\<close>

text \<open>
  The wire structures are C structs of \<open>unsigned\<close> fields copied byte by byte on a
  little-endian machine.
\<close>

definition le32_bytes :: "u32 \<Rightarrow> byte list" where
  "le32_bytes w = [ucast w, ucast (drop_bit 8 w), ucast (drop_bit 16 w), ucast (drop_bit 24 w)]"

definition le32_of :: "byte list \<Rightarrow> u32" where
  "le32_of bs = (case bs of
     a # b # c # d # _ \<Rightarrow>
       (ucast a :: u32) OR push_bit 8 (ucast b) OR push_bit 16 (ucast c) OR push_bit 24 (ucast d)
   | _ \<Rightarrow> 0)"

lemma length_le32_bytes [simp, le_simps]: "length (le32_bytes w) = 4"
  by (simp add: le32_bytes_def)

lemma le32_join:
  "(ucast (ucast (w :: u32) :: byte) :: u32) OR push_bit 8 (ucast (ucast (drop_bit 8 w) :: byte))
     OR push_bit 16 (ucast (ucast (drop_bit 16 w) :: byte))
     OR push_bit 24 (ucast (ucast (drop_bit 24 w) :: byte)) = w"
proof (rule bit_word_eqI)
  fix n :: nat
  assume n: "n < LENGTH(32)"
  then consider "n < 8" | "8 \<le> n" "n < 16" | "16 \<le> n" "n < 24" | "24 \<le> n" "n < 32"
    by fastforce
  then show "bit ((ucast (ucast (w :: u32) :: byte) :: u32)
       OR push_bit 8 (ucast (ucast (drop_bit 8 w) :: byte))
       OR push_bit 16 (ucast (ucast (drop_bit 16 w) :: byte))
       OR push_bit 24 (ucast (ucast (drop_bit 24 w) :: byte))) n = bit w n"
    by cases (auto simp: bit_simps)
qed

lemma le32_of_bytes [simp, le_simps]: "le32_of (le32_bytes w @ rest) = w"
  by (simp add: le32_of_def le32_bytes_def le32_join)

lemma le32_of_bytes_Nil [simp, le_simps]: "le32_of (le32_bytes w) = w"
  using le32_of_bytes [of w "[]"] by simp

lemma le32_bytes_of [le_simps]:
  assumes "length bs = 4"
  shows "le32_bytes (le32_of bs) = bs"
proof -
  from assms obtain a b c d where bs: "bs = [a, b, c, d]"
    by (auto simp: eval_nat_numeral length_Suc_conv)
  let ?w = "(ucast a :: u32) OR push_bit 8 (ucast b) OR push_bit 16 (ucast c)
              OR push_bit 24 (ucast d)"
  have "(ucast ?w :: byte) = a" "(ucast (drop_bit 8 ?w) :: byte) = b"
    "(ucast (drop_bit 16 ?w) :: byte) = c" "(ucast (drop_bit 24 ?w) :: byte) = d"
    by (rule bit_word_eqI, auto simp: bit_simps dest: bit_imp_le_length)+
  with bs show ?thesis by (simp add: le32_of_def le32_bytes_def)
qed

lemma le32_bytes_inj: "le32_bytes v = le32_bytes w \<longleftrightarrow> v = w"
  by (metis le32_of_bytes_Nil)

section \<open>Decimal numbers\<close>

lemma digit_of_decimal: "d < 10 \<Longrightarrow> digit_of (word_of_nat (48 + d)) = Some d"
proof -
  assume "d < 10"
  then have "d \<in> {0, 1, 2, 3, 4, 5, 6, 7, 8, 9}" by auto
  then show ?thesis by (auto simp: digit_of_def)
qed

lemma digits_append:
  assumes "\<forall>c\<in>set xs. \<exists>d. digit_of c = Some d \<and> d < b"
  shows "digits b (xs @ ys) a = digits b ys (digits b xs a)"
  using assms by (induction xs arbitrary: a) auto

lemma decimal_digits: "c \<in> set (decimal n) \<Longrightarrow> \<exists>d. digit_of c = Some d \<and> d < 10"
proof (induction n rule: decimal.induct)
  case (1 n)
  then show ?case using digit_of_decimal [of "n mod 10"] by (auto simp: decimal.simps [of n] split: if_splits)
qed

lemma digits_of_decimal: "digits 10 (decimal n) 0 = n"
proof (induction n rule: decimal.induct)
  case (1 n)
  have d: "digit_of (word_of_nat (48 + n mod 10)) = Some (n mod 10)" by (rule digit_of_decimal) simp
  show ?case
  proof (cases "n < 10")
    case True
    then show ?thesis using d by (simp add: decimal.simps [of n])
  next
    case False
    have "digits 10 (decimal n) 0 = digits 10 [word_of_nat (48 + n mod 10)] (digits 10 (decimal (n div 10)) 0)"
      using False digits_append [of "decimal (n div 10)" 10 "[word_of_nat (48 + n mod 10)]" 0] decimal_digits
      by (simp add: decimal.simps [of n])
    then show ?thesis using 1 [OF False] d by simp
  qed
qed

lemma decimal_no: "44 \<notin> set (decimal n)" "0 \<notin> set (decimal n)"
  using decimal_digits [of 44 n] decimal_digits [of 0 n] by (auto simp: digit_of_def)

end
