(* ===== verification/Sysio.thy ===== *)
theory Sysio
  imports Prelude
begin

text \<open>
  Descriptor I/O (\<open>adb/transport.cpp\<close>: \<open>readx\<close>, \<open>writex\<close>, \<open>read_packet\<close>, \<open>write_packet\<close>,
  \<open>transport_read_action\<close>, \<open>transport_write_action\<close>).

  The system calls \<open>adb_read\<close> and \<open>adb_write\<close> are the environment.  A descriptor is the list of
  events its next calls will meet: bytes that have arrived as one segment (\<open>Avail\<close>, the empty
  segment being the end of file), room for a number of bytes in the output (\<open>Room\<close>), or an error.
  A call on an exhausted list would block, and its result is \<open>None\<close>.  The loops of the source are
  recursive functions over these lists; the lemmas show that their result depends only on the
  bytes of the stream, not on how they are segmented or on how often a call is interrupted.

  The locale \<open>framing\<close> states what a pair of a sender and a receiver loop promises to its client;
  it is interpreted here on the two hand-over channels of the transport (packet addresses and
  registration messages) and in the theory \<open>Packet\<close> on whole packets.
\<close>

section \<open>System calls\<close>

datatype errno = EINTR | EAGAIN | EIO

datatype rd_ev = Avail "byte list" | RdErr errno

datatype rd_res = Got "byte list" | Eof | RdFail errno

text \<open>\<open>read(fd, buf, n)\<close>: at most \<open>n\<close> bytes of the next segment; what is left stays pending.\<close>

fun adb_read :: "nat \<Rightarrow> rd_ev list \<Rightarrow> (rd_res \<times> rd_ev list) option" where
  "adb_read n [] = None"
| "adb_read n (RdErr e # evs) = Some (RdFail e, evs)"
| "adb_read n (Avail bs # evs) =
     (if bs = [] then Some (Eof, evs)
      else Some (Got (take n bs), if length bs \<le> n then evs else Avail (drop n bs) # evs))"

datatype wr_ev = Room nat | WrErr errno

datatype wr_res = Wrote nat | WrFail errno

text \<open>\<open>write(fd, buf, n)\<close> accepts what fits into the room the next event gives.\<close>

fun adb_write :: "nat \<Rightarrow> wr_ev list \<Rightarrow> (wr_res \<times> wr_ev list) option" where
  "adb_write n [] = None"
| "adb_write n (WrErr e # evs) = Some (WrFail e, evs)"
| "adb_write n (Room k # evs) =
     (if n < k then Some (Wrote n, Room (k - n) # evs) else Some (Wrote k, evs))"

lemma adb_read_Got:
  "adb_read n evs = Some (Got bs, evs') \<Longrightarrow> 0 < n \<Longrightarrow>
     bs \<noteq> [] \<and> length bs \<le> n \<and> length evs' \<le> length evs"
  by (cases "(n, evs)" rule: adb_read.cases) (auto split: if_splits)

lemma adb_read_length: "adb_read n evs = Some (r, evs') \<Longrightarrow> length evs' \<le> length evs"
  by (cases "(n, evs)" rule: adb_read.cases) (auto split: if_splits)

lemma adb_read_fail_length: "adb_read n evs = Some (RdFail e, evs') \<Longrightarrow> length evs' < length evs"
  by (cases "(n, evs)" rule: adb_read.cases) (auto split: if_splits)

lemma adb_write_le: "adb_write n evs = Some (Wrote k, evs') \<Longrightarrow> k \<le> n"
  by (cases "(n, evs)" rule: adb_write.cases) (auto split: if_splits)

lemma adb_write_length: "adb_write n evs = Some (r, evs') \<Longrightarrow> length evs' \<le> length evs"
  by (cases "(n, evs)" rule: adb_write.cases) (auto split: if_splits)

lemma adb_write_fail_length: "adb_write n evs = Some (WrFail e, evs') \<Longrightarrow> length evs' < length evs"
  by (cases "(n, evs)" rule: adb_write.cases) (auto split: if_splits)

section \<open>Complete reads\<close>

text \<open>
  \<open>readx\<close>: the result code, the bytes stored in the caller's buffer (also on failure) and the
  events left.  End of file and every error but \<open>EINTR\<close> end the loop with -1.
\<close>

function readx :: "nat \<Rightarrow> rd_ev list \<Rightarrow> ((int \<times> byte list) \<times> rd_ev list) option" where
  "readx n evs =
     (if n = 0 then Some ((0, []), evs)
      else case adb_read n evs of
        None \<Rightarrow> None
      | Some (Got bs, evs') \<Rightarrow>
          (case readx (n - length bs) evs' of
             None \<Rightarrow> None
           | Some ((r, more), evs'') \<Rightarrow> Some ((r, bs @ more), evs''))
      | Some (RdFail EINTR, evs') \<Rightarrow> readx n evs'
      | Some (_, evs') \<Rightarrow> Some ((- 1, []), evs'))"
  by pat_completeness auto
termination
proof (relation "measure (\<lambda>(n, evs). n + length evs)", goal_cases)
  case 1
  show ?case by simp
next
  case (2 n evs p r evs' bs)
  then show ?case
    using adb_read_Got [of n evs bs evs'] by (cases bs) auto
next
  case (3 n evs p r evs' e)
  then show ?case
    using adb_read_fail_length [of n evs e evs'] by auto
qed

declare readx.simps [simp del]

text \<open>The bytes a reader gets before end of file or a failing call.\<close>

fun pending :: "rd_ev list \<Rightarrow> byte list" where
  "pending [] = []"
| "pending (Avail bs # evs) = (if bs = [] then [] else bs @ pending evs)"
| "pending (RdErr e # evs) = (if e = EINTR then pending evs else [])"

lemma adb_read_pending_Got:
  "adb_read n evs = Some (Got bs, evs') \<Longrightarrow> 0 < n \<Longrightarrow> pending evs = bs @ pending evs'"
proof (cases "(n, evs)" rule: adb_read.cases)
  case (3 n' bs' evs1)
  moreover assume "adb_read n evs = Some (Got bs, evs')" and "0 < n"
  ultimately show ?thesis
    by (auto split: if_splits)
qed auto

lemma readx_0 [simp]: "readx 0 evs = Some ((0, []), evs)"
  by (simp add: readx.simps)

lemma readx_complete [io_simps]:
  assumes "n \<le> length (pending evs)"
  shows "\<exists>evs'. readx n evs = Some ((0, take n (pending evs)), evs')
           \<and> pending evs' = drop n (pending evs)"
  using assms
proof (induction n evs rule: readx.induct)
  case (1 n evs)
  show ?case
  proof (cases "n = 0")
    case True
    then show ?thesis by simp
  next
    case False
    then consider
        (seg) bs rest where "evs = Avail bs # rest" "bs \<noteq> []"
      | (intr) rest where "evs = RdErr EINTR # rest"
      using "1.prems" by (cases evs rule: pending.cases) (auto split: if_splits)
    then show ?thesis
    proof cases
      case seg
      then obtain evs' where rd: "adb_read n evs = Some (Got (take n bs), evs')"
        by simp
      have p: "pending evs = take n bs @ pending evs'"
        using adb_read_pending_Got [OF rd] False by simp
      with "1.prems" have le: "n - length (take n bs) \<le> length (pending evs')"
        by simp
      from "1.IH"(1) [OF False rd refl refl le] obtain evs'' where
        "readx (n - length (take n bs)) evs' =
           Some ((0, take (n - length (take n bs)) (pending evs')), evs'')"
        "pending evs'' = drop (n - length (take n bs)) (pending evs')"
        by blast
      then show ?thesis
        using False rd p by (simp add: readx.simps [of n evs] min_def)
    next
      case intr
      then have rd: "adb_read n evs = Some (RdFail EINTR, rest)" and p: "pending evs = pending rest"
        by auto
      with "1.prems" have "n \<le> length (pending rest)" by simp
      from "1.IH"(2) [OF False rd refl refl refl this] p rd False show ?thesis
        by (simp add: readx.simps [of n evs])
    qed
  qed
qed

lemma readx_result:
  assumes "readx n evs = Some ((r, bs), evs')"
  shows "(r = 0 \<and> n \<le> length (pending evs) \<and> bs = take n (pending evs))
       \<or> (r = - 1 \<and> length (pending evs) < n \<and> bs = pending evs)"
  using assms
proof (induction n evs arbitrary: r bs evs' rule: readx.induct)
  case (1 n evs)
  show ?case
  proof (cases "n = 0")
    case True
    with "1.prems" show ?thesis by (simp add: readx.simps)
  next
    case False
    show ?thesis
    proof (cases evs rule: pending.cases)
      case 1
      with "1.prems" False show ?thesis by (simp add: readx.simps)
    next
      case (2 seg rest)
      show ?thesis
      proof (cases "seg = []")
        case True
        with "1.prems" False 2 show ?thesis by (auto simp: readx.simps)
      next
        case seg: False
        with 2 obtain evs1 where rd: "adb_read n evs = Some (Got (take n seg), evs1)"
          by simp
        have p: "pending evs = take n seg @ pending evs1"
          using adb_read_pending_Got [OF rd] False by simp
        from "1.prems" False rd obtain more where
          more: "readx (n - length (take n seg)) evs1 = Some ((r, more), evs')"
          and bs: "bs = take n seg @ more"
          by (auto simp: readx.simps [of n evs] split: option.splits)
        from "1.IH"(1) [OF False rd refl refl more] p bs show ?thesis
          by (auto simp: min_def split: if_splits)
      qed
    next
      case (3 e rest)
      show ?thesis
      proof (cases "e = EINTR")
        case True
        with 3 have rd: "adb_read n evs = Some (RdFail EINTR, rest)" and p: "pending evs = pending rest"
          by auto
        with "1.prems" False have "readx n rest = Some ((r, bs), evs')"
          by (simp add: readx.simps [of n evs])
        from "1.IH"(2) [OF False rd refl refl refl this] p show ?thesis by simp
      next
        case False
        with 3 "1.prems" \<open>n \<noteq> 0\<close> show ?thesis
          by (cases e) (auto simp: readx.simps)
      qed
    qed
  qed
qed

lemma readx_consumes:
  assumes "readx n evs = Some ((0, bs), evs')"
  shows "pending evs = bs @ pending evs'" and "length bs = n"
proof -
  from readx_result [OF assms] have n: "n \<le> length (pending evs)" and bs: "bs = take n (pending evs)"
    by auto
  from readx_complete [OF n] assms have "pending evs' = drop n (pending evs)" by auto
  with bs n show "pending evs = bs @ pending evs'" and "length bs = n" by auto
qed

section \<open>Complete writes\<close>

text \<open>\<open>writex\<close>: the result code, the bytes the descriptor accepted and the events left.\<close>

function writex :: "byte list \<Rightarrow> wr_ev list \<Rightarrow> ((int \<times> byte list) \<times> wr_ev list) option" where
  "writex bs evs =
     (if bs = [] then Some ((0, []), evs)
      else case adb_write (length bs) evs of
        None \<Rightarrow> None
      | Some (Wrote k, evs') \<Rightarrow>
          (if k = 0 then Some ((- 1, []), evs')
           else case writex (drop k bs) evs' of
             None \<Rightarrow> None
           | Some ((r, out), evs'') \<Rightarrow> Some ((r, take k bs @ out), evs''))
      | Some (WrFail EINTR, evs') \<Rightarrow> writex bs evs'
      | Some (_, evs') \<Rightarrow> Some ((- 1, []), evs'))"
  by pat_completeness auto
termination
proof (relation "measure (\<lambda>(bs, evs). length bs + length evs)", goal_cases)
  case 1
  show ?case by simp
next
  case (2 bs evs p r evs' k)
  then show ?case
    using adb_write_le [of "length bs" evs k evs'] adb_write_length [of "length bs" evs r evs']
    by auto
next
  case (3 bs evs p r evs' e)
  then show ?case
    using adb_write_fail_length [of "length bs" evs e evs'] by auto
qed

declare writex.simps [simp del]

text \<open>The number of bytes a writer gets rid of before a failing call.\<close>

fun room :: "wr_ev list \<Rightarrow> nat" where
  "room [] = 0"
| "room (Room k # evs) = (if k = 0 then 0 else k + room evs)"
| "room (WrErr e # evs) = (if e = EINTR then room evs else 0)"

lemma adb_write_room:
  "adb_write n evs = Some (Wrote k, evs') \<Longrightarrow> 0 < k \<Longrightarrow> room evs = k + room evs'"
  by (cases "(n, evs)" rule: adb_write.cases) (auto split: if_splits)

lemma writex_Nil [simp]: "writex [] evs = Some ((0, []), evs)"
  by (simp add: writex.simps)

lemma writex_complete [io_simps]:
  assumes "length bs \<le> room evs"
  shows "\<exists>evs'. writex bs evs = Some ((0, bs), evs') \<and> room evs' = room evs - length bs"
  using assms
proof (induction bs evs rule: writex.induct)
  case (1 bs evs)
  show ?case
  proof (cases "bs = []")
    case True
    then show ?thesis by simp
  next
    case False
    then consider
        (rm) m rest where "evs = Room (Suc m) # rest"
      | (intr) rest where "evs = WrErr EINTR # rest"
      using "1.prems" by (cases evs rule: room.cases) (auto split: if_splits dest: gr0_implies_Suc)
    then show ?thesis
    proof cases
      case rm
      define k where "k = min (length bs) (Suc m)"
      from False have k0: "0 < k" by (simp add: k_def)
      from rm obtain evs' where wr: "adb_write (length bs) evs = Some (Wrote k, evs')"
        by (cases "length bs < Suc m") (auto simp: k_def min_def)
      have p: "room evs = k + room evs'" using adb_write_room [OF wr k0] .
      with "1.prems" have le: "length (drop k bs) \<le> room evs'" by simp
      from "1.IH"(1) [OF False wr refl refl _ le] k0 obtain evs'' where
        "writex (drop k bs) evs' = Some ((0, drop k bs), evs'')"
        "room evs'' = room evs' - length (drop k bs)"
        by blast
      moreover have "k \<le> length bs" by (simp add: k_def)
      ultimately show ?thesis
        using False wr p k0 by (simp add: writex.simps [of bs evs])
    next
      case intr
      then have wr: "adb_write (length bs) evs = Some (WrFail EINTR, rest)" and p: "room evs = room rest"
        by auto
      with "1.prems" have "length bs \<le> room rest" by simp
      from "1.IH"(2) [OF False wr refl refl refl this] p wr False show ?thesis
        by (simp add: writex.simps [of bs evs])
    qed
  qed
qed

lemma writex_prefix:
  assumes "writex bs evs = Some ((r, out), evs')"
  shows "(r = 0 \<and> out = bs) \<or> (r = - 1 \<and> length out < length bs \<and> out = take (length out) bs)"
  using assms
proof (induction bs evs arbitrary: r out evs' rule: writex.induct)
  case (1 bs evs)
  show ?case
  proof (cases "bs = []")
    case True
    with "1.prems" show ?thesis by simp
  next
    case False
    from "1.prems" False obtain res evs1 where wr: "adb_write (length bs) evs = Some (res, evs1)"
      by (auto simp: writex.simps [of bs evs] split: option.splits)
    show ?thesis
    proof (cases res)
      case (Wrote k)
      with wr have kle: "k \<le> length bs" by (auto dest: adb_write_le)
      show ?thesis
      proof (cases "k = 0")
        case True
        with "1.prems" False wr Wrote show ?thesis by (simp add: writex.simps [of bs evs])
      next
        case k: False
        from "1.prems" False wr Wrote k obtain more where
          more: "writex (drop k bs) evs1 = Some ((r, more), evs')" and out: "out = take k bs @ more"
          by (auto simp: writex.simps [of bs evs] split: option.splits)
        from "1.IH"(1) [OF False wr refl Wrote k more] out kle show ?thesis
          by (auto simp: take_add min_def)
      qed
    next
      case (WrFail e)
      show ?thesis
      proof (cases "e = EINTR")
        case True
        with "1.prems" False wr WrFail have "writex bs evs1 = Some ((r, out), evs')"
          by (simp add: writex.simps [of bs evs])
        from "1.IH"(2) [OF False wr refl WrFail True this] show ?thesis .
      next
        case e: False
        with "1.prems" False wr WrFail show ?thesis
          by (cases e) (auto simp: writex.simps [of bs evs])
      qed
    qed
  qed
qed

section \<open>The framing interface\<close>

text \<open>
  What a channel promises: a value that is legal to send is received as it was sent, whatever
  follows it in the stream and however the stream is cut into segments, and the receiver accepts
  nothing but encodings of the value it returns.
\<close>

locale framing =
  fixes enc :: "'a \<Rightarrow> byte list"
    and dec :: "rd_ev list \<Rightarrow> ('a option \<times> rd_ev list) option"
    and legal :: "'a \<Rightarrow> bool"
  assumes dec_enc: "legal x \<Longrightarrow> pending evs = enc x @ rest \<Longrightarrow>
      \<exists>evs'. dec evs = Some (Some x, evs') \<and> pending evs' = rest"
    and dec_sound: "dec evs = Some (Some x, evs') \<Longrightarrow> pending evs = enc x @ pending evs'"
begin

text \<open>Two legal values are never confused, even when other bytes follow.\<close>

lemma enc_unambiguous:
  assumes "legal x" "legal y" "enc x @ r = enc y @ s"
  shows "x = y \<and> r = s"
proof -
  let ?evs = "[Avail (enc x @ r)]"
  show ?thesis
  proof (cases "enc x @ r = []")
    case True
    then have "pending [] = enc x @ []" "pending [] = enc y @ []" using assms(3) by auto
    from dec_enc [OF assms(1) this(1)] dec_enc [OF assms(2) this(2)] True assms(3)
    show ?thesis by auto
  next
    case False
    then have "pending ?evs = enc x @ r" "pending ?evs = enc y @ s" using assms(3) by auto
    from dec_enc [OF assms(1) this(1)] dec_enc [OF assms(2) this(2)]
    show ?thesis by auto
  qed
qed

text \<open>A sequence of messages arrives as that sequence.\<close>

lemma dec_sequence:
  assumes "\<forall>x \<in> set xs. legal x" and "pending evs = concat (map enc xs) @ rest"
  shows "\<exists>ess. length ess = length xs \<and>
           (\<forall>i < length xs. dec ((evs # ess) ! i) = Some (Some (xs ! i), ess ! i)) \<and>
           pending (last (evs # ess)) = rest"
  using assms
proof (induction xs arbitrary: evs)
  case Nil
  then show ?case by (intro exI [of _ "[]"]) simp
next
  case (Cons x xs)
  then have "legal x" and "pending evs = enc x @ (concat (map enc xs) @ rest)" by auto
  from dec_enc [OF this] obtain e1 where
    d: "dec evs = Some (Some x, e1)" and p: "pending e1 = concat (map enc xs) @ rest" by blast
  have "\<forall>x \<in> set xs. legal x" using Cons.prems(1) by simp
  from Cons.IH [OF this p] obtain ess where
    l: "length ess = length xs" and
    s: "\<forall>i < length xs. dec ((e1 # ess) ! i) = Some (Some (xs ! i), ess ! i)" and
    r: "pending (last (e1 # ess)) = rest" by blast
  have "dec ((evs # e1 # ess) ! i) = Some (Some ((x # xs) ! i), (e1 # ess) ! i)"
    if "i < length (x # xs)" for i
    using that d s by (cases i) auto
  with l r show ?case by (intro exI [of _ "e1 # ess"]) auto
qed

end

section \<open>Handing packets and registrations to another thread\<close>

text \<open>
  \<open>write_packet\<close> and \<open>read_packet\<close> pass the address of a packet through a socket pair;
  \<open>transport_write_action\<close> and \<open>transport_read_action\<close> pass a \<open>tmsg\<close>, a transport address and an
  action.  Addresses are 32 bits wide, as on the target of this port.
\<close>

type_synonym ptr = u32

definition write_packet :: "ptr \<Rightarrow> wr_ev list \<Rightarrow> ((int \<times> byte list) \<times> wr_ev list) option" where
  "write_packet p evs = writex (le32_bytes p) evs"

definition read_packet :: "rd_ev list \<Rightarrow> (ptr option \<times> rd_ev list) option" where
  "read_packet evs = (case readx 4 evs of
     None \<Rightarrow> None
   | Some ((r, bs), evs') \<Rightarrow> Some (if r = 0 then Some (le32_of bs) else None, evs'))"

record tmsg =
  tm_transport :: ptr
  tm_action :: u32

definition tmsg_bytes :: "tmsg \<Rightarrow> byte list" where
  "tmsg_bytes m = le32_bytes (tm_transport m) @ le32_bytes (tm_action m)"

definition transport_write_action :: "tmsg \<Rightarrow> wr_ev list \<Rightarrow> ((int \<times> byte list) \<times> wr_ev list) option"
  where "transport_write_action m evs = writex (tmsg_bytes m) evs"

definition transport_read_action :: "rd_ev list \<Rightarrow> (tmsg option \<times> rd_ev list) option" where
  "transport_read_action evs = (case readx 8 evs of
     None \<Rightarrow> None
   | Some ((r, bs), evs') \<Rightarrow>
       Some (if r = 0 then Some \<lparr>tm_transport = le32_of bs, tm_action = le32_of (drop 4 bs)\<rparr>
             else None, evs'))"

interpretation packet_chan: framing le32_bytes read_packet "\<lambda>_. True"
proof
  fix x :: ptr and evs rest
  assume p: "pending evs = le32_bytes x @ rest"
  then have "4 \<le> length (pending evs)" by simp
  from readx_complete [OF this] p
  show "\<exists>evs'. read_packet evs = Some (Some x, evs') \<and> pending evs' = rest"
    by (auto simp: read_packet_def)
next
  fix evs and x :: ptr and evs'
  assume "read_packet evs = Some (Some x, evs')"
  then obtain bs where r: "readx 4 evs = Some ((0, bs), evs')" and x: "x = le32_of bs"
    by (auto simp: read_packet_def split: option.splits if_splits prod.splits)
  from readx_consumes [OF r] x show "pending evs = le32_bytes x @ pending evs'"
    by (simp add: le32_bytes_of)
qed

interpretation action_chan: framing tmsg_bytes transport_read_action "\<lambda>_. True"
proof
  fix x evs rest
  assume p: "pending evs = tmsg_bytes x @ rest"
  then have "8 \<le> length (pending evs)" by (simp add: tmsg_bytes_def)
  from readx_complete [OF this] p
  show "\<exists>evs'. transport_read_action evs = Some (Some x, evs') \<and> pending evs' = rest"
    by (auto simp: transport_read_action_def tmsg_bytes_def)
next
  fix evs x evs'
  assume "transport_read_action evs = Some (Some x, evs')"
  then obtain bs where r: "readx 8 evs = Some ((0, bs), evs')"
    and x: "x = \<lparr>tm_transport = le32_of bs, tm_action = le32_of (drop 4 bs)\<rparr>"
    by (auto simp: transport_read_action_def split: option.splits if_splits prod.splits)
  from readx_consumes [OF r] have p: "pending evs = bs @ pending evs'" and l: "length bs = 8" .
  from l have "bs = take 4 bs @ drop 4 bs" and "length (take 4 bs) = 4" and "length (drop 4 bs) = 4"
    by auto
  moreover have "le32_of bs = le32_of (take 4 bs)"
    using l by (auto simp: le32_of_def eval_nat_numeral length_Suc_conv)
  ultimately have "tmsg_bytes x = bs"
    by (metis x tmsg_bytes_def le32_bytes_of tmsg.select_convs)
  with p show "pending evs = tmsg_bytes x @ pending evs'" by simp
qed

section \<open>Properties\<close>

text \<open>\<open>readx\<close> returns 0 exactly when the stream holds the wanted number of bytes before its
  end or an error other than \<open>EINTR\<close>; it then has stored the first bytes of the stream and left
  the others.  Otherwise it returns -1, having stored what there was.  Segments and interrupted
  calls make no difference.\<close>

theorem readx_exact:
  assumes "readx n evs = Some ((r, bs), evs')"
  shows "(r = 0 \<and> n \<le> length (pending evs) \<and> bs = take n (pending evs) \<and> pending evs' = drop n (pending evs))
       \<or> (r = - 1 \<and> length (pending evs) < n \<and> bs = pending evs)"
proof (cases "r = 0")
  case True
  with readx_result [OF assms] have n: "n \<le> length (pending evs)" and b: "bs = take n (pending evs)"
    by auto
  from readx_complete [OF n] assms True b n show ?thesis by auto
next
  case False
  with readx_result [OF assms] show ?thesis by auto
qed

theorem readx_exact_witness:
  "readx 3 [Avail [1], RdErr EINTR, Avail [2, 3, 4]] = Some ((0, [1, 2, 3]), [Avail [4]])
   \<and> [1, 2, 3] = take 3 (pending [Avail [1], RdErr EINTR, Avail [2, 3, 4]])"
proof -
  have r: "readx 3 [Avail [1], RdErr EINTR, Avail [2, 3, 4]] = Some ((0, [1, 2, 3]), [Avail [4]])"
    by (simp add: readx.simps)
  from readx_exact [OF r] r show ?thesis by simp
qed

text \<open>\<open>writex\<close> never writes anything but a prefix of its buffer, returns 0 exactly when it has
  written all of it and -1 otherwise, and does write all of it whenever the descriptor has room.\<close>

theorem writex_exact:
  assumes "writex bs evs = Some ((r, out), evs')"
  shows "(r = 0 \<or> r = - 1) \<and> (r = 0 \<longleftrightarrow> out = bs) \<and> out = take (length out) bs \<and>
    (length bs \<le> room evs \<longrightarrow> r = 0 \<and> room evs' = room evs - length bs)"
proof -
  have "length bs \<le> room evs \<longrightarrow> r = 0 \<and> room evs' = room evs - length bs"
    using writex_complete [of bs evs] assms by auto
  with writex_prefix [OF assms] show ?thesis by auto
qed

theorem writex_exact_witness:
  "writex [1, 2, 3] [Room 2, WrErr EAGAIN] = Some ((- 1, [1, 2]), [])
   \<and> [1, 2] = take 2 [1, 2, 3 :: byte]"
proof -
  have f: "writex [1, 2, 3] [Room 2, WrErr EAGAIN] = Some ((- 1, [1, 2]), [])"
    by (simp add: writex.simps)
  from writex_exact [OF f] f show ?thesis by simp
qed

end
