(* ===== verification/Packet.thy ===== *)
theory Packet
  imports Sysio
begin

text \<open>
  The packets of the adb protocol (\<open>adb/adb.h\<close>: \<open>amessage\<close>, \<open>apacket\<close>; \<open>adb/adb.cpp\<close>:
  \<open>get_apacket\<close>; \<open>adb/transport.cpp\<close>: the sealing part of \<open>send_packet\<close>, \<open>check_header\<close>,
  \<open>check_data\<close>; \<open>adb/transport_local.cpp\<close>: \<open>fix_endians\<close>, \<open>remote_read\<close>, \<open>remote_write\<close>).

  A packet's payload buffer is a list of \<open>MAX_PAYLOAD\<close> bytes.  Reading outside of the buffer, which
  the C code would do for a \<open>data_length\<close> beyond it, gives \<open>None\<close>.  The lemmas show that a sealed
  packet passes both checks, that corrupting the payload or the command is noticed, and that the
  stream transport is a framing channel: what is sent is what is received.
\<close>

section \<open>Messages and packets\<close>

definition MAX_PAYLOAD :: nat where "MAX_PAYLOAD = 4096"

definition A_SYNC :: u32 where "A_SYNC = 0x434e5953"
definition A_CNXN :: u32 where "A_CNXN = 0x4e584e43"
definition A_OPEN :: u32 where "A_OPEN = 0x4e45504f"
definition A_OKAY :: u32 where "A_OKAY = 0x59414b4f"
definition A_CLSE :: u32 where "A_CLSE = 0x45534c43"
definition A_WRTE :: u32 where "A_WRTE = 0x45545257"
definition A_AUTH :: u32 where "A_AUTH = 0x48545541"
definition A_VERSION :: u32 where "A_VERSION = 0x01000000"

lemmas command_defs = A_SYNC_def A_CNXN_def A_OPEN_def A_OKAY_def A_CLSE_def A_WRTE_def A_AUTH_def

record amessage =
  command :: u32
  arg0 :: u32
  arg1 :: u32
  data_length :: u32
  data_check :: u32
  magic :: u32

record apacket =
  pk_len :: u32
  pk_ptr :: nat
  pk_msg :: amessage
  pk_data :: "byte list"

text \<open>
  \<open>get_apacket\<close> clears everything but the payload buffer, which keeps what the allocator left
  in it.
\<close>

definition get_apacket :: "byte list \<Rightarrow> apacket" where
  "get_apacket junk = \<lparr>pk_len = 0, pk_ptr = 0,
     pk_msg = \<lparr>command = 0, arg0 = 0, arg1 = 0, data_length = 0, data_check = 0, magic = 0\<rparr>,
     pk_data = junk\<rparr>"

text \<open>The summing loop of \<open>send_packet\<close> and \<open>check_data\<close>; it stops with \<open>None\<close> outside of the buffer.\<close>

fun sum_data :: "nat \<Rightarrow> byte list \<Rightarrow> u32 \<Rightarrow> u32 option" where
  "sum_data 0 xs acc = Some acc"
| "sum_data (Suc count) [] acc = None"
| "sum_data (Suc count) (x # xs) acc = sum_data count xs (acc + ucast x)"

definition seal_packet :: "apacket \<Rightarrow> apacket option" where
  "seal_packet p =
     (let m = (pk_msg p)\<lparr>magic := command (pk_msg p) XOR 0xffffffff\<rparr> in
      case sum_data (unat (data_length m)) (pk_data p) 0 of
        None \<Rightarrow> None
      | Some s \<Rightarrow> Some (p\<lparr>pk_msg := m\<lparr>data_check := s\<rparr>\<rparr>))"

definition check_header :: "apacket \<Rightarrow> int" where
  "check_header p =
     (if magic (pk_msg p) \<noteq> command (pk_msg p) XOR 0xffffffff then - 1
      else if unat (data_length (pk_msg p)) > MAX_PAYLOAD then - 1
      else 0)"

definition check_data :: "apacket \<Rightarrow> int option" where
  "check_data p = (case sum_data (unat (data_length (pk_msg p))) (pk_data p) 0 of
     None \<Rightarrow> None
   | Some s \<Rightarrow> Some (if s \<noteq> data_check (pk_msg p) then - 1 else 0))"

definition wf_packet :: "apacket \<Rightarrow> bool" where
  "wf_packet p \<longleftrightarrow> length (pk_data p) = MAX_PAYLOAD \<and> unat (data_length (pk_msg p)) \<le> MAX_PAYLOAD"

definition payload :: "apacket \<Rightarrow> byte list" where
  "payload p = take (unat (data_length (pk_msg p))) (pk_data p)"

section \<open>Checksums\<close>

abbreviation byte_sum :: "byte list \<Rightarrow> u32" where
  "byte_sum xs \<equiv> sum_list (map ucast xs)"

lemma sum_data_eq: "n \<le> length xs \<Longrightarrow> sum_data n xs s = Some (s + byte_sum (take n xs))"
  by (induction n xs s rule: sum_data.induct) (auto simp: add.assoc)

lemma sum_data_None: "length xs < n \<Longrightarrow> sum_data n xs s = None"
  by (induction n xs s rule: sum_data.induct) auto

lemma check_data_eq:
  "wf_packet p \<Longrightarrow>
     check_data p = Some (if byte_sum (payload p) \<noteq> data_check (pk_msg p) then - 1 else 0)"
  by (simp add: check_data_def wf_packet_def payload_def sum_data_eq)

lemma check_data_cong:
  "wf_packet p \<Longrightarrow> wf_packet q \<Longrightarrow> payload p = payload q \<Longrightarrow> pk_msg p = pk_msg q \<Longrightarrow>
     check_data p = check_data q"
  by (simp add: check_data_eq)

lemma seal_packet_Some:
  assumes "wf_packet p"
  shows "seal_packet p = Some (p\<lparr>pk_msg := (pk_msg p)\<lparr>
     magic := command (pk_msg p) XOR 0xffffffff, data_check := byte_sum (payload p)\<rparr>\<rparr>)"
  using assms by (simp add: seal_packet_def wf_packet_def payload_def sum_data_eq Let_def)

lemma seal_packet_oob: "length (pk_data p) < unat (data_length (pk_msg p)) \<Longrightarrow> seal_packet p = None"
  by (simp add: seal_packet_def sum_data_None Let_def)

lemma ucast_byte_inj: "(ucast (a :: byte) :: u32) = ucast b \<Longrightarrow> a = b"
proof -
  assume e: "(ucast a :: u32) = ucast b"
  have low: "(ucast (ucast c :: u32) :: byte) = c" for c
    by (rule bit_word_eqI) (auto simp: bit_simps)
  from e show "a = b" by (metis low)
qed

lemma byte_sum_update:
  assumes "i < length xs" and "b \<noteq> xs ! i"
  shows "byte_sum (xs[i := b]) \<noteq> byte_sum xs"
proof -
  have e: "xs[i := b] = take i xs @ b # drop (Suc i) xs"
    using assms(1) by (rule upd_conv_take_nth_drop)
  have o: "xs = take i xs @ xs ! i # drop (Suc i) xs"
    using assms(1) by (rule id_take_nth_drop)
  have "byte_sum xs = byte_sum (take i xs) + (ucast (xs ! i) + byte_sum (drop (Suc i) xs))"
    by (subst o) simp
  moreover have "byte_sum (xs[i := b]) = byte_sum (take i xs) + (ucast b + byte_sum (drop (Suc i) xs))"
    by (subst e) simp
  ultimately show ?thesis using assms(2) by (auto dest: ucast_byte_inj)
qed

section \<open>Byte order\<close>

text \<open>
  A message is sent as its memory image.  A big-endian host swaps every field (\<open>fix_endians\<close>)
  before it writes and after it has read; on a little-endian host \<open>fix_endians\<close> does nothing.
\<close>

definition H4 :: "u32 \<Rightarrow> u32" where
  "H4 x = drop_bit 24 (x AND 0xFF000000) OR drop_bit 8 (x AND 0x00FF0000)
          OR push_bit 8 (x AND 0x0000FF00) OR push_bit 24 (x AND 0x000000FF)"

definition fix_endians :: "bool \<Rightarrow> amessage \<Rightarrow> amessage" where
  "fix_endians big m = (if big then
     \<lparr>command = H4 (command m), arg0 = H4 (arg0 m), arg1 = H4 (arg1 m),
      data_length = H4 (data_length m), data_check = H4 (data_check m), magic = H4 (magic m)\<rparr>
   else m)"

definition host32 :: "bool \<Rightarrow> u32 \<Rightarrow> byte list" where
  "host32 big w = (if big then rev (le32_bytes w) else le32_bytes w)"

definition host32_of :: "bool \<Rightarrow> byte list \<Rightarrow> u32" where
  "host32_of big bs = le32_of (if big then rev (take 4 bs) else take 4 bs)"

definition mem_image :: "bool \<Rightarrow> amessage \<Rightarrow> byte list" where
  "mem_image big m = host32 big (command m) @ host32 big (arg0 m) @ host32 big (arg1 m)
     @ host32 big (data_length m) @ host32 big (data_check m) @ host32 big (magic m)"

definition mem_load :: "bool \<Rightarrow> byte list \<Rightarrow> amessage" where
  "mem_load big bs = \<lparr>command = host32_of big bs, arg0 = host32_of big (drop 4 bs),
     arg1 = host32_of big (drop 8 bs), data_length = host32_of big (drop 12 bs),
     data_check = host32_of big (drop 16 bs), magic = host32_of big (drop 20 bs)\<rparr>"

text \<open>The bytes on the wire: six little-endian fields.\<close>

definition msg_bytes :: "amessage \<Rightarrow> byte list" where
  "msg_bytes m = le32_bytes (command m) @ le32_bytes (arg0 m) @ le32_bytes (arg1 m)
     @ le32_bytes (data_length m) @ le32_bytes (data_check m) @ le32_bytes (magic m)"

lemma length_msg_bytes [simp]: "length (msg_bytes m) = 24"
  by (simp add: msg_bytes_def)

lemma H4_masks:
  "H4 x = drop_bit 24 (x AND push_bit 24 (mask 8)) OR drop_bit 8 (x AND push_bit 16 (mask 8))
          OR push_bit 8 (x AND push_bit 8 (mask 8)) OR push_bit 24 (x AND mask 8)"
proof -
  have "(0xFF000000 :: u32) = push_bit 24 (mask 8)" "(0x00FF0000 :: u32) = push_bit 16 (mask 8)"
    "(0x0000FF00 :: u32) = push_bit 8 (mask 8)" "(0x000000FF :: u32) = mask 8"
    by (simp_all add: mask_eq_exp_minus_1 push_bit_eq_mult)
  then show ?thesis by (simp only: H4_def)
qed

lemma bit_H4:
  "bit (H4 w) n \<longleftrightarrow> n < 8 \<and> bit w (24 + n) \<or> 8 \<le> n \<and> n < 16 \<and> bit w (8 + n)
     \<or> 16 \<le> n \<and> n < 24 \<and> bit w (n - 8) \<or> 24 \<le> n \<and> n < 32 \<and> bit w (n - 24)"
proof -
  note unf = bit_and_iff bit_drop_bit_eq bit_push_bit_iff bit_mask_iff comp_def possible_bit_word
  have "bit (drop_bit 24 (w AND push_bit 24 (mask 8))) n \<longleftrightarrow> n < 8 \<and> bit w (24 + n)"
    by (simp only: unf) (auto dest: bit_imp_le_length)
  moreover have "bit (drop_bit 8 (w AND push_bit 16 (mask 8))) n \<longleftrightarrow> 8 \<le> n \<and> n < 16 \<and> bit w (8 + n)"
    by (simp only: unf) (auto dest: bit_imp_le_length)
  moreover have "bit (push_bit 8 (w AND push_bit 8 (mask 8))) n \<longleftrightarrow> 16 \<le> n \<and> n < 24 \<and> bit w (n - 8)"
    by (simp only: unf) (auto dest: bit_imp_le_length)
  moreover have "bit (push_bit 24 (w AND mask 8)) n \<longleftrightarrow> 24 \<le> n \<and> n < 32 \<and> bit w (n - 24)"
    by (simp only: unf) (auto dest: bit_imp_le_length)
  ultimately show ?thesis
    unfolding H4_masks bit_or_iff by blast
qed

lemma H4_le32: "le32_bytes (H4 w) = rev (le32_bytes w)"
proof -
  have "(ucast (H4 w) :: byte) = ucast (drop_bit 24 w)"
    "(ucast (drop_bit 8 (H4 w)) :: byte) = ucast (drop_bit 16 w)"
    "(ucast (drop_bit 16 (H4 w)) :: byte) = ucast (drop_bit 8 w)"
    "(ucast (drop_bit 24 (H4 w)) :: byte) = ucast w"
    by (rule bit_word_eqI, simp add: bit_simps bit_H4)+
  then show ?thesis by (simp add: le32_bytes_def)
qed

lemma H4_involution [simp]: "H4 (H4 w) = w"
  by (metis H4_le32 le32_bytes_inj rev_rev_ident)

lemma host32_H4: "host32 True (H4 w) = le32_bytes w" "host32 False w = le32_bytes w"
  by (simp_all add: host32_def H4_le32)

lemma host32_of_H4:
  assumes "4 \<le> length bs"
  shows "H4 (host32_of True bs) = le32_of (take 4 bs)"
proof -
  have l: "length (rev (take 4 bs)) = 4" using assms by simp
  have "le32_bytes (H4 (host32_of True bs)) = take 4 bs"
    by (simp add: H4_le32 host32_of_def le32_bytes_of [OF l])
  then show ?thesis
    by (metis le32_of_bytes_Nil)
qed

lemma mem_image_wire: "mem_image big (fix_endians big m) = msg_bytes m"
  by (cases big) (simp_all add: mem_image_def msg_bytes_def fix_endians_def host32_H4)

lemma le32_of_take: "4 \<le> length bs \<Longrightarrow> le32_of (take 4 bs) = le32_of bs"
  by (cases bs; cases "tl bs"; cases "tl (tl bs)"; cases "tl (tl (tl bs))") (auto simp: le32_of_def)

lemma mem_load_wire:
  assumes "length bs = 24"
  shows "fix_endians big (mem_load big bs) = \<lparr>command = le32_of bs, arg0 = le32_of (drop 4 bs),
     arg1 = le32_of (drop 8 bs), data_length = le32_of (drop 12 bs),
     data_check = le32_of (drop 16 bs), magic = le32_of (drop 20 bs)\<rparr>"
  using assms
  by (cases big)
     (simp_all add: fix_endians_def mem_load_def host32_of_H4 le32_of_take, simp add: host32_of_def le32_of_take)

lemma mem_load_msg_bytes: "fix_endians big (mem_load big (msg_bytes m)) = m"
  by (subst mem_load_wire) (simp_all add: msg_bytes_def)

lemma msg_bytes_mem_load:
  assumes "length bs = 24"
  shows "msg_bytes (fix_endians big (mem_load big bs)) = bs"
proof -
  have c: "le32_bytes (le32_of (drop k bs)) = take 4 (drop k bs)" if "k + 4 \<le> 24" for k
    using that assms le32_of_take [of "drop k bs"] le32_bytes_of [of "take 4 (drop k bs)"] by simp
  have s: "take 4 (drop k bs) @ drop (k + 4) bs = drop k bs" for k
    using append_take_drop_id [of 4 "drop k bs"] by (simp add: add.commute)
  show ?thesis
    using assms c [of 0] c [of 4] c [of 8] c [of 12] c [of 16] c [of 20]
      s [of 0] s [of 4] s [of 8] s [of 12] s [of 16] s [of 20]
    by (simp add: mem_load_wire msg_bytes_def)
qed

section \<open>The stream transport\<close>

text \<open>
  \<open>remote_write\<close> sends the header and the payload, which lie next to each other in \<open>apacket\<close>, with
  one \<open>writex\<close>.  \<open>remote_read\<close> reads a header, checks it, reads as many bytes as it announces into
  the packet and checks the sum; \<open>None\<close> inside of the result is the code -1.
\<close>

definition remote_write :: "bool \<Rightarrow> apacket \<Rightarrow> wr_ev list \<Rightarrow> ((int \<times> byte list) \<times> wr_ev list) option"
  where "remote_write big p evs =
     (let size = unat (data_length (pk_msg p)) in
      if length (pk_data p) < size then None
      else writex (mem_image big (fix_endians big (pk_msg p)) @ take size (pk_data p)) evs)"

definition remote_read :: "bool \<Rightarrow> apacket \<Rightarrow> rd_ev list \<Rightarrow> (apacket option \<times> rd_ev list) option"
  where "remote_read big p evs = (case readx 24 evs of
     None \<Rightarrow> None
   | Some ((r, hdr), evs1) \<Rightarrow>
       if r \<noteq> 0 then Some (None, evs1) else
       let p1 = p\<lparr>pk_msg := fix_endians big (mem_load big hdr)\<rparr> in
       if check_header p1 \<noteq> 0 then Some (None, evs1)
       else (case readx (unat (data_length (pk_msg p1))) evs1 of
         None \<Rightarrow> None
       | Some ((r', bs), evs2) \<Rightarrow>
           if r' \<noteq> 0 then Some (None, evs2) else
           let p2 = p1\<lparr>pk_data := bs @ drop (length bs) (pk_data p1)\<rparr> in
           (case check_data p2 of
              None \<Rightarrow> None
            | Some c \<Rightarrow> Some (if c \<noteq> 0 then None else Some p2, evs2))))"

text \<open>A packet that both checks accept.\<close>

definition sealed :: "apacket \<Rightarrow> bool" where
  "sealed p \<longleftrightarrow> wf_packet p \<and> check_header p = 0 \<and> check_data p = Some 0"

lemma sealed_iff:
  "sealed p \<longleftrightarrow> wf_packet p \<and> magic (pk_msg p) = command (pk_msg p) XOR 0xffffffff
     \<and> data_check (pk_msg p) = byte_sum (payload p)"
  by (auto simp: sealed_def check_data_eq check_header_def wf_packet_def split: if_splits)

text \<open>What a packet means to its receiver: the message and the payload.\<close>

definition view :: "apacket \<Rightarrow> amessage \<times> byte list" where
  "view p = (pk_msg p, payload p)"

definition packet_bytes :: "amessage \<times> byte list \<Rightarrow> byte list" where
  "packet_bytes x = msg_bytes (fst x) @ snd x"

definition legal_packet :: "amessage \<times> byte list \<Rightarrow> bool" where
  "legal_packet x \<longleftrightarrow> (case x of (m, bs) \<Rightarrow> magic m = command m XOR 0xffffffff
     \<and> length bs = unat (data_length m) \<and> length bs \<le> MAX_PAYLOAD \<and> data_check m = byte_sum bs)"

lemma sealed_legal: "sealed p \<Longrightarrow> legal_packet (view p)"
  by (auto simp: sealed_iff legal_packet_def view_def payload_def wf_packet_def)

lemma remote_write_sent:
  assumes "wf_packet p"
  shows "remote_write big p evs = writex (packet_bytes (view p)) evs"
  using assms
  by (simp add: remote_write_def wf_packet_def packet_bytes_def view_def payload_def mem_image_wire Let_def)

lemma remote_read_complete:
  assumes legal: "legal_packet x" and p: "length (pk_data p) = MAX_PAYLOAD"
    and evs: "pending evs = packet_bytes x @ rest"
  shows "\<exists>q evs'. remote_read big p evs = Some (Some q, evs') \<and> view q = x \<and> sealed q
           \<and> pending evs' = rest"
proof -
  obtain m bs where x: "x = (m, bs)" by (cases x)
  have l: "length bs = unat (data_length m)" "length bs \<le> MAX_PAYLOAD"
    using legal by (auto simp: x legal_packet_def)
  have e: "pending evs = msg_bytes m @ bs @ rest" using evs by (simp add: x packet_bytes_def)
  then have "24 \<le> length (pending evs)" by simp
  from readx_complete [OF this] e obtain evs1 where
    r1: "readx 24 evs = Some ((0, msg_bytes m), evs1)" and p1: "pending evs1 = bs @ rest"
    by auto
  from p1 l have "unat (data_length m) \<le> length (pending evs1)" by simp
  from readx_complete [OF this] p1 l obtain evs2 where
    r2: "readx (unat (data_length m)) evs1 = Some ((0, bs), evs2)" and p2: "pending evs2 = rest"
    by auto
  define q where "q = p\<lparr>pk_msg := m, pk_data := bs @ drop (length bs) (pk_data p)\<rparr>"
  have wf: "wf_packet q" using p l by (simp add: q_def wf_packet_def)
  have pl: "payload q = bs" using l by (simp add: q_def payload_def)
  have s: "sealed q" using legal wf pl by (simp add: sealed_iff x legal_packet_def q_def)
  then have "check_data q = Some 0" by (simp add: sealed_def)
  moreover have "check_header (p\<lparr>pk_msg := m\<rparr>) = 0"
    using legal l by (simp add: check_header_def x legal_packet_def)
  ultimately have "remote_read big p evs = Some (Some q, evs2)"
    by (simp add: remote_read_def r1 r2 mem_load_msg_bytes Let_def q_def)
  with s p2 pl show ?thesis by (auto simp: view_def x q_def)
qed

lemma remote_read_sound:
  assumes rd: "remote_read big p evs = Some (Some q, evs')" and p: "length (pk_data p) = MAX_PAYLOAD"
  shows "sealed q \<and> length (pk_data q) = MAX_PAYLOAD \<and> pending evs = packet_bytes (view q) @ pending evs'"
proof -
  from rd obtain hdr evs1 where r1: "readx 24 evs = Some ((0, hdr), evs1)"
    by (auto simp: remote_read_def split: option.splits if_splits prod.splits)
  define m where "m = fix_endians big (mem_load big hdr)"
  from rd r1 obtain bs where h: "check_header (p\<lparr>pk_msg := m\<rparr>) = 0"
    and r2: "readx (unat (data_length m)) evs1 = Some ((0, bs), evs')"
    and q: "q = p\<lparr>pk_msg := m, pk_data := bs @ drop (length bs) (pk_data p)\<rparr>"
    and d: "check_data q = Some 0"
    by (auto simp: remote_read_def Let_def m_def split: option.splits if_splits prod.splits)
  from readx_consumes [OF r1] have e1: "pending evs = hdr @ pending evs1" and l1: "length hdr = 24" .
  from readx_consumes [OF r2] have e2: "pending evs1 = bs @ pending evs'"
    and l2: "length bs = unat (data_length m)" .
  from h have le: "unat (data_length m) \<le> MAX_PAYLOAD" by (auto simp: check_header_def split: if_splits)
  with p l2 q have len: "length (pk_data q) = MAX_PAYLOAD" by simp
  moreover have "wf_packet q" using len le q by (simp add: wf_packet_def)
  moreover have "check_header q = 0" using h q by (auto simp: check_header_def split: if_splits)
  ultimately have "sealed q" using d by (simp add: sealed_def)
  moreover have "packet_bytes (view q) = hdr @ bs"
    using q l2 msg_bytes_mem_load [OF l1, of big] by (simp add: packet_bytes_def view_def payload_def m_def)
  ultimately show ?thesis using len e1 e2 by simp
qed

text \<open>The transport as a framing channel for packets, on a host of either byte order.\<close>

definition recv_packet :: "bool \<Rightarrow> rd_ev list \<Rightarrow> ((amessage \<times> byte list) option \<times> rd_ev list) option"
  where "recv_packet big evs =
     map_option (\<lambda>(r, evs'). (map_option view r, evs'))
       (remote_read big (get_apacket (replicate MAX_PAYLOAD 0)) evs)"

interpretation remote_chan: framing packet_bytes "recv_packet big" legal_packet for big
proof
  let ?p = "get_apacket (replicate MAX_PAYLOAD 0)"
  have lp: "length (pk_data ?p) = MAX_PAYLOAD" by (simp add: get_apacket_def)
  show "\<exists>evs'. recv_packet big evs = Some (Some x, evs') \<and> pending evs' = rest"
    if "legal_packet x" "pending evs = packet_bytes x @ rest" for x evs rest
    using remote_read_complete [OF that(1) lp that(2), of big] by (auto simp: recv_packet_def)
  show "pending evs = packet_bytes x @ pending evs'"
    if "recv_packet big evs = Some (Some x, evs')" for evs x evs'
    using that remote_read_sound [OF _ lp, of big evs] by (fastforce simp: recv_packet_def)
qed

section \<open>Properties\<close>

text \<open>Sealing: a packet whose length fits its buffer is sealed by \<open>send_packet\<close>'s loop without
  a read outside of the buffer, keeps its command, arguments and payload, and passes both checks
  of the receiver.\<close>

theorem seal_packet_passes_checks:
  assumes "wf_packet p"
  shows "\<exists>q. seal_packet p = Some q \<and> check_header q = 0 \<and> check_data q = Some 0
           \<and> payload q = payload p \<and> command (pk_msg q) = command (pk_msg p)
           \<and> arg0 (pk_msg q) = arg0 (pk_msg p) \<and> arg1 (pk_msg q) = arg1 (pk_msg p)
           \<and> data_length (pk_msg q) = data_length (pk_msg p)"
proof -
  obtain q where q: "seal_packet p = Some q"
    "q = p\<lparr>pk_msg := (pk_msg p)\<lparr>magic := command (pk_msg p) XOR 0xffffffff,
           data_check := byte_sum (payload p)\<rparr>\<rparr>"
    using seal_packet_Some [OF assms] by blast
  moreover have "payload q = payload p" using q by (simp add: payload_def)
  moreover have "sealed q"
    using assms q(2) \<open>payload q = payload p\<close> by (simp add: sealed_iff wf_packet_def)
  ultimately show ?thesis by (auto simp: sealed_def)
qed

definition sample_packet :: apacket where
  "sample_packet = \<lparr>pk_len = 0, pk_ptr = 0,
     pk_msg = \<lparr>command = A_WRTE, arg0 = 1, arg1 = 2, data_length = 2, data_check = 0, magic = 0\<rparr>,
     pk_data = [0x61, 0x62] @ replicate 4094 0\<rparr>"

lemma sample_packet_wf: "wf_packet sample_packet"
  by (simp add: wf_packet_def sample_packet_def MAX_PAYLOAD_def)

definition sealed_sample :: apacket where
  "sealed_sample = sample_packet\<lparr>pk_msg := (pk_msg sample_packet)\<lparr>
     magic := A_WRTE XOR 0xffffffff, data_check := 195\<rparr>\<rparr>"

lemma sealed_sample_sealed: "sealed sealed_sample"
  by (simp add: sealed_iff wf_packet_def sealed_sample_def sample_packet_def MAX_PAYLOAD_def payload_def)

theorem seal_packet_passes_checks_witness:
  "wf_packet sample_packet \<and> (\<exists>q. seal_packet sample_packet = Some q \<and> check_header q = 0
     \<and> check_data q = Some 0)"
  using sample_packet_wf seal_packet_passes_checks [OF sample_packet_wf] by blast

text \<open>Corruption: changing one byte of the payload of a packet that \<open>check_data\<close> accepts makes
  \<open>check_data\<close> reject it.\<close>

theorem check_data_detects_corruption:
  assumes "sealed p" and "i < unat (data_length (pk_msg p))" and "b \<noteq> pk_data p ! i"
  shows "check_data (p\<lparr>pk_data := (pk_data p)[i := b]\<rparr>) = Some (- 1)"
proof -
  let ?q = "p\<lparr>pk_data := (pk_data p)[i := b]\<rparr>"
  have wf: "wf_packet p" and sum: "data_check (pk_msg p) = byte_sum (payload p)"
    using assms(1) by (auto simp: sealed_iff)
  then have i: "i < length (payload p)" using assms(2) by (simp add: wf_packet_def payload_def)
  have "payload ?q = (payload p)[i := b]" by (simp add: payload_def take_update_swap)
  moreover have "b \<noteq> payload p ! i" using assms(2,3) by (simp add: payload_def)
  ultimately have "byte_sum (payload ?q) \<noteq> data_check (pk_msg p)"
    using byte_sum_update [OF i] sum by simp
  moreover have "wf_packet ?q" using wf by (simp add: wf_packet_def)
  ultimately show ?thesis by (simp add: check_data_eq)
qed

theorem check_data_detects_corruption_witness:
  "check_data (sealed_sample\<lparr>pk_data := (pk_data sealed_sample)[1 := 0x63]\<rparr>) = Some (- 1)"
  by (rule check_data_detects_corruption [OF sealed_sample_sealed])
     (simp_all add: sealed_sample_def sample_packet_def)

text \<open>Round trip: when \<open>remote_write\<close> has sent a sealed packet, \<open>remote_read\<close> on the other
  side, on a host of any byte order and with the bytes in any segments, returns a packet with the
  same message and payload and leaves the bytes that follow.\<close>

theorem remote_roundtrip:
  assumes "sealed p" and "length (packet_bytes (view p)) \<le> room wevs"
    and "length (pk_data buf) = MAX_PAYLOAD"
  shows "\<exists>wevs'. remote_write big p wevs = Some ((0, packet_bytes (view p)), wevs') \<and>
    (\<forall>revs rest. pending revs = packet_bytes (view p) @ rest \<longrightarrow>
       (\<exists>q revs'. remote_read big' buf revs = Some (Some q, revs') \<and> view q = view p
          \<and> pending revs' = rest))"
proof -
  have "wf_packet p" using assms(1) by (simp add: sealed_iff)
  with writex_complete [OF assms(2)] obtain wevs' where
    "remote_write big p wevs = Some ((0, packet_bytes (view p)), wevs')"
    by (auto simp: remote_write_sent)
  then show ?thesis
    using remote_read_complete [OF sealed_legal [OF assms(1)] assms(3), of _ _ big'] by blast
qed

theorem remote_roundtrip_witness:
  "\<exists>q revs'. remote_read True (get_apacket (replicate MAX_PAYLOAD 7))
       [Avail (packet_bytes (view sealed_sample)), RdErr EAGAIN] = Some (Some q, revs')
     \<and> view q = view sealed_sample"
proof -
  have r: "length (packet_bytes (view sealed_sample)) \<le> room [Room 30]"
    by (simp add: packet_bytes_def view_def payload_def sealed_sample_def sample_packet_def)
  have b: "length (pk_data (get_apacket (replicate MAX_PAYLOAD 7))) = MAX_PAYLOAD"
    by (simp add: get_apacket_def)
  have "packet_bytes (view sealed_sample) \<noteq> []" by (simp add: packet_bytes_def msg_bytes_def le32_bytes_def)
  then have "pending [Avail (packet_bytes (view sealed_sample)), RdErr EAGAIN]
      = packet_bytes (view sealed_sample) @ []" by simp
  with remote_roundtrip [OF sealed_sample_sealed r b, of False True] show ?thesis by blast
qed

text \<open>Safety of the receiver: whatever bytes arrive, a packet that \<open>remote_read\<close> returns passes
  both checks, its buffer has kept its size of \<open>MAX_PAYLOAD\<close> bytes (no write beyond it), and it is
  what the bytes taken from the stream encode.\<close>

theorem remote_read_safe:
  assumes "remote_read big p evs = Some (Some q, evs')" and "length (pk_data p) = MAX_PAYLOAD"
  shows "check_header q = 0 \<and> check_data q = Some 0 \<and> length (pk_data q) = MAX_PAYLOAD
           \<and> pending evs = packet_bytes (view q) @ pending evs'"
  using remote_read_sound [OF assms] by (simp add: sealed_def)

theorem remote_read_safe_witness:
  "\<exists>q evs'. remote_read False (get_apacket (replicate MAX_PAYLOAD 0))
       [Avail (packet_bytes (view sealed_sample))] = Some (Some q, evs')
     \<and> check_header q = 0 \<and> length (pk_data q) = MAX_PAYLOAD"
proof -
  let ?evs = "[Avail (packet_bytes (view sealed_sample))]"
  have b: "length (pk_data (get_apacket (replicate MAX_PAYLOAD 0))) = MAX_PAYLOAD"
    by (simp add: get_apacket_def)
  have "packet_bytes (view sealed_sample) \<noteq> []" by (simp add: packet_bytes_def msg_bytes_def le32_bytes_def)
  then have "pending ?evs = packet_bytes (view sealed_sample) @ []" by simp
  from remote_read_complete [OF sealed_legal [OF sealed_sample_sealed] b this, of False] obtain q evs'
    where r: "remote_read False (get_apacket (replicate MAX_PAYLOAD 0)) ?evs = Some (Some q, evs')"
    by blast
  from remote_read_safe [OF r b] r show ?thesis by blast
qed

text \<open>Packets written one after the other: the results, all bytes, and what the descriptor will still do.\<close>

fun remote_writes :: "bool \<Rightarrow> apacket list \<Rightarrow> wr_ev list \<Rightarrow> ((int list \<times> byte list) \<times> wr_ev list) option" where
  "remote_writes big [] evs = Some (([], []), evs)"
| "remote_writes big (p # ps) evs = (case remote_write big p evs of
     None \<Rightarrow> None
   | Some ((r, out), evs1) \<Rightarrow> map_option (\<lambda>((rs, outs), evs2). ((r # rs, out @ outs), evs2)) (remote_writes big ps evs1))"

lemma remote_writes_complete:
  assumes "\<forall>p \<in> set ps. wf_packet p" and "length (concat (map (packet_bytes \<circ> view) ps)) \<le> room evs"
  shows "\<exists>evs'. remote_writes big ps evs
    = Some ((replicate (length ps) 0, concat (map (packet_bytes \<circ> view) ps)), evs')"
  using assms
proof (induction ps arbitrary: evs)
  case (Cons p ps)
  then have "length (packet_bytes (view p)) \<le> room evs" by simp
  from writex_complete [OF this] obtain evs1 where
    w: "remote_write big p evs = Some ((0, packet_bytes (view p)), evs1)" "room evs1 = room evs - length (packet_bytes (view p))"
    using Cons.prems(1) by (auto simp: remote_write_sent)
  have "\<forall>p \<in> set ps. wf_packet p" "length (concat (map (packet_bytes \<circ> view) ps)) \<le> room evs1"
    using Cons.prems w(2) by (simp_all add: o_def)
  from Cons.IH [OF this] obtain evs' where
    "remote_writes big ps evs1 = Some ((replicate (length ps) 0, concat (map (packet_bytes \<circ> view) ps)), evs')" by blast
  with w(1) show ?case by (simp add: o_def)
qed simp

text \<open>C10. Order and framing: a sequence of sealed packets that \<open>remote_write\<close> writes one after the other, on a host of
  either byte order and in whatever portions the descriptor takes them, is received as that
  sequence: with the bytes in any segments, each \<open>remote_read\<close> into a new packet starts where the one before has
  stopped and returns the next message and payload, and the bytes behind the last one are left.\<close>

theorem packet_sequence_received:
  assumes "\<forall>p \<in> set ps. sealed p" and "sum_list (map (\<lambda>p. 24 + length (payload p)) ps) \<le> room wevs"
  shows "\<exists>out wevs'. remote_writes big ps wevs = Some ((replicate (length ps) 0, out), wevs')
    \<and> (\<forall>evs rest. pending evs = out @ rest \<longrightarrow> (\<exists>ess. length ess = length ps
        \<and> (\<forall>i < length ps. \<exists>q. remote_read big' (get_apacket (replicate MAX_PAYLOAD 0)) ((evs # ess) ! i) = Some (Some q, ess ! i)
             \<and> view q = view (ps ! i))
        \<and> pending (last (evs # ess)) = rest))"
proof -
  let ?out = "concat (map (packet_bytes \<circ> view) ps)"
  have "length ?out = sum_list (map (\<lambda>p. 24 + length (payload p)) ps)"
    by (induction ps) (simp_all add: packet_bytes_def view_def)
  then obtain wevs' where w: "remote_writes big ps wevs = Some ((replicate (length ps) 0, ?out), wevs')"
    using remote_writes_complete [of ps wevs big] assms by (auto simp: sealed_def)
  have legal: "\<forall>x \<in> set (map view ps). legal_packet x" using assms(1) by (auto intro: sealed_legal)
  have "\<exists>ess. length ess = length ps
      \<and> (\<forall>i < length ps. \<exists>q. remote_read big' (get_apacket (replicate MAX_PAYLOAD 0)) ((evs # ess) ! i) = Some (Some q, ess ! i)
           \<and> view q = view (ps ! i))
      \<and> pending (last (evs # ess)) = rest" if "pending evs = ?out @ rest" for evs rest
  proof -
    have "pending evs = concat (map packet_bytes (map view ps)) @ rest" using that by simp
    from remote_chan.dec_sequence [OF legal this, of big'] obtain ess where e: "length ess = length ps"
      "pending (last (evs # ess)) = rest"
      "\<forall>i < length ps. recv_packet big' ((evs # ess) ! i) = Some (Some (view (ps ! i)), ess ! i)" by auto
    then have "\<forall>i < length ps. \<exists>q. remote_read big' (get_apacket (replicate MAX_PAYLOAD 0)) ((evs # ess) ! i) = Some (Some q, ess ! i)
           \<and> view q = view (ps ! i)" by (auto simp: recv_packet_def)
    with e show ?thesis by blast
  qed
  with w show ?thesis by blast
qed

theorem packet_sequence_received_witness:
  "\<exists>out wevs' q evs'. remote_writes True [sealed_sample, sealed_sample] [Room 30, Room 100] = Some (([0, 0], out), wevs')
     \<and> remote_read False (get_apacket (replicate MAX_PAYLOAD 0)) [Avail (out @ [9])] = Some (Some q, evs')
     \<and> view q = view sealed_sample"
proof -
  let ?ps = "[sealed_sample, sealed_sample]"
  have 1: "\<forall>p \<in> set ?ps. sealed p" by (simp add: sealed_sample_sealed)
  have 2: "sum_list (map (\<lambda>p. 24 + length (payload p)) ?ps) \<le> room [Room 30, Room 100]"
    by (simp add: payload_def sealed_sample_def sample_packet_def)
  obtain out wevs' where w: "remote_writes True ?ps [Room 30, Room 100] = Some ((replicate (length ?ps) 0, out), wevs')"
    and r: "\<forall>evs rest. pending evs = out @ rest \<longrightarrow> (\<exists>ess. length ess = length ?ps
        \<and> (\<forall>i < length ?ps. \<exists>q. remote_read False (get_apacket (replicate MAX_PAYLOAD 0)) ((evs # ess) ! i) = Some (Some q, ess ! i)
             \<and> view q = view (?ps ! i))
        \<and> pending (last (evs # ess)) = rest)"
    using packet_sequence_received [OF 1 2, of True False] by blast
  have "pending [Avail (out @ [9])] = out @ [9]" by simp
  with r obtain ess where "\<forall>i < length ?ps. \<exists>q. remote_read False (get_apacket (replicate MAX_PAYLOAD 0))
      (([Avail (out @ [9])] # ess) ! i) = Some (Some q, ess ! i) \<and> view q = view (?ps ! i)" by blast
  then obtain q where "remote_read False (get_apacket (replicate MAX_PAYLOAD 0)) [Avail (out @ [9])] = Some (Some q, ess ! 0)"
    "view q = view sealed_sample" by force
  with w show ?thesis by auto
qed

end
