(* ===== verification/DList.thy ===== *)
theory DList
  imports Prelude
begin

text \<open>
  The intrusive doubly linked rings of the program: \<open>fdevent_plist_enqueue\<close>, \<open>fdevent_plist_remove\<close>
  and \<open>fdevent_plist_dequeue\<close> of \<open>adb/fdevent.c\<close>, and the same pointer code in
  \<open>insert_local_socket\<close> and \<open>remove_socket\<close> of \<open>adb/sockets.cpp\<close>.

  Nodes are addresses, 0 is the null pointer, and the \<open>next\<close> and \<open>prev\<close> fields of all nodes are two
  functions.  The ring predicate relates the pointers to a list of nodes.  The locale
  \<open>intrusive_queue\<close> is the interface the other components use: their models keep a list, and the
  interpretation of the locale shows that the pointer code implements the list operations.
\<close>

record links =
  nxt :: "nat \<Rightarrow> nat"
  prv :: "nat \<Rightarrow> nat"

text \<open>\<open>node->next = list; node->prev = list->prev; node->prev->next = node; list->prev = node;\<close>\<close>

definition dl_enqueue :: "nat \<Rightarrow> nat \<Rightarrow> links \<Rightarrow> links" where
  "dl_enqueue list node l =
     (let l1 = l\<lparr>nxt := (nxt l)(node := list)\<rparr>;
          l2 = l1\<lparr>prv := (prv l1)(node := prv l1 list)\<rparr>;
          l3 = l2\<lparr>nxt := (nxt l2)(prv l2 node := node)\<rparr>
      in l3\<lparr>prv := (prv l3)(list := node)\<rparr>)"

text \<open>\<open>node->prev->next = node->next; node->next->prev = node->prev; node->next = node->prev = 0;\<close>\<close>

definition dl_remove :: "nat \<Rightarrow> links \<Rightarrow> links" where
  "dl_remove node l =
     (let l1 = l\<lparr>nxt := (nxt l)(prv l node := nxt l node)\<rparr>;
          l2 = l1\<lparr>prv := (prv l1)(nxt l1 node := prv l1 node)\<rparr>
      in l2\<lparr>nxt := (nxt l2)(node := 0), prv := (prv l2)(node := 0)\<rparr>)"

text \<open>The first node, or 0 when the ring is empty.\<close>

definition dl_dequeue :: "nat \<Rightarrow> links \<Rightarrow> nat \<times> links" where
  "dl_dequeue list l =
     (let node = nxt l list in
      if node = list then (0, l)
      else let l1 = l\<lparr>nxt := (nxt l)(list := nxt l node)\<rparr>;
               l2 = l1\<lparr>prv := (prv l1)(nxt l1 list := list)\<rparr>
           in (node, l2\<lparr>nxt := (nxt l2)(node := 0), prv := (prv l2)(node := 0)\<rparr>))"

section \<open>Rings\<close>

text \<open>\<open>seg l a xs b\<close>: from \<open>a\<close> the \<open>next\<close> pointers lead through \<open>xs\<close> to \<open>b\<close>, and the \<open>prev\<close> pointers back.\<close>

fun seg :: "links \<Rightarrow> nat \<Rightarrow> nat list \<Rightarrow> nat \<Rightarrow> bool" where
  "seg l a [] b \<longleftrightarrow> nxt l a = b \<and> prv l b = a"
| "seg l a (x # xs) b \<longleftrightarrow> nxt l a = x \<and> prv l x = a \<and> seg l x xs b"

definition ring :: "links \<Rightarrow> nat \<Rightarrow> nat list \<Rightarrow> bool" where
  "ring l h xs \<longleftrightarrow> seg l h xs h \<and> distinct (h # xs) \<and> 0 \<notin> set (h # xs)"

lemma seg_append: "seg l a (xs @ x # ys) b \<longleftrightarrow> seg l a xs x \<and> seg l x ys b"
  by (induction xs arbitrary: a) auto

lemma seg_last: "seg l a xs b \<Longrightarrow> prv l b = last (a # xs) \<and> nxt l (last (a # xs)) = b"
  by (induction xs arbitrary: a) auto

lemma seg_hd: "seg l a xs b \<Longrightarrow> nxt l a = hd (xs @ [b]) \<and> prv l (hd (xs @ [b])) = a"
  by (cases xs) auto

lemma seg_retarget:
  assumes "seg l a xs b"
    and "\<forall>x \<in> set (butlast (a # xs)). nxt l' x = nxt l x" and "\<forall>x \<in> set xs. prv l' x = prv l x"
    and "nxt l' (last (a # xs)) = c" and "prv l' c = last (a # xs)"
  shows "seg l' a xs c"
  using assms by (induction xs arbitrary: a) (auto split: if_splits)

lemma seg_frame:
  assumes "seg l a xs b" and "\<forall>x \<in> set (a # xs). nxt l' x = nxt l x"
    and "\<forall>x \<in> insert b (set xs). prv l' x = prv l x"
  shows "seg l' a xs b"
  using assms by (induction xs arbitrary: a) auto

lemma ring_frame:
  assumes "ring l h xs" and "a \<notin> set (h # xs)"
  shows "ring (l\<lparr>nxt := (nxt l)(a := u), prv := (prv l)(a := v)\<rparr>) h xs"
proof -
  have "seg l h xs h" using assms(1) by (simp add: ring_def)
  then have "seg (l\<lparr>nxt := (nxt l)(a := u), prv := (prv l)(a := v)\<rparr>) h xs h"
    by (rule seg_frame) (use assms(2) in auto)
  with assms(1) show ?thesis by (simp add: ring_def)
qed

lemma butlast_not_last: "distinct xs \<Longrightarrow> x \<in> set (butlast xs) \<Longrightarrow> x \<noteq> last xs"
  by (metis append_butlast_last_id butlast.simps(1) distinct_append empty_iff empty_set
      disjoint_insert(1) inf_commute list.simps(15))

lemma ring_enqueue:
  assumes r: "ring l h xs" and n: "n \<notin> set (h # xs)" "n \<noteq> 0"
  shows "ring (dl_enqueue h n l) h (xs @ [n])"
proof -
  let ?z = "last (h # xs)" and ?l = "dl_enqueue h n l"
  have s: "seg l h xs h" and d: "distinct (h # xs)" using r by (auto simp: ring_def)
  have z: "prv l h = ?z" "?z \<in> set (h # xs)" using seg_last [OF s] by auto
  then have zn: "?z \<noteq> n" using n by auto
  have nx: "nxt ?l = (nxt l)(n := h, ?z := n)" and pv: "prv ?l = (prv l)(n := ?z, h := n)"
    using z n by (auto simp: dl_enqueue_def Let_def)
  have "seg ?l h xs n"
  proof (rule seg_retarget [OF s])
    show "\<forall>x \<in> set (butlast (h # xs)). nxt ?l x = nxt l x"
    proof
      fix x assume x: "x \<in> set (butlast (h # xs))"
      from in_set_butlastD [OF x] n have "x \<noteq> n" by auto
      with butlast_not_last [OF d x] show "nxt ?l x = nxt l x" by (simp add: nx)
    qed
    show "\<forall>x \<in> set xs. prv ?l x = prv l x" using n d by (auto simp: pv)
    show "nxt ?l ?z = n" by (simp add: nx)
    show "prv ?l n = ?z" using n by (simp add: pv)
  qed
  moreover have "seg ?l n [] h" using zn n by (simp add: nx pv)
  ultimately have "seg ?l h (xs @ [n]) h" by (simp add: seg_append)
  then show ?thesis using r n by (auto simp: ring_def)
qed

lemma ring_remove:
  assumes r: "ring l h (xs @ n # ys)"
  shows "ring (dl_remove n l) h (xs @ ys)"
proof -
  let ?p = "last (h # xs)" and ?q = "hd (ys @ [h])" and ?l = "dl_remove n l"
  have s1: "seg l h xs n" and s2: "seg l n ys h" and d: "distinct (h # xs @ n # ys)"
    using r by (auto simp: ring_def seg_append)
  have p: "prv l n = ?p" and q: "nxt l n = ?q" using seg_last [OF s1] seg_hd [OF s2] by auto
  have pin: "?p \<in> set (h # xs)" using last_in_set [of "h # xs"] by simp
  have qin: "?q \<in> set (ys @ [h])" using hd_in_set [of "ys @ [h]"] by simp
  have ne: "?p \<noteq> n" "?q \<noteq> n" using pin qin d by auto
  have nx: "nxt ?l = (nxt l)(?p := ?q, n := 0)" and pv: "prv ?l = (prv l)(?q := ?p, n := 0)"
    using ne by (simp_all add: dl_remove_def Let_def p q)
  have "seg ?l h xs ?q"
  proof (rule seg_retarget [OF s1])
    have d': "distinct (h # xs)" using d by auto
    show "\<forall>x \<in> set (butlast (h # xs)). nxt ?l x = nxt l x"
    proof
      fix x assume x: "x \<in> set (butlast (h # xs))"
      from in_set_butlastD [OF x] d have "x \<noteq> n" by auto
      with butlast_not_last [OF d' x] show "nxt ?l x = nxt l x" by (simp add: nx)
    qed
    show "\<forall>x \<in> set xs. prv ?l x = prv l x" using qin d by (auto simp: pv)
  qed (use ne in \<open>simp_all add: nx pv\<close>)
  moreover have "seg ?l y ys' h" if y: "ys = y # ys'" for y ys'
  proof (rule seg_frame [of l])
    show "seg l y ys' h" using s2 y by simp
    have "?p \<notin> set (y # ys')" and "n \<notin> set (y # ys')" using pin d y by auto
    then show "\<forall>x \<in> set (y # ys'). nxt ?l x = nxt l x" by (metis nx fun_upd_other)
    have "y \<notin> insert h (set ys')" and "n \<notin> insert h (set ys')" using d y by auto
    then show "\<forall>x \<in> insert h (set ys'). prv ?l x = prv l x"
      using y by (metis pv fun_upd_other append_Cons list.sel(1))
  qed
  ultimately have "seg ?l h (xs @ ys) h"
    by (cases ys) (simp_all add: seg_append)
  then show ?thesis using r by (auto simp: ring_def)
qed

lemma ring_dequeue_Nil: "ring l h [] \<Longrightarrow> dl_dequeue h l = (0, l)"
  by (simp add: ring_def dl_dequeue_def)

lemma ring_dequeue_Cons:
  assumes r: "ring l h (x # xs)"
  shows "dl_dequeue h l = (x, dl_remove x l)"
proof -
  have "nxt l h = x" "prv l x = h" "x \<noteq> h" using r by (auto simp: ring_def)
  then show ?thesis by (simp add: dl_dequeue_def dl_remove_def Let_def)
qed

section \<open>The queue interface\<close>

text \<open>
  What the users of a ring rely on: it represents a list without duplicates and without the null
  pointer, nodes are added at its end and taken from its front, and any node can be taken out.
\<close>

locale intrusive_queue =
  fixes rep :: "'h \<Rightarrow> nat list \<Rightarrow> bool"
    and enq :: "nat \<Rightarrow> 'h \<Rightarrow> 'h" and deq :: "'h \<Rightarrow> nat \<times> 'h" and rem :: "nat \<Rightarrow> 'h \<Rightarrow> 'h"
    and node :: "nat \<Rightarrow> bool"
  assumes rep_distinct: "rep h xs \<Longrightarrow> distinct xs"
    and rep_node: "rep h xs \<Longrightarrow> x \<in> set xs \<Longrightarrow> node x \<and> x \<noteq> 0"
    and rep_enq: "rep h xs \<Longrightarrow> node x \<Longrightarrow> x \<notin> set xs \<Longrightarrow> rep (enq x h) (xs @ [x])"
    and rep_deq_Nil: "rep h [] \<Longrightarrow> deq h = (0, h)"
    and rep_deq_Cons: "rep h (x # xs) \<Longrightarrow> fst (deq h) = x \<and> rep (snd (deq h)) xs"
    and rep_rem: "rep h xs \<Longrightarrow> x \<in> set xs \<Longrightarrow> rep (rem x h) (remove1 x xs)"
begin

lemma rep_unique: "rep h xs \<Longrightarrow> rep h ys \<Longrightarrow> xs = ys"
proof (induction xs arbitrary: h ys)
  case Nil
  then show ?case using rep_deq_Nil [OF Nil(1)] rep_deq_Cons rep_node by (cases ys) fastforce+
next
  case (Cons x xs)
  note c = rep_deq_Cons [OF Cons.prems(1)]
  show ?case
  proof (cases ys)
    case Nil
    then show ?thesis using Cons.prems c rep_deq_Nil rep_node by fastforce
  next
    case (Cons y ys')
    with Cons.prems(2) have "fst (deq h) = y \<and> rep (snd (deq h)) ys'" by (simp add: rep_deq_Cons)
    with c Cons.IH Cons show ?thesis by auto
  qed
qed

text \<open>Taking nodes out until the null pointer comes delivers the list in its order.\<close>

fun take_all :: "nat \<Rightarrow> 'h \<Rightarrow> nat list" where
  "take_all 0 h = []"
| "take_all (Suc n) h = (if fst (deq h) = 0 then [] else fst (deq h) # take_all n (snd (deq h)))"

lemma fifo: "rep h xs \<Longrightarrow> length xs < n \<Longrightarrow> take_all n h = xs"
proof (induction n arbitrary: h xs)
  case (Suc n)
  show ?case
  proof (cases xs)
    case Nil
    with Suc.prems show ?thesis by (simp add: rep_deq_Nil)
  next
    case (Cons y ys)
    with Suc.prems(1) have "fst (deq h) = y" "rep (snd (deq h)) ys" "y \<noteq> 0"
      using rep_deq_Cons rep_node by fastforce+
    with Suc Cons show ?thesis by simp
  qed
qed simp

end

interpretation dl: intrusive_queue
  "\<lambda>l xs. ring l h xs" "dl_enqueue h" "dl_dequeue h" dl_remove "\<lambda>x. x \<noteq> 0 \<and> x \<noteq> h" for h
proof
  show "distinct xs" if "ring l h xs" for l xs using that by (simp add: ring_def)
  show "(x \<noteq> 0 \<and> x \<noteq> h) \<and> x \<noteq> 0" if "ring l h xs" "x \<in> set xs" for l xs x
    using that by (auto simp: ring_def) (metis gr0I)+
  show "ring (dl_enqueue h x l) h (xs @ [x])" if "ring l h xs" "x \<noteq> 0 \<and> x \<noteq> h" "x \<notin> set xs" for l xs x
    using that by (auto intro: ring_enqueue)
  show "dl_dequeue h l = (0, l)" if "ring l h []" for l using that by (rule ring_dequeue_Nil)
  show "fst (dl_dequeue h l) = x \<and> ring (snd (dl_dequeue h l)) h xs" if "ring l h (x # xs)" for l x xs
    using that ring_remove [of l h "[]" x xs] by (simp add: ring_dequeue_Cons)
  show "ring (dl_remove x l) h (remove1 x xs)" if r: "ring l h xs" and x: "x \<in> set xs" for l xs x
  proof -
    from split_list_first [OF x] obtain ys zs where xs: "xs = ys @ x # zs" and "x \<notin> set ys" by blast
    then have "remove1 x xs = ys @ zs" by (simp add: remove1_append)
    with ring_remove r xs show ?thesis by simp
  qed
qed

end
