(* ===== verification/Fdevent.thy ===== *)
theory Fdevent
  imports DList
begin

text \<open>
  The event loop (\<open>adb/fdevent.c\<close>, \<open>adb/fdevent.h\<close>, with the \<open>select\<close> back end) of the systems other
  than Windows; WinLoop has the one that takes its place there.  \<open>fdst\<close> is the module's state: the fdevent objects by address, the table from
  descriptors to objects, the three descriptor sets handed to \<open>select\<close>, the bound \<open>select_n\<close> and
  the pointers of the pending ring.  A call of \<open>FATAL\<close> is \<open>Inl\<close>.  The outcome of \<open>select\<close>, of
  \<open>fcntl(F_GETFL)\<close> on a descriptor, of \<open>malloc\<close> and of reading from the notification pipe are
  arguments of the operations that depend on them.
\<close>

section \<open>State\<close>

definition FDE_READ :: u16 where "FDE_READ = 0x0001"
definition FDE_WRITE :: u16 where "FDE_WRITE = 0x0002"
definition FDE_ERROR :: u16 where "FDE_ERROR = 0x0004"
definition FDE_DONT_CLOSE :: u16 where "FDE_DONT_CLOSE = 0x0080"
definition FDE_EVENTMASK :: u16 where "FDE_EVENTMASK = 0x00ff"
definition FDE_STATEMASK :: u16 where "FDE_STATEMASK = 0xff00"
definition FDE_ACTIVE :: u16 where "FDE_ACTIVE = 0x0100"
definition FDE_PENDING :: u16 where "FDE_PENDING = 0x0200"
definition FDE_CREATED :: u16 where "FDE_CREATED = 0x0400"

text \<open>The callbacks that the program installs.\<close>

datatype fd_func =
    local_socket_event_func | ss_listener_event_func | listener_event_func
  | transport_socket_events | transport_registration_func | fdevent_subproc_event_func
  | jdwp_process_event_func | jdwp_control_event_func | adb_auth_event_func

record fdevent =
  fde_fd :: int
  force_eof :: bool
  state :: u16
  events :: u16
  func :: fd_func
  fde_arg :: nat

record fdst =
  fdes :: "nat \<Rightarrow> fdevent"
  fd_table :: "nat list"
  read_fds :: "nat set"
  write_fds :: "nat set"
  error_fds :: "nat set"
  select_n :: nat
  plist :: links
  nonblock :: "int set"
  closed :: "int list"
  exit_notify_fd :: int

text \<open>The address of the list head \<open>list_pending\<close>.\<close>

definition list_pending :: nat where "list_pending = 1"

datatype fd_fatal =
    BogusNegativeFd int | BogusHugeFd int | NoMemory | FdOutOfRange int | TableOutOfSync int
  | NotCreated nat | MissingFde nat | SubprocRead int | NullFde int | NoSocketPair

definition has :: "u16 \<Rightarrow> u16 \<Rightarrow> bool" where
  "has st flag \<longleftrightarrow> st AND flag \<noteq> 0"

definition upd_fde :: "nat \<Rightarrow> (fdevent \<Rightarrow> fdevent) \<Rightarrow> fdst \<Rightarrow> fdst" where
  "upd_fde a f s = s\<lparr>fdes := (fdes s)(a := f (fdes s a))\<rparr>"

section \<open>The select back end\<close>

definition fdevent_init :: "fdst \<Rightarrow> fdst" where
  "fdevent_init s = s\<lparr>read_fds := {}, write_fds := {}, error_fds := {}\<rparr>"

definition fdevent_connect :: "nat \<Rightarrow> fdst \<Rightarrow> fdst" where
  "fdevent_connect fde s =
     (if int (select_n s) \<le> fde_fd (fdes s fde)
      then s\<lparr>select_n := nat (fde_fd (fdes s fde)) + 1\<rparr> else s)"

text \<open>The loop that looks for the largest index in use below \<open>select_n\<close>.\<close>

definition highest_used :: "nat list \<Rightarrow> nat \<Rightarrow> nat" where
  "highest_used tbl m = foldl (\<lambda>n i. if tbl ! i \<noteq> 0 then i else n) 0 [0..<m]"

definition fdevent_disconnect :: "nat \<Rightarrow> fdst \<Rightarrow> fdst" where
  "fdevent_disconnect fde s =
     (let fd = nat (fde_fd (fdes s fde)) in
      s\<lparr>read_fds := read_fds s - {fd}, write_fds := write_fds s - {fd},
        error_fds := error_fds s - {fd},
        select_n := highest_used (fd_table s) (select_n s) + 1\<rparr>)"

definition fd_put :: "bool \<Rightarrow> nat \<Rightarrow> nat set \<Rightarrow> nat set" where
  "fd_put on fd fds = (if on then insert fd fds else fds - {fd})"

definition fdevent_update :: "nat \<Rightarrow> u16 \<Rightarrow> fdst \<Rightarrow> fdst" where
  "fdevent_update fde ev s =
     (let fd = nat (fde_fd (fdes s fde)) in
      upd_fde fde (\<lambda>f. f\<lparr>state := (state f AND FDE_STATEMASK) OR ev\<rparr>)
        (s\<lparr>read_fds := fd_put (has ev FDE_READ) fd (read_fds s),
           write_fds := fd_put (has ev FDE_WRITE) fd (write_fds s),
           error_fds := fd_put (has ev FDE_ERROR) fd (error_fds s)\<rparr>))"

text \<open>\<open>bad i\<close>: \<open>fcntl(i, F_GETFL)\<close> fails.  The result is the set and the number of bad descriptors.\<close>

definition fdevent_fd_check :: "(nat \<Rightarrow> bool) \<Rightarrow> fdst \<Rightarrow> nat set \<Rightarrow> nat set \<times> int" where
  "fdevent_fd_check bad s fds =
     foldl (\<lambda>(fs, n) i. if fd_table s ! i = 0 then (fs, n)
                        else if bad i then (insert i fs, n + 1) else (fs, n))
       (fds, 0) [0..<select_n s]"

section \<open>The pending list\<close>

definition fdevent_plist_enqueue :: "nat \<Rightarrow> fdst \<Rightarrow> fdst" where
  "fdevent_plist_enqueue node s = s\<lparr>plist := dl_enqueue list_pending node (plist s)\<rparr>"

definition fdevent_plist_remove :: "nat \<Rightarrow> fdst \<Rightarrow> fdst" where
  "fdevent_plist_remove node s = s\<lparr>plist := dl_remove node (plist s)\<rparr>"

definition fdevent_plist_dequeue :: "fdst \<Rightarrow> nat \<times> fdst" where
  "fdevent_plist_dequeue s =
     (let (node, l) = dl_dequeue list_pending (plist s) in (node, s\<lparr>plist := l\<rparr>))"

section \<open>Registration\<close>

text \<open>The doubling loop for the size of the table; the size is never 0 when it is entered.\<close>

function grow_max :: "nat \<Rightarrow> nat \<Rightarrow> nat" where
  "grow_max m fd = (if 0 < m \<and> m \<le> fd then grow_max (m * 2) fd else m)"
  by pat_completeness auto
termination by (relation "measure (\<lambda>(m, fd). Suc fd - m)") auto

declare grow_max.simps [simp del]

text \<open>
  \<open>realloc\<close> and the clearing of the new part: \<open>sizeof(int)\<close> bytes are cleared for each new entry,
  although an entry has the size of a pointer, \<open>psz\<close>.  An entry that is not cleared as a whole
  keeps what the allocator left there (\<open>junk\<close>).
\<close>

definition grow_table :: "nat \<Rightarrow> (nat \<Rightarrow> nat) \<Rightarrow> nat list \<Rightarrow> nat \<Rightarrow> nat list" where
  "grow_table psz junk tbl newmax =
     tbl @ map (\<lambda>i. if (i - length tbl + 1) * psz \<le> 4 * (newmax - length tbl) then 0 else junk i)
       [length tbl..<newmax]"

definition fdevent_register :: "nat \<Rightarrow> (nat \<Rightarrow> nat) option \<Rightarrow> nat \<Rightarrow> fdst \<Rightarrow> fd_fatal + fdst" where
  "fdevent_register psz mem fde s =
     (let fd = fde_fd (fdes s fde) in
      if fd < 0 then Inl (BogusNegativeFd fd)
      else sbind
        (if int (length (fd_table s)) \<le> fd then
           (if 32000 < fd then Inl (BogusHugeFd fd)
            else
              let s1 = (if fd_table s = [] then fdevent_init s else s);
                  start = (if fd_table s = [] then 256 else length (fd_table s));
                  newmax = grow_max start (nat fd)
              in case mem of
                   None \<Rightarrow> Inl NoMemory
                 | Some junk \<Rightarrow> Inr (s1\<lparr>fd_table := grow_table psz junk (fd_table s1) newmax\<rparr>))
         else Inr s)
        (\<lambda>s2. Inr (s2\<lparr>fd_table := (fd_table s2)[nat fd := fde]\<rparr>)))"

definition fdevent_unregister :: "nat \<Rightarrow> fdst \<Rightarrow> fd_fatal + fdst" where
  "fdevent_unregister fde s =
     (let fd = fde_fd (fdes s fde) in
      if fd < 0 \<or> int (length (fd_table s)) \<le> fd then Inl (FdOutOfRange fd)
      else if fd_table s ! nat fd \<noteq> fde then Inl (TableOutOfSync fd)
      else
        let s1 = s\<lparr>fd_table := (fd_table s)[nat fd := 0]\<rparr> in
        Inr (if has (state (fdes s fde)) FDE_DONT_CLOSE then s1
             else s1\<lparr>closed := closed s1 @ [fd]\<rparr>))"

section \<open>The public operations\<close>

definition fdevent_install ::
    "nat \<Rightarrow> (nat \<Rightarrow> nat) option \<Rightarrow> nat \<Rightarrow> int \<Rightarrow> fd_func \<Rightarrow> nat \<Rightarrow> fdst \<Rightarrow> fd_fatal + fdst" where
  "fdevent_install psz mem fde fd fn a s =
     (let s1 = s\<lparr>fdes := (fdes s)(fde := \<lparr>fde_fd = fd, force_eof = False, state = FDE_ACTIVE,
                   events = 0, func = fn, fde_arg = a\<rparr>),
                 plist := (plist s)\<lparr>nxt := (nxt (plist s))(fde := 0), prv := (prv (plist s))(fde := 0)\<rparr>,
                 nonblock := insert fd (nonblock s)\<rparr>
      in sbind (fdevent_register psz mem fde s1)
           (\<lambda>s2. Inr (upd_fde fde (\<lambda>f. f\<lparr>state := state f OR FDE_ACTIVE\<rparr>) (fdevent_connect fde s2))))"

text \<open>\<open>fdevent_create\<close> installs a fresh object; the allocator returns its address, or \<open>None\<close>.\<close>

definition fdevent_create ::
    "nat \<Rightarrow> (nat \<Rightarrow> nat) option \<Rightarrow> nat option \<Rightarrow> int \<Rightarrow> fd_func \<Rightarrow> nat \<Rightarrow> fdst
       \<Rightarrow> fd_fatal + (nat \<times> fdst)" where
  "fdevent_create psz mem new fd fn a s = (case new of
     None \<Rightarrow> Inr (0, s)
   | Some fde \<Rightarrow> sbind (fdevent_install psz mem fde fd fn a s)
       (\<lambda>s1. Inr (fde, upd_fde fde (\<lambda>f. f\<lparr>state := state f OR FDE_CREATED\<rparr>) s1)))"

definition fdevent_remove :: "nat \<Rightarrow> fdst \<Rightarrow> fd_fatal + fdst" where
  "fdevent_remove fde s =
     (let s1 = (if has (state (fdes s fde)) FDE_PENDING then fdevent_plist_remove fde s else s)
      in sbind (if has (state (fdes s fde)) FDE_ACTIVE
                then fdevent_unregister fde (fdevent_disconnect fde s1) else Inr s1)
           (\<lambda>s2. Inr (upd_fde fde (\<lambda>f. f\<lparr>state := 0, events := 0\<rparr>) s2)))"

definition fdevent_destroy :: "nat \<Rightarrow> fdst \<Rightarrow> fd_fatal + fdst" where
  "fdevent_destroy fde s =
     (if fde = 0 then Inr s
      else if \<not> has (state (fdes s fde)) FDE_CREATED then Inl (NotCreated fde)
      else fdevent_remove fde s)"

definition fdevent_set :: "nat \<Rightarrow> u32 \<Rightarrow> fdst \<Rightarrow> fdst" where
  "fdevent_set fde evs s =
     (let ev = (ucast evs :: u16) AND FDE_EVENTMASK in
      if state (fdes s fde) AND FDE_EVENTMASK = ev then s
      else
        let s1 = (if has (state (fdes s fde)) FDE_ACTIVE then fdevent_update fde ev s else s);
            s2 = upd_fde fde (\<lambda>f. f\<lparr>state := (state f AND FDE_STATEMASK) OR ev\<rparr>) s1
        in if has (state (fdes s2 fde)) FDE_PENDING then
             let s3 = upd_fde fde (\<lambda>f. f\<lparr>events := events f AND NOT ev\<rparr>) s2
             in if events (fdes s3 fde) = 0
                then upd_fde fde (\<lambda>f. f\<lparr>state := state f AND NOT FDE_PENDING\<rparr>) (fdevent_plist_remove fde s3)
                else s3
           else s2)"

definition fdevent_add :: "nat \<Rightarrow> u32 \<Rightarrow> fdst \<Rightarrow> fdst" where
  "fdevent_add fde evs s =
     fdevent_set fde (ucast ((state (fdes s fde) AND FDE_EVENTMASK) OR (ucast evs AND FDE_EVENTMASK))) s"

definition fdevent_del :: "nat \<Rightarrow> u32 \<Rightarrow> fdst \<Rightarrow> fdst" where
  "fdevent_del fde evs s =
     fdevent_set fde (ucast ((state (fdes s fde) AND FDE_EVENTMASK) AND NOT (ucast evs AND FDE_EVENTMASK))) s"

section \<open>The loop\<close>

datatype sel_res = Ready int "nat set" "nat set" "nat set" | SelEINTR | SelEBADF | SelOther

text \<open>Marking one object with new events; it is queued unless it already is.\<close>

definition mark_pending :: "nat \<Rightarrow> u16 \<Rightarrow> fdst \<Rightarrow> fdst" where
  "mark_pending fde ev s =
     (let s1 = upd_fde fde (\<lambda>f. f\<lparr>events := events f OR ev\<rparr>) s in
      if has (state (fdes s1 fde)) FDE_PENDING then s1
      else fdevent_plist_enqueue fde
             (upd_fde fde (\<lambda>f. f\<lparr>state := state f OR FDE_PENDING\<rparr>) s1))"

definition ready_events :: "nat set \<Rightarrow> nat set \<Rightarrow> nat set \<Rightarrow> nat \<Rightarrow> u16" where
  "ready_events rfd wfd efd i = (if i \<in> rfd then FDE_READ else 0) OR (if i \<in> wfd then FDE_WRITE else 0)
     OR (if i \<in> efd then FDE_ERROR else 0)"

definition ready_count :: "nat set \<Rightarrow> nat set \<Rightarrow> nat set \<Rightarrow> nat \<Rightarrow> int" where
  "ready_count rfd wfd efd i =
     (if i \<in> rfd then 1 else 0) + (if i \<in> wfd then 1 else 0) + (if i \<in> efd then 1 else 0)"

text \<open>The loop over the descriptors below \<open>select_n\<close>, which ends early when all bits are found.\<close>

fun scan_fds :: "nat set \<Rightarrow> nat set \<Rightarrow> nat set \<Rightarrow> nat list \<Rightarrow> int \<Rightarrow> fdst \<Rightarrow> fd_fatal + fdst" where
  "scan_fds rfd wfd efd [] n s = Inr s"
| "scan_fds rfd wfd efd (i # is) n s =
     (if n \<le> 0 then Inr s
      else if ready_events rfd wfd efd i = 0 then scan_fds rfd wfd efd is n s
      else if fd_table s ! i = 0 then Inl (MissingFde i)
      else scan_fds rfd wfd efd is (n - ready_count rfd wfd efd i)
             (mark_pending (fd_table s ! i) (ready_events rfd wfd efd i) s))"

definition fdevent_process :: "sel_res \<Rightarrow> (nat \<Rightarrow> bool) \<Rightarrow> fdst \<Rightarrow> fd_fatal + fdst" where
  "fdevent_process sel bad s =
     (let go = (\<lambda>n rfd wfd efd.
        let (rfd', n') = (if n \<le> 0 then fdevent_fd_check bad s rfd else (rfd, n))
        in scan_fds rfd' wfd efd [0..<select_n s] n' s)
      in case sel of
           SelEINTR \<Rightarrow> Inr s
         | SelOther \<Rightarrow> Inr s
         | SelEBADF \<Rightarrow> go (- 1) {} {} {}
         | Ready n rfd wfd efd \<Rightarrow> go n rfd wfd efd)"

text \<open>What the callback is applied to.\<close>

type_synonym fd_call = "fd_func \<times> int \<times> u16 \<times> nat"

definition fdevent_call_fdfunc :: "nat \<Rightarrow> fdst \<Rightarrow> fd_call option \<times> fdst" where
  "fdevent_call_fdfunc fde s =
     (let ev = events (fdes s fde);
          s1 = upd_fde fde (\<lambda>f. f\<lparr>events := 0\<rparr>) s
      in if \<not> has (state (fdes s1 fde)) FDE_PENDING then (None, s1)
         else
           let s2 = upd_fde fde (\<lambda>f. f\<lparr>state := state f AND NOT FDE_PENDING\<rparr>) s1;
               f = fdes s2 fde
           in (Some (func f, fde_fd f, ev, fde_arg f), s2))"

text \<open>
  The inner loop of \<open>fdevent_loop\<close>.  The callbacks are the other components: \<open>run\<close> gives their
  effect.  The result is the calls made, in order, and the state after them.  A loop whose
  callbacks always queue more work does not end, hence the \<open>option\<close>.
\<close>

partial_function (option) drain ::
    "(fd_call \<Rightarrow> fdst \<Rightarrow> fdst) \<Rightarrow> fdst \<Rightarrow> (fd_call list \<times> fdst) option" where
  "drain run s =
     (let (fde, s1) = fdevent_plist_dequeue s in
      if fde = 0 then Some ([], s1)
      else (case fdevent_call_fdfunc fde s1 of
          (None, s2) \<Rightarrow> drain run s2
        | (Some c, s2) \<Rightarrow>
            Option.bind (drain run (run c s2)) (\<lambda>(cs, s3). Some (c # cs, s3))))"

text \<open>One round of the outer loop: wait, queue what is ready, call it.\<close>

definition fdevent_round ::
    "sel_res \<Rightarrow> (nat \<Rightarrow> bool) \<Rightarrow> (fd_call \<Rightarrow> fdst \<Rightarrow> fdst) \<Rightarrow> fdst
       \<Rightarrow> (fd_fatal + (fd_call list \<times> fdst)) option" where
  "fdevent_round sel bad run s = (case fdevent_process sel bad s of
     Inl e \<Rightarrow> Some (Inl e)
   | Inr s1 \<Rightarrow> map_option Inr (drain run s1))"

section \<open>The exit notification pipe\<close>

text \<open>
  \<open>fdevent_subproc_event_func\<close>: \<open>got\<close> is the descriptor read from the pipe (\<open>None\<close>: \<open>readx\<close> failed),
  \<open>rcount\<close> what \<open>ioctl(FIONREAD)\<close> tells about it.  The call of the subprocess object's callback is
  part of the result.
\<close>

definition fdevent_subproc_event ::
    "int \<Rightarrow> u32 \<Rightarrow> int option \<Rightarrow> int \<Rightarrow> fdst \<Rightarrow> fd_fatal + (fd_call option \<times> fdst)" where
  "fdevent_subproc_event fd ev got rcount s =
     (if fd < 0 \<or> int (length (fd_table s)) \<le> fd then Inl (FdOutOfRange fd)
      else if fd_table s ! nat fd = 0 then Inl (NullFde fd)
      else
        let s1 = fdevent_add (fd_table s ! nat fd) (ucast FDE_READ) s in
        if \<not> has (ucast ev) FDE_READ then Inr (None, s1)
        else (case got of
            None \<Rightarrow> Inl (SubprocRead fd)
          | Some sfd \<Rightarrow>
              if sfd < 0 \<or> int (length (fd_table s1)) \<le> sfd then Inr (None, s1)
              else
                let sub = fd_table s1 ! nat sfd in
                if sub = 0 then Inr (None, s1)
                else if fde_fd (fdes s1 sub) \<noteq> sfd then Inr (None, s1)
                else
                  let s2 = upd_fde sub (\<lambda>f. f\<lparr>force_eof := True\<rparr>) s1 in
                  if rcount \<noteq> 0 then Inr (None, s2)
                  else
                    let s3 = upd_fde sub (\<lambda>f. f\<lparr>events := events f OR FDE_READ\<rparr>) s2 in
                    if has (state (fdes s3 sub)) FDE_PENDING then Inr (None, s3)
                    else Inr (fdevent_call_fdfunc sub
                           (upd_fde sub (\<lambda>f. f\<lparr>state := state f OR FDE_PENDING\<rparr>) s3))))"

definition fdevent_subproc_setup ::
    "nat \<Rightarrow> (nat \<Rightarrow> nat) option \<Rightarrow> (int \<times> int) option \<Rightarrow> nat option \<Rightarrow> fdst \<Rightarrow> fd_fatal + fdst" where
  "fdevent_subproc_setup psz mem pair new s = (case pair of
     None \<Rightarrow> Inl NoSocketPair
   | Some (s0, s1) \<Rightarrow>
       sbind (fdevent_create psz mem new s1 fdevent_subproc_event_func 0 (s\<lparr>exit_notify_fd := s0\<rparr>))
         (\<lambda>(fde, s2). if fde = 0 then Inl NoMemory else Inr (fdevent_add fde (ucast FDE_READ) s2)))"

section \<open>Flags\<close>

lemma has_bit [simp]:
  "has st FDE_READ \<longleftrightarrow> bit st 0" "has st FDE_WRITE \<longleftrightarrow> bit st 1" "has st FDE_ERROR \<longleftrightarrow> bit st 2"
  "has st FDE_DONT_CLOSE \<longleftrightarrow> bit st 7" "has st FDE_ACTIVE \<longleftrightarrow> bit st 8"
  "has st FDE_PENDING \<longleftrightarrow> bit st 9" "has st FDE_CREATED \<longleftrightarrow> bit st 10"
  using and_exp_eq_0_iff_not_bit [of st 0] and_exp_eq_0_iff_not_bit [of st 1]
    and_exp_eq_0_iff_not_bit [of st 2] and_exp_eq_0_iff_not_bit [of st 7]
    and_exp_eq_0_iff_not_bit [of st 8] and_exp_eq_0_iff_not_bit [of st 9]
    and_exp_eq_0_iff_not_bit [of st 10]
  by (simp_all add: has_def FDE_READ_def FDE_WRITE_def FDE_ERROR_def FDE_DONT_CLOSE_def
      FDE_ACTIVE_def FDE_PENDING_def FDE_CREATED_def)

lemma flag_exp:
  "FDE_READ = push_bit 0 1" "FDE_WRITE = push_bit 1 1" "FDE_ERROR = push_bit 2 1"
  "FDE_ACTIVE = push_bit 8 1" "FDE_PENDING = push_bit 9 1" "FDE_CREATED = push_bit 10 1"
  "FDE_EVENTMASK = mask 8" "FDE_STATEMASK = push_bit 8 (mask 8)"
  by (simp_all add: FDE_READ_def FDE_WRITE_def FDE_ERROR_def FDE_ACTIVE_def FDE_PENDING_def
      FDE_CREATED_def FDE_EVENTMASK_def FDE_STATEMASK_def mask_eq_exp_minus_1 push_bit_eq_mult)

lemma bit_flags [simp]:
  "bit FDE_READ k \<longleftrightarrow> k = 0" "bit FDE_WRITE k \<longleftrightarrow> k = 1" "bit FDE_ERROR k \<longleftrightarrow> k = 2"
  "bit FDE_ACTIVE k \<longleftrightarrow> k = 8" "bit FDE_PENDING k \<longleftrightarrow> k = 9" "bit FDE_CREATED k \<longleftrightarrow> k = 10"
  "bit FDE_EVENTMASK k \<longleftrightarrow> k < 8" "bit FDE_STATEMASK k \<longleftrightarrow> 8 \<le> k \<and> k < 16"
  unfolding flag_exp
  by (simp_all only: bit_push_bit_iff bit_mask_iff bit_1_iff possible_bit_word) auto

lemma bit_u16_bound: "bit (w :: u16) k \<Longrightarrow> k < 16"
  using bit_imp_le_length [of w k] by simp

section \<open>The invariant\<close>

text \<open>
  \<open>pend_inv\<close>: the ring holds exactly the objects with \<open>FDE_PENDING\<close>, which are exactly those that
  have an event to deliver.
  \<open>table_inv\<close>: the table and the active objects point at each other, all below \<open>select_n\<close>.
  \<open>interest_inv\<close>: the sets given to \<open>select\<close> are what the states of the registered objects say.
\<close>

definition pend_inv :: "fdst \<Rightarrow> nat list \<Rightarrow> bool" where
  "pend_inv s ps \<longleftrightarrow> ring (plist s) list_pending ps
     \<and> (\<forall>a. a \<in> set ps \<longleftrightarrow> bit (state (fdes s a)) 9)
     \<and> (\<forall>a. a \<in> set ps \<longleftrightarrow> events (fdes s a) \<noteq> 0)"

definition table_inv :: "fdst \<Rightarrow> bool" where
  "table_inv s \<longleftrightarrow> select_n s \<le> length (fd_table s)
     \<and> (\<forall>i < length (fd_table s). fd_table s ! i \<noteq> 0 \<longrightarrow>
          i < select_n s \<and> fde_fd (fdes s (fd_table s ! i)) = int i \<and> bit (state (fdes s (fd_table s ! i))) 8)
     \<and> (\<forall>a. bit (state (fdes s a)) 8 \<longrightarrow> a \<noteq> 0 \<and> a \<noteq> list_pending \<and> 0 \<le> fde_fd (fdes s a)
          \<and> nat (fde_fd (fdes s a)) < length (fd_table s) \<and> fd_table s ! nat (fde_fd (fdes s a)) = a)"

definition wants :: "fdst \<Rightarrow> nat \<Rightarrow> nat set" where
  "wants s k = {i. i < length (fd_table s) \<and> fd_table s ! i \<noteq> 0 \<and> bit (state (fdes s (fd_table s ! i))) k}"

definition interest_inv :: "fdst \<Rightarrow> bool" where
  "interest_inv s \<longleftrightarrow> read_fds s = wants s 0 \<and> write_fds s = wants s 1 \<and> error_fds s = wants s 2"

definition fd_inv :: "fdst \<Rightarrow> nat list \<Rightarrow> bool" where
  "fd_inv s ps \<longleftrightarrow> pend_inv s ps \<and> table_inv s \<and> interest_inv s"

lemma upd_fde_simps [simp]:
  "fdes (upd_fde a f s) b = (if b = a then f (fdes s a) else fdes s b)"
  "fd_table (upd_fde a f s) = fd_table s" "read_fds (upd_fde a f s) = read_fds s"
  "write_fds (upd_fde a f s) = write_fds s" "error_fds (upd_fde a f s) = error_fds s"
  "select_n (upd_fde a f s) = select_n s" "plist (upd_fde a f s) = plist s"
  "closed (upd_fde a f s) = closed s" "nonblock (upd_fde a f s) = nonblock s"
  "exit_notify_fd (upd_fde a f s) = exit_notify_fd s"
  by (simp_all add: upd_fde_def)

lemma table_inv_cong:
  assumes "fd_table s' = fd_table s" "select_n s' = select_n s"
    and "\<And>a. fde_fd (fdes s' a) = fde_fd (fdes s a)"
    and "\<And>a. bit (state (fdes s' a)) 8 \<longleftrightarrow> bit (state (fdes s a)) 8"
  shows "table_inv s' \<longleftrightarrow> table_inv s"
  by (simp add: table_inv_def assms)

lemma pend_inv_cong:
  assumes "plist s' = plist s" and "\<And>a. bit (state (fdes s' a)) 9 \<longleftrightarrow> bit (state (fdes s a)) 9"
    and "\<And>a. events (fdes s' a) \<noteq> 0 \<longleftrightarrow> events (fdes s a) \<noteq> 0"
    and "pend_inv s ps"
  shows "pend_inv s' ps"
  using assms(4) unfolding pend_inv_def assms(1,2,3) .

lemma wants_cong:
  assumes "fd_table s' = fd_table s"
    and "\<And>a. bit (state (fdes s' a)) k \<longleftrightarrow> bit (state (fdes s a)) k"
  shows "wants s' k = wants s k"
  by (simp add: wants_def assms)

lemma pend_inv_remove:
  assumes "pend_inv s ps" and "a \<in> set ps"
    and "plist s' = dl_remove a (plist s)"
    and "\<And>b. bit (state (fdes s' b)) 9 \<longleftrightarrow> b \<noteq> a \<and> bit (state (fdes s b)) 9"
    and "\<And>b. events (fdes s' b) \<noteq> 0 \<longleftrightarrow> b \<noteq> a \<and> events (fdes s b) \<noteq> 0"
  shows "pend_inv s' (remove1 a ps)"
proof -
  have r: "ring (plist s) list_pending ps" using assms(1) by (simp add: pend_inv_def)
  then have "set (remove1 a ps) = set ps - {a}" by (simp add: ring_def)
  moreover have "ring (plist s') list_pending (remove1 a ps)"
    using dl.rep_rem [OF r assms(2)] assms(3) by simp
  ultimately show ?thesis using assms by (auto simp: pend_inv_def)
qed

lemma pend_inv_enqueue:
  assumes "pend_inv s ps" and "a \<notin> set ps" and "a \<noteq> 0" "a \<noteq> list_pending"
    and "plist s' = dl_enqueue list_pending a (plist s)"
    and "\<And>b. bit (state (fdes s' b)) 9 \<longleftrightarrow> b = a \<or> bit (state (fdes s b)) 9"
    and "\<And>b. events (fdes s' b) \<noteq> 0 \<longleftrightarrow> b = a \<or> events (fdes s b) \<noteq> 0"
  shows "pend_inv s' (ps @ [a])"
proof -
  have r: "ring (plist s) list_pending ps" using assms(1) by (simp add: pend_inv_def)
  have "ring (plist s') list_pending (ps @ [a])"
    using dl.rep_enq [OF r _ assms(2)] assms(3,4,5) by simp
  then show ?thesis using assms by (auto simp: pend_inv_def)
qed

section \<open>Changing the interest\<close>

abbreviation masked :: "u32 \<Rightarrow> u16" where
  "masked evs \<equiv> (ucast evs :: u16) AND FDE_EVENTMASK"

text \<open>The object leaves the pending list: its mask changes and only its unwanted events are there.\<close>

definition set_drops :: "nat \<Rightarrow> u32 \<Rightarrow> fdst \<Rightarrow> bool" where
  "set_drops fde evs s \<longleftrightarrow> state (fdes s fde) AND FDE_EVENTMASK \<noteq> masked evs
     \<and> bit (state (fdes s fde)) 9 \<and> events (fdes s fde) AND NOT (masked evs) = 0"

lemma masked_eq_iff:
  "x AND FDE_EVENTMASK = masked evs \<longleftrightarrow> (\<forall>k < 8. bit x k \<longleftrightarrow> bit (ucast evs :: u16) k)"
proof -
  have "x AND FDE_EVENTMASK = masked evs \<longleftrightarrow>
      (\<forall>k < 16. (bit x k \<and> k < 8) \<longleftrightarrow> (bit (ucast evs :: u16) k \<and> k < 8))"
    by (simp add: bit_eq_iff bit_and_iff)
  also have "\<dots> \<longleftrightarrow> (\<forall>k < 8. bit x k \<longleftrightarrow> bit (ucast evs :: u16) k)" (is "?l \<longleftrightarrow> ?r")
  proof
    assume l: ?l
    show ?r
    proof (intro allI impI)
      fix k :: nat assume k: "k < 8"
      then have "k < 16" by simp
      with l k show "bit x k \<longleftrightarrow> bit (ucast evs :: u16) k" by blast
    qed
  qed blast
  finally show ?thesis .
qed

lemma bit_state_merge:
  "bit ((x AND FDE_STATEMASK) OR masked evs) k \<longleftrightarrow>
     (if k < 8 then bit (ucast evs :: u16) k else bit x k)"
  using bit_u16_bound [of x k] by (auto simp: bit_or_iff bit_and_iff)

lemma bit_state_merge2:
  "bit ((((x AND FDE_STATEMASK) OR masked evs) AND FDE_STATEMASK) OR masked evs) k \<longleftrightarrow>
     (if k < 8 then bit (ucast evs :: u16) k else bit x k)"
  using bit_u16_bound [of x k] by (auto simp: bit_or_iff bit_and_iff)

lemma bit_clear_pending: "bit (x AND NOT FDE_PENDING) k \<longleftrightarrow> bit x k \<and> k \<noteq> 9"
  using bit_u16_bound [of x k] by (auto simp: bit_and_iff bit_not_iff)

lemma fdevent_set_frame [simp]:
  "fd_table (fdevent_set fde evs s) = fd_table s" "select_n (fdevent_set fde evs s) = select_n s"
  "closed (fdevent_set fde evs s) = closed s"
  "fde_fd (fdes (fdevent_set fde evs s) a) = fde_fd (fdes s a)"
  "func (fdes (fdevent_set fde evs s) a) = func (fdes s a)"
  "fde_arg (fdes (fdevent_set fde evs s) a) = fde_arg (fdes s a)"
  "force_eof (fdes (fdevent_set fde evs s) a) = force_eof (fdes s a)"
  by (simp_all add: fdevent_set_def Let_def fdevent_update_def fdevent_plist_remove_def)

lemma fdevent_set_other: "a \<noteq> fde \<Longrightarrow> fdes (fdevent_set fde evs s) a = fdes s a"
  by (simp add: fdevent_set_def Let_def fdevent_update_def fdevent_plist_remove_def)

lemma fdevent_set_state:
  "bit (state (fdes (fdevent_set fde evs s) fde)) k \<longleftrightarrow>
     (if k < 8 then bit (ucast evs :: u16) k
      else bit (state (fdes s fde)) k \<and> \<not> (k = 9 \<and> set_drops fde evs s))"
proof (cases "state (fdes s fde) AND FDE_EVENTMASK = masked evs")
  case True
  then have "fdevent_set fde evs s = s" "\<not> set_drops fde evs s"
    by (simp_all add: fdevent_set_def Let_def set_drops_def)
  with True show ?thesis by (simp add: masked_eq_iff)
next
  case False
  then show ?thesis
    by (auto simp: fdevent_set_def Let_def fdevent_update_def fdevent_plist_remove_def set_drops_def
        bit_state_merge bit_state_merge2 bit_clear_pending)
qed

lemma fdevent_set_events:
  "events (fdes (fdevent_set fde evs s) fde) =
     (if state (fdes s fde) AND FDE_EVENTMASK \<noteq> masked evs \<and> bit (state (fdes s fde)) 9
      then events (fdes s fde) AND NOT (masked evs) else events (fdes s fde))"
  by (simp add: fdevent_set_def Let_def fdevent_update_def fdevent_plist_remove_def bit_state_merge
      bit_state_merge2)

lemma fdevent_set_plist:
  "plist (fdevent_set fde evs s) = (if set_drops fde evs s then dl_remove fde (plist s) else plist s)"
  by (simp add: fdevent_set_def Let_def fdevent_update_def fdevent_plist_remove_def set_drops_def
      bit_state_merge bit_state_merge2)

lemma fdevent_set_sets:
  assumes "bit (state (fdes s fde)) 8" and "state (fdes s fde) AND FDE_EVENTMASK \<noteq> masked evs"
  shows "read_fds (fdevent_set fde evs s) =
      fd_put (bit (ucast evs :: u16) 0) (nat (fde_fd (fdes s fde))) (read_fds s)"
    and "write_fds (fdevent_set fde evs s) =
      fd_put (bit (ucast evs :: u16) 1) (nat (fde_fd (fdes s fde))) (write_fds s)"
    and "error_fds (fdevent_set fde evs s) =
      fd_put (bit (ucast evs :: u16) 2) (nat (fde_fd (fdes s fde))) (error_fds s)"
  using assms
  by (simp_all add: fdevent_set_def Let_def fdevent_update_def fdevent_plist_remove_def bit_and_iff)

lemma wants_set:
  assumes t: "table_inv s" and a: "bit (state (fdes s fde)) 8" and k: "k < 8"
  shows "wants (fdevent_set fde evs s) k =
    fd_put (bit (ucast evs :: u16) k) (nat (fde_fd (fdes s fde))) (wants s k)"
proof -
  let ?fd = "nat (fde_fd (fdes s fde))"
  from t a have fd: "?fd < length (fd_table s)" "fd_table s ! ?fd = fde" "fde \<noteq> 0"
    by (auto simp: table_inv_def)
  have other: "fd_table s ! i \<noteq> fde" if "i < length (fd_table s)" "i \<noteq> ?fd" for i
    using that t fd(3) unfolding table_inv_def by (metis nat_int)
  have "i \<in> wants (fdevent_set fde evs s) k \<longleftrightarrow>
      i \<in> fd_put (bit (ucast evs :: u16) k) ?fd (wants s k)" for i
  proof (cases "i = ?fd")
    case True
    with fd k show ?thesis by (simp add: wants_def fd_put_def fdevent_set_state)
  next
    case False
    with other [of i] show ?thesis
      by (auto simp: wants_def fd_put_def fdevent_set_other)
  qed
  then show ?thesis by blast
qed

lemma fdevent_set_inv:
  assumes inv: "fd_inv s ps" and a: "bit (state (fdes s fde)) 8"
  shows "fd_inv (fdevent_set fde evs s) (if set_drops fde evs s then remove1 fde ps else ps)"
proof -
  let ?s = "fdevent_set fde evs s"
  have p: "pend_inv s ps" and t: "table_inv s" and w: "interest_inv s"
    using inv by (auto simp: fd_inv_def)
  have "bit (state (fdes ?s b)) 8 \<longleftrightarrow> bit (state (fdes s b)) 8" for b
    by (cases "b = fde") (simp_all add: fdevent_set_state fdevent_set_other)
  then have "table_inv ?s"
    using t by (subst table_inv_cong [of _ s]) simp_all
  moreover have "interest_inv ?s"
  proof (cases "state (fdes s fde) AND FDE_EVENTMASK = masked evs")
    case True
    then have "?s = s" by (simp add: fdevent_set_def Let_def)
    with w show ?thesis by simp
  next
    case False
    from w show ?thesis
      by (simp add: interest_inv_def fdevent_set_sets [OF a False] wants_set [OF t a])
  qed
  moreover have "pend_inv ?s (if set_drops fde evs s then remove1 fde ps else ps)"
  proof (cases "set_drops fde evs s")
    case True
    then have m: "fde \<in> set ps" using p by (auto simp: set_drops_def pend_inv_def)
    have "pend_inv ?s (remove1 fde ps)"
    proof (rule pend_inv_remove [OF p m])
      show "bit (state (fdes ?s b)) 9 \<longleftrightarrow> b \<noteq> fde \<and> bit (state (fdes s b)) 9" for b
        by (cases "b = fde") (simp_all add: fdevent_set_state True fdevent_set_other)
      show "events (fdes ?s b) \<noteq> 0 \<longleftrightarrow> b \<noteq> fde \<and> events (fdes s b) \<noteq> 0" for b
        using True by (cases "b = fde") (auto simp: fdevent_set_events fdevent_set_other set_drops_def)
    qed (simp add: fdevent_set_plist True)
    with True show ?thesis by simp
  next
    case False
    have "pend_inv ?s ps"
    proof (rule pend_inv_cong [OF _ _ _ p])
      show "bit (state (fdes ?s b)) 9 \<longleftrightarrow> bit (state (fdes s b)) 9" for b
        by (cases "b = fde") (simp_all add: fdevent_set_state False fdevent_set_other)
      show "events (fdes ?s b) \<noteq> 0 \<longleftrightarrow> events (fdes s b) \<noteq> 0" for b
        using False by (cases "b = fde") (auto simp: fdevent_set_events fdevent_set_other set_drops_def)
    qed (simp add: fdevent_set_plist False)
    with False show ?thesis by simp
  qed
  ultimately show ?thesis by (simp add: fd_inv_def)
qed

section \<open>Registering\<close>

lemma grow_max_bounds: "0 < m \<Longrightarrow> m \<le> grow_max m fd \<and> fd < grow_max m fd"
proof (induction m fd rule: grow_max.induct)
  case (1 m fd)
  show ?case
  proof (cases "m \<le> fd")
    case True
    with "1.prems" "1.IH" show ?thesis by (simp add: grow_max.simps [of m fd])
  next
    case False
    then show ?thesis by (simp add: grow_max.simps)
  qed
qed

lemma grow_table_4: "grow_table 4 junk tbl n = tbl @ replicate (n - length tbl) 0"
proof -
  have "map (\<lambda>i. if (i - length tbl + 1) * 4 \<le> 4 * (n - length tbl) then 0 else junk i)
      [length tbl..<n] = map (\<lambda>_. 0) [length tbl..<n]"
    by (rule map_cong) auto
  then show ?thesis by (simp add: grow_table_def map_replicate_const)
qed

text \<open>The table after \<open>fdevent_register\<close>, and the entry it sets.\<close>

definition grown :: "nat list \<Rightarrow> nat \<Rightarrow> nat list" where
  "grown tbl fd = (if length tbl \<le> fd
     then tbl @ replicate (grow_max (if tbl = [] then 256 else length tbl) fd - length tbl) 0 else tbl)"

lemma grown_length: "length tbl \<le> length (grown tbl fd)" "fd < length (grown tbl fd)"
  using grow_max_bounds [of "if tbl = [] then 256 else length tbl" fd]
  by (auto simp: grown_def split: if_splits)

lemma grown_nth: "i < length (grown tbl fd) \<Longrightarrow> grown tbl fd ! i = (if i < length tbl then tbl ! i else 0)"
  by (auto simp: grown_def nth_append)

lemma fdevent_register_ok:
  assumes "0 \<le> fde_fd (fdes s fde)" and "fde_fd (fdes s fde) \<le> 32000"
  shows "fdevent_register 4 (Some junk) fde s =
    Inr ((if fd_table s = [] then fdevent_init s else s)
      \<lparr>fd_table := (grown (fd_table s) (nat (fde_fd (fdes s fde))))[nat (fde_fd (fdes s fde)) := fde]\<rparr>)"
  using assms
  by (auto simp: fdevent_register_def Let_def grown_def grow_table_4 fdevent_init_def le_nat_iff nat_le_iff)

definition fresh_fde :: "nat \<Rightarrow> int \<Rightarrow> fdst \<Rightarrow> bool" where
  "fresh_fde fde fd s \<longleftrightarrow> fde \<noteq> 0 \<and> fde \<noteq> list_pending
     \<and> \<not> bit (state (fdes s fde)) 8 \<and> \<not> bit (state (fdes s fde)) 9 \<and> 0 \<le> fd \<and> fd \<le> 32000
     \<and> (nat fd < length (fd_table s) \<longrightarrow> fd_table s ! nat fd = 0)"

lemma bit_active_state: "bit (FDE_ACTIVE OR FDE_ACTIVE) k \<longleftrightarrow> k = 8" "bit FDE_ACTIVE k \<longleftrightarrow> k = 8"
  by (auto simp: bit_or_iff)

lemma fdevent_install_result:
  assumes "fresh_fde fde fd s"
  obtains s' where "fdevent_install 4 (Some junk) fde fd fn a s = Inr s'"
    and "fdes s' = (fdes s)(fde := \<lparr>fde_fd = fd, force_eof = False, state = FDE_ACTIVE OR FDE_ACTIVE,
           events = 0, func = fn, fde_arg = a\<rparr>)"
    and "fd_table s' = (grown (fd_table s) (nat fd))[nat fd := fde]"
    and "select_n s' = max (select_n s) (nat fd + 1)"
    and "plist s' = (plist s)\<lparr>nxt := (nxt (plist s))(fde := 0), prv := (prv (plist s))(fde := 0)\<rparr>"
    and "read_fds s' = (if fd_table s = [] then {} else read_fds s)"
    and "write_fds s' = (if fd_table s = [] then {} else write_fds s)"
    and "error_fds s' = (if fd_table s = [] then {} else error_fds s)"
    and "closed s' = closed s"
proof -
  have "0 \<le> fd" "fd \<le> 32000" using assms by (auto simp: fresh_fde_def)
  then obtain s' where r: "fdevent_install 4 (Some junk) fde fd fn a s = Inr s'"
    by (simp add: fdevent_install_def Let_def fdevent_register_ok)
  note unf = fdevent_install_def Let_def fdevent_register_ok fdevent_connect_def fdevent_init_def
    upd_fde_def
  show thesis
  proof (rule that [OF r])
  qed (insert r \<open>0 \<le> fd\<close> \<open>fd \<le> 32000\<close>,
      (cases "fd_table s = []"; cases "int (select_n s) \<le> fd"; force simp: unf)+)
qed

lemma fdevent_install_inv:
  assumes inv: "fd_inv s ps" and new: "fresh_fde fde fd s"
  shows "\<exists>s'. fdevent_install 4 (Some junk) fde fd fn a s = Inr s' \<and> fd_inv s' ps
    \<and> fd_table s' ! nat fd = fde \<and> state (fdes s' fde) = FDE_ACTIVE \<and> closed s' = closed s"
proof -
  have p: "pend_inv s ps" and t: "table_inv s" and w: "interest_inv s"
    using inv by (auto simp: fd_inv_def)
  have ne: "fde \<noteq> 0" "fde \<noteq> list_pending" and na: "\<not> bit (state (fdes s fde)) 8"
    and np: "\<not> bit (state (fdes s fde)) 9" and fd: "0 \<le> fd" "fd \<le> 32000"
    and slot: "nat fd < length (fd_table s) \<longrightarrow> fd_table s ! nat fd = 0"
    using new by (auto simp: fresh_fde_def)
  obtain s' where r: "fdevent_install 4 (Some junk) fde fd fn a s = Inr s'"
    and f: "fdes s' = (fdes s)(fde := \<lparr>fde_fd = fd, force_eof = False, state = FDE_ACTIVE OR FDE_ACTIVE,
           events = 0, func = fn, fde_arg = a\<rparr>)"
    and tb: "fd_table s' = (grown (fd_table s) (nat fd))[nat fd := fde]"
    and sn: "select_n s' = max (select_n s) (nat fd + 1)"
    and pl: "plist s' = (plist s)\<lparr>nxt := (nxt (plist s))(fde := 0), prv := (prv (plist s))(fde := 0)\<rparr>"
    and sets: "read_fds s' = (if fd_table s = [] then {} else read_fds s)"
      "write_fds s' = (if fd_table s = [] then {} else write_fds s)"
      "error_fds s' = (if fd_table s = [] then {} else error_fds s)"
    and cl: "closed s' = closed s"
    by (rule fdevent_install_result [OF new])
  have notin: "fde \<notin> set ps" using p np by (auto simp: pend_inv_def)
  have len: "length (fd_table s) \<le> length (fd_table s')" "nat fd < length (fd_table s')"
    using grown_length [where tbl = "fd_table s" and fd = "nat fd"] by (simp_all add: tb)
  have nth: "fd_table s' ! i = (if i = nat fd then fde else if i < length (fd_table s) then fd_table s ! i else 0)"
    if "i < length (fd_table s')" for i
    using that by (simp add: tb nth_list_update grown_nth)
  have old: "fd_table s ! i \<noteq> fde" if "i < length (fd_table s)" for i
    using t na ne(1) that by (auto simp: table_inv_def)
  have P: "pend_inv s' ps"
    using p notin ne by (auto simp: pend_inv_def pl f bit_active_state ring_frame np)
  have T: "table_inv s'"
    unfolding table_inv_def
  proof (intro conjI allI impI)
    show "select_n s' \<le> length (fd_table s')" using t len sn by (auto simp: table_inv_def)
  next
    fix i assume i: "i < length (fd_table s')" "fd_table s' ! i \<noteq> 0"
    have "i < select_n s' \<and> fde_fd (fdes s' (fd_table s' ! i)) = int i
        \<and> bit (state (fdes s' (fd_table s' ! i))) 8"
    proof (cases "i = nat fd")
      case True
      then show ?thesis using fd nth [OF i(1)] by (simp add: sn f bit_active_state)
    next
      case False
      with i nth [OF i(1)] have o: "i < length (fd_table s)" "fd_table s ! i \<noteq> 0"
        "fd_table s' ! i = fd_table s ! i" by (auto split: if_splits)
      with t have "i < select_n s" "fde_fd (fdes s (fd_table s ! i)) = int i"
        "bit (state (fdes s (fd_table s ! i))) 8" by (auto simp: table_inv_def)
      with o old [OF o(1)] show ?thesis by (simp add: sn f)
    qed
    then show "i < select_n s'" "fde_fd (fdes s' (fd_table s' ! i)) = int i"
      "bit (state (fdes s' (fd_table s' ! i))) 8" by auto
  next
    fix b assume b: "bit (state (fdes s' b)) 8"
    show "b \<noteq> 0" "b \<noteq> list_pending" "0 \<le> fde_fd (fdes s' b)"
      "nat (fde_fd (fdes s' b)) < length (fd_table s')"
      using t fd ne len b by (auto simp: table_inv_def f split: if_splits)
    show "fd_table s' ! nat (fde_fd (fdes s' b)) = b"
    proof (cases "b = fde")
      case True
      then show ?thesis using nth [OF len(2)] fd by (simp add: f)
    next
      case False
      with b t have o: "nat (fde_fd (fdes s b)) < length (fd_table s)"
        "fd_table s ! nat (fde_fd (fdes s b)) = b" "b \<noteq> 0" by (auto simp: table_inv_def f)
      then have "nat (fde_fd (fdes s b)) \<noteq> nat fd" using slot by auto
      with o len nth [of "nat (fde_fd (fdes s b))"] False show ?thesis by (simp add: f)
    qed
  qed
  have W: "wants s' k = wants s k" if "k < 8" for k
  proof -
    have "i \<in> wants s' k \<longleftrightarrow> i \<in> wants s k" for i
      using nth [of i] len old [of i] slot that
      by (auto simp: wants_def f bit_active_state split: if_splits)
    then show ?thesis by blast
  qed
  have "wants s k = {}" if "fd_table s = []" for k using that by (simp add: wants_def)
  then have I: "interest_inv s'" using w by (auto simp: interest_inv_def sets W)
  have "fd_table s' ! nat fd = fde" "state (fdes s' fde) = FDE_ACTIVE"
    using nth [OF len(2)] by (simp_all add: f)
  with r P T I cl show ?thesis by (auto simp: fd_inv_def)
qed

section \<open>Removing\<close>

lemma highest_used_Suc:
  "highest_used tbl (Suc m) = (if tbl ! m \<noteq> 0 then m else highest_used tbl m)"
  by (simp add: highest_used_def)

lemma highest_used_ge: "i < m \<Longrightarrow> tbl ! i \<noteq> 0 \<Longrightarrow> i \<le> highest_used tbl m"
  by (induction m) (auto simp: highest_used_Suc less_Suc_eq)

lemma highest_used_le: "0 < m \<Longrightarrow> highest_used tbl m < m"
proof (induction m)
  case (Suc m)
  then show ?case by (cases m) (auto simp: highest_used_Suc highest_used_def)
qed simp

lemma fdevent_remove_result:
  assumes t: "table_inv s" and a: "bit (state (fdes s fde)) 8"
  obtains s' where "fdevent_remove fde s = Inr s'"
    and "fdes s' = (fdes s)(fde := (fdes s fde)\<lparr>state := 0, events := 0\<rparr>)"
    and "fd_table s' = (fd_table s)[nat (fde_fd (fdes s fde)) := 0]"
    and "select_n s' = highest_used (fd_table s) (select_n s) + 1"
    and "plist s' = (if bit (state (fdes s fde)) 9 then dl_remove fde (plist s) else plist s)"
    and "read_fds s' = read_fds s - {nat (fde_fd (fdes s fde))}"
    and "write_fds s' = write_fds s - {nat (fde_fd (fdes s fde))}"
    and "error_fds s' = error_fds s - {nat (fde_fd (fdes s fde))}"
    and "closed s' = closed s @ (if bit (state (fdes s fde)) 7 then [] else [fde_fd (fdes s fde)])"
proof -
  from t a have fd: "0 \<le> fde_fd (fdes s fde)" "nat (fde_fd (fdes s fde)) < length (fd_table s)"
    "fd_table s ! nat (fde_fd (fdes s fde)) = fde" by (auto simp: table_inv_def)
  then have g: "\<not> (fde_fd (fdes s fde) < 0 \<or> int (length (fd_table s)) \<le> fde_fd (fdes s fde))" by linarith
  note unf = fdevent_remove_def Let_def fdevent_unregister_def fdevent_disconnect_def
    fdevent_plist_remove_def upd_fde_def
  obtain s' where r: "fdevent_remove fde s = Inr s'"
    using g fd a by (cases "bit (state (fdes s fde)) 9") (auto simp: unf)
  show thesis
  proof (rule that [OF r])
  qed (insert r g fd a,
      (cases "bit (state (fdes s fde)) 9"; cases "bit (state (fdes s fde)) 7"; force simp: unf)+)
qed

lemma fdevent_remove_inv:
  assumes inv: "fd_inv s ps" and a: "bit (state (fdes s fde)) 8"
  shows "\<exists>s'. fdevent_remove fde s = Inr s' \<and> fd_inv s' (remove1 fde ps)
    \<and> state (fdes s' fde) = 0 \<and> fd_table s' ! nat (fde_fd (fdes s fde)) = 0
    \<and> closed s' = closed s @ (if bit (state (fdes s fde)) 7 then [] else [fde_fd (fdes s fde)])"
proof -
  have p: "pend_inv s ps" and t: "table_inv s" and w: "interest_inv s"
    using inv by (auto simp: fd_inv_def)
  let ?fd = "nat (fde_fd (fdes s fde))"
  obtain s' where r: "fdevent_remove fde s = Inr s'"
    and f: "fdes s' = (fdes s)(fde := (fdes s fde)\<lparr>state := 0, events := 0\<rparr>)"
    and tb: "fd_table s' = (fd_table s)[?fd := 0]"
    and sn: "select_n s' = highest_used (fd_table s) (select_n s) + 1"
    and pl: "plist s' = (if bit (state (fdes s fde)) 9 then dl_remove fde (plist s) else plist s)"
    and sets: "read_fds s' = read_fds s - {?fd}" "write_fds s' = write_fds s - {?fd}"
      "error_fds s' = error_fds s - {?fd}"
    and cl: "closed s' = closed s @ (if bit (state (fdes s fde)) 7 then [] else [fde_fd (fdes s fde)])"
    by (rule fdevent_remove_result [OF t a])
  from t a have fd: "0 \<le> fde_fd (fdes s fde)" "?fd < length (fd_table s)" "fd_table s ! ?fd = fde" "fde \<noteq> 0"
    by (auto simp: table_inv_def)
  have entry: "i < select_n s \<and> fde_fd (fdes s (fd_table s ! i)) = int i
      \<and> bit (state (fdes s (fd_table s ! i))) 8"
    if "i < length (fd_table s)" "fd_table s ! i \<noteq> 0" for i
    using t that by (auto simp: table_inv_def)
  have other: "fd_table s ! i \<noteq> fde" if "i < length (fd_table s)" "i \<noteq> ?fd" for i
    using entry [OF that(1)] that(2) fd(4) by auto
  have P: "pend_inv s' (remove1 fde ps)"
  proof (cases "bit (state (fdes s fde)) 9")
    case True
    then have "fde \<in> set ps" using p by (simp add: pend_inv_def)
    then show ?thesis by (rule pend_inv_remove [OF p]) (auto simp: pl f True)
  next
    case False
    then have "fde \<notin> set ps" and "events (fdes s fde) = 0" using p by (auto simp: pend_inv_def)
    moreover from this have "pend_inv s' ps"
      by (intro pend_inv_cong [OF _ _ _ p]) (auto simp: pl f False)
    ultimately show ?thesis by (simp add: remove1_idem)
  qed
  have sel: "select_n s \<le> length (fd_table s)" "?fd < select_n s"
    using t entry [OF fd(2)] fd(3,4) by (auto simp: table_inv_def)
  have T: "table_inv s'"
    unfolding table_inv_def
  proof (intro conjI allI impI)
    show "select_n s' \<le> length (fd_table s')"
      using highest_used_le [of "select_n s" "fd_table s"] sel by (simp add: sn tb)
  next
    fix i assume i: "i < length (fd_table s')" "fd_table s' ! i \<noteq> 0"
    have "i \<noteq> ?fd" using i fd(2) by (auto simp: tb)
    with i have o: "i < length (fd_table s)" "i \<noteq> ?fd" "fd_table s ! i \<noteq> 0"
      "fd_table s' ! i = fd_table s ! i" by (auto simp: tb)
    from entry [OF o(1,3)] other [OF o(1,2)] highest_used_ge [of i "select_n s" "fd_table s"] o
    show "i < select_n s'" "fde_fd (fdes s' (fd_table s' ! i)) = int i"
      "bit (state (fdes s' (fd_table s' ! i))) 8" by (auto simp: sn f)
  next
    fix b assume "bit (state (fdes s' b)) 8"
    then have b: "b \<noteq> fde" "bit (state (fdes s b)) 8" by (auto simp: f split: if_splits)
    with t have o: "b \<noteq> 0" "b \<noteq> list_pending" "0 \<le> fde_fd (fdes s b)"
      "nat (fde_fd (fdes s b)) < length (fd_table s)"
      "fd_table s ! nat (fde_fd (fdes s b)) = b" by (auto simp: table_inv_def)
    then have "nat (fde_fd (fdes s b)) \<noteq> ?fd" using b fd by auto
    with o b show "b \<noteq> 0" "b \<noteq> list_pending" "0 \<le> fde_fd (fdes s' b)" "nat (fde_fd (fdes s' b)) < length (fd_table s')"
      "fd_table s' ! nat (fde_fd (fdes s' b)) = b" by (auto simp: f tb)
  qed
  have W: "wants s' k = wants s k - {?fd}" for k
    using fd other by (auto simp: wants_def f tb nth_list_update split: if_splits)
  have I: "interest_inv s'" using w by (simp add: interest_inv_def sets W)
  have "state (fdes s' fde) = 0" "fd_table s' ! ?fd = 0" using fd by (simp_all add: f tb)
  with r P T I cl show ?thesis by (auto simp: fd_inv_def)
qed

section \<open>Waiting\<close>

lemma mark_pending_frame [simp]:
  "fd_table (mark_pending a ev s) = fd_table s" "select_n (mark_pending a ev s) = select_n s"
  "read_fds (mark_pending a ev s) = read_fds s" "write_fds (mark_pending a ev s) = write_fds s"
  "error_fds (mark_pending a ev s) = error_fds s" "closed (mark_pending a ev s) = closed s"
  "fde_fd (fdes (mark_pending a ev s) b) = fde_fd (fdes s b)"
  "func (fdes (mark_pending a ev s) b) = func (fdes s b)"
  "fde_arg (fdes (mark_pending a ev s) b) = fde_arg (fdes s b)"
  by (simp_all add: mark_pending_def Let_def fdevent_plist_enqueue_def)

lemma mark_pending_state:
  "bit (state (fdes (mark_pending a ev s) b)) k \<longleftrightarrow> bit (state (fdes s b)) k \<or> (b = a \<and> k = 9)"
  by (auto simp: mark_pending_def Let_def fdevent_plist_enqueue_def bit_or_iff)

lemma mark_pending_events:
  "events (fdes (mark_pending a ev s) b) = (if b = a then events (fdes s a) OR ev else events (fdes s b))"
  by (simp add: mark_pending_def Let_def fdevent_plist_enqueue_def)

lemma or_eq_0_iff: "(x :: u16) OR y = 0 \<longleftrightarrow> x = 0 \<and> y = 0"
  by (metis or_eq_0_iff)

lemma mark_pending_pend:
  assumes p: "pend_inv s ps" and a: "a \<noteq> 0" "a \<noteq> list_pending" and ev: "ev \<noteq> 0"
  shows "pend_inv (mark_pending a ev s) (if a \<in> set ps then ps else ps @ [a])"
proof (cases "a \<in> set ps")
  case True
  then have b: "bit (state (fdes s a)) 9" "events (fdes s a) \<noteq> 0" using p by (auto simp: pend_inv_def)
  have "pend_inv (mark_pending a ev s) ps"
    by (rule pend_inv_cong [OF _ _ _ p])
       (use b in \<open>auto simp: mark_pending_state mark_pending_events or_eq_0_iff mark_pending_def Let_def\<close>)
  with True show ?thesis by simp
next
  case False
  then have b: "\<not> bit (state (fdes s a)) 9" using p by (simp add: pend_inv_def)
  have "pend_inv (mark_pending a ev s) (ps @ [a])"
    by (rule pend_inv_enqueue [OF p False a])
       (use b ev in \<open>auto simp: mark_pending_state mark_pending_events or_eq_0_iff mark_pending_def Let_def
          fdevent_plist_enqueue_def bit_or_iff\<close>)
  with False show ?thesis by simp
qed

lemma mark_pending_inv:
  assumes inv: "fd_inv s ps" and a: "a \<noteq> 0" "a \<noteq> list_pending" and ev: "ev \<noteq> 0"
  shows "fd_inv (mark_pending a ev s) (if a \<in> set ps then ps else ps @ [a])"
proof -
  let ?s = "mark_pending a ev s"
  have p: "pend_inv s ps" and t: "table_inv s" and w: "interest_inv s"
    using inv by (auto simp: fd_inv_def)
  have "table_inv ?s" using t by (subst table_inv_cong [of _ s]) (auto simp: mark_pending_state)
  moreover have "wants ?s k = wants s k" if "k \<noteq> 9" for k
    using that by (intro wants_cong) (auto simp: mark_pending_state)
  then have "interest_inv ?s" using w by (simp add: interest_inv_def)
  ultimately show ?thesis using mark_pending_pend [OF p a ev] by (simp add: fd_inv_def)
qed

lemma table_entry:
  assumes "table_inv s" "i < length (fd_table s)" "fd_table s ! i \<noteq> 0"
  shows "fde_fd (fdes s (fd_table s ! i)) = int i \<and> bit (state (fdes s (fd_table s ! i))) 8
    \<and> fd_table s ! i \<noteq> list_pending \<and> i < select_n s"
proof -
  from assms have "bit (state (fdes s (fd_table s ! i))) 8 \<and> i < select_n s
      \<and> fde_fd (fdes s (fd_table s ! i)) = int i" by (simp add: table_inv_def)
  moreover from this assms(1) have "fd_table s ! i \<noteq> list_pending" unfolding table_inv_def by blast
  ultimately show ?thesis by blast
qed

lemma table_inj:
  assumes "table_inv s" "i < length (fd_table s)" "j < length (fd_table s)"
    "fd_table s ! i = fd_table s ! j" "fd_table s ! i \<noteq> 0"
  shows "i = j"
proof -
  from assms(4,5) have "fd_table s ! j \<noteq> 0" by simp
  from table_entry [OF assms(1,2,5)] table_entry [OF assms(1,3) this]
  have "int i = int j" unfolding assms(4) by metis
  then show ?thesis by simp
qed

lemma ready_events_0: "ready_events r w e i = 0 \<longleftrightarrow> i \<notin> r \<and> i \<notin> w \<and> i \<notin> e"
  by (cases "i \<in> r"; cases "i \<in> w"; cases "i \<in> e")
     (simp_all add: ready_events_def FDE_READ_def FDE_WRITE_def FDE_ERROR_def)

lemma ready_count_0: "ready_count r w e i = 0 \<longleftrightarrow> ready_events r w e i = 0"
  by (auto simp: ready_events_0 ready_count_def)

lemma ready_count_nonneg: "0 \<le> ready_count r w e i"
  by (simp add: ready_count_def)

text \<open>The number of bits that \<open>select\<close> reports.\<close>

abbreviation total_ready :: "nat set \<Rightarrow> nat set \<Rightarrow> nat set \<Rightarrow> nat list \<Rightarrow> int" where
  "total_ready r w e is \<equiv> sum_list (map (ready_count r w e) is)"

lemma total_nonneg: "0 \<le> total_ready r w e is"
  by (rule sum_list_nonneg) (auto simp: ready_count_nonneg)

lemma total_0: "total_ready r w e is \<le> 0 \<Longrightarrow> i \<in> set is \<Longrightarrow> ready_events r w e i = 0"
proof (induction "is")
  case (Cons j "is")
  have "0 \<le> ready_count r w e j" "0 \<le> total_ready r w e is"
    by (rule ready_count_nonneg total_nonneg)+
  with Cons.prems(1) have "ready_count r w e j = 0" "total_ready r w e is \<le> 0" by simp_all
  with Cons show ?case by (auto simp: ready_count_0)
qed simp

text \<open>What a scan does that finds every reported descriptor.\<close>

abbreviation mark_all :: "nat list \<Rightarrow> (nat \<Rightarrow> u16) \<Rightarrow> nat list \<Rightarrow> fdst \<Rightarrow> fdst" where
  "mark_all tbl rdy is \<equiv> fold (\<lambda>i s. if rdy i = 0 then s else mark_pending (tbl ! i) (rdy i) s) is"

lemma mark_all_idle: "\<forall>i \<in> set is. rdy i = 0 \<Longrightarrow> mark_all tbl rdy is s = s"
  by (induction "is") simp_all

lemma scan_fds_eq:
  assumes "n = total_ready r w e is" and "\<forall>i \<in> set is. ready_events r w e i \<noteq> 0 \<longrightarrow> fd_table s ! i \<noteq> 0"
  shows "scan_fds r w e is n s = Inr (mark_all (fd_table s) (ready_events r w e) is s)"
  using assms
proof (induction "is" arbitrary: n s)
  case (Cons i "is")
  show ?case
  proof (cases "n \<le> 0")
    case True
    with total_0 [of r w e "i # is"] Cons.prems(1)
    have "\<forall>j \<in> set (i # is). ready_events r w e j = 0" by blast
    then show ?thesis using True mark_all_idle by simp
  next
    case False
    then show ?thesis
      using Cons ready_count_0 [of r w e i] by (cases "ready_events r w e i = 0") (auto cong: if_cong)
  qed
qed simp

lemma mark_all_frame [simp]:
  "fd_table (mark_all tbl rdy is s) = fd_table s" "select_n (mark_all tbl rdy is s) = select_n s"
  "closed (mark_all tbl rdy is s) = closed s"
  "fde_fd (fdes (mark_all tbl rdy is s) b) = fde_fd (fdes s b)"
  "func (fdes (mark_all tbl rdy is s) b) = func (fdes s b)"
  "fde_arg (fdes (mark_all tbl rdy is s) b) = fde_arg (fdes s b)"
  by (induction "is" arbitrary: s) simp_all

lemma mark_all_events:
  assumes "distinct is"
    and "\<forall>i \<in> set is. \<forall>j \<in> set is. rdy i \<noteq> 0 \<longrightarrow> tbl ! i = tbl ! j \<longrightarrow> i = j" and "i \<in> set is"
  shows "events (fdes (mark_all tbl rdy is s) (tbl ! i)) = events (fdes s (tbl ! i)) OR rdy i"
  using assms
proof (induction "is" arbitrary: s)
  case (Cons j "is")
  have skip: "events (fdes (mark_all tbl rdy ks s) b) = events (fdes s b)"
    if "\<forall>k \<in> set ks. rdy k \<noteq> 0 \<longrightarrow> tbl ! k \<noteq> b" for ks b and s
    using that by (induction ks arbitrary: s) (auto simp: mark_pending_events)
  show ?case
  proof (cases "i = j")
    case True
    with Cons.prems have "\<forall>k \<in> set is. rdy k \<noteq> 0 \<longrightarrow> tbl ! k \<noteq> tbl ! i" by auto
    from skip [OF this] True show ?thesis by (simp add: mark_pending_events)
  next
    case False
    with Cons.prems have "i \<in> set is" and "rdy j \<noteq> 0 \<longrightarrow> tbl ! i \<noteq> tbl ! j" by auto
    with Cons show ?thesis by (simp add: mark_pending_events)
  qed
qed simp

text \<open>The objects that a scan adds to the queue, in the order of their descriptors.\<close>

abbreviation newly_ready :: "nat list \<Rightarrow> (nat \<Rightarrow> u16) \<Rightarrow> nat list \<Rightarrow> nat list \<Rightarrow> nat list" where
  "newly_ready tbl rdy is ps \<equiv> filter (\<lambda>a. a \<notin> set ps) (map (\<lambda>i. tbl ! i) (filter (\<lambda>i. rdy i \<noteq> 0) is))"

lemma mark_all_inv:
  assumes "fd_inv s ps" and "\<forall>i \<in> set is. rdy i \<noteq> 0 \<longrightarrow> tbl ! i \<noteq> 0 \<and> tbl ! i \<noteq> list_pending"
    and "distinct (map ((!) tbl) (filter (\<lambda>i. rdy i \<noteq> 0) is))"
  shows "fd_inv (mark_all tbl rdy is s) (ps @ newly_ready tbl rdy is ps)"
  using assms
proof (induction "is" arbitrary: s ps)
  case (Cons i "is")
  show ?case
  proof (cases "rdy i = 0")
    case True
    with Cons show ?thesis by simp
  next
    case False
    let ?ps = "if tbl ! i \<in> set ps then ps else ps @ [tbl ! i]"
    from False Cons.prems have i: "tbl ! i \<noteq> 0" "tbl ! i \<noteq> list_pending"
      "tbl ! i \<notin> (!) tbl ` set (filter (\<lambda>i. rdy i \<noteq> 0) is)" by auto
    from mark_pending_inv [OF Cons.prems(1) i(1,2) False] Cons.IH Cons.prems(2,3) False
    have "fd_inv (mark_all tbl rdy is (mark_pending (tbl ! i) (rdy i) s)) (?ps @ newly_ready tbl rdy is ?ps)"
      by auto
    moreover have "filter (\<lambda>a. a \<notin> set ps \<and> a \<noteq> tbl ! i) (map ((!) tbl) (filter (\<lambda>i. rdy i \<noteq> 0) is))
        = newly_ready tbl rdy is ps"
      using i(3) by (intro filter_cong refl) (auto simp: image_iff)
    ultimately show ?thesis using False by (cases "tbl ! i \<in> set ps") (simp_all add: conj_commute)
  qed
qed simp

section \<open>Dispatching\<close>

text \<open>The call made for an object that is taken from the queue.\<close>

definition call_of :: "fdst \<Rightarrow> nat \<Rightarrow> fd_call" where
  "call_of s a = (func (fdes s a), fde_fd (fdes s a), events (fdes s a), fde_arg (fdes s a))"

lemma fdevent_plist_dequeue_Nil: "pend_inv s [] \<Longrightarrow> fdevent_plist_dequeue s = (0, s)"
  using dl.rep_deq_Nil [of "plist s" list_pending] by (simp add: pend_inv_def fdevent_plist_dequeue_def)

text \<open>The state in which the callback of the first queued object runs.\<close>

definition taken :: "nat \<Rightarrow> fdst \<Rightarrow> fdst" where
  "taken a s = upd_fde a (\<lambda>f. f\<lparr>events := 0, state := state f AND NOT FDE_PENDING\<rparr>)
     (s\<lparr>plist := dl_remove a (plist s)\<rparr>)"

lemma taken_simps [simp]:
  "fd_table (taken a s) = fd_table s" "select_n (taken a s) = select_n s"
  "read_fds (taken a s) = read_fds s" "write_fds (taken a s) = write_fds s"
  "error_fds (taken a s) = error_fds s" "closed (taken a s) = closed s"
  "plist (taken a s) = dl_remove a (plist s)"
  "fdes (taken a s) b = (if b = a then (fdes s a)\<lparr>events := 0, state := state (fdes s a) AND NOT FDE_PENDING\<rparr>
     else fdes s b)"
  by (simp_all add: taken_def)

lemma taken_pend_inv:
  assumes "pend_inv s (a # ps)"
  shows "pend_inv (taken a s) ps"
proof -
  have "pend_inv (taken a s) (remove1 a (a # ps))"
    by (rule pend_inv_remove [OF assms]) (auto simp: bit_clear_pending)
  then show ?thesis by simp
qed

lemma taken_inv:
  assumes "fd_inv s (a # ps)"
  shows "fd_inv (taken a s) ps"
proof -
  have p: "pend_inv s (a # ps)" and t: "table_inv s" and w: "interest_inv s"
    using assms by (auto simp: fd_inv_def)
  have "table_inv (taken a s)" using t by (subst table_inv_cong [of _ s]) (auto simp: bit_clear_pending)
  moreover have "wants (taken a s) k = wants s k" if "k \<noteq> 9" for k
    using that by (intro wants_cong) (auto simp: bit_clear_pending)
  then have "interest_inv (taken a s)" using w by (simp add: interest_inv_def)
  ultimately show ?thesis using taken_pend_inv [OF p] by (simp add: fd_inv_def)
qed

lemma drain_Nil: "pend_inv s [] \<Longrightarrow> drain run s = Some ([], s)"
  by (simp add: drain.simps fdevent_plist_dequeue_Nil)

lemma drain_Cons:
  assumes "pend_inv s (a # ps)"
  shows "drain run s =
    Option.bind (drain run (run (call_of s a) (taken a s))) (\<lambda>(cs, s'). Some (call_of s a # cs, s'))"
proof -
  have r: "ring (plist s) list_pending (a # ps)" and b: "bit (state (fdes s a)) 9" and "a \<noteq> 0"
    using assms by (auto simp: pend_inv_def ring_def)
  moreover have "fdevent_plist_dequeue s = (a, s\<lparr>plist := dl_remove a (plist s)\<rparr>)"
    by (simp add: fdevent_plist_dequeue_def ring_dequeue_Cons [OF r])
  moreover have "fdevent_call_fdfunc a (s\<lparr>plist := dl_remove a (plist s)\<rparr>) = (Some (call_of s a), taken a s)"
    using b by (simp add: fdevent_call_fdfunc_def Let_def call_of_def taken_def upd_fde_def)
  ultimately show ?thesis by (simp add: drain.simps [of run s])
qed

text \<open>Callbacks may take objects out of the queue (by \<open>fdevent_set\<close> or \<open>fdevent_remove\<close>), not add any.\<close>

definition no_requeue :: "(fd_call \<Rightarrow> fdst \<Rightarrow> fdst) \<Rightarrow> bool" where
  "no_requeue run \<longleftrightarrow> (\<forall>c s ps. fd_inv s ps \<longrightarrow> (\<exists>ps'. fd_inv (run c s) ps' \<and> set ps' \<subseteq> set ps))"

lemma drain_returns:
  assumes run: "no_requeue run" and inv: "fd_inv s ps"
  shows "\<exists>cs s'. drain run s = Some (cs, s') \<and> fd_inv s' [] \<and> length cs \<le> length ps"
  using inv
proof (induction "length ps" arbitrary: s ps rule: less_induct)
  case less
  show ?case
  proof (cases ps)
    case Nil
    with less.prems have "drain run s = Some ([], s)" by (simp add: drain_Nil fd_inv_def)
    with less.prems Nil show ?thesis by simp
  next
    case (Cons a qs)
    with less.prems have c: "fd_inv s (a # qs)" by simp
    have i: "fd_inv (taken a s) qs" by (rule taken_inv [OF c])
    have p: "pend_inv s (a # qs)" using c by (simp add: fd_inv_def)
    from run i obtain ps' where ps': "fd_inv (run (call_of s a) (taken a s)) ps'" "set ps' \<subseteq> set qs"
      unfolding no_requeue_def by blast
    have "distinct ps'" using ps'(1) by (auto simp: fd_inv_def pend_inv_def ring_def)
    then have l: "length ps' \<le> length qs"
      using card_mono [OF _ ps'(2)] card_length [of qs] by (simp add: distinct_card)
    then have "length ps' < length ps" using Cons by simp
    from less.hyps [OF this ps'(1)] obtain cs s' where
      "drain run (run (call_of s a) (taken a s)) = Some (cs, s')" "fd_inv s' []" "length cs \<le> length ps'"
      by blast
    then show ?thesis using l Cons by (auto simp: drain_Cons [OF p])
  qed
qed

text \<open>
  What a callback may do to the other queued objects.  An orderly callback may take some of them out of the queue
  (it destroys them, or changes what they wait for) and leaves the function, the descriptor, the argument and the
  pending events of those that stay; it queues nothing.  A keeping one takes none out: \<open>fdevent_set\<close> on the object
  that is called, \<open>fdevent_remove\<close> of it or \<open>fdevent_install\<close> of a new one are of this kind.
\<close>

definition orderly :: "(fd_call \<Rightarrow> fdst \<Rightarrow> fdst) \<Rightarrow> bool" where
  "orderly run \<longleftrightarrow> (\<forall>a s ps. fd_inv s (a # ps) \<longrightarrow>
     (\<exists>P. fd_inv (run (call_of s a) (taken a s)) (filter P ps)
        \<and> (\<forall>b \<in> set (filter P ps). call_of (run (call_of s a) (taken a s)) b = call_of s b)))"

definition keeping :: "(fd_call \<Rightarrow> fdst \<Rightarrow> fdst) \<Rightarrow> bool" where
  "keeping run \<longleftrightarrow> (\<forall>a s ps. fd_inv s (a # ps) \<longrightarrow>
     fd_inv (run (call_of s a) (taken a s)) ps
        \<and> (\<forall>b \<in> set ps. call_of (run (call_of s a) (taken a s)) b = call_of s b))"

lemma keeping_orderly: "keeping run \<Longrightarrow> orderly run"
  unfolding keeping_def orderly_def by (intro allI impI exI [of _ "\<lambda>_. True"]) simp

lemma keeping_ignore: "keeping (\<lambda>_ s. s)"
proof -
  have "call_of (taken a s) b = call_of s b" if "fd_inv s (a # ps)" "b \<in> set ps" for a s ps b
    using that by (auto simp: fd_inv_def pend_inv_def ring_def call_of_def)
  then show ?thesis by (auto simp: keeping_def taken_inv)
qed

text \<open>With a keeping callback every queued object is called; with an orderly one, those that stay.\<close>

lemma drain_keeping:
  assumes "keeping run" "fd_inv s ps"
  shows "\<exists>s'. drain run s = Some (map (call_of s) ps, s') \<and> fd_inv s' []"
  using assms(2)
proof (induction ps arbitrary: s)
  case Nil
  then show ?case by (auto simp: drain_Nil fd_inv_def)
next
  case (Cons a ps)
  let ?t = "run (call_of s a) (taken a s)"
  have p: "pend_inv s (a # ps)" using Cons.prems by (simp add: fd_inv_def)
  from assms(1) Cons.prems have t: "fd_inv ?t ps" "\<forall>b \<in> set ps. call_of ?t b = call_of s b"
    unfolding keeping_def by blast+
  from Cons.IH [OF t(1)] obtain s' where
    d: "drain run ?t = Some (map (call_of ?t) ps, s')" and i: "fd_inv s' []" by blast
  have "map (call_of ?t) ps = map (call_of s) ps" using t(2) by (intro map_cong) auto
  with d i show ?case by (auto simp: drain_Cons [OF p])
qed

lemma drain_orderly:
  assumes "orderly run" "fd_inv s ps"
  shows "\<exists>P s'. drain run s = Some (map (call_of s) (filter P ps), s') \<and> fd_inv s' []"
  using assms(2)
proof (induction "length ps" arbitrary: s ps rule: less_induct)
  case less
  show ?case
  proof (cases ps)
    case Nil
    with less.prems have "drain run s = Some ([], s)" by (simp add: drain_Nil fd_inv_def)
    with less.prems Nil show ?thesis by simp
  next
    case (Cons a qs)
    let ?t = "run (call_of s a) (taken a s)"
    from less.prems Cons have c: "fd_inv s (a # qs)" by simp
    then have p: "pend_inv s (a # qs)" and nin: "a \<notin> set qs" by (auto simp: fd_inv_def pend_inv_def ring_def)
    from assms(1) c obtain P where P: "fd_inv ?t (filter P qs)" "\<forall>b \<in> set (filter P qs). call_of ?t b = call_of s b"
      unfolding orderly_def by blast
    have "length (filter P qs) < length ps" using Cons by (simp add: le_imp_less_Suc)
    from less.hyps [OF this P(1)] obtain Q s' where
      d: "drain run ?t = Some (map (call_of ?t) (filter Q (filter P qs)), s')" and i: "fd_inv s' []" by blast
    have "map (call_of ?t) (filter Q (filter P qs)) = map (call_of s) (filter Q (filter P qs))"
      using P(2) by (intro map_cong) auto
    moreover have "filter (\<lambda>b. b = a \<or> Q b \<and> P b) ps = a # filter Q (filter P qs)"
      unfolding Cons filter_filter by (auto simp: conj_commute nin intro!: filter_cong)
    ultimately have "drain run s = Some (map (call_of s) (filter (\<lambda>b. b = a \<or> Q b \<and> P b) ps), s')"
      using d by (simp add: drain_Cons [OF p])
    with i show ?thesis by blast
  qed
qed

lemma fd_check_result:
  "fdevent_fd_check bad s {} = ({i. i < select_n s \<and> fd_table s ! i \<noteq> 0 \<and> bad i},
     total_ready {i. i < select_n s \<and> fd_table s ! i \<noteq> 0 \<and> bad i} {} {} [0..<select_n s])"
proof -
  let ?B = "\<lambda>m. {i. i < m \<and> fd_table s ! i \<noteq> 0 \<and> bad i}"
  let ?f = "\<lambda>(fs, n) i. if fd_table s ! i = 0 then (fs, n)
     else if bad i then (insert i fs, n + 1) else (fs, n)"
  have "foldl ?f ({}, 0 :: int) [0..<m] = (?B m, total_ready (?B m) {} {} [0..<m])" for m
  proof (induction m)
    case (Suc m)
    have same: "total_ready (insert m (?B m)) {} {} [0..<m] = total_ready (?B m) {} {} [0..<m]"
      by (intro arg_cong [of _ _ sum_list] map_cong) (auto simp: ready_count_def)
    have step: "foldl ?f ({}, 0 :: int) [0..<Suc m] = ?f (foldl ?f ({}, 0) [0..<m]) m" by simp
    show ?case
    proof (cases "fd_table s ! m \<noteq> 0 \<and> bad m")
      case True
      then have "?B (Suc m) = insert m (?B m)" by (auto simp: less_Suc_eq)
      moreover have "ready_count (insert m (?B m)) {} {} m = 1" by (simp add: ready_count_def)
      ultimately show ?thesis unfolding step Suc using True same by simp
    next
      case False
      then have "?B (Suc m) = ?B m" by (auto simp: less_Suc_eq)
      moreover have "ready_count (?B m) {} {} m = 0" by (simp add: ready_count_def)
      ultimately show ?thesis unfolding step Suc using False by auto
    qed
  qed simp
  then show ?thesis by (simp add: fdevent_fd_check_def)
qed

text \<open>Descriptors that are reported and registered are marked and called, each once.\<close>

lemma scan_queues:
  assumes inv: "fd_inv s []" and n: "n = total_ready r w e [0..<select_n s]"
    and reg: "\<And>i. i < select_n s \<Longrightarrow> i \<in> r \<union> w \<union> e \<Longrightarrow> fd_table s ! i \<noteq> 0"
  defines "js \<equiv> filter (\<lambda>i. ready_events r w e i \<noteq> 0) [0..<select_n s]"
  shows "\<exists>s1. scan_fds r w e [0..<select_n s] n s = Inr s1 \<and> fd_inv s1 (map ((!) (fd_table s)) js)
    \<and> (\<forall>i \<in> set js. call_of s1 (fd_table s ! i) = (func (fdes s (fd_table s ! i)), int i,
           ready_events r w e i, fde_arg (fdes s (fd_table s ! i))))"
proof -
  let ?rdy = "ready_events r w e" and ?tbl = "fd_table s" and ?is = "[0..<select_n s]"
  let ?js = "filter (\<lambda>i. ?rdy i \<noteq> 0) ?is"
  let ?s1 = "mark_all ?tbl ?rdy ?is s"
  have t: "table_inv s" and p: "pend_inv s []" using inv by (auto simp: fd_inv_def)
  have sel: "select_n s \<le> length ?tbl" using t by (simp add: table_inv_def)
  have js: "i < length ?tbl \<and> ?tbl ! i \<noteq> 0 \<and> i < select_n s" if "i \<in> set ?js" for i
  proof -
    from that have i: "i < select_n s" "?rdy i \<noteq> 0" by auto
    from i(2) have "i \<in> r \<union> w \<union> e" by (auto simp: ready_events_0)
    with reg i sel show ?thesis by auto
  qed
  have sc: "scan_fds r w e ?is n s = Inr ?s1"
    by (rule scan_fds_eq [OF n]) (use js in auto)
  have inj: "i = j" if "i \<in> set ?js" "j \<in> set ?is" "?tbl ! i = ?tbl ! j" for i j
  proof -
    have "j < length ?tbl" using that(2) sel by simp
    with js [OF that(1)] show ?thesis by (intro table_inj [OF t _ _ that(3)]) simp_all
  qed
  have "inj_on ((!) ?tbl) (set ?js)"
  proof (rule inj_onI)
    fix x y assume x: "x \<in> set ?js" and y: "y \<in> set ?js" and e: "?tbl ! x = ?tbl ! y"
    from y have "y \<in> set ?is" by (simp only: set_filter mem_Collect_eq)
    with x show "x = y" using e by (rule inj)
  qed
  moreover have "distinct ?js" by (intro distinct_filter distinct_upt)
  ultimately have "distinct (map ((!) ?tbl) ?js)" unfolding distinct_map by (intro conjI)
  moreover have "\<forall>i \<in> set ?is. ?rdy i \<noteq> 0 \<longrightarrow> ?tbl ! i \<noteq> 0 \<and> ?tbl ! i \<noteq> list_pending"
  proof (intro ballI impI)
    fix i assume "i \<in> set ?is" "?rdy i \<noteq> 0"
    then have "i < length ?tbl \<and> ?tbl ! i \<noteq> 0" using js [of i] by simp
    with table_entry [OF t] show "?tbl ! i \<noteq> 0 \<and> ?tbl ! i \<noteq> list_pending" by blast
  qed
  ultimately have i1: "fd_inv ?s1 (map ((!) ?tbl) ?js)"
    using mark_all_inv [OF inv, of ?is ?rdy ?tbl] by simp
  have ev: "events (fdes ?s1 (?tbl ! i)) = ?rdy i" if i: "i \<in> set ?js" for i
  proof -
    have "\<forall>a. events (fdes s a) = 0" using p by (simp add: pend_inv_def)
    moreover have "events (fdes ?s1 (?tbl ! i)) = events (fdes s (?tbl ! i)) OR ?rdy i"
    proof (rule mark_all_events)
      show "\<forall>i \<in> set ?is. \<forall>j \<in> set ?is. ?rdy i \<noteq> 0 \<longrightarrow> ?tbl ! i = ?tbl ! j \<longrightarrow> i = j"
      proof (intro ballI impI)
        fix k l assume "k \<in> set ?is" "l \<in> set ?is" "?rdy k \<noteq> 0" and e: "?tbl ! k = ?tbl ! l"
        then have "k \<in> set ?js" by simp
        from this \<open>l \<in> set ?is\<close> e show "k = l" by (rule inj)
      qed
    qed (use i in auto)
    ultimately show ?thesis by simp
  qed
  have "\<forall>i \<in> set ?js. call_of ?s1 (?tbl ! i) = (func (fdes s (?tbl ! i)), int i, ?rdy i, fde_arg (fdes s (?tbl ! i)))"
  proof
    fix i assume i: "i \<in> set ?js"
    from js [OF i] table_entry [OF t, of i] have "fde_fd (fdes s (?tbl ! i)) = int i" by blast
    with ev [OF i] show "call_of ?s1 (?tbl ! i) = (func (fdes s (?tbl ! i)), int i, ?rdy i, fde_arg (fdes s (?tbl ! i)))"
      by (simp add: call_of_def)
  qed
  with i1 sc show ?thesis unfolding js_def by blast
qed

lemma scan_and_drain:
  assumes inv: "fd_inv s []" and n: "n = total_ready r w e [0..<select_n s]"
    and reg: "\<And>i. i < select_n s \<Longrightarrow> i \<in> r \<union> w \<union> e \<Longrightarrow> fd_table s ! i \<noteq> 0" and run: "orderly run"
  shows "\<exists>K s1 s'. scan_fds r w e [0..<select_n s] n s = Inr s1
    \<and> drain run s1 = Some (map (\<lambda>i. (func (fdes s (fd_table s ! i)), int i,
           ready_events r w e i, fde_arg (fdes s (fd_table s ! i))))
         (filter (\<lambda>i. ready_events r w e i \<noteq> 0 \<and> i \<in> K) [0..<select_n s]), s') \<and> fd_inv s' []
    \<and> (keeping run \<longrightarrow> K = UNIV)"
proof -
  let ?js = "filter (\<lambda>i. ready_events r w e i \<noteq> 0) [0..<select_n s]"
  let ?c = "\<lambda>i. (func (fdes s (fd_table s ! i)), int i, ready_events r w e i, fde_arg (fdes s (fd_table s ! i)))"
  from scan_queues [OF inv n reg] obtain s1 where s1: "scan_fds r w e [0..<select_n s] n s = Inr s1"
    "fd_inv s1 (map ((!) (fd_table s)) ?js)" "\<forall>i \<in> set ?js. call_of s1 (fd_table s ! i) = ?c i" by blast
  have "\<exists>P s'. drain run s1 = Some (map (call_of s1) (filter P (map ((!) (fd_table s)) ?js)), s') \<and> fd_inv s' []
      \<and> (keeping run \<longrightarrow> P = (\<lambda>_. True))"
  proof (cases "keeping run")
    case True
    from drain_keeping [OF True s1(2)] show ?thesis by (intro exI [of _ "\<lambda>_. True"]) simp
  next
    case False
    with drain_orderly [OF run s1(2)] show ?thesis by blast
  qed
  then obtain P s' where P: "drain run s1 = Some (map (call_of s1) (filter P (map ((!) (fd_table s)) ?js)), s')"
    "fd_inv s' []" "keeping run \<longrightarrow> P = (\<lambda>_. True)" by blast
  let ?K = "{i. P (fd_table s ! i)}"
  have "map (call_of s1) (filter P (map ((!) (fd_table s)) ?js))
      = map (\<lambda>i. call_of s1 (fd_table s ! i)) (filter (P \<circ> (!) (fd_table s)) ?js)"
    by (simp add: filter_map comp_def)
  also have "\<dots> = map ?c (filter (P \<circ> (!) (fd_table s)) ?js)" using s1(3) by (intro map_cong) auto
  also have "filter (P \<circ> (!) (fd_table s)) ?js
      = filter (\<lambda>i. ready_events r w e i \<noteq> 0 \<and> i \<in> ?K) [0..<select_n s]"
    by (simp add: filter_filter comp_def conj_commute)
  finally have "drain run s1 = Some (map ?c (filter (\<lambda>i. ready_events r w e i \<noteq> 0 \<and> i \<in> ?K) [0..<select_n s]), s')"
    using P(1) by simp
  moreover have "keeping run \<longrightarrow> ?K = UNIV" using P(3) by auto
  ultimately show ?thesis using s1(1) P(2) by blast
qed

section \<open>Properties\<close>

text \<open>The state before the first registration.\<close>

definition fdst0 :: fdst where
  "fdst0 = \<lparr>fdes = (\<lambda>_. \<lparr>fde_fd = 0, force_eof = False, state = 0, events = 0,
       func = local_socket_event_func, fde_arg = 0\<rparr>),
     fd_table = [], read_fds = {}, write_fds = {}, error_fds = {}, select_n = 0,
     plist = \<lparr>nxt = (\<lambda>_. 0)(list_pending := list_pending), prv = (\<lambda>_. 0)(list_pending := list_pending)\<rparr>,
     nonblock = {}, closed = [], exit_notify_fd = - 1\<rparr>"

lemma fdst0_inv: "fd_inv fdst0 []"
  by (simp add: fd_inv_def pend_inv_def ring_def table_inv_def interest_inv_def wants_def fdst0_def
      list_pending_def)

lemma fresh_fdst0: "fresh_fde 2 3 fdst0"
  by (simp add: fresh_fde_def fdst0_def list_pending_def)

text \<open>One object, for descriptor 3, that waits for input: a state for the witnesses.\<close>

lemma one_fde:
  obtains s where "fdevent_install 4 (Some (\<lambda>_. 9)) 2 3 local_socket_event_func 7 fdst0 = Inr s"
    "fd_inv s []" "bit (state (fdes s 2)) 8" "fde_fd (fdes s 2) = 3" "fd_table s ! 3 = 2"
    "state (fdes s 2) = FDE_ACTIVE" "select_n s = 4" "events (fdes s 2) = 0"
proof -
  obtain s where r: "fdevent_install 4 (Some (\<lambda>_. 9)) 2 3 local_socket_event_func 7 fdst0 = Inr s"
    and i: "fd_inv s []" "fd_table s ! 3 = 2" "state (fdes s 2) = FDE_ACTIVE"
    using fdevent_install_inv [OF fdst0_inv fresh_fdst0, of "\<lambda>_. 9" local_socket_event_func 7] by auto
  obtain s' where r': "fdevent_install 4 (Some (\<lambda>_. 9)) 2 3 local_socket_event_func 7 fdst0 = Inr s'"
    and f: "fdes s' = (fdes fdst0)(2 := \<lparr>fde_fd = 3, force_eof = False, state = FDE_ACTIVE OR FDE_ACTIVE,
           events = 0, func = local_socket_event_func, fde_arg = 7\<rparr>)"
    and n: "select_n s' = max (select_n fdst0) (nat 3 + 1)"
    by (rule fdevent_install_result [OF fresh_fdst0, of "\<lambda>_. 9" local_socket_event_func 7])
  from r r' have "s' = s" by simp
  with f n have "fde_fd (fdes s 2) = 3" "events (fdes s 2) = 0" "select_n s = 4"
    by (auto simp: fdst0_def)
  with r i that show thesis by simp
qed

text \<open>Registration: installing a fresh object for a free descriptor never aborts, enters it
  into the table under its descriptor, leaves it active without interest, closes nothing and keeps
  the invariant of the module, also when the table has to grow.\<close>

theorem fdevent_install_registers:
  assumes "fd_inv s ps" and "fresh_fde fde fd s"
  shows "\<exists>s'. fdevent_install 4 (Some junk) fde fd fn a s = Inr s' \<and> fd_inv s' ps
    \<and> fd_table s' ! nat fd = fde \<and> state (fdes s' fde) = FDE_ACTIVE \<and> closed s' = closed s"
  by (rule fdevent_install_inv [OF assms])

theorem fdevent_install_registers_witness:
  "\<exists>s'. fdevent_install 4 (Some (\<lambda>_. 9)) 2 3 local_socket_event_func 7 fdst0 = Inr s' \<and> fd_inv s' []
     \<and> fd_table s' ! 3 = 2"
  using fdevent_install_registers [OF fdst0_inv fresh_fdst0, of "\<lambda>_. 9" local_socket_event_func 7] by auto

text \<open>C24. Removal: removing an active object never aborts, takes it out of the table, the sets and
  the pending list, closes its descriptor exactly once unless \<open>FDE_DONT_CLOSE\<close> is set, and keeps the
  invariant, so that a queued object is never called after its removal.\<close>

theorem fdevent_remove_clean:
  assumes "fd_inv s ps" and "has (state (fdes s fde)) FDE_ACTIVE"
  shows "\<exists>s'. fdevent_remove fde s = Inr s' \<and> fd_inv s' (remove1 fde ps) \<and> fde \<notin> set (remove1 fde ps)
    \<and> state (fdes s' fde) = 0 \<and> fd_table s' ! nat (fde_fd (fdes s fde)) = 0
    \<and> closed s' = closed s
        @ (if has (state (fdes s fde)) FDE_DONT_CLOSE then [] else [fde_fd (fdes s fde)])"
proof -
  have "distinct ps" using assms(1) by (simp add: fd_inv_def pend_inv_def ring_def)
  then have "fde \<notin> set (remove1 fde ps)" by (simp add: set_remove1_eq)
  with fdevent_remove_inv [OF assms(1)] assms(2) show ?thesis by simp
qed

theorem fdevent_remove_clean_witness:
  "\<exists>s s'. fd_inv s [] \<and> fdevent_remove 2 s = Inr s' \<and> fd_inv s' [] \<and> fd_table s' ! 3 = 0
     \<and> closed s' = closed s @ [3]"
proof -
  obtain s where "fd_inv s []" "has (state (fdes s 2)) FDE_ACTIVE" "fde_fd (fdes s 2) = 3"
    "state (fdes s 2) = FDE_ACTIVE" by (rule one_fde) auto
  with fdevent_remove_clean [of s "[]" 2] show ?thesis by auto
qed

text \<open>Interest: after \<open>fdevent_set\<close> on an active object the three sets for \<open>select\<close> hold its
  descriptor exactly for the events asked for, every other descriptor is where it was, and the
  invariant holds.\<close>

theorem fdevent_set_selects:
  fixes evs :: u32 and s :: fdst and fde :: nat
  assumes "fd_inv s ps" and "has (state (fdes s fde)) FDE_ACTIVE"
  defines "fd \<equiv> nat (fde_fd (fdes s fde))" and "s' \<equiv> fdevent_set fde evs s"
  shows "(\<exists>ps'. fd_inv s' ps' \<and> set ps' \<subseteq> set ps)
    \<and> (fd \<in> read_fds s' \<longleftrightarrow> has (ucast evs) FDE_READ) \<and> (fd \<in> write_fds s' \<longleftrightarrow> has (ucast evs) FDE_WRITE)
    \<and> (fd \<in> error_fds s' \<longleftrightarrow> has (ucast evs) FDE_ERROR)
    \<and> (\<forall>i. i \<noteq> fd \<longrightarrow> (i \<in> read_fds s' \<longleftrightarrow> i \<in> read_fds s) \<and> (i \<in> write_fds s' \<longleftrightarrow> i \<in> write_fds s)
         \<and> (i \<in> error_fds s' \<longleftrightarrow> i \<in> error_fds s))"
proof -
  have a: "bit (state (fdes s fde)) 8" using assms(2) by simp
  have t: "table_inv s" and w: "interest_inv s" using assms(1) by (auto simp: fd_inv_def)
  note inv = fdevent_set_inv [OF assms(1) a, of evs]
  have w': "interest_inv s'" using inv by (simp add: fd_inv_def s'_def)
  have "wants s' k = fd_put (bit (ucast evs :: u16) k) fd (wants s k)" if "k < 8" for k
    unfolding s'_def fd_def by (rule wants_set [OF t a that])
  then have "read_fds s' = fd_put (has (ucast evs) FDE_READ) fd (read_fds s)"
    "write_fds s' = fd_put (has (ucast evs) FDE_WRITE) fd (write_fds s)"
    "error_fds s' = fd_put (has (ucast evs) FDE_ERROR) fd (error_fds s)"
    using w w' by (simp_all add: interest_inv_def)
  moreover have "\<exists>ps'. fd_inv s' ps' \<and> set ps' \<subseteq> set ps"
    using inv set_remove1_subset [of fde ps] by (auto simp: s'_def split: if_splits)
  ultimately show ?thesis by (auto simp: fd_put_def)
qed

theorem fdevent_set_selects_witness:
  "\<exists>s. fd_inv s [] \<and> 3 \<in> read_fds (fdevent_set 2 1 s) \<and> 3 \<notin> write_fds (fdevent_set 2 1 s)"
proof -
  obtain s where s: "fd_inv s []" "has (state (fdes s 2)) FDE_ACTIVE" "fde_fd (fdes s 2) = 3"
    by (rule one_fde) auto
  from fdevent_set_selects [OF s(1,2), of 1] s(3) have
    "3 \<in> read_fds (fdevent_set 2 1 s) \<longleftrightarrow> bit (1 :: u16) 0"
    "3 \<in> write_fds (fdevent_set 2 1 s) \<longleftrightarrow> bit (1 :: u16) 1" by auto
  then show ?thesis using s(1) by (auto simp: bit_1_iff)
qed

text \<open>Pending events: when the interest of a queued object changes, \<open>fdevent_set\<close> clears the
  pending events that are wanted and keeps those that are not, the opposite of what its comment
  says; the object leaves the queue when only wanted events were pending.\<close>

theorem fdevent_set_keeps_unwanted:
  assumes "has (state (fdes s fde)) FDE_PENDING"
    and "state (fdes s fde) AND FDE_EVENTMASK \<noteq> masked evs"
  shows "events (fdes (fdevent_set fde evs s) fde) = events (fdes s fde) AND NOT (masked evs)
    \<and> (has (state (fdes (fdevent_set fde evs s) fde)) FDE_PENDING
         \<longleftrightarrow> events (fdes s fde) AND NOT (masked evs) \<noteq> 0)"
  using assms by (simp add: fdevent_set_events fdevent_set_state set_drops_def)

definition waiting_reader :: fdst where
  "waiting_reader = upd_fde 2 (\<lambda>f. f\<lparr>state := FDE_ACTIVE OR FDE_PENDING OR FDE_READ, events := FDE_READ\<rparr>) fdst0"

theorem fdevent_set_keeps_unwanted_witness:
  "events (fdes (fdevent_set 2 0 waiting_reader) 2) = FDE_READ
   \<and> has (state (fdes (fdevent_set 2 0 waiting_reader) 2)) FDE_PENDING"
proof -
  have p: "has (state (fdes waiting_reader 2)) FDE_PENDING"
    by (simp add: waiting_reader_def bit_or_iff)
  have m: "state (fdes waiting_reader 2) AND FDE_EVENTMASK \<noteq> masked 0"
    by (simp add: waiting_reader_def FDE_ACTIVE_def FDE_PENDING_def FDE_READ_def FDE_EVENTMASK_def)
  have "events (fdes waiting_reader 2) AND NOT (masked 0) = FDE_READ"
    by (simp add: waiting_reader_def)
  with fdevent_set_keeps_unwanted [OF p m] show ?thesis by (simp add: FDE_READ_def)
qed

text \<open>C11. No lost and no invented wake-up: when \<open>select\<close> reports descriptors out of the sets it was given and counts
  their bits, one round of the loop returns, for callbacks that queue nothing and leave the pending events of the objects
  that stay queued (\<open>orderly\<close>).  The calls it makes are, in the order of the descriptors and at most once each,
  calls of the callbacks of reported descriptors with exactly the reported events.  When the callbacks take no other
  object out of the queue (\<open>keeping\<close>: they change their own object, or nothing), every reported descriptor is called.\<close>

theorem fdevent_round_delivers:
  assumes "fd_inv s []" and "r \<subseteq> read_fds s" "w \<subseteq> write_fds s" "e \<subseteq> error_fds s"
    and "n = total_ready r w e [0..<select_n s]" "0 < n" and "orderly run"
  shows "\<exists>K s'. fdevent_round (Ready n r w e) bad run s =
      Some (Inr (map (\<lambda>i. (func (fdes s (fd_table s ! i)), int i, ready_events r w e i,
                   fde_arg (fdes s (fd_table s ! i))))
                (filter (\<lambda>i. i \<in> (r \<union> w \<union> e) \<inter> K) [0..<select_n s]), s')) \<and> fd_inv s' []
    \<and> (keeping run \<longrightarrow> K = UNIV)"
proof -
  have "fd_table s ! i \<noteq> 0" if "i \<in> r \<union> w \<union> e" for i
    using that assms(1-4) by (auto simp: fd_inv_def interest_inv_def wants_def)
  from scan_and_drain [OF assms(1,5) this assms(7)] obtain K s1 s' where
    k: "scan_fds r w e [0..<select_n s] n s = Inr s1"
    "drain run s1 = Some (map (\<lambda>i. (func (fdes s (fd_table s ! i)), int i,
           ready_events r w e i, fde_arg (fdes s (fd_table s ! i))))
         (filter (\<lambda>i. ready_events r w e i \<noteq> 0 \<and> i \<in> K) [0..<select_n s]), s')" "fd_inv s' []"
    "keeping run \<longrightarrow> K = UNIV" by blast
  have "filter (\<lambda>i. ready_events r w e i \<noteq> 0 \<and> i \<in> K) [0..<select_n s]
      = filter (\<lambda>i. i \<in> (r \<union> w \<union> e) \<inter> K) [0..<select_n s]"
    by (rule filter_cong) (auto simp: ready_events_0)
  with k assms(6) have "fdevent_round (Ready n r w e) bad run s =
      Some (Inr (map (\<lambda>i. (func (fdes s (fd_table s ! i)), int i, ready_events r w e i,
                   fde_arg (fdes s (fd_table s ! i))))
                (filter (\<lambda>i. i \<in> (r \<union> w \<union> e) \<inter> K) [0..<select_n s]), s'))"
    by (simp add: fdevent_round_def fdevent_process_def)
  with k(3,4) show ?thesis by blast
qed

text \<open>A callback that stops reading from its descriptor.\<close>

definition stop_reading :: "fd_call \<Rightarrow> fdst \<Rightarrow> fdst" where
  "stop_reading c s = (let fd = fst (snd c); b = fd_table s ! nat fd in
     if fd < 0 \<or> length (fd_table s) \<le> nat fd \<or> b = 0 \<or> has (state (fdes s b)) FDE_PENDING then s
     else fdevent_del b 1 s)"

lemma stop_reading_keeping: "keeping stop_reading"
  unfolding keeping_def
proof (intro allI impI)
  fix a s ps assume i: "fd_inv s (a # ps)"
  let ?t = "taken a s"
  have t: "fd_inv ?t ps" by (rule taken_inv [OF i])
  have same: "call_of ?t b = call_of s b" if "b \<in> set ps" for b
    using i that by (auto simp: fd_inv_def pend_inv_def ring_def call_of_def)
  show "fd_inv (stop_reading (call_of s a) ?t) ps
      \<and> (\<forall>b \<in> set ps. call_of (stop_reading (call_of s a) ?t) b = call_of s b)"
  proof (cases "stop_reading (call_of s a) ?t = ?t")
    case True
    with t same show ?thesis by simp
  next
    case False
    define b where "b = fd_table s ! nat (fde_fd (fdes s a))"
    from False have r: "stop_reading (call_of s a) ?t = fdevent_del b 1 ?t"
      and b: "b \<noteq> 0" "nat (fde_fd (fdes s a)) < length (fd_table s)" "\<not> bit (state (fdes ?t b)) 9"
      by (auto simp: stop_reading_def Let_def b_def call_of_def split: if_splits)
    have "table_inv ?t" using t by (simp add: fd_inv_def)
    from table_entry [OF this, of "nat (fde_fd (fdes s a))"] b have "bit (state (fdes ?t b)) 8"
      by (simp add: b_def)
    from fdevent_set_inv [OF t this] b(3) have "fd_inv (fdevent_del b 1 ?t) ps"
      by (simp add: fdevent_del_def set_drops_def)
    moreover have "b \<notin> set ps" using t b(3) by (auto simp: fd_inv_def pend_inv_def)
    then have "fdes (fdevent_del b 1 ?t) c = fdes ?t c" if "c \<in> set ps" for c
      unfolding fdevent_del_def using that by (intro fdevent_set_other) blast
    then have "call_of (fdevent_del b 1 ?t) c = call_of ?t c" if "c \<in> set ps" for c
      using that by (simp add: call_of_def)
    ultimately show ?thesis using same by (simp add: r)
  qed
qed

theorem fdevent_round_delivers_witness:
  "\<exists>s s'. fd_inv s [] \<and> fdevent_round (Ready 1 {3} {} {}) (\<lambda>_. False) stop_reading s =
     Some (Inr ([(func (fdes s 2), 3, FDE_READ, fde_arg (fdes s 2))], s'))"
proof -
  obtain s where s: "fd_inv s []" "has (state (fdes s 2)) FDE_ACTIVE" "fde_fd (fdes s 2) = 3"
    "fd_table s ! 3 = 2" "select_n s = 4" "state (fdes s 2) = FDE_ACTIVE" "events (fdes s 2) = 0"
    by (rule one_fde) auto
  let ?s = "fdevent_set 2 1 s"
  have "\<not> set_drops 2 1 s" by (simp add: set_drops_def s(6))
  with fdevent_set_inv [OF s(1), of 2 1] s(2) have i: "fd_inv ?s []" by simp
  have r: "{3} \<subseteq> read_fds ?s"
    using fdevent_set_sets(1) [of s 2 1] s
    by (simp add: fd_put_def bit_1_iff FDE_ACTIVE_def FDE_EVENTMASK_def)
  have n: "1 = total_ready {3} {} {} [0..<select_n ?s]"
    by (simp add: s(5) ready_count_def upt_rec)
  have "[0..<select_n ?s] = [0, 1, 2, 3]" by (simp add: s(5) upt_rec)
  then have "filter (\<lambda>i. i \<in> ({3} \<union> {} \<union> {}) \<inter> UNIV) [0..<select_n ?s] = [3]" by simp
  with fdevent_round_delivers [OF i r _ _ n _ keeping_orderly [OF stop_reading_keeping], of "\<lambda>_. False"]
    s(4) stop_reading_keeping obtain s' where
    "fdevent_round (Ready 1 {3} {} {}) (\<lambda>_. False) stop_reading ?s =
       Some (Inr ([(func (fdes ?s 2), 3, FDE_READ, fde_arg (fdes ?s 2))], s'))"
    by (auto simp: ready_events_def)
  with i show ?thesis by blast
qed

text \<open>Bad descriptors: when \<open>select\<close> fails with \<open>EBADF\<close>, the round fakes a read on registered descriptors that are bad,
  on each of them when the callbacks take no other object out of the queue, so that their owners meet the error.\<close>

theorem fdevent_round_bad_fds:
  assumes "fd_inv s []" "orderly run"
  shows "\<exists>K s'. fdevent_round SelEBADF bad run s =
      Some (Inr (map (\<lambda>i. (func (fdes s (fd_table s ! i)), int i, FDE_READ, fde_arg (fdes s (fd_table s ! i))))
                (filter (\<lambda>i. fd_table s ! i \<noteq> 0 \<and> bad i \<and> i \<in> K) [0..<select_n s]), s')) \<and> fd_inv s' []
    \<and> (keeping run \<longrightarrow> K = UNIV)"
proof -
  let ?B = "{i. i < select_n s \<and> fd_table s ! i \<noteq> 0 \<and> bad i}"
  have "fd_table s ! i \<noteq> 0" if "i < select_n s" "i \<in> ?B \<union> {} \<union> {}" for i using that by simp
  from scan_and_drain [OF assms(1) refl this assms(2)] obtain K s1 s' where
    sc: "scan_fds ?B {} {} [0..<select_n s] (total_ready ?B {} {} [0..<select_n s]) s = Inr s1"
    and dr: "drain run s1 = Some (map (\<lambda>i. (func (fdes s (fd_table s ! i)), int i,
           ready_events ?B {} {} i, fde_arg (fdes s (fd_table s ! i))))
         (filter (\<lambda>i. ready_events ?B {} {} i \<noteq> 0 \<and> i \<in> K) [0..<select_n s]), s')" and i: "fd_inv s' []"
    and K: "keeping run \<longrightarrow> K = UNIV" by blast
  have "filter (\<lambda>i. ready_events ?B {} {} i \<noteq> 0 \<and> i \<in> K) [0..<select_n s]
      = filter (\<lambda>i. fd_table s ! i \<noteq> 0 \<and> bad i \<and> i \<in> K) [0..<select_n s]"
    by (rule filter_cong) (auto simp: ready_events_0)
  moreover have "ready_events ?B {} {} i = FDE_READ"
    if "i \<in> set (filter (\<lambda>i. fd_table s ! i \<noteq> 0 \<and> bad i \<and> i \<in> K) [0..<select_n s])" for i
    using that by (simp add: ready_events_def)
  ultimately have "map (\<lambda>i. (func (fdes s (fd_table s ! i)), int i,
           ready_events ?B {} {} i, fde_arg (fdes s (fd_table s ! i))))
         (filter (\<lambda>i. ready_events ?B {} {} i \<noteq> 0 \<and> i \<in> K) [0..<select_n s]) =
      map (\<lambda>i. (func (fdes s (fd_table s ! i)), int i, FDE_READ, fde_arg (fdes s (fd_table s ! i))))
         (filter (\<lambda>i. fd_table s ! i \<noteq> 0 \<and> bad i \<and> i \<in> K) [0..<select_n s])" by simp
  with sc dr have "fdevent_round SelEBADF bad run s =
      Some (Inr (map (\<lambda>i. (func (fdes s (fd_table s ! i)), int i, FDE_READ, fde_arg (fdes s (fd_table s ! i))))
                (filter (\<lambda>i. fd_table s ! i \<noteq> 0 \<and> bad i \<and> i \<in> K) [0..<select_n s]), s'))"
    by (simp add: fdevent_round_def fdevent_process_def fd_check_result)
  with i K show ?thesis by blast
qed

theorem fdevent_round_bad_fds_witness:
  "\<exists>s s'. fd_inv s [] \<and> fdevent_round SelEBADF (\<lambda>i. i = 3) stop_reading s =
     Some (Inr ([(func (fdes s 2), 3, FDE_READ, fde_arg (fdes s 2))], s'))"
proof -
  obtain s where s: "fd_inv s []" "fd_table s ! 3 = 2" "select_n s = 4" by (rule one_fde) auto
  have "[0..<select_n s] = [0, 1, 2, 3]" by (simp add: s(3) upt_rec)
  then have "filter (\<lambda>i. fd_table s ! i \<noteq> 0 \<and> i = 3 \<and> i \<in> UNIV) [0..<select_n s] = [3]" using s(2) by simp
  with fdevent_round_bad_fds [OF s(1) keeping_orderly [OF stop_reading_keeping], of "\<lambda>i. i = 3"] s(2)
    stop_reading_keeping obtain s' where
    "fdevent_round SelEBADF (\<lambda>i. i = 3) stop_reading s =
       Some (Inr ([(func (fdes s 2), 3, FDE_READ, fde_arg (fdes s 2))], s'))" by auto
  with s(1) show ?thesis by blast
qed

text \<open>The dispatch loop ends: when no callback queues an object, \<open>fdevent_loop\<close>'s inner loop
  returns after at most as many calls as objects were queued, with an empty queue.\<close>

theorem drain_terminates:
  assumes "no_requeue run" and "fd_inv s ps"
  shows "\<exists>cs s'. drain run s = Some (cs, s') \<and> fd_inv s' [] \<and> length cs \<le> length ps"
  by (rule drain_returns [OF assms])

theorem drain_terminates_witness:
  "\<exists>cs s'. drain (\<lambda>_ s. s) (mark_pending 2 1 fdst0) = Some (cs, s') \<and> length cs \<le> 1"
proof -
  have "no_requeue (\<lambda>_ s. s)" by (auto simp: no_requeue_def)
  moreover have "fd_inv (mark_pending 2 1 fdst0) [2]"
    using mark_pending_inv [OF fdst0_inv, of 2 1] by (simp add: list_pending_def)
  ultimately obtain cs s' where
    "drain (\<lambda>_ s. s) (mark_pending 2 1 fdst0) = Some (cs, s')" "length cs \<le> length [2 :: nat]"
    using drain_terminates [of "\<lambda>_ s. s" "mark_pending 2 1 fdst0" "[2]"] by blast
  then show ?thesis by auto
qed

text \<open>Growing the table: the new entries are all null on a machine whose pointers have the size
  of an \<open>int\<close>; with 8-byte pointers \<open>memset\<close> clears only half of them, and the others keep what the
  allocator left there.\<close>

theorem grow_table_cleared:
  "(\<forall>i. length tbl \<le> i \<and> i < n \<longrightarrow> grow_table 4 junk tbl n ! i = 0)
   \<and> (\<forall>i. length tbl + (n - length tbl) div 2 \<le> i \<and> i < n \<longrightarrow> grow_table 8 junk tbl n ! i = junk i)"
proof (intro conjI allI impI)
  fix i assume "length tbl \<le> i \<and> i < n"
  then show "grow_table 4 junk tbl n ! i = 0" by (auto simp: grow_table_4 nth_append)
next
  fix i assume i: "length tbl + (n - length tbl) div 2 \<le> i \<and> i < n"
  define d where "d = n - length tbl"
  define j where "j = i - length tbl"
  have "d div 2 \<le> j" using i by (auto simp: d_def j_def)
  then have "\<not> (j + 1) * 8 \<le> 4 * d" by presburger
  then have "\<not> (i - length tbl + 1) * 8 \<le> 4 * (n - length tbl)" unfolding d_def j_def .
  with i show "grow_table 8 junk tbl n ! i = junk i"
    by (auto simp: grow_table_def nth_append)
qed

theorem grow_table_cleared_witness:
  "grow_table 4 (\<lambda>_. 9) [5] 4 ! 3 = 0 \<and> grow_table 8 (\<lambda>_. 9) [5] 4 ! 3 = 9"
  using grow_table_cleared [of "[5]" 4 "\<lambda>_. 9"] by simp

end
