(* ===== verification/Asocket.thy ===== *)
theory Asocket
  imports Packet Fdevent
begin

text \<open>
  The sockets of the server (\<open>adb/sockets.cpp\<close>, and the device trackers of \<open>adb/transport.cpp\<close>).
  A socket is an object with three function pointers; the pointers are values of the datatypes
  \<open>enqueue_fn\<close>, \<open>ready_fn\<close> and \<open>close_fn\<close>, and a call through a pointer is a dispatch on them.
  \<open>world\<close> is the state all of them share: the allocated sockets by address, the two lists of local
  sockets, the event loop of \<open>Fdevent\<close> (the \<open>fde\<close> of a socket has the address of the socket), the
  descriptors as scripts of \<open>Sysio\<close> with the bytes written to them, the transports, and the packets
  handed to \<open>send_packet\<close>.  A use of a freed socket, of a null pointer or of \<open>exit\<close> is a value
  \<open>Inl\<close>, so that a theorem with \<open>Inr\<close> says that none of them happens.
\<close>

section \<open>State\<close>

datatype enqueue_fn =
  local_socket_enqueue | remote_socket_enqueue | smart_socket_enqueue | device_tracker_enqueue

datatype ready_fn =
  local_socket_ready | local_socket_ready_notify | remote_socket_ready | smart_socket_ready
  | device_tracker_ready

datatype close_fn =
  local_socket_close | local_socket_close_notify | remote_socket_close | smart_socket_close
  | device_tracker_close

text \<open>\<open>pkts\<close> is the queue from \<open>pkt_first\<close> to \<open>pkt_last\<close>, each packet being its unread bytes.\<close>

record asocket =
  sk_id :: u32
  closing :: bool
  exit_on_close :: bool
  peer :: nat
  sk_fd :: int
  pkts :: "byte list list"
  enqueue :: enqueue_fn
  ready :: ready_fn
  close :: close_fn
  sk_transport :: nat
  update_needed :: bool

datatype transport_type = kTransportUsb | kTransportLocal | kTransportAny | kTransportHost

text \<open>The nodes of a transport's list of disconnect callbacks: those of remote sockets and of
  listeners.\<close>

datatype adisconnect = remote_socket_disconnect nat | listener_disconnect nat

definition CS_ANY :: int where "CS_ANY = - 1"
definition CS_OFFLINE :: int where "CS_OFFLINE = 0"
definition CS_BOOTLOADER :: int where "CS_BOOTLOADER = 1"
definition CS_DEVICE :: int where "CS_DEVICE = 2"
definition CS_HOST :: int where "CS_HOST = 3"
definition CS_RECOVERY :: int where "CS_RECOVERY = 4"
definition CS_NOPERM :: int where "CS_NOPERM = 5"
definition CS_SIDELOAD :: int where "CS_SIDELOAD = 6"

lemmas cs_defs = CS_ANY_def CS_OFFLINE_def CS_BOOTLOADER_def CS_DEVICE_def CS_HOST_def
  CS_RECOVERY_def CS_NOPERM_def CS_SIDELOAD_def

text \<open>\<open>open_end\<close> is the state of the pair of descriptors that joins the main thread to the threads of the
  transport: the end \<open>t_fd\<close> is still open, so that what is written to \<open>transport_socket\<close> is accepted.\<close>

record atransport =
  t_fd :: int
  sfd :: int
  usb :: nat
  transport_socket :: int
  ref_count :: int
  sync_token :: u32
  token :: "byte list"
  connection_state :: int
  t_online :: bool
  ttype :: transport_type
  serial :: "byte list option"
  t_product :: "byte list option"
  model :: "byte list option"
  device :: "byte list option"
  devpath :: "byte list option"
  adb_port :: int
  kicked :: bool
  disconnects :: "adisconnect list"
  open_end :: bool

record alistener =
  l_fd :: int
  local_name :: "byte list"
  connect_to :: "byte list"
  l_transport :: nat

record world =
  socks :: "nat \<Rightarrow> asocket option"
  local_list :: "nat list"
  closing_list :: "nat list"
  next_id :: u32
  ev :: fdst
  rds :: "int \<Rightarrow> rd_ev list"
  wrs :: "int \<Rightarrow> wr_ev list"
  outs :: "int \<Rightarrow> byte list"
  transports :: "nat \<Rightarrow> atransport option"
  transport_list :: "nat list"
  trackers :: "nat list"
  listeners :: "nat \<Rightarrow> alistener option"
  listener_list :: "nat list"
  sent :: "(nat \<times> amessage \<times> byte list) list"

datatype halt =
  UseAfterFree nat | NullPointer | Overread | Overrun | FdFatal fd_fatal | Fatal string | Exit int | OutOfFuel

text \<open>Access through a pointer.\<close>

definition deref :: "nat \<Rightarrow> world \<Rightarrow> halt + asocket" where
  "deref s w = (if s = 0 then Inl NullPointer
     else case socks w s of None \<Rightarrow> Inl (UseAfterFree s) | Some k \<Rightarrow> Inr k)"

definition set_sock :: "nat \<Rightarrow> (asocket \<Rightarrow> asocket) \<Rightarrow> world \<Rightarrow> halt + world" where
  "set_sock s f w = sbind (deref s w) (\<lambda>k. Inr (w\<lparr>socks := (socks w)(s \<mapsto> f k)\<rparr>))"

definition free_sock :: "nat \<Rightarrow> world \<Rightarrow> world" where
  "free_sock s w = w\<lparr>socks := (socks w)(s := None)\<rparr>"

definition deref_transport :: "nat \<Rightarrow> world \<Rightarrow> halt + atransport" where
  "deref_transport t w = (if t = 0 then Inl NullPointer
     else case transports w t of None \<Rightarrow> Inl (UseAfterFree t) | Some x \<Rightarrow> Inr x)"

definition set_transport :: "nat \<Rightarrow> (atransport \<Rightarrow> atransport) \<Rightarrow> world \<Rightarrow> halt + world" where
  "set_transport t f w = sbind (deref_transport t w) (\<lambda>x. Inr (w\<lparr>transports := (transports w)(t \<mapsto> f x)\<rparr>))"

definition fd_op :: "(fdst \<Rightarrow> fdst) \<Rightarrow> world \<Rightarrow> world" where
  "fd_op f w = w\<lparr>ev := f (ev w)\<rparr>"

definition fd_try :: "(fdst \<Rightarrow> fd_fatal + fdst) \<Rightarrow> world \<Rightarrow> halt + world" where
  "fd_try f w = (case f (ev w) of Inl e \<Rightarrow> Inl (FdFatal e) | Inr s \<Rightarrow> Inr (w\<lparr>ev := s\<rparr>))"

section \<open>Descriptors\<close>

text \<open>
  The descriptors of sockets do not block: when the script of a descriptor is used up, calls fail
  with \<open>EAGAIN\<close>.
\<close>

definition nb_write :: "nat \<Rightarrow> wr_ev list \<Rightarrow> wr_res \<times> wr_ev list" where
  "nb_write n evs = (case adb_write n evs of None \<Rightarrow> (WrFail EAGAIN, []) | Some x \<Rightarrow> x)"

definition nb_read :: "nat \<Rightarrow> rd_ev list \<Rightarrow> rd_res \<times> rd_ev list" where
  "nb_read n evs = (case adb_read n evs of None \<Rightarrow> (RdFail EAGAIN, []) | Some x \<Rightarrow> x)"

text \<open>\<open>writex\<close> on such a descriptor.\<close>

definition nb_writex :: "byte list \<Rightarrow> wr_ev list \<Rightarrow> (int \<times> byte list) \<times> wr_ev list" where
  "nb_writex bs evs = (case writex bs (evs @ [WrErr EAGAIN]) of
     None \<Rightarrow> ((- 1, []), [])
   | Some x \<Rightarrow> x)"

definition put_out :: "int \<Rightarrow> byte list \<Rightarrow> wr_ev list \<Rightarrow> world \<Rightarrow> world" where
  "put_out fd bs evs w = w\<lparr>outs := (outs w)(fd := outs w fd @ bs), wrs := (wrs w)(fd := evs)\<rparr>"

definition fd_writex :: "int \<Rightarrow> byte list \<Rightarrow> world \<Rightarrow> int \<times> world" where
  "fd_writex fd bs w = (case nb_writex bs (wrs w fd) of ((r, out), evs) \<Rightarrow> (r, put_out fd out evs w))"

text \<open>One unchecked \<open>adb_write\<close>.\<close>

definition fd_write :: "int \<Rightarrow> byte list \<Rightarrow> world \<Rightarrow> world" where
  "fd_write fd bs w = (case nb_write (length bs) (wrs w fd) of
     (Wrote k, evs) \<Rightarrow> put_out fd (take k bs) evs w
   | (WrFail e, evs) \<Rightarrow> put_out fd [] evs w)"

text \<open>The writing loop over one packet: what was written, what is left, and how the loop ended.
  The event function retries after \<open>EINTR\<close>, \<open>local_socket_enqueue\<close> does not.\<close>

datatype push_end = Done | Blocked | Broken

function push :: "bool \<Rightarrow> byte list \<Rightarrow> wr_ev list \<Rightarrow> push_end \<times> byte list \<times> byte list \<times> wr_ev list" where
  "push retry bs evs =
     (if bs = [] then (Done, [], [], evs)
      else case nb_write (length bs) evs of
        (Wrote k, evs') \<Rightarrow>
          if k = 0 then (Broken, [], bs, evs')
          else (case push retry (drop k bs) evs' of (e, out, left, evs'') \<Rightarrow> (e, take k bs @ out, left, evs''))
      | (WrFail e, evs') \<Rightarrow>
          if e = EAGAIN then (Blocked, [], bs, evs')
          else if e = EINTR \<and> retry then push retry bs evs'
          else (Broken, [], bs, evs'))"
  by pat_completeness auto
termination
proof (relation "measure (\<lambda>(_, bs, evs). length bs + length evs)", goal_cases)
  case 1
  show ?case by simp
next
  case (2 retry bs evs r evs' k)
  then show ?case
    using adb_write_length [of "length bs" evs r evs']
    by (cases bs) (auto simp: nb_write_def split: option.splits)
next
  case (3 retry bs evs r evs' e)
  then show ?case
    using adb_write_fail_length [of "length bs" evs e evs']
    by (auto simp: nb_write_def split: option.splits)
qed

declare push.simps [simp del]

text \<open>The loop over the queue.\<close>

fun flush :: "byte list list \<Rightarrow> wr_ev list \<Rightarrow> push_end \<times> byte list \<times> byte list list \<times> wr_ev list" where
  "flush [] evs = (Done, [], [], evs)"
| "flush (p # ps) evs = (case push True p evs of
     (Done, out, left, evs') \<Rightarrow>
       (case flush ps evs' of (e, out', left', evs'') \<Rightarrow> (e, out @ out', left', evs''))
   | (e, out, left, evs') \<Rightarrow> (e, out, left # ps, evs'))"

text \<open>The reading loop: the bytes read, the last result of \<open>adb_read\<close>, whether it means the end,
  and the rest of the script.\<close>

function slurp :: "nat \<Rightarrow> rd_ev list \<Rightarrow> byte list \<times> int \<times> bool \<times> rd_ev list" where
  "slurp avail evs =
     (case nb_read avail evs of
        (Got bs, evs') \<Rightarrow>
          if length bs < avail \<and> bs \<noteq> []
          then (case slurp (avail - length bs) evs' of (bs2, r, eof, evs'') \<Rightarrow> (bs @ bs2, r, eof, evs''))
          else (bs, int (length bs), False, evs')
      | (Eof, evs') \<Rightarrow> ([], 0, True, evs')
      | (RdFail e, evs') \<Rightarrow>
          if e = EAGAIN then ([], - 1, False, evs')
          else if e = EINTR then slurp avail evs'
          else ([], - 1, True, evs'))"
  by pat_completeness auto
termination
proof (relation "measure (\<lambda>(n, evs). n + length evs)", goal_cases)
  case 1
  show ?case by simp
next
  case (2 n evs r evs' bs)
  then show ?case
    using adb_read_length [of n evs r evs']
    by (cases bs) (auto simp: nb_read_def split: option.splits)
next
  case (3 n evs r evs' e)
  then show ?case
    using adb_read_fail_length [of n evs e evs']
    by (auto simp: nb_read_def split: option.splits)
qed

declare slurp.simps [simp del]

lemma unat_word_of_nat_small: "n \<le> MAX_PAYLOAD \<Longrightarrow> unat (word_of_nat n :: u32) = n"
  by (simp add: MAX_PAYLOAD_def unat_of_nat take_bit_nat_eq_self)

section \<open>Packets\<close>

text \<open>
  \<open>send_packet\<close> seals the packet (\<open>Packet.seal_packet\<close>) and writes its address to the socket of the
  transport, which fails when the other end has been closed; here it is appended to \<open>sent\<close>.  \<open>packet\<close> is what the callers put into a packet.
\<close>

definition packet :: "u32 \<Rightarrow> u32 \<Rightarrow> u32 \<Rightarrow> byte list \<Rightarrow> apacket" where
  "packet cmd a b bs = \<lparr>pk_len = word_of_nat (length bs), pk_ptr = 0,
     pk_msg = \<lparr>command = cmd, arg0 = a, arg1 = b, data_length = word_of_nat (length bs),
               data_check = 0, magic = 0\<rparr>,
     pk_data = bs @ replicate (MAX_PAYLOAD - length bs) 0\<rparr>"

definition send_packet :: "apacket \<Rightarrow> nat \<Rightarrow> world \<Rightarrow> halt + world" where
  "send_packet p t w =
     (if t = 0 then Inl (Fatal ''Transport is null'')
      else case transports w t of
        None \<Rightarrow> Inl (UseAfterFree t)
      | Some x \<Rightarrow> (case seal_packet p of
            None \<Rightarrow> Inl (Fatal ''packet overrun'')
          | Some q \<Rightarrow> if \<not> open_end x then Inl (Fatal ''cannot enqueue packet on transport socket'')
              else Inr (w\<lparr>sent := sent w @ [(t, pk_msg q, payload q)]\<rparr>)))"

definition add_transport_disconnect :: "nat \<Rightarrow> adisconnect \<Rightarrow> world \<Rightarrow> halt + world" where
  "add_transport_disconnect t d = set_transport t (\<lambda>x. x\<lparr>disconnects := disconnects x @ [d]\<rparr>)"

definition remove_transport_disconnect :: "nat \<Rightarrow> adisconnect \<Rightarrow> world \<Rightarrow> halt + world" where
  "remove_transport_disconnect t d = set_transport t (\<lambda>x. x\<lparr>disconnects := remove1 d (disconnects x)\<rparr>)"

section \<open>The lists of local sockets\<close>

definition find_local_socket :: "u32 \<Rightarrow> world \<Rightarrow> nat" where
  "find_local_socket i w =
     (case find (\<lambda>s. map_option sk_id (socks w s) = Some i) (local_list w) of None \<Rightarrow> 0 | Some s \<Rightarrow> s)"

definition insert_local_socket :: "nat \<Rightarrow> world \<Rightarrow> world" where
  "insert_local_socket s w = w\<lparr>local_list := local_list w @ [s]\<rparr>"

definition insert_closing_socket :: "nat \<Rightarrow> world \<Rightarrow> world" where
  "insert_closing_socket s w = w\<lparr>closing_list := closing_list w @ [s]\<rparr>"

definition install_local_socket :: "nat \<Rightarrow> world \<Rightarrow> halt + world" where
  "install_local_socket s w =
     sbind (set_sock s (\<lambda>k. k\<lparr>sk_id := next_id w\<rparr>) w)
       (\<lambda>w1. Inr (insert_local_socket s (w1\<lparr>next_id := next_id w1 + 1\<rparr>)))"

definition remove_socket :: "nat \<Rightarrow> world \<Rightarrow> halt + world" where
  "remove_socket s w =
     (if s \<in> set (local_list w) \<or> s \<in> set (closing_list w)
      then set_sock s (\<lambda>k. k\<lparr>sk_id := 0\<rparr>)
             (w\<lparr>local_list := remove1 s (local_list w), closing_list := remove1 s (closing_list w)\<rparr>)
      else Inr w)"

section \<open>Closing\<close>

definition local_socket_destroy :: "nat \<Rightarrow> world \<Rightarrow> halt + world" where
  "local_socket_destroy s w = sbind (deref s w) (\<lambda>k.
     sbind (fd_try (fdevent_remove s) w) (\<lambda>w1.
     sbind (remove_socket s w1) (\<lambda>w2.
       if exit_on_close k then Inl (Exit 1) else Inr (free_sock s w2))))"

text \<open>In the operations below \<open>cl\<close> is a call through the \<open>close\<close> pointer of a socket.\<close>

definition local_socket_close_locked :: "(nat \<Rightarrow> world \<Rightarrow> halt + world) \<Rightarrow> nat \<Rightarrow> world \<Rightarrow> halt + world" where
  "local_socket_close_locked cl s w = sbind (deref s w) (\<lambda>k.
     sbind (if peer k \<noteq> 0
            then sbind (set_sock (peer k) (\<lambda>p. p\<lparr>peer := 0\<rparr>) w) (\<lambda>w1.
                 sbind (cl (peer k) w1) (\<lambda>w2. set_sock s (\<lambda>k. k\<lparr>peer := 0\<rparr>) w2))
            else Inr w) (\<lambda>w3.
     sbind (deref s w3) (\<lambda>k3.
       if closing k3 \<or> pkts k3 = [] then local_socket_destroy s w3
       else sbind (set_sock s (\<lambda>k. k\<lparr>closing := True\<rparr>) w3) (\<lambda>w4.
            sbind (remove_socket s (fd_op (fdevent_del s (ucast FDE_READ)) w4)) (\<lambda>w5.
              Inr (insert_closing_socket s w5))))))"

definition hex_digit :: "nat \<Rightarrow> byte" where
  "hex_digit n = (if n < 10 then word_of_nat (48 + n) else word_of_nat (87 + n))"

text \<open>\<open>%04x\<close> of a number that fits into four digits.\<close>

definition hex4 :: "nat \<Rightarrow> byte list" where
  "hex4 n = map hex_digit [n div 4096 mod 16, n div 256 mod 16, n div 16 mod 16, n mod 16]"

definition sendfailmsg :: "int \<Rightarrow> byte list \<Rightarrow> world \<Rightarrow> int \<times> world" where
  "sendfailmsg fd reason w =
     (let len = min (length reason) 0xffff;
          (r, w1) = fd_writex fd (ascii ''FAIL'' @ hex4 len) w
      in if r \<noteq> 0 then (- 1, w1) else fd_writex fd (take len reason) w1)"

definition local_socket_close_notify_fn :: "(nat \<Rightarrow> world \<Rightarrow> halt + world) \<Rightarrow> nat \<Rightarrow> world \<Rightarrow> halt + world" where
  "local_socket_close_notify_fn cl s w =
     sbind (set_sock s (\<lambda>k. k\<lparr>ready := local_socket_ready, close := local_socket_close\<rparr>) w) (\<lambda>w1.
     sbind (deref s w1) (\<lambda>k.
       local_socket_close_locked cl s (snd (sendfailmsg (sk_fd k) (ascii ''closed'') w1))))"

definition remote_socket_close_fn :: "(nat \<Rightarrow> world \<Rightarrow> halt + world) \<Rightarrow> nat \<Rightarrow> world \<Rightarrow> halt + world" where
  "remote_socket_close_fn cl s w = sbind (deref s w) (\<lambda>k.
     sbind (if peer k \<noteq> 0
            then sbind (deref (peer k) w) (\<lambda>p.
                 sbind (set_sock (peer k) (\<lambda>p. p\<lparr>peer := 0\<rparr>) w) (\<lambda>w1.
                 sbind (cl (peer k) w1) (\<lambda>w2. Inr (sk_id p, w2))))
            else Inr (0, w)) (\<lambda>(a0, w3).
     sbind (deref s w3) (\<lambda>k3.
     sbind (send_packet (packet A_CLSE a0 (sk_id k3) []) (sk_transport k3) w3) (\<lambda>w4.
     sbind (remove_transport_disconnect (sk_transport k3) (remote_socket_disconnect s) w4) (\<lambda>w5.
       Inr (free_sock s w5))))))"

definition smart_socket_close_fn :: "(nat \<Rightarrow> world \<Rightarrow> halt + world) \<Rightarrow> nat \<Rightarrow> world \<Rightarrow> halt + world" where
  "smart_socket_close_fn cl s w = sbind (deref s w) (\<lambda>k.
     sbind (if peer k \<noteq> 0
            then sbind (set_sock (peer k) (\<lambda>p. p\<lparr>peer := 0\<rparr>) w) (\<lambda>w1.
                 sbind (cl (peer k) w1) (\<lambda>w2. set_sock s (\<lambda>k. k\<lparr>peer := 0\<rparr>) w2))
            else Inr w) (\<lambda>w3.
     sbind (deref s w3) (\<lambda>_. Inr (free_sock s w3))))"

definition device_tracker_remove :: "nat \<Rightarrow> world \<Rightarrow> world" where
  "device_tracker_remove s w = w\<lparr>trackers := remove1 s (trackers w)\<rparr>"

definition device_tracker_close_fn :: "(nat \<Rightarrow> world \<Rightarrow> halt + world) \<Rightarrow> nat \<Rightarrow> world \<Rightarrow> halt + world" where
  "device_tracker_close_fn cl s w = sbind (deref s w) (\<lambda>k.
     sbind (if peer k \<noteq> 0
            then sbind (set_sock (peer k) (\<lambda>p. p\<lparr>peer := 0\<rparr>) w) (cl (peer k))
            else Inr w) (\<lambda>w3.
     sbind (deref s w3) (\<lambda>_. Inr (free_sock s (device_tracker_remove s w3)))))"

text \<open>
  The knot: a call through \<open>close\<close>.  Each call clears the \<open>peer\<close> of the socket it calls, so the calls
  nest at most twice; the fuel counts the nesting.
\<close>

fun close_sock :: "nat \<Rightarrow> nat \<Rightarrow> world \<Rightarrow> halt + world" where
  "close_sock 0 s w = Inl OutOfFuel"
| "close_sock (Suc n) s w = sbind (deref s w) (\<lambda>k. case close k of
       local_socket_close \<Rightarrow> local_socket_close_locked (close_sock n) s w
     | local_socket_close_notify \<Rightarrow> local_socket_close_notify_fn (close_sock n) s w
     | remote_socket_close \<Rightarrow> remote_socket_close_fn (close_sock n) s w
     | smart_socket_close \<Rightarrow> smart_socket_close_fn (close_sock n) s w
     | device_tracker_close \<Rightarrow> device_tracker_close_fn (close_sock n) s w)"

declare close_sock.simps(2) [simp del]

abbreviation call_close :: "nat \<Rightarrow> world \<Rightarrow> halt + world" where
  "call_close \<equiv> close_sock 2"

section \<open>Interest of a registered object\<close>

named_theorems sock_simps

lemma fdevent_add_bits:
  "k \<noteq> 9 \<Longrightarrow> bit (state (fdes (fdevent_add a (ucast m) e) a)) k \<longleftrightarrow>
     bit (state (fdes e a)) k \<or> k < 8 \<and> bit (m :: u16) k"
  by (auto simp: fdevent_add_def fdevent_set_state bit_simps)

lemma fdevent_del_bits:
  "k \<noteq> 9 \<Longrightarrow> bit (state (fdes (fdevent_del a (ucast m) e) a)) k \<longleftrightarrow>
     bit (state (fdes e a)) k \<and> \<not> (k < 8 \<and> bit (m :: u16) k)"
  by (auto simp: fdevent_del_def fdevent_set_state bit_simps)

lemma fdevent_add_frame [sock_simps]:
  "fde_fd (fdes (fdevent_add a m e) b) = fde_fd (fdes e b)" "closed (fdevent_add a m e) = closed e"
  "b \<noteq> a \<Longrightarrow> fdes (fdevent_add a m e) b = fdes e b"
  "force_eof (fdes (fdevent_add a m e) b) = force_eof (fdes e b)"
  by (simp_all add: fdevent_add_def fdevent_set_other)

lemma fdevent_del_frame [sock_simps]:
  "fde_fd (fdes (fdevent_del a m e) b) = fde_fd (fdes e b)" "closed (fdevent_del a m e) = closed e"
  "b \<noteq> a \<Longrightarrow> fdes (fdevent_del a m e) b = fdes e b"
  "force_eof (fdes (fdevent_del a m e) b) = force_eof (fdes e b)"
  by (simp_all add: fdevent_del_def fdevent_set_other)

lemma fdevent_add_inv: "fd_inv e ps \<Longrightarrow> bit (state (fdes e a)) 8 \<Longrightarrow> \<exists>qs. fd_inv (fdevent_add a m e) qs"
  unfolding fdevent_add_def using fdevent_set_inv by blast

lemma fdevent_del_inv: "fd_inv e ps \<Longrightarrow> bit (state (fdes e a)) 8 \<Longrightarrow> \<exists>qs. fd_inv (fdevent_del a m e) qs"
  unfolding fdevent_del_def using fdevent_set_inv by blast

lemma fdevent_remove_sock:
  assumes "fd_inv e ps" and "bit (state (fdes e a)) 8"
  obtains e' qs where "fdevent_remove a e = Inr e'" and "fd_inv e' qs"
    and "\<And>b. b \<noteq> a \<Longrightarrow> fdes e' b = fdes e b" and "state (fdes e' a) = 0" and "events (fdes e' a) = 0"
    and "closed e' = closed e @ (if bit (state (fdes e a)) 7 then [] else [fde_fd (fdes e a)])"
proof -
  from fdevent_remove_inv [OF assms] obtain e' where
    e: "fdevent_remove a e = Inr e'" "fd_inv e' (remove1 a ps)" by blast
  from assms have "table_inv e" by (simp add: fd_inv_def)
  from fdevent_remove_result [OF this assms(2)] obtain e'' where
    e'': "fdevent_remove a e = Inr e''" "fdes e'' = (fdes e)(a := (fdes e a)\<lparr>state := 0, events := 0\<rparr>)"
    "closed e'' = closed e @ (if bit (state (fdes e a)) 7 then [] else [fde_fd (fdes e a)])"
    by metis
  with e(1) have "e'' = e'" by simp
  with e e'' that [OF e] show thesis by simp
qed

section \<open>The invariant of the sockets\<close>

text \<open>
  \<open>peers_ok X\<close>: the relation of being connected is symmetric, except for the sockets in \<open>X\<close>, which
  are being closed.  \<open>vtable_ok\<close>: the three pointers of a socket belong to the same kind of socket.
\<close>

definition peers_ok :: "nat set \<Rightarrow> world \<Rightarrow> bool" where
  "peers_ok X w \<longleftrightarrow> (\<forall>s k. socks w s = Some k \<longrightarrow> s \<notin> X \<longrightarrow> peer k \<noteq> 0 \<longrightarrow>
     peer k \<noteq> s \<and> (\<exists>p. socks w (peer k) = Some p \<and> peer p = s))"

fun vtable_ok :: "asocket \<Rightarrow> bool" where
  "vtable_ok k \<longleftrightarrow> (case enqueue k of
      local_socket_enqueue \<Rightarrow>
        (ready k = local_socket_ready \<and> close k = local_socket_close)
        \<or> (ready k = local_socket_ready_notify \<and> close k = local_socket_close_notify)
    | remote_socket_enqueue \<Rightarrow> ready k = remote_socket_ready \<and> close k = remote_socket_close
    | smart_socket_enqueue \<Rightarrow> ready k = smart_socket_ready \<and> close k = smart_socket_close
    | device_tracker_enqueue \<Rightarrow> ready k = device_tracker_ready \<and> close k = device_tracker_close)"

declare vtable_ok.simps [simp del]

lemma vtable_ok_update [simp]:
  "vtable_ok (k\<lparr>peer := x\<rparr>) = vtable_ok k" "vtable_ok (k\<lparr>pkts := ps\<rparr>) = vtable_ok k"
  "vtable_ok (k\<lparr>sk_id := i\<rparr>) = vtable_ok k" "vtable_ok (k\<lparr>closing := b\<rparr>) = vtable_ok k"
  "vtable_ok (k\<lparr>sk_transport := t\<rparr>) = vtable_ok k"
  by (simp_all add: vtable_ok.simps cong: enqueue_fn.case_cong)

abbreviation is_local :: "asocket \<Rightarrow> bool" where "is_local k \<equiv> enqueue k = local_socket_enqueue"
abbreviation is_remote :: "asocket \<Rightarrow> bool" where "is_remote k \<equiv> enqueue k = remote_socket_enqueue"
abbreviation is_tracker :: "asocket \<Rightarrow> bool" where "is_tracker k \<equiv> enqueue k = device_tracker_enqueue"

text \<open>
  What holds of one socket.  A local socket is registered with the event loop under its own address
  and waits for \<open>FDE_WRITE\<close> whenever it has something to write; a closing one has no peer.
\<close>

definition event_ok :: "fdst \<Rightarrow> nat \<Rightarrow> asocket \<Rightarrow> bool" where
  "event_ok e s k \<longleftrightarrow> (is_local k \<longrightarrow> bit (state (fdes e s)) 8 \<and> \<not> bit (state (fdes e s)) 7
     \<and> fde_fd (fdes e s) = sk_fd k \<and> (pkts k \<noteq> [] \<or> closing k \<longrightarrow> bit (state (fdes e s)) 1))"

definition sock_ok :: "nat \<Rightarrow> asocket \<Rightarrow> bool" where
  "sock_ok s k \<longleftrightarrow> s \<noteq> 0 \<and> vtable_ok k \<and> \<not> exit_on_close k
     \<and> (closing k \<longrightarrow> is_local k \<and> peer k = 0 \<and> close k = local_socket_close)
     \<and> (is_remote k \<or> is_tracker k \<longrightarrow> pkts k = [])"

definition heap_ok :: "world \<Rightarrow> bool" where
  "heap_ok w \<longleftrightarrow> (\<forall>s k. socks w s = Some k \<longrightarrow> sock_ok s k \<and> event_ok (ev w) s k)"

text \<open>The lists hold exactly the sockets they are meant to hold, each once.\<close>

definition lists_ok :: "world \<Rightarrow> bool" where
  "lists_ok w \<longleftrightarrow> distinct (local_list w) \<and> distinct (closing_list w) \<and> distinct (trackers w)
     \<and> (\<forall>s. s \<in> set (local_list w) \<longleftrightarrow> (\<exists>k. socks w s = Some k \<and> is_local k \<and> \<not> closing k))
     \<and> (\<forall>s. s \<in> set (closing_list w) \<longleftrightarrow> (\<exists>k. socks w s = Some k \<and> is_local k \<and> closing k))
     \<and> (\<forall>s. s \<in> set (trackers w) \<longleftrightarrow> (\<exists>k. socks w s = Some k \<and> is_tracker k))"

definition remote_of :: "world \<Rightarrow> nat \<Rightarrow> nat \<Rightarrow> bool" where
  "remote_of w s t \<longleftrightarrow> (\<exists>k. socks w s = Some k \<and> is_remote k \<and> sk_transport k = t)"

definition transports_ok :: "world \<Rightarrow> bool" where
  "transports_ok w \<longleftrightarrow>
     (\<forall>t x. transports w t = Some x \<longrightarrow> t \<noteq> 0 \<and> open_end x \<and> distinct (disconnects x)
        \<and> (\<forall>s. remote_socket_disconnect s \<in> set (disconnects x) \<longrightarrow> remote_of w s t))
     \<and> (\<forall>s t. remote_of w s t \<longrightarrow>
          (\<exists>x. transports w t = Some x \<and> remote_socket_disconnect s \<in> set (disconnects x)))"

lemma transports_ok_cong:
  "transports_ok w \<Longrightarrow> transports w' = transports w \<Longrightarrow> (\<And>s t. remote_of w' s t = remote_of w s t) \<Longrightarrow> transports_ok w'"
  by (simp add: transports_ok_def)

definition sock_inv :: "nat set \<Rightarrow> world \<Rightarrow> bool" where
  "sock_inv X w \<longleftrightarrow> peers_ok X w \<and> heap_ok w \<and> lists_ok w \<and> transports_ok w \<and> (\<exists>ps. fd_inv (ev w) ps)"

text \<open>What closing one socket may change, apart from the socket itself and its transport.\<close>

definition same_rest :: "world \<Rightarrow> world \<Rightarrow> bool" where
  "same_rest w w' \<longleftrightarrow> rds w' = rds w \<and> next_id w' = next_id w \<and> listeners w' = listeners w
     \<and> listener_list w' = listener_list w \<and> transport_list w' = transport_list w
     \<and> dom (transports w') = dom (transports w)"

lemma deref_Some [sock_simps]: "socks w s = Some k \<Longrightarrow> s \<noteq> 0 \<Longrightarrow> deref s w = Inr k"
  by (simp add: deref_def)

lemma set_sock_Some [sock_simps]:
  "socks w s = Some k \<Longrightarrow> s \<noteq> 0 \<Longrightarrow> set_sock s f w = Inr (w\<lparr>socks := (socks w)(s \<mapsto> f k)\<rparr>)"
  by (simp add: set_sock_def deref_def)

lemma sock_invD:
  assumes "sock_inv X w" and "socks w s = Some k"
  shows "s \<noteq> 0" "vtable_ok k" "\<not> exit_on_close k" "sock_ok s k" "event_ok (ev w) s k"
  using assms by (auto simp: sock_inv_def heap_ok_def sock_ok_def)

lemma peer_alive:
  assumes "sock_inv X w" and "socks w s = Some k" and "s \<notin> X" and "peer k \<noteq> 0"
  obtains p where "socks w (peer k) = Some p" and "peer p = s" and "peer k \<noteq> s"
  using assms unfolding sock_inv_def peers_ok_def by blast

text \<open>Clearing the peer of a socket whose partner is being closed.\<close>

lemma peers_ok_clear:
  assumes ok: "peers_ok X w" and s: "socks w s = Some k" "s \<notin> X" and p: "peer k = p" "p \<noteq> 0" "socks w p = Some q"
  shows "peers_ok (insert s X) (w\<lparr>socks := (socks w)(p \<mapsto> q\<lparr>peer := 0\<rparr>)\<rparr>)"
  unfolding peers_ok_def
proof (intro allI impI)
  fix a c assume a: "socks (w\<lparr>socks := (socks w)(p \<mapsto> q\<lparr>peer := 0\<rparr>)\<rparr>) a = Some c" "a \<notin> insert s X" "peer c \<noteq> 0"
  have q: "peer q = s" using ok s p unfolding peers_ok_def by force
  have "a \<noteq> p" using a by auto
  with a have c: "socks w a = Some c" by simp
  then obtain b where b: "peer c \<noteq> a" "socks w (peer c) = Some b" "peer b = a"
    using ok a unfolding peers_ok_def by blast
  then have "peer c \<noteq> p" using q p(3) a(2) by auto
  with b show "peer c \<noteq> a \<and> (\<exists>d. socks (w\<lparr>socks := (socks w)(p \<mapsto> q\<lparr>peer := 0\<rparr>)\<rparr>) (peer c) = Some d \<and> peer d = a)"
    by simp
qed

subsection \<open>Updates of one socket\<close>

lemma event_ok_frame: "fdes e' s = fdes e s \<Longrightarrow> event_ok e' s k \<longleftrightarrow> event_ok e s k"
  by (simp add: event_ok_def)

lemma inv_free:
  assumes inv: "sock_inv X w" and s: "socks w s = Some k"
    and nopeer: "\<And>q c. socks w q = Some c \<Longrightarrow> q \<notin> X \<Longrightarrow> peer c \<noteq> s"
    and w': "socks w' = (socks w)(s := None)" "local_list w' = remove1 s (local_list w)"
      "closing_list w' = remove1 s (closing_list w)" "trackers w' = remove1 s (trackers w)"
      "\<And>t. transports w' t = map_option (\<lambda>x. if is_remote k \<and> t = sk_transport k
         then x\<lparr>disconnects := remove1 (remote_socket_disconnect s) (disconnects x)\<rparr> else x) (transports w t)"
    and fd: "fd_inv (ev w') qs" "\<And>a. a \<noteq> s \<Longrightarrow> fdes (ev w') a = fdes (ev w) a"
  shows "sock_inv (X - {s}) w'"
proof -
  have h: "heap_ok w" and p: "peers_ok X w" and l: "lists_ok w" and t: "transports_ok w"
    using inv by (auto simp: sock_inv_def)
  have "peers_ok (X - {s}) w'"
    using p nopeer unfolding peers_ok_def w'(1) by (auto split: if_splits)
  moreover have "heap_ok w'"
    using h fd(2) unfolding heap_ok_def w'(1) by (auto simp: event_ok_def split: if_splits)
  moreover have "lists_ok w'"
    using l s unfolding lists_ok_def w' by (simp add: distinct_remove1)
  moreover have "transports_ok w'"
  proof -
    have r: "remote_of w' a t0 \<longleftrightarrow> a \<noteq> s \<and> remote_of w a t0" for a t0
      by (auto simp: remote_of_def w'(1))
    have rs: "remote_of w s t0 \<longleftrightarrow> is_remote k \<and> t0 = sk_transport k" for t0
      using s by (auto simp: remote_of_def)
    have 1: "t0 \<noteq> 0 \<and> open_end x \<and> distinct (disconnects x)
        \<and> (\<forall>a. remote_socket_disconnect a \<in> set (disconnects x) \<longrightarrow> remote_of w' a t0)"
      if x: "transports w' t0 = Some x" for t0 x
    proof -
      from x obtain y where y: "transports w t0 = Some y"
        and xy: "x = (if is_remote k \<and> t0 = sk_transport k
          then y\<lparr>disconnects := remove1 (remote_socket_disconnect s) (disconnects y)\<rparr> else y)"
        unfolding w' by auto
      have "open_end x = open_end y" unfolding xy by simp
      moreover from t y have y': "t0 \<noteq> 0" "distinct (disconnects y)" "open_end y"
        "\<And>a. remote_socket_disconnect a \<in> set (disconnects y) \<Longrightarrow> remote_of w a t0"
        unfolding transports_ok_def by blast+
      moreover have "disconnects x = (if remote_of w s t0 then remove1 (remote_socket_disconnect s) (disconnects y) else disconnects y)"
        unfolding xy rs by simp
      ultimately have "open_end x" "set (disconnects x) = set (disconnects y) - (if remote_of w s t0 then {remote_socket_disconnect s} else {})"
        "distinct (disconnects x)" using y'(2) by (simp_all add: distinct_remove1)
      with y' show ?thesis unfolding r by (auto split: if_splits)
    qed
    have 2: "\<exists>x. transports w' t0 = Some x \<and> remote_socket_disconnect a \<in> set (disconnects x)"
      if c: "remote_of w' a t0" for a t0
    proof -
      from c have a: "a \<noteq> s" "remote_of w a t0" unfolding r by auto
      with t obtain y where "transports w t0 = Some y" "remote_socket_disconnect a \<in> set (disconnects y)"
        unfolding transports_ok_def by blast
      with a show ?thesis unfolding w' by auto
    qed
    from 1 2 show ?thesis unfolding transports_ok_def by blast
  qed
  ultimately show ?thesis using fd(1) unfolding sock_inv_def by blast
qed

lemma inv_modify:
  assumes inv: "sock_inv X w" and s: "socks w s = Some k"
    and w': "socks w' = (socks w)(s \<mapsto> k')" "local_list w' = local_list w"
      "closing_list w' = closing_list w" "trackers w' = trackers w" "transports w' = transports w"
    and k': "enqueue k' = enqueue k" "closing k' = closing k" "is_remote k \<Longrightarrow> sk_transport k' = sk_transport k"
    and ok: "sock_ok s k'" "event_ok (ev w') s k'"
    and fd: "fd_inv (ev w') qs" "\<And>a. a \<noteq> s \<Longrightarrow> fdes (ev w') a = fdes (ev w) a"
    and p': "peers_ok Y w'"
  shows "sock_inv Y w'"
proof -
  have h: "heap_ok w" and l: "lists_ok w" and t: "transports_ok w"
    using inv by (auto simp: sock_inv_def)
  have "heap_ok w'"
    using h fd(2) ok unfolding heap_ok_def w'(1) by (auto simp: event_ok_def split: if_splits)
  moreover have "lists_ok w'"
    using l s k' unfolding lists_ok_def w' by simp
  moreover have "transports_ok w'"
    by (rule transports_ok_cong [OF t w'(5)]) (use s k' in \<open>auto simp: remote_of_def w'(1)\<close>)
  ultimately show ?thesis using fd(1) p' unfolding sock_inv_def by blast
qed

lemma inv_park:
  assumes inv: "sock_inv X w" and s: "socks w s = Some k"
    and k: "is_local k" "\<not> closing k" "peer k = 0" "pkts k \<noteq> []" "close k = local_socket_close"
    and w': "socks w' = (socks w)(s \<mapsto> k\<lparr>closing := True, sk_id := 0\<rparr>)" "local_list w' = remove1 s (local_list w)"
      "closing_list w' = closing_list w @ [s]" "trackers w' = trackers w" "transports w' = transports w"
    and fd: "fd_inv (ev w') qs" "\<And>a. a \<noteq> s \<Longrightarrow> fdes (ev w') a = fdes (ev w) a"
    and evs: "event_ok (ev w') s (k\<lparr>closing := True, sk_id := 0\<rparr>)"
  shows "sock_inv (X - {s}) w'"
proof -
  have h: "heap_ok w" and p: "peers_ok X w" and l: "lists_ok w" and t: "transports_ok w"
    using inv by (auto simp: sock_inv_def)
  have "sock_ok s k" using h s by (auto simp: heap_ok_def)
  then have "sock_ok s (k\<lparr>closing := True, sk_id := 0\<rparr>)"
    using k by (simp add: sock_ok_def)
  then have "heap_ok w'"
    using h fd(2) evs unfolding heap_ok_def w'(1) by (auto simp: event_ok_def split: if_splits)
  moreover have "lists_ok w'"
    using l s k unfolding lists_ok_def w' by (auto simp: distinct_remove1)
  moreover have "transports_ok w'"
    by (rule transports_ok_cong [OF t w'(5)]) (use s in \<open>auto simp: remote_of_def w'(1)\<close>)
  moreover have "peers_ok (X - {s}) w'"
    unfolding peers_ok_def
  proof (intro allI impI)
    fix a c assume a: "socks w' a = Some c" "a \<notin> X - {s}" "peer c \<noteq> 0"
    then have "a \<noteq> s" "socks w a = Some c" "a \<notin> X" using k(3) by (auto simp: w' split: if_splits)
    with p a obtain d where d: "peer c \<noteq> a" "socks w (peer c) = Some d" "peer d = a"
      unfolding peers_ok_def by blast
    have "a \<noteq> 0" using h \<open>socks w a = Some c\<close> by (auto simp: heap_ok_def sock_ok_def)
    then have "peer c \<noteq> s" using d k(3) s by auto
    with d show "peer c \<noteq> a \<and> (\<exists>d. socks w' (peer c) = Some d \<and> peer d = a)" by (simp add: w')
  qed
  ultimately show ?thesis using fd(1) unfolding sock_inv_def by blast
qed

subsection \<open>Closing a socket without a peer\<close>

text \<open>What a closed socket leaves: nothing, or a closing local socket with the same packets.\<close>

definition after_close :: "asocket \<Rightarrow> asocket option" where
  "after_close k = (if is_local k \<and> \<not> closing k \<and> pkts k \<noteq> []
     then Some (k\<lparr>closing := True, sk_id := 0, peer := 0, ready := local_socket_ready, close := local_socket_close\<rparr>)
     else None)"

lemma inv_no_peer:
  assumes "sock_inv X w" and "socks w s = Some k" and "peer k = 0"
    and "socks w q = Some c" and "q \<notin> X"
  shows "peer c \<noteq> s"
  using assms unfolding sock_inv_def peers_ok_def heap_ok_def sock_ok_def by force

lemma lists_mem:
  assumes "sock_inv X w" and "socks w s = Some k"
  shows "s \<in> set (local_list w) \<longleftrightarrow> is_local k \<and> \<not> closing k" "s \<in> set (closing_list w) \<longleftrightarrow> is_local k \<and> closing k"
    "s \<in> set (trackers w) \<longleftrightarrow> is_tracker k"
  using assms by (auto simp: sock_inv_def lists_ok_def)

lemma remove1_absent: "x \<notin> set xs \<Longrightarrow> remove1 x xs = xs"
  by (rule remove1_idem)

lemma destroy_leaf:
  assumes inv: "sock_inv X w" and s: "socks w s = Some k"
    and k: "is_local k" "\<And>q c. socks w q = Some c \<Longrightarrow> q \<notin> X \<Longrightarrow> peer c \<noteq> s"
  obtains w' where "local_socket_destroy s w = Inr w'" and "sock_inv (X - {s}) w'"
    and "socks w' = (socks w)(s := None)" and "sent w' = sent w" and "outs w' = outs w" and "wrs w' = wrs w"
    and "transports w' = transports w" and "same_rest w w'"
    and "closed (ev w') = closed (ev w) @ [sk_fd k]" and "\<And>a. a \<noteq> s \<Longrightarrow> fdes (ev w') a = fdes (ev w) a"
    and "trackers w' = trackers w"
proof -
  note d = sock_invD [OF inv s]
  obtain ps where ps: "fd_inv (ev w) ps" using inv by (auto simp: sock_inv_def)
  have act: "bit (state (fdes (ev w) s)) 8" "\<not> bit (state (fdes (ev w) s)) 7" "fde_fd (fdes (ev w) s) = sk_fd k"
    using d(5) k(1) by (simp_all add: event_ok_def)
  obtain e' qs where e': "fdevent_remove s (ev w) = Inr e'" "fd_inv e' qs"
    "\<And>b. b \<noteq> s \<Longrightarrow> fdes e' b = fdes (ev w) b" "closed e' = closed (ev w) @ [sk_fd k]"
    using fdevent_remove_sock [OF ps act(1)] act by metis
  define w' where "w' = w\<lparr>ev := e', local_list := remove1 s (local_list w), closing_list := remove1 s (closing_list w),
     socks := (socks w)(s := None)\<rparr>"
  have "s \<in> set (local_list w) \<or> s \<in> set (closing_list w)" using lists_mem [OF inv s] k(1) by auto
  then have r: "local_socket_destroy s w = Inr w'"
    using s d(1,3) e'(1)
    by (simp add: local_socket_destroy_def fd_try_def remove_socket_def free_sock_def w'_def sock_simps)
  have "remove1 s (trackers w) = trackers w" using lists_mem(3) [OF inv s] k(1) by (simp add: remove1_idem)
  then have "sock_inv (X - {s}) w'"
    using k(1) by (intro inv_free [OF inv s k(2), where qs = qs]) (simp_all add: w'_def e' map_option.id [unfolded id_def])
  with r show thesis
    by (rule that) (simp_all add: w'_def e' same_rest_def)
qed

lemma local_leaf:
  assumes inv: "sock_inv X w" and s: "socks w s = Some k"
    and k: "is_local k" "peer k = 0" "close k = local_socket_close \<or> pkts k = []"
  obtains w' where "local_socket_close_locked cl s w = Inr w'" and "sock_inv (X - {s}) w'"
    and "socks w' = (socks w)(s := after_close k)" and "sent w' = sent w" and "outs w' = outs w" and "wrs w' = wrs w"
    and "transports w' = transports w" and "same_rest w w'"
    and "closed (ev w') = closed (ev w) @ (if after_close k = None then [sk_fd k] else [])"
    and "\<And>a. a \<noteq> s \<Longrightarrow> fdes (ev w') a = fdes (ev w) a" and "trackers w' = trackers w"
proof (cases "closing k \<or> pkts k = []")
  case True
  have a: "after_close k = None" using True by (simp add: after_close_def)
  have e: "local_socket_close_locked cl s w = local_socket_destroy s w"
    using True s k sock_invD(1) [OF inv s] by (simp add: local_socket_close_locked_def sock_simps)
  show thesis
  proof (rule destroy_leaf [OF inv s k(1) inv_no_peer [OF inv s k(2)]], goal_cases)
    case (3 w')
    then show thesis by (intro that [of w']) (simp_all add: e a)
  qed
next
  case False
  then have k3: "close k = local_socket_close" using k(3) by simp
  note d = sock_invD [OF inv s]
  obtain ps where ps: "fd_inv (ev w) ps" using inv by (auto simp: sock_inv_def)
  have act: "bit (state (fdes (ev w) s)) 8" "bit (state (fdes (ev w) s)) 1" "\<not> bit (state (fdes (ev w) s)) 7"
     "fde_fd (fdes (ev w) s) = sk_fd k"
    using d(5) k(1) False by (simp_all add: event_ok_def)
  let ?e = "fdevent_del s (ucast FDE_READ) (ev w)"
  obtain qs where qs: "fd_inv ?e qs" using fdevent_del_inv [OF ps act(1)] by blast
  let ?k = "k\<lparr>closing := True, sk_id := 0\<rparr>"
  define w' where "w' = w\<lparr>ev := ?e, local_list := remove1 s (local_list w), closing_list := closing_list w @ [s],
     socks := (socks w)(s \<mapsto> ?k)\<rparr>"
  have v: "vtable_ok k" by (rule d(2))
  then have rdy: "ready k = local_socket_ready" using k k3 by (simp add: vtable_ok.simps)
  have after: "after_close k = Some ?k" using False k k3 rdy by (simp add: after_close_def)
  have l: "s \<in> set (local_list w)" "s \<notin> set (closing_list w)" using lists_mem [OF inv s] k(1) False by auto
  then have r: "local_socket_close_locked cl s w = Inr w'"
    using s d(1) False k
    by (simp add: local_socket_close_locked_def fd_op_def remove_socket_def sock_simps w'_def insert_closing_socket_def
        remove1_idem)
  have "event_ok ?e s ?k"
    using act k(1) by (simp add: event_ok_def fdevent_del_bits sock_simps)
  then have "sock_inv (X - {s}) w'"
    using k k3 False by (intro inv_park [OF inv s, where qs = qs]) (simp_all add: w'_def qs sock_simps)
  with r show thesis
    by (rule that) (simp_all add: w'_def after same_rest_def sock_simps)
qed

text \<open>The packet that \<open>send_packet\<close> puts on the wire.\<close>

definition wire :: "u32 \<Rightarrow> u32 \<Rightarrow> u32 \<Rightarrow> byte list \<Rightarrow> amessage \<times> byte list" where
  "wire cmd a b bs = (\<lparr>command = cmd, arg0 = a, arg1 = b, data_length = word_of_nat (length bs),
     data_check = byte_sum bs, magic = cmd XOR 0xffffffff\<rparr>, bs)"

lemma wire_legal: "length bs \<le> MAX_PAYLOAD \<Longrightarrow> legal_packet (wire cmd a b bs)"
  by (simp add: wire_def legal_packet_def unat_word_of_nat_small)

lemma send_packet_wire:
  assumes "length bs \<le> MAX_PAYLOAD" and "transports w t = Some x" and "t \<noteq> 0" and "open_end x"
  shows "send_packet (packet cmd a b bs) t w = Inr (w\<lparr>sent := sent w @ [(t, wire cmd a b bs)]\<rparr>)"
proof -
  have n: "unat (word_of_nat (length bs) :: u32) = length bs"
    using assms(1) by (simp add: unat_word_of_nat_small)
  have "sum_data (length bs) (bs @ replicate (MAX_PAYLOAD - length bs) 0) 0 = Some (byte_sum bs)"
    by (simp add: sum_data_eq)
  then show ?thesis
    using assms by (simp add: send_packet_def seal_packet_def packet_def payload_def wire_def n Let_def)
qed

text \<open>What a call of \<open>close\<close> sends to the transport.\<close>

definition close_msgs :: "asocket \<Rightarrow> u32 \<Rightarrow> (nat \<times> amessage \<times> byte list) list" where
  "close_msgs k a = (if is_remote k then [(sk_transport k, wire A_CLSE a (sk_id k) [])] else [])"

lemma remote_transport:
  assumes "sock_inv X w" and "socks w s = Some k" and "is_remote k"
  obtains x where "transports w (sk_transport k) = Some x" and "sk_transport k \<noteq> 0"
    and "remote_socket_disconnect s \<in> set (disconnects x)" and "open_end x"
  using assms unfolding sock_inv_def transports_ok_def remote_of_def by blast

lemma fd_writex_frame:
  assumes "fd_writex fd bs w = (r, w')"
  obtains ob wb where "w' = w\<lparr>outs := (outs w)(fd := ob), wrs := (wrs w)(fd := wb)\<rparr>"
  using assms by (auto simp: fd_writex_def put_out_def split: prod.splits)

lemma sendfailmsg_frame:
  obtains ob wb where "snd (sendfailmsg fd bs w) = w\<lparr>outs := (outs w)(fd := ob), wrs := (wrs w)(fd := wb)\<rparr>"
proof -
  obtain r1 w1 where 1: "fd_writex fd (ascii ''FAIL'' @ hex4 (min (length bs) 0xffff)) w = (r1, w1)" by force
  obtain r2 w2 where 2: "fd_writex fd (take (min (length bs) 0xffff) bs) w1 = (r2, w2)" by force
  obtain o1 b1 where f1: "w1 = w\<lparr>outs := (outs w)(fd := o1), wrs := (wrs w)(fd := b1)\<rparr>"
    by (rule fd_writex_frame [OF 1])
  obtain o2 b2 where f2: "w2 = w1\<lparr>outs := (outs w1)(fd := o2), wrs := (wrs w1)(fd := b2)\<rparr>"
    by (rule fd_writex_frame [OF 2])
  have "snd (sendfailmsg fd bs w) = (if r1 \<noteq> 0 then w1 else w2)"
    using 1 2 by (simp add: sendfailmsg_def Let_def)
  with f1 f2 that show thesis by (cases "r1 = 0") auto
qed

definition drop_disconnect :: "nat \<Rightarrow> asocket \<Rightarrow> (nat \<Rightarrow> atransport option) \<Rightarrow> nat \<Rightarrow> atransport option" where
  "drop_disconnect s k tr t = map_option (\<lambda>x. if is_remote k \<and> t = sk_transport k
     then x\<lparr>disconnects := remove1 (remote_socket_disconnect s) (disconnects x)\<rparr> else x) (tr t)"

lemma drop_disconnect_other: "\<not> is_remote k \<Longrightarrow> drop_disconnect s k tr = tr"
  by (rule ext) (simp add: drop_disconnect_def map_option.id [unfolded id_def])

lemma dom_drop_disconnect [simp]: "dom (drop_disconnect s k tr) = dom tr"
  by (auto simp: drop_disconnect_def)

text \<open>All that closing the socket \<open>s\<close> does when it has no peer.\<close>

definition leaf_result :: "nat \<Rightarrow> asocket \<Rightarrow> u32 \<Rightarrow> world \<Rightarrow> world \<Rightarrow> bool" where
  "leaf_result s k a w w' \<longleftrightarrow> socks w' = (socks w)(s := after_close k)
     \<and> sent w' = sent w @ close_msgs k a \<and> same_rest w w'
     \<and> (\<forall>g. g \<noteq> sk_fd k \<or> close k \<noteq> local_socket_close_notify \<longrightarrow> outs w' g = outs w g \<and> wrs w' g = wrs w g)
     \<and> (\<forall>b. b \<noteq> s \<longrightarrow> fdes (ev w') b = fdes (ev w) b)
     \<and> closed (ev w') = closed (ev w) @ (if is_local k \<and> after_close k = None then [sk_fd k] else [])
     \<and> transports w' = drop_disconnect s k (transports w)
     \<and> trackers w' = remove1 s (trackers w)"

lemma close_leaf_local:
  assumes inv: "sock_inv X w" and s: "socks w s = Some k"
    and k: "is_local k" "peer k = 0" "close k = local_socket_close \<or> pkts k = []"
  shows "\<exists>w'. local_socket_close_locked cl s w = Inr w' \<and> sock_inv (X - {s}) w' \<and> leaf_result s k a w w'"
proof (rule local_leaf [where cl = cl, OF inv s k], goal_cases)
  case (1 w')
  moreover have "remove1 s (trackers w) = trackers w" using lists_mem(3) [OF inv s] k(1) by (simp add: remove1_idem)
  ultimately show ?case
    using k by (intro exI [of _ w']) (simp add: leaf_result_def close_msgs_def drop_disconnect_other)
qed

lemma peers_ok_same:
  assumes "peers_ok X w" and "\<And>a. map_option peer (socks w' a) = map_option peer (socks w a)"
  shows "peers_ok X w'"
  unfolding peers_ok_def
proof (intro allI impI)
  fix s k assume s: "socks w' s = Some k" "s \<notin> X" "peer k \<noteq> 0"
  have "map_option peer (socks w s) = Some (peer k)" using assms(2) [of s] s(1) by simp
  then obtain k0 where k0: "socks w s = Some k0" "peer k0 = peer k" by auto
  with assms(1) s obtain p where p: "peer k \<noteq> s" "socks w (peer k) = Some p" "peer p = s"
    unfolding peers_ok_def by metis
  have "map_option peer (socks w' (peer k)) = Some s" using assms(2) [of "peer k"] p by simp
  with p(1) show "peer k \<noteq> s \<and> (\<exists>p. socks w' (peer k) = Some p \<and> peer p = s)" by auto
qed

text \<open>The first half of \<open>local_socket_close_notify\<close> makes the socket an ordinary local socket and
  writes the failure message to its descriptor.\<close>

lemma notify_first:
  assumes inv: "sock_inv X w" and s: "socks w s = Some k" and k: "is_local k" "close k = local_socket_close_notify"
  obtains w2 where "local_socket_close_notify_fn cl s w = local_socket_close_locked cl s w2" and "sock_inv X w2"
    and "socks w2 = (socks w)(s \<mapsto> k\<lparr>ready := local_socket_ready, close := local_socket_close\<rparr>)"
    and "sent w2 = sent w" and "same_rest w w2" and "\<And>g. g \<noteq> sk_fd k \<Longrightarrow> outs w2 g = outs w g \<and> wrs w2 g = wrs w g"
    and "ev w2 = ev w" and "transports w2 = transports w" and "trackers w2 = trackers w"
proof -
  note d = sock_invD [OF inv s]
  let ?k = "k\<lparr>ready := local_socket_ready, close := local_socket_close\<rparr>"
  let ?w1 = "w\<lparr>socks := (socks w)(s \<mapsto> ?k)\<rparr>"
  obtain ob wb where f: "snd (sendfailmsg (sk_fd k) (ascii ''closed'') ?w1) =
      ?w1\<lparr>outs := (outs ?w1)(sk_fd k := ob), wrs := (wrs ?w1)(sk_fd k := wb)\<rparr>"
    by (rule sendfailmsg_frame)
  let ?w2 = "?w1\<lparr>outs := (outs ?w1)(sk_fd k := ob), wrs := (wrs ?w1)(sk_fd k := wb)\<rparr>"
  obtain ps where ps: "fd_inv (ev w) ps" using inv by (auto simp: sock_inv_def)
  have nc: "\<not> closing k" using d(4) k by (auto simp: sock_ok_def)
  have inv2: "sock_inv X ?w2"
  proof (rule inv_modify [OF inv s, where k' = ?k and qs = ps])
    show "sock_ok s ?k" using d(4) k nc by (simp add: sock_ok_def vtable_ok.simps)
    show "event_ok (ev ?w2) s ?k" using d(5) by (simp add: event_ok_def)
    have p: "peers_ok X w" using inv by (simp add: sock_inv_def)
    show "peers_ok X ?w2" by (rule peers_ok_same [OF p]) (simp add: s)
  qed (simp_all add: ps)
  have "local_socket_close_notify_fn cl s w = local_socket_close_locked cl s ?w2"
    using s d(1) f by (simp add: local_socket_close_notify_fn_def sock_simps)
  from this inv2 show thesis by (rule that) (simp_all add: same_rest_def)
qed

lemma close_leaf_notify:
  assumes inv: "sock_inv X w" and s: "socks w s = Some k"
    and k: "is_local k" "peer k = 0" "close k = local_socket_close_notify"
  shows "\<exists>w'. local_socket_close_notify_fn cl s w = Inr w' \<and> sock_inv (X - {s}) w' \<and> leaf_result s k a w w'"
proof (rule notify_first [where cl = cl, OF inv s k(1,3)], goal_cases)
  case (1 w2)
  let ?k = "k\<lparr>ready := local_socket_ready, close := local_socket_close\<rparr>"
  have s2: "socks w2 s = Some ?k" using 1 by simp
  obtain w' where w': "local_socket_close_locked cl s w2 = Inr w'" "sock_inv (X - {s}) w'" "leaf_result s ?k a w2 w'"
    using close_leaf_local [OF 1(2) s2] k by auto
  have ac: "after_close ?k = after_close k" by (simp add: after_close_def)
  have "leaf_result s k a w w'"
    using w'(3) k 1 unfolding leaf_result_def ac same_rest_def
    by (auto simp: close_msgs_def drop_disconnect_other)
  then show ?case using w' 1 by auto
qed

lemma free_leaf:
  assumes inv: "sock_inv X w" and s: "socks w s = Some k" and k: "\<not> is_local k"
    and nopeer: "\<And>q c. socks w q = Some c \<Longrightarrow> q \<notin> X \<Longrightarrow> peer c \<noteq> s"
    and w': "socks w' = (socks w)(s := None)" "local_list w' = local_list w" "closing_list w' = closing_list w"
      "trackers w' = remove1 s (trackers w)" "transports w' = drop_disconnect s k (transports w)" "ev w' = ev w"
  shows "sock_inv (X - {s}) w'"
proof -
  obtain ps where ps: "fd_inv (ev w) ps" using inv by (auto simp: sock_inv_def)
  have "s \<notin> set (local_list w)" "s \<notin> set (closing_list w)" using lists_mem [OF inv s] k by auto
  then show ?thesis
    by (intro inv_free [OF inv s nopeer, where qs = ps])
       (simp_all add: w' ps remove1_idem drop_disconnect_def)
qed

lemma close_leaf:
  assumes inv: "sock_inv X w" and s: "socks w s = Some k" and p: "peer k = 0"
  shows "\<exists>w'. close_sock (Suc n) s w = Inr w' \<and> sock_inv (X - {s}) w' \<and> leaf_result s k 0 w w'"
proof -
  note d = sock_invD [OF inv s]
  note np = inv_no_peer [OF inv s p]
  have nl: "s \<notin> set (trackers w)" if "\<not> is_tracker k" using lists_mem(3) [OF inv s] that by simp
  show ?thesis
  proof (cases "enqueue k")
    case local_socket_enqueue
    then have l: "is_local k" by simp
    consider "close k = local_socket_close" | "close k = local_socket_close_notify"
      using d(2) l by (auto simp: vtable_ok.simps)
    then show ?thesis
    proof cases
      case 1
      then show ?thesis
        using close_leaf_local [OF inv s l p disjI1 [OF 1]] s d(1) by (simp add: close_sock.simps(2) sock_simps)
    next
      case 2
      then show ?thesis
        using close_leaf_notify [OF inv s l p 2] s d(1) by (simp add: close_sock.simps(2) sock_simps)
    qed
  next
    case remote_socket_enqueue
    then have r: "is_remote k" "close k = remote_socket_close" using d(2) by (auto simp: vtable_ok.simps)
    obtain x where x: "transports w (sk_transport k) = Some x" "sk_transport k \<noteq> 0" "open_end x"
      by (rule remote_transport [OF inv s r(1)])
    let ?w1 = "w\<lparr>sent := sent w @ [(sk_transport k, wire A_CLSE 0 (sk_id k) [])]\<rparr>"
    let ?w' = "free_sock s (?w1\<lparr>transports := drop_disconnect s k (transports w)\<rparr>)"
    have tr: "(transports w)(sk_transport k \<mapsto> x\<lparr>disconnects := remove1 (remote_socket_disconnect s) (disconnects x)\<rparr>)
        = drop_disconnect s k (transports w)"
      using x(1) r(1) by (auto simp: drop_disconnect_def fun_eq_iff map_option.id [unfolded id_def])
    have "close_sock (Suc n) s w = Inr ?w'"
      using s d(1) r p x tr
      by (simp add: close_sock.simps(2) remote_socket_close_fn_def sock_simps remove_transport_disconnect_def
          set_transport_def deref_transport_def send_packet_wire)
    moreover have "sock_inv (X - {s}) ?w'"
      using nl r(1) by (intro free_leaf [OF inv s _ np]) (simp_all add: free_sock_def remove1_idem)
    moreover have "leaf_result s k 0 w ?w'"
      using r nl by (simp add: leaf_result_def free_sock_def after_close_def close_msgs_def same_rest_def remove1_idem)
    ultimately show ?thesis by blast
  next
    case smart_socket_enqueue
    then have r: "close k = smart_socket_close" "\<not> is_local k" "\<not> is_remote k" "\<not> is_tracker k"
      using d(2) by (auto simp: vtable_ok.simps)
    have "close_sock (Suc n) s w = Inr (free_sock s w)"
      using s d(1) r(1) p by (simp add: close_sock.simps(2) smart_socket_close_fn_def sock_simps)
    moreover have "sock_inv (X - {s}) (free_sock s w)"
      using nl r by (intro free_leaf [OF inv s _ np]) (simp_all add: free_sock_def remove1_idem drop_disconnect_other)
    moreover have "leaf_result s k 0 w (free_sock s w)"
      using r nl by (simp add: leaf_result_def free_sock_def after_close_def close_msgs_def same_rest_def
          drop_disconnect_other remove1_idem)
    ultimately show ?thesis by blast
  next
    case device_tracker_enqueue
    then have r: "close k = device_tracker_close" "\<not> is_local k" "\<not> is_remote k"
      using d(2) by (auto simp: vtable_ok.simps)
    let ?w' = "free_sock s (device_tracker_remove s w)"
    have "close_sock (Suc n) s w = Inr ?w'"
      using s d(1) r(1) p by (simp add: close_sock.simps(2) device_tracker_close_fn_def sock_simps)
    moreover have "sock_inv (X - {s}) ?w'"
      using r by (intro free_leaf [OF inv s _ np])
        (simp_all add: free_sock_def device_tracker_remove_def drop_disconnect_other)
    moreover have "leaf_result s k 0 w ?w'"
      using r by (simp add: leaf_result_def free_sock_def device_tracker_remove_def after_close_def
          close_msgs_def same_rest_def drop_disconnect_other)
    ultimately show ?thesis by blast
  qed
qed

subsection \<open>Closing a connected socket\<close>

lemma after_close_peer [simp]: "after_close (k\<lparr>peer := x\<rparr>) = after_close k"
  by (simp add: after_close_def)

lemma after_close_vtable [simp]: "after_close (k\<lparr>ready := r, close := c\<rparr>) = after_close k"
  by (simp add: after_close_def)

lemma close_msgs_peer [simp]: "close_msgs (k\<lparr>peer := x\<rparr>) = close_msgs k"
  by (rule ext) (simp add: close_msgs_def)

lemma drop_disconnect_peer [simp]: "drop_disconnect s (k\<lparr>peer := x\<rparr>) tr = drop_disconnect s k tr"
  by (rule ext) (simp add: drop_disconnect_def)

lemma close_peer_first:
  assumes inv: "sock_inv {} w" and s: "socks w s = Some k" and p: "peer k = p" "p \<noteq> 0"
  obtains q w2 where "socks w p = Some q" and "peer q = s" and "p \<noteq> s"
    and "close_sock (Suc n) p (w\<lparr>socks := (socks w)(p \<mapsto> q\<lparr>peer := 0\<rparr>)\<rparr>) = Inr w2"
    and "sock_inv {s} w2" and "leaf_result p q 0 w w2" and "socks w2 s = Some k"
    and "\<And>q' c. socks w2 q' = Some c \<Longrightarrow> peer c \<noteq> s"
proof -
  obtain q where q: "socks w p = Some q" "peer q = s" "p \<noteq> s" using peer_alive [OF inv s] p by blast
  note d = sock_invD [OF inv q(1)]
  have s0: "s \<noteq> 0" by (rule sock_invD(1) [OF inv s])
  obtain ps where ps: "fd_inv (ev w) ps" using inv by (auto simp: sock_inv_def)
  let ?q = "q\<lparr>peer := 0\<rparr>"
  let ?w1 = "w\<lparr>socks := (socks w)(p \<mapsto> ?q)\<rparr>"
  have pk: "peers_ok {} w" using inv by (simp add: sock_inv_def)
  have inv1: "sock_inv {s} ?w1"
  proof (rule inv_modify [OF inv q(1), where k' = ?q and qs = ps])
    show "sock_ok p ?q" using d(4) q s0 by (auto simp: sock_ok_def)
    show "event_ok (ev ?w1) p ?q" using d(5) by (simp add: event_ok_def)
    show "peers_ok {s} ?w1" using peers_ok_clear [OF pk s _ p q(1)] by simp
  qed (simp_all add: ps)
  obtain w2 where w2: "close_sock (Suc n) p ?w1 = Inr w2" "sock_inv ({s} - {p}) w2" "leaf_result p ?q 0 ?w1 w2"
    using close_leaf [OF inv1, of p ?q n] by auto
  have lr: "leaf_result p q 0 w w2"
    using w2(3) by (simp add: leaf_result_def same_rest_def)
  then have s2: "socks w2 s = Some k" using s q by (simp add: leaf_result_def)
  have "peer c \<noteq> s" if c: "socks w2 q' = Some c" for q' c
  proof (cases "q' = p")
    case True
    then have "after_close q = Some c" using c lr by (simp add: leaf_result_def)
    then show ?thesis using s0 by (auto simp: after_close_def split: if_splits)
  next
    case False
    then have c': "socks w q' = Some c" using c lr by (simp add: leaf_result_def)
    show ?thesis
    proof
      assume "peer c = s"
      then have "peer k = q'" using pk c' s s0 unfolding peers_ok_def by force
      with False p show False by simp
    qed
  qed
  with q w2(1,2) lr s2 show thesis by (intro that [of q w2]) auto
qed

text \<open>The result for both ends.\<close>

definition close_result :: "nat \<Rightarrow> asocket \<Rightarrow> asocket \<Rightarrow> world \<Rightarrow> world \<Rightarrow> bool" where
  "close_result s k q w w' \<longleftrightarrow>
     socks w' = (socks w)(peer k := after_close q, s := after_close k)
     \<and> sent w' = sent w @ close_msgs q 0 @ close_msgs k (sk_id q)
     \<and> same_rest w w'
     \<and> (\<forall>g. (g \<noteq> sk_fd k \<or> close k \<noteq> local_socket_close_notify) \<and> (g \<noteq> sk_fd q \<or> close q \<noteq> local_socket_close_notify)
          \<longrightarrow> outs w' g = outs w g \<and> wrs w' g = wrs w g)
     \<and> (\<forall>b. b \<noteq> s \<and> b \<noteq> peer k \<longrightarrow> fdes (ev w') b = fdes (ev w) b)
     \<and> transports w' = drop_disconnect s k (drop_disconnect (peer k) q (transports w))
     \<and> trackers w' = remove1 s (remove1 (peer k) (trackers w))"

lemma close_result_trans:
  assumes "leaf_result p q 0 w w2" and "peer k = p" and "leaf_result s k (sk_id q) w2 w'"
  shows "close_result s k q w w'"
  using assms unfolding close_result_def leaf_result_def same_rest_def by auto

lemma clear_own_peer:
  assumes inv: "sock_inv {s} w2" and s: "socks w2 s = Some k" and np: "\<And>q' c. socks w2 q' = Some c \<Longrightarrow> peer c \<noteq> s"
  shows "sock_inv {} (w2\<lparr>socks := (socks w2)(s \<mapsto> k\<lparr>peer := 0\<rparr>)\<rparr>)"
proof -
  note d = sock_invD [OF inv s]
  obtain ps where ps: "fd_inv (ev w2) ps" using inv by (auto simp: sock_inv_def)
  let ?w = "w2\<lparr>socks := (socks w2)(s \<mapsto> k\<lparr>peer := 0\<rparr>)\<rparr>"
  have pk: "peers_ok {s} w2" using inv by (simp add: sock_inv_def)
  show ?thesis
  proof (rule inv_modify [OF inv s, where k' = "k\<lparr>peer := 0\<rparr>" and qs = ps])
    show "sock_ok s (k\<lparr>peer := 0\<rparr>)" using d(4) by (auto simp: sock_ok_def)
    show "event_ok (ev ?w) s (k\<lparr>peer := 0\<rparr>)" using d(5) by (simp add: event_ok_def)
    show "peers_ok {} ?w"
      unfolding peers_ok_def
    proof (intro allI impI)
      fix a c assume a: "socks ?w a = Some c" "peer c \<noteq> 0"
      then have a': "a \<noteq> s" "socks w2 a = Some c" by (auto split: if_splits)
      then have "peer c \<noteq> s" using np by blast
      moreover have "peer c \<noteq> a \<and> (\<exists>d. socks w2 (peer c) = Some d \<and> peer d = a)"
        using pk a a' unfolding peers_ok_def by blast
      ultimately show "peer c \<noteq> a \<and> (\<exists>d. socks ?w (peer c) = Some d \<and> peer d = a)" by simp
    qed
  qed (simp_all add: ps)
qed

lemma close_locked_full:
  assumes inv: "sock_inv {} w" and s: "socks w s = Some k" and p: "peer k \<noteq> 0"
    and k: "is_local k" "close k = local_socket_close \<or> pkts k = []"
  shows "\<exists>w' q. local_socket_close_locked (close_sock (Suc n)) s w = Inr w' \<and> sock_inv {} w'
    \<and> socks w (peer k) = Some q \<and> close_result s k q w w'"
proof -
  obtain q w2 where q: "socks w (peer k) = Some q" "peer q = s" "peer k \<noteq> s"
    "close_sock (Suc n) (peer k) (w\<lparr>socks := (socks w)(peer k \<mapsto> q\<lparr>peer := 0\<rparr>)\<rparr>) = Inr w2"
    "sock_inv {s} w2" "leaf_result (peer k) q 0 w w2" "socks w2 s = Some k"
    "\<And>q' c. socks w2 q' = Some c \<Longrightarrow> peer c \<noteq> s"
    by (rule close_peer_first [OF inv s refl p, of n]) blast
  let ?k = "k\<lparr>peer := 0\<rparr>"
  let ?w3 = "w2\<lparr>socks := (socks w2)(s \<mapsto> ?k)\<rparr>"
  have inv3: "sock_inv {} ?w3" by (rule clear_own_peer [OF q(5,7,8)])
  obtain w' where w': "local_socket_close_locked (close_sock (Suc n)) s ?w3 = Inr w'" "sock_inv {} w'"
    "leaf_result s ?k (sk_id q) ?w3 w'"
    using close_leaf_local [OF inv3, of s ?k] k by auto
  have "leaf_result s k (sk_id q) w2 w'" using w'(3) by (simp add: leaf_result_def same_rest_def)
  with q(6) have "close_result s k q w w'" by (intro close_result_trans) auto
  moreover have "local_socket_close_locked (close_sock (Suc n)) s w = Inr w'"
    using s p q sock_invD(1) [OF inv s] w'(1)
    by (simp add: local_socket_close_locked_def sock_simps)
  ultimately show ?thesis using w'(2) q(1) by blast
qed

lemma close_full:
  assumes inv: "sock_inv {} w" and s: "socks w s = Some k" and p: "peer k \<noteq> 0"
  shows "\<exists>w' q. close_sock (Suc (Suc n)) s w = Inr w' \<and> sock_inv {} w'
    \<and> socks w (peer k) = Some q \<and> close_result s k q w w'"
proof -
  note d = sock_invD [OF inv s]
  show ?thesis
  proof (cases "close k")
    case local_socket_close
    then have "is_local k" using d(2) by (auto simp: vtable_ok.simps split: enqueue_fn.splits)
    then show ?thesis
      using close_locked_full [OF inv s p _ disjI1 [OF local_socket_close], of n] s d(1) local_socket_close
      by (simp add: close_sock.simps(2) sock_simps)
  next
    case local_socket_close_notify
    then have l: "is_local k" using d(2) by (auto simp: vtable_ok.simps split: enqueue_fn.splits)
    let ?k = "k\<lparr>ready := local_socket_ready, close := local_socket_close\<rparr>"
    obtain w2 where w2: "local_socket_close_notify_fn (close_sock (Suc n)) s w =
        local_socket_close_locked (close_sock (Suc n)) s w2" "sock_inv {} w2" "socks w2 = (socks w)(s \<mapsto> ?k)"
      "sent w2 = sent w" "same_rest w w2" "\<And>g. g \<noteq> sk_fd k \<Longrightarrow> outs w2 g = outs w g \<and> wrs w2 g = wrs w g"
      "ev w2 = ev w" "transports w2 = transports w" "trackers w2 = trackers w"
      by (rule notify_first [where cl = "close_sock (Suc n)", OF inv s l local_socket_close_notify]) blast
    have s2: "socks w2 s = Some ?k" using w2 by simp
    obtain w' q where w': "local_socket_close_locked (close_sock (Suc n)) s w2 = Inr w'" "sock_inv {} w'"
      "socks w2 (peer k) = Some q" "close_result s ?k q w2 w'"
      using close_locked_full [OF w2(2) s2, of n] p l by auto
    have ps: "peer k \<noteq> s" using peer_alive [OF inv s _ p] by blast
    then have q: "socks w (peer k) = Some q" using w'(3) w2(3) by simp
    have "close_result s k q w w'"
      using w'(4) w2 ps local_socket_close_notify l unfolding close_result_def same_rest_def
      by (auto simp: close_msgs_def drop_disconnect_other)
    with w' w2 q s d(1) local_socket_close_notify show ?thesis
      by (simp add: close_sock.simps(2) sock_simps)
  next
    case remote_socket_close
    then have r: "is_remote k" using d(2) by (auto simp: vtable_ok.simps split: enqueue_fn.splits)
    obtain q w2 where q: "socks w (peer k) = Some q" "peer q = s" "peer k \<noteq> s"
      "close_sock (Suc n) (peer k) (w\<lparr>socks := (socks w)(peer k \<mapsto> q\<lparr>peer := 0\<rparr>)\<rparr>) = Inr w2"
      "sock_inv {s} w2" "leaf_result (peer k) q 0 w w2" "socks w2 s = Some k"
      "\<And>q' c. socks w2 q' = Some c \<Longrightarrow> peer c \<noteq> s"
      by (rule close_peer_first [OF inv s refl p, of n]) blast
    obtain x where x: "transports w2 (sk_transport k) = Some x" "sk_transport k \<noteq> 0" "open_end x"
      by (rule remote_transport [OF q(5,7) r])
    let ?w' = "free_sock s (w2\<lparr>sent := sent w2 @ [(sk_transport k, wire A_CLSE (sk_id q) (sk_id k) [])],
        transports := drop_disconnect s k (transports w2)\<rparr>)"
    have tr: "(transports w2)(sk_transport k \<mapsto> x\<lparr>disconnects := remove1 (remote_socket_disconnect s) (disconnects x)\<rparr>)
        = drop_disconnect s k (transports w2)"
      using x(1) r by (auto simp: drop_disconnect_def fun_eq_iff map_option.id [unfolded id_def])
    have "close_sock (Suc (Suc n)) s w = Inr ?w'"
      using s d(1) r p q x tr remote_socket_close
      by (simp add: close_sock.simps(2) [of "Suc n"] remote_socket_close_fn_def sock_simps remove_transport_disconnect_def
          set_transport_def deref_transport_def send_packet_wire)
    moreover have "s \<notin> set (trackers w2)" using lists_mem(3) [OF q(5,7)] r by simp
    then have "sock_inv ({s} - {s}) ?w'"
      using r q(8) by (intro free_leaf [OF q(5,7)]) (simp_all add: free_sock_def remove1_idem)
    moreover have "close_result s k q w ?w'"
      using q(6) r \<open>s \<notin> set (trackers w2)\<close> by (intro close_result_trans [OF q(6) refl])
        (simp add: leaf_result_def free_sock_def after_close_def close_msgs_def same_rest_def remove1_idem)
    ultimately show ?thesis using q(1) by auto
  next
    case smart_socket_close
    then have r: "enqueue k = smart_socket_enqueue" using d(2) by (auto simp: vtable_ok.simps split: enqueue_fn.splits)
    obtain q w2 where q: "socks w (peer k) = Some q" "peer q = s" "peer k \<noteq> s"
      "close_sock (Suc n) (peer k) (w\<lparr>socks := (socks w)(peer k \<mapsto> q\<lparr>peer := 0\<rparr>)\<rparr>) = Inr w2"
      "sock_inv {s} w2" "leaf_result (peer k) q 0 w w2" "socks w2 s = Some k"
      "\<And>q' c. socks w2 q' = Some c \<Longrightarrow> peer c \<noteq> s"
      by (rule close_peer_first [OF inv s refl p, of n]) blast
    let ?w' = "free_sock s w2"
    have "close_sock (Suc (Suc n)) s w = Inr ?w'"
      using s d(1) r p q smart_socket_close
      by (simp add: close_sock.simps(2) [of "Suc n"] smart_socket_close_fn_def sock_simps free_sock_def)
    moreover have "s \<notin> set (trackers w2)" using lists_mem(3) [OF q(5,7)] r by simp
    then have "sock_inv ({s} - {s}) ?w'"
      using r q(8) by (intro free_leaf [OF q(5,7)]) (simp_all add: free_sock_def remove1_idem drop_disconnect_other)
    moreover have "close_result s k q w ?w'"
      using q(6) r \<open>s \<notin> set (trackers w2)\<close> by (intro close_result_trans [OF q(6) refl])
        (simp add: leaf_result_def free_sock_def after_close_def close_msgs_def same_rest_def drop_disconnect_other remove1_idem)
    ultimately show ?thesis using q(1) by auto
  next
    case device_tracker_close
    then have r: "is_tracker k" using d(2) by (auto simp: vtable_ok.simps split: enqueue_fn.splits)
    obtain q w2 where q: "socks w (peer k) = Some q" "peer q = s" "peer k \<noteq> s"
      "close_sock (Suc n) (peer k) (w\<lparr>socks := (socks w)(peer k \<mapsto> q\<lparr>peer := 0\<rparr>)\<rparr>) = Inr w2"
      "sock_inv {s} w2" "leaf_result (peer k) q 0 w w2" "socks w2 s = Some k"
      "\<And>q' c. socks w2 q' = Some c \<Longrightarrow> peer c \<noteq> s"
      by (rule close_peer_first [OF inv s refl p, of n]) blast
    let ?w' = "free_sock s (device_tracker_remove s w2)"
    have "deref s (device_tracker_remove s w2) = deref s w2"
      by (simp add: deref_def device_tracker_remove_def)
    then have "close_sock (Suc (Suc n)) s w = Inr ?w'"
      using s d(1) r p q device_tracker_close
      by (simp add: close_sock.simps(2) [of "Suc n"] device_tracker_close_fn_def sock_simps)
    moreover have "sock_inv ({s} - {s}) ?w'"
      using r q(8) by (intro free_leaf [OF q(5,7)])
        (simp_all add: free_sock_def device_tracker_remove_def drop_disconnect_other)
    moreover have "close_result s k q w ?w'"
      using q(6) r by (intro close_result_trans [OF q(6) refl])
        (simp add: leaf_result_def free_sock_def after_close_def close_msgs_def same_rest_def drop_disconnect_other
          device_tracker_remove_def)
    ultimately show ?thesis using q(1) by auto
  qed
qed

text \<open>Closing any socket, whatever it is connected to: it returns, the invariant holds again, and
  only the two ends are touched.\<close>

lemma close_any:
  assumes inv: "sock_inv {} w" and s: "socks w s = Some k"
  shows "\<exists>w'. close_sock (Suc (Suc n)) s w = Inr w' \<and> sock_inv {} w'
    \<and> socks w' = (if peer k = 0 then (socks w)(s := after_close k)
         else (socks w)(peer k := Option.bind (socks w (peer k)) after_close, s := after_close k))"
proof (cases "peer k = 0")
  case True
  then show ?thesis using close_leaf [OF inv s True, of "Suc n"] by (auto simp: leaf_result_def)
next
  case False
  then show ?thesis using close_full [OF inv s False, of n] by (auto simp: close_result_def)
qed

text \<open>The state after initialisation.\<close>

definition world0 :: world where
  "world0 = \<lparr>socks = (\<lambda>_. None), local_list = [], closing_list = [], next_id = 1, ev = fdst0,
     rds = (\<lambda>_. []), wrs = (\<lambda>_. []), outs = (\<lambda>_. []), transports = (\<lambda>_. None), transport_list = [],
     trackers = [], listeners = (\<lambda>_. None), listener_list = [], sent = []\<rparr>"

lemma world0_inv: "sock_inv {} world0"
  using fdst0_inv
  by (auto simp: world0_def sock_inv_def peers_ok_def heap_ok_def lists_ok_def transports_ok_def remote_of_def)

end
