(* ===== verification/SocketIO.thy ===== *)
theory SocketIO
  imports Asocket
begin

text \<open>
  The data path of the sockets (\<open>adb/sockets.cpp\<close>): \<open>local_socket_enqueue\<close>, the \<open>ready\<close> functions,
  \<open>local_socket_event_func\<close>, the creation of sockets, and the sending half of the device trackers of
  \<open>adb/transport.cpp\<close>.  Calls through the pointers of a peer are arguments: \<open>cl\<close> for \<open>close\<close>, \<open>enq\<close>
  for \<open>enqueue\<close> (its result is the value returned and the state), \<open>rdy\<close> for \<open>ready\<close>.
\<close>

section \<open>Enqueue\<close>

definition set_pkts :: "nat \<Rightarrow> byte list list \<Rightarrow> world \<Rightarrow> halt + world" where
  "set_pkts s ps w = set_sock s (\<lambda>k. k\<lparr>pkts := ps\<rparr>) w"

definition local_socket_enqueue_fn ::
    "(nat \<Rightarrow> world \<Rightarrow> halt + world) \<Rightarrow> nat \<Rightarrow> byte list \<Rightarrow> world \<Rightarrow> halt + (int \<times> world)" where
  "local_socket_enqueue_fn cl s p w = sbind (deref s w) (\<lambda>k.
     let queue = (\<lambda>p w. sbind (set_pkts s (pkts k @ [p]) w) (\<lambda>w1.
                    Inr (1, fd_op (fdevent_add s (ucast FDE_WRITE)) w1)))
     in if pkts k \<noteq> [] then queue p w
        else case push False p (wrs w (sk_fd k)) of (end, out, left, evs) \<Rightarrow>
          let w1 = put_out (sk_fd k) out evs w in
          case end of
            Broken \<Rightarrow> sbind (cl s w1) (\<lambda>w2. Inr (1, w2))
          | Done \<Rightarrow> Inr (0, w1)
          | Blocked \<Rightarrow> queue left w1)"

definition remote_socket_enqueue_fn :: "nat \<Rightarrow> byte list \<Rightarrow> world \<Rightarrow> halt + (int \<times> world)" where
  "remote_socket_enqueue_fn s p w = sbind (deref s w) (\<lambda>k. sbind (deref (peer k) w) (\<lambda>q.
     sbind (send_packet (packet A_WRTE (sk_id q) (sk_id k) p) (sk_transport k) w) (\<lambda>w1. Inr (1, w1))))"

definition device_tracker_enqueue_fn ::
    "(nat \<Rightarrow> world \<Rightarrow> halt + world) \<Rightarrow> nat \<Rightarrow> world \<Rightarrow> halt + (int \<times> world)" where
  "device_tracker_enqueue_fn cl s w = sbind (device_tracker_close_fn cl s w) (\<lambda>w1. Inr (- 1, w1))"

section \<open>Ready\<close>

definition local_socket_ready_op :: "nat \<Rightarrow> world \<Rightarrow> halt + world" where
  "local_socket_ready_op s w = sbind (deref s w) (\<lambda>_. Inr (fd_op (fdevent_add s (ucast FDE_READ)) w))"

definition local_socket_ready_notify_op :: "nat \<Rightarrow> world \<Rightarrow> halt + world" where
  "local_socket_ready_notify_op s w =
     sbind (set_sock s (\<lambda>k. k\<lparr>ready := local_socket_ready, close := local_socket_close\<rparr>) w) (\<lambda>w1.
     sbind (deref s w1) (\<lambda>k. local_socket_ready_op s (fd_write (sk_fd k) (ascii ''OKAY'') w1)))"

definition remote_socket_ready_op :: "nat \<Rightarrow> world \<Rightarrow> halt + world" where
  "remote_socket_ready_op s w = sbind (deref s w) (\<lambda>k. sbind (deref (peer k) w) (\<lambda>q.
     send_packet (packet A_OKAY (sk_id q) (sk_id k) []) (sk_transport k) w))"

definition device_tracker_send ::
    "(nat \<Rightarrow> byte list \<Rightarrow> world \<Rightarrow> halt + (int \<times> world)) \<Rightarrow> nat \<Rightarrow> byte list \<Rightarrow> world \<Rightarrow> halt + (int \<times> world)" where
  "device_tracker_send enq s msg w = sbind (deref s w) (\<lambda>k.
     sbind (deref (peer k) w) (\<lambda>_. enq (peer k) msg w))"

definition device_tracker_ready_op ::
    "(nat \<Rightarrow> byte list \<Rightarrow> world \<Rightarrow> halt + (int \<times> world)) \<Rightarrow> byte list option \<Rightarrow> nat \<Rightarrow> world \<Rightarrow> halt + world" where
  "device_tracker_ready_op enq msg s w = sbind (deref s w) (\<lambda>k.
     if update_needed k
     then sbind (set_sock s (\<lambda>k. k\<lparr>update_needed := False\<rparr>) w) (\<lambda>w1.
          (case msg of None \<Rightarrow> Inl Overrun
           | Some m \<Rightarrow> sbind (device_tracker_send enq s m w1) (\<lambda>(r, w2). Inr w2)))
     else Inr w)"

definition ready_sock ::
    "(nat \<Rightarrow> byte list \<Rightarrow> world \<Rightarrow> halt + (int \<times> world)) \<Rightarrow> byte list option \<Rightarrow> nat \<Rightarrow> world \<Rightarrow> halt + world" where
  "ready_sock enq msg s w = sbind (deref s w) (\<lambda>k. case ready k of
       local_socket_ready \<Rightarrow> local_socket_ready_op s w
     | local_socket_ready_notify \<Rightarrow> local_socket_ready_notify_op s w
     | remote_socket_ready \<Rightarrow> remote_socket_ready_op s w
     | smart_socket_ready \<Rightarrow> Inr w
     | device_tracker_ready \<Rightarrow> device_tracker_ready_op enq msg s w)"

section \<open>Events\<close>

text \<open>The \<open>FDE_WRITE\<close> part of \<open>local_socket_event_func\<close>; the result says whether to go on.\<close>

definition event_write ::
    "(nat \<Rightarrow> world \<Rightarrow> halt + world) \<Rightarrow> (nat \<Rightarrow> world \<Rightarrow> halt + world) \<Rightarrow> int \<Rightarrow> nat \<Rightarrow> world \<Rightarrow> halt + (bool \<times> world)" where
  "event_write cl rdy fd s w = sbind (deref s w) (\<lambda>k.
     case flush (pkts k) (wrs w fd) of (end, out, left, evs) \<Rightarrow>
     sbind (set_pkts s left (put_out fd out evs w)) (\<lambda>w1.
     case end of
       Blocked \<Rightarrow> Inr (False, w1)
     | Broken \<Rightarrow> sbind (cl s w1) (\<lambda>w2. Inr (False, w2))
     | Done \<Rightarrow>
         if closing k then sbind (cl s w1) (\<lambda>w2. Inr (False, w2))
         else let w2 = fd_op (fdevent_del s (ucast FDE_WRITE)) w1 in
              sbind (deref (peer k) w2) (\<lambda>_. sbind (rdy (peer k) w2) (\<lambda>w3. Inr (True, w3)))))"

text \<open>The \<open>FDE_READ\<close> part.\<close>

definition event_read ::
    "(nat \<Rightarrow> world \<Rightarrow> halt + world) \<Rightarrow> (nat \<Rightarrow> byte list \<Rightarrow> world \<Rightarrow> halt + (int \<times> world)) \<Rightarrow> int \<Rightarrow> nat \<Rightarrow> world
       \<Rightarrow> halt + world" where
  "event_read cl enq fd s w = sbind (deref s w) (\<lambda>k.
     case slurp MAX_PAYLOAD (rds w fd) of (bs, r, eof, evs) \<Rightarrow>
     let w1 = w\<lparr>rds := (rds w)(fd := evs)\<rparr>;
         finish = (\<lambda>r w. sbind (deref s w) (\<lambda>_.
           if (force_eof (fdes (ev w) s) \<and> r = 0) \<or> eof then cl s w else Inr w))
     in if bs = [] \<or> peer k = 0 then finish r w1
        else sbind (deref (peer k) w1) (\<lambda>_. sbind (enq (peer k) bs w1) (\<lambda>(r', w2).
          if r' < 0 then Inr w2
          else if r' > 0 then sbind (deref s w2) (\<lambda>_. finish r' (fd_op (fdevent_del s (ucast FDE_READ)) w2))
          else finish r' w2)))"

definition local_socket_event ::
    "(nat \<Rightarrow> world \<Rightarrow> halt + world) \<Rightarrow> (nat \<Rightarrow> byte list \<Rightarrow> world \<Rightarrow> halt + (int \<times> world))
       \<Rightarrow> (nat \<Rightarrow> world \<Rightarrow> halt + world) \<Rightarrow> int \<Rightarrow> u16 \<Rightarrow> nat \<Rightarrow> world \<Rightarrow> halt + world" where
  "local_socket_event cl enq rdy fd evs s w =
     sbind (if has evs FDE_WRITE then event_write cl rdy fd s w else sbind (deref s w) (\<lambda>_. Inr (True, w)))
       (\<lambda>(go, w1). if go \<and> has evs FDE_READ then event_read cl enq fd s w1 else Inr w1)"

section \<open>Creation\<close>

text \<open>\<open>calloc\<close> returns the address \<open>a\<close>.\<close>

definition zero_sock :: asocket where
  "zero_sock = \<lparr>sk_id = 0, closing = False, exit_on_close = False, peer = 0, sk_fd = 0, pkts = [],
     enqueue = local_socket_enqueue, ready = local_socket_ready, close = local_socket_close,
     sk_transport = 0, update_needed = False\<rparr>"

definition create_local_socket ::
    "nat \<Rightarrow> (nat \<Rightarrow> nat) option \<Rightarrow> nat \<Rightarrow> int \<Rightarrow> world \<Rightarrow> halt + world" where
  "create_local_socket psz mem a fd w =
     sbind (install_local_socket a (w\<lparr>socks := (socks w)(a \<mapsto> zero_sock\<lparr>sk_fd := fd\<rparr>)\<rparr>)) (\<lambda>w1.
     fd_try (fdevent_install psz mem a fd local_socket_event_func a) w1)"

definition create_remote_socket :: "nat \<Rightarrow> u32 \<Rightarrow> nat \<Rightarrow> world \<Rightarrow> halt + world" where
  "create_remote_socket a i t w =
     add_transport_disconnect t (remote_socket_disconnect a)
       (w\<lparr>socks := (socks w)(a \<mapsto> zero_sock\<lparr>sk_id := i, enqueue := remote_socket_enqueue,
          ready := remote_socket_ready, close := remote_socket_close, sk_transport := t\<rparr>)\<rparr>)"

definition create_smart_socket :: "nat \<Rightarrow> world \<Rightarrow> world" where
  "create_smart_socket a w = w\<lparr>socks := (socks w)(a \<mapsto> zero_sock\<lparr>enqueue := smart_socket_enqueue,
     ready := smart_socket_ready, close := smart_socket_close\<rparr>)\<rparr>"

definition create_device_tracker :: "nat \<Rightarrow> world \<Rightarrow> world" where
  "create_device_tracker a w = w\<lparr>socks := (socks w)(a \<mapsto> zero_sock\<lparr>enqueue := device_tracker_enqueue,
     ready := device_tracker_ready, close := device_tracker_close, update_needed := True\<rparr>),
     trackers := a # trackers w\<rparr>"

text \<open>\<open>connect_to_smartsocket\<close>: the smart socket gets the address \<open>a\<close>.\<close>

definition connect_to_smartsocket ::
    "(nat \<Rightarrow> world \<Rightarrow> halt + world) \<Rightarrow> nat \<Rightarrow> nat \<Rightarrow> world \<Rightarrow> halt + world" where
  "connect_to_smartsocket rdy a s w =
     sbind (set_sock s (\<lambda>k. k\<lparr>peer := a\<rparr>) (create_smart_socket a w)) (\<lambda>w1.
     sbind (set_sock a (\<lambda>k. k\<lparr>peer := s\<rparr>) w1) (rdy s))"

text \<open>\<open>connect_to_remote\<close>: \<open>destination\<close> is sent with its terminating zero.\<close>

definition connect_to_remote :: "nat \<Rightarrow> byte list \<Rightarrow> world \<Rightarrow> halt + world" where
  "connect_to_remote s destination w = sbind (deref s w) (\<lambda>k.
     if length destination + 1 > MAX_PAYLOAD - 1 then Inl (Fatal ''destination oversized'')
     else send_packet (packet A_OPEN (sk_id k) 0 (destination @ [0])) (sk_transport k) w)"

section \<open>Closing the sockets of a transport\<close>

definition on_transport :: "nat \<Rightarrow> world \<Rightarrow> nat \<Rightarrow> bool" where
  "on_transport t w s = (case socks w s of None \<Rightarrow> False
     | Some k \<Rightarrow> sk_transport k = t
         \<or> (case socks w (peer k) of None \<Rightarrow> False | Some q \<Rightarrow> peer k \<noteq> 0 \<and> sk_transport q = t))"

fun close_all_sockets :: "nat \<Rightarrow> nat \<Rightarrow> world \<Rightarrow> halt + world" where
  "close_all_sockets 0 t w = Inl OutOfFuel"
| "close_all_sockets (Suc n) t w = (case find (on_transport t w) (local_list w) of
     None \<Rightarrow> Inr w
   | Some s \<Rightarrow> sbind (local_socket_close_locked call_close s w) (close_all_sockets n t))"

text \<open>\<open>remote_socket_disconnect\<close>.\<close>

definition remote_socket_disconnect_fn ::
    "(nat \<Rightarrow> world \<Rightarrow> halt + world) \<Rightarrow> nat \<Rightarrow> world \<Rightarrow> halt + world" where
  "remote_socket_disconnect_fn cl s w = sbind (deref s w) (\<lambda>k.
     sbind (if peer k \<noteq> 0
            then sbind (set_sock (peer k) (\<lambda>p. p\<lparr>peer := 0\<rparr>) w) (cl (peer k))
            else Inr w) (\<lambda>w1.
     sbind (deref s w1) (\<lambda>k1.
     sbind (remove_transport_disconnect (sk_transport k1) (remote_socket_disconnect s) w1) (\<lambda>w2.
       Inr (free_sock s w2)))))"

section \<open>The loops\<close>

lemma nb_write_le: "nb_write n evs = (Wrote k, evs') \<Longrightarrow> k \<le> n"
  using adb_write_le by (auto simp: nb_write_def split: option.splits)

lemma push_split:
  "push retry bs evs = (e, out, left, evs') \<Longrightarrow> out @ left = bs \<and> (e = Done \<longleftrightarrow> left = [])"
proof (induction retry bs evs arbitrary: e out left evs' rule: push.induct)
  case (1 retry bs evs)
  show ?case
  proof (cases "bs = []")
    case True
    then show ?thesis using "1.prems" by (auto simp: push.simps)
  next
    case False
    obtain res evs1 where n: "nb_write (length bs) evs = (res, evs1)" by force
    show ?thesis
    proof (cases res)
      case (Wrote k)
      show ?thesis
      proof (cases "k = 0")
        case True
        with Wrote n False "1.prems" show ?thesis by (auto simp: push.simps [of _ bs evs])
      next
        case nz: False
        obtain e2 out2 left2 evs2 where p: "push retry (drop k bs) evs1 = (e2, out2, left2, evs2)"
          by (cases "push retry (drop k bs) evs1")
        have "e2 = e" "out = take k bs @ out2" "left2 = left" "evs2 = evs'"
          using "1.prems" p nz Wrote n False by (auto simp: push.simps [of _ bs evs])
        moreover have "out2 @ left2 = drop k bs \<and> (e2 = Done \<longleftrightarrow> left2 = [])"
          using "1.IH"(1) [OF False n [symmetric] Wrote nz p] .
        moreover have "take k bs @ drop k bs = bs" by simp
        ultimately show ?thesis by (metis append.assoc)
      qed
    next
      case (WrFail er)
      show ?thesis
      proof (cases "er = EINTR \<and> retry")
        case True
        then have "push retry bs evs1 = (e, out, left, evs')"
          using "1.prems" WrFail n False by (simp add: push.simps [of _ bs evs])
        with "1.IH"(2) [OF False n [symmetric] WrFail] True show ?thesis by simp
      next
        case nf: False
        with WrFail n False "1.prems" show ?thesis
          by (cases "er = EAGAIN") (auto simp: push.simps [of _ bs evs] split: if_splits)
      qed
    qed
  qed
qed

lemma flush_split:
  "flush ps evs = (e, out, left, evs') \<Longrightarrow> out @ concat left = concat ps \<and> (e = Done \<longrightarrow> left = [])
     \<and> (e \<noteq> Done \<longrightarrow> left \<noteq> [] \<and> hd left \<noteq> [])"
proof (induction ps arbitrary: evs e out left evs')
  case Nil
  then show ?case by simp
next
  case (Cons p ps)
  obtain e1 out1 left1 evs1 where p: "push True p evs = (e1, out1, left1, evs1)"
    by (cases "push True p evs")
  note s = push_split [OF p]
  show ?case
  proof (cases e1)
    case Done
    obtain e2 out2 left2 evs2 where f: "flush ps evs1 = (e2, out2, left2, evs2)"
      by (cases "flush ps evs1")
    with Cons.IH [OF f] Cons.prems p Done s show ?thesis by auto
  next
    case Blocked
    with Cons.prems p s show ?thesis by auto
  next
    case Broken
    with Cons.prems p s show ?thesis by auto
  qed
qed

text \<open>A descriptor that takes everything.\<close>

lemma push_room:
  assumes "length bs \<le> k"
  shows "push retry bs (Room k # evs) = (if bs = [] then (Done, [], [], Room k # evs)
     else (Done, bs, [], if length bs < k then Room (k - length bs) # evs else evs))"
  using assms by (auto simp: push.simps [of retry bs] push.simps [of retry "[]"] nb_write_def)

lemma slurp_bound: "slurp n evs = (bs, r, eof, evs') \<Longrightarrow> length bs \<le> n"
proof (induction n evs arbitrary: bs r eof evs' rule: slurp.induct)
  case (1 n evs)
  obtain res evs1 where nb: "nb_read n evs = (res, evs1)" by force
  show ?case
  proof (cases res)
    case (Got cs)
    have le: "length cs \<le> n"
    proof (cases evs)
      case Nil
      then show ?thesis using nb Got by (simp add: nb_read_def)
    next
      case (Cons e es)
      then show ?thesis using nb Got by (cases e) (auto simp: nb_read_def split: if_splits)
    qed
    show ?thesis
    proof (cases "length cs < n \<and> cs \<noteq> []")
      case True
      obtain ds r2 eof2 evs2 where s: "slurp (n - length cs) evs1 = (ds, r2, eof2, evs2)"
        by (cases "slurp (n - length cs) evs1")
      then have "bs = cs @ ds" using "1.prems" True nb Got by (simp add: slurp.simps [of n evs])
      moreover have "length ds \<le> n - length cs" using "1.IH"(1) [OF nb [symmetric] Got True s] .
      ultimately show ?thesis using le by simp
    next
      case False
      then have "bs = cs" using "1.prems" nb Got by (auto simp: slurp.simps [of n evs])
      with le show ?thesis by simp
    qed
  next
    case Eof
    then show ?thesis using "1.prems" nb by (simp add: slurp.simps [of n evs])
  next
    case (RdFail er)
    show ?thesis
    proof (cases "er = EINTR")
      case True
      then show ?thesis
        using "1.prems" "1.IH"(2) [OF nb [symmetric] RdFail _ True] nb RdFail
        by (simp add: slurp.simps [of n evs])
    next
      case False
      then show ?thesis using "1.prems" nb RdFail
        by (cases "er = EAGAIN") (auto simp: slurp.simps [of n evs])
    qed
  qed
qed

section \<open>Operations keep the invariant\<close>

lemma sock_inv_io [simp]:
  "sock_inv X (put_out fd bs evs w) \<longleftrightarrow> sock_inv X w"
  "sock_inv X (w\<lparr>rds := r\<rparr>) \<longleftrightarrow> sock_inv X w"
  "sock_inv X (w\<lparr>sent := ps\<rparr>) \<longleftrightarrow> sock_inv X w"
  by (simp_all add: put_out_def sock_inv_def peers_ok_def heap_ok_def lists_ok_def transports_ok_def remote_of_def)

lemma put_out_simps [simp]:
  "socks (put_out fd bs evs w) = socks w" "sent (put_out fd bs evs w) = sent w" "ev (put_out fd bs evs w) = ev w"
  "rds (put_out fd bs evs w) = rds w" "transports (put_out fd bs evs w) = transports w"
  "outs (put_out fd bs evs w) = (outs w)(fd := outs w fd @ bs)" "wrs (put_out fd bs evs w) = (wrs w)(fd := evs)"
  "local_list (put_out fd bs evs w) = local_list w" "trackers (put_out fd bs evs w) = trackers w"
  "closing_list (put_out fd bs evs w) = closing_list w" "next_id (put_out fd bs evs w) = next_id w"
  by (simp_all add: put_out_def)

lemma deref_io [simp]:
  "deref s (put_out fd bs evs w) = deref s w" "deref s (w\<lparr>rds := r\<rparr>) = deref s w" "deref s (fd_op f w) = deref s w"
  by (simp_all add: deref_def put_out_def fd_op_def)

text \<open>Changing the queue of a socket together with its interest in \<open>FDE_WRITE\<close>.\<close>

lemma inv_queue:
  assumes inv: "sock_inv {} w" and s: "socks w s = Some k" and l: "is_local k"
    and f: "\<And>e ps. fd_inv e ps \<Longrightarrow> bit (state (fdes e s)) 8 \<Longrightarrow> \<exists>qs. fd_inv (f e) qs"
      "\<And>e a. a \<noteq> s \<Longrightarrow> fdes (f e) a = fdes e a" "\<And>e. fde_fd (fdes (f e) s) = fde_fd (fdes e s)"
      "\<And>e b. b = 7 \<or> b = 8 \<Longrightarrow> bit (state (fdes (f e) s)) b = bit (state (fdes e s)) b"
    and b1: "ps \<noteq> [] \<or> closing k \<Longrightarrow> bit (state (fdes (f (ev w)) s)) 1"
  shows "sock_inv {} (fd_op f (w\<lparr>socks := (socks w)(s \<mapsto> k\<lparr>pkts := ps\<rparr>)\<rparr>))"
proof -
  note d = sock_invD [OF inv s]
  obtain qs where qs: "fd_inv (ev w) qs" using inv by (auto simp: sock_inv_def)
  have act: "bit (state (fdes (ev w) s)) 8" "\<not> bit (state (fdes (ev w) s)) 7" "fde_fd (fdes (ev w) s) = sk_fd k"
    using d(5) l by (simp_all add: event_ok_def)
  obtain rs where rs: "fd_inv (f (ev w)) rs" using f(1) [OF qs act(1)] by blast
  have pk: "peers_ok {} w" using inv by (simp add: sock_inv_def)
  show ?thesis
  proof (rule inv_modify [OF inv s, where k' = "k\<lparr>pkts := ps\<rparr>" and qs = rs])
    show "sock_ok s (k\<lparr>pkts := ps\<rparr>)" using d(4) l by (auto simp: sock_ok_def)
    show "event_ok (ev (fd_op f (w\<lparr>socks := (socks w)(s \<mapsto> k\<lparr>pkts := ps\<rparr>)\<rparr>))) s (k\<lparr>pkts := ps\<rparr>)"
      using act f(3,4) b1 by (auto simp: event_ok_def fd_op_def)
    show "peers_ok {} (fd_op f (w\<lparr>socks := (socks w)(s \<mapsto> k\<lparr>pkts := ps\<rparr>)\<rparr>))"
      by (rule peers_ok_same [OF pk]) (simp add: s fd_op_def)
  qed (simp_all add: fd_op_def rs f(2))
qed

lemma inv_queue_add:
  assumes "sock_inv {} w" and "socks w s = Some k" and "is_local k"
  shows "sock_inv {} (fd_op (fdevent_add s (ucast FDE_WRITE)) (w\<lparr>socks := (socks w)(s \<mapsto> k\<lparr>pkts := ps\<rparr>)\<rparr>))"
  by (rule inv_queue [OF assms]) (auto simp: fdevent_add_bits sock_simps intro: fdevent_add_inv)

lemma inv_queue_del:
  assumes "sock_inv {} w" and "socks w s = Some k" and "is_local k" and "\<not> closing k"
  shows "sock_inv {} (fd_op (fdevent_del s (ucast FDE_WRITE)) (w\<lparr>socks := (socks w)(s \<mapsto> k\<lparr>pkts := []\<rparr>)\<rparr>))"
  by (rule inv_queue [OF assms(1,2,3)]) (use assms(4) in \<open>auto simp: fdevent_del_bits sock_simps intro: fdevent_del_inv\<close>)

lemma inv_queue_shrink:
  assumes "sock_inv {} w" and "socks w s = Some k" and "is_local k" and "ps \<noteq> [] \<Longrightarrow> pkts k \<noteq> []"
  shows "sock_inv {} (w\<lparr>socks := (socks w)(s \<mapsto> k\<lparr>pkts := ps\<rparr>)\<rparr>)"
proof -
  have "event_ok (ev w) s k" by (rule sock_invD(5) [OF assms(1,2)])
  then have "sock_inv {} (fd_op (\<lambda>e. e) (w\<lparr>socks := (socks w)(s \<mapsto> k\<lparr>pkts := ps\<rparr>)\<rparr>))"
    using assms(3,4) by (intro inv_queue [OF assms(1,2,3)]) (auto simp: event_ok_def)
  then show ?thesis by (simp add: fd_op_def)
qed

lemma inv_read_interest:
  assumes inv: "sock_inv {} w" and s: "socks w s = Some k" and l: "is_local k"
  shows "sock_inv {} (fd_op (fdevent_add s (ucast FDE_READ)) w)" "sock_inv {} (fd_op (fdevent_del s (ucast FDE_READ)) w)"
proof -
  have w: "w = w\<lparr>socks := (socks w)(s \<mapsto> k\<lparr>pkts := pkts k\<rparr>)\<rparr>" using s by (simp add: fun_upd_idem)
  have e: "event_ok (ev w) s k" by (rule sock_invD(5) [OF inv s])
  have "sock_inv {} (fd_op (fdevent_add s (ucast FDE_READ)) (w\<lparr>socks := (socks w)(s \<mapsto> k\<lparr>pkts := pkts k\<rparr>)\<rparr>))"
    using e l by (intro inv_queue [OF assms])
      (auto simp: fdevent_add_bits sock_simps event_ok_def intro: fdevent_add_inv)
  then show "sock_inv {} (fd_op (fdevent_add s (ucast FDE_READ)) w)" using w by simp
  have "sock_inv {} (fd_op (fdevent_del s (ucast FDE_READ)) (w\<lparr>socks := (socks w)(s \<mapsto> k\<lparr>pkts := pkts k\<rparr>)\<rparr>))"
    using e l by (intro inv_queue [OF assms])
      (auto simp: fdevent_del_bits sock_simps event_ok_def intro: fdevent_del_inv)
  then show "sock_inv {} (fd_op (fdevent_del s (ucast FDE_READ)) w)" using w by simp
qed

text \<open>
  \<open>local_socket_enqueue\<close>.  Either every byte is accepted and the stream of the socket (what was
  written followed by what is queued) has grown by exactly the payload, the answer 0 meaning that
  nothing is left in the queue; or the descriptor failed and the socket is closed.
\<close>

lemma local_enqueue_result:
  assumes inv: "sock_inv {} w" and s: "socks w s = Some k" and l: "is_local k"
  shows "\<exists>r w'. local_socket_enqueue_fn (close_sock (Suc (Suc n))) s p w = Inr (r, w') \<and> sock_inv {} w' \<and>
    ((\<exists>ps. socks w' = (socks w)(s \<mapsto> k\<lparr>pkts := ps\<rparr>) \<and> sent w' = sent w \<and> transports w' = transports w
        \<and> outs w' = (outs w)(sk_fd k := outs w' (sk_fd k))
        \<and> outs w' (sk_fd k) @ concat ps = outs w (sk_fd k) @ concat (pkts k) @ p
        \<and> r = (if ps = [] then 0 else 1))
     \<or> (r = 1 \<and> pkts k = [] \<and> (\<exists>left evs out. push False p (wrs w (sk_fd k)) = (Broken, out, left, evs)
          \<and> close_sock (Suc (Suc n)) s (put_out (sk_fd k) out evs w) = Inr w')))"
proof -
  note d = sock_invD [OF inv s]
  let ?add = "fd_op (fdevent_add s (ucast FDE_WRITE))"
  show ?thesis
  proof (cases "pkts k = []")
    case False
    define w' where "w' = ?add (w\<lparr>socks := (socks w)(s \<mapsto> k\<lparr>pkts := pkts k @ [p]\<rparr>)\<rparr>)"
    have r: "local_socket_enqueue_fn (close_sock (Suc (Suc n))) s p w = Inr (1, w')"
      using False s d(1) by (simp add: local_socket_enqueue_fn_def sock_simps Let_def set_pkts_def w'_def)
    have i: "sock_inv {} w'" unfolding w'_def by (rule inv_queue_add [OF assms])
    show ?thesis
      using r i by (intro exI [of _ 1] exI [of _ w'] conjI disjI1 exI [of _ "pkts k @ [p]"])
        (simp_all add: w'_def fd_op_def)
  next
    case True
    obtain e out left evs where p: "push False p (wrs w (sk_fd k)) = (e, out, left, evs)"
      by (cases "push False p (wrs w (sk_fd k))")
    note sp = push_split [OF p]
    let ?w1 = "put_out (sk_fd k) out evs w"
    have inv1: "sock_inv {} ?w1" and s1: "socks ?w1 s = Some k" using inv s by simp_all
    show ?thesis
    proof (cases e)
      case Done
      then have r: "local_socket_enqueue_fn (close_sock (Suc (Suc n))) s p w = Inr (0, ?w1)"
        using s d(1) True p by (simp add: local_socket_enqueue_fn_def sock_simps)
      have "k\<lparr>pkts := []\<rparr> = k" using True by simp
      then have "socks ?w1 = (socks w)(s \<mapsto> k\<lparr>pkts := []\<rparr>)" using s by (simp add: fun_upd_idem)
      with r inv1 sp Done True show ?thesis
        by (intro exI [of _ 0] exI [of _ ?w1] conjI disjI1 exI [of _ "[]"]) auto
    next
      case Blocked
      have r: "local_socket_enqueue_fn (close_sock (Suc (Suc n))) s p w
          = Inr (1, ?add (?w1\<lparr>socks := (socks ?w1)(s \<mapsto> k\<lparr>pkts := [left]\<rparr>)\<rparr>))"
        using s d(1) True p Blocked by (simp add: local_socket_enqueue_fn_def sock_simps set_pkts_def)
      show ?thesis
        using r inv_queue_add [OF inv1 s1 l, of "[left]"] sp Blocked True
        by (intro exI [of _ 1] exI [of _ "?add (?w1\<lparr>socks := (socks ?w1)(s \<mapsto> k\<lparr>pkts := [left]\<rparr>)\<rparr>)"]
            conjI disjI1 exI [of _ "[left]"]) (auto simp: fd_op_def)
    next
      case Broken
      obtain w' where w': "close_sock (Suc (Suc n)) s ?w1 = Inr w'" "sock_inv {} w'"
        using close_any [OF inv1 s1, of n] by blast
      have "local_socket_enqueue_fn (close_sock (Suc (Suc n))) s p w = Inr (1, w')"
        using s d(1) True p Broken w' by (simp add: local_socket_enqueue_fn_def sock_simps)
      with w' p Broken True show ?thesis by blast
    qed
  qed
qed

section \<open>New sockets\<close>

lemma peers_ok_new:
  assumes "peers_ok {} w" and "socks w a = None" and "peer k = 0" and "socks w' = (socks w)(a \<mapsto> k)"
  shows "peers_ok {} w'"
  unfolding peers_ok_def
proof (intro allI impI)
  fix s c assume s: "socks w' s = Some c" "peer c \<noteq> 0"
  then have "s \<noteq> a" using assms by auto
  with s assms(4) have "socks w s = Some c" by simp
  with assms(1) s obtain d where d: "peer c \<noteq> s" "socks w (peer c) = Some d" "peer d = s"
    unfolding peers_ok_def by blast
  then have "peer c \<noteq> a" using assms(2) by auto
  with d assms(4) show "peer c \<noteq> s \<and> (\<exists>d. socks w' (peer c) = Some d \<and> peer d = s)" by simp
qed

text \<open>A new local socket: registered, in the list, with the next id.\<close>

lemma create_local_socket_result:
  assumes inv: "sock_inv {} w" and a: "socks w a = None" and f: "fresh_fde a fd (ev w)"
  obtains w' where "create_local_socket 4 (Some junk) a fd w = Inr w'" and "sock_inv {} w'"
    and "socks w' = (socks w)(a \<mapsto> zero_sock\<lparr>sk_fd := fd, sk_id := next_id w\<rparr>)"
    and "local_list w' = local_list w @ [a]" and "next_id w' = next_id w + 1"
    and "sent w' = sent w" and "transports w' = transports w" and "rds w' = rds w" and "wrs w' = wrs w"
    and "outs w' = outs w" and "trackers w' = trackers w" and "transport_list w' = transport_list w"
    and "state (fdes (ev w') a) = FDE_ACTIVE" and "\<And>b. b \<noteq> a \<Longrightarrow> fdes (ev w') b = fdes (ev w) b"
    and "listeners w' = listeners w" and "listener_list w' = listener_list w"
    and "closing_list w' = closing_list w"
proof -
  obtain ps where ps: "fd_inv (ev w) ps" using inv by (auto simp: sock_inv_def)
  have a0: "a \<noteq> 0" using f by (simp add: fresh_fde_def)
  obtain e' where e': "fdevent_install 4 (Some junk) a fd local_socket_event_func a (ev w) = Inr e'" "fd_inv e' ps"
    using fdevent_install_inv [OF ps f] by blast
  have fe: "fdes e' = (fdes (ev w))(a := \<lparr>fde_fd = fd, force_eof = False, state = FDE_ACTIVE OR FDE_ACTIVE,
           events = 0, func = local_socket_event_func, fde_arg = a\<rparr>)"
    by (rule fdevent_install_result [OF f, of junk local_socket_event_func a]) (use e'(1) in auto)
  let ?k = "zero_sock\<lparr>sk_fd := fd, sk_id := next_id w\<rparr>"
  define w' where "w' = w\<lparr>socks := (socks w)(a \<mapsto> ?k), local_list := local_list w @ [a], next_id := next_id w + 1, ev := e'\<rparr>"
  have r: "create_local_socket 4 (Some junk) a fd w = Inr w'"
    using a0 e'(1)
    by (simp add: create_local_socket_def install_local_socket_def set_sock_def deref_def insert_local_socket_def
        fd_try_def w'_def)
  have h: "heap_ok w" and p: "peers_ok {} w" and l: "lists_ok w" and t: "transports_ok w"
    using inv by (auto simp: sock_inv_def)
  have "peers_ok {} w'" by (rule peers_ok_new [OF p a, of ?k]) (simp_all add: w'_def zero_sock_def)
  moreover have "heap_ok w'"
    using h a0 unfolding heap_ok_def
    by (auto simp: w'_def event_ok_def sock_ok_def zero_sock_def vtable_ok.simps fe split: if_splits)
  moreover have "lists_ok w'"
  proof -
    have n: "a \<notin> set (local_list w)" "a \<notin> set (closing_list w)" "a \<notin> set (trackers w)"
      using l a unfolding lists_ok_def by auto
    show ?thesis
      using l n unfolding lists_ok_def by (auto simp: w'_def zero_sock_def)
  qed
  moreover have "transports_ok w'"
    by (rule transports_ok_cong [OF t]) (use a in \<open>auto simp: w'_def remote_of_def zero_sock_def\<close>)
  ultimately have "sock_inv {} w'" using e'(2) unfolding sock_inv_def by (auto simp: w'_def)
  with r show thesis by (rule that) (simp_all add: w'_def fe)
qed

text \<open>A new remote socket, connected to the local socket \<open>s\<close>, as \<open>handle_packet\<close> does it.\<close>

definition attach_remote :: "nat \<Rightarrow> u32 \<Rightarrow> nat \<Rightarrow> nat \<Rightarrow> world \<Rightarrow> halt + world" where
  "attach_remote a i t s w = sbind (create_remote_socket a i t w) (\<lambda>w1.
     sbind (set_sock s (\<lambda>k. k\<lparr>peer := a\<rparr>) w1) (set_sock a (\<lambda>q. q\<lparr>peer := s\<rparr>)))"

definition remote_sock :: "u32 \<Rightarrow> nat \<Rightarrow> asocket" where
  "remote_sock i t = zero_sock\<lparr>sk_id := i, enqueue := remote_socket_enqueue, ready := remote_socket_ready,
     close := remote_socket_close, sk_transport := t\<rparr>"

lemma attach_remote_result:
  assumes inv: "sock_inv {} w" and s: "socks w s = Some k" "peer k = 0" "\<not> closing k" and a: "socks w a = None" "a \<noteq> 0"
    and t: "transports w t = Some x"
  obtains w' where "attach_remote a i t s w = Inr w'" and "sock_inv {} w'"
    and "socks w' = (socks w)(s \<mapsto> k\<lparr>peer := a\<rparr>, a \<mapsto> (remote_sock i t)\<lparr>peer := s\<rparr>)"
    and "sent w' = sent w" and "ev w' = ev w" and "local_list w' = local_list w" and "outs w' = outs w" and "wrs w' = wrs w"
    and "rds w' = rds w" and "next_id w' = next_id w" and "trackers w' = trackers w"
    and "transports w' = (transports w)(t \<mapsto> x\<lparr>disconnects := disconnects x @ [remote_socket_disconnect a]\<rparr>)"
    and "closing_list w' = closing_list w" and "listeners w' = listeners w" and "listener_list w' = listener_list w"
proof -
  note d = sock_invD [OF inv s(1)]
  have as: "a \<noteq> s" using a s by auto
  have h: "heap_ok w" and p: "peers_ok {} w" and l: "lists_ok w" and tk: "transports_ok w" and fd: "\<exists>ps. fd_inv (ev w) ps"
    using inv by (auto simp: sock_inv_def)
  have t0: "t \<noteq> 0" "distinct (disconnects x)" and na: "remote_socket_disconnect a \<notin> set (disconnects x)"
    using tk t a unfolding transports_ok_def remote_of_def by fastforce+
  let ?q = "(remote_sock i t)\<lparr>peer := s\<rparr>"
  define w' where "w' = w\<lparr>socks := (socks w)(s \<mapsto> k\<lparr>peer := a\<rparr>, a \<mapsto> ?q),
    transports := (transports w)(t \<mapsto> x\<lparr>disconnects := disconnects x @ [remote_socket_disconnect a]\<rparr>)\<rparr>"
  have r: "attach_remote a i t s w = Inr w'"
    using s d(1) a as t t0
    by (simp add: attach_remote_def create_remote_socket_def add_transport_disconnect_def set_transport_def
        deref_transport_def set_sock_def deref_def w'_def remote_sock_def fun_upd_twist)
  have np: "\<And>q c. socks w q = Some c \<Longrightarrow> peer c \<noteq> s" using inv_no_peer [OF inv s(1,2)] by blast
  have "peers_ok {} w'"
    unfolding peers_ok_def
  proof (intro allI impI)
    fix b c assume b: "socks w' b = Some c" "peer c \<noteq> 0"
    consider "b = a" | "b = s" | "b \<noteq> a" "b \<noteq> s" by blast
    then show "peer c \<noteq> b \<and> (\<exists>d. socks w' (peer c) = Some d \<and> peer d = b)"
    proof cases
      case 3
      then have c: "socks w b = Some c" using b by (simp add: w'_def)
      with p b obtain e where e: "peer c \<noteq> b" "socks w (peer c) = Some e" "peer e = b"
        unfolding peers_ok_def by blast
      have "peer c \<noteq> s" "peer c \<noteq> a" using np c e a by auto
      with e show ?thesis by (simp add: w'_def)
    qed (use b as in \<open>auto simp: w'_def\<close>)
  qed
  moreover have "heap_ok w'"
  proof -
    have "sock_ok a ?q" using a(2) by (simp add: sock_ok_def remote_sock_def zero_sock_def vtable_ok.simps)
    moreover have "event_ok (ev w) a ?q" by (simp add: event_ok_def remote_sock_def zero_sock_def)
    moreover have "sock_ok s (k\<lparr>peer := a\<rparr>)" using d(4) s(3) by (simp add: sock_ok_def)
    moreover have "event_ok (ev w) s (k\<lparr>peer := a\<rparr>)" using d(5) by (simp add: event_ok_def)
    ultimately show ?thesis using h unfolding heap_ok_def by (simp add: w'_def)
  qed
  moreover have "lists_ok w'"
  proof -
    have n: "a \<notin> set (local_list w)" "a \<notin> set (closing_list w)" "a \<notin> set (trackers w)"
      using l a unfolding lists_ok_def by auto
    show ?thesis
      using l n as s unfolding lists_ok_def by (simp add: w'_def remote_sock_def zero_sock_def)
  qed
  moreover have "transports_ok w'"
  proof -
    have rm: "remote_of w' b t' \<longleftrightarrow> remote_of w b t' \<or> (b = a \<and> t' = t)" for b t'
      using a s as by (auto simp: remote_of_def w'_def remote_sock_def zero_sock_def)
    have rx: "\<And>b. remote_of w b t \<Longrightarrow> remote_socket_disconnect b \<in> set (disconnects x)"
      using tk t unfolding transports_ok_def by fastforce
    show ?thesis
      using tk t t0 na unfolding transports_ok_def rm by (auto simp: w'_def dest: rx)
  qed
  ultimately have "sock_inv {} w'" using fd unfolding sock_inv_def by (auto simp: w'_def)
  with r show thesis by (rule that) (simp_all add: w'_def)
qed

section \<open>Closing the sockets of a transport\<close>

text \<open>A socket that is still being connected has nothing queued.\<close>

definition quiet :: "world \<Rightarrow> bool" where
  "quiet w \<longleftrightarrow> (\<forall>s k. socks w s = Some k \<longrightarrow> close k = local_socket_close_notify \<longrightarrow> pkts k = [])"

lemma close_locked_any:
  assumes inv: "sock_inv {} w" and q: "quiet w" and s: "s \<in> set (local_list w)"
  shows "\<exists>w'. local_socket_close_locked call_close s w = Inr w' \<and> sock_inv {} w' \<and> quiet w'
    \<and> length (local_list w') < length (local_list w)"
proof -
  obtain k where k: "socks w s = Some k" "is_local k" "\<not> closing k"
    using inv s by (auto simp: sock_inv_def lists_ok_def)
  have c: "close k = local_socket_close \<or> pkts k = []"
    using sock_invD(2) [OF inv k(1)] q k by (auto simp: vtable_ok.simps quiet_def)
  have "\<exists>w'. local_socket_close_locked call_close s w = Inr w' \<and> sock_inv {} w'
      \<and> (\<forall>a c. socks w' a = Some c \<longrightarrow> socks w a = Some c \<and> a \<noteq> s \<or> (\<exists>b. after_close b = Some c))"
  proof (cases "peer k = 0")
    case True
    obtain w' where "local_socket_close_locked call_close s w = Inr w'" "sock_inv ({} - {s}) w'"
      "leaf_result s k 0 w w'"
      using close_leaf_local [OF inv k(1,2) True c, of call_close 0] by blast
    then show ?thesis
      by (intro exI [of _ w']) (auto simp: leaf_result_def split: if_splits)
  next
    case False
    obtain w' q where w': "local_socket_close_locked call_close s w = Inr w'" "sock_inv {} w'"
      "close_result s k q w w'"
      using close_locked_full [OF inv k(1) False k(2) c, of 1] by (auto simp: numeral_2_eq_2)
    then show ?thesis
      by (intro exI [of _ w']) (auto simp: close_result_def split: if_splits)
  qed
  then obtain w' where w': "local_socket_close_locked call_close s w = Inr w'" "sock_inv {} w'"
    "\<And>a c. socks w' a = Some c \<Longrightarrow> socks w a = Some c \<and> a \<noteq> s \<or> (\<exists>b. after_close b = Some c)"
    by blast
  have ac: "closing c \<and> close c = local_socket_close" if "after_close b = Some c" for b c
    using that by (auto simp: after_close_def split: if_splits)
  have "quiet w'"
    unfolding quiet_def
  proof (intro allI impI)
    fix a c assume a: "socks w' a = Some c" "close c = local_socket_close_notify"
    from w'(3) [OF a(1)] show "pkts c = []"
    proof
      assume "socks w a = Some c \<and> a \<noteq> s"
      with q a(2) show ?thesis unfolding quiet_def by blast
    next
      assume "\<exists>b. after_close b = Some c"
      then obtain b where "after_close b = Some c" ..
      with ac [OF this] a(2) show ?thesis by simp
    qed
  qed
  moreover have "set (local_list w') \<subseteq> set (local_list w) - {s}"
  proof
    fix a assume "a \<in> set (local_list w')"
    then obtain c where "socks w' a = Some c" "is_local c" "\<not> closing c"
      using w'(2) by (auto simp: sock_inv_def lists_ok_def)
    then have "socks w a = Some c" "a \<noteq> s" "is_local c" "\<not> closing c" using w'(3) ac by blast+
    then show "a \<in> set (local_list w) - {s}"
      using inv by (auto simp: sock_inv_def lists_ok_def)
  qed
  then have "set (local_list w') \<subset> set (local_list w)" using s by blast
  then have "card (set (local_list w')) < card (set (local_list w))" by (intro psubset_card_mono) auto
  then have "length (local_list w') < length (local_list w)"
    using inv w'(2) by (simp add: sock_inv_def lists_ok_def distinct_card)
  ultimately show ?thesis using w'(1,2) by blast
qed

lemma close_all_sockets_result:
  assumes "sock_inv {} w" and "quiet w" and "length (local_list w) < n"
  shows "\<exists>w'. close_all_sockets n t w = Inr w' \<and> sock_inv {} w' \<and> (\<forall>s \<in> set (local_list w'). \<not> on_transport t w' s)"
  using assms
proof (induction n arbitrary: w)
  case 0
  then show ?case by simp
next
  case (Suc n)
  show ?case
  proof (cases "find (on_transport t w) (local_list w)")
    case None
    then have "\<forall>s \<in> set (local_list w). \<not> on_transport t w s" by (simp add: find_None_iff)
    then show ?thesis using None Suc.prems by simp
  next
    case (Some s)
    then have s: "s \<in> set (local_list w)" by (auto simp: find_Some_iff)
    obtain w1 where w1: "local_socket_close_locked call_close s w = Inr w1" "sock_inv {} w1" "quiet w1"
      "length (local_list w1) < length (local_list w)"
      using close_locked_any [OF Suc.prems(1,2) s] by blast
    then have "length (local_list w1) < n" using Suc.prems(3) by simp
    with Suc.IH [OF w1(2,3)] w1(1) Some show ?thesis by simp
  qed
qed

end
