(* ===== verification/Devlist.thy ===== *)
theory Devlist
  imports Asocket
begin

text \<open>
  The list of devices (\<open>adb/transport.cpp\<close>): choosing a transport for a client
  (\<open>acquire_one_transport\<close> with \<open>qual_match\<close>) and the two listings that clients read
  (\<open>format_transport\<close>, \<open>list_transports\<close>, \<open>list_transports_msg\<close>), with the sizes of their buffers.
  The hexadecimal length prefix of the protocol (\<open>unhex\<close>, \<open>%04x\<close>) is here too.
\<close>

section \<open>Matching a device\<close>

definition qual_char_is_invalid :: "byte \<Rightarrow> bool" where
  "qual_char_is_invalid ch \<longleftrightarrow> \<not> (65 \<le> ch \<and> ch \<le> 90) \<and> \<not> (97 \<le> ch \<and> ch \<le> 122) \<and> \<not> (48 \<le> ch \<and> ch \<le> 57)"

definition sanitize :: "bool \<Rightarrow> byte \<Rightarrow> byte" where
  "sanitize on ch = (if on \<and> qual_char_is_invalid ch then 95 else ch)"

text \<open>The two loops of \<open>qual_match\<close>: over the prefix, then over the qualifier.\<close>

fun match_prefix :: "byte list \<Rightarrow> byte list \<Rightarrow> byte list option" where
  "match_prefix [] t = Some t"
| "match_prefix (c # p) [] = None"
| "match_prefix (c # p) (d # t) = (if c \<noteq> d then None else match_prefix p t)"

fun match_qual :: "bool \<Rightarrow> byte list \<Rightarrow> byte list \<Rightarrow> bool" where
  "match_qual on [] t = (t = [])"
| "match_qual on (c # q) [] = False"
| "match_qual on (c # q) (d # t) = (if sanitize on c \<noteq> d then False else match_qual on q t)"

text \<open>Null and empty strings are told apart as in the code; \<open>None\<close> is a null pointer.\<close>

definition qual_match :: "byte list option \<Rightarrow> byte list \<Rightarrow> byte list option \<Rightarrow> bool \<Rightarrow> bool" where
  "qual_match to_test prefix qual on =
     (if to_test = None \<or> to_test = Some [] then qual = None \<or> qual = Some []
      else case qual of
        None \<Rightarrow> False
      | Some q \<Rightarrow> (case match_prefix prefix (the to_test) of None \<Rightarrow> False | Some t \<Rightarrow> match_qual on q t))"

definition serial_matches :: "byte list \<Rightarrow> atransport \<Rightarrow> bool" where
  "serial_matches sn t \<longleftrightarrow> serial t = Some sn \<or> devpath t = Some sn
     \<or> qual_match (Some sn) (ascii ''product:'') (t_product t) False
     \<or> qual_match (Some sn) (ascii ''model:'') (model t) True
     \<or> qual_match (Some sn) (ascii ''device:'') (device t) False"

definition wanted :: "transport_type \<Rightarrow> byte list option \<Rightarrow> atransport \<Rightarrow> bool" where
  "wanted tt sn t = (case sn of
     Some s \<Rightarrow> serial_matches s t
   | None \<Rightarrow> (tt = kTransportUsb \<and> ttype t = kTransportUsb) \<or> (tt = kTransportLocal \<and> ttype t = kTransportLocal)
       \<or> tt = kTransportAny)"

definition ambiguous_msg :: "transport_type \<Rightarrow> byte list option \<Rightarrow> string" where
  "ambiguous_msg tt sn = (if sn \<noteq> None \<or> tt = kTransportUsb then ''more than one device''
     else if tt = kTransportLocal then ''more than one emulator'' else ''more than one device emulator'')"

text \<open>The loop of \<open>acquire_one_transport\<close>: the state is \<open>result\<close> and \<open>*error_out\<close>; the result also
  says whether the loop ended with an ambiguity.\<close>

fun pick :: "transport_type \<Rightarrow> byte list option \<Rightarrow> (nat \<times> atransport) list \<Rightarrow> (nat \<times> atransport) option \<Rightarrow> string
    \<Rightarrow> (nat \<times> atransport) option \<times> string \<times> bool" where
  "pick tt sn [] result err = (result, err, False)"
| "pick tt sn ((a, t) # ts) result err =
     (if connection_state t = CS_NOPERM then pick tt sn ts result ''insufficient permissions for device''
      else if wanted tt sn t
           then (case result of
                   Some _ \<Rightarrow> (None, ambiguous_msg tt sn, True)
                 | None \<Rightarrow> pick tt sn ts (Some (a, t)) err)
      else pick tt sn ts result err)"

definition transports_in :: "world \<Rightarrow> (nat \<times> atransport) list" where
  "transports_in w = List.map_filter (\<lambda>a. map_option (Pair a) (transports w a)) (transport_list w)"

text \<open>One pass: \<open>Inr\<close> is the transport or the error message, \<open>Inl ()\<close> a retry after a second.\<close>

definition acquire_pass :: "int \<Rightarrow> transport_type \<Rightarrow> byte list option \<Rightarrow> world \<Rightarrow> unit + (string + nat)" where
  "acquire_pass st tt sn w = (case pick tt sn (transports_in w) None ''device not found'' of
     (result, err, ambiguous) \<Rightarrow>
       let (result, err) = (case result of
             None \<Rightarrow> (None, err)
           | Some (a, t) \<Rightarrow>
               if connection_state t = CS_OFFLINE then (None, ''device offline'')
               else if st \<noteq> CS_ANY \<and> connection_state t \<noteq> st then (None, ''invalid device state'')
               else (Some a, err))
       in case result of
            Some a \<Rightarrow> Inr (Inr a)
          | None \<Rightarrow> if st \<noteq> CS_ANY \<and> (sn \<noteq> None \<or> \<not> ambiguous) then Inl () else Inr (Inl err))"

text \<open>The list holds the states that the successive passes find; \<open>None\<close> when all of them ask for
  another one.\<close>

fun acquire_one_transport :: "int \<Rightarrow> transport_type \<Rightarrow> byte list option \<Rightarrow> world list \<Rightarrow> (string + nat) option" where
  "acquire_one_transport st tt sn [] = None"
| "acquire_one_transport st tt sn (w # ws) = (case acquire_pass st tt sn w of
     Inr r \<Rightarrow> Some r
   | Inl _ \<Rightarrow> acquire_one_transport st tt sn ws)"

section \<open>Listings\<close>

definition statename :: "atransport \<Rightarrow> byte list" where
  "statename t = ascii (let c = connection_state t in
     if c = CS_OFFLINE then ''offline'' else if c = CS_BOOTLOADER then ''bootloader''
     else if c = CS_DEVICE then ''device'' else if c = CS_HOST then ''host''
     else if c = CS_RECOVERY then ''recovery'' else if c = CS_SIDELOAD then ''sideload''
     else if c = CS_NOPERM then ''no permissions'' else ''unknown'')"

definition shown_serial :: "atransport \<Rightarrow> byte list" where
  "shown_serial t = (case serial t of Some (c # cs) \<Rightarrow> c # cs | _ \<Rightarrow> ascii ''????????????'')"

definition short_line :: "atransport \<Rightarrow> byte list" where
  "short_line t = shown_serial t @ [9] @ statename t @ [10]"

text \<open>
  The text that is in the buffer so far, from its start up to the pointer of the listing, and the room
  behind it.  When a field does not fit, \<open>_snprintf\<close> returns -1: the pointer goes back by one byte, the
  room grows by one, and what was written lies behind the pointer.  A pointer before the start of
  the buffer is \<open>None\<close>: the next write goes there.
\<close>

definition put_field :: "byte list \<Rightarrow> byte list \<times> nat \<Rightarrow> (byte list \<times> nat) option" where
  "put_field bs x = (case x of (out, rm) \<Rightarrow>
     if length bs \<le> rm then Some (out @ bs, rm - length bs)
     else if out = [] then None
     else Some (butlast out, rm + 1))"

definition add_qual :: "byte list \<Rightarrow> byte list option \<Rightarrow> bool \<Rightarrow> byte list \<times> nat \<Rightarrow> (byte list \<times> nat) option" where
  "add_qual prefix qual on x =
     (if snd x = 0 \<or> qual = None \<or> qual = Some [] then Some x
      else put_field (prefix @ map (sanitize on) (the qual)) x)"

definition pad_right :: "nat \<Rightarrow> byte list \<Rightarrow> byte list" where
  "pad_right n bs = bs @ replicate (n - length bs) 32"

definition format_long :: "atransport \<Rightarrow> byte list \<times> nat \<Rightarrow> (byte list \<times> nat) option" where
  "format_long t x =
     Option.bind (put_field (pad_right 22 (shown_serial t) @ [32] @ statename t) x) (\<lambda>x.
     Option.bind (add_qual (ascii '' '') (devpath t) False x) (\<lambda>x.
     Option.bind (add_qual (ascii '' product:'') (t_product t) False x) (\<lambda>x.
     Option.bind (add_qual (ascii '' model:'') (model t) True x) (\<lambda>x.
     Option.bind (add_qual (ascii '' device:'') (device t) False x) (put_field [10])))))"

definition format_transport :: "atransport \<Rightarrow> bool \<Rightarrow> byte list \<times> nat \<Rightarrow> (byte list \<times> nat) option" where
  "format_transport t long x = (if long then format_long t x else put_field (short_line t) x)"

text \<open>The loop of \<open>list_transports\<close>; a line that ends at the end of the buffer is discarded and ends it.\<close>

fun list_lines :: "bool \<Rightarrow> atransport list \<Rightarrow> byte list \<times> nat \<Rightarrow> byte list option" where
  "list_lines long [] x = Some (fst x)"
| "list_lines long (t # ts) x = (case format_transport t long x of
     None \<Rightarrow> None
   | Some y \<Rightarrow> if snd y = 0 then Some (take (length (fst x)) (fst y)) else list_lines long ts y)"

definition list_transports :: "nat \<Rightarrow> bool \<Rightarrow> world \<Rightarrow> byte list option" where
  "list_transports bufsize long w = list_lines long (map snd (transports_in w)) ([], bufsize)"

text \<open>\<open>list_transports_msg\<close> with its 1024-byte buffer, as \<open>device_tracker_ready\<close> and
  \<open>update_transports\<close> call it.\<close>

definition list_transports_msg :: "nat \<Rightarrow> world \<Rightarrow> byte list option" where
  "list_transports_msg bufferlen w =
     map_option (\<lambda>body. hex4 (length body) @ body) (list_transports (bufferlen - 4) False w)"

section \<open>Hexadecimal lengths\<close>

definition hex_value :: "byte \<Rightarrow> u32 option" where
  "hex_value c = (if 48 \<le> c \<and> c \<le> 57 then Some (ucast (c - 48))
     else if 97 \<le> c \<and> c \<le> 102 then Some (ucast (c - 97) + 10)
     else if 65 \<le> c \<and> c \<le> 70 then Some (ucast (c - 65) + 10)
     else None)"

fun unhex_loop :: "byte list \<Rightarrow> u32 \<Rightarrow> u32" where
  "unhex_loop [] n = n"
| "unhex_loop (c # cs) n = (case hex_value c of
     None \<Rightarrow> 0xffffffff
   | Some d \<Rightarrow> unhex_loop cs (push_bit 4 n OR d))"

definition unhex :: "byte list \<Rightarrow> u32" where
  "unhex s = unhex_loop s 0"

section \<open>Hexadecimal round trip\<close>

lemma hex_value_digit: "d < 16 \<Longrightarrow> hex_value (hex_digit d) = Some (word_of_nat d)"
proof -
  assume "d < 16"
  then have "d \<in> set [0..<16]" by simp
  moreover have "\<forall>d \<in> set [0..<16]. hex_value (hex_digit d) = Some (word_of_nat d)"
    by (simp add: upt_rec hex_value_def hex_digit_def)
  ultimately show ?thesis by blast
qed

lemma shift_digit:
  assumes "d < 16"
  shows "push_bit 4 (w :: u32) OR word_of_nat d = 16 * w + word_of_nat d"
proof -
  have "take_bit 4 d = d" using assms by (simp add: take_bit_nat_eq_self)
  then have "(word_of_nat d :: u32) = word_of_nat (take_bit 4 d)" by simp
  then have b: "bit (word_of_nat d :: u32) k \<Longrightarrow> k < 4" for k
    by (metis bit_of_nat_iff bit_take_bit_iff)
  have "push_bit 4 w + word_of_nat d = push_bit 4 w OR (word_of_nat d :: u32)"
    by (rule disjunctive_add) (meson b bit_push_bit_iff not_le)
  then show ?thesis by (simp add: push_bit_eq_mult mult.commute)
qed

lemma hex_parts:
  assumes "(n :: nat) < 65536"
  shows "16 * (16 * (16 * (n div 4096 mod 16) + n div 256 mod 16) + n div 16 mod 16) + n mod 16 = n"
proof -
  have d: "n div 256 = n div 16 div 16" "n div 4096 = n div 16 div 16 div 16"
    by (simp_all add: div_mult2_eq [symmetric])
  have "n div 16 div 16 div 16 < 16" using assms by (simp add: div_mult2_eq [symmetric] less_mult_imp_div_less)
  then have "n div 16 div 16 div 16 mod 16 = n div 16 div 16 div 16" by simp
  then show ?thesis unfolding d by simp
qed

lemma unhex_hex4 [simp]:
  assumes "n < 65536"
  shows "unhex (hex4 n) = word_of_nat n"
proof -
  have "unhex (hex4 n) = 16 * (16 * (16 * word_of_nat (n div 4096 mod 16) + word_of_nat (n div 256 mod 16))
      + word_of_nat (n div 16 mod 16)) + word_of_nat (n mod 16)"
    by (simp add: unhex_def hex4_def hex_value_digit shift_digit)
  also have "\<dots> = word_of_nat (16 * (16 * (16 * (n div 4096 mod 16) + n div 256 mod 16)
      + n div 16 mod 16) + n mod 16)"
    by simp
  finally show ?thesis unfolding hex_parts [OF assms] .
qed

lemma length_hex4 [simp]: "length (hex4 n) = 4"
  by (simp add: hex4_def)

section \<open>Properties\<close>

lemma match_prefix_iff: "match_prefix p t = Some r \<longleftrightarrow> t = p @ r"
  by (induction p t rule: match_prefix.induct) auto

lemma match_prefix_append [simp]: "match_prefix p (p @ r) = Some r"
  by (simp add: match_prefix_iff)

lemma match_qual_iff: "match_qual on q t \<longleftrightarrow> t = map (sanitize on) q"
  by (induction on q t rule: match_qual.induct) auto

text \<open>\<open>qual_match\<close> decides equality with the prefixed, sanitised qualifier; an empty test
  string matches exactly a missing qualifier.\<close>

theorem qual_match_spec:
  "qual_match to_test prefix qual on \<longleftrightarrow>
     (if to_test = None \<or> to_test = Some [] then qual = None \<or> qual = Some []
      else \<exists>q. qual = Some q \<and> to_test = Some (prefix @ map (sanitize on) q))"
  by (cases "match_prefix prefix (the to_test)")
     (auto simp: qual_match_def match_qual_iff match_prefix_iff split: option.splits
       dest: match_prefix_iff [THEN iffD2])

definition candidates :: "transport_type \<Rightarrow> byte list option \<Rightarrow> world \<Rightarrow> (nat \<times> atransport) list" where
  "candidates tt sn w = filter (\<lambda>(a, t). connection_state t \<noteq> CS_NOPERM \<and> wanted tt sn t) (transports_in w)"

lemma pick_spec:
  "fst (pick tt sn ts result err) =
     (let cs = filter (\<lambda>(a, t). connection_state t \<noteq> CS_NOPERM \<and> wanted tt sn t) ts in
      case result of Some r \<Rightarrow> (if cs = [] then Some r else None)
      | None \<Rightarrow> (case cs of [c] \<Rightarrow> Some c | _ \<Rightarrow> None))"
  by (induction tt sn ts result err rule: pick.induct) (auto simp: Let_def split: option.splits list.splits)

lemma acquire_pass_spec:
  "acquire_pass st tt sn w = Inr (Inr a) \<longleftrightarrow>
     (\<exists>t. candidates tt sn w = [(a, t)] \<and> connection_state t \<noteq> CS_OFFLINE
        \<and> (st = CS_ANY \<or> connection_state t = st))"
proof -
  obtain r e m where p: "pick tt sn (transports_in w) None ''device not found'' = (r, e, m)"
    by (cases "pick tt sn (transports_in w) None ''device not found''")
  have "r = (case candidates tt sn w of [c] \<Rightarrow> Some c | _ \<Rightarrow> None)"
    using pick_spec [of tt sn "transports_in w" None "''device not found''"] p
    by (simp add: candidates_def Let_def)
  then show ?thesis
    using p by (auto simp: acquire_pass_def Let_def split: list.splits if_splits)
qed

text \<open>Selection: \<open>acquire_one_transport\<close> returns a transport in a pass exactly when it is the only
  accessible one that matches the request and it is in the required state; an ambiguous request never
  picks a device.\<close>

theorem acquire_unique:
  "acquire_pass st tt sn w = Inr (Inr a) \<longleftrightarrow>
     (\<exists>t. candidates tt sn w = [(a, t)] \<and> connection_state t \<noteq> CS_OFFLINE
        \<and> (st = CS_ANY \<or> connection_state t = st))"
  by (rule acquire_pass_spec)

text \<open>The text of the lines that the listing would hold in a buffer without end.\<close>

definition all_lines :: "atransport list \<Rightarrow> byte list" where
  "all_lines ts = concat (map short_line ts)"

lemma all_lines_simps [simp]: "all_lines [] = []" "all_lines (t # ts) = short_line t @ all_lines ts"
  "all_lines (ts @ us) = all_lines ts @ all_lines us"
  by (simp_all add: all_lines_def)

lemma short_lines: "length (all_lines ts) < rm \<Longrightarrow> list_lines False ts (out, rm) = Some (out @ all_lines ts)"
  by (induction ts arbitrary: out rm) (auto simp: format_transport_def put_field_def)

lemma short_lines_append:
  "length (all_lines ts) < rm \<Longrightarrow> list_lines False (ts @ us) (out, rm) = list_lines False us (out @ all_lines ts, rm - length (all_lines ts))"
  by (induction ts arbitrary: out rm) (auto simp: format_transport_def put_field_def)

lemma short_lines_bounded:
  assumes "\<forall>t\<in>set ts. length (short_line t) \<le> length out + rm" and "0 < rm"
  shows "\<exists>body. list_lines False ts (out, rm) = Some body \<and> length body < length out + rm"
  using assms
proof (induction ts arbitrary: out rm)
  case (Cons t ts)
  let ?n = "length (short_line t)"
  consider "?n < rm" | "?n = rm" | "rm < ?n" by linarith
  then show ?case
  proof cases
    case 1
    have "\<exists>body. list_lines False ts (out @ short_line t, rm - ?n) = Some body \<and> length body < length (out @ short_line t) + (rm - ?n)"
      by (rule Cons.IH) (use Cons.prems 1 in auto)
    then show ?thesis using 1 by (simp add: format_transport_def put_field_def)
  next
    case 2
    then show ?thesis using Cons.prems(2) by (simp add: format_transport_def put_field_def)
  next
    case 3
    then have o: "out \<noteq> []" using Cons.prems by auto
    then have l: "length (butlast out) + (rm + 1) = length out + rm" by (cases out) simp_all
    have "\<exists>body. list_lines False ts (butlast out, rm + 1) = Some body \<and> length body < length (butlast out) + (rm + 1)"
      by (rule Cons.IH) (use Cons.prems l in auto)
    then show ?thesis using 3 o l by (simp add: format_transport_def put_field_def)
  qed
qed simp

lemmas listing_defs = list_transports_msg_def list_transports_def transports_in_def List.map_filter_def format_transport_def
  put_field_def short_line_def shown_serial_def statename_def ascii_def

text \<open>The devices of the list, and the bound under which none of their lines can leave the buffer of the trackers.\<close>

definition listed :: "world \<Rightarrow> atransport list" where
  "listed w = map snd (transports_in w)"

definition names_fit :: "world \<Rightarrow> bool" where
  "names_fit w \<longleftrightarrow> (\<forall>t x. transports w t = Some x \<longrightarrow> length (shown_serial x) \<le> 1000)"

lemma statename_short: "length (statename t) \<le> 14"
  by (simp add: statename_def Let_def ascii_def)

lemma listed_alive: "t \<in> set (listed w) \<Longrightarrow> \<exists>a. transports w a = Some t"
  by (auto simp: listed_def transports_in_def List.map_filter_def)

lemma names_fit_lines: "names_fit w \<Longrightarrow> t \<in> set (listed w) \<Longrightarrow> length (short_line t) \<le> 1020"
  using statename_short [of t] by (force simp: names_fit_def short_line_def dest: listed_alive)

lemma names_fit_msg:
  assumes "names_fit w"
  obtains body where "list_transports_msg 1024 w = Some (hex4 (length body) @ body)" and "length body < 1020"
proof -
  have "\<forall>t\<in>set (listed w). length (short_line t) \<le> length ([] :: byte list) + 1020" using names_fit_lines [OF assms] by simp
  from short_lines_bounded [OF this] obtain body where "list_lines False (listed w) ([], 1020) = Some body" "length body < 1020" by auto
  then show thesis by (intro that [of body]) (simp_all add: list_transports_msg_def list_transports_def listed_def)
qed

lemma list_all: "length (all_lines (listed w)) < n \<Longrightarrow> list_transports n False w = Some (all_lines (listed w))"
  by (simp add: list_transports_def listed_def short_lines)

text \<open>C36. The message for device trackers stays inside its buffer when no name has more than 1000 bytes, its
  four hexadecimal digits are the length of the rest, and it holds the lines of all devices when they fit.\<close>

theorem list_transports_msg_framed:
  assumes "names_fit w"
  shows "\<exists>body. list_transports_msg 1024 w = Some (hex4 (length body) @ body)
     \<and> length (hex4 (length body) @ body) < 1024
     \<and> unhex (take 4 (hex4 (length body) @ body)) = word_of_nat (length body)
     \<and> (length (all_lines (listed w)) < 1020 \<longrightarrow> body = all_lines (listed w))"
proof -
  obtain body where b: "list_transports_msg 1024 w = Some (hex4 (length body) @ body)" "length body < 1020"
    by (rule names_fit_msg [OF assms])
  have "body = all_lines (listed w)" if "length (all_lines (listed w)) < 1020"
    using b(1) list_all [OF that] by (simp add: list_transports_msg_def)
  moreover have "unhex (take 4 (hex4 (length body) @ body)) = word_of_nat (length body)" using b(2) by simp
  ultimately show ?thesis using b by (intro exI [of _ body]) simp
qed

text \<open>C37. A device too many spoils the list: when the lines of some devices fit into the buffer and the line of
  the next one, the last, does not, that line is dropped, but the list also loses the end of line before it,
  because \<open>_snprintf\<close> returns -1 and the pointer goes back by one byte.\<close>

theorem full_listing_cut:
  assumes "listed w = ts @ [t]" and "ts \<noteq> []" and "length (all_lines ts) < n" and "n < length (all_lines (ts @ [t]))"
  shows "list_transports n False w = Some (butlast (all_lines ts))"
proof -
  have "all_lines ts \<noteq> []" using assms(2) by (cases ts) (auto simp: short_line_def)
  moreover have "\<not> length (short_line t) \<le> n - length (all_lines ts)" using assms(3,4) by simp
  ultimately show ?thesis
    using short_lines_append [OF assms(3), of "[t]" "[]"]
    by (simp add: list_transports_def assms(1) [unfolded listed_def] format_transport_def put_field_def)
qed

text \<open>In the long listing, a qualifier that does not fit takes the last byte of the field before it.\<close>

lemma long_line_cut:
  assumes "t_product t = Some q" and "devpath t = None" and "model t = None" and "device t = None" and "q \<noteq> []"
    and "f = pad_right 22 (shown_serial t) @ [32] @ statename t"
    and "length f < n" and "n < length f + length (ascii '' product:'' @ q)"
  shows "format_transport t True ([], n) = Some (butlast f @ [10], n - length f)"
  using assms by (auto simp: format_transport_def format_long_def put_field_def add_qual_def)

definition sample_transport :: atransport where
  "sample_transport = \<lparr>t_fd = 5, sfd = - 1, usb = 11, transport_socket = 4, ref_count = 2, sync_token = 1, token = [], connection_state = CS_DEVICE, t_online = True,
     ttype = kTransportUsb, serial = Some (ascii ''0123''), t_product = Some (replicate 4060 97), model = None,
     device = None, devpath = None, adb_port = 0, kicked = False, disconnects = [], open_end = True\<rparr>"

theorem qual_match_spec_witness:
  "qual_match (Some (ascii ''model:Nexus_4'')) (ascii ''model:'') (Some (ascii ''Nexus 4'')) True"
  using qual_match_spec [of "Some (ascii ''model:Nexus_4'')" "ascii ''model:''" "Some (ascii ''Nexus 4'')" True]
  by (simp add: ascii_def sanitize_def qual_char_is_invalid_def)

definition listing_world :: "atransport list \<Rightarrow> world" where
  "listing_world ts = world0\<lparr>transports := (\<lambda>a. if a < length ts then Some (ts ! a) else None), transport_list := [0..<length ts]\<rparr>"

lemma listed_world: "listed (listing_world ts) = ts"
proof -
  have t: "transports_in (listing_world ts) = map (\<lambda>a. (a, ts ! a)) [0..<length ts]"
    by (simp add: transports_in_def listing_world_def List.map_filter_def comp_def)
  show ?thesis by (simp add: listed_def t map_nth comp_def)
qed

theorem list_transports_msg_framed_witness:
  "\<exists>msg. list_transports_msg 1024 (listing_world [sample_transport]) = Some msg \<and> length msg < 1024"
proof -
  have "names_fit (listing_world [sample_transport])"
    by (simp add: names_fit_def listing_world_def shown_serial_def sample_transport_def ascii_def)
  from list_transports_msg_framed [OF this] show ?thesis by blast
qed

theorem full_listing_cut_witness:
  "list_transports 20 False (listing_world [sample_transport, sample_transport]) = Some (ascii ''0123'' @ [9] @ ascii ''device'')"
proof -
  have l: "short_line sample_transport = ascii ''0123'' @ [9] @ ascii ''device'' @ [10]"
    by (simp add: short_line_def shown_serial_def statename_def sample_transport_def cs_defs ascii_def)
  have "listed (listing_world [sample_transport, sample_transport]) = [sample_transport] @ [sample_transport]"
    by (simp add: listed_world)
  from full_listing_cut [OF this, of 20] l show ?thesis by (simp add: ascii_def)
qed

end
