(* ===== verification/SmartSocket.thy ===== *)
theory SmartSocket
  imports SocketIO Devlist
begin

text \<open>
  The smart socket (\<open>adb/sockets.cpp\<close>): the parser of a client's request, \<open>skip_host_serial\<close>, and
  the hand-over to a host service or to the device; and the calls through \<open>enqueue\<close> and \<open>ready\<close>, which
  close the knot of the theory \<open>SocketIO\<close>.  \<open>handle_host_request\<close> (\<open>hr\<close>) and
  \<open>host_service_to_socket\<close> (\<open>hs\<close>) are arguments: the first returns 0 when it has answered the request
  itself, the second the address of a service socket or 0.
\<close>

section \<open>Strings\<close>

definition starts :: "byte list \<Rightarrow> byte list \<Rightarrow> bool" where
  "starts p s \<longleftrightarrow> take (length p) s = p"

text \<open>\<open>strchr(s, ':')\<close>: the index of the first colon.\<close>

fun colon_at :: "byte list \<Rightarrow> nat option" where
  "colon_at [] = None"
| "colon_at (c # s) = (if c = 58 then Some 0 else map_option Suc (colon_at s))"

definition is_digit :: "byte \<Rightarrow> bool" where
  "is_digit c \<longleftrightarrow> 48 \<le> c \<and> c \<le> 57"

definition prefixes :: "byte list list" where
  "prefixes = map ascii [''usb:'', ''product:'', ''model:'', ''device:'']"

text \<open>The index at which the serial number ends in a service string.\<close>

definition skip_host_serial :: "byte list \<Rightarrow> nat option" where
  "skip_host_serial service = (case find (\<lambda>p. starts p service) prefixes of
     Some p \<Rightarrow> map_option (\<lambda>i. length p + i) (colon_at (drop (length p) service))
   | None \<Rightarrow> (case colon_at service of
        None \<Rightarrow> None
      | Some first_colon \<Rightarrow>
          let digits = takeWhile is_digit (drop (first_colon + 1) service);
              serial_end = first_colon + 1 + length digits
          in Some (if digits \<noteq> [] \<and> serial_end < length service \<and> service ! serial_end = 58
                   then serial_end else first_colon)))"

section \<open>Requests\<close>

type_synonym host_request = "byte list \<Rightarrow> transport_type \<Rightarrow> byte list option \<Rightarrow> int \<Rightarrow> nat \<Rightarrow> world \<Rightarrow> halt + (int \<times> world)"
type_synonym host_service = "byte list \<Rightarrow> byte list option \<Rightarrow> world \<Rightarrow> halt + (nat \<times> world)"

text \<open>What the first bytes of a request make of it: the service, the serial number and the type of
  transport; \<open>None\<close> for a request that goes to the device.\<close>

definition parse_request :: "byte list \<Rightarrow> (byte list \<times> byte list option \<times> transport_type) option" where
  "parse_request str =
     (if starts (ascii ''host-serial:'') str then
        let s = drop 12 str in
        (case skip_host_serial s of
           Some i \<Rightarrow> Some (drop (i + 1) s, Some (take i s), kTransportAny)
         | None \<Rightarrow> Some (s, None, kTransportAny))
      else if starts (ascii ''host-usb:'') str then Some (drop 9 str, None, kTransportUsb)
      else if starts (ascii ''host-local:'') str then Some (drop 11 str, None, kTransportLocal)
      else if starts (ascii ''host:'') str then Some (drop 5 str, None, kTransportAny)
      else None)"

text \<open>The state of the buffer: \<open>Overflow\<close>, \<open>Bad_Size\<close> (both close the socket), \<open>More\<close> (wait for more bytes)
  or a complete request.\<close>

datatype request = Overflow | Bad_Size | More | Request "byte list"

definition collect :: "byte list list \<Rightarrow> byte list \<Rightarrow> byte list option" where
  "collect ps p = (case ps of [] \<Rightarrow> Some p
     | f # _ \<Rightarrow> if length f + length p > MAX_PAYLOAD then None else Some (f @ p))"

definition scan_request :: "byte list option \<Rightarrow> request" where
  "scan_request buf = (case buf of None \<Rightarrow> Overflow | Some p \<Rightarrow>
     if length p < 4 then More
     else let len = unhex (take 4 p) in
       if len < 1 \<or> 1024 < len then Bad_Size
       else if length p < unat (len + 4) then More
       else Request (cstr (take (unat len) (drop 4 p))))"

definition smart_fail :: "(nat \<Rightarrow> world \<Rightarrow> halt + world) \<Rightarrow> nat \<Rightarrow> world \<Rightarrow> halt + (int \<times> world)" where
  "smart_fail cl s w = sbind (cl s w) (\<lambda>w1. Inr (- 1, w1))"

definition smart_host ::
    "host_request \<Rightarrow> host_service \<Rightarrow> (nat \<Rightarrow> world \<Rightarrow> halt + world) \<Rightarrow> (nat \<Rightarrow> world \<Rightarrow> halt + world)
       \<Rightarrow> nat \<Rightarrow> byte list \<Rightarrow> byte list option \<Rightarrow> transport_type \<Rightarrow> world \<Rightarrow> halt + (int \<times> world)" where
  "smart_host hr hs cl rdy s service sn tt w =
     sbind (deref s w) (\<lambda>k. sbind (deref (peer k) w) (\<lambda>q.
     sbind (hr service tt sn (sk_fd q) s w) (\<lambda>(r, w1).
     if r = 0 then smart_fail cl s w1
     else if starts (ascii ''transport'') service
     then sbind (set_pkts s [[]] w1) (\<lambda>w2. Inr (0, w2))
     else sbind (hs service sn w1) (\<lambda>(s2, w2). sbind (deref s w2) (\<lambda>k. sbind (deref (peer k) w2) (\<lambda>q.
       if s2 = 0
       then smart_fail cl s (snd (sendfailmsg (sk_fd q) (ascii ''unknown host service'') w2))
       else sbind (set_sock (peer k) (\<lambda>q. q\<lparr>ready := local_socket_ready, close := local_socket_close, peer := s2\<rparr>)
              (fd_write (sk_fd q) (ascii ''OKAY'') w2)) (\<lambda>w3.
            sbind (set_sock s2 (\<lambda>x. x\<lparr>peer := peer k\<rparr>) w3) (\<lambda>w4.
            sbind (set_sock s (\<lambda>k. k\<lparr>peer := 0\<rparr>) w4) (\<lambda>w5.
            sbind (cl s w5) (\<lambda>w6. sbind (rdy s2 w6) (\<lambda>w7. Inr (0, w7))))))))))))"

text \<open>A request for the device.\<close>

definition smart_device ::
    "(nat \<Rightarrow> world \<Rightarrow> halt + world) \<Rightarrow> nat \<Rightarrow> byte list \<Rightarrow> world \<Rightarrow> halt + (int \<times> world)" where
  "smart_device cl s destination w = sbind (deref s w) (\<lambda>k. sbind (deref (peer k) w) (\<lambda>q.
     let offline = smart_fail cl s (snd (sendfailmsg (sk_fd q) (ascii ''device offline (x)'') w)) in
     if sk_transport k = 0 then offline
     else sbind (deref_transport (sk_transport k) w) (\<lambda>t.
       if connection_state t = CS_OFFLINE then offline
       else sbind (set_sock (peer k) (\<lambda>q. q\<lparr>ready := local_socket_ready_notify, close := local_socket_close_notify,
                peer := 0, sk_transport := sk_transport k\<rparr>) w) (\<lambda>w1.
            sbind (connect_to_remote (peer k) destination w1) (\<lambda>w2.
            sbind (set_sock s (\<lambda>k. k\<lparr>peer := 0\<rparr>) w2) (\<lambda>w3.
            sbind (cl s w3) (\<lambda>w4. Inr (1, w4))))))))"

definition smart_socket_enqueue_fn ::
    "host_request \<Rightarrow> host_service \<Rightarrow> (nat \<Rightarrow> world \<Rightarrow> halt + world) \<Rightarrow> (nat \<Rightarrow> world \<Rightarrow> halt + world)
       \<Rightarrow> nat \<Rightarrow> byte list \<Rightarrow> world \<Rightarrow> halt + (int \<times> world)" where
  "smart_socket_enqueue_fn hr hs cl rdy s p w = sbind (deref s w) (\<lambda>k.
     let buf = collect (pkts k) p in
     sbind (case buf of None \<Rightarrow> Inr w | Some b \<Rightarrow> set_pkts s [b] w) (\<lambda>w1.
     case scan_request buf of
       Overflow \<Rightarrow> smart_fail cl s w1
     | Bad_Size \<Rightarrow> smart_fail cl s w1
     | More \<Rightarrow> Inr (0, w1)
     | Request str \<Rightarrow> (case parse_request str of
          Some (service, sn, tt) \<Rightarrow> smart_host hr hs cl rdy s service sn tt w1
        | None \<Rightarrow> smart_device cl s str w1)))"

section \<open>The calls through the pointers\<close>

text \<open>The fuel counts the calls that a \<open>ready\<close> of a device tracker nests inside a smart socket.\<close>

fun enqueue_sock :: "host_request \<Rightarrow> host_service \<Rightarrow> nat \<Rightarrow> nat \<Rightarrow> byte list \<Rightarrow> world \<Rightarrow> halt + (int \<times> world)" where
  "enqueue_sock hr hs 0 s p w = Inl OutOfFuel"
| "enqueue_sock hr hs (Suc n) s p w = sbind (deref s w) (\<lambda>k. case enqueue k of
       local_socket_enqueue \<Rightarrow> local_socket_enqueue_fn call_close s p w
     | remote_socket_enqueue \<Rightarrow> remote_socket_enqueue_fn s p w
     | device_tracker_enqueue \<Rightarrow> device_tracker_enqueue_fn call_close s w
     | smart_socket_enqueue \<Rightarrow> smart_socket_enqueue_fn hr hs call_close
         (\<lambda>s w. ready_sock (enqueue_sock hr hs n) (list_transports_msg 1024 w) s w) s p w)"

declare enqueue_sock.simps(2) [simp del]

definition call_enqueue :: "host_request \<Rightarrow> host_service \<Rightarrow> nat \<Rightarrow> byte list \<Rightarrow> world \<Rightarrow> halt + (int \<times> world)" where
  "call_enqueue hr hs = enqueue_sock hr hs 2"

definition call_ready :: "host_request \<Rightarrow> host_service \<Rightarrow> nat \<Rightarrow> world \<Rightarrow> halt + world" where
  "call_ready hr hs s w = ready_sock (enqueue_sock hr hs 1) (list_transports_msg 1024 w) s w"

definition run_local_event :: "host_request \<Rightarrow> host_service \<Rightarrow> int \<Rightarrow> u16 \<Rightarrow> nat \<Rightarrow> world \<Rightarrow> halt + world" where
  "run_local_event hr hs = local_socket_event call_close (call_enqueue hr hs) (call_ready hr hs)"

text \<open>\<open>update_transports\<close>: every tracker gets the message; the next tracker is read before the call.\<close>

definition succ_in :: "'a \<Rightarrow> 'a list \<Rightarrow> 'a option" where
  "succ_in x xs = (case dropWhile (\<lambda>y. y \<noteq> x) xs of _ # y # _ \<Rightarrow> Some y | _ \<Rightarrow> None)"

fun send_all :: "(nat \<Rightarrow> byte list \<Rightarrow> world \<Rightarrow> halt + (int \<times> world)) \<Rightarrow> byte list \<Rightarrow> nat \<Rightarrow> nat option \<Rightarrow> world
    \<Rightarrow> halt + world" where
  "send_all enq msg n None w = Inr w"
| "send_all enq msg 0 (Some s) w = Inl OutOfFuel"
| "send_all enq msg (Suc n) (Some s) w = sbind (deref s w) (\<lambda>_.
     let next = succ_in s (trackers w) in
     sbind (device_tracker_send enq s msg w) (\<lambda>(r, w1). send_all enq msg n next w1))"

definition update_transports :: "host_request \<Rightarrow> host_service \<Rightarrow> world \<Rightarrow> halt + world" where
  "update_transports hr hs w = (case list_transports_msg 1024 w of
     None \<Rightarrow> Inl Overrun
   | Some msg \<Rightarrow> send_all (call_enqueue hr hs) msg (length (trackers w))
       (case trackers w of [] \<Rightarrow> None | s # _ \<Rightarrow> Some s) w)"

section \<open>Events of a connected socket\<close>

text \<open>
  The contract between a local socket and its peer: \<open>enqueue\<close> and \<open>ready\<close> return, keep the invariant
  and leave the caller as it is.  \<open>good\<close> are the peers that honour it.
\<close>

locale peer_calls =
  fixes enq :: "nat \<Rightarrow> byte list \<Rightarrow> world \<Rightarrow> halt + (int \<times> world)"
    and rdy :: "nat \<Rightarrow> world \<Rightarrow> halt + world"
    and good :: "asocket \<Rightarrow> bool"
  assumes enq_ok: "sock_inv {} w \<Longrightarrow> socks w p = Some q \<Longrightarrow> good q \<Longrightarrow> peer q \<noteq> 0 \<Longrightarrow> length bs \<le> MAX_PAYLOAD \<Longrightarrow>
      \<exists>r w'. enq p bs w = Inr (r, w') \<and> sock_inv {} w' \<and> socks w' (peer q) = socks w (peer q)"
    and rdy_ok: "sock_inv {} w \<Longrightarrow> socks w p = Some q \<Longrightarrow> good q \<Longrightarrow> peer q \<noteq> 0 \<Longrightarrow>
      \<exists>w'. rdy p w = Inr w' \<and> sock_inv {} w' \<and> socks w' (peer q) = socks w (peer q) \<and> socks w' p = Some q"
begin

lemma read_safe:
  assumes inv: "sock_inv {} w" and s: "socks w s = Some k" and l: "is_local k"
    and p: "peer k \<noteq> 0 \<Longrightarrow> \<exists>q. socks w (peer k) = Some q \<and> good q"
  shows "\<exists>w'. event_read call_close enq fd s w = Inr w' \<and> sock_inv {} w'"
proof -
  obtain bs r eof evs where sl: "slurp MAX_PAYLOAD (rds w fd) = (bs, r, eof, evs)"
    by (cases "slurp MAX_PAYLOAD (rds w fd)")
  let ?w1 = "w\<lparr>rds := (rds w)(fd := evs)\<rparr>"
  have inv1: "sock_inv {} ?w1" and s1: "socks ?w1 s = Some k" using inv s by simp_all
  have s0: "s \<noteq> 0" by (rule sock_invD(1) [OF inv s])
  define fin where "fin = (\<lambda>(r :: int) w. sbind (deref s w) (\<lambda>_.
     if (force_eof (fdes (ev w) s) \<and> r = 0) \<or> eof then call_close s w else Inr w))"
  have fin: "\<exists>w'. fin r w2 = Inr w' \<and> sock_inv {} w'"
    if "sock_inv {} w2" "socks w2 s = Some k2" for r :: int and w2 k2
    using close_any [OF that, of 0] that s0 by (auto simp: fin_def sock_simps numeral_2_eq_2)
  show ?thesis
  proof (cases "bs = [] \<or> peer k = 0")
    case True
    then have "event_read call_close enq fd s w = fin r ?w1"
      using s s0 sl by (auto simp: event_read_def sock_simps fin_def Let_def)
    with fin [OF inv1 s1] show ?thesis by simp
  next
    case False
    then obtain q where q: "socks w (peer k) = Some q" "good q" using p by blast
    have "peer q = s" using peer_alive [OF inv s] False q by fastforce
    then obtain r' w2 where e: "enq (peer k) bs ?w1 = Inr (r', w2)" "sock_inv {} w2" "socks w2 s = Some k"
      using enq_ok [OF inv1, of "peer k" q bs] q s s0 slurp_bound [OF sl] by auto
    let ?w3 = "fd_op (fdevent_del s (ucast FDE_READ)) w2"
    have r: "event_read call_close enq fd s w = (if r' < 0 then Inr w2 else if r' > 0 then fin r' ?w3 else fin r' w2)"
      using s s0 sl False q e by (simp add: event_read_def sock_simps fin_def Let_def)
    have "sock_inv {} ?w3" using inv_read_interest(2) [OF e(2,3) l] .
    moreover have "socks ?w3 s = Some k" using e(3) by (simp add: fd_op_def)
    ultimately show ?thesis using r fin e by auto
  qed
qed

lemma write_safe:
  assumes inv: "sock_inv {} w" and s: "socks w s = Some k" and l: "is_local k"
    and p: "peer k \<noteq> 0 \<Longrightarrow> \<exists>q. socks w (peer k) = Some q \<and> good q" and c: "\<not> closing k \<Longrightarrow> peer k \<noteq> 0"
  shows "\<exists>go w'. event_write call_close rdy fd s w = Inr (go, w') \<and> sock_inv {} w'
    \<and> (go \<longrightarrow> socks w' s = Some (k\<lparr>pkts := []\<rparr>) \<and> (\<exists>q. socks w' (peer k) = Some q \<and> good q))"
proof -
  obtain e out left evs where f: "flush (pkts k) (wrs w fd) = (e, out, left, evs)"
    by (cases "flush (pkts k) (wrs w fd)")
  note fs = flush_split [OF f]
  let ?w0 = "put_out fd out evs w"
  let ?w1 = "?w0\<lparr>socks := (socks w)(s \<mapsto> k\<lparr>pkts := left\<rparr>)\<rparr>"
  have s0: "s \<noteq> 0" by (rule sock_invD(1) [OF inv s])
  have inv0: "sock_inv {} ?w0" and s0': "socks ?w0 s = Some k" using inv s by simp_all
  have "left \<noteq> [] \<Longrightarrow> pkts k \<noteq> []" using f by (cases "pkts k") auto
  then have inv1: "sock_inv {} ?w1" using inv_queue_shrink [OF inv0 s0' l, of left] by simp
  have s1: "socks ?w1 s = Some (k\<lparr>pkts := left\<rparr>)" by simp
  obtain w2 where w2: "call_close s ?w1 = Inr w2" "sock_inv {} w2"
    using close_any [OF inv1 s1, of 0] by (auto simp: numeral_2_eq_2)
  have e1: "event_write call_close rdy fd s w = (case e of
       Blocked \<Rightarrow> Inr (False, ?w1)
     | Broken \<Rightarrow> sbind (call_close s ?w1) (\<lambda>w2. Inr (False, w2))
     | Done \<Rightarrow>
         if closing k then sbind (call_close s ?w1) (\<lambda>w2. Inr (False, w2))
         else let w2 = fd_op (fdevent_del s (ucast FDE_WRITE)) ?w1 in
              sbind (deref (peer k) w2) (\<lambda>_. sbind (rdy (peer k) w2) (\<lambda>w3. Inr (True, w3))))"
    using s s0 f by (simp add: event_write_def sock_simps set_pkts_def)
  show ?thesis
  proof (cases "e = Done \<and> \<not> closing k")
    case False
    with e1 inv1 w2 show ?thesis by (cases e) (auto simp: Let_def)
  next
    case True
    then have pk: "peer k \<noteq> 0" using c by simp
    then obtain q where q: "socks w (peer k) = Some q" "good q" using p by blast
    have ps: "peer q = s" "peer k \<noteq> s" using peer_alive [OF inv s _ pk] q by fastforce+
    let ?w2 = "fd_op (fdevent_del s (ucast FDE_WRITE)) ?w1"
    have "left = []" using fs True by simp
    then have inv2: "sock_inv {} ?w2" using inv_queue_del [OF inv0 s0' l] True by simp
    have q2: "socks ?w2 (peer k) = Some q" using q ps by (simp add: fd_op_def)
    obtain w3 where w3: "rdy (peer k) ?w2 = Inr w3" "sock_inv {} w3" "socks w3 s = socks ?w2 s"
      "socks w3 (peer k) = Some q"
      using rdy_ok [OF inv2 q2 q(2)] ps s0 by auto
    have "deref (peer k) ?w2 = Inr q" using q2 pk by (rule deref_Some)
    then have "event_write call_close rdy fd s w = Inr (True, w3)"
      using e1 True w3(1) by (simp add: Let_def)
    moreover have "socks w3 s = Some (k\<lparr>pkts := []\<rparr>)" using w3(3) \<open>left = []\<close> by (simp add: fd_op_def)
    ultimately show ?thesis using w3 q(2) by blast
  qed
qed

lemma event_safe:
  assumes inv: "sock_inv {} w" and s: "socks w s = Some k" and l: "is_local k"
    and p: "peer k \<noteq> 0 \<Longrightarrow> \<exists>q. socks w (peer k) = Some q \<and> good q" and c: "bit evs 1 \<Longrightarrow> \<not> closing k \<Longrightarrow> peer k \<noteq> 0"
  shows "\<exists>w'. local_socket_event call_close enq rdy fd evs s w = Inr w' \<and> sock_inv {} w'"
proof (cases "bit evs 1")
  case True
  obtain go w1 where w1: "event_write call_close rdy fd s w = Inr (go, w1)" "sock_inv {} w1"
    "go \<Longrightarrow> socks w1 s = Some (k\<lparr>pkts := []\<rparr>) \<and> (\<exists>q. socks w1 (peer k) = Some q \<and> good q)"
    using write_safe [OF inv s l p c [OF True], of fd] by blast
  show ?thesis
  proof (cases "go \<and> bit evs 0")
    case True
    then obtain w' where "event_read call_close enq fd s w1 = Inr w'" "sock_inv {} w'"
      using read_safe [OF w1(2), of s "k\<lparr>pkts := []\<rparr>" fd] w1(3) l by auto
    then show ?thesis using True \<open>bit evs 1\<close> w1(1) by (simp add: local_socket_event_def)
  next
    case False
    then show ?thesis using \<open>bit evs 1\<close> w1(1,2) by (auto simp: local_socket_event_def)
  qed
next
  case False
  then show ?thesis
    using read_safe [OF inv s l p, of fd] inv s sock_invD(1) [OF inv s]
    by (auto simp: local_socket_event_def sock_simps)
qed

end

text \<open>A remote socket is such a peer.\<close>

lemma remote_enqueue_result:
  assumes inv: "sock_inv {} w" and q: "socks w p = Some q" "is_remote q" and s: "peer q \<noteq> 0" "socks w (peer q) = Some k"
    and n: "length bs \<le> MAX_PAYLOAD"
  shows "enqueue_sock hr hs (Suc m) p bs w
    = Inr (1, w\<lparr>sent := sent w @ [(sk_transport q, wire A_WRTE (sk_id k) (sk_id q) bs)]\<rparr>)"
proof -
  obtain x where x: "transports w (sk_transport q) = Some x" "sk_transport q \<noteq> 0" "open_end x"
    by (rule remote_transport [OF inv q])
  with n q s sock_invD(1) [OF inv q(1)] show ?thesis
    by (simp add: enqueue_sock.simps(2) remote_socket_enqueue_fn_def sock_simps send_packet_wire)
qed

lemma remote_ready_result:
  assumes inv: "sock_inv {} w" and q: "socks w p = Some q" "is_remote q" and s: "peer q \<noteq> 0" "socks w (peer q) = Some k"
  shows "ready_sock enq msg p w
    = Inr (w\<lparr>sent := sent w @ [(sk_transport q, wire A_OKAY (sk_id k) (sk_id q) [])]\<rparr>)"
proof -
  obtain x where x: "transports w (sk_transport q) = Some x" "sk_transport q \<noteq> 0" "open_end x"
    by (rule remote_transport [OF inv q])
  have "ready q = remote_socket_ready" using sock_invD(2) [OF inv q(1)] q(2) by (simp add: vtable_ok.simps)
  with x q s sock_invD(1) [OF inv q(1)] show ?thesis
    by (simp add: ready_sock_def remote_socket_ready_op_def sock_simps send_packet_wire)
qed

interpretation remote_peer: peer_calls "call_enqueue hr hs" "call_ready hr hs" is_remote for hr hs
proof (unfold_locales, goal_cases)
  case (1 w p q bs)
  obtain k where k: "socks w (peer q) = Some k" using peer_alive [OF 1(1,2) _ 1(4)] by blast
  from 1 show ?case
    using remote_enqueue_result [OF 1(1,2,3,4) k 1(5), of hr hs 1]
    by (simp add: call_enqueue_def numeral_2_eq_2)
next
  case (2 w p q)
  obtain k where k: "socks w (peer q) = Some k" using peer_alive [OF 2(1,2) _ 2(4)] by blast
  from 2 show ?case
    using remote_ready_result [OF 2 k] by (simp add: call_ready_def)
qed

text \<open>A server that knows no host request and no host service.\<close>

definition no_request :: host_request where "no_request service tt sn fd s w = Inr (- 1, w)"
definition no_service :: host_service where "no_service service sn w = Inr (0, w)"

end
