(* ===== verification/SocketProps.thy ===== *)
theory SocketProps
  imports SmartSocket
begin

text \<open>
  The properties of the sockets: closing, the two directions of the data path with their flow
  control, the parsing of requests, and the two ways in which the code leaves its contract.
\<close>

section \<open>A connected pair\<close>

text \<open>Host services that are not involved in an example.\<close>

lemma world_with_transport:
  "sock_inv {} (world0\<lparr>transports := [7 \<mapsto> sample_transport], rds := rs, wrs := ws\<rparr>)"
  using fdst0_inv
  by (auto simp: world0_def sock_inv_def peers_ok_def heap_ok_def lists_ok_def transports_ok_def remote_of_def
      sample_transport_def)

definition local_end :: asocket where "local_end = zero_sock\<lparr>sk_fd := 3, sk_id := 1, peer := 5\<rparr>"
definition remote_end :: asocket where "remote_end = (remote_sock 9 7)\<lparr>peer := 2\<rparr>"

lemma linked_world:
  obtains w where "sock_inv {} w" and "socks w = [2 \<mapsto> local_end, 5 \<mapsto> remote_end]" and "sent w = []"
    and "rds w = rs" and "wrs w = ws" and "outs w = (\<lambda>_. [])" and "local_list w = [2]"
    and "force_eof (fdes (ev w) 2) = False" and "transports w = [7 \<mapsto> sample_transport\<lparr>disconnects := [remote_socket_disconnect 5]\<rparr>]"
    and "fdes (ev w) 2 = (fdes (ev w) 2)\<lparr>state := FDE_ACTIVE\<rparr>" and "trackers w = []" and "closing_list w = []"
proof -
  let ?w0 = "world0\<lparr>transports := [7 \<mapsto> sample_transport], rds := rs, wrs := ws\<rparr>"
  have i0: "sock_inv {} ?w0" by (rule world_with_transport)
  have f: "fresh_fde 2 3 (ev ?w0)" using fresh_fdst0 by (simp add: world0_def)
  obtain w1 where w1: "create_local_socket 4 (Some (\<lambda>_. 0)) 2 3 ?w0 = Inr w1" "sock_inv {} w1"
    "socks w1 = (socks ?w0)(2 \<mapsto> zero_sock\<lparr>sk_fd := 3, sk_id := next_id ?w0\<rparr>)" "local_list w1 = local_list ?w0 @ [2]"
    "sent w1 = sent ?w0" "transports w1 = transports ?w0" "rds w1 = rds ?w0" "wrs w1 = wrs ?w0"
    "outs w1 = outs ?w0" "trackers w1 = trackers ?w0" "state (fdes (ev w1) 2) = FDE_ACTIVE"
    "closing_list w1 = closing_list ?w0"
    by (rule create_local_socket_result [OF i0 _ f, of "\<lambda>_. 0"]) (simp_all add: world0_def)
  have fe: "force_eof (fdes (ev w1) 2) = False"
  proof -
    obtain e' where e': "fdevent_install 4 (Some (\<lambda>_. 0)) 2 3 local_socket_event_func 2 (ev ?w0) = Inr e'"
      "fdes e' 2 = \<lparr>fde_fd = 3, force_eof = False, state = FDE_ACTIVE OR FDE_ACTIVE, events = 0,
         func = local_socket_event_func, fde_arg = 2\<rparr>"
      by (rule fdevent_install_result [OF f, of "\<lambda>_. 0" local_socket_event_func 2]) auto
    have "ev w1 = e'"
      using w1(1) e'(1)
      by (auto simp: create_local_socket_def install_local_socket_def set_sock_def deref_def insert_local_socket_def
          fd_try_def)
    with e' show ?thesis by simp
  qed
  have s2: "socks w1 2 = Some (zero_sock\<lparr>sk_fd := 3, sk_id := 1\<rparr>)" using w1(3) by (simp add: world0_def)
  obtain w2 where w2: "attach_remote 5 9 7 2 w1 = Inr w2" "sock_inv {} w2"
    "socks w2 = (socks w1)(2 \<mapsto> (zero_sock\<lparr>sk_fd := 3, sk_id := 1\<rparr>)\<lparr>peer := 5\<rparr>, 5 \<mapsto> (remote_sock 9 7)\<lparr>peer := 2\<rparr>)"
    "sent w2 = sent w1" "ev w2 = ev w1" "local_list w2 = local_list w1" "outs w2 = outs w1" "wrs w2 = wrs w1"
    "rds w2 = rds w1" "trackers w2 = trackers w1" "closing_list w2 = closing_list w1"
    "transports w2 = (transports w1)(7 \<mapsto> sample_transport\<lparr>disconnects := disconnects sample_transport @ [remote_socket_disconnect 5]\<rparr>)"
    by (rule attach_remote_result [OF w1(2) s2, of 5 7 sample_transport 9])
      (simp_all add: zero_sock_def w1 world0_def)
  show thesis
  proof (rule that [of w2])
    show "socks w2 = [2 \<mapsto> local_end, 5 \<mapsto> remote_end]"
      by (simp add: w2 w1 world0_def local_end_def remote_end_def fun_eq_iff)
  qed (simp_all add: w2 w1 fe world0_def sample_transport_def)
qed

lemma local_end_simps [simp]:
  "is_local local_end" "peer local_end = 5" "sk_fd local_end = 3" "sk_id local_end = 1" "pkts local_end = []"
  "\<not> closing local_end" "close local_end = local_socket_close"
  by (simp_all add: local_end_def zero_sock_def)

lemma remote_end_simps [simp]:
  "is_remote remote_end" "peer remote_end = 2" "sk_id remote_end = 9" "sk_transport remote_end = 7"
  by (simp_all add: remote_end_def remote_sock_def zero_sock_def)

section \<open>Closing\<close>

text \<open>C8. Closing terminates: on a consistent state a call of any socket's \<open>close\<close> returns; the nested
  calls of peers never go deeper than two, no freed socket and no null pointer is touched, no event
  is left registered for a freed socket, and only the socket and its peer are affected: each is
  freed, or parked among the closing sockets when it still has bytes to write.\<close>

theorem close_returns:
  assumes "sock_inv {} w" and "socks w s = Some k"
  shows "\<exists>w'. call_close s w = Inr w' \<and> sock_inv {} w'
    \<and> socks w' = (if peer k = 0 then (socks w)(s := after_close k)
         else (socks w)(peer k := Option.bind (socks w (peer k)) after_close, s := after_close k))"
  using close_any [OF assms, of 0] by (simp add: numeral_2_eq_2)

theorem close_returns_witness:
  "\<exists>w w'. socks w = [2 \<mapsto> local_end, 5 \<mapsto> remote_end] \<and> call_close 2 w = Inr w' \<and> socks w' 2 = None \<and> socks w' 5 = None"
proof -
  obtain w where w: "sock_inv {} w" "socks w = [2 \<mapsto> local_end, 5 \<mapsto> remote_end]" by (rule linked_world) blast
  with close_returns [of w 2 local_end] obtain w' where "call_close 2 w = Inr w'"
    "socks w' = (socks w)(5 := Option.bind (socks w 5) after_close, 2 := after_close local_end)" by auto
  with w(2) show ?thesis by (intro exI [of _ w] exI [of _ w']) (simp add: after_close_def)
qed

text \<open>The closing of a local socket tells the device the remote id only: the peer is closed after
  its link back was cut, so that the CLSE packet carries the local id 0; closing from the remote side
  carries both ids.\<close>

theorem close_message_ids:
  assumes "sock_inv {} w" and "socks w s = Some k" and "is_local k" and "socks w (peer k) = Some q" and "is_remote q"
  shows "(\<exists>w'. call_close s w = Inr w' \<and> sent w' = sent w @ [(sk_transport q, wire A_CLSE 0 (sk_id q) [])])
    \<and> (\<exists>w'. call_close (peer k) w = Inr w' \<and> sent w' = sent w @ [(sk_transport q, wire A_CLSE (sk_id k) (sk_id q) [])])"
proof -
  have p: "peer k \<noteq> 0" by (rule sock_invD(1) [OF assms(1,4)])
  have ps: "peer q = s" using peer_alive [OF assms(1,2) _ p] assms(4) by fastforce
  have s0: "s \<noteq> 0" by (rule sock_invD(1) [OF assms(1,2)])
  have "\<exists>w'. call_close s w = Inr w' \<and> sent w' = sent w @ [(sk_transport q, wire A_CLSE 0 (sk_id q) [])]"
    using close_full [OF assms(1,2) p, of 0] assms
    by (auto simp: numeral_2_eq_2 close_result_def close_msgs_def)
  moreover have "\<exists>w'. call_close (peer k) w = Inr w' \<and> sent w' = sent w @ [(sk_transport q, wire A_CLSE (sk_id k) (sk_id q) [])]"
    using close_full [OF assms(1,4), of 0] assms ps s0
    by (auto simp: numeral_2_eq_2 close_result_def close_msgs_def)
  ultimately show ?thesis ..
qed

theorem close_message_ids_witness:
  "\<exists>w w'. sent w = [] \<and> call_close 2 w = Inr w' \<and> sent w' = [(7, wire A_CLSE 0 9 [])]"
proof -
  obtain w where w: "sock_inv {} w" "socks w = [2 \<mapsto> local_end, 5 \<mapsto> remote_end]" "sent w = []" by (rule linked_world) blast
  with close_message_ids [of w 2 local_end remote_end] show ?thesis by auto
qed

section \<open>The data path\<close>

text \<open>C21. From the client to the device: a readable local socket sends what can be read, up to one
  payload, in a single WRTE packet with both ids, and stops listening to its descriptor until the
  device answers; nothing else changes.\<close>

theorem read_event_forwards:
  assumes inv: "sock_inv {} w" and s: "socks w s = Some k" "is_local k" and q: "socks w (peer k) = Some q" "is_remote q"
    and sl: "slurp MAX_PAYLOAD (rds w fd) = (bs, r, False, evs)" "bs \<noteq> []"
  shows "\<exists>w'. run_local_event hr hs fd FDE_READ s w = Inr w' \<and> sock_inv {} w' \<and> socks w' = socks w
    \<and> sent w' = sent w @ [(sk_transport q, wire A_WRTE (sk_id k) (sk_id q) bs)] \<and> length bs \<le> MAX_PAYLOAD
    \<and> \<not> bit (state (fdes (ev w') s)) 0 \<and> rds w' = (rds w)(fd := evs) \<and> outs w' = outs w"
proof -
  have p: "peer k \<noteq> 0" by (rule sock_invD(1) [OF inv q(1)])
  have s0: "s \<noteq> 0" by (rule sock_invD(1) [OF inv s(1)])
  have ps: "peer q = s" using peer_alive [OF inv s(1) _ p] q by fastforce
  have n: "length bs \<le> MAX_PAYLOAD" by (rule slurp_bound [OF sl(1)])
  let ?w1 = "w\<lparr>rds := (rds w)(fd := evs)\<rparr>"
  let ?w2 = "?w1\<lparr>sent := sent w @ [(sk_transport q, wire A_WRTE (sk_id k) (sk_id q) bs)]\<rparr>"
  let ?w3 = "fd_op (fdevent_del s (ucast FDE_READ)) ?w2"
  have e: "call_enqueue hr hs (peer k) bs ?w1 = Inr (1, ?w2)"
    using remote_enqueue_result [of ?w1 "peer k" q k bs hr hs 1] inv q s ps s0 n
    by (simp add: call_enqueue_def numeral_2_eq_2)
  have d: "deref s ?w2 = Inr k" "deref s ?w3 = Inr k"
    using s s0 by (simp_all add: deref_def fd_op_def)
  have "event_read call_close (call_enqueue hr hs) fd s w = Inr ?w3"
    using s s0 sl q p e d by (simp add: event_read_def sock_simps Let_def)
  then have "run_local_event hr hs fd FDE_READ s w = Inr ?w3"
    using s s0 by (simp add: run_local_event_def local_socket_event_def sock_simps)
  moreover have "sock_inv {} ?w3"
    using inv_read_interest(2) [of ?w2 s k] inv s by simp
  moreover have "\<not> bit (state (fdes (ev ?w3) s)) 0" by (simp add: fd_op_def fdevent_del_bits)
  ultimately show ?thesis using n by (intro exI [of _ ?w3]) (simp add: fd_op_def)
qed

theorem read_event_forwards_witness:
  "\<exists>w w'. sent w = [] \<and> rds w 3 = [Avail [104, 105], RdErr EINTR, Avail [33]]
     \<and> run_local_event no_request no_service 3 FDE_READ 2 w = Inr w' \<and> sent w' = [(7, wire A_WRTE 1 9 [104, 105, 33])]"
proof -
  let ?rs = "(\<lambda>_. [])(3 := [Avail [104, 105], RdErr EINTR, Avail [33]])"
  obtain w where w: "sock_inv {} w" "socks w = [2 \<mapsto> local_end, 5 \<mapsto> remote_end]" "sent w = []" "rds w = ?rs"
    by (rule linked_world [of ?rs "\<lambda>_. []"]) blast
  have "slurp MAX_PAYLOAD (rds w 3) = ([104, 105, 33], - 1, False, [])"
    using w(4) by (simp add: slurp.simps nb_read_def MAX_PAYLOAD_def)
  with read_event_forwards [of w 2 local_end remote_end 3 "[104, 105, 33]" "- 1" "[]" no_request no_service] w show ?thesis by auto
qed

text \<open>From the device to the client: \<open>local_socket_enqueue\<close> adds exactly the payload to the stream of
  the socket (what was written to its descriptor followed by what is queued), answers 0 only when all
  of it has been written, and otherwise keeps the rest queued with \<open>FDE_WRITE\<close> enabled; the exception
  is a broken descriptor, which closes the socket.\<close>

theorem enqueue_keeps_stream:
  assumes inv: "sock_inv {} w" and s: "socks w s = Some k" "is_local k"
    and ok: "fst (push False p (wrs w (sk_fd k))) \<noteq> Broken"
  shows "\<exists>r w' ps. call_enqueue hr hs s p w = Inr (r, w') \<and> sock_inv {} w' \<and> socks w' = (socks w)(s \<mapsto> k\<lparr>pkts := ps\<rparr>)
    \<and> outs w' (sk_fd k) @ concat ps = outs w (sk_fd k) @ concat (pkts k) @ p \<and> (r = 0 \<longleftrightarrow> ps = [])
    \<and> (ps \<noteq> [] \<longrightarrow> bit (state (fdes (ev w') s)) 1) \<and> sent w' = sent w"
proof -
  have s0: "s \<noteq> 0" by (rule sock_invD(1) [OF inv s(1)])
  have e: "call_enqueue hr hs s p w = local_socket_enqueue_fn (close_sock (Suc (Suc 0))) s p w"
    using s s0 by (simp add: call_enqueue_def numeral_2_eq_2 enqueue_sock.simps(2) sock_simps)
  obtain r w' where rw: "local_socket_enqueue_fn (close_sock (Suc (Suc 0))) s p w = Inr (r, w')" "sock_inv {} w'"
    "(\<exists>ps. socks w' = (socks w)(s \<mapsto> k\<lparr>pkts := ps\<rparr>) \<and> sent w' = sent w \<and> transports w' = transports w
        \<and> outs w' = (outs w)(sk_fd k := outs w' (sk_fd k))
        \<and> outs w' (sk_fd k) @ concat ps = outs w (sk_fd k) @ concat (pkts k) @ p
        \<and> r = (if ps = [] then 0 else 1))
     \<or> (r = 1 \<and> pkts k = [] \<and> (\<exists>left evs out. push False p (wrs w (sk_fd k)) = (Broken, out, left, evs)
          \<and> close_sock (Suc (Suc 0)) s (put_out (sk_fd k) out evs w) = Inr w'))"
    using local_enqueue_result [OF inv s, of 0 p] by blast
  then obtain ps where ps: "socks w' = (socks w)(s \<mapsto> k\<lparr>pkts := ps\<rparr>)" "sent w' = sent w"
      "outs w' (sk_fd k) @ concat ps = outs w (sk_fd k) @ concat (pkts k) @ p" "r = (if ps = [] then 0 else 1)"
    using ok by fastforce
  then have "event_ok (ev w') s (k\<lparr>pkts := ps\<rparr>)" using sock_invD(5) [OF rw(2), of s] by simp
  then have "ps \<noteq> [] \<longrightarrow> bit (state (fdes (ev w') s)) 1" using s(2) by (simp add: event_ok_def)
  with e rw(1,2) ps show ?thesis by (intro exI [of _ r] exI [of _ w'] exI [of _ ps]) auto
qed

theorem enqueue_keeps_stream_witness:
  "\<exists>w w'. wrs w 3 = [Room 2] \<and> call_enqueue no_request no_service 2 [1, 2, 3] w = Inr (1, w') \<and> outs w' 3 @ [3] = outs w 3 @ [1, 2, 3]"
proof -
  let ?ws = "(\<lambda>_. [])(3 := [Room 2])"
  obtain w where w: "sock_inv {} w" "socks w = [2 \<mapsto> local_end, 5 \<mapsto> remote_end]" "wrs w = ?ws" "outs w = (\<lambda>_. [])"
    by (rule linked_world [of "\<lambda>_. []" ?ws]) blast
  have p: "push False [1, 2, 3] (wrs w 3) = (Blocked, [1, 2], [3], [])"
    using w(3) by (simp add: push.simps nb_write_def)
  obtain r w' ps where "call_enqueue no_request no_service 2 [1, 2, 3] w = Inr (r, w')"
    "socks w' = (socks w)(2 \<mapsto> local_end\<lparr>pkts := ps\<rparr>)" "outs w' 3 @ concat ps = outs w 3 @ [1, 2, 3]" "r = 0 \<longleftrightarrow> ps = []"
    using enqueue_keeps_stream [of w 2 local_end "[1, 2, 3]" no_request no_service] w(1,2) p by auto
  moreover have "call_enqueue no_request no_service 2 [1, 2, 3] w = Inr (1, fd_op (fdevent_add 2 (ucast FDE_WRITE))
      ((put_out 3 [1, 2] [] w)\<lparr>socks := (socks w)(2 \<mapsto> local_end\<lparr>pkts := [[3]]\<rparr>)\<rparr>))"
    using w(2) p by (simp add: call_enqueue_def numeral_2_eq_2 enqueue_sock.simps(2) local_socket_enqueue_fn_def
        sock_simps set_pkts_def)
  ultimately have "r = 1" and "ps = [[3]] \<or> ps \<noteq> []" and w': "w' = fd_op (fdevent_add 2 (ucast FDE_WRITE))
      ((put_out 3 [1, 2] [] w)\<lparr>socks := (socks w)(2 \<mapsto> local_end\<lparr>pkts := [[3]]\<rparr>)\<rparr>)"
    and c: "call_enqueue no_request no_service 2 [1, 2, 3] w = Inr (1, w')"
    by auto
  have "outs w' 3 @ [3] = outs w 3 @ [1, 2, 3]" using w(4) by (simp add: w' fd_op_def)
  with c w(3) show ?thesis by (intro exI [of _ w] exI [of _ w']) simp
qed

text \<open>C28. Draining and acknowledgement: when the descriptor becomes writable and takes the whole queue,
  a connected local socket writes it in order, stops waiting for \<open>FDE_WRITE\<close> and sends the device the
  OKAY that its WRTE was still owed, and only then.\<close>

theorem write_event_acknowledges:
  assumes inv: "sock_inv {} w" and s: "socks w s = Some k" "is_local k" "\<not> closing k"
    and q: "socks w (peer k) = Some q" "is_remote q"
    and fl: "flush (pkts k) (wrs w (sk_fd k)) = (e, out, left, evs)"
  shows "\<exists>w'. run_local_event hr hs (sk_fd k) FDE_WRITE s w = Inr w' \<and> sock_inv {} w'
    \<and> (e = Done \<longrightarrow> outs w' (sk_fd k) = outs w (sk_fd k) @ concat (pkts k) \<and> socks w' s = Some (k\<lparr>pkts := []\<rparr>)
         \<and> \<not> bit (state (fdes (ev w') s)) 1
         \<and> sent w' = sent w @ [(sk_transport q, wire A_OKAY (sk_id k) (sk_id q) [])])
    \<and> (e = Blocked \<longrightarrow> outs w' (sk_fd k) @ concat left = outs w (sk_fd k) @ concat (pkts k)
         \<and> socks w' s = Some (k\<lparr>pkts := left\<rparr>) \<and> sent w' = sent w)"
proof -
  have p: "peer k \<noteq> 0" by (rule sock_invD(1) [OF inv q(1)])
  have s0: "s \<noteq> 0" by (rule sock_invD(1) [OF inv s(1)])
  have ps: "peer q = s" "peer k \<noteq> s" using peer_alive [OF inv s(1) _ p] q by fastforce+
  note fs = flush_split [OF fl]
  let ?w1 = "(put_out (sk_fd k) out evs w)\<lparr>socks := (socks w)(s \<mapsto> k\<lparr>pkts := left\<rparr>)\<rparr>"
  let ?w2 = "fd_op (fdevent_del s (ucast FDE_WRITE)) ?w1"
  have i0: "sock_inv {} (put_out (sk_fd k) out evs w)" "socks (put_out (sk_fd k) out evs w) s = Some k"
    using inv s by simp_all
  have safe: "\<exists>w'. run_local_event hr hs (sk_fd k) FDE_WRITE s w = Inr w' \<and> sock_inv {} w'"
    unfolding run_local_event_def
    by (rule remote_peer.event_safe [OF inv s(1,2)]) (use q p in auto)
  have ev: "run_local_event hr hs (sk_fd k) FDE_WRITE s w =
      sbind (event_write call_close (call_ready hr hs) (sk_fd k) s w) (\<lambda>(go, w1). Inr w1)"
    by (simp add: run_local_event_def local_socket_event_def)
  show ?thesis
  proof (cases e)
    case Done
    have l: "left = []" using fs Done by simp
    have inv2: "sock_inv {} ?w2" using inv_queue_del [OF i0 s(2,3)] l by simp
    have sk2: "socks ?w2 (peer k) = Some q" "socks ?w2 s = Some (k\<lparr>pkts := []\<rparr>)"
      using q ps l by (simp_all add: fd_op_def)
    let ?w3 = "?w2\<lparr>sent := sent ?w2 @ [(sk_transport q, wire A_OKAY (sk_id k) (sk_id q) [])]\<rparr>"
    have "call_ready hr hs (peer k) ?w2 = Inr ?w3"
      using remote_ready_result [OF inv2 sk2(1) q(2), of "k\<lparr>pkts := []\<rparr>"] ps sk2 s0 by (simp add: call_ready_def)
    moreover have "deref (peer k) ?w2 = Inr q" using sk2 p by (intro deref_Some) simp
    ultimately have "run_local_event hr hs (sk_fd k) FDE_WRITE s w = Inr ?w3"
      using s s0 fl Done l by (simp add: ev event_write_def sock_simps set_pkts_def Let_def)
    moreover have "sock_inv {} ?w3" using inv2 by simp
    moreover have "\<not> bit (state (fdes (ev ?w3) s)) 1" by (simp add: fd_op_def fdevent_del_bits)
    moreover have "out = concat (pkts k)" using fs l by simp
    ultimately show ?thesis using Done sk2 by (intro exI [of _ ?w3]) (simp add: fd_op_def)
  next
    case Blocked
    have "run_local_event hr hs (sk_fd k) FDE_WRITE s w = Inr ?w1"
      using s s0 fl Blocked by (simp add: ev event_write_def sock_simps set_pkts_def)
    with safe fs Blocked show ?thesis by auto
  next
    case Broken
    with safe show ?thesis by auto
  qed
qed

lemma backlog_world:
  assumes "sock_inv {} w" and "socks w = [2 \<mapsto> local_end, 5 \<mapsto> remote_end]"
  shows "sock_inv {} (fd_op (fdevent_add 2 (ucast FDE_WRITE)) (w\<lparr>socks := [2 \<mapsto> local_end\<lparr>pkts := ps\<rparr>, 5 \<mapsto> remote_end]\<rparr>))"
proof -
  have "(socks w)(2 \<mapsto> local_end\<lparr>pkts := ps\<rparr>) = [2 \<mapsto> local_end\<lparr>pkts := ps\<rparr>, 5 \<mapsto> remote_end]"
    using assms(2) by (simp add: fun_eq_iff)
  with inv_queue_add [OF assms(1), of 2 local_end ps] assms(2) show ?thesis by simp
qed

theorem write_event_acknowledges_witness:
  "\<exists>w w' k. socks w 2 = Some k \<and> pkts k = [[1, 2], [3]] \<and> sent w = []
     \<and> run_local_event no_request no_service 3 FDE_WRITE 2 w = Inr w' \<and> outs w' 3 = [1, 2, 3] \<and> sent w' = [(7, wire A_OKAY 1 9 [])]"
proof -
  let ?ws = "(\<lambda>_. [])(3 := [Room 1, WrErr EINTR, Room 9])"
  let ?k = "local_end\<lparr>pkts := [[1, 2], [3]]\<rparr>"
  obtain w where w: "sock_inv {} w" "socks w = [2 \<mapsto> local_end, 5 \<mapsto> remote_end]" "sent w = []" "wrs w = ?ws"
    "outs w = (\<lambda>_. [])"
    by (rule linked_world [of "\<lambda>_. []" ?ws]) blast
  let ?w = "fd_op (fdevent_add 2 (ucast FDE_WRITE)) (w\<lparr>socks := [2 \<mapsto> ?k, 5 \<mapsto> remote_end]\<rparr>)"
  have i: "sock_inv {} ?w" by (rule backlog_world [OF w(1,2)])
  have s: "socks ?w 2 = Some ?k" "socks ?w 5 = Some remote_end" by (simp_all add: fd_op_def)
  have f: "flush (pkts ?k) (wrs ?w (sk_fd ?k)) = (Done, [1, 2, 3], [], [Room 7])"
    using w(4) by (simp add: fd_op_def push.simps nb_write_def)
  obtain w' where w': "run_local_event no_request no_service 3 FDE_WRITE 2 ?w = Inr w'" "outs w' 3 = [1, 2, 3]"
    "sent w' = [(7, wire A_OKAY 1 9 [])]"
    using write_event_acknowledges [OF i s(1) _ _ _ _ f, of remote_end no_request no_service] s w
    by (auto simp: fd_op_def)
  moreover have "sent ?w = []" "pkts ?k = [[1, 2], [3]]" using w(3) by (simp_all add: fd_op_def)
  ultimately show ?thesis using s(1) by blast
qed

text \<open>C23. Safety of the event function: on a consistent state, whatever the events and whatever the
  descriptor does, an event of a local socket whose peer is a remote socket is handled without
  touching freed memory and leaves a consistent state.\<close>

theorem local_event_safe:
  assumes "sock_inv {} w" and "socks w s = Some k" and "is_local k"
    and "peer k \<noteq> 0 \<Longrightarrow> \<exists>q. socks w (peer k) = Some q \<and> is_remote q"
    and "bit evs 1 \<Longrightarrow> \<not> closing k \<Longrightarrow> peer k \<noteq> 0"
  shows "\<exists>w'. run_local_event hr hs fd evs s w = Inr w' \<and> sock_inv {} w'"
  unfolding run_local_event_def by (rule remote_peer.event_safe [OF assms])

theorem local_event_safe_witness:
  "\<exists>w w'. socks w = [2 \<mapsto> local_end, 5 \<mapsto> remote_end] \<and> rds w 3 = [RdErr EIO]
     \<and> run_local_event no_request no_service 3 (FDE_READ OR FDE_WRITE) 2 w = Inr w' \<and> sock_inv {} w'"
proof -
  let ?rs = "(\<lambda>_. [])(3 := [RdErr EIO])"
  obtain w where w: "sock_inv {} w" "socks w = [2 \<mapsto> local_end, 5 \<mapsto> remote_end]" "rds w = ?rs"
    by (rule linked_world [of ?rs "\<lambda>_. []"]) blast
  with local_event_safe [of w 2 local_end "FDE_READ OR FDE_WRITE" no_request no_service 3] show ?thesis by auto
qed

section \<open>Where the code leaves its contract\<close>

text \<open>Two local sockets, as they are when a client is connected to a service of the host itself.\<close>

definition end_a :: asocket where "end_a = zero_sock\<lparr>sk_fd := 3, sk_id := 1, peer := 4\<rparr>"
definition end_b :: asocket where "end_b = zero_sock\<lparr>sk_fd := 5, sk_id := 2, peer := 2\<rparr>"

text \<open>An address that was never used and a descriptor that no registered object has are fresh.\<close>

lemma fresh_beside:
  assumes ps: "fd_inv e ps" and b: "b \<noteq> 0" "b \<noteq> list_pending" "state (fdes e b) = 0" and fd: "0 \<le> fd" "fd \<le> 32000"
    and o: "\<And>c. bit (state (fdes e c)) 8 \<Longrightarrow> fde_fd (fdes e c) \<noteq> fd"
  shows "fresh_fde b fd e"
proof -
  have "fd_table e ! nat fd = 0" if l: "nat fd < length (fd_table e)"
  proof (rule ccontr)
    assume "fd_table e ! nat fd \<noteq> 0"
    then have "fde_fd (fdes e (fd_table e ! nat fd)) = fd" "bit (state (fdes e (fd_table e ! nat fd))) 8"
      using ps l fd(1) by (auto simp: fd_inv_def table_inv_def)
    with o show False by blast
  qed
  then show ?thesis using b fd by (simp add: fresh_fde_def)
qed

lemma local_pair_world:
  obtains w where "sock_inv {} w" and "socks w = [2 \<mapsto> end_a, 4 \<mapsto> end_b]" and "rds w = rs" and "wrs w = ws"
proof -
  let ?w0 = "world0\<lparr>rds := rs, wrs := ws\<rparr>"
  have i0: "sock_inv {} ?w0"
    using fdst0_inv
    by (auto simp: world0_def sock_inv_def peers_ok_def heap_ok_def lists_ok_def transports_ok_def remote_of_def)
  have f: "fresh_fde 2 3 (ev ?w0)" using fresh_fdst0 by (simp add: world0_def)
  obtain w1 where w1: "create_local_socket 4 (Some (\<lambda>_. 0)) 2 3 ?w0 = Inr w1" "sock_inv {} w1"
    "socks w1 = (socks ?w0)(2 \<mapsto> zero_sock\<lparr>sk_fd := 3, sk_id := next_id ?w0\<rparr>)"
    "next_id w1 = next_id ?w0 + 1" "rds w1 = rds ?w0" "wrs w1 = wrs ?w0"
    "\<And>b. b \<noteq> 2 \<Longrightarrow> fdes (ev w1) b = fdes (ev ?w0) b"
    by (rule create_local_socket_result [OF i0 _ f, of "\<lambda>_. 0"]) (simp_all add: world0_def)
  have f1: "fresh_fde 4 5 (ev w1)"
  proof -
    obtain ps where ps: "fd_inv (ev w1) ps" using w1(2) by (auto simp: sock_inv_def)
    have st: "state (fdes (ev w1) b) = 0" if "b \<noteq> 2" for b using w1(7) [OF that] by (simp add: world0_def fdst0_def)
    have "fde_fd (fdes (ev w1) 2) = 3"
      using sock_invD(5) [OF w1(2), of 2] w1(3) by (simp add: event_ok_def zero_sock_def)
    then have o: "fde_fd (fdes (ev w1) c) \<noteq> 5" if "bit (state (fdes (ev w1) c)) 8" for c
      using st [of c] that by (cases "c = 2") simp_all
    show ?thesis by (rule fresh_beside [OF ps _ _ _ _ _ o]) (simp_all add: st list_pending_def)
  qed
  obtain w2 where w2: "sock_inv {} w2"
    "socks w2 = (socks w1)(4 \<mapsto> zero_sock\<lparr>sk_fd := 5, sk_id := next_id w1\<rparr>)" "rds w2 = rds w1" "wrs w2 = wrs w1"
    by (rule create_local_socket_result [OF w1(2) _ f1, of "\<lambda>_. 0"]) (simp_all add: w1 world0_def)
  have sk: "socks w2 = [2 \<mapsto> end_a\<lparr>peer := 0\<rparr>, 4 \<mapsto> end_b\<lparr>peer := 0\<rparr>]"
    by (simp add: w2 w1 world0_def end_a_def end_b_def fun_eq_iff zero_sock_def)
  obtain ps where ps: "fd_inv (ev w2) ps" using w2(1) by (auto simp: sock_inv_def)
  note d2 = sock_invD [OF w2(1), of 2 "end_a\<lparr>peer := 0\<rparr>"] and d4 = sock_invD [OF w2(1), of 4 "end_b\<lparr>peer := 0\<rparr>"]
  let ?w3 = "w2\<lparr>socks := [2 \<mapsto> end_a, 4 \<mapsto> end_b\<lparr>peer := 0\<rparr>]\<rparr>"
  have i3: "sock_inv {2} ?w3"
  proof (rule inv_modify [OF w2(1), of 2 "end_a\<lparr>peer := 0\<rparr>" _ end_a ps])
    show "sock_ok 2 end_a" by (simp add: sock_ok_def end_a_def zero_sock_def vtable_ok.simps)
    show "event_ok (ev ?w3) 2 end_a" using d2(5) sk by (simp add: event_ok_def end_a_def zero_sock_def)
    show "peers_ok {2} ?w3" by (auto simp: peers_ok_def end_b_def)
  qed (simp_all add: sk ps end_a_def zero_sock_def fun_eq_iff)
  let ?w4 = "w2\<lparr>socks := [2 \<mapsto> end_a, 4 \<mapsto> end_b]\<rparr>"
  have i4: "sock_inv {} ?w4"
  proof (rule inv_modify [OF i3, of 4 "end_b\<lparr>peer := 0\<rparr>" _ end_b ps])
    show "sock_ok 4 end_b" by (simp add: sock_ok_def end_b_def zero_sock_def vtable_ok.simps)
    show "event_ok (ev ?w4) 4 end_b" using d4(5) sk by (simp add: event_ok_def end_b_def zero_sock_def)
    show "peers_ok {} ?w4" by (auto simp: peers_ok_def end_b_def end_a_def)
  qed (simp_all add: ps end_b_def zero_sock_def fun_eq_iff)
  show thesis by (rule that [OF i4]) (simp_all add: w2 w1)
qed

text \<open>The failure answer of \<open>local_socket_enqueue\<close>: when the peer of a local socket is itself a local
  socket and its descriptor is broken, the peer closes both ends and still returns 1; the event
  function of the first takes that for a full queue and uses its freed socket.\<close>

theorem local_pair_use_after_free:
  assumes inv: "sock_inv {} w" and s: "socks w s = Some k" "is_local k" "pkts k = []"
    and q: "socks w (peer k) = Some q" "is_local q" "pkts q = []"
    and sl: "slurp MAX_PAYLOAD (rds w fd) = (bs, r, eof, evs)" "bs \<noteq> []"
    and br: "push False bs (wrs w (sk_fd q)) = (Broken, out, left, evs')"
  shows "run_local_event hr hs fd FDE_READ s w = Inl (UseAfterFree s)"
proof -
  have p: "peer k \<noteq> 0" by (rule sock_invD(1) [OF inv q(1)])
  have s0: "s \<noteq> 0" by (rule sock_invD(1) [OF inv s(1)])
  have ps: "peer q = s" "peer k \<noteq> s" using peer_alive [OF inv s(1) _ p] q by fastforce+
  let ?w1 = "w\<lparr>rds := (rds w)(fd := evs)\<rparr>"
  let ?w2 = "put_out (sk_fd q) out evs' ?w1"
  have i2: "sock_inv {} ?w2" "socks ?w2 (peer k) = Some q" using inv q by simp_all
  obtain w3 where w3: "call_close (peer k) ?w2 = Inr w3"
    "socks w3 = (socks ?w2)(s := Option.bind (socks ?w2 s) after_close, peer k := after_close q)"
    using close_any [OF i2, of 0] ps s0 by (auto simp: numeral_2_eq_2)
  have "socks w3 s = None" using w3(2) s q ps by (simp add: after_close_def)
  then have d: "deref s w3 = Inl (UseAfterFree s)" using s0 by (simp add: deref_def)
  have "local_socket_enqueue_fn call_close (peer k) bs ?w1 = Inr (1, w3)"
    using q p br w3(1) by (simp add: local_socket_enqueue_fn_def sock_simps)
  then have "call_enqueue hr hs (peer k) bs ?w1 = Inr (1, w3)"
    using q p by (simp add: call_enqueue_def numeral_2_eq_2 enqueue_sock.simps(2) sock_simps)
  then show ?thesis
    using s s0 sl p q d
    by (simp add: run_local_event_def local_socket_event_def event_read_def sock_simps Let_def)
qed

theorem local_pair_use_after_free_witness:
  "\<exists>w. socks w = [2 \<mapsto> end_a, 4 \<mapsto> end_b] \<and> rds w 3 = [Avail [104]] \<and> wrs w 5 = [WrErr EIO]
     \<and> run_local_event no_request no_service 3 FDE_READ 2 w = Inl (UseAfterFree 2)"
proof -
  let ?rs = "(\<lambda>_. [])(3 := [Avail [104]])"
  let ?ws = "(\<lambda>_. [])(5 := [WrErr EIO])"
  obtain w where w: "sock_inv {} w" "socks w = [2 \<mapsto> end_a, 4 \<mapsto> end_b]" "rds w = ?rs" "wrs w = ?ws"
    by (rule local_pair_world [of ?rs ?ws])
  have s: "slurp MAX_PAYLOAD (rds w 3) = ([104], - 1, False, [])"
    using w(3) by (simp add: slurp.simps nb_read_def MAX_PAYLOAD_def)
  have b: "push False [104] (wrs w (sk_fd end_b)) = (Broken, [], [104], [])"
    using w(4) by (simp add: push.simps nb_write_def end_b_def)
  have "run_local_event no_request no_service 3 FDE_READ 2 w = Inl (UseAfterFree 2)"
    by (rule local_pair_use_after_free [OF w(1), of 2 end_a end_b, OF _ _ _ _ _ _ s _ b])
      (simp_all add: w(2) end_a_def end_b_def zero_sock_def)
  with w show ?thesis by auto
qed

text \<open>A device that sends data before it has answered the OPEN crashes the server: the data is
  queued on a socket that has no peer yet, and when the queue drains the event function calls the
  \<open>ready\<close> of the null peer.\<close>

theorem early_data_null_pointer:
  assumes inv: "sock_inv {} w" and s: "socks w s = Some k" "is_local k" "\<not> closing k" "peer k = 0"
    and fl: "fst (flush (pkts k) (wrs w fd)) = Done"
  shows "run_local_event hr hs fd FDE_WRITE s w = Inl NullPointer"
proof -
  have s0: "s \<noteq> 0" by (rule sock_invD(1) [OF inv s(1)])
  obtain out left evs where f: "flush (pkts k) (wrs w fd) = (Done, out, left, evs)"
    using fl by (cases "flush (pkts k) (wrs w fd)") auto
  have "\<And>w'. deref 0 w' = Inl NullPointer" by (simp add: deref_def)
  then show ?thesis
    using s s0 f by (simp add: run_local_event_def local_socket_event_def event_write_def sock_simps set_pkts_def Let_def)
qed

theorem early_data_null_pointer_witness:
  "\<exists>w k. sock_inv {} w \<and> socks w 2 = Some k \<and> peer k = 0
     \<and> run_local_event no_request no_service 3 FDE_WRITE 2 w = Inl NullPointer"
proof -
  have f: "fresh_fde 2 3 (ev world0)" using fresh_fdst0 by (simp add: world0_def)
  obtain w where w: "sock_inv {} w" "socks w = (socks world0)(2 \<mapsto> zero_sock\<lparr>sk_fd := 3, sk_id := next_id world0\<rparr>)"
    by (rule create_local_socket_result [OF world0_inv _ f, of "\<lambda>_. 0"]) (simp_all add: world0_def)
  have s: "socks w 2 = Some (zero_sock\<lparr>sk_fd := 3, sk_id := next_id world0\<rparr>)" using w(2) by simp
  have "run_local_event no_request no_service 3 FDE_WRITE 2 w = Inl NullPointer"
    by (rule early_data_null_pointer [OF w(1) s]) (simp_all add: zero_sock_def)
  with w(1) s show ?thesis by (intro exI [of _ w] exI [of _ "zero_sock\<lparr>sk_fd := 3, sk_id := next_id world0\<rparr>"])
    (simp add: zero_sock_def)
qed

text \<open>C35. Losing a transport: \<open>close_all_sockets\<close> returns after at most one round per socket and leaves
  no local socket that uses the transport, itself or through its peer.  The state is one in which no socket
  that still waits for its connection has data queued for its client (\<open>quiet\<close>): early data of a device would make one.\<close>

theorem close_all_sockets_clears:
  assumes "sock_inv {} w" and "quiet w"
  shows "\<exists>w'. close_all_sockets (Suc (length (local_list w))) t w = Inr w' \<and> sock_inv {} w'
    \<and> (\<forall>s \<in> set (local_list w'). \<not> on_transport t w' s)"
  by (rule close_all_sockets_result [OF assms]) simp

theorem close_all_sockets_clears_witness:
  "\<exists>w w'. local_list w = [2] \<and> on_transport 7 w 2 \<and> close_all_sockets 2 7 w = Inr w' \<and> local_list w' = []"
proof -
  obtain w where w: "sock_inv {} w" "socks w = [2 \<mapsto> local_end, 5 \<mapsto> remote_end]" "local_list w = [2]"
    by (rule linked_world) blast
  have q: "quiet w" using w(2) by (auto simp: quiet_def remote_end_def remote_sock_def split: if_splits)
  have "Suc (length (local_list w)) = 2" using w(3) by simp
  then obtain w' where w': "close_all_sockets 2 7 w = Inr w'" "sock_inv {} w'"
    "\<forall>s \<in> set (local_list w'). \<not> on_transport 7 w' s"
    using close_all_sockets_clears [OF w(1) q, of 7] by metis
  have on: "on_transport 7 w 2" using w(2) by (simp add: on_transport_def)
  obtain w1 where w1: "local_socket_close_locked call_close 2 w = Inr w1" "sock_inv {} w1"
    "length (local_list w1) < length (local_list w)"
    using close_locked_any [OF w(1) q, of 2] w(3) by auto
  then have "local_list w1 = []" using w(3) by simp
  moreover have "close_all_sockets 2 7 w = close_all_sockets 1 7 w1"
    using on w(3) w1(1) by (simp add: numeral_2_eq_2)
  ultimately have "w' = w1" using w'(1) by simp
  with on w(3) w'(1) \<open>local_list w1 = []\<close> show ?thesis by blast
qed

section \<open>Requests\<close>

definition framed :: "byte list \<Rightarrow> byte list" where
  "framed str = hex4 (length str) @ str"

text \<open>Several packets that arrive at a socket one after the other: the results of the calls and the last state.\<close>

fun enqueue_each ::
    "(nat \<Rightarrow> byte list \<Rightarrow> world \<Rightarrow> halt + (int \<times> world)) \<Rightarrow> nat \<Rightarrow> byte list list \<Rightarrow> world
       \<Rightarrow> halt + (int list \<times> world)" where
  "enqueue_each enq s [] w = Inr ([], w)"
| "enqueue_each enq s (p # ps) w = sbind (enq s p w) (\<lambda>(r, w1).
     sbind (enqueue_each enq s ps w1) (\<lambda>(rs, w2). Inr (r # rs, w2)))"

lemma unat_small: "m \<le> 2000 \<Longrightarrow> unat (word_of_nat m :: u32) = m"
  by (simp add: unat_of_nat take_bit_nat_eq_self)

lemma scan_request_prefix:
  assumes "framed str = b @ rest" and "rest \<noteq> []" and "1 \<le> length str" and "length str \<le> 1024"
  shows "scan_request (Some b) = More"
proof (cases "length b < 4")
  case True
  then show ?thesis by (simp add: scan_request_def)
next
  case False
  have h: "take 4 b = hex4 (length str)"
  proof -
    have "take 4 (framed str) = take 4 b" using False assms(1) by simp
    then show ?thesis by (simp add: framed_def)
  qed
  have l: "length b < 4 + length str"
    using arg_cong [OF assms(1), of length] assms(2) by (cases rest) (auto simp: framed_def)
  have u: "unat (word_of_nat (length str) + 4 :: u32) = length str + 4"
    "\<not> (word_of_nat (length str) :: u32) < 1" "\<not> (1024 :: u32) < word_of_nat (length str)"
  proof -
    have a: "unat (word_of_nat (length str) :: u32) = length str"
      using assms(4) by (simp add: unat_of_nat take_bit_nat_eq_self)
    then show "\<not> (word_of_nat (length str) :: u32) < 1" "\<not> (1024 :: u32) < word_of_nat (length str)"
      using assms(3,4) by (auto simp: word_less_nat_alt)
    show "unat (word_of_nat (length str) + 4 :: u32) = length str + 4"
      using unat_small [of "length str + 4"] assms(4) by simp
  qed
  show ?thesis
    using False h l u assms(4) by (simp add: scan_request_def Let_def)
qed

lemma scan_request_whole:
  assumes "1 \<le> length str" and "length str \<le> 1024" and "0 \<notin> set str"
  shows "scan_request (Some (framed str)) = Request str"
proof -
  have a: "unat (word_of_nat (length str) :: u32) = length str"
    using assms(2) by (simp add: unat_of_nat take_bit_nat_eq_self)
  then have b: "\<not> (word_of_nat (length str) :: u32) < 1" "\<not> (1024 :: u32) < word_of_nat (length str)"
    using assms(1,2) by (auto simp: word_less_nat_alt)
  have c: "unat (word_of_nat (length str) + 4 :: u32) = length str + 4"
    using unat_small [of "length str + 4"] assms(2) by simp
  show ?thesis
    using a b c assms by (simp add: scan_request_def framed_def Let_def cstr_id)
qed

text \<open>What the smart socket does with the packet that completes the request: the buffer holds all of it.\<close>

definition whole_request ::
    "host_request \<Rightarrow> host_service \<Rightarrow> (nat \<Rightarrow> world \<Rightarrow> halt + world) \<Rightarrow> (nat \<Rightarrow> world \<Rightarrow> halt + world)
       \<Rightarrow> nat \<Rightarrow> byte list \<Rightarrow> world \<Rightarrow> halt + (int \<times> world)" where
  "whole_request hr hs cl rdy s str w = (case parse_request str of
       Some (service, sn, tt) \<Rightarrow> smart_host hr hs cl rdy s service sn tt w
     | None \<Rightarrow> smart_device cl s str w)"

lemma smart_enqueue_last:
  assumes "s \<noteq> 0" and "socks w s = Some k" and "collect (pkts k) p = Some (framed str)"
    and "1 \<le> length str" and "length str \<le> 1024" and "0 \<notin> set str"
  shows "smart_socket_enqueue_fn hr hs cl rdy s p w =
    whole_request hr hs cl rdy s str (w\<lparr>socks := (socks w)(s \<mapsto> k\<lparr>pkts := [framed str]\<rparr>)\<rparr>)"
  using assms(1-3) scan_request_whole [OF assms(4-6)]
  by (simp add: smart_socket_enqueue_fn_def Let_def sock_simps set_pkts_def whole_request_def)

lemma smart_enqueue_more:
  assumes "s \<noteq> 0" and "socks w s = Some k" and "collect (pkts k) p = Some b" and "scan_request (Some b) = More"
  shows "smart_socket_enqueue_fn hr hs cl rdy s p w = Inr (0, w\<lparr>socks := (socks w)(s \<mapsto> k\<lparr>pkts := [b]\<rparr>)\<rparr>)"
  using assms by (simp add: smart_socket_enqueue_fn_def Let_def sock_simps set_pkts_def)

lemma collect_buffer:
  assumes "ps = [] \<and> b = [] \<or> ps = [b]" and "length b + length p \<le> MAX_PAYLOAD"
  shows "collect ps p = Some (b @ p)"
  using assms by (auto simp: collect_def)

lemma smart_fragments:
  assumes s: "s \<noteq> 0" and str: "1 \<le> length str" "length str \<le> 1024" "0 \<notin> set str"
    and k: "socks w s = Some k" "pkts k = [] \<and> b = [] \<or> pkts k = [b]"
    and f: "b @ concat ps @ p = framed str" "p \<noteq> []"
  shows "enqueue_each (smart_socket_enqueue_fn hr hs cl rdy) s (ps @ [p]) w =
    sbind (whole_request hr hs cl rdy s str (w\<lparr>socks := (socks w)(s \<mapsto> k\<lparr>pkts := [framed str]\<rparr>)\<rparr>))
    (\<lambda>(r, w'). Inr (replicate (length ps) 0 @ [r], w'))"
  using k f(1)
proof (induction ps arbitrary: w k b)
  case Nil
  have "length b + length p \<le> MAX_PAYLOAD"
    using arg_cong [OF Nil.prems(3), of length] str(2) by (simp add: framed_def MAX_PAYLOAD_def)
  with Nil.prems have c: "collect (pkts k) p = Some (framed str)" using collect_buffer [OF Nil.prems(2)] by simp
  have l: "smart_socket_enqueue_fn hr hs cl rdy s p w =
      whole_request hr hs cl rdy s str (w\<lparr>socks := (socks w)(s \<mapsto> k\<lparr>pkts := [framed str]\<rparr>)\<rparr>)"
    by (rule smart_enqueue_last [OF s Nil.prems(1) c str])
  show ?case unfolding append_Nil enqueue_each.simps l by (simp add: fun_upd_def case_prod_beta')
next
  case (Cons q ps)
  have "length b + length q \<le> MAX_PAYLOAD"
    using arg_cong [OF Cons.prems(3), of length] str(2) by (simp add: framed_def MAX_PAYLOAD_def)
  then have c: "collect (pkts k) q = Some (b @ q)" by (rule collect_buffer [OF Cons.prems(2)])
  have m: "scan_request (Some (b @ q)) = More"
    by (rule scan_request_prefix [where rest = "concat ps @ p"]) (use Cons.prems(3) f(2) str in simp_all)
  let ?k = "k\<lparr>pkts := [b @ q]\<rparr>"
  let ?w = "w\<lparr>socks := (socks w)(s \<mapsto> ?k)\<rparr>"
  have "socks ?w s = Some ?k" by simp
  moreover have "pkts ?k = [] \<and> b @ q = [] \<or> pkts ?k = [b @ q]" by simp
  moreover have "(b @ q) @ concat ps @ p = framed str" using Cons.prems(3) by simp
  ultimately have ih: "enqueue_each (smart_socket_enqueue_fn hr hs cl rdy) s (ps @ [p]) ?w =
    sbind (whole_request hr hs cl rdy s str (?w\<lparr>socks := (socks ?w)(s \<mapsto> ?k\<lparr>pkts := [framed str]\<rparr>)\<rparr>))
    (\<lambda>(r, w'). Inr (replicate (length ps) 0 @ [r], w'))" by (rule Cons.IH)
  show ?case
    by (simp add: smart_enqueue_more [OF s Cons.prems(1) c m] ih) (simp add: fun_upd_def sbind_def split: sum.split)
qed

text \<open>C29. Requests survive fragmentation: however a client's framed request is cut into packets, the calls of
  \<open>smart_socket_enqueue\<close> for all pieces but the last return 0 and only collect, and the last one does what the
  whole request asks for, a service of the host or of the device, with the whole request in the buffer.  The
  buffer is empty before, as in a new smart socket and after a \<open>transport\<close> request; the request has between
  1 and 1024 bytes and no zero.\<close>

theorem request_any_fragmentation:
  assumes "s \<noteq> 0" and "socks w s = Some k" and "pkts k = [] \<or> pkts k = [[]]"
    and "concat ps @ p = framed str" and "p \<noteq> []" and "1 \<le> length str" and "length str \<le> 1024" and "0 \<notin> set str"
  shows "enqueue_each (smart_socket_enqueue_fn hr hs cl rdy) s (ps @ [p]) w =
    sbind (whole_request hr hs cl rdy s str (w\<lparr>socks := (socks w)(s \<mapsto> k\<lparr>pkts := [framed str]\<rparr>)\<rparr>))
    (\<lambda>(r, w'). Inr (replicate (length ps) 0 @ [r], w'))"
  by (rule smart_fragments [where b = "[]"]) (use assms in auto)

text \<open>A request for the device in three pieces, when no device is chosen: the client is told and the socket is closed.\<close>

theorem request_any_fragmentation_witness:
  "\<exists>w. enqueue_each (smart_socket_enqueue_fn no_request no_service (\<lambda>_ w. Inr w) (\<lambda>_ w. Inr w)) 4
       [ascii ''00'', ascii ''02'', ascii ''hi''] w = Inr ([0, 0, - 1],
     snd (sendfailmsg 3 (ascii ''device offline (x)'') (w\<lparr>socks := (socks w)(4 \<mapsto>
       (zero_sock\<lparr>enqueue := smart_socket_enqueue, peer := 2, pkts := [ascii ''0002hi'']\<rparr>))\<rparr>)))"
proof -
  let ?k = "zero_sock\<lparr>enqueue := smart_socket_enqueue, peer := 2\<rparr>"
  let ?w = "world0\<lparr>socks := [2 \<mapsto> local_end, 4 \<mapsto> ?k]\<rparr>"
  have f: "framed (ascii ''hi'') = ascii ''0002hi''" by (simp add: framed_def hex4_def hex_digit_def ascii_def)
  have pr: "parse_request (ascii ''hi'') = None" by (simp add: parse_request_def starts_def ascii_def)
  let ?w1 = "?w\<lparr>socks := (socks ?w)(4 \<mapsto> ?k\<lparr>pkts := [framed (ascii ''hi'')]\<rparr>)\<rparr>"
  have dv: "smart_device (\<lambda>_ w. Inr w) 4 (ascii ''hi'') ?w1
      = Inr (- 1, snd (sendfailmsg 3 (ascii ''device offline (x)'') ?w1))"
    by (simp add: smart_device_def sock_simps smart_fail_def Let_def zero_sock_def local_end_def)
  have "enqueue_each (smart_socket_enqueue_fn no_request no_service (\<lambda>_ w. Inr w) (\<lambda>_ w. Inr w)) 4
      ([ascii ''00'', ascii ''02''] @ [ascii ''hi'']) ?w = Inr ([0, 0, - 1], snd (sendfailmsg 3 (ascii ''device offline (x)'') ?w1))"
    by (subst request_any_fragmentation [where k = ?k and str = "ascii ''hi''"])
      (simp_all only: whole_request_def pr dv option.case, simp_all add: f, simp_all add: ascii_def zero_sock_def)
  then show ?thesis using f by (intro exI [of _ ?w]) simp
qed

text \<open>Addressing a device: a serial number without colons, or of the form \<open>host:port\<close>, is separated
  from the service it is followed by.\<close>

theorem host_serial_split:
  assumes "58 \<notin> set host" and "\<forall>c \<in> set port. is_digit c" and "find (\<lambda>p. starts p (host @ sep @ port @ 58 # service)) prefixes = None"
    and "(sep = [58] \<and> port \<noteq> []) \<or> (sep = [] \<and> port = [] \<and> (service = [] \<or> \<not> is_digit (hd service)))"
  shows "parse_request (ascii ''host-serial:'' @ host @ sep @ port @ 58 # service) =
    Some (service, Some (host @ sep @ port), kTransportAny)"
proof -
  have h: "colon_at (host @ 58 # r) = Some (length host)" for r using assms(1) by (induction host) auto
  have nd: "\<not> is_digit 58" by (simp add: is_digit_def)
  have p: "starts (ascii ''host-serial:'') (ascii ''host-serial:'' @ x)" for x by (simp add: starts_def)
  have d: "drop 12 (ascii ''host-serial:'' @ x) = x" for x by simp
  from assms(4) have "skip_host_serial (host @ sep @ port @ 58 # service) = Some (length (host @ sep @ port))"
  proof
    assume a: "sep = [58] \<and> port \<noteq> []"
    have "takeWhile is_digit (port @ 58 # service) = port"
      using assms(2) nd by (subst takeWhile_append2) auto
    then show ?thesis
      using a assms(3) h [of "port @ 58 # service"] by (simp add: skip_host_serial_def nth_append)
  next
    assume a: "sep = [] \<and> port = [] \<and> (service = [] \<or> \<not> is_digit (hd service))"
    then have "takeWhile is_digit service = []" by (cases service) auto
    then show ?thesis using a assms(3) h [of service] by (simp add: skip_host_serial_def)
  qed
  then show ?thesis by (simp add: parse_request_def p d Let_def)
qed

theorem host_serial_split_witness:
  "parse_request (ascii ''host-serial:10.0.0.1:5555:features'') =
     Some (ascii ''features'', Some (ascii ''10.0.0.1:5555''), kTransportAny)"
  using host_serial_split [of "ascii ''10.0.0.1''" "ascii ''5555''" "[58]" "ascii ''features''"]
  by (simp add: ascii_def starts_def prefixes_def is_digit_def)

text \<open>The hand-over to the device: a request that is not for the host sends OPEN with the id of the
  client's socket and the terminated destination, makes that socket report the device's answer, and
  frees the smart socket; the client's socket stays, without a peer until the device answers.\<close>

theorem device_request_opens:
  assumes inv: "sock_inv {} w" and s: "socks w s = Some k" "enqueue k = smart_socket_enqueue"
    and q: "socks w (peer k) = Some q" "is_local q"
    and t: "transports w (sk_transport k) = Some x" "connection_state x \<noteq> CS_OFFLINE"
    and n: "length dest + 1 < MAX_PAYLOAD"
  shows "\<exists>w'. smart_device call_close s dest w = Inr (1, w') \<and> sock_inv {} w'
    \<and> sent w' = sent w @ [(sk_transport k, wire A_OPEN (sk_id q) 0 (dest @ [0]))]
    \<and> socks w' = (socks w)(s := None, peer k := Some (q\<lparr>ready := local_socket_ready_notify,
        close := local_socket_close_notify, peer := 0, sk_transport := sk_transport k\<rparr>))"
proof -
  have p: "peer k \<noteq> 0" by (rule sock_invD(1) [OF inv q(1)])
  have s0: "s \<noteq> 0" by (rule sock_invD(1) [OF inv s(1)])
  have ps: "peer q = s" "peer k \<noteq> s" using peer_alive [OF inv s(1) _ p] q by fastforce+
  have t0: "sk_transport k \<noteq> 0" "open_end x" using inv t(1) by (auto simp: sock_inv_def transports_ok_def)
  note d = sock_invD [OF inv q(1)]
  obtain qs where qs: "fd_inv (ev w) qs" using inv by (auto simp: sock_inv_def)
  have pk: "peers_ok {} w" using inv by (simp add: sock_inv_def)
  let ?q = "q\<lparr>ready := local_socket_ready_notify, close := local_socket_close_notify, peer := 0,
     sk_transport := sk_transport k\<rparr>"
  let ?w1 = "w\<lparr>socks := (socks w)(peer k \<mapsto> ?q)\<rparr>"
  have i1: "sock_inv {s} ?w1"
  proof (rule inv_modify [OF inv q(1), where k' = ?q and qs = qs])
    show "sock_ok (peer k) ?q" using d(4) ps s0 q(2) by (auto simp: sock_ok_def vtable_ok.simps)
    show "event_ok (ev ?w1) (peer k) ?q" using d(5) by (simp add: event_ok_def)
    have "peers_ok {s} (w\<lparr>socks := (socks w)(peer k \<mapsto> q\<lparr>peer := 0\<rparr>)\<rparr>)"
      using peers_ok_clear [OF pk s(1) _ refl p q(1)] by simp
    then show "peers_ok {s} ?w1" by (rule peers_ok_same) simp
  qed (use q(2) in \<open>simp_all add: qs\<close>)
  let ?w2 = "?w1\<lparr>sent := sent w @ [(sk_transport k, wire A_OPEN (sk_id q) 0 (dest @ [0]))]\<rparr>"
  have c: "connect_to_remote (peer k) dest ?w1 = Inr ?w2"
    using p t t0 n by (simp add: connect_to_remote_def deref_def send_packet_wire)
  have i2: "sock_inv {s} ?w2" "socks ?w2 s = Some k" using i1 s ps by simp_all
  have np: "peer b \<noteq> s" if b: "socks ?w2 a = Some b" for a b
  proof (cases "a = peer k")
    case True
    then show ?thesis using b s0 by auto
  next
    case False
    then have "socks w a = Some b" using b by simp
    then show ?thesis using pk s s0 False unfolding peers_ok_def by force
  qed
  let ?k = "k\<lparr>peer := 0\<rparr>"
  let ?w3 = "?w2\<lparr>socks := (socks ?w2)(s \<mapsto> ?k)\<rparr>"
  have i3: "sock_inv {} ?w3" by (rule clear_own_peer [OF i2 np])
  obtain w' where w': "call_close s ?w3 = Inr w'" "sock_inv {} w'" "leaf_result s ?k 0 ?w3 w'"
    using close_leaf [OF i3, of s ?k 1] by (auto simp: numeral_2_eq_2)
  have "smart_device call_close s dest w = Inr (1, w')"
    using s s0 q p t t0 ps c w'(1)
    by (simp add: smart_device_def sock_simps deref_transport_def Let_def deref_def set_sock_def)
  moreover have "sent w' = sent ?w2" "socks w' = (socks ?w3)(s := None)"
    using w'(3) s(2) by (simp_all add: leaf_result_def close_msgs_def after_close_def)
  ultimately show ?thesis
    using w'(2) ps by (intro exI [of _ w']) (simp add: fun_upd_twist)
qed

definition client_end :: asocket where "client_end = zero_sock\<lparr>sk_fd := 3, sk_id := 1, peer := 6\<rparr>"
definition smart_end :: asocket where
  "smart_end = zero_sock\<lparr>enqueue := smart_socket_enqueue, ready := smart_socket_ready, close := smart_socket_close,
     peer := 2, sk_transport := 7\<rparr>"

lemma smart_world:
  obtains w where "sock_inv {} w" and "socks w = [2 \<mapsto> client_end, 6 \<mapsto> smart_end]" and "transports w = [7 \<mapsto> sample_transport]"
    and "sent w = []" and "outs w = (\<lambda>_. [])" and "fde_fd (fdes (ev w) 2) = 3"
    and "\<And>b. b \<noteq> 2 \<Longrightarrow> state (fdes (ev w) b) = 0"
proof -
  let ?w0 = "world0\<lparr>transports := [7 \<mapsto> sample_transport], rds := \<lambda>_. [], wrs := \<lambda>_. []\<rparr>"
  have i0: "sock_inv {} ?w0" by (rule world_with_transport)
  have f: "fresh_fde 2 3 (ev ?w0)" using fresh_fdst0 by (simp add: world0_def)
  obtain w1 where w1: "sock_inv {} w1"
    "socks w1 = (socks ?w0)(2 \<mapsto> zero_sock\<lparr>sk_fd := 3, sk_id := next_id ?w0\<rparr>)" "local_list w1 = local_list ?w0 @ [2]"
    "transports w1 = transports ?w0" "trackers w1 = trackers ?w0" "closing_list w1 = closing_list ?w0" "sent w1 = sent ?w0"
    "outs w1 = outs ?w0" "\<And>b. b \<noteq> 2 \<Longrightarrow> fdes (ev w1) b = fdes (ev ?w0) b"
    by (rule create_local_socket_result [OF i0 _ f, of "\<lambda>_. 0"]) (simp_all add: world0_def)
  have f2: "fde_fd (fdes (ev w1) 2) = 3" using sock_invD(5) [OF w1(1), of 2] w1(2) by (simp add: event_ok_def zero_sock_def)
  let ?w = "w1\<lparr>socks := [2 \<mapsto> client_end, 6 \<mapsto> smart_end]\<rparr>"
  have e: "event_ok (ev w1) 2 client_end"
    using sock_invD(5) [OF w1(1), of 2] w1(2) by (simp add: event_ok_def client_end_def zero_sock_def)
  have "sock_inv {} ?w"
    unfolding sock_inv_def
  proof (intro conjI)
    show "peers_ok {} ?w" by (auto simp: peers_ok_def client_end_def smart_end_def)
    show "heap_ok ?w"
      using e by (auto simp: heap_ok_def sock_ok_def event_ok_def client_end_def smart_end_def zero_sock_def vtable_ok.simps)
    show "lists_ok ?w" using w1 by (auto simp: lists_ok_def world0_def client_end_def smart_end_def zero_sock_def)
    show "transports_ok ?w" using w1(4)
      by (auto simp: transports_ok_def remote_of_def sample_transport_def client_end_def smart_end_def zero_sock_def)
    show "\<exists>ps. fd_inv (ev ?w) ps" using w1(1) by (auto simp: sock_inv_def)
  qed
  then show thesis by (rule that) (simp_all add: w1 f2 world0_def fdst0_def)
qed

theorem device_request_opens_witness:
  "\<exists>w w'. socks w = [2 \<mapsto> client_end, 6 \<mapsto> smart_end] \<and> sent w = []
     \<and> smart_device call_close 6 (ascii ''shell:ls'') w = Inr (1, w')
     \<and> sent w' = [(7, wire A_OPEN 1 0 (ascii ''shell:ls'' @ [0]))] \<and> socks w' 6 = None"
proof -
  obtain w where w: "sock_inv {} w" "socks w = [2 \<mapsto> client_end, 6 \<mapsto> smart_end]" "transports w = [7 \<mapsto> sample_transport]"
    "sent w = []" by (rule smart_world) blast
  have k: "socks w 6 = Some smart_end" "socks w (peer smart_end) = Some client_end" "enqueue smart_end = smart_socket_enqueue"
    "is_local client_end" "transports w (sk_transport smart_end) = Some sample_transport"
    using w by (simp_all add: smart_end_def client_end_def zero_sock_def)
  obtain w' where "smart_device call_close 6 (ascii ''shell:ls'') w = Inr (1, w')"
    "sent w' = sent w @ [(sk_transport smart_end, wire A_OPEN (sk_id client_end) 0 (ascii ''shell:ls'' @ [0]))]"
    "socks w' 6 = None"
    using device_request_opens [OF w(1) k(1,3,2,4,5), of "ascii ''shell:ls''"]
    by (auto simp: sample_transport_def cs_defs MAX_PAYLOAD_def smart_end_def)
  with w show ?thesis by (intro exI [of _ w] exI [of _ w']) (simp add: smart_end_def client_end_def)
qed

end
