(* ===== verification/Conn.thy ===== *)
theory Conn
  imports Sysio "HOL-Library.Monad_Syntax"
begin

text \<open>
  The connection that a device service is given (\<open>int fd\<close>): the script of what will arrive on it, the
  script of what it will accept, and the bytes it has accepted.  A result \<open>None\<close> of an operation is a
  call that never returns.  The other system calls of a service are requests to an environment \<open>os\<close>,
  a function from the history of requests to the answer to the last one; the history is the field
  \<open>trace\<close>, so that a theorem can say which calls were made and in which order.
\<close>

record conn =
  cin :: "rd_ev list"
  cout :: "wr_ev list"
  cput :: "byte list"

definition conn_readx :: "nat \<Rightarrow> 'a conn_scheme \<Rightarrow> (int \<times> byte list \<times> 'a conn_scheme) option" where
  "conn_readx n c = map_option (\<lambda>((r, bs), evs). (r, bs, c\<lparr>cin := evs\<rparr>)) (readx n (cin c))"

definition conn_writex :: "byte list \<Rightarrow> 'a conn_scheme \<Rightarrow> (int \<times> 'a conn_scheme) option" where
  "conn_writex bs c = map_option (\<lambda>((r, out), evs). (r, c\<lparr>cout := evs, cput := cput c @ out\<rparr>)) (writex bs (cout c))"

text \<open>The bytes that are still to be read.\<close>

abbreviation unread :: "'a conn_scheme \<Rightarrow> byte list" where
  "unread c \<equiv> pending (cin c)"

abbreviation space :: "'a conn_scheme \<Rightarrow> nat" where
  "space c \<equiv> room (cout c)"

lemma conn_readx_ok:
  assumes "conn_readx n c = Some (0, bs, c')"
  shows "unread c = bs @ unread c'" and "length bs = n" and "c' = c\<lparr>cin := cin c'\<rparr>"
proof -
  obtain evs where r: "readx n (cin c) = Some ((0, bs), evs)" and c': "c' = c\<lparr>cin := evs\<rparr>"
    using assms by (auto simp: conn_readx_def)
  from readx_consumes [OF r] c' show "unread c = bs @ unread c'" "length bs = n" "c' = c\<lparr>cin := cin c'\<rparr>" by simp_all
qed

lemma conn_readx_frame:
  assumes "conn_readx n c = Some (r, bs, c')"
  shows "cput c' = cput c" "cout c' = cout c" "conn.more c' = conn.more c"
  using assms by (auto simp: conn_readx_def)

text \<open>Reading what is there, writing what fits.\<close>

lemma conn_readx_have:
  assumes "unread c = bs @ rest" and "length bs = n"
  obtains c' where "conn_readx n c = Some (0, bs, c')" and "unread c' = rest" and "c' = c\<lparr>cin := cin c'\<rparr>"
proof -
  have "n \<le> length (unread c)" using assms by simp
  from readx_complete [OF this] assms obtain evs where
    "readx n (cin c) = Some ((0, bs), evs)" "pending evs = rest" by auto
  then show thesis by (intro that [of "c\<lparr>cin := evs\<rparr>"]) (simp_all add: conn_readx_def)
qed

lemma conn_writex_fits:
  assumes "length bs \<le> space c"
  obtains c' where "conn_writex bs c = Some (0, c')" and "cput c' = cput c @ bs" and "space c' = space c - length bs"
    and "c' = c\<lparr>cout := cout c', cput := cput c'\<rparr>"
proof -
  from writex_complete [OF assms] obtain evs where
    "writex bs (cout c) = Some ((0, bs), evs)" "room evs = space c - length bs" by blast
  then show thesis by (intro that [of "c\<lparr>cout := evs, cput := cput c @ bs\<rparr>"]) (simp_all add: conn_writex_def)
qed

lemma conn_writex_frame:
  assumes "conn_writex bs c = Some (r, c')"
  shows "cin c' = cin c" "conn.more c' = conn.more c" "\<exists>n. cput c' = cput c @ take n bs" "r = 0 \<longleftrightarrow> cput c' = cput c @ bs"
    "r = 0 \<or> r = - 1"
proof -
  obtain out evs where w: "writex bs (cout c) = Some ((r, out), evs)" and c': "c' = c\<lparr>cout := evs, cput := cput c @ out\<rparr>"
    using assms by (auto simp: conn_writex_def)
  from writex_prefix [OF w] have p: "r = 0 \<and> out = bs \<or> r = - 1 \<and> length out < length bs \<and> out = take (length out) bs" .
  show "cin c' = cin c" "conn.more c' = conn.more c" using c' by simp_all
  from p show "\<exists>n. cput c' = cput c @ take n bs"
  proof
    assume "r = 0 \<and> out = bs"
    then show ?thesis using c' by (intro exI [of _ "length bs"]) simp
  next
    assume "r = - 1 \<and> length out < length bs \<and> out = take (length out) bs"
    then show ?thesis using c' by (intro exI [of _ "length out"]) simp
  qed
  show "r = 0 \<longleftrightarrow> cput c' = cput c @ bs" "r = 0 \<or> r = - 1" using p c' by auto
qed

end
