(* ===== verification/FileSync.thy ===== *)
theory FileSync
  imports Conn
begin

text \<open>
  The file transfer service of the device (\<open>adb/file_sync_service.c\<close>, \<open>adb/file_sync_service.h\<close>): the
  command loop \<open>file_sync_service\<close> and the commands STAT, LIST, SEND and RECV.  The state is the
  connection of \<open>Conn\<close> with the history of system calls; \<open>os\<close> answers them.  The machine is little
  endian, so that \<open>htoll\<close> and \<open>ltohl\<close> are the identity.
\<close>

section \<open>System calls\<close>

datatype fs_errno = ENOENT | EEXIST | EINTR_FS | EOTHER nat

text \<open>\<open>Size\<close> is the answer to a seek, \<open>Entry name\<close> a directory entry, \<open>Attr\<close> the mode, size and time of \<open>lstat\<close>.\<close>

datatype sysres = Ok | Err fs_errno | Data "byte list" | Attr u32 u32 u32 | Entry "byte list" | NoEntry | Size nat

definition failed :: "sysres \<Rightarrow> fs_errno option" where
  "failed r = (case r of Err e \<Rightarrow> Some e | _ \<Rightarrow> None)"

lemma failed_simps [simp]: "failed Ok = None" "failed (Err e) = Some e" "failed (Data bs) = None"
  "failed (Attr m sz tm) = None" "failed (Entry bs) = None" "failed NoEntry = None" "failed (Size n) = None"
  by (simp_all add: failed_def)

lemma failed_Some [simp]: "failed r = Some e \<longleftrightarrow> r = Err e"
  by (cases r) auto

datatype flag = O_WRONLY | O_CREAT | O_EXCL | O_RDONLY

datatype sys =
    Lstat "byte list" | Opendir "byte list" | Readdir "byte list" | Closedir "byte list"
  | Open "byte list" "flag list" u32 | Read "byte list" nat | Write "byte list" "byte list"
  | Close "byte list" | Mkdir "byte list" u32 | Unlink "byte list" | Utime "byte list" u32
  | Symlink "byte list" "byte list" | Creat "byte list" u32 | Seek_end "byte list" | Seek_set "byte list"

type_synonym environment = "sys list \<Rightarrow> sysres"

text \<open>\<open>sbuf\<close> is the buffer of \<open>SYNC_DATA_MAX\<close> bytes that the service allocates once and hands to every command.\<close>

record sync = conn +
  trace :: "sys list"
  sbuf :: "byte list"

definition syscall :: "environment \<Rightarrow> sys \<Rightarrow> 'a sync_scheme \<Rightarrow> sysres \<times> 'a sync_scheme" where
  "syscall os q s = (os (trace s @ [q]), s\<lparr>trace := trace s @ [q]\<rparr>)"

text \<open>What has been read into the buffer replaces its first bytes, the others keep what they held.\<close>

definition fill :: "byte list \<Rightarrow> 'a sync_scheme \<Rightarrow> 'a sync_scheme" where
  "fill bs s = s\<lparr>sbuf := bs @ drop (length bs) (sbuf s)\<rparr>"

lemma fill_sel [simp]: "cin (fill bs s) = cin s" "cout (fill bs s) = cout s" "cput (fill bs s) = cput s"
  "trace (fill bs s) = trace s" "sbuf (fill bs s) = bs @ drop (length bs) (sbuf s)"
  by (simp_all add: fill_def)

section \<open>Messages\<close>

definition MKID :: "string \<Rightarrow> u32" where "MKID s = le32_of (ascii s)"
definition ID_STAT :: u32 where "ID_STAT = MKID ''STAT''"
definition ID_LIST :: u32 where "ID_LIST = MKID ''LIST''"
definition ID_SEND :: u32 where "ID_SEND = MKID ''SEND''"
definition ID_RECV :: u32 where "ID_RECV = MKID ''RECV''"
definition ID_DENT :: u32 where "ID_DENT = MKID ''DENT''"
definition ID_DONE :: u32 where "ID_DONE = MKID ''DONE''"
definition ID_DATA :: u32 where "ID_DATA = MKID ''DATA''"
definition ID_OKAY :: u32 where "ID_OKAY = MKID ''OKAY''"
definition ID_FAIL :: u32 where "ID_FAIL = MKID ''FAIL''"
definition ID_QUIT :: u32 where "ID_QUIT = MKID ''QUIT''"

definition SYNC_DATA_MAX :: nat where "SYNC_DATA_MAX = 64 * 1024"

lemmas id_defs = ID_STAT_def ID_LIST_def ID_SEND_def ID_RECV_def ID_DENT_def ID_DONE_def ID_DATA_def
  ID_OKAY_def ID_FAIL_def ID_QUIT_def

text \<open>The members of the union \<open>syncmsg\<close>, as they are in memory and on the wire.\<close>

definition msg_data :: "u32 \<Rightarrow> u32 \<Rightarrow> byte list" where
  "msg_data i sz = le32_bytes i @ le32_bytes sz"

definition msg_stat :: "u32 \<Rightarrow> u32 \<Rightarrow> u32 \<Rightarrow> u32 \<Rightarrow> byte list" where
  "msg_stat i mode sz time = le32_bytes i @ le32_bytes mode @ le32_bytes sz @ le32_bytes time"

definition msg_dent :: "u32 \<Rightarrow> u32 \<Rightarrow> u32 \<Rightarrow> u32 \<Rightarrow> u32 \<Rightarrow> byte list" where
  "msg_dent i mode sz time namelen = msg_stat i mode sz time @ le32_bytes namelen"

definition fail_message :: "byte list \<Rightarrow> sync \<Rightarrow> (int \<times> sync) option" where
  "fail_message reason s = do {
     (r, s) \<leftarrow> conn_writex (msg_data ID_FAIL (word_of_nat (length reason))) s;
     if r \<noteq> 0 then Some (- 1, s)
     else do {
       (r, s) \<leftarrow> conn_writex reason s;
       if r \<noteq> 0 then Some (- 1, s) else Some (0, s)
     }
   }"

text \<open>\<open>strerror\<close> gives the text of an error.\<close>

definition fail_errno :: "(fs_errno \<Rightarrow> byte list) \<Rightarrow> fs_errno \<Rightarrow> sync \<Rightarrow> (int \<times> sync) option" where
  "fail_errno strerror e s = fail_message (strerror e) s"

lemma conn_readx_len: "conn_readx n c = Some (0, bs, c') \<Longrightarrow> length (unread c) = n + length (unread c')"
  using conn_readx_ok [of n c bs c'] by simp

lemma fail_message_cin: "fail_message reason s = Some (r, s') \<Longrightarrow> cin s' = cin s \<and> trace s' = trace s"
  by (auto simp: fail_message_def conn_writex_def split: bind_splits if_splits)

lemma fail_errno_cin: "fail_errno strerror e s = Some (r, s') \<Longrightarrow> cin s' = cin s \<and> trace s' = trace s"
  unfolding fail_errno_def by (rule fail_message_cin)

section \<open>Directories\<close>

definition mode_0775 :: u32 where "mode_0775 = 7 * 64 + 7 * 8 + 5"

text \<open>The loop of \<open>mkdirs\<close>: \<open>i\<close> is the position of \<open>x\<close> in \<open>name\<close>; every slash from there on ends the
  name of a directory to make.\<close>

fun slash_from :: "byte list \<Rightarrow> nat \<Rightarrow> nat option" where
  "slash_from [] i = None"
| "slash_from (c # cs) i = (if c = 47 then Some i else slash_from cs (i + 1))"

lemma slash_from_bound: "slash_from cs i = Some j \<Longrightarrow> i \<le> j \<and> j < i + length cs"
  by (induction cs i rule: slash_from.induct) (auto split: if_splits)

definition mkdir_failed :: "sysres \<Rightarrow> bool" where
  "mkdir_failed r = (case r of Err e \<Rightarrow> e \<noteq> EEXIST | _ \<Rightarrow> False)"

function mkdirs_loop :: "environment \<Rightarrow> byte list \<Rightarrow> nat \<Rightarrow> sync \<Rightarrow> int \<times> sync" where
  "mkdirs_loop os name i s = (case slash_from (drop i name) i of
     None \<Rightarrow> (0, s)
   | Some j \<Rightarrow> (case syscall os (Mkdir (take j name) mode_0775) s of (r, s1) \<Rightarrow>
        if mkdir_failed r then (- 1, s1) else mkdirs_loop os name (j + 1) s1))"
  by pat_completeness auto
termination
  by (relation "measure (\<lambda>(os, name, i, s). length name - i)") (auto dest!: slash_from_bound)

declare mkdirs_loop.simps [simp del]

definition mkdirs :: "environment \<Rightarrow> byte list \<Rightarrow> sync \<Rightarrow> int \<times> sync" where
  "mkdirs os name s = (if take 1 name \<noteq> [47] then (- 1, s) else mkdirs_loop os name 1 s)"

section \<open>STAT and LIST\<close>

definition do_stat :: "environment \<Rightarrow> byte list \<Rightarrow> sync \<Rightarrow> (int \<times> sync) option" where
  "do_stat os path s = (case syscall os (Lstat path) s of
     (Attr mode sz time, s) \<Rightarrow> conn_writex (msg_stat ID_STAT mode sz time) s
   | (_, s) \<Rightarrow> conn_writex (msg_stat ID_STAT 0 0 0) s)"

text \<open>The loop over the directory; \<open>n\<close> bounds the number of entries, which the environment decides.\<close>

fun list_loop :: "nat \<Rightarrow> environment \<Rightarrow> byte list \<Rightarrow> sync \<Rightarrow> (int \<times> sync) option" where
  "list_loop 0 os path s = None"
| "list_loop (Suc n) os path s = (case syscall os (Readdir path) s of
     (Entry name, s) \<Rightarrow>
       if length name > 256 then list_loop n os path s
       else (case syscall os (Lstat (path @ [47] @ name)) s of
          (Attr mode sz time, s) \<Rightarrow> do {
            (r, s) \<leftarrow> conn_writex (msg_dent ID_DENT mode sz time (word_of_nat (length name))) s;
            if r \<noteq> 0 then Some (- 1, s)
            else do {
              (r, s) \<leftarrow> conn_writex name s;
              if r \<noteq> 0 then Some (- 1, s) else list_loop n os path s
            }
          }
        | (_, s) \<Rightarrow> list_loop n os path s)
   | (_, s) \<Rightarrow> (case syscall os (Closedir path) s of
        (_, s) \<Rightarrow> conn_writex (msg_dent ID_DONE 0 0 0 0) s))"

definition do_list :: "nat \<Rightarrow> environment \<Rightarrow> byte list \<Rightarrow> sync \<Rightarrow> (int \<times> sync) option" where
  "do_list n os path s = (case syscall os (Opendir path) s of
     (Ok, s) \<Rightarrow> list_loop n os path s
   | (_, s) \<Rightarrow> conn_writex (msg_dent ID_DONE 0 0 0 0) s)"

section \<open>SEND\<close>

definition open_for_send :: "environment \<Rightarrow> byte list \<Rightarrow> u32 \<Rightarrow> sync \<Rightarrow> sysres \<times> sync" where
  "open_for_send os path mode s =
     (let (r, s) = syscall os (Open path [O_WRONLY, O_CREAT, O_EXCL] mode) s;
          (r, s) = (if r = Err ENOENT
                    then (let (_, s) = mkdirs os path s in syscall os (Open path [O_WRONLY, O_CREAT, O_EXCL] mode) s)
                    else (r, s))
      in if r = Err EEXIST then syscall os (Open path [O_WRONLY] mode) s else (r, s))"

text \<open>The label \<open>fail\<close> of \<open>handle_send_file\<close>; \<open>opened\<close> is \<open>fd >= 0\<close>.\<close>

definition send_fail :: "environment \<Rightarrow> byte list \<Rightarrow> bool \<Rightarrow> sync \<Rightarrow> (int \<times> sync) option" where
  "send_fail os path opened s =
     (let s = (if opened then snd (syscall os (Close path) s) else s);
          s = snd (syscall os (Unlink path) s)
      in Some (- 1, s))"

definition send_done :: "environment \<Rightarrow> byte list \<Rightarrow> bool \<Rightarrow> u32 \<Rightarrow> sync \<Rightarrow> (int \<times> sync) option" where
  "send_done os path opened timestamp s =
     (if opened then
        let s = snd (syscall os (Close path) s);
            s = snd (syscall os (Utime path timestamp) s)
        in do {
          (r, s) \<leftarrow> conn_writex (msg_data ID_OKAY 0) s;
          if r \<noteq> 0 then Some (- 1, s) else Some (0, s)
        }
      else Some (0, s))"

function send_loop :: "environment \<Rightarrow> (fs_errno \<Rightarrow> byte list) \<Rightarrow> byte list \<Rightarrow> bool \<Rightarrow> sync \<Rightarrow> (int \<times> sync) option" where
  "send_loop os strerror path opened s = do {
     (r, h, s1) \<leftarrow> conn_readx 8 s;
     if r \<noteq> 0 then send_fail os path opened s1
     else let i = le32_of h; sz = le32_of (drop 4 h) in
       if i \<noteq> ID_DATA then
         (if i = ID_DONE then send_done os path opened sz s1
          else do {
            (_, s2) \<leftarrow> fail_message (ascii ''invalid data message'') s1;
            send_fail os path opened s2
          })
       else if unat sz > SYNC_DATA_MAX then do {
         (_, s2) \<leftarrow> fail_message (ascii ''oversize data message'') s1;
         send_fail os path opened s2
       }
       else do {
         (r, bs, s2) \<leftarrow> conn_readx (unat sz) s1;
         if r \<noteq> 0 then send_fail os path opened s2
         else if \<not> opened then send_loop os strerror path False (fill bs s2)
         else (case syscall os (Write path bs) (fill bs s2) of (w, s3) \<Rightarrow> (case failed w of
            Some e \<Rightarrow>
              let s4 = snd (syscall os (Close path) s3);
                  s5 = snd (syscall os (Unlink path) s4)
              in do {
                (r, s6) \<leftarrow> fail_errno strerror e s5;
                if r \<noteq> 0 then Some (- 1, s6) else send_loop os strerror path False s6
              }
          | None \<Rightarrow> send_loop os strerror path True s3))
       }
   }"
  by pat_completeness auto

termination
  by (relation "measure (\<lambda>(os, strerror, path, opened, s). length (unread s))")
    (auto simp: syscall_def Let_def dest!: conn_readx_len fail_errno_cin)

declare send_loop.simps [simp del]

definition handle_send_file ::
    "environment \<Rightarrow> (fs_errno \<Rightarrow> byte list) \<Rightarrow> byte list \<Rightarrow> u32 \<Rightarrow> sync \<Rightarrow> (int \<times> sync) option" where
  "handle_send_file os strerror path mode s = (case open_for_send os path mode s of (fd, s) \<Rightarrow> (case failed fd of
     Some e \<Rightarrow> do {
       (r, s) \<leftarrow> fail_errno strerror e s;
       if r \<noteq> 0 then Some (- 1, s) else send_loop os strerror path False s
     }
   | None \<Rightarrow> send_loop os strerror path True s))"

text \<open>
  \<open>handle_send_link\<close> passes the buffer to \<open>symlink\<close> as it is: the name of the target ends at the first
  zero of the data or, when the data has none, of what the buffer held behind it from earlier messages.
\<close>

definition link_target :: "sync \<Rightarrow> byte list" where
  "link_target s = cstr (sbuf s)"

definition make_link :: "environment \<Rightarrow> byte list \<Rightarrow> byte list \<Rightarrow> sync \<Rightarrow> sysres \<times> sync" where
  "make_link os target path s =
     (let (ret, s) = syscall os (Symlink target path) s
      in if ret = Err ENOENT then (let (_, s) = mkdirs os path s in syscall os (Symlink target path) s)
         else (ret, s))"

definition handle_send_link ::
    "environment \<Rightarrow> (fs_errno \<Rightarrow> byte list) \<Rightarrow> byte list \<Rightarrow> sync \<Rightarrow> (int \<times> sync) option" where
  "handle_send_link os strerror path s = do {
     (r, h, s) \<leftarrow> conn_readx 8 s;
     if r \<noteq> 0 then Some (- 1, s)
     else if le32_of h \<noteq> ID_DATA
     then do { (_, s) \<leftarrow> fail_message (ascii ''invalid data message: expected ID_DATA'') s; Some (- 1, s) }
     else if unat (le32_of (drop 4 h)) > SYNC_DATA_MAX
     then do { (_, s) \<leftarrow> fail_message (ascii ''oversize data message'') s; Some (- 1, s) }
     else do {
       (r, bs, s) \<leftarrow> conn_readx (unat (le32_of (drop 4 h))) s;
       if r \<noteq> 0 then Some (- 1, s)
       else
         let s = fill bs s; (ret, s) = make_link os (link_target s) path s
         in case failed ret of
              Some e \<Rightarrow> do { (_, s) \<leftarrow> fail_errno strerror e s; Some (- 1, s) }
            | None \<Rightarrow> do {
                (r, h, s) \<leftarrow> conn_readx 8 s;
                if r \<noteq> 0 then Some (- 1, s)
                else if le32_of h = ID_DONE
                then do { (r, s) \<leftarrow> conn_writex (msg_data ID_OKAY 0) s; Some (if r \<noteq> 0 then - 1 else 0, s) }
                else do { (_, s) \<leftarrow> fail_message (ascii ''invalid data message: expected ID_DONE'') s; Some (- 1, s) }
              }
     }
   }"

subsection \<open>The mode of a file\<close>

text \<open>\<open>strtoul(s, NULL, 0)\<close> with a 32-bit \<open>unsigned long\<close>; \<open>None\<close> when it sets \<open>errno\<close>.\<close>

definition strtoul0 :: "byte list \<Rightarrow> u32 option" where
  "strtoul0 str =
     (let s = dropWhile is_space str;
          neg = (take 1 s = [45]);
          s = (if take 1 s = [45] \<or> take 1 s = [43] then drop 1 s else s);
          n = (if take 1 s = [48] \<and> (take 1 (drop 1 s) = [120] \<or> take 1 (drop 1 s) = [88])
               then digits 16 (drop 2 s) 0
               else if take 1 s = [48] then digits 8 s 0 else digits 10 s 0)
      in if n \<ge> 2 ^ 32 then None else Some (if neg then - word_of_nat n else word_of_nat n))"

text \<open>\<open>strrchr(path, ',')\<close> cuts the specification into the path and the text of the mode.\<close>

definition last_comma :: "byte list \<Rightarrow> (byte list \<times> byte list) option" where
  "last_comma spec = (if 44 \<in> set spec
     then Some (rev (tl (dropWhile (\<lambda>c. c \<noteq> 44) (rev spec))), rev (takeWhile (\<lambda>c. c \<noteq> 44) (rev spec)))
     else None)"

definition S_ISLNK :: "u32 \<Rightarrow> bool" where
  "S_ISLNK m \<longleftrightarrow> m AND 0xf000 = 0xa000"

text \<open>The path, the permission bits and whether a link is meant; without a usable mode it is 0644.\<close>

definition parse_send :: "byte list \<Rightarrow> byte list \<times> u32 \<times> bool" where
  "parse_send spec = (case last_comma spec of
     None \<Rightarrow> (spec, 6 * 64 + 4 * 8 + 4, False)
   | Some (path, m) \<Rightarrow> (case strtoul0 m of
        None \<Rightarrow> (path, 6 * 64 + 4 * 8 + 4, False)
      | Some mode \<Rightarrow> (path, mode AND (7 * 64 + 7 * 8 + 7), S_ISLNK mode)))"

definition spread_mode :: "u32 \<Rightarrow> u32" where
  "spread_mode mode =
     (let mode = mode OR (drop_bit 3 mode AND (7 * 8)) in mode OR (drop_bit 3 mode AND 7))"

definition do_send ::
    "environment \<Rightarrow> (fs_errno \<Rightarrow> byte list) \<Rightarrow> byte list \<Rightarrow> sync \<Rightarrow> (int \<times> sync) option" where
  "do_send os strerror spec s = (case parse_send spec of (path, mode, is_link) \<Rightarrow>
     let s = snd (syscall os (Unlink path) s) in
     if is_link then handle_send_link os strerror path s
     else handle_send_file os strerror path (spread_mode mode) s)"

section \<open>RECV\<close>

fun recv_loop :: "nat \<Rightarrow> environment \<Rightarrow> (fs_errno \<Rightarrow> byte list) \<Rightarrow> byte list \<Rightarrow> sync \<Rightarrow> (int \<times> sync) option" where
  "recv_loop 0 os strerror path s = None"
| "recv_loop (Suc n) os strerror path s = (case syscall os (Read path SYNC_DATA_MAX) s of
     (Err e, s) \<Rightarrow>
       if e = EINTR_FS then recv_loop n os strerror path s
       else do { (r, s) \<leftarrow> fail_errno strerror e s; Some (r, snd (syscall os (Close path) s)) }
   | (Data bs, s) \<Rightarrow>
       if bs = [] then
         let s = snd (syscall os (Close path) s)
         in do { (r, s) \<leftarrow> conn_writex (msg_data ID_DONE 0) s; Some (if r \<noteq> 0 then - 1 else 0, s) }
       else do {
         (r, s) \<leftarrow> conn_writex (msg_data ID_DATA (word_of_nat (length bs))) s;
         if r \<noteq> 0 then Some (- 1, snd (syscall os (Close path) s))
         else do {
           (r, s) \<leftarrow> conn_writex bs s;
           if r \<noteq> 0 then Some (- 1, snd (syscall os (Close path) s)) else recv_loop n os strerror path (fill bs s)
         }
       }
   | (_, s) \<Rightarrow> None)"

definition do_recv :: "nat \<Rightarrow> environment \<Rightarrow> (fs_errno \<Rightarrow> byte list) \<Rightarrow> byte list \<Rightarrow> sync \<Rightarrow> (int \<times> sync) option" where
  "do_recv n os strerror path s = (case syscall os (Open path [O_RDONLY] 0) s of
     (Err e, s) \<Rightarrow> do { (r, s) \<leftarrow> fail_errno strerror e s; Some (if r \<noteq> 0 then - 1 else 0, s) }
   | (_, s) \<Rightarrow> recv_loop n os strerror path s)"

section \<open>The command loop\<close>

definition unread_le :: "sync \<Rightarrow> sync \<Rightarrow> bool" where
  "unread_le s' s \<longleftrightarrow> length (unread s') \<le> length (unread s)"

lemma unread_le_refl: "cin s' = cin s \<Longrightarrow> unread_le s' s"
  by (simp add: unread_le_def)

lemma unread_le_trans: "unread_le s2 s1 \<Longrightarrow> unread_le s1 s \<Longrightarrow> unread_le s2 s"
  by (simp add: unread_le_def)

lemma syscall_cin [simp]: "cin (snd (syscall os q s)) = cin s" "cput (snd (syscall os q s)) = cput s"
  "cout (snd (syscall os q s)) = cout s" "trace (snd (syscall os q s)) = trace s @ [q]"
  by (simp_all add: syscall_def)

lemma conn_writex_cin: "conn_writex bs (s :: sync) = Some (r, s') \<Longrightarrow> cin s' = cin s \<and> trace s' = trace s"
  by (auto simp: conn_writex_def)

lemma mkdirs_loop_cin: "mkdirs_loop os name i s = (r, s') \<Longrightarrow> cin s' = cin s \<and> cout s' = cout s \<and> cput s' = cput s"
proof (induction os name i s rule: mkdirs_loop.induct)
  case (1 os name i s)
  show ?case
  proof (cases "slash_from (drop i name) i")
    case None
    then show ?thesis using "1.prems" by (simp add: mkdirs_loop.simps [of os name i])
  next
    case (Some j)
    obtain r1 s1 where s1: "syscall os (Mkdir (take j name) mode_0775) s = (r1, s1)" by force
    then have c: "cin s1 = cin s" "cout s1 = cout s" "cput s1 = cput s" by (auto simp: syscall_def)
    show ?thesis
    proof (cases "mkdir_failed r1")
      case True
      then show ?thesis using "1.prems" Some s1 c by (simp add: mkdirs_loop.simps [of os name i])
    next
      case False
      then have "mkdirs_loop os name (j + 1) s1 = (r, s')"
        using "1.prems" Some s1 by (simp add: mkdirs_loop.simps [of os name i])
      with "1.IH" [OF Some s1 [symmetric] False] c show ?thesis by simp
    qed
  qed
qed

lemma mkdirs_cin: "mkdirs os name s = (r, s') \<Longrightarrow> cin s' = cin s \<and> cout s' = cout s \<and> cput s' = cput s"
  by (auto simp: mkdirs_def split: if_splits dest: mkdirs_loop_cin)

lemma open_for_send_cin: "open_for_send os path mode s = (r, s') \<Longrightarrow> cin s' = cin s"
  by (auto simp: open_for_send_def Let_def syscall_def split: prod.splits if_splits dest!: mkdirs_cin)

lemma list_loop_cin: "list_loop n os path s = Some (r, s') \<Longrightarrow> cin s' = cin s"
  by (induction n os path s rule: list_loop.induct)
    (auto simp: syscall_def split: sysres.splits if_splits bind_splits dest!: conn_writex_cin)

lemma recv_loop_cin: "recv_loop n os strerror path s = Some (r, s') \<Longrightarrow> cin s' = cin s"
  by (induction n os strerror path s rule: recv_loop.induct)
    (auto simp: syscall_def Let_def split: sysres.splits if_splits bind_splits dest!: conn_writex_cin fail_errno_cin)

lemma send_end_cin:
  "send_fail os path opened s = Some (r, s') \<Longrightarrow> cin s' = cin s"
  "send_done os path opened t s = Some (r, s') \<Longrightarrow> cin s' = cin s"
  by (auto simp: send_fail_def send_done_def syscall_def Let_def split: if_splits bind_splits dest!: conn_writex_cin)

lemma send_fail_nonzero: "send_fail os path opened s = Some (r, s') \<Longrightarrow> r = - 1"
  by (auto simp: send_fail_def Let_def split: if_splits)

text \<open>A command that succeeds leaves no more to read than there was.\<close>

lemma send_loop_shrinks: "send_loop os strerror path opened s = Some (0, s') \<Longrightarrow> unread_le s' s"
proof (induction os strerror path opened s arbitrary: s' rule: send_loop.induct)
  case (1 os strerror path opened s)
  obtain h s1 where h: "conn_readx 8 s = Some (0, h, s1)"
    using "1.prems" by (auto simp: send_loop.simps [of os strerror path _ s] split: bind_splits if_splits
        dest!: send_fail_nonzero)
  have l1: "unread_le s1 s" using conn_readx_ok(1) [OF h] by (simp add: unread_le_def)
  let ?i = "le32_of h" and ?sz = "le32_of (drop 4 h)"
  show ?case
  proof (cases "?i \<noteq> ID_DATA \<or> unat ?sz > SYNC_DATA_MAX")
    case True
    then have "cin s' = cin s1"
      using "1.prems" h
      by (auto simp: send_loop.simps [of os strerror path _ s] Let_def split: bind_splits if_splits
          dest!: send_fail_nonzero send_end_cin fail_message_cin)
    with l1 show ?thesis by (simp add: unread_le_def)
  next
    case False
    then obtain bs s2 where d: "conn_readx (unat ?sz) s1 = Some (0, bs, s2)"
      using "1.prems" h
      by (auto simp: send_loop.simps [of os strerror path _ s] Let_def split: bind_splits if_splits
          dest!: send_fail_nonzero)
    have l2: "unread_le s2 s1" using conn_readx_ok(1) [OF d] by (simp add: unread_le_def)
    note ih = "1.IH" [OF h refl refl _ refl refl _ _ d refl refl]
    show ?thesis
    proof (cases opened)
      case closed: False
      then have "send_loop os strerror path False (fill bs s2) = Some (0, s')"
        using "1.prems" h False d by (simp add: send_loop.simps [of os strerror path _ s] Let_def)
      with ih(1) False closed have "unread_le s' (fill bs s2)" by simp
      with l1 l2 show ?thesis by (simp add: unread_le_def)
    next
      case True
      obtain w s3 where w: "syscall os (Write path bs) (fill bs s2) = (w, s3)" by force
      have c3: "cin s3 = cin s2" using w by (auto simp: syscall_def)
      let ?s5 = "snd (syscall os (Unlink path) (snd (syscall os (Close path) s3)))"
      have unf: "send_loop os strerror path opened s = (case failed w of
          Some e \<Rightarrow> do {
            (r, s6) \<leftarrow> fail_errno strerror e ?s5;
            if r \<noteq> 0 then Some (- 1, s6) else send_loop os strerror path False s6 }
        | None \<Rightarrow> send_loop os strerror path True s3)"
        using h d True w False by (simp add: send_loop.simps [of os strerror path _ s] Let_def split: option.split)
      show ?thesis
      proof (cases "failed w")
        case None
        then have "send_loop os strerror path True s3 = Some (0, s')" using "1.prems" unf by simp
        with ih(2) [OF _ _ _ _ _ w [symmetric] None] False True have "unread_le s' s3" by simp
        with c3 l1 l2 show ?thesis by (simp add: unread_le_def)
      next
        case (Some e)
        then obtain s6 where s6: "fail_errno strerror e ?s5 = Some (0, s6)" "send_loop os strerror path False s6 = Some (0, s')"
          using "1.prems" unf by (auto simp: Option.bind_eq_Some_conv split: if_splits)
        have "unread_le s' s6" using ih(3) [OF _ _ _ _ _ w [symmetric] Some refl refl s6(1) refl] False True s6 by simp
        moreover have "cin s6 = cin s2" using fail_errno_cin [OF s6(1)] c3 by simp
        ultimately show ?thesis using l1 l2 by (simp add: unread_le_def)
      qed
    qed
  qed
qed

lemma handle_send_file_shrinks: "handle_send_file os strerror path mode s = Some (0, s') \<Longrightarrow> unread_le s' s"
proof -
  assume a: "handle_send_file os strerror path mode s = Some (0, s')"
  obtain r s1 where o: "open_for_send os path mode s = (r, s1)" by force
  then have c: "cin s1 = cin s" by (rule open_for_send_cin)
  from a o have "send_loop os strerror path True s1 = Some (0, s')
      \<or> (\<exists>s2. cin s2 = cin s1 \<and> send_loop os strerror path False s2 = Some (0, s'))"
    by (auto simp: handle_send_file_def Option.bind_eq_Some_conv split: if_splits option.splits dest: fail_errno_cin)
  then show ?thesis using c by (auto simp: unread_le_def dest!: send_loop_shrinks)
qed

lemma make_link_cin: "make_link os target path s = (r, s') \<Longrightarrow> cin s' = cin s"
  by (auto simp: make_link_def Let_def syscall_def split: prod.splits if_splits dest!: mkdirs_cin)

lemma handle_send_link_shrinks: "handle_send_link os strerror path s = Some (0, s') \<Longrightarrow> unread_le s' s"
proof -
  assume a: "handle_send_link os strerror path s = Some (0, s')"
  obtain h s1 where h: "conn_readx 8 s = Some (0, h, s1)"
    using a by (auto simp: handle_send_link_def Option.bind_eq_Some_conv split: if_splits)
  obtain bs s2 where b: "conn_readx (unat (le32_of (drop 4 h))) s1 = Some (0, bs, s2)"
    using a h by (auto simp: handle_send_link_def Option.bind_eq_Some_conv split: if_splits)
  obtain ret s3 where m: "make_link os (link_target (fill bs s2)) path (fill bs s2) = (ret, s3)" by force
  note c3 = make_link_cin [OF m]
  obtain h2 s4 where s3: "conn_readx 8 s3 = Some (0, h2, s4)" "cin s' = cin s4"
    using a h b m
    by (auto simp: handle_send_link_def Option.bind_eq_Some_conv split: if_splits option.splits dest!: conn_writex_cin)
  show ?thesis
    using conn_readx_ok(1) [OF h] conn_readx_ok(1) [OF b] conn_readx_ok(1) [OF s3(1)] s3(2) c3
    by (simp add: unread_le_def)
qed

text \<open>
  One command: its header and name have been read.  The service stops on every failure; \<open>n\<close> bounds the
  entries of a directory and the reads of a file within one command.
\<close>

definition sync_command ::
    "nat \<Rightarrow> environment \<Rightarrow> (fs_errno \<Rightarrow> byte list) \<Rightarrow> u32 \<Rightarrow> byte list \<Rightarrow> sync \<Rightarrow> (int \<times> sync) option" where
  "sync_command n os strerror i name s =
     (if i = ID_STAT then do_stat os name s
      else if i = ID_LIST then do_list n os name s
      else if i = ID_SEND then do_send os strerror name s
      else if i = ID_RECV then do_recv n os strerror name s
      else if i = ID_QUIT then Some (- 1, s)
      else do { (_, s) \<leftarrow> fail_message (ascii ''unknown command'') s; Some (- 1, s) })"

lemma sync_command_shrinks: "sync_command n os strerror i name s = Some (0, s') \<Longrightarrow> unread_le s' s"
proof -
  assume a: "sync_command n os strerror i name s = Some (0, s')"
  have stat: "do_stat os name s = Some (0, s') \<Longrightarrow> cin s' = cin s"
    by (auto simp: do_stat_def syscall_def split: sysres.splits dest!: conn_writex_cin)
  have list: "do_list n os name s = Some (0, s') \<Longrightarrow> cin s' = cin s"
    by (auto simp: do_list_def syscall_def split: sysres.splits dest!: conn_writex_cin list_loop_cin)
  have recv: "do_recv n os strerror name s = Some (0, s') \<Longrightarrow> cin s' = cin s"
    by (auto simp: do_recv_def syscall_def split: sysres.splits bind_splits if_splits dest!: fail_errno_cin recv_loop_cin)
  have send: "do_send os strerror name s = Some (0, s') \<Longrightarrow> unread_le s' s"
    by (auto simp: do_send_def Let_def unread_le_def split: prod.splits if_splits
        dest!: handle_send_link_shrinks handle_send_file_shrinks)
  from a stat list recv send show ?thesis
    by (auto simp: sync_command_def intro: unread_le_refl split: if_splits bind_splits)
qed

function file_sync_service ::
    "nat \<Rightarrow> environment \<Rightarrow> (fs_errno \<Rightarrow> byte list) \<Rightarrow> sync \<Rightarrow> sync option" where
  "file_sync_service n os strerror s = do {
     (r, h, s1) \<leftarrow> conn_readx 8 s;
     if r \<noteq> 0 then map_option snd (fail_message (ascii ''command read failure'') s1)
     else let i = le32_of h; namelen = le32_of (drop 4 h) in
       if namelen > 1024 then map_option snd (fail_message (ascii ''invalid namelen'') s1)
       else do {
         (r, name, s2) \<leftarrow> conn_readx (unat namelen) s1;
         if r \<noteq> 0 then map_option snd (fail_message (ascii ''filename read failure'') s2)
         else do {
           (r, s3) \<leftarrow> sync_command n os strerror i (cstr name) s2;
           if r \<noteq> 0 then Some s3 else file_sync_service n os strerror s3
         }
       }
   }"
  by pat_completeness auto
termination
  by (relation "measure (\<lambda>(n, os, strerror, s). length (unread s))")
    (auto simp: unread_le_def dest!: conn_readx_len sync_command_shrinks)

declare file_sync_service.simps [simp del]

end
