(* ===== verification/FileSyncProps.thy ===== *)
theory FileSyncProps
  imports FileSync
begin

text \<open>
  Properties of the file transfer service: SEND stores the data it is given in order, RECV sends what
  it reads in the framing that SEND takes, \<open>mkdirs\<close> makes the proper prefixes of a path, the target of
  a link is taken from the whole buffer, and the bound of \<open>do_list\<close> admits one byte too many.
\<close>

section \<open>The data of a file on the wire\<close>

definition chunk_msg :: "byte list \<Rightarrow> byte list" where
  "chunk_msg c = msg_data ID_DATA (word_of_nat (length c)) @ c"

definition file_msgs :: "byte list list \<Rightarrow> u32 \<Rightarrow> byte list" where
  "file_msgs cs t = concat (map chunk_msg cs) @ msg_data ID_DONE t"

lemma file_msgs_simps: "file_msgs [] t = msg_data ID_DONE t"
  "file_msgs (c # cs) t = msg_data ID_DATA (word_of_nat (length c)) @ c @ file_msgs cs t"
  by (simp_all add: file_msgs_def chunk_msg_def)

lemma msg_data_fields [simp]: "length (msg_data i n) = 8" "le32_of (msg_data i n) = i" "le32_of (drop 4 (msg_data i n)) = n"
  by (simp_all add: msg_data_def)

lemma ids_distinct: "ID_DATA \<noteq> ID_DONE" "ID_DONE \<noteq> ID_DATA"
  by (simp_all add: id_defs MKID_def le32_of_def ascii_def)

lemma chunk_len: "length c \<le> SYNC_DATA_MAX \<Longrightarrow> unat (word_of_nat (length c) :: u32) = length c"
  by (simp add: SYNC_DATA_MAX_def unat_of_nat)

lemma failed_syscall: "\<forall>h. failed (os h) = None \<Longrightarrow> syscall os q s = (r, s') \<Longrightarrow> failed r = None"
  by (auto simp: syscall_def)

section \<open>SEND\<close>

lemma send_loop_data:
  assumes os: "\<forall>h. failed (os h) = None"
    and c: "length c \<le> SYNC_DATA_MAX" and u: "unread s = msg_data ID_DATA (word_of_nat (length c)) @ c @ rest"
  obtains s2 where "send_loop os strerror path True s = send_loop os strerror path True s2"
    and "unread s2 = rest" and "trace s2 = trace s @ [Write path c]" and "cput s2 = cput s" and "cout s2 = cout s"
proof -
  obtain s1 where h: "conn_readx 8 s = Some (0, msg_data ID_DATA (word_of_nat (length c)), s1)"
    and u1: "unread s1 = c @ rest" and s1: "s1 = s\<lparr>cin := cin s1\<rparr>"
    using conn_readx_have [OF u, of 8] by auto
  obtain s2 where d: "conn_readx (length c) s1 = Some (0, c, s2)"
    and u2: "unread s2 = rest" and s2: "s2 = s1\<lparr>cin := cin s2\<rparr>"
    using conn_readx_have [OF u1 refl] by auto
  obtain w s3 where w: "syscall os (Write path c) (fill c s2) = (w, s3)" by force
  have "send_loop os strerror path True s = send_loop os strerror path True s3"
    using h d w failed_syscall [OF os w] c
    by (simp add: send_loop.simps [of os strerror path True s] Let_def chunk_len)
  moreover have "unread s3 = rest" "trace s3 = trace s2 @ [Write path c]" "cput s3 = cput s2" "cout s3 = cout s2"
    using w u2 by (auto simp: syscall_def)
  moreover have "trace s2 = trace s" "cput s2 = cput s" "cout s2 = cout s"
    by (subst s2, subst s1, simp)+
  ultimately show thesis by (intro that [of s3]) simp_all
qed

lemma send_loop_stores:
  assumes os: "\<forall>h. failed (os h) = None" and "\<forall>c\<in>set cs. length c \<le> SYNC_DATA_MAX" and "8 \<le> space s"
    and "unread s = file_msgs cs t @ rest"
  obtains s' where "send_loop os strerror path True s = Some (0, s')" and "unread s' = rest"
    and "trace s' = trace s @ map (Write path) cs @ [Close path, Utime path t]" and "cput s' = cput s @ msg_data ID_OKAY 0"
  using assms
proof (induction cs arbitrary: s thesis)
  case Nil
  have u: "unread s = msg_data ID_DONE t @ rest" using Nil.prems by (simp add: file_msgs_simps)
  obtain s1 where h: "conn_readx 8 s = Some (0, msg_data ID_DONE t, s1)"
    and u1: "unread s1 = rest" and s1: "s1 = s\<lparr>cin := cin s1\<rparr>"
    using conn_readx_have [OF u, of 8] by auto
  define s2 where "s2 = snd (syscall os (Utime path t) (snd (syscall os (Close path) s1)))"
  have e1: "trace s1 = trace s" "cput s1 = cput s" "cout s1 = cout s" by (subst s1, simp)+
  have e2: "unread s2 = rest" "trace s2 = trace s @ [Close path, Utime path t]" "cput s2 = cput s" "space s2 = space s"
    using u1 e1 by (simp_all add: s2_def)
  then obtain s3 where w: "conn_writex (msg_data ID_OKAY 0) s2 = Some (0, s3)" "cput s3 = cput s2 @ msg_data ID_OKAY 0"
    using conn_writex_fits [of "msg_data ID_OKAY 0" s2] Nil.prems(4) by auto
  have "send_loop os strerror path True s = Some (0, s3)"
    using h w by (simp add: send_loop.simps [of os strerror path True s] Let_def send_done_def s2_def ids_distinct)
  with Nil.prems(1) [of s3] e2 w conn_writex_cin [OF w(1)] show ?case by simp
next
  case (Cons c cs)
  from Cons.prems(3) have c: "length c \<le> SYNC_DATA_MAX" by simp
  have u: "unread s = msg_data ID_DATA (word_of_nat (length c)) @ c @ file_msgs cs t @ rest"
    using Cons.prems(5) by (simp add: file_msgs_simps)
  from send_loop_data [OF os c u] obtain s2 where s2: "send_loop os strerror path True s = send_loop os strerror path True s2"
    "unread s2 = file_msgs cs t @ rest" "trace s2 = trace s @ [Write path c]" "cput s2 = cput s" "cout s2 = cout s"
    by blast
  with Cons.prems(3,4) have sp: "\<forall>c\<in>set cs. length c \<le> SYNC_DATA_MAX" "8 \<le> space s2" by simp_all
  show ?case
  proof (rule Cons.IH [OF _ os sp s2(2)], goal_cases)
    case (1 s')
    then show ?case using Cons.prems(1) [of s'] s2 by simp
  qed
qed

lemma handle_send_stores:
  assumes "\<forall>h. failed (os h) = None" and "\<forall>c\<in>set cs. length c \<le> SYNC_DATA_MAX" and "8 \<le> space s"
    and "unread s = file_msgs cs t @ rest"
  shows "\<exists>s'. handle_send_file os strerror path mode s = Some (0, s') \<and> unread s' = rest
     \<and> trace s' = trace s @ Open path [O_WRONLY, O_CREAT, O_EXCL] mode # map (Write path) cs @ [Close path, Utime path t]
     \<and> cput s' = cput s @ msg_data ID_OKAY 0"
proof -
  obtain fd s1 where o: "syscall os (Open path [O_WRONLY, O_CREAT, O_EXCL] mode) s = (fd, s1)" by force
  then have fd: "failed fd = None" by (rule failed_syscall [OF assms(1)])
  then have "open_for_send os path mode s = (fd, s1)" using o by (auto simp: open_for_send_def)
  then have eq: "handle_send_file os strerror path mode s = send_loop os strerror path True s1"
    using fd by (simp add: handle_send_file_def)
  have s1: "unread s1 = file_msgs cs t @ rest" "8 \<le> space s1" "cput s1 = cput s"
    "trace s1 = trace s @ [Open path [O_WRONLY, O_CREAT, O_EXCL] mode]"
    using o assms(3,4) by (auto simp: syscall_def)
  show ?thesis
    by (rule send_loop_stores [OF assms(1,2) s1(2,1), of strerror path]) (use eq s1 in auto)
qed

text \<open>A file that is sent in chunks of at most 64 kB is stored: the service opens the path for
  exclusive creation, writes every chunk once and in the order of the messages, closes the file, sets
  its time to the one of the final message, answers OKAY and leaves the rest of the stream unread.\<close>

theorem send_stores_file:
  assumes "\<forall>h. failed (os h) = None" and "\<forall>c\<in>set cs. length c \<le> SYNC_DATA_MAX" and "8 \<le> space s"
    and "unread s = file_msgs cs t @ rest"
  shows "\<exists>s'. handle_send_file os strerror path mode s = Some (0, s') \<and> unread s' = rest
     \<and> trace s' = trace s @ Open path [O_WRONLY, O_CREAT, O_EXCL] mode # map (Write path) cs @ [Close path, Utime path t]
     \<and> cput s' = cput s @ msg_data ID_OKAY 0"
  by (rule handle_send_stores [OF assms])

text \<open>A connection on which \<open>bs\<close> arrives, and an environment in which every call succeeds.\<close>

definition sync0 :: "byte list \<Rightarrow> sync" where
  "sync0 bs = \<lparr>cin = [Avail bs], cout = [Room 1000], cput = [], trace = [], sbuf = ascii ''stale''\<rparr>"

lemma send_stores_file_witness:
  "\<exists>s'. handle_send_file (\<lambda>_. Ok) (\<lambda>_. []) (ascii ''/a'') 420 (sync0 (file_msgs [[1, 2], [3]] 7)) = Some (0, s')
     \<and> unread s' = [] \<and> trace s' = [Open (ascii ''/a'') [O_WRONLY, O_CREAT, O_EXCL] 420, Write (ascii ''/a'') [1, 2],
         Write (ascii ''/a'') [3], Close (ascii ''/a''), Utime (ascii ''/a'') 7]
     \<and> cput s' = msg_data ID_OKAY 0"
proof -
  have "file_msgs [[1, 2], [3]] 7 \<noteq> []" by (simp add: file_msgs_def chunk_msg_def)
  then show ?thesis
    using send_stores_file [of "\<lambda>_. Ok" "[[1, 2], [3]]" "sync0 (file_msgs [[1, 2], [3]] 7)" 7 "[]" "\<lambda>_. []" "ascii ''/a''" 420]
    by (simp add: sync0_def SYNC_DATA_MAX_def)
qed

section \<open>RECV\<close>

lemma recv_loop_chunk:
  assumes os: "os (trace s @ [Read path SYNC_DATA_MAX]) = Data c" and c: "c \<noteq> []"
    and sp: "8 + length c \<le> space s"
  obtains s2 where "recv_loop (Suc n) os strerror path s = recv_loop n os strerror path s2"
    and "trace s2 = trace s @ [Read path SYNC_DATA_MAX]" and "cput s2 = cput s @ chunk_msg c"
    and "space s2 = space s - (8 + length c)" and "cin s2 = cin s"
proof -
  define s0 where "s0 = s\<lparr>trace := trace s @ [Read path SYNC_DATA_MAX]\<rparr>"
  have "length (msg_data ID_DATA (word_of_nat (length c))) \<le> space s0" using sp by (simp add: s0_def)
  then obtain s1 where w1: "conn_writex (msg_data ID_DATA (word_of_nat (length c))) s0 = Some (0, s1)"
    "cput s1 = cput s0 @ msg_data ID_DATA (word_of_nat (length c))" "space s1 = space s0 - 8"
    by (rule conn_writex_fits) simp
  have "length c \<le> space s1" using w1 sp by (simp add: s0_def)
  then obtain s2 where w2: "conn_writex c s1 = Some (0, s2)" "cput s2 = cput s1 @ c" "space s2 = space s1 - length c"
    by (rule conn_writex_fits)
  have "recv_loop (Suc n) os strerror path s = recv_loop n os strerror path (fill c s2)"
    using w1 w2 os c by (simp add: syscall_def s0_def)
  then show thesis
    by (rule that) (use w1 w2 conn_writex_cin [OF w1(1)] conn_writex_cin [OF w2(1)] in
      \<open>simp_all add: s0_def chunk_msg_def\<close>)
qed

lemma recv_loop_sends:
  assumes "\<forall>k<length cs. os (trace s @ replicate (Suc k) (Read path SYNC_DATA_MAX)) = Data (cs ! k)"
    and "os (trace s @ replicate (Suc (length cs)) (Read path SYNC_DATA_MAX)) = Data []"
    and "[] \<notin> set cs" and "length (file_msgs cs 0) \<le> space s" and "length cs < n"
  shows "\<exists>s'. recv_loop n os strerror path s = Some (0, s') \<and> cput s' = cput s @ file_msgs cs 0
     \<and> trace s' = trace s @ replicate (Suc (length cs)) (Read path SYNC_DATA_MAX) @ [Close path]"
  using assms
proof (induction cs arbitrary: s n)
  case Nil
  then obtain m where n: "n = Suc m" by (cases n) auto
  define s1 where "s1 = snd (syscall os (Close path) (snd (syscall os (Read path SYNC_DATA_MAX) s)))"
  have "length (msg_data ID_DONE 0) \<le> space s1" using Nil by (simp add: s1_def file_msgs_simps)
  then obtain s2 where w: "conn_writex (msg_data ID_DONE 0) s1 = Some (0, s2)" "cput s2 = cput s1 @ msg_data ID_DONE 0"
    by (rule conn_writex_fits)
  have r: "syscall os (Read path SYNC_DATA_MAX) s = (Data [], snd (syscall os (Read path SYNC_DATA_MAX) s))"
    using Nil.prems(2) by (simp add: syscall_def)
  have "recv_loop n os strerror path s = Some (0, s2)"
    using w unfolding n recv_loop.simps by (subst r) (simp add: s1_def)
  then show ?case using w conn_writex_cin [OF w(1)] by (simp add: s1_def file_msgs_simps)
next
  case (Cons c cs)
  then obtain m where n: "n = Suc m" by (cases n) auto
  have os: "os (trace s @ [Read path SYNC_DATA_MAX]) = Data c" using Cons.prems(1) [rule_format, of 0] by simp
  have c: "c \<noteq> []" "8 + length c \<le> space s" using Cons.prems by (auto simp: file_msgs_simps)
  obtain s2 where s2: "recv_loop (Suc m) os strerror path s = recv_loop m os strerror path s2"
    "trace s2 = trace s @ [Read path SYNC_DATA_MAX]" "cput s2 = cput s @ chunk_msg c"
    "space s2 = space s - (8 + length c)"
    using recv_loop_chunk [of os s path c, OF os c] by metis
  have k: "\<forall>k<length cs. os (trace s2 @ replicate (Suc k) (Read path SYNC_DATA_MAX)) = Data (cs ! k)"
  proof (intro allI impI)
    fix k assume "k < length cs"
    then show "os (trace s2 @ replicate (Suc k) (Read path SYNC_DATA_MAX)) = Data (cs ! k)"
      using Cons.prems(1) [rule_format, of "Suc k"] s2 by simp
  qed
  have e: "os (trace s2 @ replicate (Suc (length cs)) (Read path SYNC_DATA_MAX)) = Data []"
    using Cons.prems(2) s2 by simp
  have f: "length (file_msgs cs 0) \<le> space s2" using Cons.prems(4) s2 by (simp add: file_msgs_simps)
  from Cons.IH [OF k e _ f, of m] Cons.prems(3,5) n obtain s' where
    "recv_loop m os strerror path s2 = Some (0, s')" "cput s' = cput s2 @ file_msgs cs 0"
    "trace s' = trace s2 @ replicate (Suc (length cs)) (Read path SYNC_DATA_MAX) @ [Close path]"
    by auto
  then show ?case using s2 n by (simp add: file_msgs_simps chunk_msg_def)
qed

text \<open>The environment in which the file at \<open>path\<close> is read in the pieces \<open>cs\<close> and every other call succeeds.\<close>

definition serves :: "byte list list \<Rightarrow> environment" where
  "serves cs h = (case last h of
     Read p n \<Rightarrow> (let k = length (filter (\<lambda>q. q = Read p n) h) in Data (if k \<le> length cs then cs ! (k - 1) else []))
   | _ \<Rightarrow> Ok)"

text \<open>What RECV sends for a file is what SEND takes: when the file reads as the pieces \<open>cs\<close> of 1 to
  64 kB, RECV sends one DATA message for each piece and a DONE message, closes the file, and a SEND that
  is fed these bytes writes exactly the pieces, in order.\<close>

theorem recv_send_roundtrip:
  assumes pieces: "\<forall>k<length cs. os (trace s @ Open path [O_RDONLY] 0 # replicate (Suc k) (Read path SYNC_DATA_MAX)) = Data (cs ! k)"
    and at_end: "os (trace s @ Open path [O_RDONLY] 0 # replicate (Suc (length cs)) (Read path SYNC_DATA_MAX)) = Data []"
    and opened: "os (trace s @ [Open path [O_RDONLY] 0]) = Ok"
    and sizes: "\<forall>c\<in>set cs. c \<noteq> [] \<and> length c \<le> SYNC_DATA_MAX"
    and fits: "length (file_msgs cs 0) \<le> space s" and n: "length cs < n"
    and ok: "\<forall>h. failed (os2 h) = None" and sp: "8 \<le> space s2"
    and fed: "\<And>s1. do_recv n os strerror path s = Some (0, s1) \<Longrightarrow> unread s2 = drop (length (cput s)) (cput s1)"
  shows "\<exists>s1 s3. do_recv n os strerror path s = Some (0, s1) \<and> cput s1 = cput s @ file_msgs cs 0
     \<and> last (trace s1) = Close path
     \<and> handle_send_file os2 strerror path2 mode s2 = Some (0, s3) \<and> unread s3 = []
     \<and> trace s3 = trace s2 @ Open path2 [O_WRONLY, O_CREAT, O_EXCL] mode # map (Write path2) cs @ [Close path2, Utime path2 0]"
proof -
  define s0 where "s0 = s\<lparr>trace := trace s @ [Open path [O_RDONLY] 0]\<rparr>"
  have eq: "do_recv n os strerror path s = recv_loop n os strerror path s0"
    using opened by (simp add: do_recv_def syscall_def s0_def)
  obtain s1 where s1: "recv_loop n os strerror path s0 = Some (0, s1)" "cput s1 = cput s0 @ file_msgs cs 0"
    "trace s1 = trace s0 @ replicate (Suc (length cs)) (Read path SYNC_DATA_MAX) @ [Close path]"
    using recv_loop_sends [of cs os s0 path n strerror] pieces at_end sizes fits n by (auto simp: s0_def)
  then have r: "do_recv n os strerror path s = Some (0, s1)" "cput s1 = cput s @ file_msgs cs 0" "last (trace s1) = Close path"
    using eq by (simp_all add: s0_def)
  have u: "unread s2 = file_msgs cs 0 @ []" using fed [OF r(1)] r(2) by simp
  have "\<forall>c\<in>set cs. length c \<le> SYNC_DATA_MAX" using sizes by simp
  from handle_send_stores [OF ok this sp u] r show ?thesis by blast
qed

lemma recv_send_roundtrip_witness:
  "\<exists>s1 s3. do_recv 3 (serves [[1, 2], [3]]) (\<lambda>_. []) (ascii ''/a'') (sync0 []) = Some (0, s1)
     \<and> cput s1 = file_msgs [[1, 2], [3]] 0 \<and> last (trace s1) = Close (ascii ''/a'')
     \<and> handle_send_file (\<lambda>_. Ok) (\<lambda>_. []) (ascii ''/b'') 420 (sync0 (file_msgs [[1, 2], [3]] 0)) = Some (0, s3)
     \<and> unread s3 = []
     \<and> trace s3 = [Open (ascii ''/b'') [O_WRONLY, O_CREAT, O_EXCL] 420, Write (ascii ''/b'') [1, 2],
          Write (ascii ''/b'') [3], Close (ascii ''/b''), Utime (ascii ''/b'') 0]"
proof -
  let ?os = "serves [[1, 2], [3]]" and ?p = "ascii ''/a''" and ?s = "sync0 []"
  have a: "\<forall>k<length [[1, 2], [3 :: byte]].
      ?os (trace ?s @ Open ?p [O_RDONLY] 0 # replicate (Suc k) (Read ?p SYNC_DATA_MAX)) = Data ([[1, 2], [3]] ! k)"
    by (auto simp: less_Suc_eq serves_def sync0_def)
  have b: "?os (trace ?s @ Open ?p [O_RDONLY] 0 # replicate (Suc (length [[1, 2], [3 :: byte]])) (Read ?p SYNC_DATA_MAX)) = Data []"
    "?os (trace ?s @ [Open ?p [O_RDONLY] 0]) = Ok"
    by (simp_all add: serves_def sync0_def)
  have c: "\<forall>c\<in>set [[1, 2], [3 :: byte]]. c \<noteq> [] \<and> length c \<le> SYNC_DATA_MAX" by (simp add: SYNC_DATA_MAX_def)
  have d: "length (file_msgs [[1, 2], [3]] 0) \<le> space ?s" by (simp add: file_msgs_simps sync0_def)
  have ne: "file_msgs [[1, 2], [3]] 0 \<noteq> []" by (simp add: file_msgs_def chunk_msg_def)
  have r: "do_recv 3 ?os (\<lambda>_. []) ?p ?s = Some (0, s1) \<Longrightarrow> cput s1 = file_msgs [[1, 2], [3]] 0" for s1
    using recv_loop_sends [of "[[1, 2], [3]]" ?os "?s\<lparr>trace := [Open ?p [O_RDONLY] 0]\<rparr>" ?p 3 "\<lambda>_. []"] a b d
    by (auto simp: do_recv_def syscall_def sync0_def)
  show ?thesis
    using recv_send_roundtrip [of "[[1, 2], [3]]" ?os ?s ?p 3 "\<lambda>_. Ok" "sync0 (file_msgs [[1, 2], [3]] 0)" "\<lambda>_. []" "ascii ''/b''" 420,
        OF a b c d] r ne
    by (simp add: sync0_def)
qed

section \<open>Directories\<close>

definition slashes :: "byte list \<Rightarrow> nat \<Rightarrow> nat list" where
  "slashes name i = filter (\<lambda>j. name ! j = 47) [i..<length name]"

text \<open>The directories above a path: its prefixes that end before a slash other than the first.\<close>

definition dirs_above :: "byte list \<Rightarrow> byte list list" where
  "dirs_above name = map (\<lambda>j. take j name) (slashes name 1)"

lemma slash_from_slashes:
  "slash_from (drop i name) i = (case slashes name i of [] \<Rightarrow> None | j # _ \<Rightarrow> Some j)
   \<and> (\<forall>j js. slashes name i = j # js \<longrightarrow> js = slashes name (j + 1) \<and> i \<le> j)"
proof (induction "length name - i" arbitrary: i)
  case 0
  then show ?case by (simp add: slashes_def)
next
  case (Suc n)
  then have i: "i < length name" by simp
  then have d: "drop i name = name ! i # drop (Suc i) name" by (simp add: Cons_nth_drop_Suc)
  have u: "[i..<length name] = i # [Suc i..<length name]" using i by (rule upt_conv_Cons)
  have ih: "slash_from (drop (Suc i) name) (Suc i) = (case slashes name (Suc i) of [] \<Rightarrow> None | j # _ \<Rightarrow> Some j)
   \<and> (\<forall>j js. slashes name (Suc i) = j # js \<longrightarrow> js = slashes name (j + 1) \<and> Suc i \<le> j)"
    by (rule Suc.hyps(1)) (use Suc.hyps(2) in simp)
  show ?case
  proof (cases "name ! i = 47")
    case True
    then show ?thesis by (simp add: d u slashes_def)
  next
    case False
    then have "slashes name i = slashes name (Suc i)" by (simp add: slashes_def u)
    then show ?thesis using ih False by (auto simp: d)
  qed
qed

definition mkdir_calls :: "byte list \<Rightarrow> nat list \<Rightarrow> sys list" where
  "mkdir_calls name js = map (\<lambda>j. Mkdir (take j name) mode_0775) js"

text \<open>The calls made are the first \<open>m\<close> of those planned; all succeed, or the last of them fails.\<close>

definition calls_until :: "environment \<Rightarrow> sys list \<Rightarrow> sys list \<Rightarrow> nat \<Rightarrow> int \<Rightarrow> bool" where
  "calls_until os h qs m r \<longleftrightarrow> m \<le> length qs \<and> (\<forall>k<m. k + 1 < m \<or> r = 0 \<longrightarrow> \<not> mkdir_failed (os (h @ take (k + 1) qs)))
     \<and> (r = 0 \<and> m = length qs \<or> r = - 1 \<and> 0 < m \<and> mkdir_failed (os (h @ take m qs)))"

lemma mkdirs_loop_calls:
  "mkdirs_loop os name i s = (r, s') \<Longrightarrow>
     \<exists>m. calls_until os (trace s) (mkdir_calls name (slashes name i)) m r
       \<and> s' = s\<lparr>trace := trace s @ take m (mkdir_calls name (slashes name i))\<rparr>"
proof (induction os name i s rule: mkdirs_loop.induct)
  case (1 os name i s)
  note sl = slash_from_slashes [of i name]
  show ?case
  proof (cases "slashes name i")
    case Nil
    then show ?thesis
      using "1.prems" sl by (simp add: mkdirs_loop.simps [of os name i] mkdir_calls_def calls_until_def)
  next
    case (Cons j js)
    then have j: "slash_from (drop i name) i = Some j" and js: "js = slashes name (j + 1)" using sl by auto
    let ?q = "Mkdir (take j name) mode_0775"
    obtain r1 s1 where s1: "syscall os ?q s = (r1, s1)" by force
    then have r1: "r1 = os (trace s @ [?q])" "s1 = s\<lparr>trace := trace s @ [?q]\<rparr>" by (auto simp: syscall_def)
    have plan: "mkdir_calls name (slashes name i) = ?q # mkdir_calls name js" by (simp add: Cons mkdir_calls_def)
    show ?thesis
    proof (cases "mkdir_failed r1")
      case True
      then have "r = - 1" "s' = s1" using "1.prems" j s1 by (simp_all add: mkdirs_loop.simps [of os name i])
      then show ?thesis
        using True r1 plan by (intro exI [of _ 1]) (simp add: calls_until_def)
    next
      case False
      then have "mkdirs_loop os name (j + 1) s1 = (r, s')"
        using "1.prems" j s1 by (simp add: mkdirs_loop.simps [of os name i])
      from "1.IH" [OF j s1 [symmetric] False this] js obtain m where
        m: "calls_until os (trace s1) (mkdir_calls name js) m r"
          "s' = s1\<lparr>trace := trace s1 @ take m (mkdir_calls name js)\<rparr>" by auto
      have "calls_until os (trace s) (?q # mkdir_calls name js) (Suc m) r"
        unfolding calls_until_def
      proof (intro conjI allI impI)
        show "Suc m \<le> length (?q # mkdir_calls name js)" using m(1) by (simp add: calls_until_def)
      next
        fix k assume k: "k < Suc m" "k + 1 < Suc m \<or> r = 0"
        show "\<not> mkdir_failed (os (trace s @ take (k + 1) (?q # mkdir_calls name js)))"
        proof (cases k)
          case 0
          then show ?thesis using False r1 by simp
        next
          case (Suc l)
          then show ?thesis using m(1) k r1 by (auto simp: calls_until_def)
        qed
      next
        show "r = 0 \<and> Suc m = length (?q # mkdir_calls name js)
          \<or> r = - 1 \<and> 0 < Suc m \<and> mkdir_failed (os (trace s @ take (Suc m) (?q # mkdir_calls name js)))"
          using m(1) r1 by (auto simp: calls_until_def)
      qed
      then show ?thesis using m(2) r1 plan by (intro exI [of _ "Suc m"]) simp
    qed
  qed
qed

text \<open>\<open>mkdirs\<close> on an absolute path makes the directories above it, from the outermost one inwards, and
  never the path itself; a directory that exists already is no failure.  It stops at the first other
  failure and reports it, and for a relative path it makes no call.\<close>

theorem mkdirs_makes_directories:
  "case mkdirs os name s of (r, s') \<Rightarrow>
     if take 1 name \<noteq> [47] then r = - 1 \<and> s' = s
     else \<exists>m. calls_until os (trace s) (map (\<lambda>d. Mkdir d mode_0775) (dirs_above name)) m r
       \<and> s' = s\<lparr>trace := trace s @ take m (map (\<lambda>d. Mkdir d mode_0775) (dirs_above name))\<rparr>"
proof (cases "take 1 name = [47]")
  case True
  obtain r s' where l: "mkdirs_loop os name 1 s = (r, s')" by force
  have "map (\<lambda>d. Mkdir d mode_0775) (dirs_above name) = mkdir_calls name (slashes name 1)"
    by (simp add: dirs_above_def mkdir_calls_def)
  with mkdirs_loop_calls [OF l] True l show ?thesis by (simp add: mkdirs_def)
qed (simp add: mkdirs_def)

section \<open>Links\<close>

text \<open>The target that \<open>handle_send_link\<close> gives to \<open>symlink\<close> is not the data of the message: data without
  a zero is continued with what earlier messages left in the buffer, up to the first zero there.\<close>

theorem link_target_is_stale:
  assumes "\<forall>h. failed (os h) = None" and "length bs \<le> SYNC_DATA_MAX" and "8 \<le> space s" and "0 \<notin> set bs"
    and "unread s = msg_data ID_DATA (word_of_nat (length bs)) @ bs @ msg_data ID_DONE t @ rest"
  shows "\<exists>s'. handle_send_link os strerror path s = Some (0, s') \<and> unread s' = rest
    \<and> trace s' = trace s @ [Symlink (bs @ cstr (drop (length bs) (sbuf s))) path]
    \<and> cput s' = cput s @ msg_data ID_OKAY 0"
proof -
  obtain s1 where h: "conn_readx 8 s = Some (0, msg_data ID_DATA (word_of_nat (length bs)), s1)"
    and u1: "unread s1 = bs @ msg_data ID_DONE t @ rest" and s1: "s1 = s\<lparr>cin := cin s1\<rparr>"
    using conn_readx_have [OF assms(5), of 8] by auto
  obtain s2 where d: "conn_readx (length bs) s1 = Some (0, bs, s2)"
    and u2: "unread s2 = msg_data ID_DONE t @ rest" and s2: "s2 = s1\<lparr>cin := cin s2\<rparr>"
    using conn_readx_have [OF u1 refl] by auto
  have e2: "trace s2 = trace s" "cput s2 = cput s" "cout s2 = cout s" "sbuf s2 = sbuf s" by (subst s2, subst s1, simp)+
  have tgt: "link_target (fill bs s2) = bs @ cstr (drop (length bs) (sbuf s))"
    using assms(4) e2 by (simp add: link_target_def cstr_def, subst takeWhile_append2) auto
  obtain ret s3 where l: "syscall os (Symlink (link_target (fill bs s2)) path) (fill bs s2) = (ret, s3)" by force
  have ret: "failed ret = None" by (rule failed_syscall [OF assms(1) l])
  then have mk: "make_link os (link_target (fill bs s2)) path (fill bs s2) = (ret, s3)"
    using l by (auto simp: make_link_def)
  have e3: "unread s3 = msg_data ID_DONE t @ rest" "trace s3 = trace s @ [Symlink (bs @ cstr (drop (length bs) (sbuf s))) path]"
    "cput s3 = cput s" "cout s3 = cout s"
    using l u2 e2 tgt by (auto simp: syscall_def)
  obtain s4 where h2: "conn_readx 8 s3 = Some (0, msg_data ID_DONE t, s4)"
    and u4: "unread s4 = rest" and s4: "s4 = s3\<lparr>cin := cin s4\<rparr>"
    using conn_readx_have [OF e3(1), of 8] by auto
  have e4: "trace s4 = trace s3" "cput s4 = cput s3" "cout s4 = cout s3" by (subst s4, simp)+
  obtain s5 where w: "conn_writex (msg_data ID_OKAY 0) s4 = Some (0, s5)" "cput s5 = cput s4 @ msg_data ID_OKAY 0"
    using conn_writex_fits [of "msg_data ID_OKAY 0" s4] assms(3) e3 e4 by auto
  have "handle_send_link os strerror path s = Some (0, s5)"
    using h d mk ret h2 w assms(2) by (simp add: handle_send_link_def chunk_len)
  then show ?thesis using conn_writex_cin [OF w(1)] w(2) u4 e3 e4 by simp
qed

lemma link_target_is_stale_witness:
  "\<exists>s'. handle_send_link (\<lambda>_. Ok) (\<lambda>_. []) (ascii ''/l'') (sync0 (msg_data ID_DATA 2 @ ascii ''/t'' @ msg_data ID_DONE 0)) = Some (0, s')
     \<and> unread s' = [] \<and> trace s' = [Symlink (ascii ''/tale'') (ascii ''/l'')] \<and> cput s' = msg_data ID_OKAY 0"
proof -
  let ?s = "sync0 (msg_data ID_DATA 2 @ ascii ''/t'' @ msg_data ID_DONE 0)"
  have u: "unread ?s = msg_data ID_DATA (word_of_nat (length (ascii ''/t''))) @ ascii ''/t'' @ msg_data ID_DONE 0 @ []"
    by (simp add: sync0_def msg_data_def le32_bytes_def)
  have z: "0 \<notin> set (ascii ''/t'')" by (simp add: ascii_def)
  have st: "ascii ''/t'' @ cstr (drop (length (ascii ''/t'')) (sbuf ?s)) = ascii ''/tale''"
    by (simp add: sync0_def ascii_def cstr_def)
  have b: "length (ascii ''/t'') \<le> SYNC_DATA_MAX" "8 \<le> space ?s" "\<forall>h :: sys list. failed Ok = None" by (simp_all add: SYNC_DATA_MAX_def sync0_def)
  show ?thesis
    using link_target_is_stale [of "\<lambda>_. Ok", OF _ b(1,2) z u, of "\<lambda>_. []" "ascii ''/l''"] st by (simp add: sync0_def)
qed

section \<open>LIST\<close>

text \<open>The environment in which a directory has the entries \<open>es\<close> and \<open>lstat\<close> answers \<open>st\<close>.\<close>

definition is_readdir :: "sys \<Rightarrow> bool" where
  "is_readdir q = (case q of Readdir _ \<Rightarrow> True | _ \<Rightarrow> False)"

definition directory :: "byte list list \<Rightarrow> (byte list \<Rightarrow> sysres) \<Rightarrow> environment" where
  "directory es st h = (case last h of
     Readdir p \<Rightarrow> (let k = length (filter is_readdir h) in if k \<le> length es then Entry (es ! (k - 1)) else NoEntry)
   | Lstat p \<Rightarrow> st p
   | _ \<Rightarrow> Ok)"

text \<open>The message for an entry: none for a name that is too long or that \<open>lstat\<close> fails on.\<close>

definition entry_msg :: "(byte list \<Rightarrow> sysres) \<Rightarrow> byte list \<Rightarrow> byte list \<Rightarrow> byte list" where
  "entry_msg st path name = (if length name > 256 then [] else case st (path @ [47] @ name) of
     Attr mode sz time \<Rightarrow> msg_dent ID_DENT mode sz time (word_of_nat (length name)) @ name
   | _ \<Rightarrow> [])"

lemma msg_dent_length [simp]: "length (msg_dent i m z t l) = 20"
  by (simp add: msg_dent_def msg_stat_def)

definition reads :: "sync \<Rightarrow> nat" where
  "reads s = length (filter is_readdir (trace s))"

text \<open>One entry.\<close>

lemma list_loop_entry:
  assumes k: "reads s < length es" and sp: "length (entry_msg st path (es ! reads s)) \<le> space s"
  obtains s2 where "list_loop (Suc n) (directory es st) path s = list_loop n (directory es st) path s2"
    and "reads s2 = Suc (reads s)" and "cput s2 = cput s @ entry_msg st path (es ! reads s)"
    and "space s2 = space s - length (entry_msg st path (es ! reads s))" and "cin s2 = cin s"
proof -
  let ?os = "directory es st" and ?name = "es ! reads s"
  define s0 where "s0 = s\<lparr>trace := trace s @ [Readdir path]\<rparr>"
  have rd: "syscall ?os (Readdir path) s = (Entry ?name, s0)"
    using k by (simp add: syscall_def directory_def is_readdir_def reads_def s0_def)
  have r0: "reads s0 = Suc (reads s)" "cput s0 = cput s" "space s0 = space s" "cin s0 = cin s"
    by (simp_all add: s0_def reads_def is_readdir_def)
  show thesis
  proof (cases "length ?name > 256")
    case True
    then show thesis using rd r0 that [of s0] by (simp add: entry_msg_def)
  next
    case short: False
    let ?full = "path @ [47] @ ?name"
    define s1 where "s1 = s0\<lparr>trace := trace s0 @ [Lstat ?full]\<rparr>"
    have ls: "syscall ?os (Lstat ?full) s0 = (st ?full, s1)"
      by (simp add: syscall_def directory_def s1_def)
    have r1: "reads s1 = Suc (reads s)" "cput s1 = cput s" "space s1 = space s" "cin s1 = cin s"
      using r0 by (simp_all add: s1_def reads_def is_readdir_def)
    show thesis
    proof (cases "\<exists>m z t. st ?full = Attr m z t")
      case False
      then have "entry_msg st path ?name = []" by (auto simp: entry_msg_def split: sysres.split)
      moreover have "list_loop (Suc n) ?os path s = list_loop n ?os path s1"
        using rd ls short False by (cases "st ?full") auto
      ultimately show thesis using r1 that [of s1] by simp
    next
      case True
      then obtain m z t where st: "st ?full = Attr m z t" by blast
      let ?h = "msg_dent ID_DENT m z t (word_of_nat (length ?name))"
      have em: "entry_msg st path ?name = ?h @ ?name" using short st by (simp add: entry_msg_def)
      have "length ?h \<le> space s1" using sp em r1 by simp
      then obtain s2 where w1: "conn_writex ?h s1 = Some (0, s2)" "cput s2 = cput s1 @ ?h" "space s2 = space s1 - length ?h"
        by (rule conn_writex_fits)
      have "length ?name \<le> space s2" using sp em r1 w1 by simp
      then obtain s3 where w2: "conn_writex ?name s2 = Some (0, s3)" "cput s3 = cput s2 @ ?name" "space s3 = space s2 - length ?name"
        by (rule conn_writex_fits)
      have "list_loop (Suc n) ?os path s = list_loop n ?os path s3"
        using rd ls short st w1 w2 by simp
      then show thesis
        by (rule that) (use w1 w2 r1 em conn_writex_cin [OF w1(1)] conn_writex_cin [OF w2(1)] in
          \<open>simp_all add: reads_def\<close>)
    qed
  qed
qed

lemma list_loop_entries:
  assumes "reads s \<le> length es"
    and "length (concat (map (entry_msg st path) (drop (reads s) es))) + 20 \<le> space s" and "length es - reads s < n"
  shows "\<exists>s'. list_loop n (directory es st) path s = Some (0, s') \<and> cin s' = cin s
    \<and> cput s' = cput s @ concat (map (entry_msg st path) (drop (reads s) es)) @ msg_dent ID_DONE 0 0 0 0
    \<and> last (trace s') = Closedir path"
  using assms
proof (induction "length es - reads s" arbitrary: s n)
  case 0
  then obtain m where n: "n = Suc m" by (cases n) auto
  let ?os = "directory es st"
  define s1 where "s1 = snd (syscall ?os (Closedir path) (snd (syscall ?os (Readdir path) s)))"
  have rd: "syscall ?os (Readdir path) s = (NoEntry, snd (syscall ?os (Readdir path) s))"
    using 0 by (simp add: syscall_def directory_def is_readdir_def reads_def)
  have cl: "syscall ?os (Closedir path) (snd (syscall ?os (Readdir path) s)) = (fst (syscall ?os (Closedir path) (snd (syscall ?os (Readdir path) s))), s1)"
    by (simp add: s1_def)
  have "length (msg_dent ID_DONE 0 0 0 0) \<le> space s1" using 0 by (simp add: s1_def)
  then obtain s2 where w: "conn_writex (msg_dent ID_DONE 0 0 0 0) s1 = Some (0, s2)" "cput s2 = cput s1 @ msg_dent ID_DONE 0 0 0 0"
    by (rule conn_writex_fits)
  have "list_loop n ?os path s = Some (0, s2)"
    unfolding n list_loop.simps by (subst rd, simp, subst cl, simp add: w)
  then show ?case using 0 w conn_writex_cin [OF w(1)] by (simp add: s1_def)
next
  case (Suc k)
  then obtain m where n: "n = Suc m" by (cases n) auto
  have lt: "reads s < length es" using Suc by simp
  then have d: "drop (reads s) es = es ! reads s # drop (Suc (reads s)) es" by (simp add: Cons_nth_drop_Suc)
  have sp: "length (entry_msg st path (es ! reads s)) \<le> space s" using Suc.prems(2) d by simp
  obtain s2 where s2: "list_loop (Suc m) (directory es st) path s = list_loop m (directory es st) path s2"
    "reads s2 = Suc (reads s)" "cput s2 = cput s @ entry_msg st path (es ! reads s)"
    "space s2 = space s - length (entry_msg st path (es ! reads s))" "cin s2 = cin s"
    using list_loop_entry [OF lt sp, where n = m] by blast
  have "\<exists>s'. list_loop m (directory es st) path s2 = Some (0, s') \<and> cin s' = cin s2
    \<and> cput s' = cput s2 @ concat (map (entry_msg st path) (drop (reads s2) es)) @ msg_dent ID_DONE 0 0 0 0
    \<and> last (trace s') = Closedir path"
    by (rule Suc.hyps(1)) (use Suc.hyps(2) Suc.prems s2 n d in simp_all)
  then show ?case using s2 n d by auto
qed

text \<open>LIST sends one DENT message, with its name behind it, for each entry of the directory, in the
  order of the directory, except for names of more than 256 bytes and entries that cannot be examined,
  then a DONE message; it closes the directory.\<close>

theorem list_sends_entries:
  assumes "reads s = 0" and "length (concat (map (entry_msg st path) es)) + 20 \<le> space s" and "length es < n"
  shows "\<exists>s'. do_list n (directory es st) path s = Some (0, s') \<and> cin s' = cin s
    \<and> cput s' = cput s @ concat (map (entry_msg st path) es) @ msg_dent ID_DONE 0 0 0 0
    \<and> last (trace s') = Closedir path"
proof -
  define s1 where "s1 = s\<lparr>trace := trace s @ [Opendir path]\<rparr>"
  have o: "syscall (directory es st) (Opendir path) s = (Ok, s1)" by (simp add: syscall_def directory_def s1_def)
  have "reads s1 = 0" using assms(1) by (simp add: reads_def s1_def is_readdir_def)
  then show ?thesis using list_loop_entries [of s1 es st path n] assms(2,3) o by (auto simp: do_list_def s1_def)
qed

lemma list_sends_entries_witness:
  "\<exists>s'. do_list 5 (directory [ascii ''x'', replicate 300 65, ascii ''y''] (\<lambda>p. if last p = 121 then Err ENOENT else Attr 1 2 3))
       (ascii ''/d'') (sync0 []) = Some (0, s') \<and> cin s' = cin (sync0 [])
     \<and> cput s' = msg_dent ID_DENT 1 2 3 1 @ ascii ''x'' @ msg_dent ID_DONE 0 0 0 0 \<and> last (trace s') = Closedir (ascii ''/d'')"
  using list_sends_entries [of "sync0 []" "\<lambda>p. if last p = 121 then Err ENOENT else Attr 1 2 3" "ascii ''/d''"
      "[ascii ''x'', replicate 300 65, ascii ''y'']" 5]
  by (simp add: reads_def sync0_def entry_msg_def ascii_def)

section \<open>The command loop\<close>

text \<open>The name of a command is never longer than its buffer: a header that announces more than 1024
  bytes is answered with a FAIL message, no byte behind the header is read, no call is made for it and
  the service ends.\<close>

theorem long_name_refused:
  assumes "unread s = le32_bytes i @ le32_bytes len @ rest" and "1024 < len" and "23 \<le> space s"
  shows "\<exists>s'. file_sync_service n os strerror s = Some s' \<and> unread s' = rest \<and> trace s' = trace s
     \<and> cput s' = cput s @ msg_data ID_FAIL 15 @ ascii ''invalid namelen''"
proof -
  have u: "unread s = (le32_bytes i @ le32_bytes len) @ rest" using assms(1) by simp
  obtain s1 where h: "conn_readx 8 s = Some (0, le32_bytes i @ le32_bytes len, s1)"
    and u1: "unread s1 = rest" and s1: "s1 = s\<lparr>cin := cin s1\<rparr>"
    using conn_readx_have [OF u, of 8] by auto
  have e1: "trace s1 = trace s" "cput s1 = cput s" "cout s1 = cout s" by (subst s1, simp)+
  have "length (msg_data ID_FAIL 15) \<le> space s1" using assms(3) e1 by simp
  then obtain s2 where w1: "conn_writex (msg_data ID_FAIL 15) s1 = Some (0, s2)"
    "cput s2 = cput s1 @ msg_data ID_FAIL 15" "space s2 = space s1 - 8"
    by (rule conn_writex_fits) simp
  have "length (ascii ''invalid namelen'') \<le> space s2" using assms(3) e1 w1 by simp
  then obtain s3 where w2: "conn_writex (ascii ''invalid namelen'') s2 = Some (0, s3)" "cput s3 = cput s2 @ ascii ''invalid namelen''"
    by (rule conn_writex_fits)
  have "file_sync_service n os strerror s = Some s3"
    using h w1 w2 assms(2) by (simp add: file_sync_service.simps [of n os strerror s] fail_message_def)
  then show ?thesis
    using w1 w2 e1 u1 conn_writex_cin [OF w1(1)] conn_writex_cin [OF w2(1)] by simp
qed

lemma long_name_refused_witness:
  "\<exists>s'. file_sync_service 1 (\<lambda>_. Ok) (\<lambda>_. []) (sync0 (le32_bytes ID_STAT @ le32_bytes 1025 @ [65])) = Some s'
     \<and> unread s' = [65] \<and> trace s' = [] \<and> cput s' = msg_data ID_FAIL 15 @ ascii ''invalid namelen''"
  using long_name_refused [of "sync0 (le32_bytes ID_STAT @ le32_bytes 1025 @ [65])" ID_STAT 1025 "[65]" 1 "\<lambda>_. Ok" "\<lambda>_. []"]
  by (simp add: sync0_def)

end
