(* ===== verification/Protocol.thy ===== *)
theory Protocol
  imports SmartSocket
begin

text \<open>
  The packets that arrive from a device (\<open>adb/adb.cpp\<close>): \<open>handle_packet\<close> with the banner of a CNXN
  packet, going online and offline, and the listeners that \<open>forward\<close> requests install.  The services
  of a device (\<open>create_local_service_socket\<close>) are a parameter \<open>svc\<close>, as the host requests \<open>hr\<close> and
  services \<open>hs\<close> are; \<open>server\<close> holds the settings of the process.
\<close>

record server =
  HOST :: bool
  auth_enabled :: bool
  adb_device_banner :: "byte list"
  property_get :: "byte list \<Rightarrow> byte list"

type_synonym device_service = "byte list \<Rightarrow> world \<Rightarrow> halt + (nat \<times> world)"

section \<open>Sending\<close>

definition send_ready :: "u32 \<Rightarrow> u32 \<Rightarrow> nat \<Rightarrow> world \<Rightarrow> halt + world" where
  "send_ready local remote t = send_packet (packet A_OKAY local remote []) t"

definition send_close :: "u32 \<Rightarrow> u32 \<Rightarrow> nat \<Rightarrow> world \<Rightarrow> halt + world" where
  "send_close local remote t = send_packet (packet A_CLSE local remote []) t"

definition cnxn_props :: "byte list list" where
  "cnxn_props = map ascii [''ro.product.name'', ''ro.product.model'', ''ro.product.device'']"

text \<open>
  One \<open>snprintf\<close> into the rest of a buffer, from the position \<open>pos\<close> to its end, as \<open>fill_connect_data\<close> uses it:
  what fits is written with a zero behind it, when there is room for one; when the text is too long the
  result is -1, so that the position goes back by one byte.  A position before the buffer is \<open>None\<close>.
\<close>

definition print_at :: "byte list \<Rightarrow> byte list \<times> nat \<Rightarrow> (byte list \<times> nat) option" where
  "print_at bs x = (case x of (buf, pos) \<Rightarrow> let remaining = length buf - pos in
     if length bs < remaining then Some (take pos buf @ bs @ 0 # drop (pos + length bs + 1) buf, pos + length bs)
     else if length bs = remaining then Some (take pos buf @ bs, length buf)
     else if pos = 0 then None
     else Some (take pos buf @ take remaining bs, pos - 1))"

fun print_all :: "byte list list \<Rightarrow> byte list \<times> nat \<Rightarrow> (byte list \<times> nat) option" where
  "print_all [] x = Some x"
| "print_all (b # bs) x = Option.bind (print_at b x) (print_all bs)"

text \<open>The \<open>data_length\<close> bytes of a CNXN packet: those before the last position and one more.  In a buffer that
  was filled up to its end that one lies behind it.\<close>

definition fill_connect_data :: "server \<Rightarrow> halt + byte list" where
  "fill_connect_data g =
     (case print_all (if HOST g then [ascii ''host::'']
        else (adb_device_banner g @ ascii ''::'')
          # map (\<lambda>p. p @ ascii ''='' @ property_get g p @ ascii '';'') cnxn_props) (replicate MAX_PAYLOAD 0, 0) of
        None \<Rightarrow> Inl Overrun
      | Some (buf, pos) \<Rightarrow> if pos < length buf then Inr (take (pos + 1) buf) else Inl Overread)"

definition send_connect :: "server \<Rightarrow> nat \<Rightarrow> world \<Rightarrow> halt + world" where
  "send_connect g t w = sbind (fill_connect_data g) (\<lambda>bs.
     send_packet (packet A_CNXN A_VERSION (word_of_nat MAX_PAYLOAD) bs) t w)"

definition ADB_AUTH_TOKEN :: u32 where "ADB_AUTH_TOKEN = 1"
definition TOKEN_SIZE :: nat where "TOKEN_SIZE = 20"

text \<open>\<open>fresh\<close> is what \<open>adb_auth_generate_token\<close> has put into \<open>t->token\<close>; anything but \<open>TOKEN_SIZE\<close>
  bytes is its failure.\<close>

definition send_auth_request :: "byte list \<Rightarrow> nat \<Rightarrow> world \<Rightarrow> halt + world" where
  "send_auth_request fresh t w = sbind (set_transport t (\<lambda>x. x\<lparr>token := fresh\<rparr>) w) (\<lambda>w.
     if length fresh \<noteq> TOKEN_SIZE then Inr w
     else send_packet (packet A_AUTH ADB_AUTH_TOKEN 0 fresh) t w)"

section \<open>Listeners\<close>

definition deref_listener :: "nat \<Rightarrow> world \<Rightarrow> halt + alistener" where
  "deref_listener l w = (case listeners w l of None \<Rightarrow> Inl (UseAfterFree l) | Some x \<Rightarrow> Inr x)"

definition free_listener :: "nat \<Rightarrow> world \<Rightarrow> halt + world" where
  "free_listener l w = sbind (deref_listener l w) (\<lambda>x.
     sbind (fd_try (fdevent_remove l) (w\<lparr>listener_list := remove1 l (listener_list w)\<rparr>)) (\<lambda>w1.
     sbind (if l_transport x \<noteq> 0 then remove_transport_disconnect (l_transport x) (listener_disconnect l) w1
            else Inr w1) (\<lambda>w2.
       Inr (w2\<lparr>listeners := (listeners w2)(l := None)\<rparr>))))"

definition listener_named :: "byte list \<Rightarrow> world \<Rightarrow> nat option" where
  "listener_named name w = find (\<lambda>l. map_option local_name (listeners w l) = Some name) (listener_list w)"

definition remove_listener :: "byte list \<Rightarrow> byte list \<Rightarrow> nat \<Rightarrow> world \<Rightarrow> halt + (int \<times> world)" where
  "remove_listener name dest t w =
     (case find (\<lambda>l. case listeners w l of None \<Rightarrow> False
          | Some x \<Rightarrow> local_name x = name \<and> connect_to x = dest \<and> l_transport x \<noteq> 0 \<and> l_transport x = t) (listener_list w) of
        None \<Rightarrow> Inr (- 1, w)
      | Some l \<Rightarrow> sbind (free_listener l w) (\<lambda>w1. Inr (0, w1)))"

definition move_listener :: "nat \<Rightarrow> alistener \<Rightarrow> nat \<Rightarrow> world \<Rightarrow> halt + world" where
  "move_listener l x t w =
     (if l_transport x = t then Inr w
      else sbind (remove_transport_disconnect (l_transport x) (listener_disconnect l) w) (\<lambda>w1.
           add_transport_disconnect t (listener_disconnect l)
             (w1\<lparr>listeners := (listeners w1)(l \<mapsto> x\<lparr>l_transport := t\<rparr>)\<rparr>)))"

text \<open>\<open>fd\<close> is the result of \<open>local_name_to_fd\<close>, \<open>a\<close> the address of the new listener.\<close>

definition install_listener ::
    "nat \<Rightarrow> (nat \<Rightarrow> nat) option \<Rightarrow> nat \<Rightarrow> int \<Rightarrow> byte list \<Rightarrow> byte list \<Rightarrow> nat \<Rightarrow> world \<Rightarrow> halt + (int \<times> world)" where
  "install_listener psz mem a fd name dest t w = (case listener_named name w of
     Some l \<Rightarrow> sbind (deref_listener l w) (\<lambda>x.
       if take 1 (connect_to x) = ascii ''*'' then Inr (- 1, w)
       else let x1 = x\<lparr>connect_to := dest\<rparr> in
         sbind (move_listener l x1 t (w\<lparr>listeners := (listeners w)(l \<mapsto> x1)\<rparr>)) (\<lambda>w1. Inr (0, w1)))
   | None \<Rightarrow>
       if fd < 0 then Inr (- 2, w)
       else let f = (if dest = ascii ''*smartsocket*'' then ss_listener_event_func else listener_event_func) in
         sbind (fd_try (fdevent_install psz mem a fd f a) w) (\<lambda>w1.
         let w2 = fd_op (fdevent_set a (ucast FDE_READ)) w1;
             w3 = w2\<lparr>listeners := (listeners w2)(a \<mapsto> \<lparr>l_fd = fd, local_name = name, connect_to = dest, l_transport = t\<rparr>),
                     listener_list := listener_list w2 @ [a]\<rparr>
         in sbind (if t \<noteq> 0 then add_transport_disconnect t (listener_disconnect a) w3 else Inr w3) (\<lambda>w4. Inr (0, w4))))"

text \<open>A client connects: \<open>fd\<close> is the accepted descriptor, \<open>a\<close> and \<open>b\<close> are new addresses.\<close>

definition ss_listener_event ::
    "(nat \<Rightarrow> world \<Rightarrow> halt + world) \<Rightarrow> nat \<Rightarrow> (nat \<Rightarrow> nat) option \<Rightarrow> nat \<Rightarrow> nat \<Rightarrow> u16 \<Rightarrow> int \<Rightarrow> world \<Rightarrow> halt + world" where
  "ss_listener_event rdy psz mem a b evs fd w =
     (if \<not> has evs FDE_READ \<or> fd < 0 then Inr w
      else sbind (create_local_socket psz mem a fd w) (connect_to_smartsocket rdy b a))"

definition listener_event ::
    "nat \<Rightarrow> (nat \<Rightarrow> nat) option \<Rightarrow> nat \<Rightarrow> nat \<Rightarrow> u16 \<Rightarrow> int \<Rightarrow> world \<Rightarrow> halt + world" where
  "listener_event psz mem a l evs fd w =
     (if \<not> has evs FDE_READ \<or> fd < 0 then Inr w
      else sbind (create_local_socket psz mem a fd w) (\<lambda>w1.
           sbind (deref_listener l w1) (\<lambda>x.
           sbind (set_sock a (\<lambda>k. k\<lparr>sk_transport := l_transport x\<rparr>) w1) (connect_to_remote a (connect_to x)))))"

section \<open>Online and offline\<close>

text \<open>
  \<open>run_transport_disconnects\<close>: the next node is read before the callback is called; a node that is no
  longer in the list is one that has been freed.  The fuel is the number of nodes.
\<close>

definition run_disconnect :: "adisconnect \<Rightarrow> world \<Rightarrow> halt + world" where
  "run_disconnect d w = (case d of
     remote_socket_disconnect s \<Rightarrow> remote_socket_disconnect_fn call_close s w
   | listener_disconnect l \<Rightarrow> free_listener l w)"

fun run_nodes :: "nat \<Rightarrow> nat \<Rightarrow> adisconnect option \<Rightarrow> world \<Rightarrow> halt + world" where
  "run_nodes n t None w = Inr w"
| "run_nodes 0 t (Some d) w = Inl OutOfFuel"
| "run_nodes (Suc n) t (Some d) w = sbind (deref_transport t w) (\<lambda>x.
     if d \<notin> set (disconnects x) then Inl (UseAfterFree t)
     else let next = succ_in d (disconnects x) in sbind (run_disconnect d w) (run_nodes n t next))"

definition run_transport_disconnects :: "nat \<Rightarrow> world \<Rightarrow> halt + world" where
  "run_transport_disconnects t w = sbind (deref_transport t w) (\<lambda>x.
     run_nodes (length (disconnects x)) t (case disconnects x of [] \<Rightarrow> None | d # _ \<Rightarrow> Some d) w)"

definition handle_online :: "nat \<Rightarrow> world \<Rightarrow> halt + world" where
  "handle_online t = set_transport t (\<lambda>x. x\<lparr>t_online := True\<rparr>)"

definition handle_offline :: "nat \<Rightarrow> world \<Rightarrow> halt + world" where
  "handle_offline t w = sbind (set_transport t (\<lambda>x. x\<lparr>t_online := False\<rparr>) w) (run_transport_disconnects t)"

definition adb_auth_verified :: "server \<Rightarrow> nat \<Rightarrow> world \<Rightarrow> halt + world" where
  "adb_auth_verified g t w = sbind (handle_online t w) (send_connect g t)"

definition connection_state_name :: "atransport option \<Rightarrow> byte list" where
  "connection_state_name t = ascii (case t of None \<Rightarrow> ''unknown'' | Some x \<Rightarrow>
     if connection_state x = CS_BOOTLOADER then ''bootloader''
     else if connection_state x = CS_DEVICE then ''device''
     else if connection_state x = CS_OFFLINE then ''offline'' else ''unknown'')"

section \<open>The banner\<close>

text \<open>The parts of a string between separators, empty ones left out: what \<open>adb_strtok_r\<close> yields.\<close>

fun split_at :: "byte \<Rightarrow> byte list \<Rightarrow> byte list \<Rightarrow> byte list list" where
  "split_at c [] acc = [rev acc]"
| "split_at c (x # xs) acc = (if x = c then rev acc # split_at c xs [] else split_at c xs (x # acc))"

definition tokens :: "byte \<Rightarrow> byte list \<Rightarrow> byte list list" where
  "tokens c s = filter (\<lambda>p. p \<noteq> []) (split_at c s [])"

text \<open>\<open>strchr\<close>: what is before and what is behind the first \<open>c\<close>.\<close>

definition cut :: "byte \<Rightarrow> byte list \<Rightarrow> (byte list \<times> byte list) option" where
  "cut c s = (if c \<in> set s then Some (takeWhile (\<lambda>x. x \<noteq> c) s, tl (dropWhile (\<lambda>x. x \<noteq> c) s)) else None)"

definition qual_overwrite :: "byte list \<Rightarrow> byte list option" where
  "qual_overwrite src = (if src = [] then None else Some src)"

definition banner_prop :: "byte list \<Rightarrow> atransport \<Rightarrow> atransport" where
  "banner_prop key t = (case cut 61 key of None \<Rightarrow> t
     | Some (k, v) \<Rightarrow>
         if k = ascii ''ro.product.name'' then t\<lparr>t_product := qual_overwrite v\<rparr>
         else if k = ascii ''ro.product.model'' then t\<lparr>model := qual_overwrite v\<rparr>
         else if k = ascii ''ro.product.device'' then t\<lparr>device := qual_overwrite v\<rparr>
         else t)"

definition banner_type :: "byte list \<Rightarrow> byte list" where
  "banner_type b = takeWhile (\<lambda>x. x \<noteq> 58) b"

definition banner_props :: "byte list \<Rightarrow> byte list list" where
  "banner_props b = (case cut 58 b of None \<Rightarrow> []
     | Some (_, r) \<Rightarrow> (case cut 58 r of None \<Rightarrow> [] | Some (_, ps) \<Rightarrow> tokens 59 ps))"

definition banner_state :: "byte list \<Rightarrow> int" where
  "banner_state ty = (if ty = ascii ''bootloader'' then CS_BOOTLOADER else if ty = ascii ''device'' then CS_DEVICE
     else if ty = ascii ''recovery'' then CS_RECOVERY else if ty = ascii ''sideload'' then CS_SIDELOAD else CS_HOST)"

definition parse_banner :: "server \<Rightarrow> host_request \<Rightarrow> host_service \<Rightarrow> byte list \<Rightarrow> nat \<Rightarrow> world \<Rightarrow> halt + world" where
  "parse_banner g hr hs b t w =
     sbind (set_transport t (fold banner_prop (banner_props b)) w) (\<lambda>w1.
     sbind (set_transport t (\<lambda>x. x\<lparr>connection_state := banner_state (banner_type b)\<rparr>) w1) (\<lambda>w2.
       if banner_state (banner_type b) = CS_HOST \<or> \<not> HOST g then Inr w2 else update_transports hr hs w2))"

section \<open>Packets\<close>

text \<open>The text in a packet ends at its first zero; without one, reading it leaves the buffer.\<close>

definition packet_string :: "byte list \<Rightarrow> halt + byte list" where
  "packet_string bs = (if 0 \<in> set bs then Inr (cstr bs) else Inl Overread)"

definition handle_sync :: "server \<Rightarrow> apacket \<Rightarrow> nat \<Rightarrow> world \<Rightarrow> halt + world" where
  "handle_sync g p t w =
     (if arg0 (pk_msg p) \<noteq> 0
      then sbind (send_packet p t w) (\<lambda>w1. if HOST g then send_connect g t w1 else Inr w1)
      else sbind (set_transport t (\<lambda>x. x\<lparr>connection_state := CS_OFFLINE\<rparr>) w) (\<lambda>w1.
           sbind (handle_offline t w1) (send_packet p t)))"

definition handle_cnxn ::
    "server \<Rightarrow> host_request \<Rightarrow> host_service \<Rightarrow> byte list \<Rightarrow> apacket \<Rightarrow> nat \<Rightarrow> world \<Rightarrow> halt + world" where
  "handle_cnxn g hr hs fresh p t w = sbind (deref_transport t w) (\<lambda>x.
     sbind (if connection_state x \<noteq> CS_OFFLINE
            then sbind (set_transport t (\<lambda>x. x\<lparr>connection_state := CS_OFFLINE\<rparr>) w) (handle_offline t)
            else Inr w) (\<lambda>w1.
     sbind (packet_string (pk_data p)) (\<lambda>b.
     sbind (parse_banner g hr hs b t w1) (\<lambda>w2.
       if HOST g \<or> \<not> auth_enabled g
       then sbind (handle_online t w2) (\<lambda>w3. if HOST g then Inr w3 else send_connect g t w3)
       else send_auth_request fresh t w2))))"

text \<open>\<open>a\<close> is the address of a new remote socket.\<close>

definition handle_open ::
    "(nat \<Rightarrow> world \<Rightarrow> halt + world) \<Rightarrow> device_service \<Rightarrow> nat \<Rightarrow> apacket \<Rightarrow> nat \<Rightarrow> world \<Rightarrow> halt + world" where
  "handle_open rdy svc a p t w =
     (let m = pk_msg p; n = unat (data_length m); i = (if n > 0 then n - 1 else 0) in
      if i \<ge> length (pk_data p) then Inl Overread
      else sbind (svc (cstr ((pk_data p)[i := 0])) w) (\<lambda>(s, w1).
        if s = 0 then send_close 0 (arg0 m) t w1
        else sbind (attach_remote a (arg0 m) t s w1) (\<lambda>w2.
             sbind (deref s w2) (\<lambda>k. sbind (deref (peer k) w2) (\<lambda>q.
             sbind (send_ready (sk_id k) (sk_id q) t w2) (rdy s))))))"

definition handle_okay ::
    "(nat \<Rightarrow> world \<Rightarrow> halt + world) \<Rightarrow> nat \<Rightarrow> apacket \<Rightarrow> nat \<Rightarrow> world \<Rightarrow> halt + world" where
  "handle_okay rdy a p t w =
     (let s = find_local_socket (arg1 (pk_msg p)) w in
      if s = 0 then Inr w
      else sbind (deref s w) (\<lambda>k.
           sbind (if peer k = 0 then attach_remote a (arg0 (pk_msg p)) t s w else Inr w) (rdy s)))"

definition handle_clse :: "(nat \<Rightarrow> world \<Rightarrow> halt + world) \<Rightarrow> apacket \<Rightarrow> world \<Rightarrow> halt + world" where
  "handle_clse cl p w =
     (let s = find_local_socket (arg1 (pk_msg p)) w in if s = 0 then Inr w else cl s w)"

definition handle_wrte ::
    "(nat \<Rightarrow> byte list \<Rightarrow> world \<Rightarrow> halt + (int \<times> world)) \<Rightarrow> apacket \<Rightarrow> nat \<Rightarrow> world \<Rightarrow> halt + world" where
  "handle_wrte enq p t w =
     (let s = find_local_socket (arg1 (pk_msg p)) w; n = unat (data_length (pk_msg p)) in
      if s = 0 then Inr w
      else sbind (enq s (take n (pk_data p)) w) (\<lambda>(r, w1).
           if r = 0 then sbind (deref s w1) (\<lambda>k. send_ready (sk_id k) (arg0 (pk_msg p)) t w1)
           else Inr w1))"

definition handle_packet ::
    "server \<Rightarrow> host_request \<Rightarrow> host_service \<Rightarrow> device_service \<Rightarrow> byte list \<Rightarrow> nat \<Rightarrow> apacket \<Rightarrow> nat \<Rightarrow> world \<Rightarrow> halt + world" where
  "handle_packet g hr hs svc fresh a p t w =
     (let c = command (pk_msg p) in
      if c = A_SYNC then handle_sync g p t w
      else if c = A_CNXN then handle_cnxn g hr hs fresh p t w
      else if c = A_OPEN \<or> c = A_OKAY \<or> c = A_CLSE \<or> c = A_WRTE then
        sbind (deref_transport t w) (\<lambda>x.
          if \<not> t_online x then Inr w
          else if c = A_OPEN then handle_open (call_ready hr hs) svc a p t w
          else if c = A_OKAY then handle_okay (call_ready hr hs) a p t w
          else if c = A_CLSE then handle_clse call_close p w
          else handle_wrte (call_enqueue hr hs) p t w)
      else Inr w)"

end
