(* ===== verification/Services.thy ===== *)
theory Services
  imports Protocol
begin

text \<open>
  The services that the server runs for the other side of a transport (\<open>adb/services.cpp\<close>,
  \<open>adb/sockets.cpp\<close>: \<open>create_local_service_socket\<close>), as this build compiles them: \<open>ADB_HOST\<close> and
  \<open>HAVE_WINSOCK\<close> are defined.  What the system answers is in \<open>service_env\<close>: new descriptors, the memory
  for a socket, the socket pair and the thread of a service.
\<close>

section \<open>Numbers\<close>

text \<open>The number at the start of a string, after white space and a sign; \<open>int\<close> wraps around.\<close>

definition to_int :: "int \<Rightarrow> int" where
  "to_int i = sint (word_of_int i :: 32 word)"

definition signed_number :: "byte list \<Rightarrow> int option" where
  "signed_number str =
     (let s = dropWhile is_space str;
          neg = (take 1 s = [45]);
          s = (if take 1 s = [45] \<or> take 1 s = [43] then drop 1 s else s)
      in if takeWhile is_digit s = [] then None
         else Some (to_int (if neg then - int (digits 10 s 0) else int (digits 10 s 0))))"

definition atoi :: "byte list \<Rightarrow> int" where
  "atoi s = (case signed_number s of None \<Rightarrow> 0 | Some i \<Rightarrow> i)"

text \<open>\<open>sscanf(s, "%d", &port)\<close>: its result and the number, if it stores one.\<close>

definition sscanf_d :: "byte list \<Rightarrow> int \<times> int option" where
  "sscanf_d s = (if dropWhile is_space s = [] then (- 1, None)
     else case signed_number s of None \<Rightarrow> (0, None) | Some i \<Rightarrow> (1, Some i))"

lemma decimal_not_Nil [simp]: "decimal n \<noteq> []"
  by (subst decimal.simps) simp

lemma decimal_is_digit: "c \<in> set (decimal n) \<Longrightarrow> is_digit c"
proof (induction n rule: decimal.induct)
  case (1 n)
  have "is_digit (word_of_nat (48 + d))" if "d < 10" for d
  proof -
    from that have "d \<in> {0, 1, 2, 3, 4, 5, 6, 7, 8, 9}" by auto
    then show ?thesis by (auto simp: is_digit_def)
  qed
  then show ?case using 1 by (auto simp: decimal.simps [of n] split: if_splits)
qed

lemma digit_class: "is_digit c \<Longrightarrow> \<not> is_space c \<and> c \<noteq> 45 \<and> c \<noteq> 43"
  by (auto simp: is_digit_def is_space_def word_le_nat_alt)

text \<open>Numbers are read back as they were printed.\<close>

lemma atoi_fmt_d: "- (2 ^ 31) \<le> i \<Longrightarrow> i < 2 ^ 31 \<Longrightarrow> atoi (fmt_d i) = i"
proof -
  assume i: "- (2 ^ 31) \<le> i" "i < 2 ^ 31"
  have t: "takeWhile is_digit (decimal n) = decimal n" for n by (simp add: decimal_is_digit)
  have h: "\<not> is_space (hd (decimal n)) \<and> hd (decimal n) \<noteq> 45 \<and> hd (decimal n) \<noteq> 43" for n
    using digit_class [OF decimal_is_digit [of "hd (decimal n)" n]] by simp
  have d: "dropWhile is_space (decimal n) = decimal n" "take (Suc 0) (decimal n) \<noteq> [45]" "take (Suc 0) (decimal n) \<noteq> [43]" for n
    using h [of n] by (cases "decimal n"; simp)+
  have w: "to_int i = i" using i by (simp add: to_int_def signed_of_int signed_take_bit_int_eq_self)
  show ?thesis
    using w by (auto simp: atoi_def signed_number_def fmt_d_def Let_def d t digits_of_decimal is_space_def)
qed

section \<open>Names of ports\<close>

text \<open>\<open>srv\<close> is \<open>socket_loopback_server\<close>; this build has no sockets of the Unix domain.\<close>

definition local_name_to_fd :: "(int \<Rightarrow> int) \<Rightarrow> byte list \<Rightarrow> int" where
  "local_name_to_fd srv name = (if starts (ascii ''tcp:'') name then srv (atoi (drop 4 name)) else - 1)"

section \<open>Threads\<close>

datatype job = Dns "byte list"

record service_env =
  s_psize :: nat
  s_malloced :: "(nat \<Rightarrow> nat) option"
  s_socket :: nat
  s_loopback :: "int \<Rightarrow> int"
  s_network :: "byte list \<Rightarrow> int \<Rightarrow> int"
  s_pair :: "(int \<times> int) option"
  s_thread :: bool

text \<open>The descriptor of the caller's end, the threads that have been started with theirs, and the descriptors
  that have been closed; \<open>malloc\<close> succeeds, otherwise the process ends.\<close>

definition create_service_thread :: "service_env \<Rightarrow> 'j \<Rightarrow> int \<times> ('j \<times> int) list \<times> int list" where
  "create_service_thread e j = (case s_pair e of
     None \<Rightarrow> (- 1, [], [])
   | Some (a, b) \<Rightarrow> if s_thread e then (a, [(j, b)], []) else (- 1, [], [a, b]))"

definition service_to_fd :: "service_env \<Rightarrow> byte list \<Rightarrow> int \<times> (job \<times> int) list \<times> int list" where
  "service_to_fd e name =
     (if starts (ascii ''tcp:'') name then
        let port = atoi (drop 4 name) in
        ((if 58 \<in> set (drop 4 name)
          then s_network e (tl (dropWhile (\<lambda>c. c \<noteq> 58) (drop 4 name))) port
          else s_loopback e port), [], [])
      else if starts (ascii ''dns:'') name then create_service_thread e (Dns (drop 4 name))
      else (- 1, [], []))"

text \<open>A null pointer is 0.\<close>

definition create_local_service_socket :: "service_env \<Rightarrow> device_service" where
  "create_local_service_socket e name w = (case service_to_fd e name of (fd, jobs, shut) \<Rightarrow>
     if fd < 0 then Inr (0, w)
     else sbind (create_local_socket (s_psize e) (s_malloced e) (s_socket e) fd w) (\<lambda>w1. Inr (s_socket e, w1)))"

section \<open>The sockets of services\<close>

text \<open>Memory for the new socket at an unused address, and descriptors that are not in the loop yet.\<close>

definition opens_ok :: "service_env \<Rightarrow> world \<Rightarrow> bool" where
  "opens_ok e w \<longleftrightarrow> s_psize e = 4 \<and> s_malloced e \<noteq> None \<and> s_socket e \<noteq> 0 \<and> socks w (s_socket e) = None
     \<and> listeners w (s_socket e) = None
     \<and> (\<forall>name. let fd = fst (service_to_fd e name) in fd < 0 \<or> fresh_fde (s_socket e) fd (ev w))"

lemma service_socket_result:
  assumes inv: "sock_inv {} w" and e: "opens_ok e w"
  obtains (none) "create_local_service_socket e name w = Inr (0, w)"
  | (some) w' fd where "create_local_service_socket e name w = Inr (s_socket e, w')" and "sock_inv {} w'"
      and "socks w' = (socks w)(s_socket e \<mapsto> zero_sock\<lparr>sk_fd := fd, sk_id := next_id w\<rparr>)"
      and "transports w' = transports w" and "trackers w' = trackers w" and "listeners w' = listeners w"
      and "\<And>b. b \<noteq> s_socket e \<Longrightarrow> fdes (ev w') b = fdes (ev w) b"
proof -
  obtain fd jobs shut where f: "service_to_fd e name = (fd, jobs, shut)" by (cases "service_to_fd e name")
  show thesis
  proof (cases "fd < 0")
    case True
    then show ?thesis using f none by (simp add: create_local_service_socket_def)
  next
    case False
    have "\<forall>name. let fd = fst (service_to_fd e name) in fd < 0 \<or> fresh_fde (s_socket e) fd (ev w)" using e by (simp add: opens_ok_def)
    from spec [OF this, of name] have ff: "fresh_fde (s_socket e) fd (ev w)" using f False by (simp add: Let_def)
    obtain j where j: "s_malloced e = Some j" using e by (auto simp: opens_ok_def)
    have a: "socks w (s_socket e) = None" "s_psize e = 4" using e by (simp_all add: opens_ok_def)
    obtain w' where w': "create_local_socket 4 (Some j) (s_socket e) fd w = Inr w'" "sock_inv {} w'"
      "socks w' = (socks w)(s_socket e \<mapsto> zero_sock\<lparr>sk_fd := fd, sk_id := next_id w\<rparr>)"
      "transports w' = transports w" "trackers w' = trackers w" "listeners w' = listeners w"
      "\<And>b. b \<noteq> s_socket e \<Longrightarrow> fdes (ev w') b = fdes (ev w) b"
      by (rule create_local_socket_result [OF inv a(1) ff, of j]) blast
    have "create_local_service_socket e name w = Inr (s_socket e, w')"
      using f False j a(2) w'(1) by (simp add: create_local_service_socket_def)
    then show ?thesis by (rule some) (rule w', rule w', rule w', rule w', rule w', rule w')
  qed
qed

end
