(* ===== verification/ProtocolProps.thy ===== *)
theory ProtocolProps
  imports Protocol Services SocketProps
begin

text \<open>
  Properties of the packet handler.  \<open>links_ok\<close> adds to the invariant of the sockets that a remote
  socket is connected to local sockets only and that every listener in a transport's list of
  disconnect callbacks is installed; with it the walk over that list is safe, and so is every packet.
\<close>

section \<open>The disconnect callbacks\<close>

definition links_ok :: "world \<Rightarrow> bool" where
  "links_ok w \<longleftrightarrow> sock_inv {} w
     \<and> (\<forall>s k. socks w s = Some k \<longrightarrow> is_remote k \<longrightarrow> peer k \<noteq> 0 \<longrightarrow> (\<exists>q. socks w (peer k) = Some q \<and> is_local q))
     \<and> (\<forall>t x l. transports w t = Some x \<longrightarrow> listener_disconnect l \<in> set (disconnects x) \<longrightarrow>
          (\<exists>y. listeners w l = Some y \<and> l_transport y = t) \<and> l \<noteq> 0 \<and> socks w l = None \<and> bit (state (fdes (ev w) l)) 8)"

lemma after_close_local: "after_close q = Some c \<Longrightarrow> is_local c \<and> peer c = 0"
  by (auto simp: after_close_def split: if_splits)

text \<open>The first half of the callback: the peer is closed, and nothing points to the socket any more.\<close>

lemma close_peer_of:
  assumes inv: "sock_inv {} w" and s: "socks w s = Some k"
    and l: "peer k \<noteq> 0 \<Longrightarrow> \<exists>q. socks w (peer k) = Some q \<and> is_local q"
  obtains w2 where
    "(if peer k \<noteq> 0 then sbind (set_sock (peer k) (\<lambda>p. p\<lparr>peer := 0\<rparr>) w) (call_close (peer k)) else Inr w) = Inr w2"
    and "sock_inv {s} w2" and "socks w2 s = Some k" and "\<And>q' c. socks w2 q' = Some c \<Longrightarrow> peer c \<noteq> s"
    and "transports w2 = transports w" and "listeners w2 = listeners w"
    and "\<And>a. a \<noteq> peer k \<Longrightarrow> socks w2 a = socks w a" and "\<And>a. a \<noteq> peer k \<Longrightarrow> fdes (ev w2) a = fdes (ev w) a"
    and "\<And>c. peer k \<noteq> 0 \<Longrightarrow> socks w2 (peer k) = Some c \<Longrightarrow> is_local c \<and> peer c = 0" and "sent w2 = sent w"
proof (cases "peer k = 0")
  case True
  have 1: "sock_inv {s} w" using inv by (simp add: sock_inv_def peers_ok_def)
  have 2: "\<And>q' c. socks w q' = Some c \<Longrightarrow> peer c \<noteq> s" using inv_no_peer [OF inv s True] by blast
  show thesis by (rule that [OF _ 1 s 2]) (simp_all add: True)
next
  case False
  obtain q w2 where
    q: "socks w (peer k) = Some q" "peer q = s" "peer k \<noteq> s"
    and c: "call_close (peer k) (w\<lparr>socks := (socks w)(peer k \<mapsto> q\<lparr>peer := 0\<rparr>)\<rparr>) = Inr w2"
    and w2: "sock_inv {s} w2" "leaf_result (peer k) q 0 w w2" "socks w2 s = Some k"
      "\<And>q' c. socks w2 q' = Some c \<Longrightarrow> peer c \<noteq> s"
    by (rule close_peer_first [OF inv s refl False, where n = "Suc 0", folded numeral_2_eq_2]) (rule that; assumption)
  have lq: "is_local q" using l False q by auto
  have lf: "socks w2 = (socks w)(peer k := after_close q)" "listeners w2 = listeners w"
    "\<And>b. b \<noteq> peer k \<Longrightarrow> fdes (ev w2) b = fdes (ev w) b" "transports w2 = transports w"
    and sn: "sent w2 = sent w"
    using w2(2) lq by (simp_all add: leaf_result_def same_rest_def drop_disconnect_other close_msgs_def)
  show thesis
  proof (rule that [OF _ w2(1,3,4) lf(4,2) _ lf(3)])
    show "(if peer k \<noteq> 0 then sbind (set_sock (peer k) (\<lambda>p. p\<lparr>peer := 0\<rparr>) w) (call_close (peer k)) else Inr w) = Inr w2"
      using q(1) False c by (simp add: sock_simps)
    show "\<And>c. socks w2 (peer k) = Some c \<Longrightarrow> is_local c \<and> peer c = 0"
      by (rule after_close_local [of q]) (simp add: lf(1))
  qed (simp_all add: lf(1) sn)
qed

lemma disconnect_remote:
  assumes ok: "links_ok w" and s: "socks w s = Some k" "is_remote k" and t: "transports w (sk_transport k) = Some x"
  shows "\<exists>w'. run_disconnect (remote_socket_disconnect s) w = Inr w' \<and> links_ok w'
    \<and> transports w' = (transports w)(sk_transport k \<mapsto> x\<lparr>disconnects := remove1 (remote_socket_disconnect s) (disconnects x)\<rparr>)
    \<and> (\<forall>a c. socks w' a = Some c \<longrightarrow> \<not> is_local c \<longrightarrow> socks w a = Some c) \<and> sent w' = sent w"
proof -
  have inv: "sock_inv {} w" using ok by (simp add: links_ok_def)
  have s0: "s \<noteq> 0" by (rule sock_invD(1) [OF inv s(1)])
  have t0: "sk_transport k \<noteq> 0" using inv t by (auto simp: sock_inv_def transports_ok_def)
  let ?tr = "(transports w)(sk_transport k \<mapsto> x\<lparr>disconnects := remove1 (remote_socket_disconnect s) (disconnects x)\<rparr>)"
  have tr: "drop_disconnect s k (transports w) = ?tr"
    using t s(2) by (auto simp: drop_disconnect_def fun_eq_iff map_option.id [unfolded id_def])
  have lr: "peer k \<noteq> 0 \<Longrightarrow> \<exists>q. socks w (peer k) = Some q \<and> is_local q" using ok s by (simp add: links_ok_def)
  obtain w2 where
    c: "(if peer k \<noteq> 0 then sbind (set_sock (peer k) (\<lambda>p. p\<lparr>peer := 0\<rparr>) w) (call_close (peer k)) else Inr w) = Inr w2"
    and w2: "sock_inv {s} w2" "socks w2 s = Some k" "\<And>q' c. socks w2 q' = Some c \<Longrightarrow> peer c \<noteq> s"
      "transports w2 = transports w" "listeners w2 = listeners w"
      "\<And>a. a \<noteq> peer k \<Longrightarrow> socks w2 a = socks w a" "\<And>a. a \<noteq> peer k \<Longrightarrow> fdes (ev w2) a = fdes (ev w) a"
      "\<And>c. peer k \<noteq> 0 \<Longrightarrow> socks w2 (peer k) = Some c \<Longrightarrow> is_local c \<and> peer c = 0" "sent w2 = sent w"
    by (rule close_peer_of [OF inv s(1) lr]) (assumption | rule that; assumption)+
  let ?w' = "free_sock s (w2\<lparr>transports := ?tr\<rparr>)"
  have r: "run_disconnect (remote_socket_disconnect s) w = Inr ?w'"
    using s(1) s0 c w2(2,4) t t0
    by (simp add: run_disconnect_def remote_socket_disconnect_fn_def sock_simps remove_transport_disconnect_def
        set_transport_def deref_transport_def free_sock_def)
  have nt: "s \<notin> set (trackers w2)" using lists_mem(3) [OF w2(1,2)] s(2) by simp
  have "sock_inv ({s} - {s}) ?w'"
    by (rule free_leaf [OF w2(1,2)]) (use s(2) w2(3,4) nt in \<open>simp_all add: free_sock_def tr remove1_absent\<close>)
  then have inv': "sock_inv {} ?w'" by simp
  have sub: "a \<noteq> s \<and> (a \<noteq> peer k \<longrightarrow> socks w a = Some c) \<and> (a = peer k \<longrightarrow> is_local c \<and> peer c = 0)"
    if a: "socks ?w' a = Some c" for a c
  proof -
    have a': "a \<noteq> s" "socks w2 a = Some c" using a by (auto simp: free_sock_def split: if_splits)
    have "a \<noteq> 0" by (rule sock_invD(1) [OF inv' a])
    then show ?thesis using a' w2(6) [of a] w2(8) [of c] by auto
  qed
  have remotes: "\<exists>q. socks ?w' (peer c) = Some q \<and> is_local q"
    if a: "socks ?w' a = Some c" "is_remote c" "peer c \<noteq> 0" for a c
  proof -
    have a': "a \<noteq> s" "a \<noteq> peer k" "socks w a = Some c" using sub [OF a(1)] a(2) by auto
    from ok have "\<forall>s k. socks w s = Some k \<longrightarrow> is_remote k \<longrightarrow> peer k \<noteq> 0 \<longrightarrow> (\<exists>q. socks w (peer k) = Some q \<and> is_local q)"
      unfolding links_ok_def by blast
    from this [rule_format, OF a'(3) a(2,3)] obtain q where q: "socks w (peer c) = Some q" "is_local q" by blast
    obtain q0 where "socks w (peer c) = Some q0" "peer q0 = a" "peer c \<noteq> a"
      by (rule peer_alive [OF inv a'(3) _ a(3)]) simp_all
    with q(1) have q3: "peer q = a" by simp
    have "peer c \<noteq> s" using q s by auto
    moreover have "peer c \<noteq> peer k"
    proof
      assume e: "peer c = peer k"
      then have "peer k \<noteq> 0" using a(3) by simp
      obtain q0 where "socks w (peer k) = Some q0" "peer q0 = s"
        by (rule peer_alive [OF inv s(1) _ \<open>peer k \<noteq> 0\<close>]) simp_all
      with e q(1) q3 a'(1) show False by simp
    qed
    ultimately show ?thesis using q w2(6) [of "peer c"] by (simp add: free_sock_def)
  qed
  have "(\<exists>y. listeners ?w' l = Some y \<and> l_transport y = t') \<and> l \<noteq> 0 \<and> socks ?w' l = None \<and> bit (state (fdes (ev ?w') l)) 8"
    if h: "transports ?w' t' = Some x'" "listener_disconnect l \<in> set (disconnects x')" for t' x' l
  proof -
    obtain x0 where x0: "transports w t' = Some x0" "listener_disconnect l \<in> set (disconnects x0)"
      using h t by (auto simp: free_sock_def split: if_splits dest: notin_set_remove1)
    then have l: "(\<exists>y. listeners w l = Some y \<and> l_transport y = t')" "l \<noteq> 0" "socks w l = None" "bit (state (fdes (ev w) l)) 8"
      using ok unfolding links_ok_def by blast+
    have ne: "l \<noteq> peer k" "l \<noteq> s" using l(2,3) lr s by auto
    then show ?thesis using l w2(5) w2(6) [of l] w2(7) [of l] by (simp add: free_sock_def)
  qed
  then have "links_ok ?w'" unfolding links_ok_def using inv' remotes by blast
  moreover have "\<forall>a c. socks ?w' a = Some c \<longrightarrow> \<not> is_local c \<longrightarrow> socks w a = Some c" using sub by blast
  ultimately show ?thesis using r w2(9) by (intro exI [of _ ?w']) (simp add: free_sock_def)
qed

lemma transports_ok_upd:
  assumes tk: "transports_ok w" and t: "transports w t = Some x"
    and w': "transports w' = (transports w)(t \<mapsto> y)" "socks w' = socks w"
    and y: "open_end y" "distinct (disconnects y)" "\<And>s. remote_socket_disconnect s \<in> set (disconnects y) \<longleftrightarrow> remote_socket_disconnect s \<in> set (disconnects x)"
  shows "transports_ok w'"
proof -
  have rm: "remote_of w' s t' = remote_of w s t'" for s t' by (simp add: remote_of_def w')
  have a: "\<And>t x. transports w t = Some x \<Longrightarrow> t \<noteq> 0 \<and> open_end x \<and> distinct (disconnects x)
      \<and> (\<forall>s. remote_socket_disconnect s \<in> set (disconnects x) \<longrightarrow> remote_of w s t)"
    and b: "\<And>s t. remote_of w s t \<Longrightarrow> \<exists>x. transports w t = Some x \<and> remote_socket_disconnect s \<in> set (disconnects x)"
    using tk unfolding transports_ok_def by blast+
  have "t' \<noteq> 0 \<and> open_end z \<and> distinct (disconnects z) \<and> (\<forall>s. remote_socket_disconnect s \<in> set (disconnects z) \<longrightarrow> remote_of w s t')"
    if "transports w' t' = Some z" for t' z
    using that a [of t' z] a [OF t] y by (cases "t' = t") (auto simp: w')
  moreover have "\<exists>z. transports w' t' = Some z \<and> remote_socket_disconnect s \<in> set (disconnects z)" if "remote_of w s t'" for s t'
    using b [OF that] t y(3) by (cases "t' = t") (auto simp: w')
  ultimately show ?thesis unfolding transports_ok_def rm by blast
qed

lemma disconnect_listener:
  assumes ok: "links_ok w" and t: "transports w t = Some x" and l: "listener_disconnect l \<in> set (disconnects x)"
  shows "\<exists>w'. run_disconnect (listener_disconnect l) w = Inr w' \<and> links_ok w'
    \<and> transports w' = (transports w)(t \<mapsto> x\<lparr>disconnects := remove1 (listener_disconnect l) (disconnects x)\<rparr>)
    \<and> socks w' = socks w \<and> sent w' = sent w"
proof -
  have inv: "sock_inv {} w" using ok by (simp add: links_ok_def)
  have ls: "\<And>t x l. transports w t = Some x \<Longrightarrow> listener_disconnect l \<in> set (disconnects x) \<Longrightarrow>
    (\<exists>y. listeners w l = Some y \<and> l_transport y = t) \<and> l \<noteq> 0 \<and> socks w l = None \<and> bit (state (fdes (ev w) l)) 8"
    using ok unfolding links_ok_def by blast
  obtain y where y: "listeners w l = Some y" "l_transport y = t" and l0: "socks w l = None" "bit (state (fdes (ev w) l)) 8"
    using ls [OF t l] by blast
  have t0: "t \<noteq> 0" "distinct (disconnects x)" "open_end x" using inv t by (auto simp: sock_inv_def transports_ok_def)
  obtain ps where "fd_inv (ev w) ps" using inv by (auto simp: sock_inv_def)
  then obtain e' qs where e: "fdevent_remove l (ev w) = Inr e'" "fd_inv e' qs" "\<And>b. b \<noteq> l \<Longrightarrow> fdes e' b = fdes (ev w) b"
    by (rule fdevent_remove_sock [OF _ l0(2)]) blast
  let ?tr = "(transports w)(t \<mapsto> x\<lparr>disconnects := remove1 (listener_disconnect l) (disconnects x)\<rparr>)"
  let ?w' = "w\<lparr>listener_list := remove1 l (listener_list w), ev := e', transports := ?tr, listeners := (listeners w)(l := None)\<rparr>"
  have r: "run_disconnect (listener_disconnect l) w = Inr ?w'"
    using y t t0 e(1)
    by (simp add: run_disconnect_def free_listener_def deref_listener_def fd_try_def remove_transport_disconnect_def
        set_transport_def deref_transport_def)
  have tk: "transports_ok w" using inv by (simp add: sock_inv_def)
  have "transports_ok ?w'"
    by (rule transports_ok_upd [OF tk t, where y = "x\<lparr>disconnects := remove1 (listener_disconnect l) (disconnects x)\<rparr>"]) (use t0 in \<open>simp_all add: distinct_remove1\<close>)
  moreover have "heap_ok ?w'"
    unfolding heap_ok_def
  proof (intro allI impI)
    fix s k assume "socks ?w' s = Some k"
    then have s: "socks w s = Some k" "s \<noteq> l" using l0(1) by auto
    with sock_invD(4,5) [OF inv s(1)] e(3) [OF s(2)] show "sock_ok s k \<and> event_ok (ev ?w') s k"
      by (simp add: event_ok_def)
  qed
  moreover have "peers_ok {} ?w'" "lists_ok ?w'"
    using inv by (simp_all add: sock_inv_def peers_ok_def lists_ok_def)
  ultimately have inv': "sock_inv {} ?w'" using e(2) by (auto simp: sock_inv_def)
  have "(\<exists>y. listeners ?w' l' = Some y \<and> l_transport y = t') \<and> l' \<noteq> 0 \<and> socks ?w' l' = None \<and> bit (state (fdes (ev ?w') l')) 8"
    if h: "transports ?w' t' = Some x'" "listener_disconnect l' \<in> set (disconnects x')" for t' x' l'
  proof -
    obtain x0 where x0: "transports w t' = Some x0" "listener_disconnect l' \<in> set (disconnects x0)"
      and ne: "t' = t \<Longrightarrow> l' \<noteq> l"
      using h t t0(2) by (auto split: if_splits)
    note l' = ls [OF x0]
    have "l' \<noteq> l" using l' y ne by auto
    then show ?thesis using l' e(3) by auto
  qed
  moreover have "\<forall>s k. socks ?w' s = Some k \<longrightarrow> is_remote k \<longrightarrow> peer k \<noteq> 0 \<longrightarrow> (\<exists>q. socks ?w' (peer k) = Some q \<and> is_local q)"
    using ok unfolding links_ok_def by simp
  ultimately have "links_ok ?w'" unfolding links_ok_def using inv' by blast
  then show ?thesis using r by (intro exI [of _ ?w']) simp
qed

lemma succ_in_hd: "succ_in x (x # xs) = (case xs of [] \<Rightarrow> None | y # _ \<Rightarrow> Some y)"
  by (simp add: succ_in_def split: list.split)

text \<open>The walk frees the sockets and listeners of the transport one after the other.\<close>

lemma run_nodes_safe:
  assumes "links_ok w" and "transports w t = Some x" and "disconnects x = ds"
  shows "\<exists>w'. run_nodes (length ds) t (case ds of [] \<Rightarrow> None | d # _ \<Rightarrow> Some d) w = Inr w' \<and> links_ok w'
    \<and> transports w' = (transports w)(t \<mapsto> x\<lparr>disconnects := []\<rparr>)
    \<and> (\<forall>a c. socks w' a = Some c \<longrightarrow> \<not> is_local c \<longrightarrow> socks w a = Some c) \<and> sent w' = sent w"
  using assms
proof (induction ds arbitrary: w x)
  case Nil
  then have "x\<lparr>disconnects := []\<rparr> = x" by simp
  with Nil show ?case by (simp add: fun_upd_idem)
next
  case (Cons d ds)
  have t0: "t \<noteq> 0" using Cons.prems by (auto simp: links_ok_def sock_inv_def transports_ok_def)
  have "\<exists>w1. run_disconnect d w = Inr w1 \<and> links_ok w1 \<and> transports w1 = (transports w)(t \<mapsto> x\<lparr>disconnects := ds\<rparr>)
     \<and> (\<forall>a c. socks w1 a = Some c \<longrightarrow> \<not> is_local c \<longrightarrow> socks w a = Some c) \<and> sent w1 = sent w"
  proof (cases d)
    case (remote_socket_disconnect s)
    then have "remote_of w s t" using Cons.prems by (auto simp: links_ok_def sock_inv_def transports_ok_def)
    then obtain k where "socks w s = Some k" "is_remote k" "sk_transport k = t" by (auto simp: remote_of_def)
    with disconnect_remote [OF Cons.prems(1), of s k x] Cons.prems remote_socket_disconnect show ?thesis by simp
  next
    case (listener_disconnect l)
    with disconnect_listener [OF Cons.prems(1,2), of l] Cons.prems show ?thesis by fastforce
  qed
  then obtain w1 where w1: "run_disconnect d w = Inr w1" "links_ok w1" "transports w1 = (transports w)(t \<mapsto> x\<lparr>disconnects := ds\<rparr>)"
    "\<forall>a c. socks w1 a = Some c \<longrightarrow> \<not> is_local c \<longrightarrow> socks w a = Some c" "sent w1 = sent w" by blast
  have t1: "transports w1 t = Some (x\<lparr>disconnects := ds\<rparr>)" by (simp add: w1)
  have ds: "disconnects (x\<lparr>disconnects := ds\<rparr>) = ds" by simp
  note ih = Cons.IH [OF w1(2) t1 ds]
  obtain w' where w': "run_nodes (length ds) t (case ds of [] \<Rightarrow> None | d # _ \<Rightarrow> Some d) w1 = Inr w'" "links_ok w'"
    "transports w' = (transports w1)(t \<mapsto> x\<lparr>disconnects := ds, disconnects := []\<rparr>)"
    "\<forall>a c. socks w' a = Some c \<longrightarrow> \<not> is_local c \<longrightarrow> socks w1 a = Some c" "sent w' = sent w1"
    using ih by blast
  have "run_nodes (length (d # ds)) t (Some d) w = Inr w'"
    using w1(1) w'(1) Cons.prems(2,3) t0 by (simp add: deref_transport_def succ_in_hd Let_def)
  then show ?case using w' w1 by (intro exI [of _ w']) auto
qed

lemma links_ok_transport:
  assumes "links_ok w" and "transports w t = Some x" and "disconnects y = disconnects x" and "open_end y = open_end x"
  shows "links_ok (w\<lparr>transports := (transports w)(t \<mapsto> y)\<rparr>)"
proof -
  let ?w = "w\<lparr>transports := (transports w)(t \<mapsto> y)\<rparr>"
  have d: "transports ?w t' = Some z \<Longrightarrow> \<exists>x'. transports w t' = Some x' \<and> disconnects z = disconnects x'" for t' z
    using assms(2,3) by (auto split: if_splits)
  have tk: "transports_ok w" using assms(1) by (simp add: links_ok_def sock_inv_def)
  have "transports_ok ?w"
    by (rule transports_ok_upd [OF tk assms(2), where y = y])
      (use tk assms(2,3,4) in \<open>auto simp: transports_ok_def\<close>)
  then have "sock_inv {} ?w" using assms(1) by (simp add: links_ok_def sock_inv_def peers_ok_def heap_ok_def lists_ok_def)
  moreover have "\<forall>t z l. transports ?w t = Some z \<longrightarrow> listener_disconnect l \<in> set (disconnects z) \<longrightarrow>
      (\<exists>y. listeners ?w l = Some y \<and> l_transport y = t) \<and> l \<noteq> 0 \<and> socks ?w l = None \<and> bit (state (fdes (ev ?w) l)) 8"
    using assms(1) d unfolding links_ok_def by fastforce
  ultimately show ?thesis using assms(1) unfolding links_ok_def by simp
qed

lemma set_transport_Some:
  "transports w t = Some x \<Longrightarrow> t \<noteq> 0 \<Longrightarrow> set_transport t f w = Inr (w\<lparr>transports := (transports w)(t \<mapsto> f x)\<rparr>)"
  by (simp add: set_transport_def deref_transport_def)

lemma links_transport_nz: "links_ok w \<Longrightarrow> transports w t = Some x \<Longrightarrow> t \<noteq> 0"
  by (auto simp: links_ok_def sock_inv_def transports_ok_def)

lemma handle_offline_safe:
  assumes ok: "links_ok w" and t: "transports w t = Some x"
  shows "\<exists>w'. handle_offline t w = Inr w' \<and> links_ok w'
    \<and> transports w' = (transports w)(t \<mapsto> x\<lparr>t_online := False, disconnects := []\<rparr>)
    \<and> (\<forall>a c. socks w' a = Some c \<longrightarrow> \<not> is_local c \<longrightarrow> socks w a = Some c) \<and> sent w' = sent w"
proof -
  have t0: "t \<noteq> 0" by (rule links_transport_nz [OF assms])
  let ?x = "x\<lparr>t_online := False\<rparr>"
  let ?w1 = "w\<lparr>transports := (transports w)(t \<mapsto> ?x)\<rparr>"
  have ok1: "links_ok ?w1" by (rule links_ok_transport [OF ok t]) simp_all
  from run_nodes_safe [OF ok1, of t ?x "disconnects x"] obtain w' where
    w': "run_nodes (length (disconnects x)) t (case disconnects x of [] \<Rightarrow> None | d # _ \<Rightarrow> Some d) ?w1 = Inr w'" "links_ok w'"
      "transports w' = (transports ?w1)(t \<mapsto> ?x\<lparr>disconnects := []\<rparr>)"
      "\<forall>a c. socks w' a = Some c \<longrightarrow> \<not> is_local c \<longrightarrow> socks ?w1 a = Some c" "sent w' = sent ?w1" by auto
  have "handle_offline t w = Inr w'"
    using w'(1) t t0 by (simp add: handle_offline_def set_transport_Some run_transport_disconnects_def deref_transport_def)
  then show ?thesis using w' by (intro exI [of _ w']) simp
qed

section \<open>What keeps the links\<close>

text \<open>An operation that only removes sockets, nodes and peers keeps \<open>links_ok\<close>.\<close>

definition shrinks :: "world \<Rightarrow> world \<Rightarrow> bool" where
  "shrinks w w' \<longleftrightarrow>
     (\<forall>a c. socks w' a = Some c \<longrightarrow> (\<exists>c0. socks w a = Some c0 \<and> enqueue c = enqueue c0 \<and> (peer c = peer c0 \<or> peer c = 0 \<and> is_local c)))
     \<and> (\<forall>t x. transports w' t = Some x \<longrightarrow> (\<exists>x0. transports w t = Some x0 \<and> serial x = serial x0 \<and> set (disconnects x) \<subseteq> set (disconnects x0)))
     \<and> dom (transports w') = dom (transports w) \<and> listeners w' = listeners w
     \<and> (\<forall>l. socks w l = None \<longrightarrow> fdes (ev w') l = fdes (ev w) l)"

lemma shrinks_refl: "shrinks w w"
  unfolding shrinks_def by blast

lemma links_ok_shrinks:
  assumes ok: "links_ok w" and inv: "sock_inv {} w'" and sh: "shrinks w w'"
  shows "links_ok w'"
proof -
  have sub: "\<And>a c. socks w' a = Some c \<Longrightarrow> \<exists>c0. socks w a = Some c0 \<and> enqueue c = enqueue c0 \<and> (peer c = peer c0 \<or> peer c = 0 \<and> is_local c)"
    and tr: "\<And>t x. transports w' t = Some x \<Longrightarrow> \<exists>x0. transports w t = Some x0 \<and> set (disconnects x) \<subseteq> set (disconnects x0)"
    and ls: "listeners w' = listeners w" and fd: "\<And>l. socks w l = None \<Longrightarrow> fdes (ev w') l = fdes (ev w) l"
    using sh unfolding shrinks_def by blast+
  have o1: "\<And>s k. socks w s = Some k \<Longrightarrow> is_remote k \<Longrightarrow> peer k \<noteq> 0 \<Longrightarrow> \<exists>q. socks w (peer k) = Some q \<and> is_local q"
    and o2: "\<And>t x l. transports w t = Some x \<Longrightarrow> listener_disconnect l \<in> set (disconnects x) \<Longrightarrow>
      (\<exists>y. listeners w l = Some y \<and> l_transport y = t) \<and> l \<noteq> 0 \<and> socks w l = None \<and> bit (state (fdes (ev w) l)) 8"
    using ok unfolding links_ok_def by blast+
  have 1: "\<exists>q. socks w' (peer k) = Some q \<and> is_local q" if a: "socks w' s = Some k" "is_remote k" "peer k \<noteq> 0" for s k
  proof -
    obtain k0 where k0: "socks w s = Some k0" "enqueue k = enqueue k0" "peer k = peer k0" using sub [OF a(1)] a(3) by auto
    obtain q0 where q0: "socks w (peer k) = Some q0" "is_local q0" using o1 [OF k0(1)] k0 a by auto
    obtain q where q: "socks w' (peer k) = Some q" by (rule peer_alive [OF inv a(1) _ a(3)]) auto
    with sub [OF q] q0 show ?thesis by auto
  qed
  have 2: "(\<exists>y. listeners w' l = Some y \<and> l_transport y = t) \<and> l \<noteq> 0 \<and> socks w' l = None \<and> bit (state (fdes (ev w') l)) 8"
    if h: "transports w' t = Some x" "listener_disconnect l \<in> set (disconnects x)" for t x l
  proof -
    obtain x0 where "transports w t = Some x0" "listener_disconnect l \<in> set (disconnects x0)" using tr [OF h(1)] h(2) by auto
    note l = o2 [OF this]
    then have "socks w' l = None" using sub [of l] by (cases "socks w' l") auto
    with l ls fd [of l] show ?thesis by simp
  qed
  from inv 1 2 show ?thesis unfolding links_ok_def by blast
qed

text \<open>Every device tracker has its client at the other end, a local socket.\<close>

definition tracked :: "world \<Rightarrow> bool" where
  "tracked w \<longleftrightarrow> (\<forall>s k. socks w s = Some k \<longrightarrow> is_tracker k \<longrightarrow>
     peer k \<noteq> 0 \<and> (\<exists>q. socks w (peer k) = Some q \<and> is_local q))"

lemma trackedD:
  assumes "tracked w" and "socks w s = Some k" and "is_tracker k"
  obtains q where "peer k \<noteq> 0" and "socks w (peer k) = Some q" and "is_local q"
  using assms unfolding tracked_def by blast

lemma tracked_shrinks:
  assumes tr: "tracked w" and inv: "sock_inv {} w'" and sh: "shrinks w w'"
  shows "tracked w'"
  unfolding tracked_def
proof (intro allI impI)
  have sub: "\<And>a c. socks w' a = Some c \<Longrightarrow> \<exists>c0. socks w a = Some c0 \<and> enqueue c = enqueue c0 \<and> (peer c = peer c0 \<or> peer c = 0 \<and> is_local c)"
    using sh unfolding shrinks_def by blast
  fix s k assume s: "socks w' s = Some k" "is_tracker k"
  obtain k0 where k0: "socks w s = Some k0" "is_tracker k0" "peer k = peer k0" using sub [OF s(1)] s(2) by auto
  obtain q0 where q0: "peer k \<noteq> 0" "socks w (peer k) = Some q0" "is_local q0"
    using trackedD [OF tr k0(1,2)] k0(3) by metis
  obtain q where "socks w' (peer k) = Some q" by (rule peer_alive [OF inv s(1) _ q0(1)]) auto
  with sub [OF this] q0 show "peer k \<noteq> 0 \<and> (\<exists>q. socks w' (peer k) = Some q \<and> is_local q)" by auto
qed

lemma after_close_origin: "after_close k = Some c \<Longrightarrow> enqueue c = enqueue k \<and> peer c = 0 \<and> is_local c"
  by (auto simp: after_close_def split: if_splits)

lemma drop_disconnect_sub:
  "drop_disconnect s k tr t = Some x \<Longrightarrow> \<exists>x0. tr t = Some x0 \<and> serial x = serial x0 \<and> set (disconnects x) \<subseteq> set (disconnects x0)"
  by (auto simp: drop_disconnect_def split: if_splits dest: subsetD [OF set_remove1_subset])

lemma leaf_shrinks:
  assumes "leaf_result s k a w w'" and "socks w s = Some k"
  shows "shrinks w w'"
  unfolding shrinks_def
proof (intro conjI allI impI)
  fix b c assume b: "socks w' b = Some c"
  show "\<exists>c0. socks w b = Some c0 \<and> enqueue c = enqueue c0 \<and> (peer c = peer c0 \<or> peer c = 0 \<and> is_local c)"
  proof (cases "b = s")
    case True
    then have "after_close k = Some c" using assms(1) b by (simp add: leaf_result_def)
    from after_close_origin [OF this] True assms(2) show ?thesis by auto
  next
    case False
    then show ?thesis using assms(1) b by (simp add: leaf_result_def)
  qed
next
  fix t x assume "transports w' t = Some x"
  then show "\<exists>x0. transports w t = Some x0 \<and> serial x = serial x0 \<and> set (disconnects x) \<subseteq> set (disconnects x0)"
    using assms(1) by (auto simp: leaf_result_def dest: drop_disconnect_sub)
next
  fix l assume l: "socks w l = None"
  then have "l \<noteq> s" using assms(2) by auto
  then show "fdes (ev w') l = fdes (ev w) l" using assms(1) by (simp add: leaf_result_def)
qed (use assms in \<open>simp_all add: leaf_result_def same_rest_def\<close>)

lemma full_shrinks:
  assumes r: "close_result s k q w w'" and s: "socks w s = Some k" and q: "socks w (peer k) = Some q"
  shows "shrinks w w'"
  unfolding shrinks_def
proof (intro conjI allI impI)
  fix b c assume b: "socks w' b = Some c"
  show "\<exists>c0. socks w b = Some c0 \<and> enqueue c = enqueue c0 \<and> (peer c = peer c0 \<or> peer c = 0 \<and> is_local c)"
  proof (cases "b = s \<or> b = peer k")
    case True
    then obtain d where "socks w b = Some d" "after_close d = Some c"
      using b r s q by (auto simp: close_result_def split: if_splits)
    with after_close_origin show ?thesis by blast
  next
    case False
    then show ?thesis using b r by (simp add: close_result_def)
  qed
next
  fix t x assume "transports w' t = Some x"
  then have "drop_disconnect s k (drop_disconnect (peer k) q (transports w)) t = Some x" using r by (simp add: close_result_def)
  from drop_disconnect_sub [OF this] show "\<exists>x0. transports w t = Some x0 \<and> serial x = serial x0 \<and> set (disconnects x) \<subseteq> set (disconnects x0)"
    using drop_disconnect_sub by (metis order_trans)
next
  fix l assume l: "socks w l = None"
  then have "l \<noteq> s" "l \<noteq> peer k" using s q by auto
  then show "fdes (ev w') l = fdes (ev w) l" using r by (simp add: close_result_def)
qed (use r in \<open>simp_all add: close_result_def same_rest_def\<close>)

lemma close_shrinks:
  assumes inv: "sock_inv {} w" and s: "socks w s = Some k"
  shows "\<exists>w'. call_close s w = Inr w' \<and> sock_inv {} w' \<and> shrinks w w'
    \<and> trackers w' = remove1 s (remove1 (peer k) (trackers w))"
proof (cases "peer k = 0")
  case True
  from close_leaf [OF inv s True, of 1] obtain w' where
    "call_close s w = Inr w'" "sock_inv {} w'" "leaf_result s k 0 w w'" unfolding numeral_2_eq_2 by auto
  moreover have "remove1 (peer k) (trackers w) = trackers w"
    using True inv unfolding sock_inv_def lists_ok_def heap_ok_def sock_ok_def by (intro remove1_idem) blast
  ultimately show ?thesis using leaf_shrinks [OF _ s] by (auto simp: leaf_result_def)
next
  case False
  from close_full [OF inv s False, of 0] obtain w' q where
    w': "call_close s w = Inr w'" "sock_inv {} w'" "close_result s k q w w'" "socks w (peer k) = Some q"
    unfolding numeral_2_eq_2 by auto
  with full_shrinks [OF w'(3) s w'(4)] show ?thesis by (auto simp: close_result_def)
qed

lemma shrinks_fdes: "shrinks w w' \<Longrightarrow> socks w l = None \<Longrightarrow> fdes (ev w') l = fdes (ev w) l"
  unfolding shrinks_def by blast

lemma shrinks_same: "shrinks w w' \<Longrightarrow> dom (transports w') = dom (transports w) \<and> listeners w' = listeners w"
  unfolding shrinks_def by (elim conjE) (intro conjI)

lemma shrinks_trans:
  assumes a: "shrinks w w1" and n: "\<And>l. socks w l = None \<Longrightarrow> socks w1 l = None" and b: "shrinks w1 w2"
  shows "shrinks w w2"
  unfolding shrinks_def
proof (intro conjI allI impI)
  fix x c assume "socks w2 x = Some c"
  then obtain c1 where c1: "socks w1 x = Some c1" "enqueue c = enqueue c1" "peer c = peer c1 \<or> peer c = 0 \<and> is_local c"
    using b unfolding shrinks_def by blast
  then obtain c0 where "socks w x = Some c0" "enqueue c1 = enqueue c0" "peer c1 = peer c0 \<or> peer c1 = 0 \<and> is_local c1"
    using a unfolding shrinks_def by blast
  with c1 show "\<exists>c0. socks w x = Some c0 \<and> enqueue c = enqueue c0 \<and> (peer c = peer c0 \<or> peer c = 0 \<and> is_local c)"
    by (intro exI [of _ c0]) auto
next
  fix t x assume "transports w2 t = Some x"
  then obtain x1 where x1: "transports w1 t = Some x1" "serial x = serial x1" "set (disconnects x) \<subseteq> set (disconnects x1)"
    using b unfolding shrinks_def by blast
  then obtain x0 where "transports w t = Some x0" "serial x1 = serial x0" "set (disconnects x1) \<subseteq> set (disconnects x0)"
    using a unfolding shrinks_def by blast
  with x1(2,3) show "\<exists>x0. transports w t = Some x0 \<and> serial x = serial x0 \<and> set (disconnects x) \<subseteq> set (disconnects x0)" by auto
next
  fix l assume l: "socks w l = None"
  show "fdes (ev w2) l = fdes (ev w) l"
    by (rule trans [OF shrinks_fdes [OF b n [OF l]] shrinks_fdes [OF a l]])
next
  show "dom (transports w2) = dom (transports w)" "listeners w2 = listeners w"
    using shrinks_same [OF a] shrinks_same [OF b] by simp_all
qed

lemma shrinks_local:
  assumes "socks w s = Some k" and "socks w' = (socks w)(s \<mapsto> k')" and "enqueue k' = enqueue k" and "peer k' = peer k"
    and "transports w' = transports w" and "listeners w' = listeners w"
    and "\<And>l. l \<noteq> s \<Longrightarrow> fdes (ev w') l = fdes (ev w) l"
  shows "shrinks w w'"
  unfolding shrinks_def
proof (intro conjI allI impI)
  fix l assume "socks w l = None"
  then have "l \<noteq> s" using assms(1) by auto
  then show "fdes (ev w') l = fdes (ev w) l" by (rule assms(7))
next
  fix a c assume "socks w' a = Some c"
  then show "\<exists>c0. socks w a = Some c0 \<and> enqueue c = enqueue c0 \<and> (peer c = peer c0 \<or> peer c = 0 \<and> is_local c)"
    using assms(1-4) by (cases "a = s") auto
qed (use assms in auto)

text \<open>Data for a local socket.\<close>

lemma call_enqueue_local:
  assumes inv: "sock_inv {} w" and s: "socks w s = Some k" and l: "is_local k"
  shows "\<exists>r w'. call_enqueue hr hs s p w = Inr (r, w') \<and> sock_inv {} w' \<and> shrinks w w'
    \<and> (r = 0 \<longrightarrow> (\<exists>k'. socks w' s = Some k' \<and> sk_id k' = sk_id k))
    \<and> (trackers w' = trackers w \<or> trackers w' = remove1 (peer k) (trackers w))"
proof -
  have s0: "s \<noteq> 0" by (rule sock_invD(1) [OF inv s])
  have eq: "call_enqueue hr hs s p w = local_socket_enqueue_fn call_close s p w"
    using s s0 l by (simp add: call_enqueue_def numeral_2_eq_2 enqueue_sock.simps(2) sock_simps)
  obtain r w' where r: "local_socket_enqueue_fn call_close s p w = Inr (r, w')" "sock_inv {} w'"
    using local_enqueue_result [OF assms, of 0 p] by (auto simp: numeral_2_eq_2)
  have fr: "shrinks w w' \<and> (r = 0 \<longrightarrow> (\<exists>k'. socks w' s = Some k' \<and> sk_id k' = sk_id k))
    \<and> (trackers w' = trackers w \<or> trackers w' = remove1 (peer k) (trackers w))"
  proof (cases "pkts k = []")
    case False
    then have "w' = fd_op (fdevent_add s (ucast FDE_WRITE)) (w\<lparr>socks := (socks w)(s \<mapsto> k\<lparr>pkts := pkts k @ [p]\<rparr>)\<rparr>)" "r = 1"
      using r(1) s s0 by (auto simp: local_socket_enqueue_fn_def sock_simps Let_def set_pkts_def)
    then show ?thesis
      using shrinks_local [OF s, of w' "k\<lparr>pkts := pkts k @ [p]\<rparr>"] by (simp add: fd_op_def sock_simps)
  next
    case True
    obtain e out left evs where pu: "push False p (wrs w (sk_fd k)) = (e, out, left, evs)"
      by (cases "push False p (wrs w (sk_fd k))")
    let ?w1 = "put_out (sk_fd k) out evs w"
    have inv1: "sock_inv {} ?w1" and s1: "socks ?w1 s = Some k" using inv s by simp_all
    show ?thesis
    proof (cases e)
      case Done
      then have "w' = ?w1" using r(1) s s0 True pu by (simp add: local_socket_enqueue_fn_def sock_simps)
      then show ?thesis
        using s s1 shrinks_local [OF s, of w' k] by (simp add: fun_upd_idem put_out_def)
    next
      case Blocked
      then have w': "w' = fd_op (fdevent_add s (ucast FDE_WRITE)) (?w1\<lparr>socks := (socks ?w1)(s \<mapsto> k\<lparr>pkts := [left]\<rparr>)\<rparr>)"
        and "r = 1"
        using r(1) s s0 True pu by (auto simp: local_socket_enqueue_fn_def sock_simps set_pkts_def)
      then show ?thesis
        using shrinks_local [OF s, of w' "k\<lparr>pkts := [left]\<rparr>"] by (simp add: fd_op_def sock_simps put_out_def)
    next
      case Broken
      obtain w2 where w2: "call_close s ?w1 = Inr w2" "shrinks ?w1 w2"
        "trackers w2 = remove1 s (remove1 (peer k) (trackers ?w1))" using close_shrinks [OF inv1 s1] by blast
      moreover have "s \<notin> set (remove1 (peer k) (trackers w))"
        using lists_mem(3) [OF inv s] l by (auto dest: notin_set_remove1)
      ultimately have tr2: "trackers w2 = remove1 (peer k) (trackers w)" by (simp add: remove1_idem)
      have "w' = w2" "r = 1" using w2(1) r(1) s s0 True pu Broken by (auto simp: local_socket_enqueue_fn_def sock_simps)
      then show ?thesis using w2(2) tr2 by (simp add: shrinks_def put_out_def)
    qed
  qed
  show ?thesis using eq r fr by auto
qed

text \<open>\<open>ready\<close> of a local socket.\<close>

lemma local_ready_op:
  assumes inv: "sock_inv {} w" and s: "socks w s = Some k" and l: "is_local k"
  shows "\<exists>w'. local_socket_ready_op s w = Inr w' \<and> sock_inv {} w' \<and> shrinks w w' \<and> socks w' = socks w"
proof -
  let ?w' = "fd_op (fdevent_add s (ucast FDE_READ)) w"
  have "local_socket_ready_op s w = Inr ?w'"
    using s sock_invD(1) [OF inv s] by (simp add: local_socket_ready_op_def sock_simps)
  moreover have "shrinks w ?w'"
    by (rule shrinks_local [OF s, where k' = k]) (use s in \<open>simp_all add: fd_op_def fun_upd_idem sock_simps\<close>)
  ultimately show ?thesis
    using inv_read_interest(1) [OF assms] by (intro exI [of _ ?w']) (simp add: fd_op_def)
qed

lemma fd_write_frame:
  obtains ob wb where "fd_write fd bs w = w\<lparr>outs := (outs w)(fd := ob), wrs := (wrs w)(fd := wb)\<rparr>"
proof (cases "nb_write (length bs) (wrs w fd)")
  case (Pair r evs)
  then have "\<exists>o1. fd_write fd bs w = put_out fd o1 evs w" by (cases r) (auto simp: fd_write_def)
  then show thesis using that by (auto simp: put_out_def)
qed

lemma call_ready_local:
  assumes inv: "sock_inv {} w" and s: "socks w s = Some k" and l: "is_local k"
  shows "\<exists>w'. call_ready hr hs s w = Inr w' \<and> sock_inv {} w' \<and> shrinks w w'"
proof -
  note d = sock_invD [OF inv s]
  have s0: "s \<noteq> 0" by (rule d(1))
  consider "ready k = local_socket_ready" | "ready k = local_socket_ready_notify" "close k = local_socket_close_notify"
    using d(2) l by (auto simp: vtable_ok.simps)
  then show ?thesis
  proof cases
    case 1
    then have "call_ready hr hs s w = local_socket_ready_op s w"
      using s s0 by (simp add: call_ready_def ready_sock_def sock_simps)
    with local_ready_op [OF assms] show ?thesis by auto
  next
    case 2
    let ?k = "k\<lparr>ready := local_socket_ready, close := local_socket_close\<rparr>"
    let ?w1 = "w\<lparr>socks := (socks w)(s \<mapsto> ?k)\<rparr>"
    obtain ob wb where f: "fd_write (sk_fd k) (ascii ''OKAY'') ?w1
        = ?w1\<lparr>outs := (outs ?w1)(sk_fd k := ob), wrs := (wrs ?w1)(sk_fd k := wb)\<rparr>"
      by (rule fd_write_frame)
    let ?w2 = "?w1\<lparr>outs := (outs ?w1)(sk_fd k := ob), wrs := (wrs ?w1)(sk_fd k := wb)\<rparr>"
    obtain ps where ps: "fd_inv (ev w) ps" using inv by (auto simp: sock_inv_def)
    have nc: "\<not> closing k" using d(4) 2 by (auto simp: sock_ok_def)
    have inv2: "sock_inv {} ?w2"
    proof (rule inv_modify [OF inv s, where k' = ?k and qs = ps])
      show "sock_ok s ?k" using d(4) l nc by (simp add: sock_ok_def vtable_ok.simps)
      show "event_ok (ev ?w2) s ?k" using d(5) by (simp add: event_ok_def)
      have p: "peers_ok {} w" using inv by (simp add: sock_inv_def)
      show "peers_ok {} ?w2" by (rule peers_ok_same [OF p]) (simp add: s)
    qed (simp_all add: ps)
    have s2: "socks ?w2 s = Some ?k" by simp
    obtain w' where w': "local_socket_ready_op s ?w2 = Inr w'" "sock_inv {} w'" "shrinks ?w2 w'" "socks w' = socks ?w2"
      using local_ready_op [OF inv2 s2] l by auto
    have "call_ready hr hs s w = Inr w'"
      using s s0 2 f w'(1) by (simp add: call_ready_def ready_sock_def local_socket_ready_notify_op_def sock_simps)
    moreover have "shrinks w ?w2"
      by (rule shrinks_local [OF s, where k' = ?k]) simp_all
    then have "shrinks w w'" by (rule shrinks_trans [OF _ _ w'(3)]) (use s in auto)
    ultimately show ?thesis using w'(2) by blast
  qed
qed

section \<open>Packets\<close>

lemma links_ok_sent [simp]: "links_ok (w\<lparr>sent := ms\<rparr>) = links_ok w"
  by (simp add: links_ok_def)

definition fresh_addr :: "nat \<Rightarrow> world \<Rightarrow> bool" where
  "fresh_addr a w \<longleftrightarrow> a \<noteq> 0 \<and> socks w a = None \<and> listeners w a = None"

text \<open>What \<open>check_header\<close> and \<open>check_data\<close> let through.\<close>

definition received :: "apacket \<Rightarrow> bool" where
  "received p \<longleftrightarrow> length (pk_data p) = MAX_PAYLOAD \<and> unat (data_length (pk_msg p)) \<le> MAX_PAYLOAD"

text \<open>The state a packet leaves.\<close>

definition steady :: "nat \<Rightarrow> world \<Rightarrow> bool" where
  "steady t w \<longleftrightarrow> links_ok w \<and> tracked w \<and> transports w t \<noteq> None \<and> names_fit w"

lemma names_fit_update:
  assumes "names_fit w" and "transports w t = Some x" and "serial y = serial x" and "transports w' = (transports w)(t \<mapsto> y)"
  shows "names_fit w'"
  using assms by (auto simp: names_fit_def shown_serial_def)

lemma names_fit_shrinks: "names_fit w \<Longrightarrow> shrinks w w' \<Longrightarrow> names_fit w'"
  unfolding names_fit_def
proof (intro allI impI)
  fix t x assume nf: "\<forall>t x. transports w t = Some x \<longrightarrow> length (shown_serial x) \<le> 1000" and "shrinks w w'"
    and "transports w' t = Some x"
  then obtain x0 where "transports w t = Some x0" "serial x = serial x0" unfolding shrinks_def by blast
  with nf show "length (shown_serial x) \<le> 1000" by (auto simp: shown_serial_def)
qed

lemma steady_shrinks:
  assumes "steady t w" and "sock_inv {} w'" and "shrinks w w'"
  shows "steady t w'"
  using assms links_ok_shrinks [of w w'] tracked_shrinks [of w w'] shrinks_same [of w w'] names_fit_shrinks [of w w']
  by (auto simp: steady_def links_ok_def)

lemma steady_sent [simp]: "steady t (w\<lparr>sent := ms\<rparr>) = steady t w"
  by (simp add: steady_def names_fit_def tracked_def)

lemma steady_open:
  assumes "steady t w"
  obtains x where "transports w t = Some x" and "t \<noteq> 0" and "open_end x"
  using assms unfolding steady_def links_ok_def sock_inv_def transports_ok_def by blast

lemma send_received:
  assumes "received p" and "steady t w"
  shows "\<exists>ms. send_packet p t w = Inr (w\<lparr>sent := ms\<rparr>)"
proof -
  obtain x where x: "transports w t = Some x" "t \<noteq> 0" "open_end x" by (rule steady_open [OF assms(2)])
  have "\<exists>s. sum_data (unat (data_length (pk_msg p))) (pk_data p) 0 = Some s"
    using assms(1) sum_data_eq [of "unat (data_length (pk_msg p))" "pk_data p" 0] by (auto simp: received_def)
  then show ?thesis using x by (auto simp: send_packet_def seal_packet_def Let_def)
qed

lemma send_small:
  assumes "length bs \<le> MAX_PAYLOAD" and "steady t w"
  shows "\<exists>ms. send_packet (packet c a b bs) t w = Inr (w\<lparr>sent := ms\<rparr>)"
proof -
  obtain x where "transports w t = Some x" "t \<noteq> 0" "open_end x" by (rule steady_open [OF assms(2)])
  with send_packet_wire [OF assms(1) this] show ?thesis by blast
qed

lemma attach_links:
  assumes ok: "steady t w" and s: "socks w s = Some k" "is_local k" "peer k = 0" "\<not> closing k" and a: "fresh_addr a w"
  shows "\<exists>w' k'. attach_remote a i t s w = Inr w' \<and> steady t w' \<and> socks w' s = Some k' \<and> is_local k' \<and> sk_id k' = sk_id k
    \<and> peer k' = a \<and> socks w' a \<noteq> None"
proof -
  have inv: "sock_inv {} w" using ok by (simp add: steady_def links_ok_def)
  obtain x where x: "transports w t = Some x" using ok by (auto simp: steady_def)
  obtain w' where w': "attach_remote a i t s w = Inr w'" "sock_inv {} w'"
    "socks w' = (socks w)(s \<mapsto> k\<lparr>peer := a\<rparr>, a \<mapsto> (remote_sock i t)\<lparr>peer := s\<rparr>)"
    "ev w' = ev w" "trackers w' = trackers w" "listeners w' = listeners w"
    "transports w' = (transports w)(t \<mapsto> x\<lparr>disconnects := disconnects x @ [remote_socket_disconnect a]\<rparr>)"
    by (rule attach_remote_result [OF inv s(1,3,4) _ _ x, of a i]) (use a in \<open>auto simp: fresh_addr_def\<close>)
  have as: "a \<noteq> s" using s a by (auto simp: fresh_addr_def)
  have o1: "\<And>s k. socks w s = Some k \<Longrightarrow> is_remote k \<Longrightarrow> peer k \<noteq> 0 \<Longrightarrow> \<exists>q. socks w (peer k) = Some q \<and> is_local q"
    and o2: "\<And>t x l. transports w t = Some x \<Longrightarrow> listener_disconnect l \<in> set (disconnects x) \<Longrightarrow>
      (\<exists>y. listeners w l = Some y \<and> l_transport y = t) \<and> l \<noteq> 0 \<and> socks w l = None \<and> bit (state (fdes (ev w) l)) 8"
    using ok unfolding steady_def links_ok_def by blast+
  have 1: "\<exists>q. socks w' (peer c) = Some q \<and> is_local q" if b: "socks w' b = Some c" "is_remote c" "peer c \<noteq> 0" for b c
  proof (cases "b = a")
    case True
    then show ?thesis using b as s w'(3) by auto
  next
    case False
    then have "socks w b = Some c" using b s w'(3) by (auto split: if_splits)
    from o1 [OF this b(2,3)] obtain q where q: "socks w (peer c) = Some q" "is_local q" by blast
    then have "peer c \<noteq> a" using a by (auto simp: fresh_addr_def)
    then show ?thesis using q s w'(3) by (cases "peer c = s") auto
  qed
  have 2: "(\<exists>y. listeners w' l = Some y \<and> l_transport y = t') \<and> l \<noteq> 0 \<and> socks w' l = None \<and> bit (state (fdes (ev w') l)) 8"
    if h: "transports w' t' = Some z" "listener_disconnect l \<in> set (disconnects z)" for t' z l
  proof -
    obtain z0 where "transports w t' = Some z0" "listener_disconnect l \<in> set (disconnects z0)"
      using h x w'(7) by (auto split: if_splits)
    note l = o2 [OF this]
    then have "l \<noteq> a" "l \<noteq> s" using a s by (auto simp: fresh_addr_def)
    with l w' show ?thesis by simp
  qed
  have "links_ok w'" using w'(2) 1 2 unfolding links_ok_def by blast
  moreover have "names_fit w'" by (rule names_fit_update [OF _ x _ w'(7)]) (use ok in \<open>simp_all add: steady_def\<close>)
  moreover have "tracked w'"
    unfolding tracked_def
  proof (intro allI impI)
    fix b c assume b: "socks w' b = Some c" "is_tracker c"
    then have "socks w b = Some c" using w'(3) s as by (auto simp: remote_sock_def split: if_splits)
    moreover have "tracked w" using ok by (simp add: steady_def)
    ultimately obtain q where q: "peer c \<noteq> 0" "socks w (peer c) = Some q" "is_local q" using b(2) trackedD by blast
    then have "peer c \<noteq> a" using a by (auto simp: fresh_addr_def)
    then show "peer c \<noteq> 0 \<and> (\<exists>q. socks w' (peer c) = Some q \<and> is_local q)"
      using q w'(3) s by (cases "peer c = s") auto
  qed
  ultimately have "steady t w'" using ok w' by (simp add: steady_def)
  then show ?thesis using w'(1,3) as s by (intro exI [of _ w'] exI [of _ "k\<lparr>peer := a\<rparr>"]) simp
qed

lemma find_local:
  assumes "steady t w" and "find_local_socket i w \<noteq> 0"
  obtains k where "socks w (find_local_socket i w) = Some k" and "is_local k" and "\<not> closing k" and "sk_id k = i"
proof -
  have f: "\<exists>s. find (\<lambda>s. map_option sk_id (socks w s) = Some i) (local_list w) = Some s"
    using assms(2) by (auto simp: find_local_socket_def split: option.splits)
  then obtain s where s: "find (\<lambda>s. map_option sk_id (socks w s) = Some i) (local_list w) = Some s" ..
  then have "s \<in> set (local_list w)" "map_option sk_id (socks w s) = Some i" by (auto simp: find_Some_iff)
  moreover have "find_local_socket i w = s" using s by (simp add: find_local_socket_def)
  ultimately show thesis using that assms(1) by (auto simp: steady_def links_ok_def sock_inv_def lists_ok_def)
qed

lemma steady_inv: "steady t w \<Longrightarrow> sock_inv {} w"
  by (simp add: steady_def links_ok_def)

lemma handle_okay_safe:
  assumes ok: "steady t w" and a: "fresh_addr a w"
  shows "\<exists>w'. handle_okay (call_ready hr hs) a p t w = Inr w' \<and> steady t w'"
proof (cases "find_local_socket (arg1 (pk_msg p)) w = 0")
  case True
  then show ?thesis using ok by (simp add: handle_okay_def)
next
  case False
  let ?s = "find_local_socket (arg1 (pk_msg p)) w"
  obtain k where k: "socks w ?s = Some k" "is_local k" "\<not> closing k" by (rule find_local [OF ok False])
  have "\<exists>w1 k1. (if peer k = 0 then attach_remote a (arg0 (pk_msg p)) t ?s w else Inr w) = Inr w1 \<and> steady t w1
      \<and> socks w1 ?s = Some k1 \<and> is_local k1"
  proof (cases "peer k = 0")
    case True
    with attach_links [OF ok k(1,2) True k(3) a, where i = "arg0 (pk_msg p)"] show ?thesis by auto
  next
    case False
    then show ?thesis using ok k by auto
  qed
  then obtain w1 k1 where w1: "(if peer k = 0 then attach_remote a (arg0 (pk_msg p)) t ?s w else Inr w) = Inr w1"
    "steady t w1" "socks w1 ?s = Some k1" "is_local k1" by blast
  obtain w' where w': "call_ready hr hs ?s w1 = Inr w'" "sock_inv {} w'" "shrinks w1 w'"
    using call_ready_local [OF steady_inv [OF w1(2)] w1(3,4)] by blast
  have "handle_okay (call_ready hr hs) a p t w = Inr w'"
    using False k w1(1) w'(1) by (simp add: handle_okay_def Let_def sock_simps)
  then show ?thesis using steady_shrinks [OF w1(2) w'(2,3)] by blast
qed

text \<open>A socket for a service leaves the links alone.\<close>

lemma opened_steady:
  assumes ok: "steady t w" and e: "opens_ok e w" and inv: "sock_inv {} w'"
    and s: "socks w' = (socks w)(s_socket e \<mapsto> k)" "enqueue k = local_socket_enqueue"
    and r: "transports w' = transports w" "listeners w' = listeners w"
    and f: "\<And>b. b \<noteq> s_socket e \<Longrightarrow> fdes (ev w') b = fdes (ev w) b"
  shows "steady t w'"
proof -
  have n: "socks w (s_socket e) = None" "listeners w (s_socket e) = None" using e by (simp_all add: opens_ok_def)
  have o1: "\<And>s k. socks w s = Some k \<Longrightarrow> is_remote k \<Longrightarrow> peer k \<noteq> 0 \<Longrightarrow> \<exists>q. socks w (peer k) = Some q \<and> is_local q"
    and o2: "\<And>t x l. transports w t = Some x \<Longrightarrow> listener_disconnect l \<in> set (disconnects x) \<Longrightarrow>
      (\<exists>y. listeners w l = Some y \<and> l_transport y = t) \<and> l \<noteq> 0 \<and> socks w l = None \<and> bit (state (fdes (ev w) l)) 8"
    using ok unfolding steady_def links_ok_def by blast+
  have 1: "\<exists>q. socks w' (peer c) = Some q \<and> is_local q" if b: "socks w' b = Some c" "is_remote c" "peer c \<noteq> 0" for b c
  proof -
    have "b \<noteq> s_socket e" using b s by auto
    then have "socks w b = Some c" using b s by simp
    from o1 [OF this b(2,3)] n(1) s(1) show ?thesis by (cases "peer c = s_socket e") auto
  qed
  have 2: "(\<exists>y. listeners w' l = Some y \<and> l_transport y = t') \<and> l \<noteq> 0 \<and> socks w' l = None \<and> bit (state (fdes (ev w') l)) 8"
    if h: "transports w' t' = Some z" "listener_disconnect l \<in> set (disconnects z)" for t' z l
  proof -
    have l: "(\<exists>y. listeners w l = Some y \<and> l_transport y = t') \<and> l \<noteq> 0 \<and> socks w l = None \<and> bit (state (fdes (ev w) l)) 8"
      using o2 [of t' z l] h r(1) by simp
    then have "l \<noteq> s_socket e" using n(2) by auto
    with l s(1) r(2) f show ?thesis by simp
  qed
  have "links_ok w'" using inv 1 2 unfolding links_ok_def by blast
  moreover have "tracked w'"
    unfolding tracked_def
  proof (intro allI impI)
    fix b c assume b: "socks w' b = Some c" "is_tracker c"
    then have "socks w b = Some c" using s by (auto split: if_splits)
    moreover have "tracked w" using ok by (simp add: steady_def)
    ultimately obtain q where q: "peer c \<noteq> 0" "socks w (peer c) = Some q" "is_local q" using b(2) trackedD by blast
    then have "peer c \<noteq> s_socket e" using n by auto
    then show "peer c \<noteq> 0 \<and> (\<exists>q. socks w' (peer c) = Some q \<and> is_local q)" using q s by simp
  qed
  ultimately show ?thesis using ok r by (simp add: steady_def names_fit_def)
qed

lemma handle_open_safe:
  assumes ok: "steady t w" and a: "fresh_addr a w" and p: "received p" and e: "opens_ok e w" "s_socket e \<noteq> a"
  shows "\<exists>w'. handle_open (call_ready hr hs) (create_local_service_socket e) a p t w = Inr w' \<and> steady t w'"
proof -
  let ?n = "unat (data_length (pk_msg p))" and ?s = "s_socket e"
  define i where "i = (if 0 < ?n then ?n - 1 else 0)"
  define name where "name = cstr ((pk_data p)[i := 0])"
  have i: "i < length (pk_data p)" using p by (auto simp: received_def i_def MAX_PAYLOAD_def)
  have h: "handle_open (call_ready hr hs) (create_local_service_socket e) a p t w =
      sbind (create_local_service_socket e name w) (\<lambda>(s, w1).
        if s = 0 then send_close 0 (arg0 (pk_msg p)) t w1
        else sbind (attach_remote a (arg0 (pk_msg p)) t s w1) (\<lambda>w2.
             sbind (deref s w2) (\<lambda>k. sbind (deref (peer k) w2) (\<lambda>q.
             sbind (send_ready (sk_id k) (sk_id q) t w2) (call_ready hr hs s)))))"
    using i by (simp add: handle_open_def Let_def name_def i_def)
  show ?thesis
  proof (rule service_socket_result [OF steady_inv [OF ok] e(1), of name])
    assume "create_local_service_socket e name w = Inr (0, w)"
    moreover obtain ms where "send_close 0 (arg0 (pk_msg p)) t w = Inr (w\<lparr>sent := ms\<rparr>)"
      using send_small [OF _ ok, of "[]" A_CLSE 0 "arg0 (pk_msg p)"] by (auto simp: send_close_def)
    ultimately show ?thesis using h ok by simp
  next
    fix w1 fd
    let ?k = "zero_sock\<lparr>sk_fd := fd, sk_id := next_id w\<rparr>"
    assume w1: "create_local_service_socket e name w = Inr (?s, w1)" "sock_inv {} w1" "socks w1 = (socks w)(?s \<mapsto> ?k)"
      "transports w1 = transports w" "trackers w1 = trackers w" "listeners w1 = listeners w"
      "\<And>b. b \<noteq> ?s \<Longrightarrow> fdes (ev w1) b = fdes (ev w) b"
    have st: "steady t w1" by (rule opened_steady [OF ok e(1) w1(2,3) _ w1(4,6,7)]) (simp add: zero_sock_def)
    have s0: "?s \<noteq> 0" "a \<noteq> 0" using e a by (simp_all add: opens_ok_def fresh_addr_def)
    have k1: "socks w1 ?s = Some ?k" using w1(3) by simp
    have a1: "fresh_addr a w1" using a e(2) w1(3,6) by (simp add: fresh_addr_def)
    obtain w2 k2 where w2: "attach_remote a (arg0 (pk_msg p)) t ?s w1 = Inr w2" "steady t w2" "socks w2 ?s = Some k2"
      "is_local k2" "peer k2 = a" "socks w2 a \<noteq> None"
      using attach_links [OF st k1 _ _ _ a1, of "arg0 (pk_msg p)"] by (auto simp: zero_sock_def)
    obtain q where q: "socks w2 a = Some q" using w2(6) by auto
    obtain ms where ms: "send_ready (sk_id k2) (sk_id q) t w2 = Inr (w2\<lparr>sent := ms\<rparr>)"
      using send_small [OF _ w2(2), of "[]" A_OKAY "sk_id k2" "sk_id q"] by (auto simp: send_ready_def)
    have st3: "steady t (w2\<lparr>sent := ms\<rparr>)" "socks (w2\<lparr>sent := ms\<rparr>) ?s = Some k2" using w2 by simp_all
    obtain w' where w': "call_ready hr hs ?s (w2\<lparr>sent := ms\<rparr>) = Inr w'" "sock_inv {} w'" "shrinks (w2\<lparr>sent := ms\<rparr>) w'"
      using call_ready_local [OF steady_inv [OF st3(1)] st3(2) w2(4)] by blast
    have "handle_open (call_ready hr hs) (create_local_service_socket e) a p t w = Inr w'"
      using h w1(1) s0 w2(1,3,5) q ms w'(1) by (simp add: sock_simps)
    then show ?thesis using steady_shrinks [OF st3(1) w'(2,3)] by blast
  qed
qed

lemma handle_clse_safe:
  assumes ok: "steady t w"
  shows "\<exists>w'. handle_clse call_close p w = Inr w' \<and> steady t w'"
proof (cases "find_local_socket (arg1 (pk_msg p)) w = 0")
  case True
  then show ?thesis using ok by (simp add: handle_clse_def)
next
  case False
  obtain k where k: "socks w (find_local_socket (arg1 (pk_msg p)) w) = Some k" by (rule find_local [OF ok False])
  from close_shrinks [OF steady_inv [OF ok] k] steady_shrinks [OF ok] False show ?thesis
    by (auto simp: handle_clse_def Let_def)
qed

lemma handle_wrte_safe:
  assumes ok: "steady t w"
  shows "\<exists>w'. handle_wrte (call_enqueue hr hs) p t w = Inr w' \<and> steady t w'"
proof (cases "find_local_socket (arg1 (pk_msg p)) w = 0")
  case True
  then show ?thesis using ok by (simp add: handle_wrte_def)
next
  case False
  let ?s = "find_local_socket (arg1 (pk_msg p)) w" and ?d = "take (unat (data_length (pk_msg p))) (pk_data p)"
  obtain k where k: "socks w ?s = Some k" "is_local k" by (rule find_local [OF ok False])
  obtain r w1 where w1: "call_enqueue hr hs ?s ?d w = Inr (r, w1)" "sock_inv {} w1" "shrinks w w1"
    "r = 0 \<longrightarrow> (\<exists>k'. socks w1 ?s = Some k' \<and> sk_id k' = sk_id k)"
    using call_enqueue_local [OF steady_inv [OF ok] k] by blast
  have st: "steady t w1" by (rule steady_shrinks [OF ok w1(2,3)])
  show ?thesis
  proof (cases "r = 0")
    case True
    then obtain k' where k': "socks w1 ?s = Some k'" using w1(4) by blast
    obtain ms where ms: "send_packet (packet A_OKAY (sk_id k') (arg0 (pk_msg p)) []) t w1 = Inr (w1\<lparr>sent := ms\<rparr>)"
      using send_small [OF _ st, of "[]" A_OKAY "sk_id k'" "arg0 (pk_msg p)"] by auto
    have "handle_wrte (call_enqueue hr hs) p t w = Inr (w1\<lparr>sent := ms\<rparr>)"
      using False w1(1) True k' ms by (simp add: handle_wrte_def Let_def sock_simps send_ready_def)
    then show ?thesis using st by simp
  next
    case nz: False
    have "handle_wrte (call_enqueue hr hs) p t w = Inr w1"
      using False w1(1) nz by (simp add: handle_wrte_def Let_def)
    then show ?thesis using st by blast
  qed
qed

lemma steady_transport:
  assumes "steady t w" and "transports w t = Some x" and "disconnects y = disconnects x" and "serial y = serial x"
    and "open_end y = open_end x"
  shows "steady t (w\<lparr>transports := (transports w)(t \<mapsto> y)\<rparr>)"
  using assms links_ok_transport [of w t x y] names_fit_update [OF _ assms(2,4)] by (simp add: steady_def tracked_def)

lemma set_transport_steady:
  assumes "steady t w" and "\<And>x. disconnects (f x) = disconnects x" and "\<And>x. serial (f x) = serial x"
    and "\<And>x. open_end (f x) = open_end x"
  shows "\<exists>w'. set_transport t f w = Inr w' \<and> steady t w'"
proof -
  obtain x where x: "transports w t = Some x" using assms(1) by (auto simp: steady_def)
  then have "t \<noteq> 0" using assms(1) links_transport_nz by (auto simp: steady_def)
  with set_transport_Some [OF x] steady_transport [OF assms(1) x assms(2,3,4)] show ?thesis by blast
qed

lemma handle_offline_steady:
  assumes ok: "steady t w"
  shows "\<exists>w'. handle_offline t w = Inr w' \<and> steady t w' \<and> sent w' = sent w
    \<and> transports w' = (transports w)(t := map_option (\<lambda>x. x\<lparr>t_online := False, disconnects := []\<rparr>) (transports w t))"
proof -
  obtain x where x: "transports w t = Some x" using ok by (auto simp: steady_def)
  have l: "links_ok w" and tr: "tracked w" using ok by (simp_all add: steady_def)
  obtain w' where w': "handle_offline t w = Inr w'" "links_ok w'"
    "transports w' = (transports w)(t \<mapsto> x\<lparr>t_online := False, disconnects := []\<rparr>)"
    "\<forall>a c. socks w' a = Some c \<longrightarrow> \<not> is_local c \<longrightarrow> socks w a = Some c" "sent w' = sent w"
    using handle_offline_safe [OF l x] by blast
  have "tracked w'"
    unfolding tracked_def
  proof (intro allI impI)
    fix s c assume c: "socks w' s = Some c" "is_tracker c"
    then have "socks w s = Some c" using w'(4) by simp
    then obtain q0 where q0: "peer c \<noteq> 0" "socks w (peer c) = Some q0" "is_local q0" using trackedD [OF tr _ c(2)] by blast
    have "sock_inv {} w'" using w'(2) by (simp add: links_ok_def)
    then obtain q where "socks w' (peer c) = Some q" by (rule peer_alive [OF _ c(1) _ q0(1)]) auto
    with q0 w'(4) show "peer c \<noteq> 0 \<and> (\<exists>q. socks w' (peer c) = Some q \<and> is_local q)" by fastforce
  qed
  moreover have "names_fit w'" by (rule names_fit_update [OF _ x _ w'(3)]) (use ok in \<open>simp_all add: steady_def\<close>)
  ultimately have "steady t w'" using w' by (auto simp: steady_def)
  then show ?thesis using w' x by auto
qed

text \<open>The settings under which CNXN and AUTH packets can be built.\<close>

definition settings_ok :: "server \<Rightarrow> byte list \<Rightarrow> bool" where
  "settings_ok g fresh \<longleftrightarrow> (\<exists>bs. fill_connect_data g = Inr bs) \<and> length fresh \<le> MAX_PAYLOAD"

lemma print_at_length: "print_at b (buf, pos) = Some (buf', pos') \<Longrightarrow> pos \<le> length buf \<Longrightarrow> length buf' = length buf \<and> pos' \<le> length buf"
  by (auto simp: print_at_def Let_def split: if_splits)

lemma print_all_length: "print_all bs (buf, pos) = Some (buf', pos') \<Longrightarrow> pos \<le> length buf \<Longrightarrow> length buf' = length buf"
proof (induction bs arbitrary: buf pos)
  case (Cons b bs)
  then obtain buf1 pos1 where "print_at b (buf, pos) = Some (buf1, pos1)" "print_all bs (buf1, pos1) = Some (buf', pos')"
    by (auto simp: bind_eq_Some_conv)
  with Cons.IH [of buf1 pos1] print_at_length [of b buf pos buf1 pos1] Cons.prems(2) show ?case by simp
qed simp

lemma fill_connect_length: "fill_connect_data g = Inr bs \<Longrightarrow> length bs \<le> MAX_PAYLOAD"
  unfolding fill_connect_data_def
  by (auto simp del: print_all.simps split: option.splits prod.splits if_split_asm dest!: print_all_length)

lemma send_connect_steady:
  assumes "settings_ok g fresh" and "steady t w"
  shows "\<exists>w'. send_connect g t w = Inr w' \<and> steady t w'"
proof -
  obtain bs where bs: "fill_connect_data g = Inr bs" using assms(1) by (auto simp: settings_ok_def)
  obtain ms where "send_connect g t w = Inr (w\<lparr>sent := ms\<rparr>)"
    using send_small [OF fill_connect_length [OF bs] assms(2), of A_CNXN A_VERSION "word_of_nat MAX_PAYLOAD"] bs
    by (auto simp: send_connect_def)
  then show ?thesis using assms(2) by simp
qed

lemma handle_sync_safe:
  assumes ok: "steady t w" and p: "received p" and g: "settings_ok g fresh"
  shows "\<exists>w'. handle_sync g p t w = Inr w' \<and> steady t w'"
proof (cases "arg0 (pk_msg p) = 0")
  case False
  obtain ms where ms: "send_packet p t w = Inr (w\<lparr>sent := ms\<rparr>)" using send_received [OF p ok] by blast
  have st: "steady t (w\<lparr>sent := ms\<rparr>)" using ok by simp
  show ?thesis using False ms send_connect_steady [OF g st] st by (cases "HOST g") (auto simp: handle_sync_def)
next
  case True
  obtain w1 where w1: "set_transport t (\<lambda>x. x\<lparr>connection_state := CS_OFFLINE\<rparr>) w = Inr w1" "steady t w1"
    using set_transport_steady [OF ok, of "\<lambda>x. x\<lparr>connection_state := CS_OFFLINE\<rparr>"] by auto
  obtain w2 where w2: "handle_offline t w1 = Inr w2" "steady t w2" using handle_offline_steady [OF w1(2)] by blast
  obtain ms where ms: "send_packet p t w2 = Inr (w2\<lparr>sent := ms\<rparr>)" using send_received [OF p w2(2)] by blast
  have "handle_sync g p t w = Inr (w2\<lparr>sent := ms\<rparr>)" using True w1(1) w2(1) ms by (simp add: handle_sync_def)
  then show ?thesis using w2(2) by simp
qed

lemma banner_prop_disconnects [simp]: "disconnects (banner_prop b x) = disconnects x"
  by (auto simp: banner_prop_def split: option.splits)

lemma banner_prop_serial [simp]: "serial (banner_prop b x) = serial x"
  by (auto simp: banner_prop_def split: option.splits)

lemma banner_prop_open [simp]: "open_end (banner_prop b x) = open_end x"
  by (auto simp: banner_prop_def split: option.splits)

lemma fold_banner_keeps [simp]: "disconnects (fold banner_prop bs x) = disconnects x" "serial (fold banner_prop bs x) = serial x"
  "open_end (fold banner_prop bs x) = open_end x"
  by (induction bs arbitrary: x) simp_all

text \<open>The walk over the trackers: each is asked for its successor before its client gets the message, and a
  client that cannot be written takes only its own tracker with it.\<close>

lemma tracker_send_safe:
  assumes inv: "sock_inv {} w" and tr: "tracked w" and s: "s \<in> set (trackers w)"
  shows "\<exists>r w1. deref s w \<noteq> Inl (UseAfterFree s) \<and> device_tracker_send (call_enqueue hr hs) s msg w = Inr (r, w1)
    \<and> (\<exists>k. deref s w = Inr k) \<and> sock_inv {} w1 \<and> shrinks w w1
    \<and> (trackers w1 = trackers w \<or> trackers w1 = remove1 s (trackers w))"
proof -
  obtain k where k: "socks w s = Some k" "is_tracker k" using inv s unfolding sock_inv_def lists_ok_def by blast
  then have d: "deref s w = Inr k" using sock_invD(1) [OF inv k(1)] by (simp add: sock_simps)
  obtain q where q: "peer k \<noteq> 0" "socks w (peer k) = Some q" "is_local q" using trackedD [OF tr k] by blast
  have qs: "peer q = s" using peer_alive [OF inv k(1) _ q(1)] q(2) by (metis empty_iff option.inject)
  show ?thesis
    using call_enqueue_local [OF inv q(2,3), of hr hs msg] d qs q(1,2)
    by (auto simp: device_tracker_send_def sock_simps)
qed

lemma send_all_safe:
  assumes "sock_inv {} w" and "tracked w" and "trackers w = as @ bs" and "length bs \<le> n"
  shows "\<exists>w'. send_all (call_enqueue hr hs) msg n (case bs of [] \<Rightarrow> None | s # _ \<Rightarrow> Some s) w = Inr w'
    \<and> sock_inv {} w' \<and> shrinks w w'"
  using assms
proof (induction bs arbitrary: as w n)
  case Nil
  then show ?case by (simp add: shrinks_refl)
next
  case (Cons s bs)
  then obtain m where n: "n = Suc m" by (cases n) auto
  have dist: "distinct (as @ s # bs)" using Cons.prems(1,3) by (auto simp: sock_inv_def lists_ok_def)
  then have "dropWhile (\<lambda>y. y \<noteq> s) (as @ s # bs) = s # bs" by (subst dropWhile_append2) auto
  then have nx: "succ_in s (trackers w) = (case bs of [] \<Rightarrow> None | s # _ \<Rightarrow> Some s)"
    using Cons.prems(3) by (simp add: succ_in_def split: list.split)
  have "s \<in> set (trackers w)" using Cons.prems(3) by simp
  from tracker_send_safe [OF Cons.prems(1,2) this, of hr hs msg] obtain r w1 k where
    w1: "device_tracker_send (call_enqueue hr hs) s msg w = Inr (r, w1)" "deref s w = Inr k" "sock_inv {} w1" "shrinks w w1"
      "trackers w1 = trackers w \<or> trackers w1 = remove1 s (trackers w)" by blast
  have "\<exists>as'. trackers w1 = as' @ bs"
  proof (cases "trackers w1 = trackers w")
    case True
    then show ?thesis using Cons.prems(3) by (intro exI [of _ "as @ [s]"]) simp
  next
    case False
    have "s \<notin> set as" using dist by simp
    then have "trackers w1 = as @ bs" using False w1(5) Cons.prems(3) by (simp add: remove1_append)
    then show ?thesis by blast
  qed
  then obtain as' where as': "trackers w1 = as' @ bs" ..
  have "length bs \<le> m" using Cons.prems(4) n by simp
  from Cons.IH [OF w1(3) tracked_shrinks [OF Cons.prems(2) w1(3,4)] as' this] obtain w' where
    w': "send_all (call_enqueue hr hs) msg m (case bs of [] \<Rightarrow> None | s # _ \<Rightarrow> Some s) w1 = Inr w'" "sock_inv {} w'" "shrinks w1 w'"
    by blast
  have gone: "socks w1 l = None" if "socks w l = None" for l
  proof (rule ccontr)
    assume "socks w1 l \<noteq> None"
    then obtain c where "socks w1 l = Some c" by blast
    then obtain c0 where "socks w l = Some c0" using w1(4) unfolding shrinks_def by blast
    with that show False by simp
  qed
  have "send_all (call_enqueue hr hs) msg n (Some s) w = Inr w'"
    using w1(1,2) w'(1) n nx by (simp add: Let_def)
  moreover have "shrinks w w'" by (rule shrinks_trans [OF w1(4) gone w'(3)])
  ultimately show ?case using w'(2) by auto
qed

lemma update_transports_steady:
  assumes ok: "steady t w"
  shows "\<exists>w'. update_transports hr hs w = Inr w' \<and> steady t w'"
proof -
  obtain body where "list_transports_msg 1024 w = Some (hex4 (length body) @ body)"
    by (rule names_fit_msg [of w]) (use ok in \<open>simp add: steady_def\<close>)
  moreover obtain w' where "send_all (call_enqueue hr hs) (hex4 (length body) @ body) (length (trackers w))
      (case trackers w of [] \<Rightarrow> None | s # _ \<Rightarrow> Some s) w = Inr w'" "sock_inv {} w'" "shrinks w w'"
    using send_all_safe [OF steady_inv [OF ok] _ _ order_refl, of "[]" "trackers w" hr hs] ok unfolding steady_def by auto
  ultimately show ?thesis using steady_shrinks [OF ok] by (auto simp: update_transports_def)
qed

lemma parse_banner_steady:
  assumes ok: "steady t w"
  shows "\<exists>w'. parse_banner g hr hs b t w = Inr w' \<and> steady t w'"
proof -
  obtain w1 where w1: "set_transport t (fold banner_prop (banner_props b)) w = Inr w1" "steady t w1"
    using set_transport_steady [OF ok, of "fold banner_prop (banner_props b)"] by auto
  obtain w2 where w2: "set_transport t (\<lambda>x. x\<lparr>connection_state := banner_state (banner_type b)\<rparr>) w1 = Inr w2" "steady t w2"
    using set_transport_steady [OF w1(2), of "\<lambda>x. x\<lparr>connection_state := banner_state (banner_type b)\<rparr>"] by auto
  then show ?thesis using update_transports_steady [OF w2(2), of hr hs] w1(1) by (auto simp: parse_banner_def)
qed

lemma handle_cnxn_safe:
  assumes ok: "steady t w" and z: "0 \<in> set (pk_data p)" and g: "settings_ok g fresh"
  shows "\<exists>w'. handle_cnxn g hr hs fresh p t w = Inr w' \<and> steady t w'"
proof -
  obtain x where x: "transports w t = Some x" using ok by (auto simp: steady_def)
  then have t0: "t \<noteq> 0" using ok links_transport_nz by (auto simp: steady_def)
  have "\<exists>w1. (if connection_state x \<noteq> CS_OFFLINE
      then sbind (set_transport t (\<lambda>x. x\<lparr>connection_state := CS_OFFLINE\<rparr>) w) (handle_offline t) else Inr w) = Inr w1 \<and> steady t w1"
  proof (cases "connection_state x = CS_OFFLINE")
    case False
    obtain w1 where "set_transport t (\<lambda>x. x\<lparr>connection_state := CS_OFFLINE\<rparr>) w = Inr w1" "steady t w1"
      using set_transport_steady [OF ok, of "\<lambda>x. x\<lparr>connection_state := CS_OFFLINE\<rparr>"] by auto
    with False handle_offline_steady show ?thesis by fastforce
  qed (use ok in simp)
  then obtain w1 where w1: "(if connection_state x \<noteq> CS_OFFLINE
      then sbind (set_transport t (\<lambda>x. x\<lparr>connection_state := CS_OFFLINE\<rparr>) w) (handle_offline t) else Inr w) = Inr w1" "steady t w1"
    by blast
  obtain w2 where w2: "parse_banner g hr hs (cstr (pk_data p)) t w1 = Inr w2" "steady t w2"
    using parse_banner_steady [OF w1(2)] by blast
  have "\<exists>w3. (if HOST g \<or> \<not> auth_enabled g
       then sbind (handle_online t w2) (\<lambda>w3. if HOST g then Inr w3 else send_connect g t w3)
       else send_auth_request fresh t w2) = Inr w3 \<and> steady t w3"
  proof (cases "HOST g \<or> \<not> auth_enabled g")
    case True
    obtain w3 where "handle_online t w2 = Inr w3" "steady t w3"
      using set_transport_steady [OF w2(2), of "\<lambda>x. x\<lparr>t_online := True\<rparr>"] by (auto simp: handle_online_def)
    then show ?thesis using True send_connect_steady [OF g, of t w3] by auto
  next
    case False
    obtain w3 where w3: "set_transport t (\<lambda>x. x\<lparr>token := fresh\<rparr>) w2 = Inr w3" "steady t w3"
      using set_transport_steady [OF w2(2), of "\<lambda>x. x\<lparr>token := fresh\<rparr>"] by auto
    have "length fresh \<le> MAX_PAYLOAD" using g by (simp add: settings_ok_def)
    from send_small [OF this w3(2), of A_AUTH ADB_AUTH_TOKEN 0] w3 False show ?thesis
      by (auto simp: send_auth_request_def)
  qed
  then obtain w3 where "handle_cnxn g hr hs fresh p t w = Inr w3" "steady t w3"
    using w1(1) w2(1) x t0 z by (auto simp: handle_cnxn_def deref_transport_def packet_string_def)
  then show ?thesis by blast
qed

lemma handle_packet_steady:
  assumes ok: "steady t w" and a: "fresh_addr a w" and p: "received p" and g: "settings_ok g fresh"
    and e: "command (pk_msg p) = A_OPEN \<Longrightarrow> opens_ok e w \<and> s_socket e \<noteq> a"
    and z: "command (pk_msg p) = A_CNXN \<Longrightarrow> 0 \<in> set (pk_data p)"
  shows "\<exists>w'. handle_packet g hr hs (create_local_service_socket e) fresh a p t w = Inr w' \<and> steady t w'"
proof -
  obtain x where x: "transports w t = Some x" using ok by (auto simp: steady_def)
  then have t0: "t \<noteq> 0" using ok links_transport_nz by (auto simp: steady_def)
  have d: "deref_transport t w = Inr x" using x t0 by (simp add: deref_transport_def)
  consider "command (pk_msg p) = A_SYNC" | "command (pk_msg p) = A_CNXN"
    | "command (pk_msg p) \<in> {A_OKAY, A_CLSE, A_WRTE}" | "command (pk_msg p) = A_OPEN" | "command (pk_msg p) \<notin> {A_SYNC, A_CNXN, A_OPEN, A_OKAY, A_CLSE, A_WRTE}"
    by auto
  then show ?thesis
  proof cases
    case 1
    then show ?thesis using handle_sync_safe [OF ok p g] by (simp add: handle_packet_def)
  next
    case 2
    then show ?thesis using handle_cnxn_safe [OF ok z [OF 2] g] by (simp add: handle_packet_def command_defs)
  next
    case 3
    then show ?thesis
      using handle_okay_safe [OF ok a] handle_clse_safe [OF ok] handle_wrte_safe [OF ok] ok d
      by (auto simp: handle_packet_def command_defs)
  next
    case 4
    then show ?thesis using handle_open_safe [OF ok a p] e ok d by (auto simp: handle_packet_def command_defs)
  next
    case 5
    then show ?thesis using ok by (simp add: handle_packet_def)
  qed
qed

section \<open>Any sequence of packets\<close>

text \<open>The states after some packets of the device behind \<open>t\<close>, in any order and with any content.\<close>

definition acceptable :: "service_env \<Rightarrow> nat \<Rightarrow> apacket \<Rightarrow> world \<Rightarrow> bool" where
  "acceptable e a p w \<longleftrightarrow> fresh_addr a w \<and> received p
     \<and> (command (pk_msg p) = A_OPEN \<longrightarrow> opens_ok e w \<and> s_socket e \<noteq> a)
     \<and> (command (pk_msg p) = A_CNXN \<longrightarrow> 0 \<in> set (pk_data p))"

inductive after_packets ::
    "server \<Rightarrow> host_request \<Rightarrow> host_service \<Rightarrow> byte list \<Rightarrow> nat \<Rightarrow> world \<Rightarrow> world \<Rightarrow> bool"
  for g hr hs fresh t w0 where
  start: "after_packets g hr hs fresh t w0 w0"
| packet: "after_packets g hr hs fresh t w0 w \<Longrightarrow> acceptable e a p w \<Longrightarrow>
    handle_packet g hr hs (create_local_service_socket e) fresh a p t w = Inr w' \<Longrightarrow> after_packets g hr hs fresh t w0 w'"

inductive_cases after_packetsE: "after_packets g hr hs fresh t w0 w"

lemma after_packets_steady:
  assumes "after_packets g hr hs fresh t w0 w" and "steady t w0" and "settings_ok g fresh"
  shows "steady t w"
  using assms
proof (induction rule: after_packets.induct)
  case start
  then show ?case by simp
next
  case (packet w e a p w')
  have "\<exists>w'. handle_packet g hr hs (create_local_service_socket e) fresh a p t w = Inr w' \<and> steady t w'"
    by (rule handle_packet_steady) (use packet in \<open>auto simp: acceptable_def\<close>)
  with packet.hyps(3) show ?case by auto
qed

text \<open>C1. A device cannot crash the server with what it sends: from a consistent state (\<open>steady\<close>: the sockets and
  lists are as they should be, every device tracker is connected to its client, no serial number has more than
  1000 bytes, the threads of the transports still hold their ends of the pairs), after any number
  of packets of any kind, with any ids and any payload, every further packet is handled: an OPEN by the services
  of the server, a CNXN with the message to all device trackers, without touching freed memory or a
  null pointer, and the state is consistent again.  The packets are ones that \<open>check_header\<close> and \<open>check_data\<close>
  let through, a CNXN has a zero in its payload, and the sockets they need get new addresses and, for an OPEN, new
  descriptors and memory; a CNXN or AUTH packet of the server itself fits into its buffer.\<close>

theorem device_cannot_crash:
  assumes "after_packets g hr hs fresh t w0 w" and "steady t w0" and "settings_ok g fresh" and "acceptable e a p w"
  shows "\<exists>w'. handle_packet g hr hs (create_local_service_socket e) fresh a p t w = Inr w' \<and> steady t w'"
proof (rule handle_packet_steady)
  show "steady t w" by (rule after_packets_steady [OF assms(1-3)])
qed (use assms in \<open>auto simp: acceptable_def\<close>)

definition server0 :: server where
  "server0 = \<lparr>HOST = True, auth_enabled = False, adb_device_banner = ascii ''device'', property_get = (\<lambda>_. ascii ''x'')\<rparr>"

lemma server0_ok: "settings_ok server0 []"
  by (simp add: settings_ok_def server0_def fill_connect_data_def MAX_PAYLOAD_def print_at_def ascii_def)

lemma linked_steady:
  obtains w where "steady 7 w" and "socks w = [2 \<mapsto> local_end, 5 \<mapsto> remote_end]" and "sent w = []"
    and "local_list w = [2]" and "listeners w = (\<lambda>_. None)"
    and "transports w = [7 \<mapsto> sample_transport\<lparr>disconnects := [remote_socket_disconnect 5]\<rparr>]" and "wrs w = ws" and "outs w = (\<lambda>_. [])"
proof -
  obtain w0 where w0: "sock_inv {} w0" "socks w0 = [2 \<mapsto> local_end, 5 \<mapsto> remote_end]" "sent w0 = []" "local_list w0 = [2]"
    "transports w0 = [7 \<mapsto> sample_transport\<lparr>disconnects := [remote_socket_disconnect 5]\<rparr>]" "trackers w0 = []"
    "wrs w0 = ws" "outs w0 = (\<lambda>_. [])"
    by (rule linked_world) blast
  let ?w = "w0\<lparr>listeners := (\<lambda>_. None)\<rparr>"
  have i: "sock_inv {} ?w"
    using w0(1) by (simp add: sock_inv_def peers_ok_def heap_ok_def lists_ok_def transports_ok_def remote_of_def)
  have "links_ok ?w"
    unfolding links_ok_def using i by (auto simp: w0 split: if_splits)
  moreover have "names_fit ?w" by (simp add: names_fit_def w0 shown_serial_def sample_transport_def ascii_def)
  moreover have "tracked ?w"
    by (auto simp: tracked_def w0 local_end_def remote_end_def remote_sock_def zero_sock_def split: if_splits)
  ultimately have "steady 7 ?w" by (simp add: steady_def w0)
  then show thesis by (rule that) (simp_all add: w0)
qed

lemma received_packet: "length bs \<le> MAX_PAYLOAD \<Longrightarrow> received (packet c a b bs)"
  by (simp add: received_def packet_def unat_word_of_nat_small)

definition refusing_env :: service_env where
  "refusing_env = \<lparr>s_psize = 4, s_malloced = Some (\<lambda>_. 0), s_socket = 9, s_loopback = (\<lambda>_. - 1), s_network = (\<lambda>_ _. - 1),
     s_pair = None, s_thread = True\<rparr>"

lemma device_cannot_crash_witness:
  "\<exists>w w'. socks w = [2 \<mapsto> local_end, 5 \<mapsto> remote_end]
     \<and> handle_packet server0 no_request no_service (create_local_service_socket refusing_env) [] 8
         (packet A_OPEN 9 0 (ascii ''tcp:5037'' @ [0])) 7 w = Inr w' \<and> steady 7 w'"
proof -
  obtain w where w: "steady 7 w" "socks w = [2 \<mapsto> local_end, 5 \<mapsto> remote_end]" "listeners w = (\<lambda>_. None)"
    by (rule linked_steady) blast
  let ?p = "packet A_OPEN 9 0 (ascii ''tcp:5037'' @ [0])"
  have "fst (service_to_fd refusing_env name) < 0" for name
    by (simp add: service_to_fd_def create_service_thread_def refusing_env_def Let_def)
  then have "opens_ok refusing_env w" using w by (simp add: opens_ok_def Let_def) (simp add: refusing_env_def)
  moreover have "received ?p" by (rule received_packet) (simp add: MAX_PAYLOAD_def ascii_def)
  moreover have "command (pk_msg ?p) = A_OPEN" by (simp add: packet_def)
  ultimately have a: "acceptable refusing_env 8 ?p w"
    using w by (simp add: acceptable_def fresh_addr_def command_defs) (simp add: refusing_env_def)
  from device_cannot_crash [OF after_packets.start w(1) server0_ok a] w(2) show ?thesis by blast
qed

text \<open>A CNXN packet whose payload fills the buffer without a zero is read beyond the end of the
  buffer: \<open>handle_packet\<close> takes the banner as a C string and never looks at its length.\<close>

theorem unterminated_banner_overread:
  assumes "steady t w" and "command (pk_msg p) = A_CNXN" and "0 \<notin> set (pk_data p)"
  shows "handle_packet g hr hs svc fresh a p t w = Inl Overread"
proof -
  obtain x where x: "transports w t = Some x" using assms(1) by (auto simp: steady_def)
  then have t0: "t \<noteq> 0" using assms(1) links_transport_nz by (auto simp: steady_def)
  have "\<exists>w1. (if connection_state x \<noteq> CS_OFFLINE
      then sbind (set_transport t (\<lambda>x. x\<lparr>connection_state := CS_OFFLINE\<rparr>) w) (handle_offline t) else Inr w) = Inr w1"
    using set_transport_steady [OF assms(1), of "\<lambda>x. x\<lparr>connection_state := CS_OFFLINE\<rparr>"]
    by (cases "connection_state x = CS_OFFLINE") (auto, metis handle_offline_steady)
  then show ?thesis
    using x t0 assms(2,3)
    by (auto simp: handle_packet_def handle_cnxn_def deref_transport_def packet_string_def command_defs)
qed

lemma unterminated_banner_overread_witness:
  "\<exists>w. handle_packet server0 no_request no_service (\<lambda>_ w. Inr (0, w)) [] 8
     (packet A_CNXN A_VERSION 4096 (replicate MAX_PAYLOAD 65)) 7 w = Inl Overread"
proof -
  obtain w where w: "steady 7 w" by (rule linked_steady) blast
  show ?thesis
    by (rule exI [of _ w], rule unterminated_banner_overread [OF w]) (simp_all add: packet_def)
qed

section \<open>The banner\<close>

lemma split_at_first: "c \<notin> set p \<Longrightarrow> split_at c (p @ c # q) acc = (rev acc @ p) # split_at c q []"
  by (induction p arbitrary: acc) auto

lemma cut_first: "c \<notin> set p \<Longrightarrow> cut c (p @ c # q) = Some (p, q)"
proof -
  assume "c \<notin> set p"
  then have "takeWhile (\<lambda>x. x \<noteq> c) (p @ c # q) = p" "dropWhile (\<lambda>x. x \<noteq> c) (p @ c # q) = c # q"
    by (induction p) auto
  then show ?thesis by (simp add: cut_def)
qed

lemma tokens_props:
  "\<forall>p\<in>set ps. c \<notin> set p \<and> p \<noteq> [] \<Longrightarrow> tokens c (concat (map (\<lambda>p. p @ [c]) ps)) = ps"
proof (induction ps)
  case Nil
  then show ?case by (simp add: tokens_def)
next
  case (Cons p ps)
  then show ?case using split_at_first [of c p _ "[]"] by (simp add: tokens_def)
qed

lemma print_at_fits:
  "length bs \<le> length rest \<Longrightarrow>
     print_at bs (out @ 0 # rest, length out) = Some ((out @ bs) @ 0 # drop (length bs) rest, length (out @ bs))"
  by (simp add: print_at_def Let_def)

lemma print_all_fits:
  "length (concat bs) \<le> length rest \<Longrightarrow> print_all bs (out @ 0 # rest, length out)
     = Some ((out @ concat bs) @ 0 # drop (length (concat bs)) rest, length (out @ concat bs))"
proof (induction bs arbitrary: out rest)
  case (Cons b bs)
  then have f: "length b \<le> length rest" and l: "length (concat bs) \<le> length (drop (length b) rest)" by simp_all
  have "print_all (b # bs) (out @ 0 # rest, length out) = print_all bs ((out @ b) @ 0 # drop (length b) rest, length (out @ b))"
    by (simp add: print_at_fits [OF f, of out, simplified])
  also have "\<dots> = Some (((out @ b) @ concat bs) @ 0 # drop (length (concat bs)) (drop (length b) rest), length ((out @ b) @ concat bs))"
    by (rule Cons.IH [OF l])
  finally show ?case by (simp add: add.commute)
qed simp

lemma print_all_buffer:
  assumes "length (concat bs) < MAX_PAYLOAD"
  shows "\<exists>buf. print_all bs (replicate MAX_PAYLOAD 0, 0) = Some (buf, length (concat bs))
    \<and> length (concat bs) < length buf \<and> take (length (concat bs) + 1) buf = concat bs @ [0]"
proof -
  have r: "replicate MAX_PAYLOAD (0 :: byte) = [] @ 0 # replicate (MAX_PAYLOAD - 1) 0"
    by (simp add: MAX_PAYLOAD_def replicate_Suc [symmetric] del: replicate_Suc)
  have "length (concat bs) \<le> length (replicate (MAX_PAYLOAD - 1) (0 :: byte))" using assms by simp
  from print_all_fits [OF this, of "[]"] show ?thesis unfolding r by simp
qed

text \<open>The banners that the code knows, with the states they stand for.\<close>

definition banner_states :: "(byte list \<times> int) list" where
  "banner_states = [(ascii ''bootloader'', CS_BOOTLOADER), (ascii ''device'', CS_DEVICE),
     (ascii ''recovery'', CS_RECOVERY), (ascii ''sideload'', CS_SIDELOAD)]"

lemma banner_states_facts:
  assumes "(ty, st) \<in> set banner_states"
  shows "banner_state ty = st" and "58 \<notin> set ty" and "0 \<notin> set ty" and "length ty \<le> 10" and "st \<noteq> CS_HOST"
proof -
  have "\<forall>(ty, st) \<in> set banner_states. banner_state ty = st \<and> 58 \<notin> set ty \<and> 0 \<notin> set ty \<and> length ty \<le> 10 \<and> st \<noteq> CS_HOST"
    by (simp add: banner_states_def banner_state_def ascii_def cs_defs)
  with assms show "banner_state ty = st" "58 \<notin> set ty" "0 \<notin> set ty" "length ty \<le> 10" "st \<noteq> CS_HOST" by auto
qed

lemma connect_data:
  assumes h: "\<not> HOST g" and b: "(adb_device_banner g, st) \<in> set banner_states"
    and v: "\<forall>p\<in>set cnxn_props. 59 \<notin> set (property_get g p) \<and> 0 \<notin> set (property_get g p) \<and> length (property_get g p) < 92"
  obtains s where "fill_connect_data g = Inr (s @ [0])" and "0 \<notin> set s" and "length s < MAX_PAYLOAD"
    and "banner_type s = adb_device_banner g"
    and "\<And>x. fold banner_prop (banner_props s) x = x\<lparr>t_product := qual_overwrite (property_get g (ascii ''ro.product.name'')),
          model := qual_overwrite (property_get g (ascii ''ro.product.model'')),
          device := qual_overwrite (property_get g (ascii ''ro.product.device''))\<rparr>"
proof -
  note ty = banner_states_facts [OF b]
  define item where "item = (\<lambda>p. p @ ascii ''='' @ property_get g p)"
  define props where "props = concat (map (\<lambda>p. p @ [59]) (map item cnxn_props))"
  let ?s = "adb_device_banner g @ 58 # 58 # props"
  let ?bs = "(adb_device_banner g @ ascii ''::'') # map (\<lambda>p. p @ ascii ''='' @ property_get g p @ ascii '';'') cnxn_props"
  have c: "concat ?bs = ?s" by (simp add: props_def item_def cnxn_props_def ascii_def)
  have "length ?s < MAX_PAYLOAD" using ty(4) v by (simp add: props_def item_def cnxn_props_def ascii_def MAX_PAYLOAD_def)
  then have l: "length (concat ?bs) < MAX_PAYLOAD" by (simp only: c)
  from print_all_buffer [OF l] obtain buf where
    "print_all ?bs (replicate MAX_PAYLOAD 0, 0) = Some (buf, length (concat ?bs))" "length (concat ?bs) < length buf"
    "take (length (concat ?bs) + 1) buf = concat ?bs @ [0]" by blast
  then have f: "fill_connect_data g = Inr (?s @ [0])" unfolding c using h by (simp add: fill_connect_data_def)
  have items: "\<forall>p\<in>set (map item cnxn_props). 59 \<notin> set p \<and> p \<noteq> []" and nz: "0 \<notin> set props"
    using v by (auto simp: item_def cnxn_props_def ascii_def props_def)
  have t: "banner_type ?s = adb_device_banner g"
    unfolding banner_type_def using ty(2) by (subst takeWhile_append2) auto
  have "banner_props ?s = map item cnxn_props"
    unfolding banner_props_def using cut_first [OF ty(2)] cut_first [of 58 "[]" props] tokens_props [OF items]
    by (simp add: props_def)
  moreover have "cut 61 (item p) = Some (p, property_get g p)" if "p \<in> set cnxn_props" for p
    using that cut_first [of 61 p "property_get g p"] by (auto simp: item_def cnxn_props_def ascii_def)
  then have "fold banner_prop (map item cnxn_props) x
      = x\<lparr>t_product := qual_overwrite (property_get g (ascii ''ro.product.name'')),
          model := qual_overwrite (property_get g (ascii ''ro.product.model'')),
          device := qual_overwrite (property_get g (ascii ''ro.product.device''))\<rparr>" for x
    by (simp add: cnxn_props_def banner_prop_def ascii_def)
  ultimately show thesis using that [OF f _ _ t] nz ty(3) l unfolding c by simp
qed

text \<open>C30. The CNXN packet of a device is understood by the server: \<open>send_connect\<close> of a device with one of the four
  banners (bootloader, device, recovery, sideload), whose three product properties have fewer than 92 bytes and
  no semicolon or zero, sends a text that stays inside its buffer; and when that packet arrives for a transport that is
  offline, \<open>handle_packet\<close> of a server puts the transport into the state that the banner names, takes exactly
  the three properties, an empty one as missing, tells the device trackers, and sets the transport online.\<close>

theorem banner_roundtrip:
  assumes "\<not> HOST g" and "(adb_device_banner g, st) \<in> set banner_states"
    and "\<forall>p\<in>set cnxn_props. 59 \<notin> set (property_get g p) \<and> 0 \<notin> set (property_get g p) \<and> length (property_get g p) < 92"
    and "t' \<noteq> 0" and "transports v t' = Some y" and "open_end y"
    and "HOST h" and "t \<noteq> 0" and "transports w t = Some x" and "connection_state x = CS_OFFLINE"
  shows "\<exists>bs. send_connect g t' v = Inr (v\<lparr>sent := sent v @ [(t', wire A_CNXN A_VERSION (word_of_nat MAX_PAYLOAD) bs)]\<rparr>)
    \<and> handle_packet h hr hs svc fresh a (packet A_CNXN A_VERSION (word_of_nat MAX_PAYLOAD) bs) t w =
      sbind (update_transports hr hs (w\<lparr>transports := (transports w)(t \<mapsto>
        x\<lparr>t_product := qual_overwrite (property_get g (ascii ''ro.product.name'')),
          model := qual_overwrite (property_get g (ascii ''ro.product.model'')),
          device := qual_overwrite (property_get g (ascii ''ro.product.device'')), connection_state := st\<rparr>)\<rparr>)) (handle_online t)"
proof -
  obtain s where s: "fill_connect_data g = Inr (s @ [0])" "0 \<notin> set s" "length s < MAX_PAYLOAD"
    "banner_type s = adb_device_banner g"
    "\<And>x. fold banner_prop (banner_props s) x = x\<lparr>t_product := qual_overwrite (property_get g (ascii ''ro.product.name'')),
          model := qual_overwrite (property_get g (ascii ''ro.product.model'')),
          device := qual_overwrite (property_get g (ascii ''ro.product.device''))\<rparr>"
    by (rule connect_data [OF assms(1-3)]) blast
  note ty = banner_states_facts [OF assms(2)]
  let ?p = "packet A_CNXN A_VERSION (word_of_nat MAX_PAYLOAD) (s @ [0])"
  have "length (s @ [0]) \<le> MAX_PAYLOAD" using s(3) by simp
  then have 1: "send_connect g t' v = Inr (v\<lparr>sent := sent v @ [(t', wire A_CNXN A_VERSION (word_of_nat MAX_PAYLOAD) (s @ [0]))]\<rparr>)"
    using send_packet_wire [OF _ assms(5,4,6)] s(1) by (simp add: send_connect_def)
  have "pk_data ?p = s @ 0 # replicate (MAX_PAYLOAD - length s - 1) 0" by (simp add: packet_def)
  then have str: "packet_string (pk_data ?p) = Inr s" using cstr_terminated [OF s(2)] by (simp add: packet_string_def)
  have c: "command (pk_msg ?p) = A_CNXN" by (simp add: packet_def)
  have "handle_packet h hr hs svc fresh a ?p t w = sbind (parse_banner h hr hs s t w) (handle_online t)"
    using assms(7-10) str c
    by (simp add: handle_packet_def command_defs handle_cnxn_def deref_transport_def) (simp add: sbind_def split: sum.split)
  moreover have "parse_banner h hr hs s t w = update_transports hr hs (w\<lparr>transports := (transports w)(t \<mapsto>
        x\<lparr>t_product := qual_overwrite (property_get g (ascii ''ro.product.name'')),
          model := qual_overwrite (property_get g (ascii ''ro.product.model'')),
          device := qual_overwrite (property_get g (ascii ''ro.product.device'')), connection_state := st\<rparr>)\<rparr>)"
    using assms(7-9) ty(1,5) s(4,5) by (simp add: parse_banner_def set_transport_def deref_transport_def)
  ultimately show ?thesis using 1 by (intro exI [of _ "s @ [0]"]) simp
qed

lemma banner_roundtrip_witness:
  "\<exists>bs w. handle_packet server0 no_request no_service (\<lambda>_ w. Inr (0, w)) [] 8
       (packet A_CNXN A_VERSION (word_of_nat MAX_PAYLOAD) bs) 7
       (world0\<lparr>transports := [7 \<mapsto> sample_transport\<lparr>connection_state := CS_OFFLINE\<rparr>]\<rparr>) = Inr w
     \<and> map_option connection_state (transports w 7) = Some CS_DEVICE \<and> map_option t_online (transports w 7) = Some True
     \<and> map_option model (transports w 7) = Some (Some (ascii ''x''))"
proof -
  let ?g = "server0\<lparr>HOST := False\<rparr>" and ?x = "sample_transport\<lparr>connection_state := CS_OFFLINE\<rparr>"
  let ?w = "world0\<lparr>transports := [7 \<mapsto> ?x]\<rparr>"
  let ?x' = "?x\<lparr>t_product := Some (ascii ''x''), model := Some (ascii ''x''), device := Some (ascii ''x''), connection_state := CS_DEVICE\<rparr>"
  have v: "\<forall>p\<in>set cnxn_props. 59 \<notin> set (property_get ?g p) \<and> 0 \<notin> set (property_get ?g p) \<and> length (property_get ?g p) < 92"
    by (simp add: server0_def ascii_def)
  have "(adb_device_banner ?g, CS_DEVICE) \<in> set banner_states" by (simp add: server0_def banner_states_def)
  from banner_roundtrip [OF _ this v, of 7 ?w ?x server0 7 ?w ?x no_request no_service "\<lambda>_ w. Inr (0, w)" "[]" 8]
  obtain bs where "handle_packet server0 no_request no_service (\<lambda>_ w. Inr (0, w)) [] 8
       (packet A_CNXN A_VERSION (word_of_nat MAX_PAYLOAD) bs) 7 ?w
     = sbind (update_transports no_request no_service (?w\<lparr>transports := (transports ?w)(7 \<mapsto> ?x')\<rparr>)) (handle_online 7)"
    by (auto simp: server0_def sample_transport_def qual_overwrite_def ascii_def)
  moreover have "update_transports no_request no_service (?w\<lparr>transports := (transports ?w)(7 \<mapsto> ?x')\<rparr>)
      = Inr (?w\<lparr>transports := (transports ?w)(7 \<mapsto> ?x')\<rparr>)"
    by (simp add: update_transports_def world0_def listing_defs)
  ultimately show ?thesis
    by (intro exI [of _ bs]) (simp add: handle_online_def set_transport_def deref_transport_def)
qed

section \<open>Data\<close>

text \<open>C9. A WRTE packet for any open local socket: when the socket has packets queued, the data is queued behind
  them and nothing is acknowledged; otherwise as much of it as the client takes is written at once, in order.
  When the client took all of it, the OKAY with both ids goes out; when its descriptor would block, the rest is queued;
  when it is broken, the socket is closed, which sends nothing but the CLSE of its peer.  The packet is
  taken from every transport that is online: the transport is never compared with the one that the
  socket is connected to.\<close>

theorem wrte_delivers:
  assumes ok: "steady t w" and x: "transports w t = Some x" "t_online x" and p: "command (pk_msg p) = A_WRTE"
    and s: "find_local_socket (arg1 (pk_msg p)) w = s" "s \<noteq> 0" "socks w s = Some k"
    and bs: "take (unat (data_length (pk_msg p))) (pk_data p) = bs"
    and d: "push False bs (wrs w (sk_fd k)) = (e, out, left, evs)"
  shows "\<exists>w'. handle_packet g hr hs svc fresh a p t w = Inr w' \<and> steady t w' \<and> out @ left = bs \<and>
    (if pkts k \<noteq> [] then socks w' s = Some (k\<lparr>pkts := pkts k @ [bs]\<rparr>) \<and> outs w' = outs w \<and> sent w' = sent w
     else case e of
       Done \<Rightarrow> left = [] \<and> outs w' (sk_fd k) = outs w (sk_fd k) @ bs \<and> socks w' s = Some k
         \<and> sent w' = sent w @ [(t, wire A_OKAY (sk_id k) (arg0 (pk_msg p)) [])]
     | Blocked \<Rightarrow> left \<noteq> [] \<and> outs w' (sk_fd k) = outs w (sk_fd k) @ out \<and> socks w' s = Some (k\<lparr>pkts := [left]\<rparr>)
         \<and> sent w' = sent w
     | Broken \<Rightarrow> left \<noteq> [] \<and> socks w' s = None
         \<and> sent w' = sent w @ (case socks w (peer k) of None \<Rightarrow> [] | Some q \<Rightarrow> close_msgs q 0))"
proof -
  have t0: "t \<noteq> 0" using ok x links_transport_nz by (auto simp: steady_def)
  have inv: "sock_inv {} w" by (rule steady_inv [OF ok])
  obtain k0 where "socks w s = Some k0" "is_local k0" using find_local [OF ok, of "arg1 (pk_msg p)"] s by metis
  then have l: "is_local k" using s(3) by simp
  let ?w1 = "put_out (sk_fd k) out evs w"
  have eq: "handle_packet g hr hs svc fresh a p t w = handle_wrte (call_enqueue hr hs) p t w"
    using x t0 p by (simp add: handle_packet_def deref_transport_def command_defs)
  have enq: "call_enqueue hr hs s bs w = local_socket_enqueue_fn call_close s bs w"
    using s l by (simp add: call_enqueue_def numeral_2_eq_2 enqueue_sock.simps(2) sock_simps)
  obtain w' where w': "handle_wrte (call_enqueue hr hs) p t w = Inr w'" "steady t w'"
    using handle_wrte_safe [OF ok, of hr hs p] by blast
  have rest: "w' = v" if "local_socket_enqueue_fn call_close s bs w = Inr (1, v)" for v
    using w'(1) that s bs enq by (simp add: handle_wrte_def Let_def)
  have sp: "out @ left = bs" "e = Done \<longleftrightarrow> left = []" using push_split [OF d] by simp_all
  have result: "if pkts k \<noteq> [] then socks w' s = Some (k\<lparr>pkts := pkts k @ [bs]\<rparr>) \<and> outs w' = outs w \<and> sent w' = sent w
     else case e of
       Done \<Rightarrow> left = [] \<and> outs w' (sk_fd k) = outs w (sk_fd k) @ bs \<and> socks w' s = Some k
         \<and> sent w' = sent w @ [(t, wire A_OKAY (sk_id k) (arg0 (pk_msg p)) [])]
     | Blocked \<Rightarrow> left \<noteq> [] \<and> outs w' (sk_fd k) = outs w (sk_fd k) @ out \<and> socks w' s = Some (k\<lparr>pkts := [left]\<rparr>)
         \<and> sent w' = sent w
     | Broken \<Rightarrow> left \<noteq> [] \<and> socks w' s = None
         \<and> sent w' = sent w @ (case socks w (peer k) of None \<Rightarrow> [] | Some q \<Rightarrow> close_msgs q 0)"
  proof (cases "pkts k = []")
    case False
    have "local_socket_enqueue_fn call_close s bs w
        = Inr (1, fd_op (fdevent_add s (ucast FDE_WRITE)) (w\<lparr>socks := (socks w)(s \<mapsto> k\<lparr>pkts := pkts k @ [bs]\<rparr>)\<rparr>))"
      using s False by (simp add: local_socket_enqueue_fn_def sock_simps set_pkts_def Let_def)
    from rest [OF this] show ?thesis using False by (simp add: fd_op_def)
  next
    case True
    show ?thesis
    proof (cases e)
      case Done
      have "local_socket_enqueue_fn call_close s bs w = Inr (0, ?w1)"
        using s d True Done by (simp add: local_socket_enqueue_fn_def sock_simps)
      moreover have "open_end x" using inv x(1) by (auto simp: sock_inv_def transports_ok_def)
      then have "send_packet (packet A_OKAY (sk_id k) (arg0 (pk_msg p)) []) t ?w1
          = Inr (?w1\<lparr>sent := sent ?w1 @ [(t, wire A_OKAY (sk_id k) (arg0 (pk_msg p)) [])]\<rparr>)"
        by (intro send_packet_wire) (use x t0 in simp_all)
      ultimately show ?thesis
        using w'(1) s bs enq sp Done True
        by (simp add: handle_wrte_def Let_def sock_simps send_ready_def) (auto simp: put_out_def)
    next
      case Blocked
      have "local_socket_enqueue_fn call_close s bs w
          = Inr (1, fd_op (fdevent_add s (ucast FDE_WRITE)) (?w1\<lparr>socks := (socks ?w1)(s \<mapsto> k\<lparr>pkts := [left]\<rparr>)\<rparr>))"
        using s d True Blocked by (simp add: local_socket_enqueue_fn_def sock_simps set_pkts_def)
      from rest [OF this] show ?thesis using Blocked True sp by (simp add: fd_op_def)
    next
      case Broken
      have inv1: "sock_inv {} ?w1" "socks ?w1 s = Some k" using inv s by simp_all
      have ac: "after_close k = None" using True by (simp add: after_close_def)
      have cl: "\<exists>v. call_close s ?w1 = Inr v \<and> socks v s = None
          \<and> sent v = sent w @ (case socks w (peer k) of None \<Rightarrow> [] | Some q \<Rightarrow> close_msgs q 0)"
      proof (cases "peer k = 0")
        case True
        have "socks w (peer k) = None" using sock_invD(1) [OF inv, of 0] True by (cases "socks w 0") auto
        then show ?thesis
          using close_leaf [OF inv1 True, of 1] ac l by (auto simp: leaf_result_def close_msgs_def numeral_2_eq_2)
      next
        case False
        then show ?thesis
          using close_full [OF inv1 False, of 0] ac l by (auto simp: close_result_def close_msgs_def numeral_2_eq_2)
      qed
      then obtain v where v: "call_close s ?w1 = Inr v" "socks v s = None"
        "sent v = sent w @ (case socks w (peer k) of None \<Rightarrow> [] | Some q \<Rightarrow> close_msgs q 0)" by blast
      have "local_socket_enqueue_fn call_close s bs w = Inr (1, v)"
        using s d True Broken v(1) by (simp add: local_socket_enqueue_fn_def sock_simps)
      from rest [OF this] show ?thesis using Broken True sp v by simp
    qed
  qed
  show ?thesis using eq w' sp(1) result by (intro exI [of _ w']) simp
qed

lemma wrte_delivers_witness:
  "\<exists>w w'. outs w 3 = [] \<and> sent w = []
     \<and> handle_packet server0 no_request no_service (\<lambda>_ w. Inr (0, w)) [] 8 (packet A_WRTE 9 1 (ascii ''hi'')) 7 w = Inr w'
     \<and> outs w' 3 = ascii ''hi'' \<and> sent w' = [(7, wire A_OKAY 1 9 [])]"
proof -
  obtain w where w: "steady 7 w" "socks w = [2 \<mapsto> local_end, 5 \<mapsto> remote_end]" "sent w = []" "local_list w = [2]"
    "transports w = [7 \<mapsto> sample_transport\<lparr>disconnects := [remote_socket_disconnect 5]\<rparr>]"
    "wrs w = (\<lambda>_. [Room 10])" "outs w = (\<lambda>_. [])"
    by (rule linked_steady) blast
  let ?p = "packet A_WRTE 9 1 (ascii ''hi'')"
  have f: "find_local_socket (arg1 (pk_msg ?p)) w = 2" using w by (simp add: find_local_socket_def packet_def)
  have d: "take (unat (data_length (pk_msg ?p))) (pk_data ?p) = ascii ''hi''" by (simp add: packet_def ascii_def)
  have pu: "push False (ascii ''hi'') (wrs w 3) = (Done, ascii ''hi'', [], [Room 8])"
    by (simp add: w push.simps nb_write_def ascii_def)
  have "sk_fd local_end = 3" "pkts local_end = []" "sk_id local_end = 1" by (simp_all add: local_end_def zero_sock_def)
  moreover from wrte_delivers [OF w(1) _ _ _ f _ _ d, of "sample_transport\<lparr>disconnects := [remote_socket_disconnect 5]\<rparr>" local_end
      Done "ascii ''hi''" "[]" "[Room 8]" server0 no_request no_service "\<lambda>_ w. Inr (0, w)" "[]" 8]
  obtain w' where "handle_packet server0 no_request no_service (\<lambda>_ w. Inr (0, w)) [] 8 ?p 7 w = Inr w'"
    "outs w' (sk_fd local_end) = outs w (sk_fd local_end) @ ascii ''hi''"
    "sent w' = sent w @ [(7, wire A_OKAY (sk_id local_end) (arg0 (pk_msg ?p)) [])]"
    using w pu calculation by (auto simp: packet_def sample_transport_def)
  moreover have "arg0 (pk_msg ?p) = 9" by (simp add: packet_def)
  ultimately obtain w' where "handle_packet server0 no_request no_service (\<lambda>_ w. Inr (0, w)) [] 8 ?p 7 w = Inr w'"
    "outs w' 3 = ascii ''hi''" "sent w' = [(7, wire A_OKAY 1 9 [])]"
    using w by auto
  then show ?thesis using w by (intro exI [of _ w] exI [of _ w']) simp
qed

end
