(* ===== verification/Transport.thy ===== *)
theory Transport
  imports DList Protocol
begin

text \<open>
  The life of a transport (\<open>adb/transport.cpp\<close>, \<open>adb/transport_local.cpp\<close>, \<open>adb/transport_usb.cpp\<close>): it is
  registered and removed by messages on the registration channel, kicked and released by its two
  threads, and found by its serial number.  The master list of transports is intrusive: \<open>tlinks\<close> are its
  \<open>next\<close> and \<open>prev\<close> pointers, and the field \<open>transport_list\<close> of \<open>world\<close> is the list that the pointers are
  meant to represent; every operation does both.  The threads themselves are the two loops at the end.
\<close>

record tstate =
  tw :: world
  tlinks :: links
  registration :: "(nat \<times> int) list"
  local_transports :: "nat list"
  tclosed :: "int list"
  usb_kicked :: "nat list"
  usb_closed :: "nat list"

definition transport_list_head :: nat where "transport_list_head = 1"

definition in_world :: "(world \<Rightarrow> halt + world) \<Rightarrow> tstate \<Rightarrow> halt + tstate" where
  "in_world f s = sbind (f (tw s)) (\<lambda>w. Inr (s\<lparr>tw := w\<rparr>))"

section \<open>The master list\<close>

definition link_transport :: "nat \<Rightarrow> links \<Rightarrow> links" where
  "link_transport t l =
     (let l1 = l\<lparr>nxt := (nxt l)(t := transport_list_head)\<rparr>;
          l2 = l1\<lparr>prv := (prv l1)(t := prv l1 transport_list_head)\<rparr>;
          l3 = l2\<lparr>prv := (prv l2)(nxt l2 t := t)\<rparr>
      in l3\<lparr>nxt := (nxt l3)(prv l3 t := t)\<rparr>)"

definition unlink_transport :: "nat \<Rightarrow> links \<Rightarrow> links" where
  "unlink_transport t l =
     (let l1 = l\<lparr>prv := (prv l)(nxt l t := prv l t)\<rparr> in l1\<lparr>nxt := (nxt l1)(prv l1 t := nxt l1 t)\<rparr>)"

definition on_list :: "nat \<Rightarrow> world \<Rightarrow> bool" where
  "on_list n w \<longleftrightarrow> n = transport_list_head \<or> transports w n \<noteq> None"

definition list_add :: "nat \<Rightarrow> tstate \<Rightarrow> tstate" where
  "list_add t s = s\<lparr>tlinks := link_transport t (tlinks s),
     tw := (tw s)\<lparr>transport_list := transport_list (tw s) @ [t]\<rparr>\<rparr>"

text \<open>The neighbours are written through the pointers of \<open>t\<close>; they must still be there.\<close>

definition list_remove :: "nat \<Rightarrow> tstate \<Rightarrow> halt + tstate" where
  "list_remove t s =
     (let n = nxt (tlinks s) t; p = prv (tlinks s) t in
      if \<not> on_list n (tw s) then Inl (UseAfterFree n)
      else if \<not> on_list p (tw s) then Inl (UseAfterFree p)
      else Inr (s\<lparr>tlinks := unlink_transport t (tlinks s),
             tw := (tw s)\<lparr>transport_list := remove1 t (transport_list (tw s))\<rparr>\<rparr>))"

section \<open>Kicking and releasing\<close>

text \<open>The \<open>kick\<close> pointer: \<open>remote_kick\<close> of a socket transport, or that of a USB transport.\<close>

definition clear_slot :: "nat \<Rightarrow> nat list \<Rightarrow> nat list" where
  "clear_slot t xs = (let n = length (takeWhile (\<lambda>x. x \<noteq> t) xs) in if n < length xs then xs[n := 0] else xs)"

definition t_kick :: "nat \<Rightarrow> tstate \<Rightarrow> halt + tstate" where
  "t_kick t s = sbind (deref_transport t (tw s)) (\<lambda>x.
     if ttype x = kTransportUsb then Inr (s\<lparr>usb_kicked := usb_kicked s @ [usb x]\<rparr>)
     else sbind (in_world (set_transport t (\<lambda>x. x\<lparr>sfd := - 1\<rparr>)) s) (\<lambda>s1.
          Inr (s1\<lparr>tclosed := tclosed s1 @ [sfd x], local_transports := clear_slot t (local_transports s1)\<rparr>)))"

definition t_close :: "nat \<Rightarrow> tstate \<Rightarrow> halt + tstate" where
  "t_close t s = sbind (deref_transport t (tw s)) (\<lambda>x.
     if ttype x = kTransportUsb
     then in_world (set_transport t (\<lambda>x. x\<lparr>usb := 0\<rparr>)) (s\<lparr>usb_closed := usb_closed s @ [usb x]\<rparr>)
     else Inr (s\<lparr>tclosed := tclosed s @ [t_fd x]\<rparr>))"

definition kick_once :: "nat \<Rightarrow> tstate \<Rightarrow> halt + tstate" where
  "kick_once t s = sbind (deref_transport t (tw s)) (\<lambda>x.
     if kicked x then Inr s
     else sbind (in_world (set_transport t (\<lambda>x. x\<lparr>kicked := True\<rparr>)) s) (t_kick t))"

definition kick_transport :: "nat \<Rightarrow> tstate \<Rightarrow> halt + tstate" where
  "kick_transport t s = (if t = 0 then Inr s else kick_once t s)"

definition register_transport :: "nat \<Rightarrow> tstate \<Rightarrow> tstate" where
  "register_transport t s = s\<lparr>registration := registration s @ [(t, 1)]\<rparr>"

definition remove_transport :: "nat \<Rightarrow> tstate \<Rightarrow> tstate" where
  "remove_transport t s = s\<lparr>registration := registration s @ [(t, 0)]\<rparr>"

definition transport_unref_locked :: "nat \<Rightarrow> tstate \<Rightarrow> halt + tstate" where
  "transport_unref_locked t s =
     sbind (in_world (set_transport t (\<lambda>x. x\<lparr>ref_count := ref_count x - 1\<rparr>)) s) (\<lambda>s1.
     sbind (deref_transport t (tw s1)) (\<lambda>x.
       if ref_count x = 0
       then sbind (kick_once t s1) (\<lambda>s2. sbind (t_close t s2) (\<lambda>s3. Inr (remove_transport t s3)))
       else Inr s1))"

definition transport_unref :: "nat \<Rightarrow> tstate \<Rightarrow> halt + tstate" where
  "transport_unref t s = (if t = 0 then Inr s else transport_unref_locked t s)"

section \<open>Finding and unregistering\<close>

definition find_transport :: "byte list \<Rightarrow> world \<Rightarrow> nat" where
  "find_transport sn w =
     (case find (\<lambda>a. case transports w a of None \<Rightarrow> False | Some x \<Rightarrow> serial x = Some sn) (transport_list w) of
        None \<Rightarrow> 0 | Some a \<Rightarrow> a)"

definition unregister_transport :: "nat \<Rightarrow> tstate \<Rightarrow> halt + tstate" where
  "unregister_transport t s = sbind (list_remove t s) (\<lambda>s1. sbind (kick_transport t s1) (transport_unref t))"

fun unregister_tcp :: "nat list \<Rightarrow> tstate \<Rightarrow> halt + tstate" where
  "unregister_tcp [] s = Inr s"
| "unregister_tcp (t # ts) s = sbind (deref_transport t (tw s)) (\<lambda>x.
     if ttype x = kTransportLocal \<and> adb_port x = 0
     then sbind (list_remove t s) (\<lambda>s1. sbind (kick_once t s1) (\<lambda>s2.
          sbind (transport_unref_locked t s2) (unregister_tcp ts)))
     else unregister_tcp ts s)"

definition unregister_all_tcp_transports :: "tstate \<Rightarrow> halt + tstate" where
  "unregister_all_tcp_transports s = unregister_tcp (transport_list (tw s)) s"

definition unregister_usb_transport :: "nat \<Rightarrow> tstate \<Rightarrow> halt + tstate" where
  "unregister_usb_transport u s =
     (case find (\<lambda>a. case transports (tw s) a of None \<Rightarrow> False
          | Some x \<Rightarrow> usb x = u \<and> connection_state x = CS_NOPERM) (transport_list (tw s)) of
        None \<Rightarrow> Inr s | Some t \<Rightarrow> list_remove t s)"

fun close_usb_devices :: "nat list \<Rightarrow> tstate \<Rightarrow> halt + tstate" where
  "close_usb_devices [] s = Inr s"
| "close_usb_devices (t # ts) s = sbind (kick_once t s) (close_usb_devices ts)"

section \<open>New transports\<close>

text \<open>\<open>calloc\<close>.\<close>

definition zero_transport :: atransport where
  "zero_transport = \<lparr>t_fd = 0, sfd = 0, usb = 0, transport_socket = 0, ref_count = 0, sync_token = 0, token = [],
     connection_state = 0, t_online = False, ttype = kTransportUsb, serial = None, t_product = None, model = None,
     device = None, devpath = None, adb_port = 0, kicked = False, disconnects = [], open_end = True\<rparr>"

definition ADB_LOCAL_TRANSPORT_MAX :: nat where "ADB_LOCAL_TRANSPORT_MAX = 16"

definition find_emulator_transport_by_adb_port :: "int \<Rightarrow> tstate \<Rightarrow> nat" where
  "find_emulator_transport_by_adb_port port s =
     (case find (\<lambda>a. a \<noteq> 0 \<and> map_option adb_port (transports (tw s) a) = Some port) (local_transports s) of
        None \<Rightarrow> 0 | Some a \<Rightarrow> a)"

definition get_available_local_transport_index :: "tstate \<Rightarrow> int" where
  "get_available_local_transport_index s =
     (let n = length (takeWhile (\<lambda>x. x \<noteq> 0) (local_transports s))
      in if n < length (local_transports s) then int n else - 1)"

definition init_socket_transport :: "bool \<Rightarrow> nat \<Rightarrow> int \<Rightarrow> int \<Rightarrow> bool \<Rightarrow> tstate \<Rightarrow> int \<times> tstate" where
  "init_socket_transport host t fd port local s =
     (let x = zero_transport\<lparr>sfd := fd, sync_token := 1, connection_state := CS_OFFLINE, ttype := kTransportLocal,
                adb_port := (if host \<and> local then port else 0)\<rparr>;
          s1 = s\<lparr>tw := (tw s)\<lparr>transports := (transports (tw s))(t \<mapsto> x)\<rparr>\<rparr>
      in if \<not> (host \<and> local) then (0, s1)
         else let existing = find_emulator_transport_by_adb_port port s1;
                  index = get_available_local_transport_index s1
              in if existing \<noteq> 0 then (- 1, s1)
                 else if index < 0 then (- 1, s1)
                 else (0, s1\<lparr>local_transports := (local_transports s1)[nat index := t]\<rparr>))"

text \<open>\<open>t\<close> is the address that \<open>calloc\<close> returns, \<open>sn\<close> the serial number.\<close>

definition register_socket_transport :: "bool \<Rightarrow> nat \<Rightarrow> int \<Rightarrow> byte list \<Rightarrow> int \<Rightarrow> bool \<Rightarrow> tstate \<Rightarrow> tstate" where
  "register_socket_transport host t fd sn port local s =
     (case init_socket_transport host t fd port local s of (r, s1) \<Rightarrow>
        if r < 0
        then s1\<lparr>tclosed := tclosed s1 @ [fd], tw := (tw s1)\<lparr>transports := (transports (tw s1))(t := None)\<rparr>\<rparr>
        else register_transport t (s1\<lparr>tw := (tw s1)\<lparr>transports :=
               (transports (tw s1))(t := map_option (\<lambda>x. x\<lparr>serial := Some sn\<rparr>) (transports (tw s1) t))\<rparr>\<rparr>))"

definition init_usb_transport :: "nat \<Rightarrow> int \<Rightarrow> atransport" where
  "init_usb_transport h st = zero_transport\<lparr>sync_token := 1, connection_state := st, ttype := kTransportUsb, usb := h\<rparr>"

definition register_usb_transport ::
    "nat \<Rightarrow> nat \<Rightarrow> byte list option \<Rightarrow> byte list option \<Rightarrow> bool \<Rightarrow> tstate \<Rightarrow> tstate" where
  "register_usb_transport t h sn dp writeable s =
     (let x = (init_usb_transport h (if writeable then CS_OFFLINE else CS_NOPERM))\<lparr>serial := sn, devpath := dp\<rparr>
      in register_transport t (s\<lparr>tw := (tw s)\<lparr>transports := (transports (tw s))(t \<mapsto> x)\<rparr>\<rparr>))"

section \<open>The registration channel\<close>

text \<open>Removing: the main thread is the only one that frees a transport.\<close>

definition registration_remove :: "host_request \<Rightarrow> host_service \<Rightarrow> nat \<Rightarrow> tstate \<Rightarrow> halt + tstate" where
  "registration_remove hr hs t s = sbind (deref_transport t (tw s)) (\<lambda>x.
     sbind (in_world (fd_try (fdevent_remove t)) s) (\<lambda>s1.
     sbind (list_remove t (s1\<lparr>tclosed := tclosed s1 @ [t_fd x]\<rparr>)) (\<lambda>s2.
     sbind (in_world (run_transport_disconnects t) s2) (\<lambda>s3.
       in_world (update_transports hr hs)
         (s3\<lparr>tw := (tw s3)\<lparr>transports := (transports (tw s3))(t := None)\<rparr>\<rparr>)))))"

text \<open>Adding: \<open>s0\<close> and \<open>s1\<close> are the ends of the new socket pair.  The \<open>fde\<close> of a transport has the
  address of the transport.\<close>

definition start_transport :: "nat \<Rightarrow> (nat \<Rightarrow> nat) option \<Rightarrow> int \<Rightarrow> int \<Rightarrow> nat \<Rightarrow> world \<Rightarrow> halt + world" where
  "start_transport psz mem s0 s1 t w =
     sbind (set_transport t (\<lambda>x. x\<lparr>ref_count := 2, transport_socket := s0, t_fd := s1\<rparr>) w) (\<lambda>w1.
     sbind (fd_try (fdevent_install psz mem t s0 transport_socket_events t) w1) (\<lambda>w2.
       Inr (fd_op (fdevent_set t (ucast FDE_READ)) w2)))"

definition registration_add ::
    "host_request \<Rightarrow> host_service \<Rightarrow> nat \<Rightarrow> (nat \<Rightarrow> nat) option \<Rightarrow> int \<Rightarrow> int \<Rightarrow> nat \<Rightarrow> tstate \<Rightarrow> halt + tstate" where
  "registration_add hr hs psz mem s0 s1 t s = sbind (deref_transport t (tw s)) (\<lambda>x.
     sbind (if connection_state x \<noteq> CS_NOPERM then in_world (start_transport psz mem s0 s1 t) s else Inr s) (\<lambda>s1.
     sbind (in_world (set_transport t (\<lambda>x. x\<lparr>disconnects := []\<rparr>)) (list_add t s1)) (\<lambda>s2.
       in_world (update_transports hr hs) s2)))"

definition transport_registration_func ::
    "host_request \<Rightarrow> host_service \<Rightarrow> nat \<Rightarrow> (nat \<Rightarrow> nat) option \<Rightarrow> int \<Rightarrow> int \<Rightarrow> tstate \<Rightarrow> halt + tstate" where
  "transport_registration_func hr hs psz mem s0 s1 s = (case registration s of
     [] \<Rightarrow> Inl (Fatal ''cannot read transport registration socket'')
   | (t, action) # ms \<Rightarrow>
       if action = 0 then registration_remove hr hs t (s\<lparr>registration := ms\<rparr>)
       else registration_add hr hs psz mem s0 s1 t (s\<lparr>registration := ms\<rparr>))"

section \<open>The threads\<close>

text \<open>What \<open>output_thread\<close> writes to its end of the socket pair: \<open>reads\<close> are the results of
  \<open>read_from_remote\<close>, \<open>wr\<close> says which writes succeed.  The thread ends at the first failure.\<close>

definition sync_packet :: "u32 \<Rightarrow> u32 \<Rightarrow> apacket" where
  "sync_packet a b = \<lparr>pk_len = 0, pk_ptr = 0,
     pk_msg = \<lparr>command = A_SYNC, arg0 = a, arg1 = b, data_length = 0, data_check = 0, magic = A_SYNC XOR 0xffffffff\<rparr>,
     pk_data = replicate MAX_PAYLOAD 0\<rparr>"

fun output_pump :: "apacket option list \<Rightarrow> bool list \<Rightarrow> apacket list" where
  "output_pump (Some p # rs) (ok # oks) = (if ok then p # output_pump rs oks else [])"
| "output_pump (None # rs) (ok # oks) = (if ok then [sync_packet 0 0] else [])"
| "output_pump _ _ = []"

text \<open>The serial number for the log: \<open>MultiByteToWideChar\<close> puts it with its zero into \<open>wSerial[64]\<close> (a byte is one
  wide character); a longer one, or none, makes the call fail and leaves the array without a zero, so that the
  first line for the log, at the first result of \<open>read_from_remote\<close>, reads beyond it.\<close>

definition serial_shown :: "byte list option \<Rightarrow> bool" where
  "serial_shown sn \<longleftrightarrow> (case sn of None \<Rightarrow> False | Some s \<Rightarrow> length s < 64)"

definition output_thread :: "u32 \<Rightarrow> byte list option \<Rightarrow> apacket option list \<Rightarrow> bool list \<Rightarrow> halt + apacket list" where
  "output_thread tok sn reads wr = (case wr of
     True # oks \<Rightarrow> if reads \<noteq> [] \<and> \<not> serial_shown sn then Inl Overread
       else Inr (sync_packet 1 (tok + 1) # output_pump reads oks)
   | _ \<Rightarrow> Inr [])"

text \<open>What \<open>input_thread\<close> writes to the device of what the main thread has given to \<open>send_packet\<close>: packets pass only
  after the SYNC packet with the token of the transport has come; \<open>None\<close> is a failing read.\<close>

fun input_pump :: "u32 \<Rightarrow> bool \<Rightarrow> (amessage \<times> byte list) option list \<Rightarrow> (amessage \<times> byte list) list" where
  "input_pump tok active [] = []"
| "input_pump tok active (None # ps) = []"
| "input_pump tok active (Some p # ps) =
     (if command (fst p) = A_SYNC
      then (if arg0 (fst p) = 0 then []
            else input_pump tok (active \<or> arg1 (fst p) = tok) ps)
      else (if active then [p] else []) @ input_pump tok active ps)"

text \<open>The ends of the threads.\<close>

definition output_thread_exit :: "nat \<Rightarrow> tstate \<Rightarrow> halt + tstate" where
  "output_thread_exit t s = sbind (kick_transport t s) (transport_unref t)"

definition input_thread_exit :: "nat \<Rightarrow> tstate \<Rightarrow> halt + tstate" where
  "input_thread_exit t s = sbind (in_world (\<lambda>w. close_all_sockets (Suc (length (local_list w))) t w) s) (\<lambda>s1.
     sbind (kick_transport t s1) (transport_unref t))"

end
