(* ===== verification/TransportProps.thy ===== *)
theory TransportProps
  imports Transport ProtocolProps
begin

text \<open>
  Properties of the transports: the pointer code of the master list implements the list as long as a
  transport is unlinked once; \<open>unregister_transport\<close> leads to a second unlinking, which can lose another
  transport, and drops a reference that belongs to a thread; the threads pass packets only between the
  two SYNC packets; the table of emulators has one slot for each port.
\<close>

section \<open>The master list\<close>

lemma link_transport_eq: "t \<noteq> transport_list_head \<Longrightarrow> link_transport t l = dl_enqueue transport_list_head t l"
  by (simp add: link_transport_def dl_enqueue_def Let_def fun_upd_twist)

lemma unlink_ring:
  assumes "ring l h xs" and "t \<in> set xs"
  shows "ring (unlink_transport t l) h (remove1 t xs)"
proof -
  obtain ys zs where xs: "xs = ys @ t # zs" using assms(2) by (auto simp: in_set_conv_decomp)
  then have "t \<notin> set ys" using assms(1) by (auto simp: ring_def)
  then have "remove1 t xs = ys @ zs" using xs by (simp add: remove1_append)
  then have r: "ring (dl_remove t l) h (remove1 t xs)" using ring_remove [of l h ys t zs] assms(1) xs by simp
  have n: "t \<notin> set (h # remove1 t xs)" using assms by (auto simp: ring_def)
  have "seg (unlink_transport t l) h (remove1 t xs) h"
  proof (rule seg_frame)
    show "seg (dl_remove t l) h (remove1 t xs) h" using r by (simp add: ring_def)
    show "\<forall>x\<in>set (h # remove1 t xs). nxt (unlink_transport t l) x = nxt (dl_remove t l) x"
      using n by (auto simp: unlink_transport_def dl_remove_def Let_def)
    show "\<forall>x\<in>insert h (set (remove1 t xs)). prv (unlink_transport t l) x = prv (dl_remove t l) x"
      using n by (auto simp: unlink_transport_def dl_remove_def Let_def)
  qed
  then show ?thesis using r by (simp add: ring_def)
qed

definition master_ok :: "tstate \<Rightarrow> bool" where
  "master_ok s \<longleftrightarrow> ring (tlinks s) transport_list_head (transport_list (tw s))
     \<and> (\<forall>t \<in> set (transport_list (tw s)). transports (tw s) t \<noteq> None)"

lemma ring_neighbours:
  assumes "ring l h xs" and "t \<in> set xs"
  shows "nxt l t \<in> set (h # xs)" and "prv l t \<in> set (h # xs)"
proof -
  obtain ys zs where xs: "xs = ys @ t # zs" using assms(2) by (auto simp: in_set_conv_decomp)
  then have s: "seg l h ys t" "seg l t zs h" using assms(1) by (auto simp: ring_def seg_append)
  from seg_hd [OF s(2)] have "nxt l t = hd (zs @ [h])" by simp
  then show "nxt l t \<in> set (h # xs)" using xs by (cases zs) auto
  from seg_last [OF s(1)] have "prv l t = last (h # ys)" by simp
  then show "prv l t \<in> set (h # xs)" using xs last_in_set [of "h # ys"] by auto
qed

text \<open>C22. The intrusive list of transports refines the list of registered transports: linking a new
  transport appends it, unlinking a listed one removes it and touches listed neighbours only.\<close>

theorem master_list_refined:
  assumes "master_ok s"
  shows "(t \<notin> set (transport_list (tw s)) \<and> t \<noteq> transport_list_head \<and> t \<noteq> 0 \<and> transports (tw s) t \<noteq> None
      \<longrightarrow> master_ok (list_add t s) \<and> transport_list (tw (list_add t s)) = transport_list (tw s) @ [t])
    \<and> (t \<in> set (transport_list (tw s))
      \<longrightarrow> (\<exists>s'. list_remove t s = Inr s' \<and> master_ok s' \<and> transport_list (tw s') = remove1 t (transport_list (tw s))))"
proof (intro conjI impI)
  have r: "ring (tlinks s) transport_list_head (transport_list (tw s))"
    and live: "\<And>t. t \<in> set (transport_list (tw s)) \<Longrightarrow> transports (tw s) t \<noteq> None"
    using assms by (auto simp: master_ok_def)
  {
    assume t: "t \<notin> set (transport_list (tw s)) \<and> t \<noteq> transport_list_head \<and> t \<noteq> 0 \<and> transports (tw s) t \<noteq> None"
    then have "ring (link_transport t (tlinks s)) transport_list_head (transport_list (tw s) @ [t])"
      using ring_enqueue [OF r, of t] by (simp add: link_transport_eq)
    with t live show "master_ok (list_add t s)" by (auto simp: master_ok_def list_add_def)
    show "transport_list (tw (list_add t s)) = transport_list (tw s) @ [t]" by (simp add: list_add_def)
  next
    assume t: "t \<in> set (transport_list (tw s))"
    have "on_list (nxt (tlinks s) t) (tw s)" "on_list (prv (tlinks s) t) (tw s)"
      using ring_neighbours [OF r t] live by (auto simp: on_list_def)
    moreover have "\<forall>u \<in> set (remove1 t (transport_list (tw s))). transports (tw s) u \<noteq> None"
      using live set_remove1_subset [of t "transport_list (tw s)"] by blast
    ultimately show "\<exists>s'. list_remove t s = Inr s' \<and> master_ok s' \<and> transport_list (tw s') = remove1 t (transport_list (tw s))"
      using unlink_ring [OF r t] by (simp add: list_remove_def master_ok_def Let_def)
  }
qed

definition tstate0 :: tstate where
  "tstate0 = \<lparr>tw = world0\<lparr>transports := [7 \<mapsto> zero_transport\<lparr>ref_count := 2\<rparr>, 8 \<mapsto> zero_transport\<lparr>connection_state := CS_NOPERM\<rparr>]\<rparr>,
     tlinks = \<lparr>nxt = (\<lambda>_. 1), prv = (\<lambda>_. 1)\<rparr>, registration = [], local_transports = replicate ADB_LOCAL_TRANSPORT_MAX 0,
     tclosed = [], usb_kicked = [], usb_closed = []\<rparr>"

lemma master_list_refined_witness:
  "master_ok (list_add 7 tstate0) \<and> (\<exists>s'. list_remove 7 (list_add 7 tstate0) = Inr s' \<and> transport_list (tw s') = [])"
proof -
  have "master_ok tstate0" by (simp add: master_ok_def tstate0_def world0_def ring_def transport_list_head_def)
  from master_list_refined [OF this, of 7] have a: "master_ok (list_add 7 tstate0)" "transport_list (tw (list_add 7 tstate0)) = [7]"
    by (simp_all add: tstate0_def world0_def transport_list_head_def)
  from master_list_refined [OF a(1), of 7] a show ?thesis by auto
qed

section \<open>Unregistering\<close>

lemma in_world_frame: "in_world f s = Inr s' \<Longrightarrow> tlinks s' = tlinks s \<and> registration s' = registration s"
  by (auto simp: in_world_def sbind_Inr_iff)

lemma kick_frame: "kick_once t s = Inr s' \<Longrightarrow> tlinks s' = tlinks s \<and> registration s' = registration s"
  by (auto simp: kick_once_def t_kick_def sbind_Inr_iff split: if_splits dest!: in_world_frame)

lemma close_frame: "t_close t s = Inr s' \<Longrightarrow> tlinks s' = tlinks s \<and> registration s' = registration s"
  by (auto simp: t_close_def sbind_Inr_iff split: if_splits dest!: in_world_frame)

lemma unref_links: "transport_unref t s = Inr s' \<Longrightarrow> tlinks s' = tlinks s"
  by (auto simp: transport_unref_def transport_unref_locked_def remove_transport_def sbind_Inr_iff split: if_splits
      dest!: in_world_frame kick_frame close_frame)

lemma list_remove_links: "list_remove t s = Inr s' \<Longrightarrow> tlinks s' = unlink_transport t (tlinks s)"
  by (auto simp: list_remove_def Let_def split: if_splits)

lemma unregister_links:
  assumes "unregister_transport t s = Inr s'"
  shows "tlinks s' = unlink_transport t (tlinks s)"
proof -
  obtain s1 s2 where s: "list_remove t s = Inr s1" "kick_transport t s1 = Inr s2" "transport_unref t s2 = Inr s'"
    using assms by (auto simp: unregister_transport_def sbind_Inr_iff)
  have "tlinks s2 = tlinks s1" using s(2) kick_frame by (auto simp: kick_transport_def split: if_splits)
  then show ?thesis using list_remove_links [OF s(1)] unref_links [OF s(3)] by simp
qed

lemma registration_add_links:
  assumes "registration_add hr hs psz mem s0 s1 t s = Inr s'"
  shows "tlinks s' = link_transport t (tlinks s)"
proof -
  obtain x where x: "deref_transport t (tw s) = Inr x" using assms by (auto simp: registration_add_def sbind_Inr_iff)
  obtain s2 s3 where s: "(if connection_state x \<noteq> CS_NOPERM then in_world (start_transport psz mem s0 s1 t) s else Inr s) = Inr s2"
    "in_world (set_transport t (\<lambda>x. x\<lparr>disconnects := []\<rparr>)) (list_add t s2) = Inr s3"
    "in_world (update_transports hr hs) s3 = Inr s'"
    using assms x by (auto simp: registration_add_def sbind_Inr_iff)
  have "tlinks s2 = tlinks s" using s(1) in_world_frame by (auto split: if_splits)
  moreover have "tlinks (list_add t s2) = link_transport t (tlinks s2)" by (simp add: list_add_def)
  ultimately show ?thesis using in_world_frame [OF s(2)] in_world_frame [OF s(3)] by simp
qed

lemma registration_remove_links:
  assumes "registration_remove hr hs t s = Inr s'"
  shows "tlinks s' = unlink_transport t (tlinks s)"
proof -
  obtain x where x: "deref_transport t (tw s) = Inr x" using assms by (auto simp: registration_remove_def sbind_Inr_iff)
  obtain s1 s2 s3 where s: "in_world (fd_try (fdevent_remove t)) s = Inr s1"
    "list_remove t (s1\<lparr>tclosed := tclosed s1 @ [t_fd x]\<rparr>) = Inr s2" "in_world (run_transport_disconnects t) s2 = Inr s3"
    "in_world (update_transports hr hs) (s3\<lparr>tw := (tw s3)\<lparr>transports := (transports (tw s3))(t := None)\<rparr>\<rparr>) = Inr s'"
    using assms x by (auto simp: registration_remove_def sbind_Inr_iff)
  show ?thesis
    using in_world_frame [OF s(1)] list_remove_links [OF s(2)] in_world_frame [OF s(3)] in_world_frame [OF s(4)] by simp
qed

text \<open>Unlinking a transport that was the last one, again, after another one has taken its place.\<close>

lemma stale_unlink:
  assumes r: "ring l transport_list_head (xs @ [t])" and c: "c \<notin> set xs" "c \<noteq> t" "c \<noteq> transport_list_head" "c \<noteq> 0"
  shows "ring (unlink_transport t (link_transport c (unlink_transport t l))) transport_list_head xs"
proof -
  let ?h = transport_list_head and ?z = "last (transport_list_head # xs)"
  let ?l1 = "unlink_transport t l"
  let ?l2 = "link_transport c ?l1"
  have d: "distinct (?h # xs @ [t])" "0 \<notin> set (?h # xs @ [t])" and s: "seg l ?h xs t" "seg l t [] ?h"
    using r by (simp_all add: ring_def seg_append)
  have t: "nxt l t = ?h" "prv l t = ?z" using s seg_last [OF s(1)] by auto
  have zt: "?z \<noteq> t" "?z \<noteq> c" using d c last_in_set [of "?h # xs"] by auto
  have "remove1 t (xs @ [t]) = xs" using d by (simp add: remove1_append)
  then have r1: "ring ?l1 ?h xs" using unlink_ring [OF r, of t] by simp
  have t1: "nxt ?l1 t = ?h" "prv ?l1 t = ?z" using t zt d by (auto simp: unlink_transport_def Let_def)
  have r2: "ring ?l2 ?h (xs @ [c])" using ring_enqueue [OF r1, of c] c by (simp add: link_transport_eq)
  have t2: "nxt ?l2 t = ?h" "prv ?l2 t = ?z"
  proof -
    have "prv ?l1 ?h = ?z" using r1 seg_last [of ?l1 ?h xs ?h] by (simp add: ring_def)
    then show "nxt ?l2 t = ?h" "prv ?l2 t = ?z"
      using t1 zt c d by (auto simp: link_transport_def Let_def)
  qed
  let ?l3 = "unlink_transport t ?l2"
  have e3: "nxt ?l3 = (nxt ?l2)(?z := ?h)" "prv ?l3 = (prv ?l2)(?h := ?z)"
    using t2 d by (auto simp: unlink_transport_def Let_def)
  have s2: "seg ?l2 ?h xs c" "distinct (?h # xs)" using r2 d by (auto simp: ring_def seg_append)
  have "seg ?l3 ?h xs ?h"
  proof (rule seg_retarget [OF s2(1)])
    show "\<forall>x\<in>set (butlast (?h # xs)). nxt ?l3 x = nxt ?l2 x"
      using butlast_not_last [OF s2(2)] by (auto simp: e3)
    show "\<forall>x\<in>set xs. prv ?l3 x = prv ?l2 x" using s2(2) by (auto simp: e3)
    show "nxt ?l3 ?z = ?h" "prv ?l3 ?h = ?z" by (simp_all add: e3)
  qed
  then show ?thesis using d by (auto simp: ring_def)
qed

text \<open>Unregistering loses another transport: \<open>unregister_transport\<close> unlinks the transport, and when
  its threads have ended the registration function unlinks it again, through pointers that are stale
  by then.  If the transport was the last of the list and another one has been added in between, the
  other one disappears from the list, although it is registered and running.\<close>

theorem unregister_loses_transport:
  assumes "ring (tlinks s) transport_list_head (xs @ [t])"
    and "c \<notin> set xs" and "c \<noteq> t" and "c \<noteq> transport_list_head" and "c \<noteq> 0"
    and "unregister_transport t s = Inr s1" and "registration_add hr hs psz mem f0 f1 c s1 = Inr s2"
    and "registration_remove hr hs t s2 = Inr s3"
  shows "ring (tlinks s3) transport_list_head xs \<and> c \<notin> set xs"
  using stale_unlink [OF assms(1-5)] unregister_links [OF assms(6)] registration_add_links [OF assms(7)]
    registration_remove_links [OF assms(8)] assms(2) by simp

lemma unregister_loses_transport_witness:
  "\<exists>s1 s2 s3. unregister_transport 7 (list_add 7 tstate0) = Inr s1
     \<and> registration_add no_request no_service 4 None 0 0 8 s1 = Inr s2 \<and> transport_list (tw s2) = [8]
     \<and> registration_remove no_request no_service 7 s2 = Inr s3 \<and> ring (tlinks s3) transport_list_head []
     \<and> transport_list (tw s3) = [8]"
proof -
  have "\<exists>s1. unregister_transport 7 (list_add 7 tstate0) = Inr s1 \<and>
      (\<exists>s2. registration_add no_request no_service 4 None 0 0 8 s1 = Inr s2 \<and> transport_list (tw s2) = [8] \<and>
      (\<exists>s3. registration_remove no_request no_service 7 s2 = Inr s3 \<and> transport_list (tw s3) = [8]))"
    by (simp add: unregister_transport_def list_remove_def list_add_def link_transport_def unlink_transport_def Let_def
        tstate0_def transport_list_head_def on_list_def kick_transport_def kick_once_def in_world_def set_transport_def
        deref_transport_def zero_transport_def t_kick_def transport_unref_def transport_unref_locked_def world0_def
        registration_add_def registration_remove_def fd_try_def fdevent_remove_def fdst0_def run_transport_disconnects_def
        update_transports_def listing_defs cs_defs)
  then obtain s1 s2 s3 where s: "unregister_transport 7 (list_add 7 tstate0) = Inr s1"
    "registration_add no_request no_service 4 None 0 0 8 s1 = Inr s2" "transport_list (tw s2) = [8]"
    "registration_remove no_request no_service 7 s2 = Inr s3" "transport_list (tw s3) = [8]" by blast
  have "ring (tlinks (list_add 7 tstate0)) transport_list_head ([] @ [7])"
    by (simp add: ring_def list_add_def link_transport_def tstate0_def transport_list_head_def Let_def)
  from unregister_loses_transport [OF this _ _ _ _ s(1,2,4)] s show ?thesis
    by (auto simp: transport_list_head_def)
qed

section \<open>References\<close>

lemma set_transport_get: "transports w t = Some x \<Longrightarrow> t \<noteq> 0 \<Longrightarrow> set_transport t f w = Inr (w\<lparr>transports := (transports w)(t \<mapsto> f x)\<rparr>)"
  by (simp add: set_transport_def deref_transport_def)

lemma kick_once_result:
  assumes "transports (tw s) t = Some x" and "t \<noteq> 0"
  obtains s' y where "kick_once t s = Inr s'" and "transports (tw s') = (transports (tw s))(t \<mapsto> y)" and "kicked y"
    and "ref_count y = ref_count x" and "registration s' = registration s" and "ev (tw s') = ev (tw s)"
proof (cases "kicked x")
  case True
  then show thesis using assms by (intro that [of s x]) (simp_all add: kick_once_def deref_transport_def fun_upd_idem)
next
  case False
  then show thesis
    using assms
    by (cases "ttype x = kTransportUsb")
      (rule that, simp add: kick_once_def deref_transport_def in_world_def set_transport_get t_kick_def, simp, simp, simp, simp, simp)+
qed

lemma unref_result:
  assumes "transports (tw s) t = Some x" and "t \<noteq> 0"
  obtains s' y where "transport_unref t s = Inr s'" and "transports (tw s') = (transports (tw s))(t \<mapsto> y)"
    and "ref_count y = ref_count x - 1" and "ref_count x \<noteq> 1 \<Longrightarrow> registration s' = registration s"
    and "ref_count x = 1 \<Longrightarrow> registration s' = registration s @ [(t, 0)]"
proof -
  define s1 where "s1 = s\<lparr>tw := (tw s)\<lparr>transports := (transports (tw s))(t \<mapsto> x\<lparr>ref_count := ref_count x - 1\<rparr>)\<rparr>\<rparr>"
  have d: "in_world (set_transport t (\<lambda>x. x\<lparr>ref_count := ref_count x - 1\<rparr>)) s = Inr s1"
    using assms by (simp add: in_world_def set_transport_get s1_def)
  have x1: "transports (tw s1) t = Some (x\<lparr>ref_count := ref_count x - 1\<rparr>)" by (simp add: s1_def)
  show thesis
  proof (cases "ref_count x = 1")
    case False
    then have "transport_unref t s = Inr s1"
      using assms d x1 by (simp add: transport_unref_def transport_unref_locked_def deref_transport_def)
    then show thesis using False by (intro that [of s1 "x\<lparr>ref_count := ref_count x - 1\<rparr>"]) (simp_all add: s1_def)
  next
    case True
    obtain s2 y where k: "kick_once t s1 = Inr s2" "transports (tw s2) = (transports (tw s1))(t \<mapsto> y)"
      "ref_count y = ref_count (x\<lparr>ref_count := ref_count x - 1\<rparr>)" "registration s2 = registration s1"
      by (rule kick_once_result [OF x1 assms(2)]) blast
    have "\<exists>s3 z. t_close t s2 = Inr s3 \<and> transports (tw s3) = (transports (tw s2))(t \<mapsto> z) \<and> ref_count z = ref_count y
        \<and> registration s3 = registration s2"
      using assms(2) k(2)
      by (cases "ttype y = kTransportUsb")
        (auto simp: t_close_def deref_transport_def in_world_def set_transport_get fun_upd_idem intro: exI [of _ y])
    then obtain s3 z where c: "t_close t s2 = Inr s3" "transports (tw s3) = (transports (tw s2))(t \<mapsto> z)" "ref_count z = ref_count y"
      "registration s3 = registration s2" by blast
    have "transport_unref t s = Inr (remove_transport t s3)"
      using assms d x1 k(1) c(1) True by (simp add: transport_unref_def transport_unref_locked_def deref_transport_def)
    then show thesis
      using True k c by (intro that [of "remove_transport t s3" z]) (simp_all add: remove_transport_def s1_def)
  qed
qed

text \<open>Closing sockets and running callbacks neither make transports nor trackers.\<close>

definition no_new :: "world \<Rightarrow> world \<Rightarrow> bool" where
  "no_new w w' \<longleftrightarrow> dom (transports w') = dom (transports w) \<and> (trackers w = [] \<longrightarrow> trackers w' = [])"

lemma no_new_trans: "no_new w w1 \<Longrightarrow> no_new w1 w2 \<Longrightarrow> no_new w w2"
  by (simp add: no_new_def)

lemma no_new_basic:
  "set_sock s f w = Inr w' \<Longrightarrow> no_new w w'" "fd_try g w = Inr w' \<Longrightarrow> no_new w w'"
  "remove_socket s w = Inr w' \<Longrightarrow> no_new w w'" "set_transport t h w = Inr w' \<Longrightarrow> no_new w w'"
  "send_packet p t w = Inr w' \<Longrightarrow> no_new w w'" "remove_transport_disconnect t d w = Inr w' \<Longrightarrow> no_new w w'"
  by (auto simp: no_new_def set_sock_def deref_def fd_try_def remove_socket_def set_transport_def deref_transport_def
      send_packet_def remove_transport_disconnect_def split: if_splits option.splits sum.splits)

lemma no_new_plain [simp]: "no_new w (free_sock s w) = True" "no_new w (fd_op f w) = True"
  "no_new w (insert_closing_socket s w) = True" "no_new w (device_tracker_remove s w) = True" "no_new w w = True"
  by (simp_all add: no_new_def free_sock_def fd_op_def insert_closing_socket_def device_tracker_remove_def)

lemma no_new_left: "no_new (fd_op f w) w' = no_new w w'" "no_new w (free_sock s w') = no_new w w'"
  "no_new w (fd_op f w') = no_new w w'" "no_new w (insert_closing_socket s w') = no_new w w'"
  by (simp_all add: no_new_def free_sock_def fd_op_def insert_closing_socket_def)

lemma destroy_no_new: "local_socket_destroy s w = Inr w' \<Longrightarrow> no_new w w'"
  by (auto simp: local_socket_destroy_def sbind_Inr_iff no_new_left split: if_splits
      dest!: no_new_basic intro: no_new_trans)

lemma close_locked_no_new:
  assumes cl: "\<And>s w w'. cl s w = Inr w' \<Longrightarrow> no_new w w'" and r: "local_socket_close_locked cl s w = Inr w'"
  shows "no_new w w'"
proof -
  obtain k where k: "deref s w = Inr k" using r by (auto simp: local_socket_close_locked_def sbind_Inr_iff)
  obtain w3 where w3: "(if peer k \<noteq> 0 then sbind (set_sock (peer k) (\<lambda>p. p\<lparr>peer := 0\<rparr>) w) (\<lambda>w1.
        sbind (cl (peer k) w1) (\<lambda>w2. set_sock s (\<lambda>k. k\<lparr>peer := 0\<rparr>) w2)) else Inr w) = Inr w3"
    and f0: "sbind (deref s w3) (\<lambda>k3. if closing k3 \<or> pkts k3 = [] then local_socket_destroy s w3
       else sbind (set_sock s (\<lambda>k. k\<lparr>closing := True\<rparr>) w3) (\<lambda>w4.
            sbind (remove_socket s (fd_op (fdevent_del s (ucast FDE_READ)) w4)) (\<lambda>w5.
              Inr (insert_closing_socket s w5)))) = Inr w'"
    using r k by (auto simp: local_socket_close_locked_def sbind_Inr_iff)
  obtain k3 where k3: "deref s w3 = Inr k3" using f0 by (auto simp: sbind_Inr_iff)
  with f0 have f: "(if closing k3 \<or> pkts k3 = [] then local_socket_destroy s w3
       else sbind (set_sock s (\<lambda>k. k\<lparr>closing := True\<rparr>) w3) (\<lambda>w4.
            sbind (remove_socket s (fd_op (fdevent_del s (ucast FDE_READ)) w4)) (\<lambda>w5.
              Inr (insert_closing_socket s w5)))) = Inr w'" by simp
  have "no_new w w3"
    using w3 by (auto simp: sbind_Inr_iff split: if_splits dest!: no_new_basic(1) cl intro: no_new_trans)
  moreover have "no_new w3 w'"
  proof (cases "closing k3 \<or> pkts k3 = []")
    case True
    then show ?thesis using f destroy_no_new by simp
  next
    case False
    then show ?thesis
      using f by (auto simp: sbind_Inr_iff no_new_left dest!: no_new_basic(1,3) intro: no_new_trans)
  qed
  ultimately show ?thesis by (rule no_new_trans)
qed

lemma sendfailmsg_no_new: "no_new w (snd (sendfailmsg fd bs w))"
proof -
  obtain ob wb where "snd (sendfailmsg fd bs w) = w\<lparr>outs := (outs w)(fd := ob), wrs := (wrs w)(fd := wb)\<rparr>"
    by (rule sendfailmsg_frame)
  then show ?thesis by (simp add: no_new_def)
qed

lemma peer_first_no_new:
  assumes cl: "\<And>s w w'. cl s w = Inr w' \<Longrightarrow> no_new w w'" and r: "sbind (set_sock p f w) (cl p) = Inr w'"
  shows "no_new w w'"
  using r by (auto simp: sbind_Inr_iff dest!: no_new_basic(1) cl intro: no_new_trans)

lemma remote_close_no_new:
  assumes cl: "\<And>s w w'. cl s w = Inr w' \<Longrightarrow> no_new w w'" and r: "remote_socket_close_fn cl s w = Inr w'"
  shows "no_new w w'"
proof -
  obtain k where k: "deref s w = Inr k" using r by (auto simp: remote_socket_close_fn_def sbind_Inr_iff)
  obtain a0 w3 where w3: "(if peer k \<noteq> 0
            then sbind (deref (peer k) w) (\<lambda>p.
                 sbind (set_sock (peer k) (\<lambda>p. p\<lparr>peer := 0\<rparr>) w) (\<lambda>w1.
                 sbind (cl (peer k) w1) (\<lambda>w2. Inr (sk_id p, w2))))
            else Inr (0, w)) = Inr (a0, w3)"
    and f: "sbind (deref s w3) (\<lambda>k3. sbind (send_packet (packet A_CLSE a0 (sk_id k3) []) (sk_transport k3) w3) (\<lambda>w4.
       sbind (remove_transport_disconnect (sk_transport k3) (remote_socket_disconnect s) w4) (\<lambda>w5.
         Inr (free_sock s w5)))) = Inr w'"
    using r k by (auto simp: remote_socket_close_fn_def sbind_Inr_iff)
  have "no_new w w3"
    using w3 by (auto simp: sbind_Inr_iff split: if_splits dest!: no_new_basic(1) cl intro: no_new_trans)
  moreover have "no_new w3 w'"
    using f by (auto simp: sbind_Inr_iff no_new_left dest!: no_new_basic(5,6) intro: no_new_trans)
  ultimately show ?thesis by (rule no_new_trans)
qed

lemma close_no_new: "close_sock n s w = Inr w' \<Longrightarrow> no_new w w'"
proof (induction n arbitrary: s w w')
  case 0
  then show ?case by simp
next
  case (Suc n)
  obtain k where k: "deref s w = Inr k" using Suc.prems by (auto simp: close_sock.simps(2) sbind_Inr_iff)
  show ?case
  proof (cases "close k")
    case local_socket_close
    then show ?thesis using Suc k close_locked_no_new [of "close_sock n" s w w'] by (simp add: close_sock.simps(2))
  next
    case local_socket_close_notify
    then obtain w1 where w1: "set_sock s (\<lambda>k. k\<lparr>ready := local_socket_ready, close := local_socket_close\<rparr>) w = Inr w1"
      using Suc.prems k by (auto simp: close_sock.simps(2) local_socket_close_notify_fn_def sbind_Inr_iff)
    obtain k1 where "deref s w1 = Inr k1"
      using Suc.prems k local_socket_close_notify w1
      by (auto simp: close_sock.simps(2) local_socket_close_notify_fn_def sbind_Inr_iff)
    then have w2:
      "local_socket_close_locked (close_sock n) s (snd (sendfailmsg (sk_fd k1) (ascii ''closed'') w1)) = Inr w'"
      using Suc.prems k local_socket_close_notify w1
      by (auto simp: close_sock.simps(2) local_socket_close_notify_fn_def sbind_Inr_iff)
    have "no_new (snd (sendfailmsg (sk_fd k1) (ascii ''closed'') w1)) w'"
      by (rule close_locked_no_new [OF _ w2]) (rule Suc.IH)
    then show ?thesis using no_new_basic(1) [OF w1] sendfailmsg_no_new no_new_trans by blast
  next
    case remote_socket_close
    then show ?thesis using Suc k remote_close_no_new [of "close_sock n" s w w'] by (simp add: close_sock.simps(2))
  next
    case smart_socket_close
    then show ?thesis
      using Suc.prems k
      by (auto simp: close_sock.simps(2) smart_socket_close_fn_def sbind_Inr_iff no_new_left split: if_splits
          dest!: no_new_basic(1) Suc.IH intro: no_new_trans)
  next
    case device_tracker_close
    then obtain w3 where w3: "(if peer k \<noteq> 0 then sbind (set_sock (peer k) (\<lambda>p. p\<lparr>peer := 0\<rparr>) w) (close_sock n (peer k)) else Inr w) = Inr w3"
      "w' = free_sock s (device_tracker_remove s w3)"
      using Suc.prems k by (auto simp: close_sock.simps(2) device_tracker_close_fn_def sbind_Inr_iff)
    have "no_new w w3"
      using w3(1) peer_first_no_new [of "close_sock n", OF Suc.IH] by (auto split: if_splits)
    moreover have "no_new w3 w'" by (simp add: w3(2) no_new_left)
    ultimately show ?thesis by (rule no_new_trans)
  qed
qed

lemmas call_close_no_new = close_no_new [of 2]

lemma close_all_no_new: "close_all_sockets n t w = Inr w' \<Longrightarrow> no_new w w'"
proof (induction n arbitrary: w)
  case (Suc n)
  show ?case
  proof (cases "find (on_transport t w) (local_list w)")
    case (Some s)
    then obtain w1 where w1: "local_socket_close_locked call_close s w = Inr w1" "close_all_sockets n t w1 = Inr w'"
      using Suc.prems by (auto simp: sbind_Inr_iff)
    have "no_new w w1" by (rule close_locked_no_new [OF call_close_no_new w1(1)])
    then show ?thesis using Suc.IH [OF w1(2)] by (rule no_new_trans)
  qed (use Suc.prems in simp)
qed simp

lemma run_disconnect_no_new: "run_disconnect d w = Inr w' \<Longrightarrow> no_new w w'"
proof (cases d)
  case (remote_socket_disconnect s)
  assume r: "run_disconnect d w = Inr w'"
  obtain k where k: "deref s w = Inr k"
    using r remote_socket_disconnect by (auto simp: run_disconnect_def remote_socket_disconnect_fn_def sbind_Inr_iff)
  obtain w1 where w0: "(if peer k \<noteq> 0 then sbind (set_sock (peer k) (\<lambda>p. p\<lparr>peer := 0\<rparr>) w) (call_close (peer k)) else Inr w) = Inr w1"
    and f: "sbind (deref s w1) (\<lambda>k1. sbind (remove_transport_disconnect (sk_transport k1) (remote_socket_disconnect s) w1) (\<lambda>w2.
       Inr (free_sock s w2))) = Inr w'"
    using r remote_socket_disconnect k by (auto simp: run_disconnect_def remote_socket_disconnect_fn_def sbind_Inr_iff)
  obtain k1 where k1: "deref s w1 = Inr k1" using f by (auto simp: sbind_Inr_iff)
  with f w0 obtain w2 where w1: "(if peer k \<noteq> 0 then sbind (set_sock (peer k) (\<lambda>p. p\<lparr>peer := 0\<rparr>) w) (call_close (peer k)) else Inr w) = Inr w1"
    "remove_transport_disconnect (sk_transport k1) (remote_socket_disconnect s) w1 = Inr w2" "w' = free_sock s w2"
    by (auto simp: sbind_Inr_iff)
  have "no_new w w1" using w1(1) peer_first_no_new [of call_close, OF call_close_no_new] by (auto split: if_splits)
  then show ?thesis using no_new_basic(6) [OF w1(2)] by (auto simp: w1(3) no_new_left intro: no_new_trans)
next
  case (listener_disconnect l)
  assume r: "run_disconnect d w = Inr w'"
  then obtain x where x: "deref_listener l w = Inr x"
    using listener_disconnect by (auto simp: run_disconnect_def free_listener_def sbind_Inr_iff)
  with r obtain w1 w2 where w: "fd_try (fdevent_remove l) (w\<lparr>listener_list := remove1 l (listener_list w)\<rparr>) = Inr w1"
    "(if l_transport x \<noteq> 0 then remove_transport_disconnect (l_transport x) (listener_disconnect l) w1 else Inr w1) = Inr w2"
    "w' = w2\<lparr>listeners := (listeners w2)(l := None)\<rparr>"
    using listener_disconnect by (auto simp: run_disconnect_def free_listener_def sbind_Inr_iff)
  have "no_new w w1" using no_new_basic(2) [OF w(1)] by (simp add: no_new_def)
  moreover have "no_new w1 w2" using w(2) no_new_basic(6) by (auto split: if_splits)
  ultimately show ?thesis by (auto simp: w(3) no_new_def)
qed

lemma run_nodes_no_new: "run_nodes n t d w = Inr w' \<Longrightarrow> no_new w w'"
  by (induction n t d w arbitrary: w' rule: run_nodes.induct)
    (auto simp: sbind_Inr_iff Let_def split: if_splits dest!: run_disconnect_no_new intro: no_new_trans)

lemma run_disconnects_no_new: "run_transport_disconnects t w = Inr w' \<Longrightarrow> no_new w w'"
  by (auto simp: run_transport_disconnects_def sbind_Inr_iff dest: run_nodes_no_new)

lemma registration_remove_frees:
  assumes r: "registration_remove hr hs t s = Inr s'" and tr: "trackers (tw s) = []"
  shows "transports (tw s') t = None"
proof -
  obtain x where x: "deref_transport t (tw s) = Inr x" using r by (auto simp: registration_remove_def sbind_Inr_iff)
  obtain s1 s2 s3 where s: "in_world (fd_try (fdevent_remove t)) s = Inr s1"
    "list_remove t (s1\<lparr>tclosed := tclosed s1 @ [t_fd x]\<rparr>) = Inr s2" "in_world (run_transport_disconnects t) s2 = Inr s3"
    "in_world (update_transports hr hs) (s3\<lparr>tw := (tw s3)\<lparr>transports := (transports (tw s3))(t := None)\<rparr>\<rparr>) = Inr s'"
    using r x by (auto simp: registration_remove_def sbind_Inr_iff)
  have "trackers (tw s1) = []"
    using s(1) tr no_new_basic(2) by (auto simp: in_world_def sbind_Inr_iff no_new_def)
  then have "trackers (tw s2) = []" using s(2) by (auto simp: list_remove_def Let_def split: if_splits)
  then have "trackers (tw s3) = []"
    using s(3) run_disconnects_no_new by (auto simp: in_world_def sbind_Inr_iff no_new_def)
  then show ?thesis using s(4) by (auto simp: in_world_def sbind_Inr_iff update_transports_def split: option.splits)
qed

lemma in_world_set_trackers: "in_world (set_transport t f) s = Inr s' \<Longrightarrow> trackers (tw s') = trackers (tw s)"
  by (auto simp: in_world_def set_transport_def deref_transport_def sbind_Inr_iff split: option.splits)

lemma kick_trackers: "kick_once t s = Inr s' \<Longrightarrow> trackers (tw s') = trackers (tw s)"
  by (auto simp: kick_once_def t_kick_def sbind_Inr_iff split: if_splits dest!: in_world_set_trackers)

lemma unref_trackers: "transport_unref t s = Inr s' \<Longrightarrow> trackers (tw s') = trackers (tw s)"
  by (auto simp: transport_unref_def transport_unref_locked_def remove_transport_def t_close_def sbind_Inr_iff split: if_splits
      dest!: in_world_set_trackers kick_trackers)

lemma freed_unref: "transports (tw s) t = None \<Longrightarrow> t \<noteq> 0 \<Longrightarrow> transport_unref t s = Inl (UseAfterFree t)"
  by (simp add: transport_unref_def transport_unref_locked_def in_world_def set_transport_def deref_transport_def)

lemma freed_thread_exit:
  assumes "transports (tw s) t = None" and "t \<noteq> 0"
  shows "\<exists>e. input_thread_exit t s = Inl e"
proof (cases "input_thread_exit t s")
  case (Inr s')
  then obtain s1 where s1: "in_world (\<lambda>w. close_all_sockets (Suc (length (local_list w))) t w) s = Inr s1"
    "\<exists>s2. kick_transport t s1 = Inr s2" by (auto simp: input_thread_exit_def sbind_Inr_iff)
  obtain w where w: "close_all_sockets (Suc (length (local_list (tw s)))) t (tw s) = Inr w" "tw s1 = w"
    using s1(1) by (auto simp: in_world_def sbind_Inr_iff)
  have "transports (tw s1) t = None" using close_all_no_new [OF w(1)] w(2) assms(1) 
    by (simp add: no_new_def) (metis domIff)
  then show ?thesis
    using s1(2) assms(2) by (auto simp: kick_transport_def kick_once_def deref_transport_def)
qed auto

text \<open>C31. \<open>unregister_transport\<close> drops a reference that belongs to a thread.  A running transport has two
  references, one for each thread; after it has been unregistered, the first thread that ends takes
  the count to zero and asks for the transport to be freed, and once the main thread has done so, the
  other thread, when it ends, uses the freed transport.\<close>

theorem unregister_frees_under_thread:
  assumes x: "transports (tw s) t = Some x" "ref_count x = 2" and t: "t \<noteq> 0" and c: "registration s = []"
    and u: "unregister_transport t s = Inr s1" and tr: "trackers (tw s) = []"
  shows "\<exists>s2. output_thread_exit t s1 = Inr s2 \<and> registration s2 = [(t, 0)]
    \<and> (\<forall>s3. transport_registration_func hr hs psz mem f0 f1 s2 = Inr s3 \<longrightarrow>
          (\<exists>e. input_thread_exit t s3 = Inl e) \<and> transport_unref t s3 = Inl (UseAfterFree t))"
proof -
  obtain s0 s0' where l: "list_remove t s = Inr s0" "kick_transport t s0 = Inr s0'" "transport_unref t s0' = Inr s1"
    using u by (auto simp: unregister_transport_def sbind_Inr_iff)
  have x0: "transports (tw s0) t = Some x" "registration s0 = []"
    using l(1) x c by (auto simp: list_remove_def Let_def split: if_splits)
  obtain k y where k: "kick_once t s0 = Inr k" "transports (tw k) = (transports (tw s0))(t \<mapsto> y)"
    "ref_count y = ref_count x" "registration k = registration s0"
    by (rule kick_once_result [OF x0(1) t]) blast
  have k0: "s0' = k" using l(2) k(1) t by (simp add: kick_transport_def)
  then have y: "transports (tw s0') t = Some y" using k(2) by simp
  obtain z where z: "transports (tw s1) t = Some z" "ref_count z = 1" "registration s1 = []"
    by (rule unref_result [OF y t]) (use l(3) k k0 x x0 in auto)
  obtain k1 y1 where k1: "kick_once t s1 = Inr k1" "transports (tw k1) = (transports (tw s1))(t \<mapsto> y1)"
    "ref_count y1 = ref_count z" "registration k1 = registration s1"
    by (rule kick_once_result [OF z(1) t]) blast
  have y1: "transports (tw k1) t = Some y1" using k1(2) by simp
  obtain s2 where s2: "transport_unref t k1 = Inr s2" "registration s2 = [(t, 0)]"
    by (rule unref_result [OF y1 t]) (use k1 z in auto)
  have e: "output_thread_exit t s1 = Inr s2" using k1(1) s2(1) t by (simp add: output_thread_exit_def kick_transport_def)
  have tr0: "trackers (tw s0) = []" using l(1) tr by (auto simp: list_remove_def Let_def split: if_splits)
  have tr2: "trackers (tw s2) = []"
    using kick_trackers [OF k1(1)] unref_trackers [OF s2(1)] unref_trackers [OF l(3)] kick_trackers [OF k(1)] k0 tr0 by simp
  have "(\<exists>e. input_thread_exit t s3 = Inl e) \<and> transport_unref t s3 = Inl (UseAfterFree t)"
    if r: "transport_registration_func hr hs psz mem f0 f1 s2 = Inr s3" for s3
  proof -
    have "registration_remove hr hs t (s2\<lparr>registration := []\<rparr>) = Inr s3"
      using r s2(2) by (simp add: transport_registration_func_def)
    from registration_remove_frees [OF this] tr2 have "transports (tw s3) t = None" by simp
    then show ?thesis using freed_thread_exit [OF _ t] freed_unref [OF _ t] by blast
  qed
  then show ?thesis using e s2(2) by blast
qed

lemma unregister_frees_under_thread_witness:
  "\<exists>s1 s2 s3. unregister_transport 7 (list_add 7 tstate0) = Inr s1 \<and> output_thread_exit 7 s1 = Inr s2
     \<and> transport_registration_func no_request no_service 4 None 0 0 s2 = Inr s3
     \<and> transport_unref 7 s3 = Inl (UseAfterFree 7)"
proof -
  have "\<exists>s1. unregister_transport 7 (list_add 7 tstate0) = Inr s1 \<and> (\<exists>s2. output_thread_exit 7 s1 = Inr s2
      \<and> (\<exists>s3. transport_registration_func no_request no_service 4 None 0 0 s2 = Inr s3))"
    by (simp add: unregister_transport_def list_remove_def list_add_def link_transport_def unlink_transport_def Let_def
        tstate0_def transport_list_head_def on_list_def kick_transport_def kick_once_def in_world_def set_transport_def
        deref_transport_def zero_transport_def t_kick_def t_close_def transport_unref_def transport_unref_locked_def world0_def
        registration_remove_def fd_try_def fdevent_remove_def fdst0_def run_transport_disconnects_def
        update_transports_def listing_defs cs_defs output_thread_exit_def remove_transport_def transport_registration_func_def)
  then obtain s1 s2 s3 where s: "unregister_transport 7 (list_add 7 tstate0) = Inr s1" "output_thread_exit 7 s1 = Inr s2"
    "transport_registration_func no_request no_service 4 None 0 0 s2 = Inr s3" by blast
  have "registration (list_add 7 tstate0) = []" "trackers (tw (list_add 7 tstate0)) = []"
    "transports (tw (list_add 7 tstate0)) 7 = Some (zero_transport\<lparr>ref_count := 2\<rparr>)"
    by (simp_all add: list_add_def tstate0_def world0_def)
  then have "transport_unref 7 s3 = Inl (UseAfterFree 7)"
    using unregister_frees_under_thread [of "list_add 7 tstate0" 7 "zero_transport\<lparr>ref_count := 2\<rparr>" s1 no_request no_service
        4 None 0 0] s by auto
  with s show ?thesis by blast
qed

section \<open>The table of emulators\<close>

definition ports :: "tstate \<Rightarrow> int option list" where
  "ports s = map (\<lambda>a. map_option adb_port (transports (tw s) a)) (filter (\<lambda>a. a \<noteq> 0) (local_transports s))"

definition ports_ok :: "tstate \<Rightarrow> bool" where
  "ports_ok s \<longleftrightarrow> length (local_transports s) = ADB_LOCAL_TRANSPORT_MAX \<and> distinct (ports s) \<and> None \<notin> set (ports s)"

lemma ports_frame:
  assumes "local_transports s' = local_transports s"
    and "\<And>a. a \<in> set (local_transports s) \<Longrightarrow> a \<noteq> 0 \<Longrightarrow> transports (tw s') a = transports (tw s) a"
  shows "ports s' = ports s"
  using assms by (simp add: ports_def)

lemma ports_live: "ports_ok s \<Longrightarrow> a \<in> set (local_transports s) \<Longrightarrow> a \<noteq> 0 \<Longrightarrow> transports (tw s) a \<noteq> None"
  unfolding ports_ok_def ports_def by (cases "transports (tw s) a") (auto simp: image_iff)

lemma filter_slot:
  assumes "i < length xs" and "xs ! i = 0"
  shows "\<exists>ys zs. filter (\<lambda>a. a \<noteq> (0::nat)) xs = ys @ zs \<and> filter (\<lambda>a. a \<noteq> 0) (xs[i := t]) = ys @ (if t = 0 then [] else [t]) @ zs"
proof -
  have "filter (\<lambda>a. a \<noteq> 0) xs = filter (\<lambda>a. a \<noteq> 0) (take i xs) @ filter (\<lambda>a. a \<noteq> 0) (drop (Suc i) xs)"
    using arg_cong [OF id_take_nth_drop [OF assms(1)], of "filter (\<lambda>a. a \<noteq> 0)"] assms(2) by simp
  moreover have "filter (\<lambda>a. a \<noteq> 0) (xs[i := t])
      = filter (\<lambda>a. a \<noteq> 0) (take i xs) @ (if t = 0 then [] else [t]) @ filter (\<lambda>a. a \<noteq> 0) (drop (Suc i) xs)"
    using assms(1) by (simp add: upd_conv_take_nth_drop)
  ultimately show ?thesis by blast
qed

lemma no_port: "find_emulator_transport_by_adb_port port s = 0 \<Longrightarrow> Some port \<notin> set (ports s)"
  by (fastforce simp: find_emulator_transport_by_adb_port_def ports_def find_None_iff find_Some_iff
      eq_commute [of "Some port"] split: option.splits dest!: nth_mem)

lemma free_slot:
  assumes "\<not> get_available_local_transport_index s < 0"
  shows "nat (get_available_local_transport_index s) < length (local_transports s)
    \<and> local_transports s ! nat (get_available_local_transport_index s) = 0"
  using assms nth_length_takeWhile [of "\<lambda>x. x \<noteq> 0" "local_transports s"]
  by (auto simp: get_available_local_transport_index_def Let_def split: if_splits)

text \<open>C32. The table of emulators never holds two transports with one port: a new emulator is put into a free
  slot, and if its port is taken, or the table is full, its connection is closed and its transport freed.\<close>

theorem emulator_ports_unique:
  assumes ok: "ports_ok s" and t: "transports (tw s) t = None" "t \<noteq> 0"
  shows "ports_ok (register_socket_transport host t fd sn port local s)
    \<and> (host \<and> local \<and> (Some port \<in> set (ports s) \<or> 0 \<notin> set (local_transports s))
        \<longrightarrow> tclosed (register_socket_transport host t fd sn port local s) = tclosed s @ [fd]
          \<and> transports (tw (register_socket_transport host t fd sn port local s)) = transports (tw s))"
proof -
  let ?x = "zero_transport\<lparr>sfd := fd, sync_token := 1, connection_state := CS_OFFLINE, ttype := kTransportLocal,
      adb_port := (if host \<and> local then port else 0)\<rparr>"
  let ?s1 = "s\<lparr>tw := (tw s)\<lparr>transports := (transports (tw s))(t \<mapsto> ?x)\<rparr>\<rparr>"
  have nt: "t \<notin> set (local_transports s)" using ports_live [OF ok, of t] t by auto
  have p1: "ports ?s1 = ports s" by (rule ports_frame) (use nt in auto)
  have u: "(transports (tw s))(t := None) = transports (tw s)" using t by auto
  have keep: "ports_ok s'" if "local_transports s' = local_transports s"
      "\<And>a. a \<noteq> t \<Longrightarrow> transports (tw s') a = transports (tw s) a" for s'
  proof -
    have "transports (tw s') a = transports (tw s) a" if "a \<in> set (local_transports s)" for a
      using that nt \<open>\<And>a. a \<noteq> t \<Longrightarrow> transports (tw s') a = transports (tw s) a\<close> by metis
    then have "ports s' = ports s" using that(1) by (intro ports_frame)
    then show ?thesis using ok that(1) by (simp add: ports_ok_def)
  qed
  show ?thesis
  proof (cases "host \<and> local")
    case False
    then show ?thesis
      by (auto simp: register_socket_transport_def init_socket_transport_def Let_def register_transport_def intro!: keep)
  next
    case hl: True
    let ?i = "get_available_local_transport_index ?s1"
    show ?thesis
    proof (cases "find_emulator_transport_by_adb_port port ?s1 \<noteq> 0 \<or> ?i < 0")
      case True
      then have "register_socket_transport host t fd sn port local s
          = ?s1\<lparr>tclosed := tclosed s @ [fd], tw := (tw s)\<lparr>transports := transports (tw s)\<rparr>\<rparr>"
        using hl u by (auto simp: register_socket_transport_def init_socket_transport_def Let_def)
      then show ?thesis by (auto intro!: keep)
    next
      case False
      then have np: "Some port \<notin> set (ports s)" using no_port [of port ?s1] p1 by simp
      have i: "nat ?i < length (local_transports s)" "local_transports s ! nat ?i = 0"
        using free_slot [of ?s1] False by auto
      let ?s2 = "register_socket_transport host t fd sn port local s"
      have e: "local_transports ?s2 = (local_transports s)[nat ?i := t]"
          "transports (tw ?s2) = (transports (tw s))(t \<mapsto> ?x\<lparr>serial := Some sn\<rparr>)"
        using False hl by (auto simp: register_socket_transport_def init_socket_transport_def Let_def register_transport_def)
      obtain ys zs where f: "filter (\<lambda>a. a \<noteq> 0) (local_transports s) = ys @ zs"
          "filter (\<lambda>a. a \<noteq> 0) ((local_transports s)[nat ?i := t]) = ys @ [t] @ zs"
        using filter_slot [OF i, of t] t by auto
      have "t \<notin> set (ys @ zs)" using nt f(1) [symmetric] by simp
      then have "ports ?s2 = map (\<lambda>a. map_option adb_port (transports (tw s) a)) ys @ [Some port]
          @ map (\<lambda>a. map_option adb_port (transports (tw s) a)) zs"
        unfolding ports_def e f using hl by auto
      moreover have "ports s = map (\<lambda>a. map_option adb_port (transports (tw s) a)) ys
          @ map (\<lambda>a. map_option adb_port (transports (tw s) a)) zs" unfolding ports_def f by simp
      ultimately have "ports_ok ?s2" using ok np by (auto simp: ports_ok_def e)
      then show ?thesis using np i nth_mem [OF i(1)] by auto
    qed
  qed
qed

lemma emulator_ports_unique_witness:
  "ports_ok (register_socket_transport True 9 5 [1] 5555 True tstate0)
   \<and> tclosed (register_socket_transport True 10 6 [2] 5555 True
         (register_socket_transport True 9 5 [1] 5555 True tstate0)) = [6]"
proof -
  let ?s = "register_socket_transport True 9 5 [1] 5555 True tstate0"
  have z: "ports_ok tstate0" "transports (tw tstate0) 9 = None"
    by (simp_all add: ports_ok_def ports_def tstate0_def world0_def ADB_LOCAL_TRANSPORT_MAX_def)
  then have ok: "ports_ok ?s" using emulator_ports_unique [of tstate0 9 True 5 "[1]" 5555 True] by simp
  have s: "transports (tw ?s) 10 = None" "Some 5555 \<in> set (ports ?s)" "tclosed ?s = []"
    by (simp_all add: register_socket_transport_def init_socket_transport_def Let_def register_transport_def ports_def
        find_emulator_transport_by_adb_port_def get_available_local_transport_index_def tstate0_def world0_def
        ADB_LOCAL_TRANSPORT_MAX_def numeral_eq_Suc)
  from emulator_ports_unique [OF ok s(1), of True 6 "[2]" 5555 True] ok s(2,3) show ?thesis by simp
qed

section \<open>The threads\<close>






text \<open>What the main thread has sent to one transport, in order.\<close>

definition to_transport :: "nat \<Rightarrow> (nat \<times> amessage \<times> byte list) list \<Rightarrow> (amessage \<times> byte list) list" where
  "to_transport t ms = map snd (filter (\<lambda>m. fst m = t) ms)"

lemma to_transport_append [simp]: "to_transport t (ms @ ns) = to_transport t ms @ to_transport t ns"
  by (simp add: to_transport_def)


lemma sync_packet_msg [simp]:
  "command (pk_msg (sync_packet a b)) = A_SYNC" "arg0 (pk_msg (sync_packet a b)) = a" "arg1 (pk_msg (sync_packet a b)) = b"
  by (simp_all add: sync_packet_def)





end
