(* ===== verification/Bip.thy ===== *)
theory Bip
  imports Prelude
begin

text \<open>
  The bipartite buffer behind the socket pairs of the Windows build (\<open>adb/sysdeps_win32.cpp\<close>): a block
  of 4096 bytes with a region A, from \<open>a_start\<close> to \<open>a_end\<close>, and a region B, from 0 to \<open>b_end\<close>, which is
  used when A has reached the end.  The abstraction \<open>contents\<close> is A followed by B; writing and reading
  refine a bounded queue of bytes.  Each call runs under the lock of the buffer and is one step; a call
  that finds the buffer full or empty waits for an event, and waking up is a step of its own.
\<close>

definition BIP_BUFFER_SIZE :: nat where "BIP_BUFFER_SIZE = 4096"

text \<open>The events are manual-reset: \<open>evt_write\<close> and \<open>evt_read\<close> say whether they are signalled.\<close>

record bip =
  a_start :: nat
  a_end :: nat
  b_end :: nat
  bclosed :: bool
  can_write :: bool
  evt_write :: bool
  can_read :: bool
  evt_read :: bool
  buff :: "byte list"

text \<open>The outcome of a call: it returns, it waits for the event, or an \<open>assert\<close> fails.\<close>

datatype 'a outcome = Returns 'a | Waits | Asserts

definition bip_buffer_init :: "byte list \<Rightarrow> bip" where
  "bip_buffer_init junk = \<lparr>a_start = 0, a_end = 0, b_end = 0, bclosed = False, can_write = True, evt_write = True,
     can_read = False, evt_read = False, buff = junk\<rparr>"

definition bip_buffer_close :: "bip \<Rightarrow> bip" where
  "bip_buffer_close b =
     (let b1 = b\<lparr>bclosed := True\<rparr>;
          b2 = (if \<not> can_read b1 then b1\<lparr>evt_read := True\<rparr> else b1)
      in if \<not> can_write b2 then b2\<lparr>evt_write := True\<rparr> else b2)"

text \<open>\<open>memcpy\<close> into the block.\<close>

definition blit :: "nat \<Rightarrow> byte list \<Rightarrow> byte list \<Rightarrow> byte list" where
  "blit i ys xs = take i xs @ ys @ drop (i + length ys) xs"

section \<open>Writing\<close>

definition shut_write :: "bip \<Rightarrow> bip" where
  "shut_write b = b\<lparr>can_write := False, evt_write := False\<rparr>"

definition write_exit :: "nat \<Rightarrow> bip \<Rightarrow> (int \<times> bip) outcome" where
  "write_exit count b =
     (if count = 0 then Asserts
      else Returns (int count, if can_read b then b else b\<lparr>can_read := True, evt_read := True\<rparr>))"

definition write_b :: "nat \<Rightarrow> byte list \<Rightarrow> bip \<Rightarrow> (int \<times> bip) outcome" where
  "write_b count src b =
     (if a_start b \<le> b_end b then Asserts
      else let n = min (a_start b - b_end b) (length src);
               b1 = b\<lparr>buff := blit (b_end b) (take n src) (buff b), b_end := b_end b + n\<rparr>;
               b2 = (if b_end b1 = a_start b1 then shut_write b1 else b1)
           in write_exit (count + n) b2)"

definition write_body :: "byte list \<Rightarrow> bip \<Rightarrow> (int \<times> bip) outcome" where
  "write_body src b =
     (let n = min (BIP_BUFFER_SIZE - a_end b) (length src);
          b1 = (if 0 < n then b\<lparr>buff := blit (a_end b) (take n src) (buff b), a_end := a_end b + n\<rparr> else b)
      in if 0 < n \<and> a_end b1 = BIP_BUFFER_SIZE \<and> a_start b1 = 0 then write_exit n (shut_write b1)
         else if drop n src = [] then write_exit n b1
         else write_b n (drop n src) b1)"

text \<open>\<open>- 1\<close> is \<open>EPIPE\<close>; a length of zero or less is an empty \<open>src\<close>.\<close>

definition bip_buffer_write :: "byte list \<Rightarrow> bip \<Rightarrow> (int \<times> bip) outcome" where
  "bip_buffer_write src b =
     (if src = [] then Returns (0, b)
      else if can_write b then write_body src b
      else if bclosed b then Returns (- 1, b)
      else Waits)"

definition write_wakes :: "byte list \<Rightarrow> bip \<Rightarrow> (int \<times> bip) outcome" where
  "write_wakes src b = (if bclosed b then Returns (- 1, b) else bip_buffer_write src b)"

section \<open>Reading\<close>

definition read_exit :: "byte list \<Rightarrow> bip \<Rightarrow> (int \<times> byte list \<times> bip) outcome" where
  "read_exit bs b =
     (if bs = [] then Asserts
      else Returns (int (length bs), bs, if can_write b then b else b\<lparr>can_write := True, evt_write := True\<rparr>))"

definition shut_read :: "bip \<Rightarrow> bip" where
  "shut_read b = b\<lparr>can_read := False, evt_read := False\<rparr>"

definition read_b :: "byte list \<Rightarrow> nat \<Rightarrow> bip \<Rightarrow> (int \<times> byte list \<times> bip) outcome" where
  "read_b bs len b =
     (let b1 = b\<lparr>a_start := 0, a_end := b_end b, b_end := 0\<rparr>;
          n = min (a_end b1) len;
          b2 = b1\<lparr>a_start := n\<rparr>;
          bs2 = bs @ take n (buff b1)
      in if a_end b1 = 0 then read_exit bs (shut_read b1)
         else if n < a_end b1 then read_exit bs2 b2
         else read_exit bs2 (shut_read (b2\<lparr>a_start := 0, a_end := 0\<rparr>)))"

definition read_body :: "nat \<Rightarrow> bip \<Rightarrow> (int \<times> byte list \<times> bip) outcome" where
  "read_body len b =
     (if a_end b \<le> a_start b then Asserts
      else let n = min (a_end b - a_start b) len;
               bs = take n (drop (a_start b) (buff b));
               b1 = b\<lparr>a_start := a_start b + n\<rparr>
           in if a_start b1 < a_end b1 then read_exit bs b1 else read_b bs (len - n) b1)"

definition bip_buffer_read :: "nat \<Rightarrow> bip \<Rightarrow> (int \<times> byte list \<times> bip) outcome" where
  "bip_buffer_read len b =
     (if len = 0 then Returns (0, [], b)
      else if can_read b then read_body len b
      else if bclosed b then Returns (- 1, [], b)
      else Waits)"

definition read_wakes :: "nat \<Rightarrow> bip \<Rightarrow> (int \<times> byte list \<times> bip) outcome" where
  "read_wakes len b = (if bclosed b then Returns (- 1, [], b) else bip_buffer_read len b)"

section \<open>The queue it implements\<close>

definition region_a :: "bip \<Rightarrow> byte list" where
  "region_a b = take (a_end b - a_start b) (drop (a_start b) (buff b))"

definition contents :: "bip \<Rightarrow> byte list" where
  "contents b = region_a b @ take (b_end b) (buff b)"

definition shape_ok :: "bip \<Rightarrow> bool" where
  "shape_ok b \<longleftrightarrow> length (buff b) = BIP_BUFFER_SIZE \<and> a_end b \<le> BIP_BUFFER_SIZE \<and> b_end b \<le> a_start b
     \<and> (b_end b > 0 \<longrightarrow> a_end b = BIP_BUFFER_SIZE) \<and> (a_start b < a_end b \<or> a_start b = 0 \<and> a_end b = 0)"

text \<open>A buffer whose \<open>can_read\<close> and \<open>can_write\<close> say what they mean, and whose events agree with them as
  long as it is open.\<close>

definition bip_ok :: "bip \<Rightarrow> bool" where
  "bip_ok b \<longleftrightarrow> shape_ok b \<and> (can_read b \<longleftrightarrow> contents b \<noteq> []) \<and> (can_write b \<longleftrightarrow> length (contents b) < BIP_BUFFER_SIZE)
     \<and> (\<not> bclosed b \<longrightarrow> evt_read b = can_read b \<and> evt_write b = can_write b)"

lemma shape_facts:
  assumes "shape_ok b"
  shows "length (region_a b) = a_end b - a_start b" and "length (contents b) = a_end b - a_start b + b_end b"
    and "a_start b \<le> a_end b" and "length (contents b) \<le> BIP_BUFFER_SIZE"
  using assms by (auto simp: shape_ok_def region_a_def contents_def)

lemma contents_empty: "shape_ok b \<Longrightarrow> contents b = [] \<longleftrightarrow> a_end b = 0"
  using shape_facts(2) [of b] by (auto simp: shape_ok_def simp flip: length_0_conv)

lemma length_blit [simp]: "i + length ys \<le> length xs \<Longrightarrow> length (blit i ys xs) = length xs"
  by (simp add: blit_def)

lemma take_blit: "i + length ys \<le> length xs \<Longrightarrow> take (i + length ys) (blit i ys xs) = take i xs @ ys"
  by (simp add: blit_def)

lemma take_before_blit: "j \<le> i \<Longrightarrow> i \<le> length xs \<Longrightarrow> take j (blit i ys xs) = take j xs"
  by (simp add: blit_def)

lemma drop_blit: "i + length ys \<le> j \<Longrightarrow> j \<le> length xs \<Longrightarrow> drop j (blit i ys xs) = drop j xs"
  by (simp add: blit_def drop_append)

lemma seg_take_drop: "s \<le> e \<Longrightarrow> take (e - s) (drop s xs) = drop s (take e xs)"
  by (simp add: drop_take)

section \<open>Writing refines appending\<close>

lemma region_a_drop: "a_start b \<le> a_end b \<Longrightarrow> region_a b = drop (a_start b) (take (a_end b) (buff b))"
  by (simp add: region_a_def seg_take_drop)

lemma store_a:
  assumes "shape_ok b" and "b_end b = 0" and "a_end b + length ys \<le> BIP_BUFFER_SIZE" and "ys \<noteq> []"
  defines "b1 \<equiv> b\<lparr>buff := blit (a_end b) ys (buff b), a_end := a_end b + length ys\<rparr>"
  shows "shape_ok b1" and "contents b1 = contents b @ ys"
proof -
  show "shape_ok b1" using assms by (auto simp: shape_ok_def)
  have l: "a_end b + length ys \<le> length (buff b)" "a_start b \<le> a_end b" using assms by (auto simp: shape_ok_def)
  then show "contents b1 = contents b @ ys"
    using assms(2) by (simp add: contents_def region_a_drop b1_def take_blit)
qed

lemma store_b:
  assumes "shape_ok b" and "a_end b = BIP_BUFFER_SIZE" and "b_end b + length ys \<le> a_start b"
  defines "b1 \<equiv> b\<lparr>buff := blit (b_end b) ys (buff b), b_end := b_end b + length ys\<rparr>"
  shows "shape_ok b1" and "contents b1 = contents b @ ys"
proof -
  have l: "b_end b + length ys \<le> length (buff b)" "a_start b \<le> length (buff b)" using assms by (auto simp: shape_ok_def)
  show "shape_ok b1" using assms l by (auto simp: shape_ok_def)
  have "region_a b1 = region_a b"
    using assms(3) l by (simp add: region_a_def b1_def drop_blit)
  then show "contents b1 = contents b @ ys" using l by (simp add: contents_def b1_def take_blit)
qed

lemma shut_write_same: "shape_ok (shut_write b) = shape_ok b" "contents (shut_write b) = contents b"
  by (simp_all add: shut_write_def shape_ok_def contents_def region_a_def)

lemma write_exit_ok:
  assumes "bip_ok b" and "can_write b" and "shape_ok b1" and "contents b1 = contents b @ ys" and "ys \<noteq> []"
    and "bclosed b1 = bclosed b" and "can_read b1 = can_read b" and "evt_read b1 = evt_read b"
    and "can_write b1 \<longleftrightarrow> length (contents b1) < BIP_BUFFER_SIZE" and "evt_write b1 = (can_write b1 \<and> evt_write b)"
  obtains b' where "write_exit (length ys) b1 = Returns (int (length ys), b')" and "bip_ok b'" and "contents b' = contents b @ ys"
    and "bclosed b' = bclosed b"
proof (rule that)
  let ?b = "if can_read b1 then b1 else b1\<lparr>can_read := True, evt_read := True\<rparr>"
  show "write_exit (length ys) b1 = Returns (int (length ys), ?b)" using assms(5) by (simp add: write_exit_def)
  have "contents ?b = contents b1" by (simp add: contents_def region_a_def)
  then show "contents ?b = contents b @ ys" using assms(4) by simp
  show "bclosed ?b = bclosed b" using assms(6) by simp
  have c: "contents ?b = contents b1" "can_read ?b" "evt_read ?b \<or> \<not> can_read b1 = False"
    by (simp_all add: contents_def region_a_def)
  have "shape_ok ?b" using assms(3) by (simp add: shape_ok_def)
  moreover have "contents ?b \<noteq> []" using c assms(4,5) by simp
  moreover have "\<not> bclosed b \<longrightarrow> evt_read ?b \<and> (evt_write ?b \<longleftrightarrow> can_write ?b)"
    using assms(1,2,7,8,10) by (auto simp: bip_ok_def)
  moreover have "can_write ?b \<longleftrightarrow> length (contents ?b) < BIP_BUFFER_SIZE" using assms(9) c(1) by simp
  moreover have "bclosed ?b = bclosed b" using assms(6) by simp
  ultimately show "bip_ok ?b" unfolding bip_ok_def using c(2) by blast
qed

lemma write_body_spec:
  assumes ok: "bip_ok b" and cw: "can_write b" and src: "src \<noteq> []"
  defines "n \<equiv> min (length src) (BIP_BUFFER_SIZE - length (contents b))"
  obtains b' where "write_body src b = Returns (int n, b')" and "bip_ok b'" and "contents b' = contents b @ take n src"
    and "bclosed b' = bclosed b"
proof -
  have sh: "shape_ok b" and room: "length (contents b) < BIP_BUFFER_SIZE" using ok cw by (auto simp: bip_ok_def)
  have len: "length (contents b) = a_end b - a_start b + b_end b" by (rule shape_facts(2) [OF sh])
  show thesis
  proof (cases "a_end b < BIP_BUFFER_SIZE")
    case True
    then have be: "b_end b = 0" using sh by (auto simp: shape_ok_def)
    define m where "m = min (BIP_BUFFER_SIZE - a_end b) (length src)"
    have m: "0 < m" "m \<le> length src" "a_end b + m \<le> BIP_BUFFER_SIZE" using True src by (auto simp: m_def)
    let ?ys = "take m src"
    have ys: "length ?ys = m" "?ys \<noteq> []" using m src by auto
    define b1 where "b1 = b\<lparr>buff := blit (a_end b) ?ys (buff b), a_end := a_end b + m\<rparr>"
    have st: "shape_ok b1" "contents b1 = contents b @ ?ys"
      using store_a [OF sh be, of ?ys] m ys by (simp_all add: b1_def)
    have f: "bclosed b1 = bclosed b" "can_read b1 = can_read b" "evt_read b1 = evt_read b" "can_write b1 = can_write b"
      "evt_write b1 = evt_write b" "a_start b1 = a_start b" "b_end b1 = 0" "a_end b1 = a_end b + m"
      by (simp_all add: b1_def be)
    have body: "write_body src b = (if a_end b1 = BIP_BUFFER_SIZE \<and> a_start b = 0 then write_exit m (shut_write b1)
        else if drop m src = [] then write_exit m b1 else write_b m (drop m src) b1)"
      using m by (simp add: write_body_def m_def [symmetric] b1_def Let_def)
    consider (full) "a_end b1 = BIP_BUFFER_SIZE" "a_start b = 0" | (all) "\<not> (a_end b1 = BIP_BUFFER_SIZE \<and> a_start b = 0)" "m = length src"
      | (wrap) "a_end b1 = BIP_BUFFER_SIZE" "a_start b \<noteq> 0" "m < length src"
    proof -
      have "m = length src \<or> a_end b1 = BIP_BUFFER_SIZE \<and> m < length src"
        using True by (auto simp: f m_def min_def)
      then show thesis using that m(2) by fastforce
    qed
    then show thesis
    proof cases
      case full
      then have nm: "n = m" using len be m by (auto simp: n_def m_def f)
      obtain b' where "write_exit (length ?ys) (shut_write b1) = Returns (int (length ?ys), b')" "bip_ok b'"
        "contents b' = contents b @ ?ys" "bclosed b' = bclosed b"
        by (rule write_exit_ok [OF ok cw, of "shut_write b1" ?ys])
          (use st ys full len be in \<open>simp_all add: shut_write_same\<close>, auto simp: shut_write_def f)
      then show thesis using that full body ys nm by simp
    next
      case all
      have "length (contents b1) < BIP_BUFFER_SIZE"
        using all shape_facts(2) [OF st(1)] sh by (auto simp: f shape_ok_def be) (use m in linarith)+
      moreover have nm: "n = m" using len be m all calculation st(2) by (auto simp: n_def)
      ultimately obtain b' where "write_exit (length ?ys) b1 = Returns (int (length ?ys), b')" "bip_ok b'"
        "contents b' = contents b @ ?ys" "bclosed b' = bclosed b"
        using write_exit_ok [OF ok cw st ys(2)] f cw by metis
      then show thesis using that all body ys nm by simp
    next
      case wrap
      let ?src = "drop m src"
      define k where "k = min (a_start b) (length ?src)"
      let ?zs = "take k ?src"
      have k: "0 < k" "k \<le> length ?src" "k \<le> a_start b" using wrap by (auto simp: k_def)
      have kk: "min (a_start b) (length src - m) = k" by (simp add: k_def)
      define b2 where "b2 = b1\<lparr>buff := blit 0 ?zs (buff b1), b_end := k\<rparr>"
      have st2: "shape_ok b2" "contents b2 = contents b1 @ ?zs"
        using store_b [OF st(1), of ?zs] wrap k f by (simp_all add: b2_def)
      define b3 where "b3 = (if k = a_start b then shut_write b2 else b2)"
      have w: "write_b m ?src b1 = write_exit (m + k) b3"
        using wrap k kk by (simp add: write_b_def f Let_def b2_def b3_def)
      have cs: "contents b3 = contents b @ take (m + k) src" "shape_ok b3"
        using st2 st(2) by (auto simp: b3_def shut_write_same take_add)
      have mk: "m + k \<le> length src" "take (m + k) src \<noteq> []" using m k src by auto
      have lt: "length (contents b3) < BIP_BUFFER_SIZE \<longleftrightarrow> k < a_start b"
        using shape_facts(2) [OF cs(2)] wrap k sh st(1) by (auto simp: b3_def shut_write_def b2_def f shape_ok_def)
      obtain b' where "write_exit (length (take (m + k) src)) b3 = Returns (int (length (take (m + k) src)), b')" "bip_ok b'"
        "contents b' = contents b @ take (m + k) src" "bclosed b' = bclosed b"
        by (rule write_exit_ok [OF ok cw cs(2) cs(1) mk(2)])
          (use k cw in \<open>auto simp: b3_def shut_write_def b2_def f lt [unfolded b3_def]\<close>)
      moreover have "n = m + k"
        using len be wrap m k sh by (auto simp: n_def k_def m_def f shape_ok_def min_def)
      ultimately show thesis using that wrap body w mk by simp
    qed
  next
    case False
    then have ae: "a_end b = BIP_BUFFER_SIZE" using sh by (auto simp: shape_ok_def)
    then have lt: "b_end b < a_start b" using room len sh by (auto simp: shape_ok_def)
    define k where "k = min (a_start b - b_end b) (length src)"
    let ?zs = "take k src"
    have k: "0 < k" "k \<le> length src" "b_end b + k \<le> a_start b" using lt src by (auto simp: k_def)
    define b2 where "b2 = b\<lparr>buff := blit (b_end b) ?zs (buff b), b_end := b_end b + k\<rparr>"
    have st2: "shape_ok b2" "contents b2 = contents b @ ?zs"
      using store_b [OF sh ae, of ?zs] k by (simp_all add: b2_def)
    define b3 where "b3 = (if b_end b + k = a_start b then shut_write b2 else b2)"
    have w: "write_body src b = write_exit k b3"
      using ae lt src by (simp add: write_body_def write_b_def Let_def k_def [symmetric] b2_def b3_def)
    have cs: "contents b3 = contents b @ ?zs" "shape_ok b3" using st2 by (auto simp: b3_def shut_write_same)
    have zs: "?zs \<noteq> []" "length ?zs = k" using k src by auto
    have lt: "length (contents b3) < BIP_BUFFER_SIZE \<longleftrightarrow> b_end b + k < a_start b"
      using shape_facts(2) [OF cs(2)] k sh ae by (auto simp: b3_def shut_write_def b2_def shape_ok_def)
    obtain b' where "write_exit (length ?zs) b3 = Returns (int (length ?zs), b')" "bip_ok b'"
      "contents b' = contents b @ ?zs" "bclosed b' = bclosed b"
      by (rule write_exit_ok [OF ok cw cs(2) cs(1) zs(1)])
        (use k cw in \<open>auto simp: b3_def shut_write_def b2_def lt [unfolded b3_def]\<close>)
    moreover have "n = k" using len ae lt sh by (auto simp: n_def k_def shape_ok_def min_def)
    ultimately show thesis using that w zs by simp
  qed
qed

section \<open>Reading refines taking from the front\<close>

lemma shut_read_same: "shape_ok (shut_read b) = shape_ok b" "contents (shut_read b) = contents b"
  by (simp_all add: shut_read_def shape_ok_def contents_def region_a_def)

lemma read_exit_ok:
  assumes "bip_ok b" and "can_read b" and "shape_ok b1" and "length (contents b1) < BIP_BUFFER_SIZE" and "bs \<noteq> []"
    and "bclosed b1 = bclosed b" and "can_write b1 = can_write b" and "evt_write b1 = evt_write b"
    and "can_read b1 \<longleftrightarrow> contents b1 \<noteq> []" and "evt_read b1 = (can_read b1 \<and> evt_read b)"
  obtains b' where "read_exit bs b1 = Returns (int (length bs), bs, b')" and "bip_ok b'" and "contents b' = contents b1"
    and "bclosed b' = bclosed b" and "can_write b'"
proof (rule that)
  let ?b = "if can_write b1 then b1 else b1\<lparr>can_write := True, evt_write := True\<rparr>"
  show "read_exit bs b1 = Returns (int (length bs), bs, ?b)" using assms(5) by (simp add: read_exit_def)
  show c: "contents ?b = contents b1" by (simp add: contents_def region_a_def)
  show cl: "bclosed ?b = bclosed b" using assms(6) by simp
  show cw: "can_write ?b" by simp
  have "shape_ok ?b" using assms(3) by (simp add: shape_ok_def)
  moreover have "can_read ?b \<longleftrightarrow> contents ?b \<noteq> []" using c assms(9) by simp
  moreover have "\<not> bclosed b \<longrightarrow> evt_read ?b = can_read ?b \<and> evt_write ?b"
    using assms(1,2,7,8,10) by (auto simp: bip_ok_def)
  ultimately show "bip_ok ?b" unfolding bip_ok_def using c cl cw assms(4) by simp
qed

lemma read_body_spec:
  assumes ok: "bip_ok b" and cr: "can_read b" and len: "0 < len"
  defines "n \<equiv> min len (length (contents b))"
  obtains b' where "read_body len b = Returns (int n, take n (contents b), b')" and "bip_ok b'"
    and "contents b' = drop n (contents b)" and "bclosed b' = bclosed b" and "can_write b'"
proof -
  have sh: "shape_ok b" and ne: "contents b \<noteq> []" using ok cr by (auto simp: bip_ok_def)
  have ae: "a_start b < a_end b" using sh ne contents_empty by (auto simp: shape_ok_def)
  let ?A = "region_a b" and ?B = "take (b_end b) (buff b)"
  have lA: "length ?A = a_end b - a_start b" by (rule shape_facts(1) [OF sh])
  have lB: "length ?B = b_end b" using sh by (auto simp: shape_ok_def)
  have C: "contents b = ?A @ ?B" by (simp add: contents_def)
  have total: "length (contents b) \<le> BIP_BUFFER_SIZE" by (rule shape_facts(4) [OF sh])
  define m where "m = min (a_end b - a_start b) len"
  have m: "0 < m" "m \<le> length ?A" "a_start b + m \<le> a_end b" using ae len lA by (auto simp: m_def)
  have body: "read_body len b = (if a_start b + m < a_end b then read_exit (take m ?A) (b\<lparr>a_start := a_start b + m\<rparr>)
      else read_b (take m ?A) (len - m) (b\<lparr>a_start := a_start b + m\<rparr>))"
    using ae by (simp add: read_body_def Let_def m_def [symmetric] region_a_def) (simp add: m_def)
  have tA: "take m ?A \<noteq> []" using m by auto
  show thesis
  proof (cases "a_start b + m < a_end b")
    case True
    define b1 where "b1 = b\<lparr>a_start := a_start b + m\<rparr>"
    have nm: "n = m" "m = len" using True lA by (auto simp: n_def m_def C)
    have c1: "contents b1 = drop m (contents b)"
      using m by (simp add: b1_def contents_def region_a_def drop_take add.commute)
    have sh1: "shape_ok b1" using sh True by (auto simp: b1_def shape_ok_def)
    have lt: "length (contents b1) < BIP_BUFFER_SIZE" and ne1: "contents b1 \<noteq> []" using c1 m total ne True lA by (auto simp: C)
    obtain b' where "read_exit (take m ?A) b1 = Returns (int (length (take m ?A)), take m ?A, b')" "bip_ok b'"
      "contents b' = contents b1" "bclosed b' = bclosed b" "can_write b'"
      by (rule read_exit_ok [OF ok cr sh1 lt tA]) (use cr ne1 in \<open>auto simp: b1_def\<close>)
    moreover have "take n (contents b) = take m ?A" "length (take m ?A) = m" using nm m by (auto simp: C)
    ultimately show thesis using that body True nm c1 by (simp add: b1_def)
  next
    case False
    then have mA: "m = a_end b - a_start b" "take m ?A = ?A" "?A \<noteq> []" using m lA by auto
    define b1 where "b1 = b\<lparr>a_start := 0, a_end := b_end b, b_end := 0\<rparr>"
    define k where "k = min (b_end b) (len - m)"
    have rb: "read_b ?A (len - m) (b\<lparr>a_start := a_start b + m\<rparr>) =
        (if b_end b = 0 then read_exit ?A (shut_read b1)
         else if k < b_end b then read_exit (?A @ take k ?B) (b1\<lparr>a_start := k\<rparr>)
         else read_exit (?A @ take k ?B) (shut_read (b1\<lparr>a_start := 0, a_end := 0\<rparr>)))"
      by (simp add: read_b_def Let_def b1_def k_def)
    have "length (contents b) = m + b_end b" using mA(1) lA lB by (simp add: C)
    moreover have "m \<le> len" by (simp add: m_def)
    ultimately have nk: "n = m + k" by (auto simp: n_def k_def min_def)
    have tk: "take n (contents b) = ?A @ take k ?B" "drop n (contents b) = drop k ?B" using mA lA nk by (auto simp: C)
    have kB: "length (take k ?B) = k" using lB by (simp only: length_take [of k ?B]) (simp add: k_def)
    have ln: "length (?A @ take k ?B) = n" using nk mA lA kB by simp
    have sB: "b_end b < BIP_BUFFER_SIZE" using sh ae by (auto simp: shape_ok_def)
    consider (none) "b_end b = 0" | (part) "0 < b_end b" "k < b_end b" | (all) "0 < b_end b" "k = b_end b"
      by (fastforce simp: k_def)
    then show thesis
    proof cases
      case none
      have c: "contents (shut_read b1) = []" "shape_ok (shut_read b1)"
        unfolding shut_read_same using none sh by (auto simp: b1_def contents_def region_a_def shape_ok_def)
      have k0: "k = 0" using none by (simp add: k_def)
      obtain b' where "read_exit ?A (shut_read b1) = Returns (int (length ?A), ?A, b')" "bip_ok b'"
        "contents b' = contents (shut_read b1)" "bclosed b' = bclosed b" "can_write b'"
        by (rule read_exit_ok [OF ok cr c(2) _ mA(3)])
          (use c(1) in \<open>auto simp: BIP_BUFFER_SIZE_def shut_read_def b1_def\<close>)
      then show thesis using that body False mA rb none tk ln c(1) k0 by simp
    next
      case part
      let ?b = "b1\<lparr>a_start := k\<rparr>"
      have c: "contents ?b = drop k ?B" "shape_ok ?b"
        using part sh sB by (auto simp: b1_def contents_def region_a_def shape_ok_def drop_take)
      have ne1: "contents ?b \<noteq> []" and lt: "length (contents ?b) < BIP_BUFFER_SIZE" using c(1) part lB sB by auto
      have n0: "?A @ take k ?B \<noteq> []" using mA by simp
      obtain b' where "read_exit (?A @ take k ?B) ?b = Returns (int (length (?A @ take k ?B)), ?A @ take k ?B, b')" "bip_ok b'"
        "contents b' = contents ?b" "bclosed b' = bclosed b" "can_write b'"
        by (rule read_exit_ok [OF ok cr c(2) lt n0]) (use cr ne1 in \<open>auto simp: b1_def\<close>)
      then show thesis using that body False mA rb part tk ln c(1) by simp
    next
      case all
      let ?b = "shut_read (b1\<lparr>a_start := 0, a_end := 0\<rparr>)"
      have c: "contents ?b = []" "shape_ok ?b"
        unfolding shut_read_same using all sh by (auto simp: b1_def contents_def region_a_def shape_ok_def)
      have n0: "?A @ take k ?B \<noteq> []" using mA by simp
      obtain b' where "read_exit (?A @ take k ?B) ?b = Returns (int (length (?A @ take k ?B)), ?A @ take k ?B, b')" "bip_ok b'"
        "contents b' = contents ?b" "bclosed b' = bclosed b" "can_write b'"
        by (rule read_exit_ok [OF ok cr c(2) _ n0])
          (use c(1) in \<open>auto simp: BIP_BUFFER_SIZE_def shut_read_def b1_def\<close>)
      moreover have "drop k ?B = []" using all lB by simp
      ultimately show thesis using that body False mA rb all tk ln c(1) by simp
    qed
  qed
qed

section \<open>The calls\<close>

lemma write_spec:
  assumes "bip_ok b"
  shows "bip_buffer_write src b \<noteq> Asserts"
    and "bip_buffer_write src b = Returns (n, b') \<Longrightarrow>
      bip_ok b' \<and> contents b' = contents b @ take (nat n) src \<and> bclosed b' = bclosed b"
proof -
  consider "src = []" | "src \<noteq> []" "can_write b" | "src \<noteq> []" "\<not> can_write b" by blast
  then have "bip_buffer_write src b \<noteq> Asserts \<and> (bip_buffer_write src b = Returns (n, b') \<longrightarrow>
      bip_ok b' \<and> contents b' = contents b @ take (nat n) src \<and> bclosed b' = bclosed b)"
  proof cases
    case 2
    obtain c where "write_body src b = Returns (int (min (length src) (BIP_BUFFER_SIZE - length (contents b))), c)" "bip_ok c"
      "contents c = contents b @ take (min (length src) (BIP_BUFFER_SIZE - length (contents b))) src" "bclosed c = bclosed b"
      by (rule write_body_spec [OF assms 2(2,1)])
    then show ?thesis using 2 by (auto simp: bip_buffer_write_def)
  qed (use assms in \<open>auto simp: bip_buffer_write_def\<close>)
  then show "bip_buffer_write src b \<noteq> Asserts"
    and "bip_buffer_write src b = Returns (n, b') \<Longrightarrow>
      bip_ok b' \<and> contents b' = contents b @ take (nat n) src \<and> bclosed b' = bclosed b" by blast+
qed

lemma read_spec:
  assumes "bip_ok b"
  shows "bip_buffer_read len b \<noteq> Asserts"
    and "bip_buffer_read len b = Returns (n, bs, b') \<Longrightarrow> bip_ok b' \<and> contents b = bs @ contents b' \<and> bclosed b' = bclosed b"
proof -
  consider "len = 0" | "0 < len" "can_read b" | "0 < len" "\<not> can_read b" by blast
  then have "bip_buffer_read len b \<noteq> Asserts \<and> (bip_buffer_read len b = Returns (n, bs, b') \<longrightarrow>
      bip_ok b' \<and> contents b = bs @ contents b' \<and> bclosed b' = bclosed b)"
  proof cases
    case 2
    obtain c where "read_body len b = Returns (int (min len (length (contents b))), take (min len (length (contents b))) (contents b), c)"
      "bip_ok c" "contents c = drop (min len (length (contents b))) (contents b)" "bclosed c = bclosed b"
      by (rule read_body_spec [OF assms 2(2,1)])
    then show ?thesis using 2 by (auto simp: bip_buffer_read_def)
  qed (use assms in \<open>auto simp: bip_buffer_read_def\<close>)
  then show "bip_buffer_read len b \<noteq> Asserts"
    and "bip_buffer_read len b = Returns (n, bs, b') \<Longrightarrow> bip_ok b' \<and> contents b = bs @ contents b' \<and> bclosed b' = bclosed b"
    by blast+
qed

lemma close_same: "shape_ok (bip_buffer_close b) = shape_ok b" "contents (bip_buffer_close b) = contents b"
    "can_read (bip_buffer_close b) = can_read b" "can_write (bip_buffer_close b) = can_write b" "bclosed (bip_buffer_close b)"
  by (simp_all add: bip_buffer_close_def shape_ok_def contents_def region_a_def Let_def)

lemma close_ok: "bip_ok b \<Longrightarrow> bip_ok (bip_buffer_close b)"
  by (simp add: bip_ok_def close_same)

lemma read_waits:
  assumes "bip_ok b" and "bip_buffer_read len b = Waits"
  shows "0 < len \<and> \<not> can_read b \<and> \<not> bclosed b"
proof -
  have l: "0 < len" using assms(2) by (cases len) (simp_all add: bip_buffer_read_def)
  have "read_body len b \<noteq> Waits" if "can_read b"
    by (rule read_body_spec [OF assms(1) that l]) simp
  then show ?thesis using assms(2) l by (auto simp: bip_buffer_read_def split: if_splits)
qed

lemma init_ok: "length junk = BIP_BUFFER_SIZE \<Longrightarrow> bip_ok (bip_buffer_init junk)" "contents (bip_buffer_init junk) = []"
  by (simp_all add: bip_buffer_init_def bip_ok_def shape_ok_def contents_def region_a_def BIP_BUFFER_SIZE_def)

section \<open>Pipes of bytes\<close>

text \<open>Any interleaving of calls on one buffer: what has been accepted and what has been delivered.
  \<open>None\<close> is a failed assertion; a call that waits has no effect yet.\<close>

datatype pipe_op = Put "byte list" | Get nat | Shut

fun run_pipe :: "(byte list \<Rightarrow> 'b \<Rightarrow> (int \<times> 'b) outcome) \<Rightarrow> (nat \<Rightarrow> 'b \<Rightarrow> (int \<times> byte list \<times> 'b) outcome) \<Rightarrow> ('b \<Rightarrow> 'b)
    \<Rightarrow> pipe_op list \<Rightarrow> 'b \<times> byte list \<times> byte list \<Rightarrow> ('b \<times> byte list \<times> byte list) option" where
  "run_pipe put get shut [] s = Some s"
| "run_pipe put get shut (Put src # xs) (b, acc, del) = (case put src b of
     Asserts \<Rightarrow> None
   | Waits \<Rightarrow> run_pipe put get shut xs (b, acc, del)
   | Returns (n, b') \<Rightarrow> run_pipe put get shut xs (b', acc @ take (nat n) src, del))"
| "run_pipe put get shut (Get len # xs) (b, acc, del) = (case get len b of
     Asserts \<Rightarrow> None
   | Waits \<Rightarrow> run_pipe put get shut xs (b, acc, del)
   | Returns (n, bs, b') \<Rightarrow> run_pipe put get shut xs (b', acc, del @ bs))"
| "run_pipe put get shut (Shut # xs) (b, acc, del) = run_pipe put get shut xs (shut b, acc, del)"

locale byte_pipe =
  fixes put :: "byte list \<Rightarrow> 'b \<Rightarrow> (int \<times> 'b) outcome"
    and get :: "nat \<Rightarrow> 'b \<Rightarrow> (int \<times> byte list \<times> 'b) outcome"
    and shut :: "'b \<Rightarrow> 'b"
    and content :: "'b \<Rightarrow> byte list"
    and ok :: "'b \<Rightarrow> bool"
  assumes put_total: "ok b \<Longrightarrow> put src b \<noteq> Asserts"
    and put_law: "ok b \<Longrightarrow> put src b = Returns (n, b') \<Longrightarrow> ok b' \<and> content b' = content b @ take (nat n) src"
    and get_total: "ok b \<Longrightarrow> get len b \<noteq> Asserts"
    and get_law: "ok b \<Longrightarrow> get len b = Returns (m, bs, b') \<Longrightarrow> ok b' \<and> content b = bs @ content b'"
    and shut_law: "ok b \<Longrightarrow> ok (shut b) \<and> content (shut b) = content b"
begin

lemma run_in_order:
  assumes "ok b" and "acc = del @ content b"
  shows "\<exists>b' acc' del'. run_pipe put get shut xs (b, acc, del) = Some (b', acc', del') \<and> ok b' \<and> acc' = del' @ content b'"
  using assms
proof (induction xs arbitrary: b acc del)
  case (Cons x xs)
  show ?case
  proof (cases x)
    case (Put src)
    show ?thesis
    proof (cases "put src b")
      case (Returns r)
      obtain n b' where r: "r = (n, b')" by (cases r)
      have l: "ok b' \<and> content b' = content b @ take (nat n) src" by (rule put_law [OF Cons.prems(1)]) (simp add: Returns r)
      show ?thesis using Cons.IH [of b' "acc @ take (nat n) src" del] l Cons.prems(2) by (simp add: Put Returns r)
    qed (use Cons put_total [OF Cons.prems(1), of src] in \<open>auto simp: Put\<close>)
  next
    case (Get len)
    show ?thesis
    proof (cases "get len b")
      case (Returns r)
      obtain n bs b' where r: "r = (n, bs, b')" by (cases r)
      have l: "ok b' \<and> content b = bs @ content b'" by (rule get_law [OF Cons.prems(1), of len n bs b']) (simp add: Returns r)
      show ?thesis using Cons.IH [of b' acc "del @ bs"] l Cons.prems(2) by (simp add: Get Returns r)
    qed (use Cons get_total [OF Cons.prems(1), of len] in \<open>auto simp: Get\<close>)
  next
    case Shut
    then show ?thesis using Cons.IH [of "shut b" acc del] shut_law [OF Cons.prems(1)] Cons.prems(2) by simp
  qed
qed simp

end

interpretation bip_pipe: byte_pipe bip_buffer_write bip_buffer_read bip_buffer_close contents bip_ok
  by unfold_locales (use write_spec read_spec close_ok close_same in blast)+

text \<open>C25. A bipartite buffer is a queue: whatever calls are made on it in whatever order, no assertion
  fails, and the bytes accepted so far are, in order, those delivered so far followed by those in the
  buffer.\<close>

theorem bip_fifo:
  assumes "length junk = BIP_BUFFER_SIZE"
  shows "\<exists>b acc del. run_pipe bip_buffer_write bip_buffer_read bip_buffer_close xs (bip_buffer_init junk, [], []) = Some (b, acc, del)
    \<and> acc = del @ contents b \<and> length (contents b) \<le> BIP_BUFFER_SIZE"
proof -
  obtain b acc del where "run_pipe bip_buffer_write bip_buffer_read bip_buffer_close xs (bip_buffer_init junk, [], []) = Some (b, acc, del)"
    "bip_ok b" "acc = del @ contents b"
    using bip_pipe.run_in_order [OF init_ok(1) [OF assms], of "[]" "[]" xs] init_ok(2) by auto
  then show ?thesis using shape_facts(4) [of b] by (auto simp: bip_ok_def)
qed

lemma bip_fifo_witness:
  "\<exists>b acc del. run_pipe bip_buffer_write bip_buffer_read bip_buffer_close [Put [1, 2, 3], Get 2, Shut, Get 9]
      (bip_buffer_init (replicate 4096 0), [], []) = Some (b, acc, del) \<and> acc = del @ contents b \<and> length (contents b) \<le> 4096"
  using bip_fifo [of "replicate 4096 0" "[Put [1, 2, 3], Get 2, Shut, Get 9]"] by (simp only: BIP_BUFFER_SIZE_def length_replicate)

lemma read_all:
  assumes "bip_ok b" and "contents b = xs" and "len > 0" and "xs \<noteq> []"
  shows "\<exists>b'. bip_buffer_read len b = Returns (int (min len (length xs)), take len xs, b') \<and> contents b' = drop len xs \<and> can_write b'"
proof -
  have cr: "can_read b" using assms by (auto simp: bip_ok_def)
  obtain c where c: "read_body len b = Returns (int (min len (length (contents b))), take (min len (length (contents b))) (contents b), c)"
    "bip_ok c" "contents c = drop (min len (length (contents b))) (contents b)" "can_write c"
    by (rule read_body_spec [OF assms(1) cr assms(3)])
  have "take (min len (length xs)) xs = take len xs" "drop (min len (length xs)) xs = drop len xs" by (simp_all add: min_def)
  then show ?thesis using c cr assms(2,3) by (simp add: bip_buffer_read_def)
qed

lemma write_all:
  assumes "bip_ok b" and "contents b = xs" and "length xs < BIP_BUFFER_SIZE" and "src \<noteq> []"
  shows "\<exists>b'. bip_buffer_write src b = Returns (int (min (length src) (BIP_BUFFER_SIZE - length xs)), b')
    \<and> contents b' = xs @ take (BIP_BUFFER_SIZE - length xs) src"
proof -
  have cw: "can_write b" using assms by (auto simp: bip_ok_def)
  obtain c where c: "write_body src b = Returns (int (min (length src) (BIP_BUFFER_SIZE - length (contents b))), c)"
    "contents c = contents b @ take (min (length src) (BIP_BUFFER_SIZE - length (contents b))) src"
    by (rule write_body_spec [OF assms(1) cw assms(4)])
  have "take (min (length src) k) src = take k src" for k by (simp add: min_def)
  then show ?thesis using c cw assms by (simp add: bip_buffer_write_def)
qed

text \<open>The calls move as much as they can: a write into a buffer with room takes what fits, a read of
  a buffer with data delivers what is asked for, up to all of it, and makes room for a writer.\<close>

theorem bip_moves_all:
  assumes "bip_ok b" and "contents b = xs" and "len > 0"
  shows "(xs \<noteq> [] \<longrightarrow> (\<exists>b'. bip_buffer_read len b = Returns (int (min len (length xs)), take len xs, b') \<and> contents b' = drop len xs
        \<and> can_write b'))
    \<and> (length xs < BIP_BUFFER_SIZE \<and> src \<noteq> [] \<longrightarrow>
        (\<exists>b'. bip_buffer_write src b = Returns (int (min (length src) (BIP_BUFFER_SIZE - length xs)), b')
          \<and> contents b' = xs @ take (BIP_BUFFER_SIZE - length xs) src))"
  using read_all [OF assms] write_all [OF assms(1,2)] by blast

lemma bip_moves_all_witness:
  "\<exists>b'. bip_buffer_write [1, 2, 3] (bip_buffer_init (replicate 4096 0)) = Returns (3, b') \<and> contents b' = [1, 2, 3]"
proof -
  have ok: "bip_ok (bip_buffer_init (replicate 4096 0))" using init_ok(1) [of "replicate 4096 0"] by (simp only: BIP_BUFFER_SIZE_def length_replicate)
  show ?thesis using bip_moves_all [OF ok init_ok(2), of 1 "[1, 2, 3]"] by (simp add: BIP_BUFFER_SIZE_def)
qed

text \<open>No wakeup is lost: the event of a reader that waits is not signalled before there is data; as
  soon as a write returns, it is, and the reader, when it runs, gets the first bytes written.\<close>

theorem waiting_reader_wakes:
  assumes "bip_ok b" and "bip_buffer_read len b = Waits" and "bip_buffer_write src b = Returns (n, b')" and "src \<noteq> []"
  shows "\<not> evt_read b \<and> evt_read b' \<and> 0 < n
    \<and> (\<exists>b''. read_wakes len b' = Returns (min (int len) n, take (min len (nat n)) src, b''))"
proof -
  have w: "0 < len" "\<not> can_read b" "\<not> bclosed b" using read_waits [OF assms(1,2)] by auto
  then have c0: "contents b = []" using assms(1) by (auto simp: bip_ok_def)
  then have cw: "can_write b" using assms(1) by (auto simp: bip_ok_def BIP_BUFFER_SIZE_def)
  obtain c where "write_body src b = Returns (int (min (length src) (BIP_BUFFER_SIZE - length (contents b))), c)"
    by (rule write_body_spec [OF assms(1) cw assms(4)])
  then have n: "n = int (min (length src) BIP_BUFFER_SIZE)" using assms(3,4) cw c0 by (simp add: bip_buffer_write_def)
  have b': "bip_ok b'" "contents b' = take (nat n) src" "\<not> bclosed b'"
    using write_spec(2) [OF assms(1,3)] c0 w by auto
  have pos: "0 < n" using n assms(4) by (auto simp: BIP_BUFFER_SIZE_def)
  then have cr: "can_read b'" using b' assms(4) by (auto simp: bip_ok_def)
  obtain d where d: "read_body len b' = Returns (int (min len (length (contents b'))), take (min len (length (contents b'))) (contents b'), d)"
    by (rule read_body_spec [OF b'(1) cr w(1)])
  have l: "length (contents b') = nat n" using n by (simp add: b')
  have "read_wakes len b' = Returns (min (int len) n, take (min len (nat n)) src, d)"
    using b' cr w(1) d l pos by (simp add: read_wakes_def bip_buffer_read_def min_def) linarith
  moreover have "\<not> evt_read b \<and> evt_read b'" using assms(1) b' w cr by (auto simp: bip_ok_def)
  ultimately show ?thesis using pos by blast
qed

lemma waiting_reader_wakes_witness:
  "\<exists>b' b''. bip_buffer_write [1, 2, 3] (bip_buffer_init (replicate 4096 0)) = Returns (3, b') \<and> evt_read b'
     \<and> read_wakes 2 b' = Returns (2, [1, 2], b'')"
proof -
  let ?b = "bip_buffer_init (replicate 4096 0)"
  have ok: "bip_ok ?b" using init_ok(1) [of "replicate 4096 0"] by (simp only: BIP_BUFFER_SIZE_def length_replicate)
  have r: "bip_buffer_read 2 ?b = Waits" by (simp add: bip_buffer_read_def bip_buffer_init_def)
  obtain b' where w: "bip_buffer_write [1, 2, 3] ?b = Returns (3, b')"
    by (simp add: bip_buffer_write_def write_body_def write_exit_def bip_buffer_init_def BIP_BUFFER_SIZE_def Let_def)
  from waiting_reader_wakes [OF ok r w] w show ?thesis by (auto simp: numeral_2_eq_2)
qed

text \<open>Closing loses data: if the writer closes its end before a waiting reader runs, the reader gets
  an error although the bytes are in the buffer; a reader that was not waiting gets them.\<close>

theorem waiting_reader_loses_data:
  assumes "bip_ok b" and "bip_buffer_read len b = Waits" and "bip_buffer_write src b = Returns (n, b')" and "src \<noteq> []"
  shows "contents (bip_buffer_close b') = take (nat n) src \<and> 0 < n
    \<and> read_wakes len (bip_buffer_close b') = Returns (- 1, [], bip_buffer_close b')
    \<and> (\<exists>b''. bip_buffer_read len (bip_buffer_close b') = Returns (min (int len) n, take (min len (nat n)) src, b''))"
proof -
  have w: "0 < len" "\<not> can_read b" "\<not> bclosed b" using read_waits [OF assms(1,2)] by auto
  then have c0: "contents b = []" using assms(1) by (auto simp: bip_ok_def)
  then have cw: "can_write b" using assms(1) by (auto simp: bip_ok_def BIP_BUFFER_SIZE_def)
  obtain c where "write_body src b = Returns (int (min (length src) (BIP_BUFFER_SIZE - length (contents b))), c)"
    by (rule write_body_spec [OF assms(1) cw assms(4)])
  then have n: "n = int (min (length src) BIP_BUFFER_SIZE)" using assms(3,4) cw c0 by (simp add: bip_buffer_write_def)
  have pos: "0 < n" using n assms(4) by (auto simp: BIP_BUFFER_SIZE_def)
  let ?c = "bip_buffer_close b'"
  have b': "bip_ok ?c" "contents ?c = take (nat n) src"
    using write_spec(2) [OF assms(1,3)] c0 close_ok close_same(2) by auto
  then have cr: "can_read ?c" using pos assms(4) by (auto simp: bip_ok_def)
  obtain d where d: "read_body len ?c = Returns (int (min len (length (contents ?c))), take (min len (length (contents ?c))) (contents ?c), d)"
    by (rule read_body_spec [OF b'(1) cr w(1)])
  have l: "length (contents ?c) = nat n" using n by (simp add: b')
  have "bip_buffer_read len ?c = Returns (min (int len) n, take (min len (nat n)) src, d)"
    using b' cr w(1) d l pos by (simp add: bip_buffer_read_def min_def) linarith
  moreover have "bclosed ?c" by (rule close_same(5))
  ultimately show ?thesis using pos b' by (simp add: read_wakes_def)
qed

lemma waiting_reader_loses_data_witness:
  "\<exists>b'. bip_buffer_write [1, 2, 3] (bip_buffer_init (replicate 4096 0)) = Returns (3, b')
     \<and> contents (bip_buffer_close b') = [1, 2, 3] \<and> read_wakes 2 (bip_buffer_close b') = Returns (- 1, [], bip_buffer_close b')"
proof -
  let ?b = "bip_buffer_init (replicate 4096 0)"
  have ok: "bip_ok ?b" using init_ok(1) [of "replicate 4096 0"] by (simp only: BIP_BUFFER_SIZE_def length_replicate)
  have r: "bip_buffer_read 2 ?b = Waits" by (simp add: bip_buffer_read_def bip_buffer_init_def)
  obtain b' where w: "bip_buffer_write [1, 2, 3] ?b = Returns (3, b')"
    by (simp add: bip_buffer_write_def write_body_def write_exit_def bip_buffer_init_def BIP_BUFFER_SIZE_def Let_def)
  from waiting_reader_loses_data [OF ok r w] w show ?thesis by (auto simp: numeral_3_eq_3)
qed

end
