(* ===== verification/FhTable.thy ===== *)
theory FhTable
  imports Bip
begin

text \<open>
  The descriptors of the Windows build (\<open>adb/sysdeps_win32.cpp\<close>): a table of 128 slots of three classes
  (files, sockets and emulated socket pairs), the calls that open, read, write and close them, and
  \<open>adb_socketpair\<close> over two bipartite buffers.  The answers of Windows are arguments: the functions of a
  \<open>winos\<close> and the handles that creating calls return; \<open>freed\<close> is the trace of what is given back.
\<close>

datatype fh_class = File_class | Socket_class | Pair_class

text \<open>\<open>fu\<close> is the union of a handle, a socket and the address of a pair; \<open>- 1\<close> is an invalid handle or
  socket, 0 a null pointer.\<close>

record fh =
  clazz :: "fh_class option"
  used :: bool
  eof :: bool
  fu :: int
  event :: int
  mask :: int

record spair =
  a2b_bip :: bip
  b2a_bip :: bip
  a_fd :: "nat option"
  pused :: int

datatype release = CloseHandle int | Shutdown int | Closesocket int

record win =
  fhs :: "fh list"
  fh_count :: nat
  pairs :: "int \<rightharpoonup> spair"
  freed :: "release list"

record winos =
  ReadFile :: "int \<Rightarrow> nat \<Rightarrow> byte list option"
  WriteFile :: "int \<Rightarrow> byte list \<Rightarrow> nat option"
  recv :: "int \<Rightarrow> nat \<Rightarrow> byte list option"
  send :: "int \<Rightarrow> byte list \<Rightarrow> nat option"
  SetFilePointer :: "int \<Rightarrow> int \<Rightarrow> int option"

datatype crash = Null_FH | Freed_pair

definition WIN32_FH_BASE :: int where "WIN32_FH_BASE = 100"
definition WIN32_MAX_FHS :: nat where "WIN32_MAX_FHS = 128"

definition upd_fh :: "nat \<Rightarrow> (fh \<Rightarrow> fh) \<Rightarrow> win \<Rightarrow> win" where
  "upd_fh f g w = w\<lparr>fhs := (fhs w)[f := g (fhs w ! f)]\<rparr>"

definition gives :: "release list \<Rightarrow> win \<Rightarrow> win" where
  "gives rs w = w\<lparr>freed := freed w @ rs\<rparr>"

section \<open>Descriptors\<close>

definition fh_from_int :: "int \<Rightarrow> win \<Rightarrow> nat option" where
  "fh_from_int fd w =
     (let i = fd - WIN32_FH_BASE in
      if i < 0 \<or> i \<ge> int (fh_count w) then None
      else if \<not> used (fhs w ! nat i) then None else Some (nat i))"

definition fh_to_int :: "nat \<Rightarrow> win \<Rightarrow> int" where
  "fh_to_int f w = (if f < WIN32_MAX_FHS \<and> used (fhs w ! f) then int f + WIN32_FH_BASE else - 1)"

text \<open>\<open>ev\<close> is the event that \<open>_fh_socket_init\<close> creates.\<close>

definition fh_init :: "fh_class \<Rightarrow> int \<Rightarrow> fh \<Rightarrow> fh" where
  "fh_init c ev x = (case c of
     File_class \<Rightarrow> x\<lparr>fu := - 1\<rparr> | Socket_class \<Rightarrow> x\<lparr>fu := - 1, event := ev, mask := 0\<rparr> | Pair_class \<Rightarrow> x\<lparr>fu := 0\<rparr>)"

definition fh_take :: "fh_class \<Rightarrow> int \<Rightarrow> nat \<Rightarrow> win \<Rightarrow> win" where
  "fh_take c ev f w = upd_fh f (\<lambda>x. fh_init c ev (x\<lparr>clazz := Some c, used := True, eof := False\<rparr>)) w"

definition fh_alloc :: "fh_class \<Rightarrow> int \<Rightarrow> win \<Rightarrow> nat option \<times> win" where
  "fh_alloc c ev w =
     (if fh_count w < WIN32_MAX_FHS
      then (Some (fh_count w), fh_take c ev (fh_count w) (w\<lparr>fh_count := fh_count w + 1\<rparr>))
      else let nn = length (takeWhile (\<lambda>x. clazz x \<noteq> None) (fhs w)) in
        if nn < WIN32_MAX_FHS then (Some nn, fh_take c ev nn w) else (None, w))"

definition socketpair_close :: "nat \<Rightarrow> win \<Rightarrow> crash + win" where
  "socketpair_close f w =
     (let p = fu (fhs w ! f) in
      if p = 0 then Inr w
      else case pairs w p of
        None \<Rightarrow> Inl Freed_pair
      | Some sp \<Rightarrow>
          let sp1 = sp\<lparr>a_fd := (if a_fd sp = Some f then None else a_fd sp), b2a_bip := bip_buffer_close (b2a_bip sp),
                a2b_bip := bip_buffer_close (a2b_bip sp), pused := pused sp - 1\<rparr>;
              w1 = w\<lparr>pairs := (pairs w)(p := (if pused sp1 = 0 then None else Some sp1))\<rparr>
          in Inr (upd_fh f (\<lambda>x. x\<lparr>fu := 0\<rparr>) w1))"

definition class_close :: "nat \<Rightarrow> win \<Rightarrow> crash + win" where
  "class_close f w =
     (let x = fhs w ! f in case clazz x of
        None \<Rightarrow> Inl Null_FH
      | Some File_class \<Rightarrow> Inr (upd_fh f (\<lambda>x. x\<lparr>fu := - 1\<rparr>) (gives [CloseHandle (fu x)] w))
      | Some Socket_class \<Rightarrow> Inr (upd_fh f (\<lambda>x. x\<lparr>fu := - 1, mask := 0\<rparr>)
            (gives [Shutdown (fu x), Closesocket (fu x), CloseHandle (event x)] w))
      | Some Pair_class \<Rightarrow> socketpair_close f w)"

text \<open>\<open>_fh_close\<close>; \<open>None\<close> is a null pointer.\<close>

definition fh_close :: "nat option \<Rightarrow> win \<Rightarrow> crash + win" where
  "fh_close fo w = (case fo of
     None \<Rightarrow> Inl Null_FH
   | Some f \<Rightarrow>
       if used (fhs w ! f)
       then sbind (class_close f w) (\<lambda>w1. Inr (upd_fh f (\<lambda>x. x\<lparr>used := False, eof := False, clazz := None\<rparr>) w1))
       else Inr w)"

section \<open>Calls on descriptors\<close>

text \<open>\<open>h\<close> is what \<open>CreateFile\<close> returns; the options are those of \<open>open\<close>.\<close>

definition open_handle :: "int \<Rightarrow> win \<Rightarrow> crash + (int \<times> win)" where
  "open_handle h w = (case fh_alloc File_class 0 w of
     (None, w1) \<Rightarrow> Inr (- 1, w1)
   | (Some f, w1) \<Rightarrow>
       let w2 = upd_fh f (\<lambda>x. x\<lparr>fu := h\<rparr>) w1 in
       if h = - 1 then sbind (fh_close (Some f) w2) (\<lambda>w3. Inr (- 1, w3)) else Inr (fh_to_int f w2, w2))"

definition adb_open :: "bool \<Rightarrow> int \<Rightarrow> win \<Rightarrow> crash + (int \<times> win)" where
  "adb_open valid h w = (if \<not> valid then Inr (- 1, w) else open_handle h w)"

definition adb_creat :: "int \<Rightarrow> win \<Rightarrow> crash + (int \<times> win)" where
  "adb_creat h w = open_handle h w"

text \<open>The class functions.  The buffer that an end of a pair reads from, and the one it writes to.\<close>

definition pair_of :: "nat \<Rightarrow> win \<Rightarrow> crash + spair option" where
  "pair_of f w = (let p = fu (fhs w ! f) in
     if p = 0 then Inr None else case pairs w p of None \<Rightarrow> Inl Freed_pair | Some sp \<Rightarrow> Inr (Some sp))"

definition set_pair :: "nat \<Rightarrow> spair \<Rightarrow> win \<Rightarrow> win" where
  "set_pair f sp w = w\<lparr>pairs := (pairs w)(fu (fhs w ! f) \<mapsto> sp)\<rparr>"

definition socketpair_read :: "nat \<Rightarrow> nat \<Rightarrow> win \<Rightarrow> crash + (int \<times> byte list \<times> win) outcome" where
  "socketpair_read f len w = sbind (pair_of f w) (\<lambda>po. Inr (case po of
     None \<Rightarrow> Returns (- 1, [], w)
   | Some sp \<Rightarrow>
       (case bip_buffer_read len (if a_fd sp = Some f then b2a_bip sp else a2b_bip sp) of
          Returns (n, bs, b) \<Rightarrow>
            Returns (n, bs, set_pair f (if a_fd sp = Some f then sp\<lparr>b2a_bip := b\<rparr> else sp\<lparr>a2b_bip := b\<rparr>) w)
        | Waits \<Rightarrow> Waits | Asserts \<Rightarrow> Asserts)))"

definition socketpair_write :: "nat \<Rightarrow> byte list \<Rightarrow> win \<Rightarrow> crash + (int \<times> win) outcome" where
  "socketpair_write f src w = sbind (pair_of f w) (\<lambda>po. Inr (case po of
     None \<Rightarrow> Returns (- 1, w)
   | Some sp \<Rightarrow>
       (case bip_buffer_write src (if a_fd sp = Some f then a2b_bip sp else b2a_bip sp) of
          Returns (n, b) \<Rightarrow>
            Returns (n, set_pair f (if a_fd sp = Some f then sp\<lparr>a2b_bip := b\<rparr> else sp\<lparr>b2a_bip := b\<rparr>) w)
        | Waits \<Rightarrow> Waits | Asserts \<Rightarrow> Asserts)))"

definition adb_read :: "winos \<Rightarrow> int \<Rightarrow> nat \<Rightarrow> win \<Rightarrow> crash + (int \<times> byte list \<times> win) outcome" where
  "adb_read os fd len w = (case fh_from_int fd w of
     None \<Rightarrow> Inr (Returns (- 1, [], w))
   | Some f \<Rightarrow>
       (case clazz (fhs w ! f) of
          None \<Rightarrow> Inl Null_FH
        | Some File_class \<Rightarrow>
            (case ReadFile os (fu (fhs w ! f)) len of
               None \<Rightarrow> Inr (Returns (- 1, [], w))
             | Some bs \<Rightarrow> Inr (Returns (int (length bs), bs,
                   if length bs < len then upd_fh f (\<lambda>x. x\<lparr>eof := True\<rparr>) w else w)))
        | Some Socket_class \<Rightarrow>
            (case recv os (fu (fhs w ! f)) len of
               None \<Rightarrow> Inr (Returns (- 1, [], w)) | Some bs \<Rightarrow> Inr (Returns (int (length bs), bs, w)))
        | Some Pair_class \<Rightarrow> socketpair_read f len w))"

definition adb_write :: "winos \<Rightarrow> int \<Rightarrow> byte list \<Rightarrow> win \<Rightarrow> crash + (int \<times> win) outcome" where
  "adb_write os fd src w = (case fh_from_int fd w of
     None \<Rightarrow> Inr (Returns (- 1, w))
   | Some f \<Rightarrow>
       (case clazz (fhs w ! f) of
          None \<Rightarrow> Inl Null_FH
        | Some File_class \<Rightarrow>
            (case WriteFile os (fu (fhs w ! f)) src of
               None \<Rightarrow> Inr (Returns (- 1, w))
             | Some n \<Rightarrow> Inr (Returns (int n, if n < length src then upd_fh f (\<lambda>x. x\<lparr>eof := True\<rparr>) w else w)))
        | Some Socket_class \<Rightarrow>
            (case send os (fu (fhs w ! f)) src of
               None \<Rightarrow> Inr (Returns (- 1, w)) | Some n \<Rightarrow> Inr (Returns (int n, w)))
        | Some Pair_class \<Rightarrow> socketpair_write f src w))"

definition adb_lseek :: "winos \<Rightarrow> int \<Rightarrow> int \<Rightarrow> win \<Rightarrow> crash + (int \<times> win)" where
  "adb_lseek os fd pos w = (case fh_from_int fd w of
     None \<Rightarrow> Inr (- 1, w)
   | Some f \<Rightarrow>
       (case clazz (fhs w ! f) of
          None \<Rightarrow> Inl Null_FH
        | Some File_class \<Rightarrow>
            (case SetFilePointer os (fu (fhs w ! f)) pos of
               None \<Rightarrow> Inr (- 1, w) | Some r \<Rightarrow> Inr (r, upd_fh f (\<lambda>x. x\<lparr>eof := False\<rparr>) w))
        | Some _ \<Rightarrow> Inr (- 1, w)))"

definition adb_shutdown :: "int \<Rightarrow> win \<Rightarrow> int \<times> win" where
  "adb_shutdown fd w = (case fh_from_int fd w of
     None \<Rightarrow> (- 1, w) | Some f \<Rightarrow> (0, gives [Shutdown (fu (fhs w ! f))] w))"

definition adb_close :: "int \<Rightarrow> win \<Rightarrow> crash + (int \<times> win)" where
  "adb_close fd w = (case fh_from_int fd w of
     None \<Rightarrow> Inr (- 1, w) | Some f \<Rightarrow> sbind (fh_close (Some f) w) (\<lambda>w1. Inr (0, w1)))"

section \<open>Sockets\<close>

text \<open>\<open>s\<close> is the socket that \<open>socket\<close> or \<open>accept\<close> returns; the flags say which calls succeed.\<close>

definition close_fail :: "nat \<Rightarrow> win \<Rightarrow> crash + (int \<times> win)" where
  "close_fail f w = sbind (fh_close (Some f) w) (\<lambda>w1. Inr (- 1, w1))"

definition socket_loopback_client :: "int \<Rightarrow> int \<Rightarrow> bool \<Rightarrow> win \<Rightarrow> crash + (int \<times> win)" where
  "socket_loopback_client ev s connected w = (case fh_alloc Socket_class ev w of
     (None, w1) \<Rightarrow> Inr (- 1, w1)
   | (Some f, w1) \<Rightarrow>
       if s = - 1 then close_fail f w1
       else let w2 = upd_fh f (\<lambda>x. x\<lparr>fu := s\<rparr>) w1 in
            if \<not> connected then close_fail f w2 else Inr (fh_to_int f w2, w2))"

definition listening :: "nat \<Rightarrow> int \<Rightarrow> bool \<Rightarrow> bool \<Rightarrow> bool \<Rightarrow> win \<Rightarrow> crash + (int \<times> win)" where
  "listening f s bound stream listens w =
     (let w2 = upd_fh f (\<lambda>x. x\<lparr>fu := s\<rparr>) w in
      if \<not> bound then close_fail f w2
      else if stream \<and> \<not> listens then close_fail f w2
      else Inr (fh_to_int f w2, w2))"

definition socket_loopback_server :: "int \<Rightarrow> int \<Rightarrow> bool \<Rightarrow> bool \<Rightarrow> bool \<Rightarrow> win \<Rightarrow> crash + (int \<times> win)" where
  "socket_loopback_server ev s bound stream listens w = (case fh_alloc Socket_class ev w of
     (None, w1) \<Rightarrow> Inr (- 1, w1)
   | (Some f, w1) \<Rightarrow> if s = - 1 then Inr (- 1, w1) else listening f s bound stream listens w1)"

definition socket_network_client :: "int \<Rightarrow> bool \<Rightarrow> int \<Rightarrow> bool \<Rightarrow> win \<Rightarrow> crash + (int \<times> win)" where
  "socket_network_client ev found s connected w = (case fh_alloc Socket_class ev w of
     (None, w1) \<Rightarrow> Inr (- 1, w1)
   | (Some f, w1) \<Rightarrow>
       if \<not> found then close_fail f w1
       else if s = - 1 then close_fail f w1
       else let w2 = upd_fh f (\<lambda>x. x\<lparr>fu := s\<rparr>) w1 in
            if \<not> connected then close_fail f w2 else Inr (fh_to_int f w2, w2))"

definition socket_inaddr_any_server :: "int \<Rightarrow> int \<Rightarrow> bool \<Rightarrow> bool \<Rightarrow> bool \<Rightarrow> win \<Rightarrow> crash + (int \<times> win)" where
  "socket_inaddr_any_server ev s bound stream listens w = (case fh_alloc Socket_class ev w of
     (None, w1) \<Rightarrow> Inr (- 1, w1)
   | (Some f, w1) \<Rightarrow> if s = - 1 then close_fail f w1 else listening f s bound stream listens w1)"

definition adb_socket_accept :: "int \<Rightarrow> int \<Rightarrow> int \<Rightarrow> win \<Rightarrow> crash + (int \<times> win)" where
  "adb_socket_accept serverfd ev s w = (case fh_from_int serverfd w of
     None \<Rightarrow> Inr (- 1, w)
   | Some sf \<Rightarrow>
       if clazz (fhs w ! sf) \<noteq> Some Socket_class then Inr (- 1, w)
       else (case fh_alloc Socket_class ev w of
          (None, w1) \<Rightarrow> Inr (- 1, w1)
        | (Some f, w1) \<Rightarrow>
            let w2 = upd_fh f (\<lambda>x. x\<lparr>fu := s\<rparr>) w1 in
            if s = - 1 then close_fail f w2 else Inr (fh_to_int f w2, w2)))"

section \<open>Socket pairs\<close>

definition socketpair_fail :: "nat option \<Rightarrow> nat option \<Rightarrow> win \<Rightarrow> crash + (int \<times> (int \<times> int) \<times> win)" where
  "socketpair_fail fa fb w = sbind (fh_close fb w) (\<lambda>w1. sbind (fh_close fa w1) (\<lambda>w2. Inr (- 1, (- 1, - 1), w2)))"

text \<open>\<open>p\<close> is what \<open>malloc\<close> returns, 0 when it fails.\<close>

definition adb_socketpair :: "int \<Rightarrow> byte list \<Rightarrow> byte list \<Rightarrow> win \<Rightarrow> crash + (int \<times> (int \<times> int) \<times> win)" where
  "adb_socketpair p junk1 junk2 w =
     (case fh_alloc Pair_class 0 w of (fa, w1) \<Rightarrow> case fh_alloc Pair_class 0 w1 of (fb, w2) \<Rightarrow>
        (case (fa, fb) of
           (Some a, Some b) \<Rightarrow>
             if p = 0 then socketpair_fail fa fb w2
             else let sp = \<lparr>a2b_bip = bip_buffer_init junk1, b2a_bip = bip_buffer_init junk2, a_fd = Some a, pused = 2\<rparr>;
                      w3 = upd_fh b (\<lambda>x. x\<lparr>fu := p\<rparr>) (upd_fh a (\<lambda>x. x\<lparr>fu := p\<rparr>) (w2\<lparr>pairs := (pairs w2)(p \<mapsto> sp)\<rparr>))
                  in Inr (0, (fh_to_int a w3, fh_to_int b w3), w3)
         | _ \<Rightarrow> socketpair_fail fa fb w2))"

end
