(* ===== verification/FhTableProps.thy ===== *)
theory FhTableProps
  imports FhTable
begin

text \<open>
  Properties of the Windows descriptors: a descriptor is issued for a free slot and names it until it is
  closed, closing gives the slot back, a failing server leaks its slot, and the two ends of a socket pair
  are connected.
\<close>

definition fh_ok :: "win \<Rightarrow> bool" where
  "fh_ok w \<longleftrightarrow> length (fhs w) = WIN32_MAX_FHS \<and> fh_count w \<le> WIN32_MAX_FHS
     \<and> (\<forall>i < WIN32_MAX_FHS. used (fhs w ! i) \<longleftrightarrow> clazz (fhs w ! i) \<noteq> None)
     \<and> (\<forall>i < WIN32_MAX_FHS. fh_count w \<le> i \<longrightarrow> \<not> used (fhs w ! i))"

definition open_fds :: "win \<Rightarrow> nat set" where
  "open_fds w = {i. i < WIN32_MAX_FHS \<and> used (fhs w ! i)}"

lemma finite_open [simp]: "finite (open_fds w)"
  by (simp add: open_fds_def)

lemma card_open_le: "card (open_fds w) \<le> WIN32_MAX_FHS"
  using card_mono [of "{..< WIN32_MAX_FHS}" "open_fds w"] by (auto simp: open_fds_def)

lemma upd_fh_simps [simp]:
  "fh_count (upd_fh f g w) = fh_count w" "pairs (upd_fh f g w) = pairs w" "freed (upd_fh f g w) = freed w"
  "length (fhs (upd_fh f g w)) = length (fhs w)"
  "f < length (fhs w) \<Longrightarrow> fhs (upd_fh f g w) ! i = (if i = f then g (fhs w ! f) else fhs w ! i)"
  by (simp_all add: upd_fh_def nth_list_update)

lemma gives_simps [simp]: "fhs (gives rs w) = fhs w" "fh_count (gives rs w) = fh_count w" "pairs (gives rs w) = pairs w"
  by (simp_all add: gives_def)

lemma fh_init_simps [simp]: "used (fh_init c ev x) = used x" "clazz (fh_init c ev x) = clazz x"
  by (cases c; simp add: fh_init_def)+

lemma fh_take_spec:
  assumes "length (fhs w) = WIN32_MAX_FHS" and "f < WIN32_MAX_FHS"
  shows "fhs (fh_take c ev f w) ! i = (if i = f then fh_init c ev ((fhs w ! f)\<lparr>clazz := Some c, used := True, eof := False\<rparr>) else fhs w ! i)"
    and "open_fds (fh_take c ev f w) = insert f (open_fds w)"
    and "length (fhs (fh_take c ev f w)) = WIN32_MAX_FHS" and "fh_count (fh_take c ev f w) = fh_count w"
    and "pairs (fh_take c ev f w) = pairs w"
  using assms by (auto simp: fh_take_def open_fds_def split: if_splits)

lemma fh_take_ok:
  assumes ok: "fh_ok w" and f: "f < WIN32_MAX_FHS" and c: "f < n" "fh_count w \<le> n" "n \<le> WIN32_MAX_FHS"
  shows "fh_ok (fh_take c ev f (w\<lparr>fh_count := n\<rparr>))"
proof -
  let ?v = "w\<lparr>fh_count := n\<rparr>"
  have l: "length (fhs ?v) = WIN32_MAX_FHS" using ok by (simp add: fh_ok_def)
  have u: "\<forall>i < WIN32_MAX_FHS. used (fhs w ! i) \<longleftrightarrow> clazz (fhs w ! i) \<noteq> None"
    and e: "\<forall>i < WIN32_MAX_FHS. fh_count w \<le> i \<longrightarrow> \<not> used (fhs w ! i)" using ok unfolding fh_ok_def by blast+
  have "used (fhs (fh_take c ev f ?v) ! i) \<longleftrightarrow> clazz (fhs (fh_take c ev f ?v) ! i) \<noteq> None" if "i < WIN32_MAX_FHS" for i
    unfolding fh_take_spec(1) [OF l f] using u that by simp
  moreover have "\<not> used (fhs (fh_take c ev f ?v) ! i)" if "i < WIN32_MAX_FHS" "n \<le> i" for i
    unfolding fh_take_spec(1) [OF l f] using e that c by simp
  ultimately show ?thesis unfolding fh_ok_def fh_take_spec(3,4) [OF l f] using c(3) by simp
qed

lemma fh_alloc_spec:
  assumes ok: "fh_ok w" and room: "card (open_fds w) < WIN32_MAX_FHS"
  obtains f w' where "fh_alloc c ev w = (Some f, w')" and "f < WIN32_MAX_FHS" and "f \<notin> open_fds w" and "fh_ok w'"
    and "open_fds w' = insert f (open_fds w)" and "\<And>i. i \<noteq> f \<Longrightarrow> fhs w' ! i = fhs w ! i"
    and "fhs w' ! f = fh_init c ev ((fhs w ! f)\<lparr>clazz := Some c, used := True, eof := False\<rparr>)"
    and "pairs w' = pairs w" and "f < fh_count w'"
proof (cases "fh_count w < WIN32_MAX_FHS")
  case True
  let ?w = "w\<lparr>fh_count := Suc (fh_count w)\<rparr>"
  let ?f = "fh_count w"
  have o: "open_fds ?w = open_fds w" by (simp add: open_fds_def)
  have l: "length (fhs ?w) = WIN32_MAX_FHS" using ok by (simp add: fh_ok_def)
  show thesis
  proof (rule that)
    show "fh_alloc c ev w = (Some ?f, fh_take c ev ?f ?w)" using True by (simp add: fh_alloc_def)
    show "?f \<notin> open_fds w" using ok True unfolding fh_ok_def open_fds_def by blast
    show "fh_ok (fh_take c ev ?f ?w)" by (rule fh_take_ok [OF ok True]) (use True in auto)
  qed (use True in \<open>simp_all add: fh_take_spec [OF l True] o\<close>)
next
  case False
  define nn where "nn = length (takeWhile (\<lambda>x. clazz x \<noteq> None) (fhs w))"
  have l: "length (fhs w) = WIN32_MAX_FHS" using ok by (simp add: fh_ok_def)
  have lt: "nn < WIN32_MAX_FHS"
  proof (rule ccontr)
    assume "\<not> nn < WIN32_MAX_FHS"
    then have "takeWhile (\<lambda>x. clazz x \<noteq> None) (fhs w) = fhs w"
      using l takeWhile_eq_take [of "\<lambda>x. clazz x \<noteq> None" "fhs w"] by (simp only: nn_def [symmetric]) simp
    then have "\<forall>x \<in> set (fhs w). clazz x \<noteq> None" by (simp only: takeWhile_eq_all_conv)
    then have "\<forall>i < WIN32_MAX_FHS. clazz (fhs w ! i) \<noteq> None" using l by simp
    then have "open_fds w = {..< WIN32_MAX_FHS}" using ok by (auto simp: fh_ok_def open_fds_def)
    then show False using room by simp
  qed
  have free: "\<not> used (fhs w ! nn)"
    using nth_length_takeWhile [of "\<lambda>x. clazz x \<noteq> None" "fhs w"] lt l ok by (simp add: nn_def fh_ok_def)
  have cnt: "fh_count w = WIN32_MAX_FHS" using False ok by (simp add: fh_ok_def)
  show thesis
  proof (rule that)
    show "fh_alloc c ev w = (Some nn, fh_take c ev nn w)" using False lt by (simp add: fh_alloc_def nn_def Let_def)
    show "nn \<notin> open_fds w" using free by (simp add: open_fds_def)
    have "w\<lparr>fh_count := fh_count w\<rparr> = w" by simp
    moreover have "fh_ok (fh_take c ev nn (w\<lparr>fh_count := fh_count w\<rparr>))"
      by (rule fh_take_ok [OF ok lt]) (use lt cnt in auto)
    ultimately show "fh_ok (fh_take c ev nn w)" by (simp only:)
  qed (use lt cnt in \<open>simp_all add: fh_take_spec [OF l lt]\<close>)
qed

lemma fh_alloc_full:
  assumes ok: "fh_ok w" and full: "card (open_fds w) = WIN32_MAX_FHS"
  shows "fh_alloc c ev w = (None, w)"
proof -
  have "open_fds w = {..< WIN32_MAX_FHS}"
    by (rule card_subset_eq) (use full in \<open>auto simp: open_fds_def\<close>)
  then have u: "\<forall>i < WIN32_MAX_FHS. used (fhs w ! i)" by (auto simp: open_fds_def)
  have "\<not> fh_count w < WIN32_MAX_FHS" using u ok unfolding fh_ok_def by blast
  moreover have "\<forall>x \<in> set (fhs w). clazz x \<noteq> None" using u ok by (auto simp: fh_ok_def in_set_conv_nth)
  then have "takeWhile (\<lambda>x. clazz x \<noteq> None) (fhs w) = fhs w" by (simp only: takeWhile_eq_all_conv)
  then have "length (takeWhile (\<lambda>x. clazz x \<noteq> None) (fhs w)) = WIN32_MAX_FHS" using ok by (simp only: fh_ok_def)
  ultimately show ?thesis by (simp add: fh_alloc_def del: not_None_eq)
qed

lemma from_to: "fh_ok w \<Longrightarrow> f \<in> open_fds w \<Longrightarrow> fh_from_int (fh_to_int f w) w = Some f"
  by (auto simp: fh_from_int_def fh_to_int_def open_fds_def fh_ok_def Let_def)

text \<open>What closing does to the slot; a pair must be alive.\<close>

definition closable :: "nat \<Rightarrow> win \<Rightarrow> bool" where
  "closable f w \<longleftrightarrow> clazz (fhs w ! f) = Some Pair_class \<longrightarrow> fu (fhs w ! f) = 0 \<or> pairs w (fu (fhs w ! f)) \<noteq> None"

lemma class_close_frame:
  assumes "class_close f w = Inr w'" and "f < length (fhs w)"
  shows "length (fhs w') = length (fhs w)" and "fh_count w' = fh_count w" and "\<And>i. i \<noteq> f \<Longrightarrow> fhs w' ! i = fhs w ! i"
    and "used (fhs w' ! i) = used (fhs w ! i)" and "clazz (fhs w' ! i) = clazz (fhs w ! i)"
  using assms by (auto simp: class_close_def socketpair_close_def Let_def upd_fh_def nth_list_update
      split: option.splits fh_class.splits if_splits)

lemma fh_close_spec:
  assumes ok: "fh_ok w" and f: "f \<in> open_fds w" and c: "closable f w"
  obtains w' where "fh_close (Some f) w = Inr w'" and "fh_ok w'" and "open_fds w' = open_fds w - {f}"
    and "\<And>i. i \<noteq> f \<Longrightarrow> fhs w' ! i = fhs w ! i" and "fh_count w' = fh_count w"
proof -
  have fl: "f < length (fhs w)" "f < WIN32_MAX_FHS" and u: "used (fhs w ! f)" and cl: "clazz (fhs w ! f) \<noteq> None"
    using ok f by (auto simp: fh_ok_def open_fds_def)
  have "\<exists>w1. class_close f w = Inr w1"
    using cl c by (auto simp: class_close_def socketpair_close_def Let_def closable_def split: fh_class.splits option.splits)
  then obtain w1 where w1: "class_close f w = Inr w1" by blast
  note fr = class_close_frame [OF w1 fl(1)]
  let ?w = "upd_fh f (\<lambda>x. x\<lparr>used := False, eof := False, clazz := None\<rparr>) w1"
  have l: "f < length (fhs w1)" using fr(1) fl by simp
  show thesis
  proof (rule that)
    show "fh_close (Some f) w = Inr ?w" using u w1 by (simp add: fh_close_def)
    show "fh_ok ?w" using ok fr l by (auto simp: fh_ok_def)
    show "open_fds ?w = open_fds w - {f}" using fr l by (auto simp: open_fds_def)
    show "fhs ?w ! i = fhs w ! i" if "i \<noteq> f" for i using that fr(3) l by simp
    show "fh_count ?w = fh_count w" using fr by simp
  qed
qed

text \<open>A descriptor names one slot from the call that issues it to the one that closes it: opening
  succeeds exactly while fewer than 128 are open, takes a slot that was free and touches no other;
  closing gives it back and makes the number invalid.\<close>

theorem descriptor_life:
  assumes ok: "fh_ok w" and h: "h \<noteq> - 1"
  shows "(if card (open_fds w) < WIN32_MAX_FHS
          then \<exists>f w' w''. open_handle h w = Inr (int f + 100, w') \<and> f \<notin> open_fds w \<and> fh_ok w' \<and> open_fds w' = insert f (open_fds w)
            \<and> (\<forall>i. i \<noteq> f \<longrightarrow> fhs w' ! i = fhs w ! i) \<and> fh_from_int (int f + 100) w' = Some f \<and> fu (fhs w' ! f) = h
            \<and> adb_close (int f + 100) w' = Inr (0, w'') \<and> open_fds w'' = open_fds w \<and> fh_from_int (int f + 100) w'' = None
          else open_handle h w = Inr (- 1, w))"
proof (cases "card (open_fds w) < WIN32_MAX_FHS")
  case True
  obtain f w1 where a: "fh_alloc File_class 0 w = (Some f, w1)" "f < WIN32_MAX_FHS" "f \<notin> open_fds w" "fh_ok w1"
    "open_fds w1 = insert f (open_fds w)" "\<And>i. i \<noteq> f \<Longrightarrow> fhs w1 ! i = fhs w ! i"
    "fhs w1 ! f = fh_init File_class 0 ((fhs w ! f)\<lparr>clazz := Some File_class, used := True, eof := False\<rparr>)"
    by (rule fh_alloc_spec [OF ok True]) blast
  let ?w = "upd_fh f (\<lambda>x. x\<lparr>fu := h\<rparr>) w1"
  have l: "f < length (fhs w1)" using a by (simp add: fh_ok_def)
  have ok2: "fh_ok ?w" using a(4) l by (auto simp: fh_ok_def)
  have o2: "open_fds ?w = insert f (open_fds w)" using a(5) l by (auto simp: open_fds_def)
  have t: "fh_to_int f ?w = int f + 100" using a(2,7) l by (simp add: fh_to_int_def WIN32_FH_BASE_def)
  have fi: "fh_from_int (int f + 100) ?w = Some f" using from_to [OF ok2, of f] o2 t by simp
  have "closable f ?w" using l a(7) by (simp add: closable_def)
  then obtain w2 where c: "fh_close (Some f) ?w = Inr w2" "open_fds w2 = open_fds ?w - {f}" "fh_ok w2"
    by (rule fh_close_spec [OF ok2, rotated]) (use o2 in auto)
  have "fh_from_int (int f + 100) w2 = None"
    using c(2) a(2) by (auto simp: fh_from_int_def Let_def WIN32_FH_BASE_def open_fds_def)
  moreover have "open_fds w2 = open_fds w" using c(2) o2 a(3) by auto
  moreover have "open_handle h w = Inr (int f + 100, ?w)" using a(1) h t by (simp add: open_handle_def)
  moreover have "adb_close (int f + 100) ?w = Inr (0, w2)" using fi c(1) by (simp add: adb_close_def)
  moreover have "fhs ?w ! i = fhs w ! i" if "i \<noteq> f" for i using that a(6) l by simp
  moreover have "fu (fhs ?w ! f) = h" using l by simp
  ultimately show ?thesis using True a(3) ok2 o2 fi by auto
next
  case False
  then have "card (open_fds w) = WIN32_MAX_FHS" using card_open_le [of w] by simp
  then show ?thesis using fh_alloc_full [OF ok] False by (simp add: open_handle_def)
qed

definition win0 :: win where
  "win0 = \<lparr>fhs = replicate WIN32_MAX_FHS \<lparr>clazz = None, used = False, eof = False, fu = 0, event = 0, mask = 0\<rparr>,
     fh_count = 0, pairs = (\<lambda>_. None), freed = []\<rparr>"

lemma win0_ok: "fh_ok win0" "open_fds win0 = {}"
  by (simp_all add: win0_def fh_ok_def open_fds_def)

lemma descriptor_life_witness: "\<exists>w'. open_handle 7 win0 = Inr (100, w') \<and> fh_from_int 100 w' = Some 0"
proof -
  have "\<exists>f w'. open_handle 7 win0 = Inr (int f + 100, w') \<and> fh_from_int (int f + 100) w' = Some f"
    using descriptor_life [OF win0_ok(1), of 7] by (auto simp: win0_ok WIN32_MAX_FHS_def)
  moreover have "\<exists>w'. open_handle 7 win0 = Inr (100, w')"
    by (simp add: open_handle_def fh_alloc_def win0_def WIN32_MAX_FHS_def fh_take_def upd_fh_def fh_to_int_def
        WIN32_FH_BASE_def fh_init_def nth_list_update)
  ultimately show ?thesis by auto
qed

section \<open>A leak and what it leads to\<close>

lemma close_fail_spec:
  assumes "fh_ok w" and "f \<in> open_fds w" and "clazz (fhs w ! f) \<noteq> Some Pair_class"
  obtains w' where "close_fail f w = Inr (- 1, w')" and "fh_ok w'" and "open_fds w' = open_fds w - {f}"
proof -
  obtain w' where "fh_close (Some f) w = Inr w'" "fh_ok w'" "open_fds w' = open_fds w - {f}"
    by (rule fh_close_spec [OF assms(1,2)]) (use assms(3) in \<open>auto simp: closable_def\<close>)
  then show thesis by (intro that [of w']) (simp_all add: close_fail_def)
qed

text \<open>\<open>n\<close> calls of \<open>socket_loopback_server\<close>, for all of which \<open>socket\<close> fails.\<close>

fun failing_servers :: "nat \<Rightarrow> win \<Rightarrow> crash + win" where
  "failing_servers 0 w = Inr w"
| "failing_servers (Suc n) w = sbind (socket_loopback_server 0 (- 1) True True True w) (\<lambda>(r, w1). failing_servers n w1)"

lemma server_leaks:
  assumes ok: "fh_ok w" and room: "card (open_fds w) < WIN32_MAX_FHS"
  obtains w' where "socket_loopback_server ev (- 1) a b c w = Inr (- 1, w')" and "fh_ok w'"
    and "card (open_fds w') = Suc (card (open_fds w))"
proof -
  obtain f w1 where a: "fh_alloc Socket_class ev w = (Some f, w1)" "f \<notin> open_fds w" "fh_ok w1"
    "open_fds w1 = insert f (open_fds w)"
    by (rule fh_alloc_spec [OF ok room]) blast
  show thesis by (rule that [of w1]) (use a in \<open>simp_all add: socket_loopback_server_def\<close>)
qed

lemma failing_servers_leak:
  assumes "fh_ok w" and "card (open_fds w) + n \<le> WIN32_MAX_FHS"
  shows "\<exists>w'. failing_servers n w = Inr w' \<and> fh_ok w' \<and> card (open_fds w') = card (open_fds w) + n"
  using assms
proof (induction n arbitrary: w)
  case (Suc n)
  obtain w1 where "socket_loopback_server 0 (- 1) True True True w = Inr (- 1, w1)" "fh_ok w1"
    "card (open_fds w1) = Suc (card (open_fds w))"
    by (rule server_leaks [OF Suc.prems(1)]) (use Suc.prems(2) in auto)
  then show ?case using Suc.IH [of w1] Suc.prems(2) by auto
qed simp

text \<open>\<open>socket_loopback_server\<close> does not give its slot back when \<open>socket\<close> fails, unlike
  \<open>socket_inaddr_any_server\<close>.  As many failing calls as there are free slots fill the table, and then
  \<open>adb_socketpair\<close>, which closes the descriptors it has not got, dereferences a null pointer.\<close>

theorem failing_servers_exhaust:
  assumes ok: "fh_ok w" and n: "card (open_fds w) + n = WIN32_MAX_FHS"
  shows "(\<exists>w'. failing_servers n w = Inr w' \<and> fh_ok w' \<and> card (open_fds w') = WIN32_MAX_FHS
      \<and> adb_socketpair p j1 j2 w' = Inl Null_FH)
    \<and> (n > 0 \<longrightarrow> (\<exists>w'. socket_inaddr_any_server ev (- 1) a b c w = Inr (- 1, w') \<and> open_fds w' = open_fds w))"
proof (rule conjI)
  obtain w' where w': "failing_servers n w = Inr w'" "fh_ok w'" "card (open_fds w') = WIN32_MAX_FHS"
    using failing_servers_leak [OF ok, of n] n by auto
  have "adb_socketpair p j1 j2 w' = Inl Null_FH"
    by (simp add: adb_socketpair_def fh_alloc_full [OF w'(2,3)] socketpair_fail_def fh_close_def)
  then show "\<exists>w'. failing_servers n w = Inr w' \<and> fh_ok w' \<and> card (open_fds w') = WIN32_MAX_FHS
      \<and> adb_socketpair p j1 j2 w' = Inl Null_FH" using w' by blast
  show "n > 0 \<longrightarrow> (\<exists>w'. socket_inaddr_any_server ev (- 1) a b c w = Inr (- 1, w') \<and> open_fds w' = open_fds w)"
  proof
    assume "n > 0"
    then have room: "card (open_fds w) < WIN32_MAX_FHS" using n by simp
    obtain f w1 where al: "fh_alloc Socket_class ev w = (Some f, w1)" "f \<notin> open_fds w" "fh_ok w1"
      "open_fds w1 = insert f (open_fds w)"
      "fhs w1 ! f = fh_init Socket_class ev ((fhs w ! f)\<lparr>clazz := Some Socket_class, used := True, eof := False\<rparr>)"
      by (rule fh_alloc_spec [OF ok room]) blast
    obtain w2 where "close_fail f w1 = Inr (- 1, w2)" "open_fds w2 = open_fds w1 - {f}"
      by (rule close_fail_spec [OF al(3), of f]) (use al in auto)
    then show "\<exists>w'. socket_inaddr_any_server ev (- 1) a b c w = Inr (- 1, w') \<and> open_fds w' = open_fds w"
      using al by (auto simp: socket_inaddr_any_server_def)
  qed
qed

lemma failing_servers_exhaust_witness:
  "\<exists>w'. failing_servers 128 win0 = Inr w' \<and> adb_socketpair 5 [] [] w' = Inl Null_FH"
  using failing_servers_exhaust [OF win0_ok(1), of 128 5 "[]" "[]" 0 True True True] by (auto simp: win0_ok WIN32_MAX_FHS_def)

section \<open>Socket pairs\<close>

text \<open>A connected pair: \<open>a\<close> and \<open>b\<close> are the slots of its ends.\<close>

definition connected :: "nat \<Rightarrow> nat \<Rightarrow> spair \<Rightarrow> win \<Rightarrow> bool" where
  "connected a b sp w \<longleftrightarrow> fh_ok w \<and> a \<noteq> b \<and> a \<in> open_fds w \<and> b \<in> open_fds w
     \<and> clazz (fhs w ! a) = Some Pair_class \<and> clazz (fhs w ! b) = Some Pair_class
     \<and> fu (fhs w ! a) = fu (fhs w ! b) \<and> fu (fhs w ! a) \<noteq> 0 \<and> pairs w (fu (fhs w ! a)) = Some sp
     \<and> a_fd sp = Some a \<and> bip_ok (a2b_bip sp) \<and> bip_ok (b2a_bip sp)"

lemma from_open: "fh_ok w \<Longrightarrow> f \<in> open_fds w \<Longrightarrow> fh_from_int (int f + 100) w = Some f"
  using from_to [of w f] by (simp add: fh_to_int_def open_fds_def WIN32_FH_BASE_def)

lemma socketpair_connected:
  assumes ok: "fh_ok w" and room: "card (open_fds w) + 2 \<le> WIN32_MAX_FHS" and p: "p \<noteq> 0"
    and j: "length j1 = BIP_BUFFER_SIZE" "length j2 = BIP_BUFFER_SIZE"
  obtains a b sp w' where "adb_socketpair p j1 j2 w = Inr (0, (int a + 100, int b + 100), w')" and "connected a b sp w'"
    and "contents (a2b_bip sp) = []" and "contents (b2a_bip sp) = []" and "\<not> bclosed (a2b_bip sp)" and "\<not> bclosed (b2a_bip sp)"
proof -
  obtain a w1 where a: "fh_alloc Pair_class 0 w = (Some a, w1)" "a < WIN32_MAX_FHS" "a \<notin> open_fds w" "fh_ok w1"
    "open_fds w1 = insert a (open_fds w)"
    "fhs w1 ! a = fh_init Pair_class 0 ((fhs w ! a)\<lparr>clazz := Some Pair_class, used := True, eof := False\<rparr>)"
    by (rule fh_alloc_spec [OF ok]) (use room in auto)
  obtain b w2 where b: "fh_alloc Pair_class 0 w1 = (Some b, w2)" "b < WIN32_MAX_FHS" "b \<notin> open_fds w1" "fh_ok w2"
    "open_fds w2 = insert b (open_fds w1)" "\<And>i. i \<noteq> b \<Longrightarrow> fhs w2 ! i = fhs w1 ! i"
    "fhs w2 ! b = fh_init Pair_class 0 ((fhs w1 ! b)\<lparr>clazz := Some Pair_class, used := True, eof := False\<rparr>)"
    by (rule fh_alloc_spec [OF a(4)]) (use room a in auto)
  have ne: "a \<noteq> b" using a(5) b(3) by auto
  let ?sp = "\<lparr>a2b_bip = bip_buffer_init j1, b2a_bip = bip_buffer_init j2, a_fd = Some a, pused = 2\<rparr>"
  let ?w = "upd_fh b (\<lambda>x. x\<lparr>fu := p\<rparr>) (upd_fh a (\<lambda>x. x\<lparr>fu := p\<rparr>) (w2\<lparr>pairs := (pairs w2)(p \<mapsto> ?sp)\<rparr>))"
  have l: "a < length (fhs w2)" "b < length (fhs w2)" "length (fhs w2) = WIN32_MAX_FHS" using a b by (auto simp: fh_ok_def)
  have fa: "fhs ?w ! a = (fhs w1 ! a)\<lparr>fu := p\<rparr>" and fb: "fhs ?w ! b = (fhs w2 ! b)\<lparr>fu := p\<rparr>" using l ne b(6) by auto
  have okw: "fh_ok ?w" using b(4) l by (auto simp: fh_ok_def)
  have "connected a b ?sp ?w"
    unfolding connected_def fa fb using ne okw a(2,6) b(2,7) p j init_ok(1) fa fb by (simp add: open_fds_def)
  moreover have "adb_socketpair p j1 j2 w = Inr (0, (int a + 100, int b + 100), ?w)"
    using a(1,2,6) b(1,2,7) p fa fb by (simp add: adb_socketpair_def fh_to_int_def WIN32_FH_BASE_def Let_def)
  moreover have "\<not> bclosed (a2b_bip ?sp)" "\<not> bclosed (b2a_bip ?sp)" by (simp_all add: bip_buffer_init_def)
  ultimately show thesis using init_ok(2) j by (intro that [of a b ?w ?sp]) simp_all
qed

lemma pair_simps:
  assumes "connected a b sp w"
  shows "socketpair_write a src w = Inr (case bip_buffer_write src (a2b_bip sp) of
      Returns (n, x) \<Rightarrow> Returns (n, set_pair a (sp\<lparr>a2b_bip := x\<rparr>) w) | Waits \<Rightarrow> Waits | Asserts \<Rightarrow> Asserts)"
    and "socketpair_read b len w = Inr (case bip_buffer_read len (a2b_bip sp) of
      Returns (n, bs, x) \<Rightarrow> Returns (n, bs, set_pair b (sp\<lparr>a2b_bip := x\<rparr>) w) | Waits \<Rightarrow> Waits | Asserts \<Rightarrow> Asserts)"
    and "socketpair_read a len w = Inr (case bip_buffer_read len (b2a_bip sp) of
      Returns (n, bs, x) \<Rightarrow> Returns (n, bs, set_pair a (sp\<lparr>b2a_bip := x\<rparr>) w) | Waits \<Rightarrow> Waits | Asserts \<Rightarrow> Asserts)"
    and "socketpair_write b src w = Inr (case bip_buffer_write src (b2a_bip sp) of
      Returns (n, x) \<Rightarrow> Returns (n, set_pair b (sp\<lparr>b2a_bip := x\<rparr>) w) | Waits \<Rightarrow> Waits | Asserts \<Rightarrow> Asserts)"
proof -
  have "pair_of a w = Inr (Some sp)" "pair_of b w = Inr (Some sp)" and "a_fd sp = Some a" "a \<noteq> b"
    using assms by (auto simp: connected_def pair_of_def Let_def)
  then show "socketpair_write a src w = Inr (case bip_buffer_write src (a2b_bip sp) of
      Returns (n, x) \<Rightarrow> Returns (n, set_pair a (sp\<lparr>a2b_bip := x\<rparr>) w) | Waits \<Rightarrow> Waits | Asserts \<Rightarrow> Asserts)"
    and "socketpair_read b len w = Inr (case bip_buffer_read len (a2b_bip sp) of
      Returns (n, bs, x) \<Rightarrow> Returns (n, bs, set_pair b (sp\<lparr>a2b_bip := x\<rparr>) w) | Waits \<Rightarrow> Waits | Asserts \<Rightarrow> Asserts)"
    and "socketpair_read a len w = Inr (case bip_buffer_read len (b2a_bip sp) of
      Returns (n, bs, x) \<Rightarrow> Returns (n, bs, set_pair a (sp\<lparr>b2a_bip := x\<rparr>) w) | Waits \<Rightarrow> Waits | Asserts \<Rightarrow> Asserts)"
    and "socketpair_write b src w = Inr (case bip_buffer_write src (b2a_bip sp) of
      Returns (n, x) \<Rightarrow> Returns (n, set_pair b (sp\<lparr>b2a_bip := x\<rparr>) w) | Waits \<Rightarrow> Waits | Asserts \<Rightarrow> Asserts)"
    by (auto simp: socketpair_write_def socketpair_read_def split: outcome.splits)
qed

lemma connected_set_pair:
  assumes "connected a b sp w" and "f = a \<or> f = b" and "a_fd sp' = Some a" and "bip_ok (a2b_bip sp')" and "bip_ok (b2a_bip sp')"
  shows "connected a b sp' (set_pair f sp' w)"
  using assms by (auto simp: connected_def set_pair_def fh_ok_def open_fds_def)

text \<open>Calls at the two ends, one after the other: \<open>True\<close> is the first end.  What each end has had accepted and what it has
  read; a call that has to wait has no effect, and any failure is \<open>None\<close>.\<close>

datatype pair_call = Put_at bool "byte list" | Get_at bool nat

fun pair_calls :: "winos \<Rightarrow> (bool \<Rightarrow> int) \<Rightarrow> pair_call list \<Rightarrow> win \<times> (bool \<Rightarrow> byte list) \<times> (bool \<Rightarrow> byte list)
    \<Rightarrow> (win \<times> (bool \<Rightarrow> byte list) \<times> (bool \<Rightarrow> byte list)) option" where
  "pair_calls os fd [] st = Some st"
| "pair_calls os fd (Put_at e src # cs) (w, put, got) = (case adb_write os (fd e) src w of
     Inr (Returns (n, w')) \<Rightarrow> if n < 0 then None else pair_calls os fd cs (w', put(e := put e @ take (nat n) src), got)
   | Inr Waits \<Rightarrow> pair_calls os fd cs (w, put, got)
   | _ \<Rightarrow> None)"
| "pair_calls os fd (Get_at e len # cs) (w, put, got) = (case adb_read os (fd e) len w of
     Inr (Returns (n, bs, w')) \<Rightarrow> if n < 0 then None else pair_calls os fd cs (w', put, got(e := got e @ bs))
   | Inr Waits \<Rightarrow> pair_calls os fd cs (w, put, got)
   | _ \<Rightarrow> None)"

definition pair_fd :: "nat \<Rightarrow> nat \<Rightarrow> bool \<Rightarrow> int" where
  "pair_fd a b e = (if e then int a + 100 else int b + 100)"

text \<open>The buffer that an end writes to.\<close>

definition out_bip :: "bool \<Rightarrow> spair \<Rightarrow> bip" where
  "out_bip e sp = (if e then a2b_bip sp else b2a_bip sp)"

definition with_out :: "bool \<Rightarrow> bip \<Rightarrow> spair \<Rightarrow> spair" where
  "with_out e x sp = (if e then sp\<lparr>a2b_bip := x\<rparr> else sp\<lparr>b2a_bip := x\<rparr>)"

lemma out_with_out [simp]: "out_bip e (with_out d x sp) = (if e = d then x else out_bip e sp)"
  by (auto simp: out_bip_def with_out_def)

lemma pair_io:
  assumes c: "connected a b sp w"
  shows "adb_write os (pair_fd a b e) src w = Inr (case bip_buffer_write src (out_bip e sp) of
      Returns (n, x) \<Rightarrow> Returns (n, set_pair (if e then a else b) (with_out e x sp) w) | Waits \<Rightarrow> Waits | Asserts \<Rightarrow> Asserts)"
    and "adb_read os (pair_fd a b e) len w = Inr (case bip_buffer_read len (out_bip (\<not> e) sp) of
      Returns (n, bs, x) \<Rightarrow> Returns (n, bs, set_pair (if e then a else b) (with_out (\<not> e) x sp) w) | Waits \<Rightarrow> Waits | Asserts \<Rightarrow> Asserts)"
proof -
  have f: "fh_from_int (int a + 100) w = Some a" "fh_from_int (int b + 100) w = Some b"
    using c by (auto simp: connected_def intro: from_open)
  have cl: "clazz (fhs w ! a) = Some Pair_class" "clazz (fhs w ! b) = Some Pair_class" using c by (auto simp: connected_def)
  show "adb_write os (pair_fd a b e) src w = Inr (case bip_buffer_write src (out_bip e sp) of
      Returns (n, x) \<Rightarrow> Returns (n, set_pair (if e then a else b) (with_out e x sp) w) | Waits \<Rightarrow> Waits | Asserts \<Rightarrow> Asserts)"
    using f cl pair_simps(1,4) [OF c, of src] by (cases e) (simp_all add: adb_write_def pair_fd_def out_bip_def with_out_def split: outcome.split)
  show "adb_read os (pair_fd a b e) len w = Inr (case bip_buffer_read len (out_bip (\<not> e) sp) of
      Returns (n, bs, x) \<Rightarrow> Returns (n, bs, set_pair (if e then a else b) (with_out (\<not> e) x sp) w) | Waits \<Rightarrow> Waits | Asserts \<Rightarrow> Asserts)"
    using f cl pair_simps(2,3) [OF c, of len] by (cases e) (simp_all add: adb_read_def pair_fd_def out_bip_def with_out_def split: outcome.split)
qed

lemma connected_out:
  assumes "connected a b sp w"
  shows "bip_ok (out_bip e sp)" and "bip_ok x \<Longrightarrow> connected a b (with_out e x sp) (set_pair (if d then a else b) (with_out e x sp) w)"
proof -
  have c: "bip_ok (a2b_bip sp)" "bip_ok (b2a_bip sp)" "a_fd sp = Some a" using assms by (simp_all add: connected_def)
  then show "bip_ok (out_bip e sp)" by (simp add: out_bip_def)
  show "connected a b (with_out e x sp) (set_pair (if d then a else b) (with_out e x sp) w)" if "bip_ok x"
    by (rule connected_set_pair [OF assms]) (use c that in \<open>auto simp: with_out_def\<close>)
qed

text \<open>What an end has written is what the other one has read and what is in the buffer between them.\<close>

definition pair_inv :: "nat \<Rightarrow> nat \<Rightarrow> win \<times> (bool \<Rightarrow> byte list) \<times> (bool \<Rightarrow> byte list) \<Rightarrow> bool" where
  "pair_inv a b st \<longleftrightarrow> (case st of (w, put, got) \<Rightarrow> \<exists>sp. connected a b sp w
     \<and> (\<forall>e. \<not> bclosed (out_bip e sp) \<and> put e = got (\<not> e) @ contents (out_bip e sp)))"

lemma write_count: "bip_ok b \<Longrightarrow> bip_buffer_write src b = Returns (n, b') \<Longrightarrow> \<not> bclosed b \<Longrightarrow> 0 \<le> n"
  by (cases "src = []"; cases "can_write b")
    (auto simp: bip_buffer_write_def elim!: write_body_spec [of b src])

lemma read_count: "bip_ok b \<Longrightarrow> bip_buffer_read len b = Returns (n, bs, b') \<Longrightarrow> \<not> bclosed b \<Longrightarrow> 0 \<le> n"
  by (cases "len = 0"; cases "can_read b")
    (auto simp: bip_buffer_read_def elim!: read_body_spec [of b len])

lemma pair_calls_inv:
  assumes "pair_inv a b st"
  shows "\<exists>st'. pair_calls os (pair_fd a b) cs st = Some st' \<and> pair_inv a b st'"
  using assms
proof (induction cs arbitrary: st)
  case (Cons c cs)
  obtain w put got where st: "st = (w, put, got)" by (cases st) auto
  obtain sp where sp: "connected a b sp w" "\<And>e. \<not> bclosed (out_bip e sp)" "\<And>e. put e = got (\<not> e) @ contents (out_bip e sp)"
    using Cons.prems st by (auto simp: pair_inv_def)
  show ?case
  proof (cases c)
    case (Put_at e src)
    note ok = connected_out(1) [OF sp(1), of e]
    show ?thesis
    proof (cases "bip_buffer_write src (out_bip e sp)")
      case (Returns r)
      obtain n x where r: "r = (n, x)" by (cases r)
      have x: "bip_ok x" "contents x = contents (out_bip e sp) @ take (nat n) src" "\<not> bclosed x" "0 \<le> n"
        using write_spec(2) [OF ok Returns [unfolded r]] write_count [OF ok Returns [unfolded r]] sp(2) by auto
      let ?w = "set_pair (if e then a else b) (with_out e x sp) w"
      have "pair_inv a b (?w, put(e := put e @ take (nat n) src), got)"
        using connected_out(2) [OF sp(1) x(1)] sp x unfolding pair_inv_def
        by (intro case_prodI exI [of _ "with_out e x sp"]) auto
      from Cons.IH [OF this] show ?thesis using Put_at st Returns r x(4) by (simp add: pair_io [OF sp(1)])
    next
      case Waits
      then show ?thesis using Cons.IH [OF Cons.prems] Put_at st by (simp add: pair_io [OF sp(1)])
    qed (use write_spec(1) [OF ok] in simp)
  next
    case (Get_at e len)
    note ok = connected_out(1) [OF sp(1), of "\<not> e"]
    show ?thesis
    proof (cases "bip_buffer_read len (out_bip (\<not> e) sp)")
      case (Returns r)
      obtain n bs x where r: "r = (n, bs, x)" by (cases r) auto
      have x: "bip_ok x" "contents (out_bip (\<not> e) sp) = bs @ contents x" "\<not> bclosed x" "0 \<le> n"
        using read_spec(2) [OF ok Returns [unfolded r]] read_count [OF ok Returns [unfolded r]] sp(2) by auto
      let ?w = "set_pair (if e then a else b) (with_out (\<not> e) x sp) w"
      have "pair_inv a b (?w, put, got(e := got e @ bs))"
        using connected_out(2) [OF sp(1) x(1)] sp x unfolding pair_inv_def
        by (intro case_prodI exI [of _ "with_out (\<not> e) x sp"]) auto
      from Cons.IH [OF this] show ?thesis using Get_at st Returns r x(4) by (simp add: pair_io [OF sp(1)])
    next
      case Waits
      then show ?thesis using Cons.IH [OF Cons.prems] Get_at st by (simp add: pair_io [OF sp(1)])
    qed (use read_spec(1) [OF ok] in simp)
  qed
qed simp

text \<open>C26. The ends of a socket pair are connected, in both directions: after any sequence of writes and reads at the two
  ends of a new pair, what an end has had accepted is what the other one has read, in order, and a rest of at
  most 4096 bytes between them.  The next write at an end takes what fits behind the rest, and waits when nothing
  does; the next read at the other end delivers the rest, as far as it is asked for, and waits when there is none.\<close>

theorem socketpair_delivers:
  assumes ok: "fh_ok w" and room: "card (open_fds w) + 2 \<le> WIN32_MAX_FHS" and p: "p \<noteq> 0"
    and j: "length j1 = BIP_BUFFER_SIZE" "length j2 = BIP_BUFFER_SIZE"
  shows "\<exists>x y w1. adb_socketpair p j1 j2 w = Inr (0, (x, y), w1) \<and> x \<noteq> y
    \<and> (\<forall>cs. \<exists>w2 put got. pair_calls os (\<lambda>e. if e then x else y) cs (w1, \<lambda>_. [], \<lambda>_. []) = Some (w2, put, got)
        \<and> (\<forall>e. \<exists>rest. put e = got (\<not> e) @ rest \<and> length rest \<le> BIP_BUFFER_SIZE
            \<and> (\<forall>src. src \<noteq> [] \<longrightarrow> (if length rest = BIP_BUFFER_SIZE then adb_write os (if e then x else y) src w2 = Inr Waits
                 else \<exists>w3. adb_write os (if e then x else y) src w2
                   = Inr (Returns (int (min (length src) (BIP_BUFFER_SIZE - length rest)), w3))))
            \<and> (\<forall>len. 0 < len \<longrightarrow> (if rest = [] then adb_read os (if e then y else x) len w2 = Inr Waits
                 else \<exists>w3. adb_read os (if e then y else x) len w2
                   = Inr (Returns (int (min len (length rest)), take len rest, w3))))))"
proof -
  obtain a b sp w1 where sp: "adb_socketpair p j1 j2 w = Inr (0, (int a + 100, int b + 100), w1)" "connected a b sp w1"
    "contents (a2b_bip sp) = []" "contents (b2a_bip sp) = []" "\<not> bclosed (a2b_bip sp)" "\<not> bclosed (b2a_bip sp)"
    by (rule socketpair_connected [OF ok room p j])
  have ne: "a \<noteq> b" using sp(2) by (simp add: connected_def)
  have fd: "(\<lambda>e. if e then int a + 100 else int b + 100) = pair_fd a b" by (simp add: fun_eq_iff pair_fd_def)
  have i: "pair_inv a b (w1, \<lambda>_. [], \<lambda>_. [])"
    using sp(2-6) by (auto simp: pair_inv_def out_bip_def)
  have "\<exists>w2 put got. pair_calls os (pair_fd a b) cs (w1, \<lambda>_. [], \<lambda>_. []) = Some (w2, put, got)
        \<and> (\<forall>e. \<exists>rest. put e = got (\<not> e) @ rest \<and> length rest \<le> BIP_BUFFER_SIZE
            \<and> (\<forall>src. src \<noteq> [] \<longrightarrow> (if length rest = BIP_BUFFER_SIZE then adb_write os (pair_fd a b e) src w2 = Inr Waits
                 else \<exists>w3. adb_write os (pair_fd a b e) src w2
                   = Inr (Returns (int (min (length src) (BIP_BUFFER_SIZE - length rest)), w3))))
            \<and> (\<forall>len. 0 < len \<longrightarrow> (if rest = [] then adb_read os (pair_fd a b (\<not> e)) len w2 = Inr Waits
                 else \<exists>w3. adb_read os (pair_fd a b (\<not> e)) len w2
                   = Inr (Returns (int (min len (length rest)), take len rest, w3)))))" for cs
  proof -
    from pair_calls_inv [OF i, of os cs] obtain w2 put got where
      r: "pair_calls os (pair_fd a b) cs (w1, \<lambda>_. [], \<lambda>_. []) = Some (w2, put, got)" "pair_inv a b (w2, put, got)" by auto
    then obtain sq where sq: "connected a b sq w2" "\<And>e. \<not> bclosed (out_bip e sq)" "\<And>e. put e = got (\<not> e) @ contents (out_bip e sq)"
      by (auto simp: pair_inv_def)
    have rest: "length (contents (out_bip e sq)) \<le> BIP_BUFFER_SIZE" for e
      using connected_out(1) [OF sq(1), of e] shape_facts(4) by (auto simp: bip_ok_def)
    have wr: "if length (contents (out_bip e sq)) = BIP_BUFFER_SIZE then adb_write os (pair_fd a b e) src w2 = Inr Waits
        else \<exists>w3. adb_write os (pair_fd a b e) src w2
          = Inr (Returns (int (min (length src) (BIP_BUFFER_SIZE - length (contents (out_bip e sq)))), w3))"
      if "src \<noteq> []" for e src
      using write_all [OF connected_out(1) [OF sq(1)] refl _ that, of e] rest [of e] sq(2) [of e] connected_out(1) [OF sq(1), of e] that
      by (auto simp: pair_io [OF sq(1)] bip_buffer_write_def bip_ok_def)
    have rd: "if contents (out_bip e sq) = [] then adb_read os (pair_fd a b (\<not> e)) len w2 = Inr Waits
        else \<exists>w3. adb_read os (pair_fd a b (\<not> e)) len w2
          = Inr (Returns (int (min len (length (contents (out_bip e sq)))), take len (contents (out_bip e sq)), w3))"
      if "0 < len" for e len
      using read_all [OF connected_out(1) [OF sq(1)] refl that, of e] sq(2) [of e] connected_out(1) [OF sq(1), of e] that
      by (auto simp: pair_io [OF sq(1)] bip_buffer_read_def bip_ok_def)
    show ?thesis
      using r(1) sq(3) rest wr rd by blast
  qed
  note all = this
  have sides: "(if e then int b + 100 else int a + 100) = pair_fd a b (\<not> e)" "(if e then int a + 100 else int b + 100) = pair_fd a b e" for e
    by (simp_all add: pair_fd_def)
  show ?thesis
    by (rule exI [of _ "int a + 100"], rule exI [of _ "int b + 100"], rule exI [of _ w1])
      (use sp(1) ne all in \<open>simp only: sides fd, simp\<close>)
qed

definition winos0 :: winos where
  "winos0 = \<lparr>ReadFile = (\<lambda>_ _. None), WriteFile = (\<lambda>_ _. None), recv = (\<lambda>_ _. None), send = (\<lambda>_ _. None),
     SetFilePointer = (\<lambda>_ _. None)\<rparr>"

text \<open>Bytes in both directions.\<close>

lemma socketpair_delivers_witness:
  "\<exists>x y w1 w2 put got. adb_socketpair 5 (replicate 4096 0) (replicate 4096 0) win0 = Inr (0, (x, y), w1)
     \<and> pair_calls winos0 (\<lambda>e. if e then x else y) [Put_at True [1, 2, 3], Put_at False [4, 5], Get_at False 2, Get_at True 9]
         (w1, \<lambda>_. [], \<lambda>_. []) = Some (w2, put, got) \<and> (\<exists>rest. put True = got False @ rest)"
proof -
  have j: "length (replicate 4096 (0 :: byte)) = BIP_BUFFER_SIZE" by (simp only: BIP_BUFFER_SIZE_def length_replicate)
  have f: "fh_ok win0" "card (open_fds win0) + 2 \<le> WIN32_MAX_FHS" "(5 :: int) \<noteq> 0" by (simp_all add: win0_ok WIN32_MAX_FHS_def)
  from socketpair_delivers [OF f j j, of winos0] obtain x y w1 where
    a: "adb_socketpair 5 (replicate 4096 0) (replicate 4096 0) win0 = Inr (0, (x, y), w1)"
    and "\<forall>cs. \<exists>w2 put got. pair_calls winos0 (\<lambda>e. if e then x else y) cs (w1, \<lambda>_. [], \<lambda>_. []) = Some (w2, put, got)
      \<and> (\<forall>e. \<exists>rest. put e = got (\<not> e) @ rest)" by meson
  note all = this(2)
  obtain w2 put got where
    "pair_calls winos0 (\<lambda>e. if e then x else y) [Put_at True [1, 2, 3], Put_at False [4, 5], Get_at False 2, Get_at True 9]
       (w1, \<lambda>_. [], \<lambda>_. []) = Some (w2, put, got)" "\<forall>e. \<exists>rest. put e = got (\<not> e) @ rest"
    using all [rule_format, of "[Put_at True [1, 2, 3], Put_at False [4, 5], Get_at False 2, Get_at True 9]"] by blast
  then have "pair_calls winos0 (\<lambda>e. if e then x else y) [Put_at True [1, 2, 3], Put_at False [4, 5], Get_at False 2, Get_at True 9]
       (w1, \<lambda>_. [], \<lambda>_. []) = Some (w2, put, got)" "\<exists>rest. put True = got (\<not> True) @ rest" by blast+
  with a show ?thesis by (intro exI [of _ x] exI [of _ y] exI [of _ w1] exI [of _ w2] exI [of _ put] exI [of _ got]) simp
qed

end
