(* ===== verification/Jdwp.thy ===== *)
theory Jdwp
  imports Devlist "HOL-Library.Multiset"
begin

text \<open>
  The JDWP service of a device (\<open>adb/jdwp_service.c\<close>): Java processes connect to a control socket and
  write their pid as four hexadecimal digits; debuggers get a socket pair whose other end is passed to
  the process; clients can list the pids and track the list.  A process is an address; the effects are
  the descriptors closed (\<open>jclosed\<close>), those passed to a process (\<open>passed\<close>) and the messages enqueued
  on the peers of the trackers (\<open>tsent\<close>).  A tracker in \<open>broken\<close> is one whose client cannot be written
  to: enqueueing on its peer closes both, and so frees the tracker.
\<close>

definition MAX_OUT_FDS :: nat where "MAX_OUT_FDS = 4"

text \<open>\<open>wants_write\<close> is \<open>FDE_WRITE\<close> in the state of the \<open>fdevent\<close>.\<close>

record jproc =
  j_pid :: int
  j_socket :: int
  in_buff :: "byte list"
  out_fds :: "int list"
  out_count :: nat
  wants_write :: bool

record jstate =
  jdwp_list :: "nat list"
  procs :: "nat \<rightharpoonup> jproc"
  jin :: "int \<Rightarrow> rd_ev list"
  jclosed :: "int list"
  passed :: "(int \<times> int) list"
  jtrackers :: "nat list"
  tsent :: "(nat \<times> byte list) list"
  broken :: "nat list"

section \<open>The list of pids\<close>

fun pid_lines :: "nat \<Rightarrow> int list \<Rightarrow> byte list" where
  "pid_lines n [] = []"
| "pid_lines n (p # ps) =
     (if p < 0 then pid_lines n ps
      else let l = decimal (nat p) @ [10] in
        if n \<le> length l then [] else l @ pid_lines (n - length l) ps)"

definition pids :: "jstate \<Rightarrow> int list" where
  "pids s = map (\<lambda>p. case procs s p of None \<Rightarrow> - 1 | Some x \<Rightarrow> j_pid x) (jdwp_list s)"

definition jdwp_process_list :: "nat \<Rightarrow> jstate \<Rightarrow> byte list" where
  "jdwp_process_list bufferlen s = pid_lines bufferlen (pids s)"

definition jdwp_process_list_msg :: "nat \<Rightarrow> jstate \<Rightarrow> byte list" where
  "jdwp_process_list_msg bufferlen s = (let l = jdwp_process_list (bufferlen - 4) s in hex4 (length l) @ l)"

text \<open>The loop reads \<open>t->next\<close> after the call of \<open>enqueue\<close>.\<close>

fun notify_trackers :: "nat list \<Rightarrow> byte list \<Rightarrow> jstate \<Rightarrow> halt + jstate" where
  "notify_trackers [] msg s = Inr s"
| "notify_trackers (t # ts) msg s =
     (if t \<in> set (broken s) then Inl (UseAfterFree t)
      else notify_trackers ts msg (s\<lparr>tsent := tsent s @ [(t, msg)]\<rparr>))"

definition jdwp_process_list_updated :: "jstate \<Rightarrow> halt + jstate" where
  "jdwp_process_list_updated s = notify_trackers (jtrackers s) (jdwp_process_list_msg 1024 s) s"

section \<open>Processes\<close>

definition deref_proc :: "nat \<Rightarrow> jstate \<Rightarrow> halt + jproc" where
  "deref_proc p s = (case procs s p of None \<Rightarrow> Inl (UseAfterFree p) | Some x \<Rightarrow> Inr x)"

definition jdwp_process_free :: "nat \<Rightarrow> jstate \<Rightarrow> halt + jstate" where
  "jdwp_process_free p s = sbind (deref_proc p s) (\<lambda>x.
     jdwp_process_list_updated (s\<lparr>jdwp_list := remove1 p (jdwp_list s), procs := (procs s)(p := None),
       jclosed := jclosed s @ (if j_socket x \<ge> 0 then [j_socket x] else []) @ take (out_count x) (out_fds x)\<rparr>))"

text \<open>\<open>p\<close> is the address that \<open>calloc\<close> returns.\<close>

definition jdwp_process_alloc :: "nat \<Rightarrow> int \<Rightarrow> jstate \<Rightarrow> jstate" where
  "jdwp_process_alloc p sock s = s\<lparr>jdwp_list := jdwp_list s @ [p], procs := (procs s)(p \<mapsto>
     \<lparr>j_pid = - 1, j_socket = sock, in_buff = [], out_fds = replicate MAX_OUT_FDS 0, out_count = 0, wants_write = False\<rparr>)\<rparr>"

text \<open>The descriptors are in non-blocking mode: without an event the answer is \<open>EAGAIN\<close>.\<close>

definition jrecv :: "nat \<Rightarrow> rd_ev list \<Rightarrow> rd_res \<times> rd_ev list" where
  "jrecv n evs = (case adb_read n evs of None \<Rightarrow> (RdFail EAGAIN, []) | Some r \<Rightarrow> r)"

datatype pid_read = Pid_full | Pid_again | Pid_closed

lemma jrecv_length: "jrecv n evs = (r, evs') \<Longrightarrow> length evs' \<le> length evs"
  by (auto simp: jrecv_def split: option.splits dest: adb_read_length)

lemma jrecv_Got: "jrecv n evs = (Got bs, evs') \<Longrightarrow> 0 < n \<Longrightarrow> bs \<noteq> [] \<and> length bs \<le> n \<and> length evs' \<le> length evs"
  by (auto simp: jrecv_def split: option.splits dest: adb_read_Got)

lemma jrecv_Intr: "jrecv n evs = (RdFail EINTR, evs') \<Longrightarrow> length evs' < length evs"
  by (auto simp: jrecv_def split: option.splits dest: adb_read_fail_length)

function read_pid :: "byte list \<Rightarrow> rd_ev list \<Rightarrow> pid_read \<times> byte list \<times> rd_ev list" where
  "read_pid buf evs =
     (if 4 \<le> length buf then (Pid_full, buf, evs)
      else case jrecv (4 - length buf) evs of
        (RdFail e, evs') \<Rightarrow> (if e = EINTR then read_pid buf evs' else if e = EAGAIN then (Pid_again, buf, evs')
                           else (Pid_closed, buf, evs'))
      | (Eof, evs') \<Rightarrow> (Pid_closed, buf, evs')
      | (Got bs, evs') \<Rightarrow> read_pid (buf @ bs) evs')"
  by pat_completeness auto
termination
proof (relation "measure (\<lambda>(buf, evs). length evs + (4 - length buf))", goal_cases)
  case (2 buf evs x evs' bs)
  then show ?case using jrecv_Got [of "4 - length buf" evs bs evs'] by (cases bs) auto
next
  case (3 buf evs x evs' e)
  then show ?case using jrecv_Intr [of "4 - length buf" evs evs'] by simp
qed simp

declare read_pid.simps [simp del]

text \<open>\<open>sscanf(temp, "%04x", &pid)\<close>: white space, a sign, a prefix, then digits, four characters in all.\<close>

definition scan_digits :: "byte list \<Rightarrow> nat option" where
  "scan_digits s = (let ds = takeWhile (\<lambda>c. hex_value c \<noteq> None) s in
     if ds = [] then None else Some (foldl (\<lambda>n c. 16 * n + unat (the (hex_value c))) 0 ds))"

definition scan_unsigned :: "byte list \<Rightarrow> nat option" where
  "scan_unsigned s =
     (if take 1 s = [48] \<and> (take 1 (drop 1 s) = [120] \<or> take 1 (drop 1 s) = [88]) \<and> scan_digits (drop 2 s) \<noteq> None
      then scan_digits (drop 2 s) else scan_digits s)"

definition scan_hex4 :: "byte list \<Rightarrow> int option" where
  "scan_hex4 s = (let t = take 4 (dropWhile is_space (cstr s)) in
     if take 1 t = [45] then map_option (\<lambda>n. - int n) (scan_unsigned (drop 1 t))
     else if take 1 t = [43] then map_option int (scan_unsigned (drop 1 t))
     else map_option int (scan_unsigned t))"

text \<open>The data that arrives when the pid is known is thrown away.  \<open>True\<close>: the connection is closed.\<close>

fun ev_size :: "rd_ev \<Rightarrow> nat" where
  "ev_size (Avail bs) = Suc (length bs)"
| "ev_size (RdErr e) = 1"

lemma jrecv_size: "jrecv n evs = (r, evs') \<Longrightarrow> 0 < n \<Longrightarrow> evs \<noteq> [] \<Longrightarrow> sum_list (map ev_size evs') < sum_list (map ev_size evs)"
  by (cases "(n, evs)" rule: adb_read.cases) (auto simp: jrecv_def split: if_splits)

lemma jrecv_Nil: "jrecv n [] = (RdFail EAGAIN, [])"
  by (simp add: jrecv_def)

function drop_rest :: "rd_ev list \<Rightarrow> bool \<times> rd_ev list" where
  "drop_rest evs = (case jrecv 32 evs of
     (RdFail e, evs') \<Rightarrow> (if e = EINTR then drop_rest evs' else if e = EAGAIN then (False, evs') else (True, evs'))
   | (Eof, evs') \<Rightarrow> (True, evs')
   | (Got bs, evs') \<Rightarrow> drop_rest evs')"
  by pat_completeness auto
termination
proof (relation "measure (\<lambda>evs. sum_list (map ev_size evs))", goal_cases)
  case (2 evs x evs' bs)
  then show ?case using jrecv_size [of 32 evs x evs'] by (cases "evs = []") (simp_all add: jrecv_Nil)
next
  case (3 evs x evs' e)
  then show ?case using jrecv_size [of 32 evs x evs'] jrecv_Intr [of 32 evs evs'] by (cases "evs = []") (simp_all add: jrecv_Nil)
qed simp

declare drop_rest.simps [simp del]

section \<open>Events\<close>

definition set_proc :: "nat \<Rightarrow> jproc \<Rightarrow> jstate \<Rightarrow> jstate" where
  "set_proc p x s = s\<lparr>procs := (procs s)(p \<mapsto> x)\<rparr>"

definition set_jin :: "int \<Rightarrow> rd_ev list \<Rightarrow> jstate \<Rightarrow> jstate" where
  "set_jin sock evs s = s\<lparr>jin := (jin s)(sock := evs)\<rparr>"

text \<open>\<open>True\<close>: the handler goes on with \<open>FDE_WRITE\<close>.\<close>

definition event_pid :: "nat \<Rightarrow> jproc \<Rightarrow> jstate \<Rightarrow> halt + (bool \<times> jstate)" where
  "event_pid p x s = (case read_pid (in_buff x) (jin s (j_socket x)) of (r, buf, evs) \<Rightarrow>
     let x1 = x\<lparr>in_buff := buf\<rparr>; s1 = set_jin (j_socket x) evs (set_proc p x1 s) in
     case r of
       Pid_again \<Rightarrow> Inr (False, s1)
     | Pid_closed \<Rightarrow> sbind (jdwp_process_free p s1) (\<lambda>s2. Inr (False, s2))
     | Pid_full \<Rightarrow> (case scan_hex4 buf of
         None \<Rightarrow> sbind (jdwp_process_free p s1) (\<lambda>s2. Inr (False, s2))
       | Some n \<Rightarrow> sbind (jdwp_process_list_updated (set_proc p (x1\<lparr>j_pid := n\<rparr>) s1)) (\<lambda>s2. Inr (True, s2))))"

definition event_rest :: "nat \<Rightarrow> jproc \<Rightarrow> jstate \<Rightarrow> halt + (bool \<times> jstate)" where
  "event_rest p x s = (case drop_rest (jin s (j_socket x)) of (c, evs) \<Rightarrow>
     let s1 = set_jin (j_socket x) evs s in
     if c then sbind (jdwp_process_free p s1) (\<lambda>s2. Inr (False, s2)) else Inr (False, s1))"

text \<open>The answers of \<open>fcntl\<close> (twice), \<open>sendmsg\<close> and \<open>fcntl\<close>.\<close>

record send_env =
  getfl :: bool
  setfl :: bool
  sendmsg :: bool
  restored :: bool

text \<open>The loop that moves the remaining descriptors down.\<close>

definition shift_fds :: "nat \<Rightarrow> int list \<Rightarrow> int list" where
  "shift_fds n xs = fold (\<lambda>i ys. ys[i - 1 := ys ! i]) [1..<n] xs"

definition event_write_fd :: "send_env \<Rightarrow> nat \<Rightarrow> jproc \<Rightarrow> jstate \<Rightarrow> halt + jstate" where
  "event_write_fd env p x s =
     (if out_count x = 0 then Inr s
      else if \<not> getfl env \<or> \<not> setfl env \<or> \<not> sendmsg env then jdwp_process_free p s
      else let fd = out_fds x ! 0;
               x1 = x\<lparr>out_fds := shift_fds (out_count x) (out_fds x)\<rparr>;
               s1 = (set_proc p x1 s)\<lparr>passed := passed s @ [(j_socket x, fd)], jclosed := jclosed s @ [fd]\<rparr>
           in if \<not> restored env then jdwp_process_free p s1
              else Inr (set_proc p (x1\<lparr>out_count := out_count x - 1,
                     wants_write := (if out_count x - 1 = 0 then False else wants_write x)\<rparr>) s1))"

definition jdwp_process_event :: "send_env \<Rightarrow> nat \<Rightarrow> u16 \<Rightarrow> jstate \<Rightarrow> halt + jstate" where
  "jdwp_process_event env p evts s = sbind (deref_proc p s) (\<lambda>x.
     sbind (if has evts FDE_READ then (if j_pid x < 0 then event_pid p x s else event_rest p x s) else Inr (True, s)) (\<lambda>(go, s1).
       if go \<and> has evts FDE_WRITE then sbind (deref_proc p s1) (\<lambda>x1. event_write_fd env p x1 s1) else Inr s1))"

text \<open>\<open>fds\<close> is the new socket pair, \<open>None\<close> when there is none.\<close>

definition create_jdwp_connection_fd :: "int \<Rightarrow> (int \<times> int) option \<Rightarrow> jstate \<Rightarrow> int \<times> jstate" where
  "create_jdwp_connection_fd pid fds s =
     (case find (\<lambda>p. map_option j_pid (procs s p) = Some pid) (jdwp_list s) of
        None \<Rightarrow> (- 1, s)
      | Some p \<Rightarrow> (case procs s p of
          None \<Rightarrow> (- 1, s)
        | Some x \<Rightarrow>
            if out_count x \<ge> MAX_OUT_FDS then (- 1, s)
            else (case fds of
              None \<Rightarrow> (- 1, s)
            | Some (a, b) \<Rightarrow> (a, set_proc p (x\<lparr>out_fds := (out_fds x)[out_count x := b], out_count := out_count x + 1,
                 wants_write := (if out_count x + 1 = 1 then True else wants_write x)\<rparr>) s))))"

text \<open>\<open>accepted\<close> are the results of \<open>accept\<close>; only \<open>EINTR\<close> is tried again.\<close>

fun jdwp_control_event :: "nat \<Rightarrow> u16 \<Rightarrow> (errno + int) list \<Rightarrow> jstate \<Rightarrow> jstate" where
  "jdwp_control_event p evts [] s = s"
| "jdwp_control_event p evts (Inl e # rs) s =
     (if has evts FDE_READ \<and> e = EINTR then jdwp_control_event p evts rs s else s)"
| "jdwp_control_event p evts (Inr sock # rs) s = (if has evts FDE_READ then jdwp_process_alloc p sock s else s)"

section \<open>The services\<close>

text \<open>What a service socket asks of its peer.\<close>

datatype peer_call = Enqueue "byte list" | Close_peer

definition jdwp_socket_ready :: "nat \<Rightarrow> jstate \<Rightarrow> peer_call \<times> nat" where
  "jdwp_socket_ready pass s = (if pass = 0 then (Enqueue (jdwp_process_list MAX_PAYLOAD s), 1) else (Close_peer, pass))"

definition jdwp_socket_enqueue :: "int \<times> peer_call" where
  "jdwp_socket_enqueue = (- 1, Close_peer)"

definition jdwp_tracker_ready :: "bool \<Rightarrow> jstate \<Rightarrow> peer_call option \<times> bool" where
  "jdwp_tracker_ready need_update s =
     (if need_update then (Some (Enqueue (jdwp_process_list_msg MAX_PAYLOAD s)), False) else (None, False))"

definition create_jdwp_tracker_service_socket :: "nat \<Rightarrow> jstate \<Rightarrow> jstate" where
  "create_jdwp_tracker_service_socket t s = s\<lparr>jtrackers := jtrackers s @ [t]\<rparr>"

text \<open>Closing: a peer that is still connected is closed first; \<open>True\<close>: there is one.\<close>

definition jdwp_socket_close :: "bool \<Rightarrow> peer_call option" where
  "jdwp_socket_close connected = (if connected then Some Close_peer else None)"

definition jdwp_tracker_close :: "bool \<Rightarrow> nat \<Rightarrow> jstate \<Rightarrow> peer_call option \<times> jstate" where
  "jdwp_tracker_close connected t s =
     (if connected then Some Close_peer else None, s\<lparr>jtrackers := remove1 t (jtrackers s)\<rparr>)"

section \<open>The control socket\<close>

definition JDWP_CONTROL_NAME :: "byte list" where "JDWP_CONTROL_NAME = 0 # ascii ''jdwp-control''"

text \<open>\<open>sun_path\<close> has 108 bytes.  \<open>sk\<close> is the new socket; the other arguments say whether it can be bound and
  listened on, and whether there is memory for its event.  The result, the socket that is watched for clients, and
  what has been closed.\<close>

definition jdwp_control_init :: "int \<Rightarrow> bool \<Rightarrow> bool \<Rightarrow> bool \<Rightarrow> byte list \<Rightarrow> int \<times> int option \<times> int list" where
  "jdwp_control_init sk bound listening created sockname =
     (if length sockname \<ge> 108 then (- 1, None, [])
      else if sk < 0 then (- 1, None, [])
      else if \<not> bound then (- 1, None, [sk])
      else if \<not> listening then (- 1, None, [sk])
      else if \<not> created then (- 1, None, [sk])
      else (0, Some sk, []))"

text \<open>The start never leaks the socket: it is watched, or closed once.\<close>

lemma jdwp_control_init_keeps:
  "0 \<le> sk \<Longrightarrow> length sockname < 108 \<Longrightarrow> jdwp_control_init sk bound listening created sockname = (r, watched, gone) \<Longrightarrow>
     (r = 0 \<and> watched = Some sk \<and> gone = []) \<or> (r = - 1 \<and> watched = None \<and> gone = [sk])"
  by (auto simp: jdwp_control_init_def split: if_splits)

definition init_jdwp :: jstate where
  "init_jdwp = \<lparr>jdwp_list = [], procs = (\<lambda>_. None), jin = (\<lambda>_. []), jclosed = [], passed = [], jtrackers = [],
     tsent = [], broken = []\<rparr>"

end
