(* ===== verification/JdwpProps.thy ===== *)
theory JdwpProps
  imports Jdwp
begin

text \<open>
  Properties of the JDWP service: a process is registered with the pid that it writes, in whatever
  pieces; a pid with a sign makes the handler spin; the descriptors handed to a process are closed once,
  except when the last \<open>fcntl\<close> fails; the list of pids fits its buffer.
\<close>

section \<open>Reading the pid\<close>

text \<open>What a process writes: pieces, with interrupted calls in between.\<close>

definition polite :: "rd_ev list \<Rightarrow> bool" where
  "polite evs \<longleftrightarrow> (\<forall>e \<in> set evs. case e of Avail bs \<Rightarrow> bs \<noteq> [] | RdErr e \<Rightarrow> e = EINTR)"

lemma polite_Cons [simp]: "polite (Avail bs # evs) = (bs \<noteq> [] \<and> polite evs)" "polite (RdErr e # evs) = (e = EINTR \<and> polite evs)"
  "polite []"
  by (auto simp: polite_def)

lemma read_pid_polite:
  assumes "length buf \<le> 4" and "polite evs"
  shows "\<exists>evs'. read_pid buf evs = (if 4 \<le> length (buf @ pending evs) then Pid_full else Pid_again, take 4 (buf @ pending evs), evs')
    \<and> polite evs' \<and> pending evs' = drop 4 (buf @ pending evs)"
  using assms
proof (induction buf evs rule: read_pid.induct)
  case (1 buf evs)
  show ?case
  proof (cases "4 \<le> length buf")
    case True
    then show ?thesis using 1 by (subst read_pid.simps) auto
  next
    case False
    then have n: "0 < 4 - length buf" by simp
    show ?thesis
    proof (cases evs)
      case Nil
      then show ?thesis using False by (subst read_pid.simps) (auto simp: jrecv_Nil)
    next
      case (Cons e es)
      show ?thesis
      proof (cases e)
        case (RdErr x)
        then have r: "jrecv (4 - length buf) evs = (RdFail EINTR, es)" using Cons 1 by (simp add: jrecv_def)
        have "read_pid buf evs = read_pid buf es" using False r by (subst read_pid.simps) simp
        moreover have "pending evs = pending es" using Cons RdErr 1 by simp
        ultimately show ?thesis using 1(2) [OF False r [symmetric] refl refl] 1 Cons RdErr by auto
      next
        case (Avail bs)
        let ?n = "4 - length buf"
        define es' where "es' = (if length bs \<le> ?n then es else Avail (drop ?n bs) # es)"
        have r: "jrecv ?n evs = (Got (take ?n bs), es')" using Cons Avail 1 by (simp add: jrecv_def es'_def)
        have e: "read_pid buf evs = read_pid (buf @ take ?n bs) es'" using False r by (subst read_pid.simps) simp
        have p: "buf @ pending evs = (buf @ take ?n bs) @ pending es'" "polite es'"
          using Cons Avail 1 by (auto simp: es'_def)
        show ?thesis using 1(1) [OF False r [symmetric] refl] False p unfolding e by auto
      qed
    qed
  qed
qed

lemma drop_rest_polite: "polite evs \<Longrightarrow> \<exists>evs'. drop_rest evs = (False, evs')"
proof (induction evs rule: drop_rest.induct)
  case (1 evs)
  show ?case
  proof (cases evs)
    case Nil
    then show ?thesis by (subst drop_rest.simps) (simp add: jrecv_Nil)
  next
    case (Cons e es)
    show ?thesis
    proof (cases e)
      case (RdErr x)
      then have r: "jrecv 32 evs = (RdFail EINTR, es)" using Cons 1 by (simp add: jrecv_def)
      show ?thesis using 1(2) [OF r [symmetric] refl refl] 1(3) Cons RdErr r by (subst drop_rest.simps) simp
    next
      case (Avail bs)
      define es' where "es' = (if length bs \<le> 32 then es else Avail (drop 32 bs) # es)"
      have r: "jrecv 32 evs = (Got (take 32 bs), es')" using Cons Avail 1 by (simp add: jrecv_def es'_def)
      have "polite es'" using Cons Avail 1 by (auto simp: es'_def)
      then show ?thesis using 1(1) [OF r [symmetric] refl] r by (subst drop_rest.simps) simp
    qed
  qed
qed

section \<open>Hexadecimal pids\<close>

lemma hex_digit_safe:
  assumes "d < 16"
  shows "hex_digit d \<notin> {0, 45, 43, 120, 88}" and "\<not> is_space (hex_digit d)"
proof -
  have m: "d \<in> set [0..<16]" using assms by simp
  have "\<forall>d \<in> set [0..<16]. hex_digit d \<notin> {0, 45, 43, 120, 88} \<and> \<not> is_space (hex_digit d)"
    by (simp add: upt_rec hex_digit_def is_space_def)
  then show "hex_digit d \<notin> {0, 45, 43, 120, 88}" "\<not> is_space (hex_digit d)" using m by blast+
qed

lemma scan_hex4_hex4:
  assumes "n < 65536"
  shows "scan_hex4 (hex4 n) = Some (int n)"
proof -
  define a b c d where d: "a = n div 4096 mod 16" "b = n div 256 mod 16" "c = n div 16 mod 16" "d = n mod 16"
  have lt: "a < 16" "b < 16" "c < 16" "d < 16" by (simp_all add: d)
  have h: "hex4 n = [hex_digit a, hex_digit b, hex_digit c, hex_digit d]" by (simp add: hex4_def d)
  note s = hex_digit_safe [OF lt(1)] hex_digit_safe [OF lt(2)] hex_digit_safe [OF lt(3)] hex_digit_safe [OF lt(4)]
  have c0: "cstr (hex4 n) = hex4 n" by (rule cstr_id) (use s in \<open>auto simp: h\<close>)
  have t: "take 4 (dropWhile is_space (cstr (hex4 n))) = hex4 n" unfolding c0 using s by (simp add: h)
  have u: "unat (word_of_nat k :: u32) = k" if "k < 16" for k using that by (simp add: unsigned_of_nat take_bit_nat_eq_self)
  have "scan_digits (hex4 n) = Some (16 * (16 * (16 * a + b) + c) + d)"
    using lt u by (simp add: scan_digits_def h hex_value_digit)
  moreover have "16 * (16 * (16 * a + b) + c) + d = n"
  proof -
    have e: "n div 256 = n div 16 div 16" "n div 4096 = n div 16 div 16 div 16" by (simp_all add: div_mult2_eq [symmetric])
    have "n div 16 div 16 div 16 < 16" using assms by (simp add: div_mult2_eq [symmetric] less_mult_imp_div_less)
    then have "n div 16 div 16 div 16 mod 16 = n div 16 div 16 div 16" by simp
    then show ?thesis unfolding d e by simp
  qed
  ultimately have "scan_unsigned (hex4 n) = Some n"
    using s by (simp add: scan_unsigned_def h)
  then show ?thesis unfolding scan_hex4_def t using s by (simp add: h Let_def)
qed

section \<open>Registration\<close>

definition trackers_ok :: "jstate \<Rightarrow> bool" where
  "trackers_ok s \<longleftrightarrow> (\<forall>t \<in> set (jtrackers s). t \<notin> set (broken s))"

lemma notify_trackers_ok:
  "\<forall>t \<in> set ts. t \<notin> set (broken s) \<Longrightarrow> notify_trackers ts msg s = Inr (s\<lparr>tsent := tsent s @ map (\<lambda>t. (t, msg)) ts\<rparr>)"
  by (induction ts arbitrary: s) auto

lemma updated_ok:
  assumes "trackers_ok s"
  obtains s' where "jdwp_process_list_updated s = Inr s'" and "procs s' = procs s" and "jin s' = jin s"
    and "jclosed s' = jclosed s" and "jdwp_list s' = jdwp_list s" and "trackers_ok s'" and "passed s' = passed s"
  using assms notify_trackers_ok [of "jtrackers s" s "jdwp_process_list_msg 1024 s"]
  by (auto simp: jdwp_process_list_updated_def trackers_ok_def)

text \<open>The events of one process, each with what has arrived before it.\<close>

fun run_reads :: "nat \<Rightarrow> int \<Rightarrow> rd_ev list list \<Rightarrow> jstate \<Rightarrow> halt + jstate" where
  "run_reads p sock [] s = Inr s"
| "run_reads p sock (evs # later) s =
     sbind (jdwp_process_event \<lparr>getfl = True, setfl = True, sendmsg = True, restored = True\<rparr> p (ucast FDE_READ)
        (set_jin sock evs s)) (run_reads p sock later)"

lemma has_read [simp]: "has (ucast FDE_READ) FDE_READ" "\<not> has (ucast FDE_READ) FDE_WRITE"
  by (simp_all add: has_def FDE_READ_def FDE_WRITE_def)

lemma event_unknown:
  assumes x: "procs s p = Some x" "j_pid x < 0" "length (in_buff x) < 4" "jin s (j_socket x) = evs" and ev: "polite evs"
    and tr: "trackers_ok s" and total: "length (in_buff x @ pending evs) \<le> 4"
  shows "if length (in_buff x @ pending evs) < 4
    then \<exists>s'. jdwp_process_event env p (ucast FDE_READ) s = Inr s' \<and> trackers_ok s' \<and> procs s' p = Some (x\<lparr>in_buff := in_buff x @ pending evs\<rparr>)
    else \<forall>n. scan_hex4 (in_buff x @ pending evs) = Some n \<longrightarrow>
      (\<exists>s'. jdwp_process_event env p (ucast FDE_READ) s = Inr s' \<and> trackers_ok s'
        \<and> procs s' p = Some (x\<lparr>in_buff := in_buff x @ pending evs, j_pid := n\<rparr>))"
proof -
  let ?b = "in_buff x @ pending evs"
  obtain evs' where r: "read_pid (in_buff x) evs = (if 4 \<le> length ?b then Pid_full else Pid_again, take 4 ?b, evs')"
    using read_pid_polite [of "in_buff x" evs] x(3) ev by auto
  have t: "take 4 ?b = ?b" using total by simp
  let ?s1 = "set_jin (j_socket x) evs' (set_proc p (x\<lparr>in_buff := ?b\<rparr>) s)"
  have e: "jdwp_process_event env p (ucast FDE_READ) s = sbind (event_pid p x s) (\<lambda>(go, s1). Inr s1)"
    using x by (simp add: jdwp_process_event_def deref_proc_def)
  show ?thesis
  proof (cases "length ?b < 4")
    case True
    then have "event_pid p x s = Inr (False, ?s1)" using r t x(4) by (simp add: event_pid_def Let_def)
    then show ?thesis using True e tr by (simp add: set_jin_def set_proc_def trackers_ok_def)
  next
    case False
    let ?s2 = "\<lambda>n. set_proc p (x\<lparr>in_buff := ?b, j_pid := n\<rparr>) ?s1"
    have "\<exists>s'. jdwp_process_event env p (ucast FDE_READ) s = Inr s' \<and> trackers_ok s'
        \<and> procs s' p = Some (x\<lparr>in_buff := ?b, j_pid := n\<rparr>)" if n: "scan_hex4 ?b = Some n" for n
    proof -
      have tr2: "trackers_ok (?s2 n)" using tr by (simp add: set_jin_def set_proc_def trackers_ok_def)
      obtain s' where s': "jdwp_process_list_updated (?s2 n) = Inr s'" "procs s' = procs (?s2 n)" "trackers_ok s'"
        by (rule updated_ok [OF tr2])
      have "event_pid p x s = Inr (True, s')" using r t x(4) False n s'(1) by (simp add: event_pid_def Let_def)
      then show ?thesis using e s' by (simp add: set_jin_def set_proc_def)
    qed
    then show ?thesis using False by auto
  qed
qed

lemma event_known:
  assumes x: "procs s p = Some x" "j_pid x \<ge> 0" and ev: "polite (jin s (j_socket x))" and tr: "trackers_ok s"
  shows "\<exists>s'. jdwp_process_event env p (ucast FDE_READ) s = Inr s' \<and> trackers_ok s' \<and> procs s' p = Some x"
proof -
  obtain evs' where "drop_rest (jin s (j_socket x)) = (False, evs')" using drop_rest_polite [OF ev] by blast
  then show ?thesis
    using x tr by (simp add: jdwp_process_event_def deref_proc_def event_rest_def Let_def set_jin_def trackers_ok_def)
qed

lemma run_reads_known:
  assumes "procs s p = Some x" and "j_pid x \<ge> 0" and "\<forall>evs \<in> set evss. polite evs" and "trackers_ok s"
  shows "\<exists>s'. run_reads p (j_socket x) evss s = Inr s' \<and> procs s' p = Some x"
  using assms
proof (induction evss arbitrary: s)
  case (Cons evs evss)
  let ?s = "set_jin (j_socket x) evs s"
  have "procs ?s p = Some x" "polite (jin ?s (j_socket x))" "trackers_ok ?s"
    using Cons.prems by (simp_all add: set_jin_def trackers_ok_def)
  from event_known [OF this(1) Cons.prems(2) this(2,3)] obtain s1 where
    s1: "jdwp_process_event \<lparr>getfl = True, setfl = True, sendmsg = True, restored = True\<rparr> p (ucast FDE_READ) ?s = Inr s1"
    "trackers_ok s1" "procs s1 p = Some x" by blast
  from Cons.IH [OF s1(3) Cons.prems(2) _ s1(2)] Cons.prems(3) s1(1) show ?case by simp
qed simp

lemma run_reads_unknown:
  assumes "procs s p = Some x" and "j_pid x < 0" and "length (in_buff x) < 4" and "\<forall>evs \<in> set evss. polite evs" and "trackers_ok s"
    and "in_buff x @ concat (map pending evss) = bs" and "length bs = 4" and "scan_hex4 bs = Some n" and "n \<ge> 0"
  shows "\<exists>s'. run_reads p (j_socket x) evss s = Inr s' \<and> procs s' p = Some (x\<lparr>in_buff := bs, j_pid := n\<rparr>)"
  using assms
proof (induction evss arbitrary: s x)
  case Nil
  then show ?case by simp
next
  case (Cons evs evss)
  let ?s = "set_jin (j_socket x) evs s"
  let ?env = "\<lparr>getfl = True, setfl = True, sendmsg = True, restored = True\<rparr>"
  have tr: "procs ?s p = Some x" "jin ?s (j_socket x) = evs" "trackers_ok ?s"
    using Cons.prems by (simp_all add: set_jin_def trackers_ok_def)
  have le: "length (in_buff x @ pending evs) \<le> 4" using Cons.prems(6,7) by auto
  note ev = event_unknown [OF tr(1) Cons.prems(2,3) tr(2) _ tr(3) le, of ?env]
  show ?case
  proof (cases "length (in_buff x @ pending evs) < 4")
    case True
    obtain s1 where s1: "jdwp_process_event ?env p (ucast FDE_READ) ?s = Inr s1" "trackers_ok s1"
      "procs s1 p = Some (x\<lparr>in_buff := in_buff x @ pending evs\<rparr>)"
      using ev True Cons.prems(4) by auto
    let ?x = "x\<lparr>in_buff := in_buff x @ pending evs\<rparr>"
    have "\<exists>s'. run_reads p (j_socket ?x) evss s1 = Inr s' \<and> procs s' p = Some (?x\<lparr>in_buff := bs, j_pid := n\<rparr>)"
      by (rule Cons.IH [OF s1(3)]) (use Cons.prems True s1(2) in auto)
    then show ?thesis using s1(1) by simp
  next
    case False
    have cat: "in_buff x @ pending evs @ concat (map pending evss) = bs" using Cons.prems(6) by simp
    have "length (in_buff x) + (length (pending evs) + length (concat (map pending evss))) = 4"
      using arg_cong [OF cat, of length] Cons.prems(7) by simp
    moreover have "length (in_buff x) + length (pending evs) \<ge> 4" using False by simp
    ultimately have "length (concat (map pending evss)) = 0" by linarith
    then have all2: "concat (map pending evss) = []" by (simp only: length_0_conv)
    then have all: "in_buff x @ pending evs = bs" using cat unfolding all2 by simp
    obtain s1 where s1: "jdwp_process_event ?env p (ucast FDE_READ) ?s = Inr s1" "trackers_ok s1"
      "procs s1 p = Some (x\<lparr>in_buff := bs, j_pid := n\<rparr>)"
      using ev False Cons.prems(4,8) all by auto
    have "\<exists>s'. run_reads p (j_socket (x\<lparr>in_buff := bs, j_pid := n\<rparr>)) evss s1 = Inr s' \<and> procs s' p = Some (x\<lparr>in_buff := bs, j_pid := n\<rparr>)"
      by (rule run_reads_known [OF s1(3)]) (use Cons.prems(4,9) s1(2) in simp_all)
    then show ?thesis using s1(1) by simp
  qed
qed

text \<open>C34. A Java process that writes its pid as four hexadecimal digits is registered with that pid,
  however the digits are split over reads, interrupted calls and events.\<close>

theorem pid_registered:
  assumes "procs s p = Some x" and "j_pid x = - 1" and "in_buff x = []" and "trackers_ok s"
    and "\<forall>evs \<in> set evss. polite evs" and "concat (map pending evss) = hex4 n" and "n < 65536"
  shows "\<exists>s'. run_reads p (j_socket x) evss s = Inr s' \<and> procs s' p = Some (x\<lparr>in_buff := hex4 n, j_pid := int n\<rparr>)"
  by (rule run_reads_unknown [OF assms(1)]) (use assms scan_hex4_hex4 [OF assms(7)] in auto)

lemma pid_registered_witness:
  "\<exists>s' x. run_reads 7 5 [[Avail [48]], [], [RdErr EINTR, Avail [49, 97], Avail [50]], []] (jdwp_process_alloc 7 5 init_jdwp) = Inr s'
     \<and> procs s' 7 = Some x \<and> j_pid x = 418"
proof -
  let ?x = "\<lparr>j_pid = - 1, j_socket = 5, in_buff = [], out_fds = replicate MAX_OUT_FDS 0, out_count = 0, wants_write = False\<rparr>"
  have "\<exists>s'. run_reads 7 (j_socket ?x) [[Avail [48]], [], [RdErr EINTR, Avail [49, 97], Avail [50]], []]
      (jdwp_process_alloc 7 5 init_jdwp) = Inr s' \<and> procs s' 7 = Some (?x\<lparr>in_buff := hex4 418, j_pid := int 418\<rparr>)"
    by (rule pid_registered)
      (simp_all add: jdwp_process_alloc_def init_jdwp_def trackers_ok_def hex4_def hex_digit_def)
  then show ?thesis by auto
qed

text \<open>A pid with a sign makes the handler spin: the four characters are decoded to a negative number, by
  which the process is taken to have no pid yet, and every further event decodes them again without
  reading from the connection, not even its end.\<close>

theorem negative_pid_spins:
  assumes "procs s p = Some x" and "j_pid x < 0" and "length (in_buff x) = 4" and "scan_hex4 (in_buff x) = Some n" and "n < 0"
    and "trackers_ok s"
  shows "\<exists>s'. jdwp_process_event env p (ucast FDE_READ) s = Inr s' \<and> procs s' p = Some (x\<lparr>j_pid := n\<rparr>) \<and> jin s' = jin s
    \<and> jclosed s' = jclosed s"
proof -
  let ?s = "set_proc p (x\<lparr>j_pid := n\<rparr>) (set_jin (j_socket x) (jin s (j_socket x)) (set_proc p x s))"
  have tr: "trackers_ok ?s" using assms(6) by (simp add: trackers_ok_def set_proc_def set_jin_def)
  obtain s' where s': "jdwp_process_list_updated ?s = Inr s'" "procs s' = procs ?s" "jin s' = jin ?s" "jclosed s' = jclosed ?s"
    by (rule updated_ok [OF tr])
  have "read_pid (in_buff x) (jin s (j_socket x)) = (Pid_full, in_buff x, jin s (j_socket x))"
    using assms(3) by (subst read_pid.simps) simp
  then show ?thesis
    using assms s' by (simp add: jdwp_process_event_def deref_proc_def event_pid_def Let_def set_proc_def set_jin_def)
qed

lemma negative_pid_spins_witness:
  "\<exists>s'. jdwp_process_event \<lparr>getfl = True, setfl = True, sendmsg = True, restored = True\<rparr> 7 (ucast FDE_READ)
      (init_jdwp\<lparr>procs := [7 \<mapsto> \<lparr>j_pid = - 1, j_socket = 5, in_buff = ascii ''-001'', out_fds = [0, 0, 0, 0], out_count = 0,
         wants_write = False\<rparr>], jin := (\<lambda>_. [Avail []])\<rparr>) = Inr s' \<and> jin s' 5 = [Avail []]"
proof -
  let ?x = "\<lparr>j_pid = - 1, j_socket = 5, in_buff = ascii ''-001'', out_fds = [0, 0, 0, 0], out_count = 0, wants_write = False\<rparr>"
  have sc: "scan_hex4 (in_buff ?x) = Some (- 1)"
    by (simp add: scan_hex4_def ascii_def cstr_def is_space_def scan_unsigned_def scan_digits_def hex_value_def Let_def)
  show ?thesis
    using negative_pid_spins [of "init_jdwp\<lparr>procs := [7 \<mapsto> ?x], jin := (\<lambda>_. [Avail []])\<rparr>" 7 ?x "- 1"
        "\<lparr>getfl = True, setfl = True, sendmsg = True, restored = True\<rparr>"] sc
    by (auto simp: init_jdwp_def trackers_ok_def)
qed

section \<open>Descriptors\<close>

text \<open>The descriptors that wait to be passed to a process.\<close>

definition waiting :: "jproc \<Rightarrow> int list" where
  "waiting x = take (out_count x) (out_fds x)"

definition held :: "jstate \<Rightarrow> int multiset" where
  "held s = mset (concat (map (\<lambda>p. case procs s p of None \<Rightarrow> [] | Some x \<Rightarrow> waiting x) (jdwp_list s)))"

definition jdwp_ok :: "jstate \<Rightarrow> bool" where
  "jdwp_ok s \<longleftrightarrow> distinct (jdwp_list s) \<and> (\<forall>p \<in> set (jdwp_list s). \<exists>x. procs s p = Some x \<and> length (out_fds x) = MAX_OUT_FDS
     \<and> out_count x \<le> MAX_OUT_FDS)"

lemma held_split:
  assumes "distinct (jdwp_list s)" and "p \<in> set (jdwp_list s)" and "procs s p = Some x"
  shows "held s = mset (waiting x) + held (s\<lparr>jdwp_list := remove1 p (jdwp_list s)\<rparr>)"
proof -
  have "mset (concat (map f xs)) = mset (f p) + mset (concat (map f (remove1 p xs)))" if "p \<in> set xs" for f :: "nat \<Rightarrow> int list" and xs
    using that by (induction xs) auto
  from this [OF assms(2), of "\<lambda>p. case procs s p of None \<Rightarrow> [] | Some x \<Rightarrow> waiting x"] show ?thesis
    using assms(3) by (simp add: held_def)
qed

lemma held_other:
  assumes "distinct (jdwp_list s)" and "\<And>q. q \<noteq> p \<Longrightarrow> procs s' q = procs s q" and "jdwp_list s' = jdwp_list s"
  shows "held (s'\<lparr>jdwp_list := remove1 p (jdwp_list s)\<rparr>) = held (s\<lparr>jdwp_list := remove1 p (jdwp_list s)\<rparr>)"
proof -
  have "map (\<lambda>p. case procs s' p of None \<Rightarrow> [] | Some x \<Rightarrow> waiting x) (remove1 p (jdwp_list s))
      = map (\<lambda>p. case procs s p of None \<Rightarrow> [] | Some x \<Rightarrow> waiting x) (remove1 p (jdwp_list s))"
    by (rule map_cong [OF refl]) (use assms in \<open>auto simp: set_remove1_eq\<close>)
  then show ?thesis by (simp add: held_def del: map_eq_conv)
qed

lemma free_held:
  assumes ok: "jdwp_ok s" and p: "p \<in> set (jdwp_list s)" and x: "procs s p = Some x" and r: "jdwp_process_free p s = Inr s'"
  shows "jclosed s' = jclosed s @ (if j_socket x \<ge> 0 then [j_socket x] else []) @ waiting x"
    and "held s = mset (waiting x) + held s'" and "jdwp_ok s'"
proof -
  let ?s = "s\<lparr>jdwp_list := remove1 p (jdwp_list s), procs := (procs s)(p := None),
       jclosed := jclosed s @ (if j_socket x \<ge> 0 then [j_socket x] else []) @ take (out_count x) (out_fds x)\<rparr>"
  have d: "distinct (jdwp_list s)" using ok by (simp add: jdwp_ok_def)
  have u: "jdwp_process_list_updated ?s = Inr s'" using r x by (simp add: jdwp_process_free_def deref_proc_def)
  have n: "notify_trackers ts msg s1 = Inr s2 \<Longrightarrow> procs s2 = procs s1 \<and> jdwp_list s2 = jdwp_list s1 \<and> jclosed s2 = jclosed s1"
    for ts msg s1 s2 by (induction ts arbitrary: s1) (auto split: if_splits)
  then have s': "procs s' = procs ?s" "jdwp_list s' = jdwp_list ?s" "jclosed s' = jclosed ?s"
    using u unfolding jdwp_process_list_updated_def by blast+
  show "jclosed s' = jclosed s @ (if j_socket x \<ge> 0 then [j_socket x] else []) @ waiting x" by (simp add: s' waiting_def)
  have "held s' = held (s\<lparr>jdwp_list := remove1 p (jdwp_list s)\<rparr>)"
    using held_other [OF d, of p "s\<lparr>procs := (procs s)(p := None)\<rparr>"] by (simp add: held_def s')
  then show "held s = mset (waiting x) + held s'" using held_split [OF d p x] by simp
  show "jdwp_ok s'" using ok d by (auto simp: jdwp_ok_def s')
qed

lemma shift_fds_nth:
  assumes "n \<le> length xs"
  shows "length (shift_fds n xs) = length xs" and "i < length xs \<Longrightarrow> shift_fds n xs ! i = (if i + 1 < n then xs ! (i + 1) else xs ! i)"
proof -
  have "length (fold (\<lambda>i ys. ys[i - 1 := ys ! i]) [1..<k] xs) = length xs
    \<and> (\<forall>i < length xs. fold (\<lambda>i ys. ys[i - 1 := ys ! i]) [1..<k] xs ! i = (if i + 1 < k then xs ! (i + 1) else xs ! i))"
    if "k \<le> n" for k
    using that
  proof (induction k)
    case (Suc k)
    show ?case
    proof (cases "1 \<le> k")
      case True
      let ?ys = "fold (\<lambda>i ys. ys[i - 1 := ys ! i]) [1..<k] xs"
      have "fold (\<lambda>i ys. ys[i - 1 := ys ! i]) [1..<Suc k] xs = ?ys[k - 1 := ?ys ! k]" using True by simp
      then show ?thesis using Suc True assms by (auto simp: nth_list_update)
    qed simp
  qed simp
  then show "length (shift_fds n xs) = length xs" "i < length xs \<Longrightarrow> shift_fds n xs ! i = (if i + 1 < n then xs ! (i + 1) else xs ! i)"
    by (auto simp: shift_fds_def)
qed

lemma shift_waiting:
  assumes "0 < n" and "n \<le> length xs"
  shows "take (n - 1) (shift_fds n xs) = tl (take n xs)"
  by (rule nth_equalityI) (use assms shift_fds_nth [of n xs] in \<open>auto simp: nth_tl\<close>)

lemma shift_all:
  assumes "0 < n" and "n \<le> length xs"
  shows "take n (shift_fds n xs) = tl (take n xs) @ [xs ! (n - 1)]"
proof -
  have "take n (shift_fds n xs) = take (n - 1) (shift_fds n xs) @ [shift_fds n xs ! (n - 1)]"
    using assms shift_fds_nth(1) [OF assms(2)] take_Suc_conv_app_nth [of "n - 1" "shift_fds n xs"] by simp
  then show ?thesis using assms shift_fds_nth(2) [OF assms(2), of "n - 1"] shift_waiting [OF assms] by simp
qed

lemma write_closes_once:
  assumes ok: "jdwp_ok s" and p: "p \<in> set (jdwp_list s)" and x: "procs s p = Some x" and env: "restored env"
    and w: "event_write_fd env p x s = Inr s'"
  shows "jdwp_ok s' \<and> (\<exists>conn. conn \<in> {[], [j_socket x]} \<and> mset (jclosed s') + held s' = mset (jclosed s) + held s + mset conn)
    \<and> (0 < out_count x \<and> getfl env \<and> setfl env \<and> sendmsg env \<longrightarrow>
        passed s' = passed s @ [(j_socket x, hd (waiting x))] \<and> procs s' p = Some (x\<lparr>out_fds := shift_fds (out_count x) (out_fds x),
          out_count := out_count x - 1, wants_write := (out_count x \<noteq> 1 \<and> wants_write x)\<rparr>))"
proof -
  have d: "distinct (jdwp_list s)" and l: "length (out_fds x) = MAX_OUT_FDS" "out_count x \<le> MAX_OUT_FDS"
    using ok p x by (auto simp: jdwp_ok_def)
  consider (none) "out_count x = 0" | (fail) "0 < out_count x" "\<not> (getfl env \<and> setfl env \<and> sendmsg env)"
    | (pass) "0 < out_count x" "getfl env" "setfl env" "sendmsg env" by auto
  then show ?thesis
  proof cases
    case none
    then have "s' = s" using w by (simp add: event_write_fd_def)
    then show ?thesis using ok none by auto
  next
    case fail
    then have f: "jdwp_process_free p s = Inr s'" using w by (simp add: event_write_fd_def)
    note h = free_held [OF ok p x f]
    have "mset (jclosed s') + held s' = mset (jclosed s) + held s + mset (if j_socket x \<ge> 0 then [j_socket x] else [])"
      unfolding h(1) h(2) by simp
    then show ?thesis using fail h(3) by auto
  next
    case pass
    let ?n = "out_count x"
    define x2 where "x2 = x\<lparr>out_fds := shift_fds ?n (out_fds x), out_count := ?n - 1,
        wants_write := (if ?n - 1 = 0 then False else wants_write x)\<rparr>"
    have s': "s' = s\<lparr>passed := passed s @ [(j_socket x, out_fds x ! 0)], jclosed := jclosed s @ [out_fds x ! 0], procs := (procs s)(p \<mapsto> x2)\<rparr>"
      using w pass env by (simp add: event_write_fd_def Let_def set_proc_def x2_def)
    have wx: "waiting x = out_fds x ! 0 # waiting x2"
      using pass l shift_waiting [of ?n "out_fds x"] nth_take [of 0 ?n "out_fds x"] by (cases "take ?n (out_fds x)") (auto simp: waiting_def x2_def nth_Cons_0 hd_conv_nth take_Cons')
    have "held s' = mset (waiting x2) + held (s\<lparr>jdwp_list := remove1 p (jdwp_list s)\<rparr>)"
      using held_split [of s' p x2] held_other [OF d, of p s'] d p by (simp add: s')
    moreover have "held s = mset (waiting x) + held (s\<lparr>jdwp_list := remove1 p (jdwp_list s)\<rparr>)" by (rule held_split [OF d p x])
    ultimately have "mset (jclosed s') + held s' = mset (jclosed s) + held s + mset []" by (simp add: s' wx)
    moreover have "jdwp_ok s'" using ok l shift_fds_nth(1) [of ?n "out_fds x"] by (auto simp: jdwp_ok_def s' x2_def)
    moreover have "passed s' = passed s @ [(j_socket x, hd (waiting x))]" by (simp add: s' wx)
    ultimately show ?thesis using pass by (auto simp: s' x2_def)
  qed
qed

text \<open>The part for \<open>FDE_READ\<close>: either the process is gone, or its descriptors wait as before.\<close>

lemma notify_frame: "notify_trackers ts msg s1 = Inr s2
    \<Longrightarrow> procs s2 = procs s1 \<and> jdwp_list s2 = jdwp_list s1 \<and> jclosed s2 = jclosed s1"
  by (induction ts arbitrary: s1) (auto split: if_splits)

lemma same_waiting:
  assumes ok: "jdwp_ok s" and p: "p \<in> set (jdwp_list s)" and x: "procs s p = Some x"
    and s': "procs s' = (procs s)(p \<mapsto> x')" "jdwp_list s' = jdwp_list s"
    and x': "out_fds x' = out_fds x" "out_count x' = out_count x"
  shows "jdwp_ok s'" "held s' = held s"
proof -
  have d: "distinct (jdwp_list s)" using ok by (simp add: jdwp_ok_def)
  show "jdwp_ok s'" using ok x p by (auto simp: jdwp_ok_def s' x')
  have "held (s'\<lparr>jdwp_list := remove1 p (jdwp_list s)\<rparr>) = held (s\<lparr>jdwp_list := remove1 p (jdwp_list s)\<rparr>)"
    by (rule held_other [OF d]) (simp_all add: s')
  then show "held s' = held s"
    using held_split [OF d p x] held_split [of s' p x'] d p by (simp add: s' waiting_def x')
qed

lemma freed_closes_once:
  assumes ok: "jdwp_ok s" and p: "p \<in> set (jdwp_list s)" and x: "procs s p = Some x" and r: "jdwp_process_free p s = Inr s'"
  shows "jdwp_ok s' \<and> (\<exists>conn. conn \<in> {[], [j_socket x]} \<and> mset (jclosed s') + held s' = mset (jclosed s) + held s + mset conn)"
proof -
  note h = free_held [OF assms]
  have "mset (jclosed s') + held s' = mset (jclosed s) + held s + mset (if j_socket x \<ge> 0 then [j_socket x] else [])"
    unfolding h(1) h(2) by simp
  then show ?thesis using h(3) by auto
qed

lemma read_closes_once:
  assumes ok: "jdwp_ok s" and p: "p \<in> set (jdwp_list s)" and x: "procs s p = Some x"
    and r: "(if j_pid x < 0 then event_pid p x s else event_rest p x s) = Inr (go, s1)"
  shows "jdwp_ok s1 \<and> (if go then p \<in> set (jdwp_list s1) \<and> jclosed s1 = jclosed s \<and> held s1 = held s
        \<and> (\<exists>x1. procs s1 p = Some x1 \<and> j_socket x1 = j_socket x)
      else \<exists>conn. conn \<in> {[], [j_socket x]} \<and> mset (jclosed s1) + held s1 = mset (jclosed s) + held s + mset conn)"
proof -
  let ?t = "\<lambda>x' evs. set_jin (j_socket x) evs (set_proc p x' s)"
  have t: "jdwp_ok (?t x' evs)" "held (?t x' evs) = held s" "procs (?t x' evs) p = Some x'" "jdwp_list (?t x' evs) = jdwp_list s"
    "jclosed (?t x' evs) = jclosed s" if "out_fds x' = out_fds x" "out_count x' = out_count x" for x' evs
    using same_waiting [OF ok p x _ _ that, of "?t x' evs"] by (simp_all add: set_jin_def set_proc_def)
  show ?thesis
  proof (cases "j_pid x < 0")
    case False
    obtain c evs where c: "drop_rest (jin s (j_socket x)) = (c, evs)" by (cases "drop_rest (jin s (j_socket x))")
    have e: "?t x evs = set_jin (j_socket x) evs s" using x by (simp add: set_proc_def map_upd_triv)
    have "jdwp_ok (set_jin (j_socket x) evs s)" "held (set_jin (j_socket x) evs s) = held s"
      using t [of x evs] unfolding e by simp_all
    moreover have "procs (set_jin (j_socket x) evs s) p = Some x" "jdwp_list (set_jin (j_socket x) evs s) = jdwp_list s"
      "jclosed (set_jin (j_socket x) evs s) = jclosed s" using x by (simp_all add: set_jin_def)
    ultimately show ?thesis
      using r False c p freed_closes_once [of "set_jin (j_socket x) evs s" p x s1]
      by (auto simp: event_rest_def Let_def sbind_Inr_iff split: if_splits)
  next
    case True
    obtain q buf evs where q: "read_pid (in_buff x) (jin s (j_socket x)) = (q, buf, evs)"
      by (cases "read_pid (in_buff x) (jin s (j_socket x))") auto
    let ?x1 = "x\<lparr>in_buff := buf\<rparr>"
    note t1 = t [of ?x1 evs, simplified]
    have fr: ?thesis if "jdwp_process_free p (?t ?x1 evs) = Inr s1" "\<not> go"
      using freed_closes_once [OF t1(1) _ t1(3) that(1)] p that(2) t1(2,4,5) by simp
    show ?thesis
    proof (cases q)
      case Pid_again
      then show ?thesis using r True q t1 by (auto simp: event_pid_def Let_def)
    next
      case Pid_closed
      then show ?thesis using r True q fr by (auto simp: event_pid_def Let_def sbind_Inr_iff)
    next
      case Pid_full
      show ?thesis
      proof (cases "scan_hex4 buf")
        case None
        then show ?thesis using r True q fr Pid_full by (auto simp: event_pid_def Let_def sbind_Inr_iff)
      next
        case (Some n)
        let ?s2 = "set_proc p (?x1\<lparr>j_pid := n\<rparr>) (?t ?x1 evs)"
        have u: "jdwp_process_list_updated ?s2 = Inr s1" go
          using r True q Pid_full Some by (auto simp: event_pid_def Let_def sbind_Inr_iff)
        then have f: "procs s1 = procs ?s2" "jdwp_list s1 = jdwp_list ?s2" "jclosed s1 = jclosed ?s2"
          using notify_frame unfolding jdwp_process_list_updated_def by blast+
        have "jdwp_ok s1" "held s1 = held s"
          using same_waiting [OF ok p x, of s1 "?x1\<lparr>j_pid := n\<rparr>"] f by (simp_all add: set_proc_def set_jin_def)
        then show ?thesis using u(2) f p by (simp add: set_proc_def set_jin_def)
      qed
    qed
  qed
qed

text \<open>C33. Provided the flags of the connection can be restored after a descriptor has been passed (\<open>restored\<close>: the second
  \<open>fcntl(F_SETFL)\<close> succeeds), a descriptor that is handed to a Java process is closed exactly once: every event of the
  process, for reading, for writing or for both, moves descriptors from the waiting ones to the closed ones, and closes
  nothing else but, at most once, the connection of the process.  An event for writing alone passes the first
  waiting descriptor and moves the others up.\<close>

theorem descriptors_closed_once:
  assumes ok: "jdwp_ok s" and p: "p \<in> set (jdwp_list s)" and x: "procs s p = Some x" and env: "restored env"
    and r: "jdwp_process_event env p evts s = Inr s'"
  shows "jdwp_ok s' \<and> (\<exists>conn. conn \<in> {[], [j_socket x]} \<and> mset (jclosed s') + held s' = mset (jclosed s) + held s + mset conn)
    \<and> (has evts FDE_WRITE \<and> \<not> has evts FDE_READ \<and> 0 < out_count x \<and> getfl env \<and> setfl env \<and> sendmsg env \<longrightarrow>
        passed s' = passed s @ [(j_socket x, hd (waiting x))] \<and> procs s' p = Some (x\<lparr>out_fds := shift_fds (out_count x) (out_fds x),
          out_count := out_count x - 1, wants_write := (out_count x \<noteq> 1 \<and> wants_write x)\<rparr>))"
proof (cases "has evts FDE_READ")
  case False
  then have "if has evts FDE_WRITE then event_write_fd env p x s = Inr s' else s' = s"
    using r x by (auto simp: jdwp_process_event_def deref_proc_def)
  then show ?thesis using write_closes_once [OF ok p x env, of s'] ok by (cases "has evts FDE_WRITE") auto
next
  case True
  then obtain go s1 where g: "(if j_pid x < 0 then event_pid p x s else event_rest p x s) = Inr (go, s1)"
    "if go \<and> has evts FDE_WRITE then sbind (deref_proc p s1) (\<lambda>x1. event_write_fd env p x1 s1) = Inr s' else s' = s1"
    using r x by (auto simp: jdwp_process_event_def deref_proc_def sbind_Inr_iff split: if_splits)
  note rd = read_closes_once [OF ok p x g(1)]
  show ?thesis
  proof (cases go)
    case False
    then show ?thesis using rd g(2) True by simp
  next
    case go: True
    then obtain x1 where x1: "procs s1 p = Some x1" "j_socket x1 = j_socket x" and i: "jdwp_ok s1" "p \<in> set (jdwp_list s1)"
      "jclosed s1 = jclosed s" "held s1 = held s" using rd by auto
    show ?thesis
    proof (cases "has evts FDE_WRITE")
      case False
      then show ?thesis using g(2) i True by auto
    next
      case w: True
      then have "event_write_fd env p x1 s1 = Inr s'" using g(2) go x1 by (simp add: deref_proc_def)
      from write_closes_once [OF i(1,2) x1(1) env this] show ?thesis using True x1(2) i(3,4) by auto
    qed
  qed
qed

definition jdwp_sample :: jstate where
  "jdwp_sample = snd (create_jdwp_connection_fd (- 1) (Some (20, 21)) (jdwp_process_alloc 7 5 init_jdwp))"

lemma jdwp_sample_eq: "jdwp_list jdwp_sample = [7]" "jclosed jdwp_sample = []" "passed jdwp_sample = []" "trackers_ok jdwp_sample"
  "procs jdwp_sample = [7 \<mapsto> \<lparr>j_pid = - 1, j_socket = 5, in_buff = [], out_fds = [21, 0, 0, 0], out_count = 1, wants_write = True\<rparr>]"
  by (simp_all add: jdwp_sample_def create_jdwp_connection_fd_def jdwp_process_alloc_def init_jdwp_def MAX_OUT_FDS_def
      set_proc_def trackers_ok_def numeral_eq_Suc)

lemma descriptors_closed_once_witness:
  "\<exists>s'. jdwp_process_event \<lparr>getfl = True, setfl = True, sendmsg = True, restored = True\<rparr> 7 (ucast FDE_WRITE) jdwp_sample = Inr s'
     \<and> passed s' = [(5, 21)] \<and> jdwp_ok s'"
proof -
  let ?env = "\<lparr>getfl = True, setfl = True, sendmsg = True, restored = True\<rparr>"
  let ?x = "\<lparr>j_pid = - 1, j_socket = 5, in_buff = [], out_fds = [21, 0, 0, 0], out_count = 1, wants_write = True\<rparr>"
  have ev: "has (ucast FDE_WRITE) FDE_WRITE" "\<not> has (ucast FDE_WRITE) FDE_READ" by (simp_all add: has_def FDE_READ_def FDE_WRITE_def)
  have ok: "jdwp_ok jdwp_sample" by (simp add: jdwp_ok_def jdwp_sample_eq MAX_OUT_FDS_def)
  have "\<exists>s'. jdwp_process_event ?env 7 (ucast FDE_WRITE) jdwp_sample = Inr s'"
    using ev by (simp add: jdwp_process_event_def deref_proc_def jdwp_sample_eq event_write_fd_def Let_def)
  then obtain s' where s': "jdwp_process_event ?env 7 (ucast FDE_WRITE) jdwp_sample = Inr s'" by blast
  from descriptors_closed_once [OF ok _ _ _ s', of ?x] show ?thesis using s' ev by (auto simp: jdwp_sample_eq waiting_def)
qed

text \<open>When the flags of the connection cannot be restored after a descriptor has been passed, the last
  descriptor of the process is closed twice, since the count is not decremented before the process is
  freed.\<close>

theorem descriptor_closed_twice:
  assumes ok: "jdwp_ok s" and p: "p \<in> set (jdwp_list s)" and x: "procs s p = Some x" "0 < out_count x"
    and env: "getfl env" "setfl env" "sendmsg env" "\<not> restored env"
    and ev: "has evts FDE_WRITE" "\<not> has evts FDE_READ" and r: "jdwp_process_event env p evts s = Inr s'"
  shows "jclosed s' = jclosed s @ [hd (waiting x)] @ (if j_socket x \<ge> 0 then [j_socket x] else []) @ tl (waiting x) @ [last (waiting x)]"
proof -
  have l: "length (out_fds x) = MAX_OUT_FDS" "out_count x \<le> MAX_OUT_FDS" using ok p x by (auto simp: jdwp_ok_def)
  let ?n = "out_count x"
  let ?x1 = "x\<lparr>out_fds := shift_fds ?n (out_fds x)\<rparr>"
  let ?s1 = "(set_proc p ?x1 s)\<lparr>passed := passed s @ [(j_socket x, out_fds x ! 0)], jclosed := jclosed s @ [out_fds x ! 0]\<rparr>"
  have f: "jdwp_process_free p ?s1 = Inr s'"
    using r x ev env by (simp add: jdwp_process_event_def deref_proc_def event_write_fd_def Let_def)
  have "jdwp_ok ?s1" using ok l shift_fds_nth(1) [of ?n "out_fds x"] by (auto simp: jdwp_ok_def set_proc_def)
  from free_held(1) [OF this _ _ f, of ?x1] p
  have "jclosed s' = jclosed s @ [out_fds x ! 0] @ (if j_socket x \<ge> 0 then [j_socket x] else []) @ waiting ?x1"
    by (simp add: set_proc_def)
  moreover have "waiting ?x1 = tl (waiting x) @ [out_fds x ! (?n - 1)]" using shift_all [of ?n "out_fds x"] x(2) l by (simp add: waiting_def)
  moreover have "hd (waiting x) = out_fds x ! 0" "last (waiting x) = out_fds x ! (?n - 1)"
  proof -
    have ne: "waiting x \<noteq> []" "length (waiting x) = ?n" using x(2) l by (auto simp: waiting_def MAX_OUT_FDS_def)
    show "hd (waiting x) = out_fds x ! 0" using x(2) by (simp add: hd_conv_nth [OF ne(1)]) (simp add: waiting_def)
    show "last (waiting x) = out_fds x ! (?n - 1)" using x(2) ne(2) by (simp add: last_conv_nth [OF ne(1)]) (simp add: waiting_def)
  qed
  ultimately show ?thesis by simp
qed

lemma descriptor_closed_twice_witness:
  "\<exists>s'. jdwp_process_event \<lparr>getfl = True, setfl = True, sendmsg = True, restored = False\<rparr> 7 (ucast FDE_WRITE) jdwp_sample = Inr s'
     \<and> jclosed s' = [21, 5, 21]"
proof -
  let ?env = "\<lparr>getfl = True, setfl = True, sendmsg = True, restored = False\<rparr>"
  let ?x = "\<lparr>j_pid = - 1, j_socket = 5, in_buff = [], out_fds = [21, 0, 0, 0], out_count = 1, wants_write = True\<rparr>"
  have ev: "has (ucast FDE_WRITE) FDE_WRITE" "\<not> has (ucast FDE_WRITE) FDE_READ" by (simp_all add: has_def FDE_READ_def FDE_WRITE_def)
  have ok: "jdwp_ok jdwp_sample" by (simp add: jdwp_ok_def jdwp_sample_eq MAX_OUT_FDS_def)
  have "jtrackers jdwp_sample = []" by (simp add: jdwp_sample_def create_jdwp_connection_fd_def jdwp_process_alloc_def init_jdwp_def set_proc_def)
  then have "\<exists>s'. jdwp_process_event ?env 7 (ucast FDE_WRITE) jdwp_sample = Inr s'"
    using ev by (simp add: jdwp_process_event_def deref_proc_def jdwp_sample_eq event_write_fd_def Let_def jdwp_process_free_def
        set_proc_def jdwp_process_list_updated_def)
  then obtain s' where s': "jdwp_process_event ?env 7 (ucast FDE_WRITE) jdwp_sample = Inr s'" by blast
  from descriptor_closed_twice [OF ok _ _ _ _ _ _ _ ev s', of ?x] show ?thesis using s' by (auto simp: jdwp_sample_eq waiting_def)
qed

section \<open>The list of pids\<close>

definition pid_line :: "int \<Rightarrow> byte list" where
  "pid_line p = decimal (nat p) @ [10]"

lemma pid_lines_prefix:
  assumes "0 < n" and "ps = filter (\<lambda>p. p \<ge> 0) qs"
  shows "\<exists>k \<le> length ps. pid_lines n qs = concat (map pid_line (take k ps)) \<and> length (pid_lines n qs) < n
    \<and> (k < length ps \<longrightarrow> n \<le> length (concat (map pid_line (take (Suc k) ps))))"
  using assms
proof (induction qs arbitrary: n ps)
  case (Cons q qs)
  show ?case
  proof (cases "q < 0")
    case True
    then show ?thesis using Cons by simp
  next
    case False
    define qs' where "qs' = filter (\<lambda>p. p \<ge> 0) qs"
    have ps: "ps = q # qs'" using Cons.prems False by (simp add: qs'_def)
    show ?thesis
    proof (cases "n \<le> length (pid_line q)")
      case True
      then show ?thesis using False Cons.prems ps by (intro exI [of _ 0]) (simp add: pid_line_def Let_def)
    next
      case fits: False
      then have pos: "0 < n - length (pid_line q)" by simp
      from Cons.IH [OF pos qs'_def] obtain k where k: "k \<le> length qs'" "pid_lines (n - length (pid_line q)) qs = concat (map pid_line (take k qs'))"
        "length (pid_lines (n - length (pid_line q)) qs) < n - length (pid_line q)"
        "k < length qs' \<longrightarrow> n - length (pid_line q) \<le> length (concat (map pid_line (take (Suc k) qs')))"
        by blast
      have e: "pid_lines n (q # qs) = pid_line q @ pid_lines (n - length (pid_line q)) qs"
        using False fits by (simp add: pid_line_def Let_def)
      show ?thesis unfolding e ps using k by (intro exI [of _ "Suc k"]) auto
    qed
  qed
qed simp

text \<open>The list of pids fits its buffer with the final zero, and holds whole lines: those of the first
  processes with a pid, as many as fit; the message of the trackers starts with its length.\<close>

theorem pid_list_framed:
  assumes "4 < n" and "n \<le> 0x10000"
  shows "\<exists>k. jdwp_process_list (n - 4) s = concat (map pid_line (take k (filter (\<lambda>p. p \<ge> 0) (pids s))))
    \<and> length (jdwp_process_list (n - 4) s) < n - 4
    \<and> (k < length (filter (\<lambda>p. p \<ge> 0) (pids s)) \<longrightarrow> n - 4 \<le> length (concat (map pid_line (take (Suc k) (filter (\<lambda>p. p \<ge> 0) (pids s))))))
    \<and> unhex (take 4 (jdwp_process_list_msg n s)) = word_of_nat (length (jdwp_process_list (n - 4) s))
    \<and> drop 4 (jdwp_process_list_msg n s) = jdwp_process_list (n - 4) s"
proof -
  have "0 < n - 4" using assms(1) by simp
  from pid_lines_prefix [OF this refl, of "pids s"] obtain k where "pid_lines (n - 4) (pids s) = concat (map pid_line (take k (filter (\<lambda>p. p \<ge> 0) (pids s))))"
    "length (pid_lines (n - 4) (pids s)) < n - 4"
    "k < length (filter (\<lambda>p. p \<ge> 0) (pids s)) \<longrightarrow> n - 4 \<le> length (concat (map pid_line (take (Suc k) (filter (\<lambda>p. p \<ge> 0) (pids s)))))"
    by blast
  then show ?thesis
    using assms(2) by (intro exI [of _ k]) (simp add: jdwp_process_list_def jdwp_process_list_msg_def Let_def)
qed

lemma pid_list_framed_witness: "\<exists>k. jdwp_process_list 1020 jdwp_sample = concat (map pid_line (take k (filter (\<lambda>p. p \<ge> 0) (pids jdwp_sample))))"
  using pid_list_framed [of 1024 jdwp_sample] by auto

end
