(* ===== verification/HostRequest.thy ===== *)
theory HostRequest
  imports Transport Services
begin

text \<open>
  The requests that the server answers itself (\<open>adb/adb.cpp\<close>: \<open>handle_host_request\<close>, \<open>connect_device\<close>;
  \<open>adb/transport_local.cpp\<close>: \<open>local_connect\<close>; \<open>adb/services.cpp\<close>: \<open>host_service_to_socket\<close>), on the
  state \<open>tstate\<close> of the transports.  What the system answers (new descriptors, addresses from \<open>malloc\<close>)
  and what uninitialised variables hold are fields of \<open>host_env\<close>.
\<close>

record host_env =
  psize :: nat
  malloced :: "(nat \<Rightarrow> nat) option"
  new_object :: nat
  new_tracker :: nat
  net_client :: "byte list \<Rightarrow> int \<Rightarrow> int"
  loopback_client :: "int \<Rightarrow> int"
  loopback_server :: "int \<Rightarrow> int"
  service_thread :: "byte list option \<Rightarrow> transport_type \<Rightarrow> int \<Rightarrow> int"
  stack_int :: int
  stack_byte :: byte
  stack_text :: "byte list"

section \<open>Texts in buffers\<close>

text \<open>A text in a buffer that is read afterwards.\<close>

definition printed :: "nat \<Rightarrow> byte list \<Rightarrow> (byte list \<Rightarrow> halt + 'a) \<Rightarrow> halt + 'a" where
  "printed n bs f = (case snprintf n bs of None \<Rightarrow> Inl Overread | Some x \<Rightarrow> f x)"

section \<open>New transports over TCP\<close>

definition DEFAULT_ADB_LOCAL_TRANSPORT_PORT :: int where "DEFAULT_ADB_LOCAL_TRANSPORT_PORT = 5555"

definition LOCAL_CLIENT_PREFIX :: "byte list" where "LOCAL_CLIENT_PREFIX = ascii ''emulator-''"

text \<open>\<open>hostbuf\<close> after \<open>strncpy\<close>: its last byte is whatever the stack held.\<close>

definition hostbuf :: "host_env \<Rightarrow> byte list \<Rightarrow> byte list" where
  "hostbuf e host = take 99 (host @ replicate 99 0) @ [stack_byte e]"

definition connect_to_host :: "host_env \<Rightarrow> byte list \<Rightarrow> byte list \<Rightarrow> int \<Rightarrow> tstate \<Rightarrow> halt + (byte list \<times> tstate)" where
  "connect_to_host e host buf port s =
     (if 0 \<notin> set buf then Inl Overread
      else let h = cstr buf in printed 100 (h @ ascii '':'' @ fmt_d port) (\<lambda>sn.
        if find_transport sn (tw s) \<noteq> 0 then printed 4096 (ascii ''already connected to '' @ sn) (\<lambda>x. Inr (x, s))
        else let fd = net_client e h port in
          if fd < 0
          then printed 4096 (ascii ''unable to connect to '' @ host @ ascii '':'' @ fmt_d port) (\<lambda>x. Inr (x, s))
          else printed 4096 (ascii ''connected to '' @ sn) (\<lambda>x.
                 Inr (x, register_socket_transport True (new_object e) fd sn port False s))))"

definition connect_device :: "host_env \<Rightarrow> byte list \<Rightarrow> tstate \<Rightarrow> halt + (byte list \<times> tstate)" where
  "connect_device e host s = (case colon_at host of
     None \<Rightarrow> connect_to_host e host (hostbuf e host) DEFAULT_ADB_LOCAL_TRANSPORT_PORT s
   | Some i \<Rightarrow>
       if i \<ge> 100 then printed 4096 (ascii ''bad host name '' @ host) (\<lambda>x. Inr (x, s))
       else (case sscanf_d (drop (i + 1) host) of (r, port) \<Rightarrow>
         if r = 0 then printed 4096 (ascii ''bad port number '' @ drop i host) (\<lambda>x. Inr (x, s))
         else connect_to_host e host ((hostbuf e host)[i := 0])
                (case port of Some p \<Rightarrow> p | None \<Rightarrow> stack_int e) s))"

text \<open>The name of an emulator always fits into its buffer of 64 bytes.\<close>

definition local_connect :: "host_env \<Rightarrow> int \<Rightarrow> tstate \<Rightarrow> int \<times> tstate" where
  "local_connect e port s =
     (let fd = loopback_client e port in
      if fd \<ge> 0
      then (0, register_socket_transport True (new_object e) fd
                 (LOCAL_CLIENT_PREFIX @ fmt_d (port - 1)) port True s)
      else (- 1, s))"

section \<open>Answers\<close>

text \<open>\<open>snprintf(buf, 4096, "OKAY%04x%s", ...)\<close>, \<open>strlen(buf)\<close> and \<open>writex\<close>.\<close>

definition reply :: "byte list \<Rightarrow> byte list" where
  "reply body = ascii ''OKAY'' @ hex4 (length body) @ body"

definition answer :: "int \<Rightarrow> byte list \<Rightarrow> tstate \<Rightarrow> halt + (int \<times> tstate)" where
  "answer fd body s = printed 4096 (reply body) (\<lambda>buf. Inr (0, s\<lparr>tw := snd (fd_writex fd buf (tw s))\<rparr>))"

definition fail_with :: "int \<Rightarrow> int \<Rightarrow> string \<Rightarrow> tstate \<Rightarrow> halt + (int \<times> tstate)" where
  "fail_with r fd msg s = Inr (r, s\<lparr>tw := snd (sendfailmsg fd (ascii msg) (tw s))\<rparr>)"

text \<open>\<open>acquire_one_transport(CS_ANY, ...)\<close> makes one pass.\<close>

definition acquire :: "transport_type \<Rightarrow> byte list option \<Rightarrow> tstate \<Rightarrow> string + nat" where
  "acquire tt sn s = the (acquire_one_transport CS_ANY tt sn [tw s])"

definition acquired :: "transport_type \<Rightarrow> byte list option \<Rightarrow> tstate \<Rightarrow> atransport option" where
  "acquired tt sn s = (case acquire tt sn s of Inl _ \<Rightarrow> None | Inr a \<Rightarrow> transports (tw s) a)"

definition or_unknown :: "byte list option \<Rightarrow> byte list" where
  "or_unknown v = (case v of None \<Rightarrow> ascii ''unknown'' | Some x \<Rightarrow> x)"

section \<open>The requests\<close>

text \<open>The type and the serial number that \<open>transport...\<close> asks for.\<close>

definition transport_spec :: "byte list \<Rightarrow> byte list option \<Rightarrow> transport_type \<times> byte list option" where
  "transport_spec service sn =
     (if starts (ascii ''transport-usb'') service then (kTransportUsb, sn)
      else if starts (ascii ''transport-local'') service then (kTransportLocal, sn)
      else if starts (ascii ''transport-any'') service then (kTransportAny, sn)
      else if starts (ascii ''transport:'') service then (kTransportAny, Some (drop 10 service))
      else (kTransportAny, sn))"

definition switch_transport :: "byte list \<Rightarrow> byte list option \<Rightarrow> int \<Rightarrow> nat \<Rightarrow> tstate \<Rightarrow> halt + (int \<times> tstate)" where
  "switch_transport service sn fd sk s = (case transport_spec service sn of (tt, sn) \<Rightarrow>
     case acquire tt sn s of
       Inr a \<Rightarrow> sbind (in_world (set_sock sk (\<lambda>k. k\<lparr>sk_transport := a\<rparr>)) s) (\<lambda>s1.
                Inr (1, s1\<lparr>tw := fd_write fd (ascii ''OKAY'') (tw s1)\<rparr>))
     | Inl msg \<Rightarrow> fail_with 1 fd msg s)"

definition devices_request :: "byte list \<Rightarrow> int \<Rightarrow> tstate \<Rightarrow> halt + (int \<times> tstate)" where
  "devices_request service fd s =
     (case list_transports 4096 (drop 7 service = ascii ''-l'') (tw s) of
        None \<Rightarrow> Inl Overrun
      | Some body \<Rightarrow> answer fd body s)"

definition connect_request :: "host_env \<Rightarrow> byte list \<Rightarrow> int \<Rightarrow> tstate \<Rightarrow> halt + (int \<times> tstate)" where
  "connect_request e host fd s =
     sbind (if starts (ascii ''emu:'') host
            then (if 0 \<notin> set (stack_text e) then Inl Overread else Inr (cstr (stack_text e), s))
            else connect_device e host s) (\<lambda>(body, s1). answer fd body s1)"

text \<open>The port 5555 is appended in a buffer of 100 bytes, of which 99 may be written.\<close>

definition default_port :: "host_env \<Rightarrow> byte list \<Rightarrow> (byte list \<Rightarrow> halt + 'a) \<Rightarrow> halt + 'a" where
  "default_port e sn f = (case snprintf 99 (sn @ ascii '':5555'') of
     Some name \<Rightarrow> f name
   | None \<Rightarrow> if stack_byte e = 0 then f (take 99 (sn @ ascii '':5555'')) else Inl Overread)"

definition disconnect_request :: "host_env \<Rightarrow> byte list \<Rightarrow> int \<Rightarrow> tstate \<Rightarrow> halt + (int \<times> tstate)" where
  "disconnect_request e sn fd s =
     (if sn = [] then sbind (unregister_all_tcp_transports s) (answer fd [])
      else (if colon_at sn = None then default_port e sn else (\<lambda>f. f sn)) (\<lambda>name.
        let t = find_transport name (tw s) in
        if t \<noteq> 0 then sbind (unregister_transport t s) (answer fd [])
        else printed 4096 (ascii ''No such device '' @ name) (\<lambda>x. answer fd x s)))"

text \<open>\<open>strchr(local, ';')\<close> and the two strings around it.\<close>

definition forward_spec :: "byte list \<Rightarrow> (byte list \<times> byte list) option" where
  "forward_spec spec = (if 59 \<notin> set spec then None
     else let name = takeWhile (\<lambda>c. c \<noteq> 59) spec; remote = drop (length name + 1) spec in
       if name = [] \<or> remote = [] \<or> take 1 remote = ascii ''*'' then None else Some (name, remote))"

definition forward_request ::
    "host_env \<Rightarrow> byte list \<Rightarrow> transport_type \<Rightarrow> byte list option \<Rightarrow> int \<Rightarrow> tstate \<Rightarrow> halt + (int \<times> tstate)" where
  "forward_request e service tt sn fd s =
     (let createForward = (take 4 service \<noteq> ascii ''kill'') in
      case forward_spec (drop (if createForward then 8 else 12) service) of
        None \<Rightarrow> fail_with 0 fd ''malformed forward spec'' s
      | Some (name, remote) \<Rightarrow> (case acquire tt sn s of
          Inl msg \<Rightarrow> fail_with 0 fd msg s
        | Inr t \<Rightarrow>
            sbind (if createForward
                   then install_listener (psize e) (malloced e) (new_object e) (local_name_to_fd (loopback_server e) name) name remote t (tw s)
                   else remove_listener name remote t (tw s)) (\<lambda>(r, w).
            let s1 = s\<lparr>tw := w\<rparr> in
            if r = 0 then Inr (0, s1\<lparr>tw := snd (fd_writex fd (ascii ''OKAYOKAY'') w)\<rparr>)
            else fail_with 0 fd (if createForward
                   then (if r = - 1 then ''cannot rebind smartsocket'' else ''cannot bind socket'')
                   else ''cannot remove listener'') s1)))"

definition ADB_SERVER_VERSION :: nat where "ADB_SERVER_VERSION = 31"

text \<open>The request is logged first: it is copied to a buffer of 260 characters (\<open>MAX_PATH\<close>) and a
  suffix of 23 is appended without a test.\<close>

definition log_suffix :: "byte list" where "log_suffix = ascii ''--handle_host_request--''"

definition handle_host_request ::
    "host_env \<Rightarrow> byte list \<Rightarrow> transport_type \<Rightarrow> byte list option \<Rightarrow> int \<Rightarrow> nat \<Rightarrow> tstate \<Rightarrow> halt + (int \<times> tstate)" where
  "handle_host_request e service tt sn fd sk s =
     (if length service + length log_suffix \<ge> 260 then Inl Overrun
      else if service = ascii ''kill'' then Inl (Exit 0)
      else if starts (ascii ''transport'') service then switch_transport service sn fd sk s
      else if service = ascii ''devices'' \<or> service = ascii ''devices-l'' then devices_request service fd s
      else if starts (ascii ''connect:'') service then connect_request e (drop 8 service) fd s
      else if starts (ascii ''disconnect:'') service then disconnect_request e (drop 11 service) fd s
      else if service = ascii ''version'' then answer fd (hex4 ADB_SERVER_VERSION) s
      else if starts (ascii ''get-serialno'') service
           then answer fd (or_unknown (Option.bind (acquired tt sn s) serial)) s
      else if starts (ascii ''get-devpath'') service
           then answer fd (or_unknown (Option.bind (acquired tt sn s) devpath)) s
      else if starts (ascii ''emulator:'') service
           then Inr (0, snd (local_connect e (atoi (drop 9 service)) s))
      else if starts (ascii ''forward:'') service \<or> starts (ascii ''killforward:'') service
           then forward_request e service tt sn fd s
      else if starts (ascii ''get-state'') service
           then answer fd (connection_state_name (acquired tt sn s)) s
      else Inr (- 1, s))"

text \<open>The function as the smart sockets call it.\<close>

definition host_requests :: "host_env \<Rightarrow> tstate \<Rightarrow> host_request" where
  "host_requests e s service tt sn fd sk w =
     sbind (handle_host_request e service tt sn fd sk (s\<lparr>tw := w\<rparr>)) (\<lambda>(r, s1). Inr (r, tw s1))"

section \<open>Host services\<close>

definition host_service_to_socket :: "host_env \<Rightarrow> host_service" where
  "host_service_to_socket e name sn w =
     (if name = ascii ''track-devices'' then Inr (new_tracker e, create_device_tracker (new_tracker e) w)
      else if starts (ascii ''wait-for-'') name then
        let n = drop 9 name;
            start = (\<lambda>tt. sbind (create_local_socket (psize e) (malloced e) (new_tracker e)
                               (service_thread e sn tt CS_DEVICE) w) (\<lambda>w1. Inr (new_tracker e, w1)))
        in if starts (ascii ''local'') n then start kTransportLocal
           else if starts (ascii ''usb'') n then start kTransportUsb
           else if starts (ascii ''any'') n then start kTransportAny
           else Inr (0, w)
      else Inr (0, w))"

end
