(* ===== verification/HostRequestProps.thy ===== *)
theory HostRequestProps
  imports HostRequest ProtocolProps
begin

text \<open>
  Properties of the requests to the server: a client cannot crash it with a request that only reads the
  state or switches the transport of its own connection; a request of 237 bytes or more overruns the
  buffer of the log; and what a client is answered is what the server's state says.
\<close>

section \<open>Writing to a client\<close>

definition io_only :: "world \<Rightarrow> world \<Rightarrow> bool" where
  "io_only w w' \<longleftrightarrow> (\<exists>ob wb. w' = w\<lparr>outs := ob, wrs := wb\<rparr>)"

lemma io_only_refl: "io_only w w"
  unfolding io_only_def by (intro exI [of _ "outs w"] exI [of _ "wrs w"]) simp

lemma io_only_trans: "io_only u v \<Longrightarrow> io_only v w \<Longrightarrow> io_only u w"
  unfolding io_only_def by (elim exE, intro exI [of _ "outs w"] exI [of _ "wrs w"]) simp

lemma put_out_io: "io_only w (put_out fd bs evs w)"
  unfolding io_only_def put_out_def by blast

lemma fd_writex_io: "io_only w (snd (fd_writex fd bs w))"
  by (cases "nb_writex bs (wrs w fd)") (auto simp: fd_writex_def put_out_io split: prod.splits)

lemma sendfailmsg_io: "io_only w (snd (sendfailmsg fd bs w))"
proof -
  obtain r w1 where h: "fd_writex fd (ascii ''FAIL'' @ hex4 (min (length bs) 0xffff)) w = (r, w1)" by fastforce
  have a: "io_only w w1" using fd_writex_io [of w fd "ascii ''FAIL'' @ hex4 (min (length bs) 0xffff)"] h by simp
  have "snd (sendfailmsg fd bs w) = (if r \<noteq> 0 then w1 else snd (fd_writex fd (take (min (length bs) 0xffff) bs) w1))"
    using h by (simp add: sendfailmsg_def Let_def)
  then show ?thesis using a io_only_trans [OF a fd_writex_io] by (simp split: if_splits)
qed

lemma fd_write_io: "io_only w (fd_write fd bs w)"
  by (rule fd_write_frame [of fd bs w]) (unfold io_only_def, blast)

lemma io_onlyD:
  assumes "io_only w w'"
  shows "sock_inv X w' = sock_inv X w" "socks w' = socks w" "transports w' = transports w" "ev w' = ev w"
    "trackers w' = trackers w" "local_list w' = local_list w" "transport_list w' = transport_list w" "sent w' = sent w"
proof -
  obtain ob wb where w': "w' = w\<lparr>outs := ob, wrs := wb\<rparr>" using assms unfolding io_only_def by blast
  show "sock_inv X w' = sock_inv X w" "socks w' = socks w" "transports w' = transports w" "ev w' = ev w"
    "trackers w' = trackers w" "local_list w' = local_list w" "transport_list w' = transport_list w" "sent w' = sent w"
    unfolding w' by (simp_all add: sock_inv_def peers_ok_def heap_ok_def lists_ok_def transports_ok_def remote_of_def)
qed

section \<open>Requests that leave the other state alone\<close>

definition mild :: "byte list \<Rightarrow> bool" where
  "mild service \<longleftrightarrow> length service \<le> 236 \<and> service \<noteq> ascii ''kill'' \<and> service \<noteq> ascii ''devices-l''
     \<and> (\<forall>p \<in> set [''connect:'', ''disconnect:'', ''emulator:'', ''forward:'', ''killforward:'']. \<not> starts (ascii p) service)"

text \<open>What such a request may change: the transport of the smart socket.\<close>

definition switched :: "nat \<Rightarrow> asocket \<Rightarrow> world \<Rightarrow> world \<Rightarrow> bool" where
  "switched s k w w' \<longleftrightarrow> (\<exists>t. (t = sk_transport k \<or> transports w t \<noteq> None)
     \<and> io_only (w\<lparr>socks := (socks w)(s \<mapsto> k\<lparr>sk_transport := t\<rparr>)\<rparr>) w')"

lemma switched_io: "socks w s = Some k \<Longrightarrow> io_only w w' \<Longrightarrow> switched s k w w'"
  unfolding switched_def by (intro exI [of _ "sk_transport k"]) (simp add: fun_upd_idem)

text \<open>What the devices of the server must be called for every answer about them to fit its buffer.\<close>

definition answers_fit :: "world \<Rightarrow> bool" where
  "answers_fit w \<longleftrightarrow> names_fit w \<and> length (all_lines (listed w)) < 4088
     \<and> (\<forall>t x p. transports w t = Some x \<longrightarrow> devpath x = Some p \<longrightarrow> length p < 4088)"

lemma named_serial: "length (or_unknown (serial x)) \<le> max 7 (length (shown_serial x))"
  by (auto simp: or_unknown_def shown_serial_def ascii_def split: option.splits list.splits)

lemma acquired_alive: "acquired tt sn s = Some x \<Longrightarrow> \<exists>t. transports (tw s) t = Some x"
  by (auto simp: acquired_def split: sum.splits)

lemma answers_fit_serial:
  assumes "answers_fit (tw s)"
  shows "length (or_unknown (Option.bind (acquired tt sn s) serial)) < 4088"
proof (cases "acquired tt sn s")
  case (Some x)
  then have "length (shown_serial x) \<le> 1000" using assms acquired_alive by (fastforce simp: answers_fit_def names_fit_def)
  then show ?thesis using named_serial [of x] Some by simp
qed (simp add: or_unknown_def ascii_def)

lemma answers_fit_devpath:
  assumes "answers_fit (tw s)"
  shows "length (or_unknown (Option.bind (acquired tt sn s) devpath)) < 4088"
proof (cases "acquired tt sn s")
  case (Some x)
  then show ?thesis using assms acquired_alive by (fastforce simp: answers_fit_def or_unknown_def ascii_def split: option.splits)
qed (simp add: or_unknown_def ascii_def)

lemma state_name_short: "length (connection_state_name t) < 4088"
  by (simp add: connection_state_name_def ascii_def split: option.splits)

lemma acquire_Inr: "acquire tt sn s = Inr a \<Longrightarrow> \<exists>x. transports (tw s) a = Some x"
proof -
  assume a: "acquire tt sn s = Inr a"
  have "acquire_pass CS_ANY tt sn (tw s) \<noteq> Inl u" for u
    by (auto simp: acquire_pass_def Let_def split: prod.splits option.splits if_splits)
  then have "acquire_pass CS_ANY tt sn (tw s) = Inr (Inr a)"
    using a by (cases "acquire_pass CS_ANY tt sn (tw s)") (auto simp: acquire_def)
  then obtain t where "candidates tt sn (tw s) = [(a, t)]" unfolding acquire_pass_spec by blast
  then have "(a, t) \<in> set (filter (\<lambda>(a, t). connection_state t \<noteq> CS_NOPERM \<and> wanted tt sn t) (transports_in (tw s)))"
    by (simp add: candidates_def)
  then have "(a, t) \<in> set (transports_in (tw s))" by simp
  then show ?thesis by (auto simp: transports_in_def List.map_filter_def)
qed

text \<open>The three ways to end.\<close>

lemma answer_fits: "length body < 4088 \<Longrightarrow> answer fd body s = Inr (0, s\<lparr>tw := snd (fd_writex fd (reply body) (tw s))\<rparr>)"
  by (simp add: answer_def printed_def reply_def ascii_def)

lemma answer_io: "length body < 4088 \<Longrightarrow> \<exists>w'. answer fd body (st\<lparr>tw := w\<rparr>) = Inr (0, st\<lparr>tw := w'\<rparr>) \<and> io_only w w'"
  using fd_writex_io by (auto simp: answer_fits)

lemma fail_with_io: "\<exists>w'. fail_with r fd msg (st\<lparr>tw := w\<rparr>) = Inr (r, st\<lparr>tw := w'\<rparr>) \<and> io_only w w'"
  using sendfailmsg_io by (auto simp: fail_with_def)

lemma switch_mild:
  assumes s: "socks w s = Some k" "s \<noteq> 0"
  shows "\<exists>w'. switch_transport service sn fd s (st\<lparr>tw := w\<rparr>) = Inr (1, st\<lparr>tw := w'\<rparr>) \<and> switched s k w w'"
proof -
  obtain tt sn' where ts: "transport_spec service sn = (tt, sn')" by fastforce
  show ?thesis
  proof (cases "acquire tt sn' (st\<lparr>tw := w\<rparr>)")
    case (Inl msg)
    then show ?thesis
      using ts fail_with_io [of 1 fd msg w st] switched_io [OF s(1)] by (auto simp: switch_transport_def)
  next
    case (Inr a)
    let ?w1 = "w\<lparr>socks := (socks w)(s \<mapsto> k\<lparr>sk_transport := a\<rparr>)\<rparr>"
    have "switch_transport service sn fd s (st\<lparr>tw := w\<rparr>) = Inr (1, st\<lparr>tw := fd_write fd (ascii ''OKAY'') ?w1\<rparr>)"
      using ts Inr s by (simp add: switch_transport_def in_world_def sock_simps)
    moreover have "switched s k w (fd_write fd (ascii ''OKAY'') ?w1)"
      unfolding switched_def using acquire_Inr [OF Inr] fd_write_io [of ?w1] by (intro exI [of _ a]) auto
    ultimately show ?thesis by blast
  qed
qed

lemma host_request_mild:
  assumes m: "mild service" and s: "socks w s = Some k" "s \<noteq> 0" and f: "answers_fit w"
  shows "\<exists>r w'. host_requests e st service tt sn fd s w = Inr (r, w') \<and> switched s k w w'"
proof -
  let ?st = "st\<lparr>tw := w\<rparr>"
  let ?good = "\<lambda>x. \<exists>r w'. x = Inr (r, st\<lparr>tw := w'\<rparr>) \<and> switched s k w w'"
  have a: "?good (answer fd body ?st)" if "length body < 4088" for body
    using answer_io [OF that, of fd w st] switched_io [OF s(1)] by blast
  have "length (hex4 ADB_SERVER_VERSION) < 4088" by simp
  have f': "answers_fit (tw ?st)" using f by simp
  note a = a [OF \<open>length (hex4 ADB_SERVER_VERSION) < 4088\<close>] a [OF answers_fit_serial [OF f']] a [OF answers_fit_devpath [OF f']] a [OF state_name_short] a
  have t: "?good (switch_transport service sn fd s ?st)" using switch_mild [OF s] by blast
  have d: "?good (devices_request service fd ?st)" if "service = ascii ''devices''"
  proof -
    have l: "length (all_lines (listed w)) < 4088" using f by (simp add: answers_fit_def)
    then have "list_transports 4096 False w = Some (all_lines (listed w))" by (intro list_all) simp
    then have "devices_request service fd ?st = answer fd (all_lines (listed w)) ?st"
      using that by (simp add: devices_request_def ascii_def)
    then show ?thesis using a(5) [OF l] by simp
  qed
  have n: "?good (Inr (- 1, ?st))" using switched_io [OF s(1) io_only_refl] by blast
  from m have m': "length service \<le> 236" "service \<noteq> ascii ''kill''" "service \<noteq> ascii ''devices-l''"
    "\<not> starts (ascii ''connect:'') service" "\<not> starts (ascii ''disconnect:'') service"
    "\<not> starts (ascii ''emulator:'') service" "\<not> starts (ascii ''forward:'') service"
    "\<not> starts (ascii ''killforward:'') service"
    unfolding mild_def by simp_all
  have "length log_suffix = 23" by (simp add: log_suffix_def)
  then have "?good (handle_host_request e service tt sn fd s ?st)"
    using m' a t d n unfolding handle_host_request_def by (simp only: if_split) auto
  then show ?thesis by (auto simp: host_requests_def)
qed

section \<open>The smart socket hands its client over\<close>

lemma inv_smart:
  assumes inv: "sock_inv X w" and s: "socks w s = Some k" "enqueue k = smart_socket_enqueue"
  shows "sock_inv X (w\<lparr>socks := (socks w)(s \<mapsto> k\<lparr>sk_transport := t, pkts := ps\<rparr>)\<rparr>)"
proof -
  note d = sock_invD [OF inv s(1)]
  obtain qs where qs: "fd_inv (ev w) qs" using inv by (auto simp: sock_inv_def)
  have p: "peers_ok X w" using inv by (simp add: sock_inv_def)
  show ?thesis
  proof (rule inv_modify [OF inv s(1), where k' = "k\<lparr>sk_transport := t, pkts := ps\<rparr>" and qs = qs])
    show "sock_ok s (k\<lparr>sk_transport := t, pkts := ps\<rparr>)" using d(4) s(2) by (simp add: sock_ok_def)
    show "event_ok (ev (w\<lparr>socks := (socks w)(s \<mapsto> k\<lparr>sk_transport := t, pkts := ps\<rparr>)\<rparr>)) s (k\<lparr>sk_transport := t, pkts := ps\<rparr>)"
      using s(2) by (simp add: event_ok_def)
    show "peers_ok X (w\<lparr>socks := (socks w)(s \<mapsto> k\<lparr>sk_transport := t, pkts := ps\<rparr>)\<rparr>)"
      by (rule peers_ok_same [OF p]) (simp add: s)
  qed (use s(2) qs in simp_all)
qed

lemma inv_smart_to:
  assumes "sock_inv X w" and "socks w s = Some k" and "enqueue k = smart_socket_enqueue"
    and "k' = k\<lparr>sk_transport := t, pkts := ps\<rparr>" and "m = (socks w)(s \<mapsto> k')"
  shows "sock_inv X (w\<lparr>socks := m\<rparr>)"
  using inv_smart [OF assms(1-3), of ps t] assms(4,5) by simp

text \<open>Connecting two sockets that have no peer.\<close>

lemma inv_link:
  assumes inv: "sock_inv {} w" and a: "socks w a = Some p" "peer p = 0" "\<not> closing p"
    and b: "socks w b = Some q" "peer q = 0" "\<not> closing q" and ab: "a \<noteq> b"
  shows "sock_inv {} (w\<lparr>socks := (socks w)(a \<mapsto> p\<lparr>peer := b\<rparr>, b \<mapsto> q\<lparr>peer := a\<rparr>)\<rparr>)"
proof -
  note da = sock_invD [OF inv a(1)] and db = sock_invD [OF inv b(1)]
  obtain qs where qs: "fd_inv (ev w) qs" using inv by (auto simp: sock_inv_def)
  have pk: "peers_ok {} w" using inv by (simp add: sock_inv_def)
  have na: "\<And>c x. socks w c = Some x \<Longrightarrow> peer x \<noteq> a" using inv_no_peer [OF inv a(1,2)] by blast
  have nb: "\<And>c x. socks w c = Some x \<Longrightarrow> peer x \<noteq> b" using inv_no_peer [OF inv b(1,2)] by blast
  let ?w1 = "w\<lparr>socks := (socks w)(a \<mapsto> p\<lparr>peer := b\<rparr>)\<rparr>"
  have i1: "sock_inv {a} ?w1"
  proof (rule inv_modify [OF inv a(1), where k' = "p\<lparr>peer := b\<rparr>" and qs = qs])
    show "sock_ok a (p\<lparr>peer := b\<rparr>)" using da(4) a(3) by (simp add: sock_ok_def)
    show "event_ok (ev ?w1) a (p\<lparr>peer := b\<rparr>)" using da(5) by (simp add: event_ok_def)
    show "peers_ok {a} ?w1"
      unfolding peers_ok_def
    proof (intro allI impI)
      fix s c assume s: "socks ?w1 s = Some c" "s \<notin> {a}" "peer c \<noteq> 0"
      then have c: "socks w s = Some c" by simp
      with pk s obtain d where "peer c \<noteq> s" "socks w (peer c) = Some d" "peer d = s" unfolding peers_ok_def by blast
      with na [OF c] show "peer c \<noteq> s \<and> (\<exists>d. socks ?w1 (peer c) = Some d \<and> peer d = s)" by simp
    qed
  qed (simp_all add: qs)
  let ?w2 = "w\<lparr>socks := (socks w)(a \<mapsto> p\<lparr>peer := b\<rparr>, b \<mapsto> q\<lparr>peer := a\<rparr>)\<rparr>"
  show ?thesis
  proof (rule inv_modify [OF i1, where s = b and k = q and k' = "q\<lparr>peer := a\<rparr>" and qs = qs])
    show "sock_ok b (q\<lparr>peer := a\<rparr>)" using db(4) b(3) by (simp add: sock_ok_def)
    show "event_ok (ev ?w2) b (q\<lparr>peer := a\<rparr>)" using db(5) by (simp add: event_ok_def)
    show "peers_ok {} ?w2"
      unfolding peers_ok_def
    proof (intro allI impI)
      fix s c assume s: "socks ?w2 s = Some c" "peer c \<noteq> 0"
      show "peer c \<noteq> s \<and> (\<exists>d. socks ?w2 (peer c) = Some d \<and> peer d = s)"
      proof (cases "s = a \<or> s = b")
        case True
        then show ?thesis using s ab by (auto split: if_splits)
      next
        case False
        then have c: "socks w s = Some c" using s by simp
        with pk s obtain d where "peer c \<noteq> s" "socks w (peer c) = Some d" "peer d = s" unfolding peers_ok_def by blast
        with na [OF c] nb [OF c] show ?thesis by simp
      qed
    qed
  qed (use ab b in \<open>simp_all add: qs\<close>)
qed

text \<open>The client's socket \<open>peer k\<close> leaves the smart socket \<open>s\<close> for the service socket \<open>n\<close>.\<close>

lemma inv_hand_over:
  assumes inv: "sock_inv {} w" and s: "socks w s = Some k" "enqueue k = smart_socket_enqueue"
    and q: "socks w (peer k) = Some q" "is_local q"
    and n: "socks w n = Some x" "peer x = 0" "\<not> closing x" "n \<noteq> s" "n \<noteq> peer k"
  shows "sock_inv {} (w\<lparr>socks := (socks w)(peer k \<mapsto> q\<lparr>ready := local_socket_ready, close := local_socket_close, peer := n\<rparr>,
      n \<mapsto> x\<lparr>peer := peer k\<rparr>, s \<mapsto> k\<lparr>peer := 0\<rparr>)\<rparr>)"
proof -
  have p: "peer k \<noteq> 0" by (rule sock_invD(1) [OF inv q(1)])
  have s0: "s \<noteq> 0" by (rule sock_invD(1) [OF inv s(1)])
  have ps: "peer q = s" "peer k \<noteq> s" using peer_alive [OF inv s(1) _ p] q by fastforce+
  note d = sock_invD [OF inv q(1)]
  have qc: "\<not> closing q" using d(4) ps s0 by (auto simp: sock_ok_def)
  obtain qs where qs: "fd_inv (ev w) qs" using inv by (auto simp: sock_inv_def)
  have pk: "peers_ok {} w" using inv by (simp add: sock_inv_def)
  let ?q = "q\<lparr>ready := local_socket_ready, close := local_socket_close, peer := 0\<rparr>"
  let ?w1 = "w\<lparr>socks := (socks w)(peer k \<mapsto> ?q)\<rparr>"
  have i1: "sock_inv {s} ?w1"
  proof (rule inv_modify [OF inv q(1), where k' = ?q and qs = qs])
    show "sock_ok (peer k) ?q" using d(4) q(2) by (auto simp: sock_ok_def vtable_ok.simps)
    show "event_ok (ev ?w1) (peer k) ?q" using d(5) by (simp add: event_ok_def)
    have "peers_ok {s} (w\<lparr>socks := (socks w)(peer k \<mapsto> q\<lparr>peer := 0\<rparr>)\<rparr>)"
      using peers_ok_clear [OF pk s(1) _ refl p q(1)] by simp
    then show "peers_ok {s} ?w1" by (rule peers_ok_same) simp
  qed (use q(2) in \<open>simp_all add: qs\<close>)
  have np: "peer b \<noteq> s" if b: "socks ?w1 a = Some b" for a b
  proof (cases "a = peer k")
    case True
    then show ?thesis using b s0 by auto
  next
    case False
    then have "socks w a = Some b" using b by simp
    then show ?thesis using pk s s0 False unfolding peers_ok_def by force
  qed
  let ?w2 = "?w1\<lparr>socks := (socks ?w1)(s \<mapsto> k\<lparr>peer := 0\<rparr>)\<rparr>"
  have i2: "sock_inv {} ?w2" by (rule clear_own_peer [OF i1 _ np]) (use s ps in simp_all)
  have "sock_inv {} (?w2\<lparr>socks := (socks ?w2)(peer k \<mapsto> ?q\<lparr>peer := n\<rparr>, n \<mapsto> x\<lparr>peer := peer k\<rparr>)\<rparr>)"
    by (rule inv_link [OF i2]) (use ps n qc in simp_all)
  moreover have "(socks ?w2)(peer k \<mapsto> ?q\<lparr>peer := n\<rparr>, n \<mapsto> x\<lparr>peer := peer k\<rparr>)
      = (socks w)(peer k \<mapsto> q\<lparr>ready := local_socket_ready, close := local_socket_close, peer := n\<rparr>,
          n \<mapsto> x\<lparr>peer := peer k\<rparr>, s \<mapsto> k\<lparr>peer := 0\<rparr>)"
    using ps n by (auto simp: fun_eq_iff)
  ultimately show ?thesis by simp
qed

lemma close_safe:
  assumes "sock_inv {} w" and "socks w s = Some k"
  obtains w' where "call_close s w = Inr w'" and "sock_inv {} w'"
    and "socks w' = (if peer k = 0 then (socks w)(s := after_close k)
         else (socks w)(peer k := Option.bind (socks w (peer k)) after_close, s := after_close k))"
    and "shrinks w w'"
  using close_any [OF assms, of 0] close_shrinks [OF assms] by (auto simp: numeral_2_eq_2)

lemma smart_fail_safe:
  assumes "sock_inv {} w" and "socks w s = Some k"
  shows "\<exists>r w'. smart_fail call_close s w = Inr (r, w') \<and> sock_inv {} w'"
  by (rule close_safe [OF assms]) (simp add: smart_fail_def)

text \<open>A new service socket wakes up: a tracker sends its list to the client, a local socket waits for data.\<close>

lemma ready_service:
  assumes inv: "sock_inv {} w" and n: "socks w n = Some x" "is_tracker x \<or> is_local x"
    and q: "peer x \<noteq> 0" "socks w (peer x) = Some q" "is_local q" and f: "names_fit w"
  shows "\<exists>w'. call_ready hr hs n w = Inr w' \<and> sock_inv {} w'"
proof (cases "is_local x")
  case True
  with call_ready_local [OF inv n(1)] show ?thesis by blast
next
  case False
  then have t: "is_tracker x" using n(2) by simp
  note d = sock_invD [OF inv n(1)]
  let ?x = "x\<lparr>update_needed := False\<rparr>"
  let ?w1 = "w\<lparr>socks := (socks w)(n \<mapsto> ?x)\<rparr>"
  obtain qs where qs: "fd_inv (ev w) qs" using inv by (auto simp: sock_inv_def)
  have pk: "peers_ok {} w" using inv by (simp add: sock_inv_def)
  have vt: "vtable_ok ?x" using d(2) t by (simp add: vtable_ok.simps)
  have i1: "sock_inv {} ?w1"
  proof (rule inv_modify [OF inv n(1), where k' = ?x and qs = qs])
    show "sock_ok n ?x" using d(4) vt by (simp add: sock_ok_def)
    show "event_ok (ev ?w1) n ?x" using t by (simp add: event_ok_def)
    show "peers_ok {} ?w1" by (rule peers_ok_same [OF pk]) (simp add: n)
  qed (simp_all add: qs)
  have pn: "peer x \<noteq> n" using peer_alive [OF inv n(1) _ q(1)] by fastforce
  then have q1: "socks ?w1 (peer x) = Some q" using q(2) by simp
  have r: "ready x = device_tracker_ready" using d(2) t by (simp add: vtable_ok.simps)
  have eq: "enqueue_sock hr hs 1 (peer x) p w' = call_enqueue hr hs (peer x) p w'"
    if "socks w' (peer x) = Some q" for p w'
    using that q by (simp add: call_enqueue_def numeral_2_eq_2 enqueue_sock.simps(2) sock_simps)
  obtain msg where msg: "list_transports_msg 1024 w = Some msg" by (rule names_fit_msg [OF f])
  obtain r w' where w': "call_enqueue hr hs (peer x) msg ?w1 = Inr (r, w')" "sock_inv {} w'"
    using call_enqueue_local [OF i1 q1 q(3)] by blast
  show ?thesis
  proof (cases "update_needed x")
    case True
    then have "call_ready hr hs n w = Inr w'"
      using n(1) d(1) r q w'(1) eq [OF q1] q1
      by (simp add: call_ready_def ready_sock_def sock_simps device_tracker_ready_op_def device_tracker_send_def msg)
    then show ?thesis using w'(2) by blast
  next
    case False
    then have "call_ready hr hs n w = Inr w"
      using n(1) d(1) r by (simp add: call_ready_def ready_sock_def sock_simps device_tracker_ready_op_def)
    then show ?thesis using inv by blast
  qed
qed

section \<open>The service sockets\<close>

text \<open>What the system provides: memory at an unused address and a descriptor in range.\<close>

definition env_ok :: "host_env \<Rightarrow> world \<Rightarrow> bool" where
  "env_ok e w \<longleftrightarrow> psize e = 4 \<and> malloced e \<noteq> None \<and> new_tracker e \<noteq> 0 \<and> socks w (new_tracker e) = None
     \<and> (\<forall>sn tt. fresh_fde (new_tracker e) (service_thread e sn tt CS_DEVICE) (ev w))"

lemma create_tracker_inv:
  assumes inv: "sock_inv {} w" and a: "socks w a = None" "a \<noteq> 0"
  shows "sock_inv {} (create_device_tracker a w)"
proof -
  let ?w' = "create_device_tracker a w"
  have h: "heap_ok w" and p: "peers_ok {} w" and l: "lists_ok w" and t: "transports_ok w" and f: "\<exists>ps. fd_inv (ev w) ps"
    using inv by (auto simp: sock_inv_def)
  have "peers_ok {} ?w'" by (rule peers_ok_new [OF p a(1)]) (simp_all add: create_device_tracker_def zero_sock_def)
  moreover have "heap_ok ?w'"
    using h a(2) unfolding heap_ok_def
    by (auto simp: create_device_tracker_def event_ok_def sock_ok_def zero_sock_def vtable_ok.simps split: if_splits)
  moreover have "lists_ok ?w'"
  proof -
    have n: "a \<notin> set (local_list w)" "a \<notin> set (closing_list w)" "a \<notin> set (trackers w)"
      using l a unfolding lists_ok_def by auto
    show ?thesis using l n unfolding lists_ok_def by (auto simp: create_device_tracker_def zero_sock_def)
  qed
  moreover have "transports_ok ?w'"
    by (rule transports_ok_cong [OF t]) (use a in \<open>auto simp: create_device_tracker_def remote_of_def zero_sock_def\<close>)
  ultimately show ?thesis using f unfolding sock_inv_def by (simp add: create_device_tracker_def)
qed

lemma service_result:
  assumes inv: "sock_inv {} w" and e: "env_ok e w"
  obtains (none) "host_service_to_socket e name sn w = Inr (0, w)"
  | (some) x w' where "host_service_to_socket e name sn w = Inr (new_tracker e, w')" and "sock_inv {} w'"
      and "socks w' = (socks w)(new_tracker e \<mapsto> x)" and "peer x = 0" and "\<not> closing x" and "is_tracker x \<or> is_local x"
      and "transports w' = transports w"
proof -
  let ?n = "new_tracker e"
  have n: "socks w ?n = None" "?n \<noteq> 0" using e by (simp_all add: env_ok_def)
  have st: "\<exists>w'. create_local_socket (psize e) (malloced e) ?n (service_thread e sn tt CS_DEVICE) w = Inr w' \<and> sock_inv {} w'
      \<and> socks w' = (socks w)(?n \<mapsto> zero_sock\<lparr>sk_fd := service_thread e sn tt CS_DEVICE, sk_id := next_id w\<rparr>)
      \<and> transports w' = transports w" for tt
  proof -
    obtain j where j: "malloced e = Some j" using e by (auto simp: env_ok_def)
    have f: "fresh_fde ?n (service_thread e sn tt CS_DEVICE) (ev w)" using e by (simp add: env_ok_def)
    show ?thesis
      by (rule create_local_socket_result [OF inv n(1) f, of j]) (use e j in \<open>auto simp: env_ok_def\<close>)
  qed
  define start where "start = (\<lambda>tt. sbind (create_local_socket (psize e) (malloced e) ?n (service_thread e sn tt CS_DEVICE) w)
      (\<lambda>w1. Inr (?n, w1)))"
  have "host_service_to_socket e name sn w =
      (if name = ascii ''track-devices'' then Inr (?n, create_device_tracker ?n w)
       else if starts (ascii ''wait-for-'') name then
         (if starts (ascii ''local'') (drop 9 name) then start kTransportLocal
          else if starts (ascii ''usb'') (drop 9 name) then start kTransportUsb
          else if starts (ascii ''any'') (drop 9 name) then start kTransportAny else Inr (0, w))
       else Inr (0, w))"
    by (simp add: host_service_to_socket_def start_def)
  then consider (t) "name = ascii ''track-devices''" | (w) tt where "host_service_to_socket e name sn w = start tt"
    | (z) "host_service_to_socket e name sn w = Inr (0, w)"
    by metis
  then show thesis
  proof cases
    case t
    show thesis
    proof (rule some)
      show "host_service_to_socket e name sn w = Inr (?n, create_device_tracker ?n w)"
        using t by (simp add: host_service_to_socket_def)
      show "sock_inv {} (create_device_tracker ?n w)" by (rule create_tracker_inv [OF inv n])
      let ?x = "zero_sock\<lparr>enqueue := device_tracker_enqueue, ready := device_tracker_ready,
        close := device_tracker_close, update_needed := True\<rparr>"
      show "socks (create_device_tracker ?n w) = (socks w)(?n \<mapsto> ?x)" by (simp add: create_device_tracker_def)
    qed (simp_all add: zero_sock_def create_device_tracker_def)
  next
    case w
    obtain w' where w': "create_local_socket (psize e) (malloced e) ?n (service_thread e sn tt CS_DEVICE) w = Inr w'"
      "sock_inv {} w'" "socks w' = (socks w)(?n \<mapsto> zero_sock\<lparr>sk_fd := service_thread e sn tt CS_DEVICE, sk_id := next_id w\<rparr>)"
      "transports w' = transports w"
      using st [of tt] by blast
    show thesis
    proof (rule some)
      show "host_service_to_socket e name sn w = Inr (?n, w')" using w w'(1) by (simp add: start_def)
    qed (rule w', rule w', simp_all add: zero_sock_def w'(4))
  qed (rule none)
qed

section \<open>Requests that are answered\<close>

lemma smart_host_safe:
  assumes inv: "sock_inv {} w" and s: "socks w s = Some k" "enqueue k = smart_socket_enqueue"
    and q: "socks w (peer k) = Some q" "is_local q" and m: "mild service" and e: "env_ok e w" and f: "answers_fit w"
  shows "\<exists>r w'. smart_host (host_requests e st) (host_service_to_socket e) call_close (call_ready hr hs) s service sn tt w = Inr (r, w')
    \<and> sock_inv {} w'"
proof -
  let ?n = "new_tracker e"
  have p0: "peer k \<noteq> 0" by (rule sock_invD(1) [OF inv q(1)])
  have s0: "s \<noteq> 0" by (rule sock_invD(1) [OF inv s(1)])
  have ps: "peer q = s" "peer k \<noteq> s" using peer_alive [OF inv s(1) _ p0] q by fastforce+
  obtain r w1 where r: "host_requests e st service tt sn (sk_fd q) s w = Inr (r, w1)" "switched s k w w1"
    using host_request_mild [OF m s(1) s0 f] by blast
  from r(2) obtain t where t: "io_only (w\<lparr>socks := (socks w)(s \<mapsto> k\<lparr>sk_transport := t\<rparr>)\<rparr>) w1"
    unfolding switched_def by blast
  let ?k = "k\<lparr>sk_transport := t\<rparr>"
  have "k\<lparr>sk_transport := t, pkts := pkts k\<rparr> = ?k" by simp
  then have i1: "sock_inv {} w1" unfolding io_onlyD(1) [OF t] using inv_smart [OF inv s, where ps = "pkts k" and t = t] by simp
  have k1: "socks w1 s = Some ?k" "socks w1 (peer k) = Some q" using io_onlyD(2) [OF t] ps q by simp_all
  have e1: "env_ok e w1" using e s io_onlyD(2,4) [OF t] unfolding env_ok_def by auto
  have nn: "?n \<noteq> s" "?n \<noteq> peer k" "?n \<noteq> 0" using e s q unfolding env_ok_def by auto
  have start: "smart_host (host_requests e st) (host_service_to_socket e) call_close (call_ready hr hs) s service sn tt w =
     (if r = 0 then smart_fail call_close s w1
      else if starts (ascii ''transport'') service then sbind (set_pkts s [[]] w1) (\<lambda>w2. Inr (0, w2))
      else sbind (host_service_to_socket e service sn w1) (\<lambda>(s2, w2). sbind (deref s w2) (\<lambda>k. sbind (deref (peer k) w2) (\<lambda>q.
       if s2 = 0
       then smart_fail call_close s (snd (sendfailmsg (sk_fd q) (ascii ''unknown host service'') w2))
       else sbind (set_sock (peer k) (\<lambda>q. q\<lparr>ready := local_socket_ready, close := local_socket_close, peer := s2\<rparr>)
              (fd_write (sk_fd q) (ascii ''OKAY'') w2)) (\<lambda>w3.
            sbind (set_sock s2 (\<lambda>x. x\<lparr>peer := peer k\<rparr>) w3) (\<lambda>w4.
            sbind (set_sock s (\<lambda>k. k\<lparr>peer := 0\<rparr>) w4) (\<lambda>w5.
            sbind (call_close s w5) (\<lambda>w6. sbind (call_ready hr hs s2 w6) (\<lambda>w7. Inr (0, w7))))))))))"
    using s s0 q p0 r(1) by (simp add: smart_host_def sock_simps)
  consider "r = 0" | "r \<noteq> 0" "starts (ascii ''transport'') service" | "r \<noteq> 0" "\<not> starts (ascii ''transport'') service" by blast
  then show ?thesis
  proof cases
    case 1
    then show ?thesis using start smart_fail_safe [OF i1 k1(1)] by simp
  next
    case 2
    have "sock_inv {} (w1\<lparr>socks := (socks w1)(s \<mapsto> ?k\<lparr>sk_transport := t, pkts := [[]]\<rparr>)\<rparr>)"
      by (rule inv_smart [OF i1 k1(1)]) (use s in simp)
    then show ?thesis using start 2 k1(1) s0 by (simp add: set_pkts_def sock_simps)
  next
    case 3
    show ?thesis
    proof (rule service_result [OF i1 e1, of service sn])
      assume "host_service_to_socket e service sn w1 = Inr (0, w1)"
      moreover let ?w2 = "snd (sendfailmsg (sk_fd q) (ascii ''unknown host service'') w1)"
      have "sock_inv {} ?w2" "socks ?w2 s = Some ?k" using io_onlyD(1,2) [OF sendfailmsg_io [of w1]] i1 k1 by simp_all
      then have "\<exists>r w'. smart_fail call_close s ?w2 = Inr (r, w') \<and> sock_inv {} w'" by (rule smart_fail_safe)
      ultimately show ?thesis using start 3 k1 s0 p0 by (simp add: sock_simps)
    next
      fix x w2 assume sv: "host_service_to_socket e service sn w1 = Inr (?n, w2)" "sock_inv {} w2"
        "socks w2 = (socks w1)(?n \<mapsto> x)" "peer x = 0" "\<not> closing x" "is_tracker x \<or> is_local x"
        "transports w2 = transports w1"
      let ?wo = "fd_write (sk_fd q) (ascii ''OKAY'') w2"
      note io = io_onlyD [OF fd_write_io [of w2 "sk_fd q" "ascii ''OKAY''"]]
      have k2: "socks ?wo s = Some ?k" "socks ?wo (peer k) = Some q" "socks ?wo ?n = Some x" "socks w2 s = Some ?k" "socks w2 (peer k) = Some q"
        using io(2) sv(3) k1 nn by simp_all
      have io2: "sock_inv {} ?wo" using io(1) sv(2) by simp
      define w5 where "w5 = ?wo\<lparr>socks := (socks ?wo)(peer k \<mapsto> q\<lparr>ready := local_socket_ready, close := local_socket_close, peer := ?n\<rparr>,
          ?n \<mapsto> x\<lparr>peer := peer k\<rparr>, s \<mapsto> ?k\<lparr>peer := 0\<rparr>)\<rparr>"
      have i5: "sock_inv {} w5" unfolding w5_def
        using inv_hand_over [OF io2 k2(1), of q ?n x] s q k2 sv nn by simp
      have s5: "socks w5 s = Some (?k\<lparr>peer := 0\<rparr>)" by (simp add: w5_def)
      obtain w6 where w6: "call_close s w5 = Inr w6" "sock_inv {} w6" "socks w6 = (socks w5)(s := after_close (?k\<lparr>peer := 0\<rparr>))" "shrinks w5 w6"
        by (rule close_safe [OF i5 s5]) simp
      have "names_fit w5" using f io(3) sv(7) io_onlyD(3) [OF t] by (simp add: w5_def answers_fit_def names_fit_def)
      then have f6: "names_fit w6" using names_fit_shrinks w6(4) by blast
      have n6: "socks w6 ?n = Some (x\<lparr>peer := peer k\<rparr>)"
        "socks w6 (peer k) = Some (q\<lparr>ready := local_socket_ready, close := local_socket_close, peer := ?n\<rparr>)"
        using w6(3) nn ps by (simp_all add: w5_def)
      obtain w7 where w7: "call_ready hr hs ?n w6 = Inr w7" "sock_inv {} w7"
        using ready_service [OF w6(2) n6(1) _ _ _, of "q\<lparr>ready := local_socket_ready, close := local_socket_close, peer := ?n\<rparr>" hr hs]
          n6(2) p0 sv(6) q(2) f6 by auto
      have "smart_host (host_requests e st) (host_service_to_socket e) call_close (call_ready hr hs) s service sn tt w = Inr (0, w7)"
        using start 3 sv(1) k2 s0 p0 nn ps w6(1) w7(1)
        by (simp add: sock_simps w5_def [symmetric] set_sock_def deref_def)
      then show ?thesis using w7(2) by blast
    qed
  qed
qed

lemma smart_device_safe:
  assumes inv: "sock_inv {} w" and s: "socks w s = Some k" "enqueue k = smart_socket_enqueue"
    and q: "socks w (peer k) = Some q" "is_local q"
    and t: "sk_transport k = 0 \<or> transports w (sk_transport k) \<noteq> None" and n: "length dest \<le> 1024"
  shows "\<exists>r w'. smart_device call_close s dest w = Inr (r, w') \<and> sock_inv {} w'"
proof -
  have p0: "peer k \<noteq> 0" by (rule sock_invD(1) [OF inv q(1)])
  have s0: "s \<noteq> 0" by (rule sock_invD(1) [OF inv s(1)])
  let ?w1 = "snd (sendfailmsg (sk_fd q) (ascii ''device offline (x)'') w)"
  have "sock_inv {} ?w1" "socks ?w1 s = Some k" using io_onlyD(1,2) [OF sendfailmsg_io [of w]] inv s by simp_all
  then have off: "\<exists>r w'. smart_fail call_close s ?w1 = Inr (r, w') \<and> sock_inv {} w'" by (rule smart_fail_safe)
  show ?thesis
  proof (cases "sk_transport k = 0")
    case True
    then show ?thesis using off s s0 q p0 by (simp add: smart_device_def sock_simps)
  next
    case False
    then obtain x where x: "transports w (sk_transport k) = Some x" using t by auto
    show ?thesis
    proof (cases "connection_state x = CS_OFFLINE")
      case True
      then show ?thesis
        using off s s0 q p0 False x by (simp add: smart_device_def sock_simps deref_transport_def Let_def)
    next
      case online: False
      have "length dest + 1 < MAX_PAYLOAD" using n by (simp add: MAX_PAYLOAD_def)
      from device_request_opens [OF inv s q x online this] show ?thesis by blast
    qed
  qed
qed

lemma scan_request_short: "scan_request b = Request str \<Longrightarrow> length str \<le> 1024"
proof -
  assume a: "scan_request b = Request str"
  then obtain p where p: "b = Some p" by (cases b) (auto simp: scan_request_def)
  define len where "len = unhex (take 4 p)"
  have l: "\<not> 1024 < len" "str = cstr (take (unat len) (drop 4 p))"
    using a p by (auto simp: scan_request_def Let_def len_def split: if_splits)
  have "length str \<le> unat len" unfolding l(2) by (rule order_trans [OF length_cstr_le]) simp
  moreover have "unat len \<le> 1024" using l(1) by (simp add: word_less_nat_alt)
  ultimately show ?thesis by simp
qed

text \<open>The service that a packet completes a request for, if that request is for the host.\<close>

definition asked :: "asocket \<Rightarrow> byte list \<Rightarrow> byte list option" where
  "asked k p = (case scan_request (collect (pkts k) p) of
     Request str \<Rightarrow> map_option fst (parse_request str) | _ \<Rightarrow> None)"

text \<open>C2. Requests that only ask cannot crash the server.  From a consistent state, every packet for the smart socket
  of a client, with any bytes (a piece of a request, a request for a device, rubbish, a request for the host), is handled
  without touching freed memory or a null pointer, also when the client is handed over to a new service or
  to a device, and the state is consistent again.  A request for the host that the packet completes has at most 236 bytes
  (longer ones overrun a buffer, see \<open>long_request_overruns\<close>) and is none of kill, connect:, disconnect:, emulator:,
  forward: and killforward:, which change the server itself, and not devices-l.  The serial numbers have at
  most 1000 bytes, the device paths and the list of the devices less than 4088, and a new service or
  tracker gets an unused address, a new descriptor and memory.\<close>

theorem client_cannot_crash:
  assumes "sock_inv {} w" and "socks w s = Some k" and "enqueue k = smart_socket_enqueue"
    and "socks w (peer k) = Some q" and "is_local q"
    and "sk_transport k = 0 \<or> transports w (sk_transport k) \<noteq> None" and "env_ok e w" and "answers_fit w"
    and "\<And>service. asked k p = Some service \<Longrightarrow> mild service"
  shows "\<exists>r w'. call_enqueue (host_requests e st) (host_service_to_socket e) s p w = Inr (r, w') \<and> sock_inv {} w'"
proof -
  let ?hr = "host_requests e st" and ?hs = "host_service_to_socket e"
  note inv = assms(1) and s = assms(2,3) and q = assms(4,5)
  have s0: "s \<noteq> 0" by (rule sock_invD(1) [OF inv s(1)])
  have p0: "peer k \<noteq> 0" by (rule sock_invD(1) [OF inv q(1)])
  have ps: "peer k \<noteq> s" using peer_alive [OF inv s(1) _ p0] q by fastforce
  have en: "call_enqueue ?hr ?hs s p w = smart_socket_enqueue_fn ?hr ?hs call_close (call_ready ?hr ?hs) s p w"
    using s s0 by (simp add: call_enqueue_def numeral_2_eq_2 enqueue_sock.simps(2) sock_simps call_ready_def [abs_def])
  define w1 where "w1 = (case collect (pkts k) p of None \<Rightarrow> w | Some b \<Rightarrow> w\<lparr>socks := (socks w)(s \<mapsto> k\<lparr>pkts := [b]\<rparr>)\<rparr>)"
  obtain ps' where k1: "socks w1 s = Some (k\<lparr>pkts := ps'\<rparr>)" and sw1: "w1 = w\<lparr>socks := (socks w)(s \<mapsto> k\<lparr>pkts := ps'\<rparr>)\<rparr>"
  proof (cases "collect (pkts k) p")
    case None
    then show thesis using that [of "pkts k"] s by (simp add: w1_def fun_upd_idem)
  next
    case (Some b)
    then show thesis using that [of "[b]"] by (simp add: w1_def)
  qed
  let ?k = "k\<lparr>pkts := ps'\<rparr>"
  have "k\<lparr>sk_transport := sk_transport k, pkts := ps'\<rparr> = ?k" by simp
  then have i1: "sock_inv {} w1" using inv_smart [OF inv s, where ps = ps' and t = "sk_transport k"] sw1 by simp
  have q1: "socks w1 (peer k) = Some q" using q ps sw1 by simp
  have e1: "env_ok e w1" using assms(7) s unfolding env_ok_def sw1 by auto
  have f1: "answers_fit w1" using assms(8) sw1 by (simp add: answers_fit_def names_fit_def listed_def transports_in_def)
  have t1: "sk_transport k = 0 \<or> transports w1 (sk_transport k) \<noteq> None" using assms(6) sw1 by simp
  have fin: "\<exists>r w'. smart_fail call_close s w1 = Inr (r, w') \<and> sock_inv {} w'" by (rule smart_fail_safe [OF i1 k1])
  have st: "call_enqueue ?hr ?hs s p w = (case scan_request (collect (pkts k) p) of
       Overflow \<Rightarrow> smart_fail call_close s w1 | Bad_Size \<Rightarrow> smart_fail call_close s w1 | More \<Rightarrow> Inr (0, w1)
     | Request str \<Rightarrow> (case parse_request str of
          Some (service, sn, tt) \<Rightarrow> smart_host ?hr ?hs call_close (call_ready ?hr ?hs) s service sn tt w1
        | None \<Rightarrow> smart_device call_close s str w1))"
    using s s0 unfolding en
    by (cases "collect (pkts k) p") (simp_all add: smart_socket_enqueue_fn_def sock_simps set_pkts_def w1_def split: request.split option.split)
  show ?thesis
  proof (cases "scan_request (collect (pkts k) p)")
    case (Request str)
    show ?thesis
    proof (cases "parse_request str")
      case None
      have "\<exists>r w'. smart_device call_close s str w1 = Inr (r, w') \<and> sock_inv {} w'"
        by (rule smart_device_safe [OF i1 k1, of q]) (use s q1 q t1 scan_request_short [OF Request] in simp_all)
      then show ?thesis using st Request None by simp
    next
      case (Some a)
      obtain service sn tt where a: "a = (service, sn, tt)" by (cases a)
      have "mild service" using assms(9) Request Some a by (simp add: asked_def)
      then have "\<exists>r w'. smart_host ?hr ?hs call_close (call_ready ?hr ?hs) s service sn tt w1 = Inr (r, w') \<and> sock_inv {} w'"
        by (intro smart_host_safe [OF i1 k1 _ _ q(2)] e1 f1) (use s q1 in simp_all)
      then show ?thesis using st Request Some a by simp
    qed
  qed (use st fin i1 in simp_all)
qed

section \<open>Requests that are too long\<close>

text \<open>A request for the host of 237 bytes or more makes the server write beyond its buffer for the log,
  before it has looked at the request: the smart socket lets up to 1024 bytes pass.\<close>

theorem long_request_overruns:
  assumes "sock_inv {} w" and "socks w s = Some k" and "enqueue k = smart_socket_enqueue"
    and "socks w (peer k) = Some q" and "asked k p = Some service" and "236 < length service"
  shows "call_enqueue (host_requests e st) hs s p w = Inl Overrun"
proof -
  note inv = assms(1) and s = assms(2,3) and q = assms(4)
  have s0: "s \<noteq> 0" by (rule sock_invD(1) [OF inv s(1)])
  have p0: "peer k \<noteq> 0" by (rule sock_invD(1) [OF inv q(1)])
  have ps: "peer k \<noteq> s" using peer_alive [OF inv s(1) _ p0] q by fastforce
  obtain str sn tt where r: "scan_request (collect (pkts k) p) = Request str" "parse_request str = Some (service, sn, tt)"
    using assms(5) by (auto simp: asked_def split: request.splits)
  then obtain b where b: "collect (pkts k) p = Some b" by (cases "collect (pkts k) p") (auto simp: scan_request_def)
  have h: "host_requests e st service tt sn fd s w' = Inl Overrun" for fd w'
    using assms(6) by (simp add: host_requests_def handle_host_request_def log_suffix_def)
  show ?thesis
    using s s0 p0 ps q r b h
    by (simp add: call_enqueue_def numeral_2_eq_2 enqueue_sock.simps(2) sock_simps smart_socket_enqueue_fn_def set_pkts_def smart_host_def)
qed

section \<open>Switching the transport\<close>

lemma acquire_candidate:
  assumes "candidates tt sn (tw s) = [(a, x)]" and "connection_state x \<noteq> CS_OFFLINE"
  shows "acquire tt sn s = Inr a"
proof -
  have "acquire_pass CS_ANY tt sn (tw s) = Inr (Inr a)" using assms unfolding acquire_pass_spec by blast
  then show ?thesis by (simp add: acquire_def)
qed

lemma candidate_alive: "candidates tt sn w = [(a, x)] \<Longrightarrow> transports w a = Some x"
proof -
  assume "candidates tt sn w = [(a, x)]"
  then have "(a, x) \<in> set (filter (\<lambda>(a, t). connection_state t \<noteq> CS_NOPERM \<and> wanted tt sn t) (transports_in w))"
    by (simp add: candidates_def)
  then have "(a, x) \<in> set (transports_in w)" by simp
  then show ?thesis by (auto simp: transports_in_def List.map_filter_def)
qed

lemma parse_transport: "parse_request (ascii ''host:transport:'' @ sn) = Some (ascii ''transport:'' @ sn, None, kTransportAny)"
  by (simp add: parse_request_def starts_def ascii_def)

text \<open>A request that is complete in one packet reaches its handler with an empty queue.\<close>

lemma enqueue_request:
  assumes "socks w s = Some k" and "s \<noteq> 0" and "enqueue k = smart_socket_enqueue" and "concat (pkts k) = []"
    and "1 \<le> length str" and "length str \<le> 1024" and "0 \<notin> set str"
  shows "call_enqueue hr hs s (framed str) w =
    (let w1 = w\<lparr>socks := (socks w)(s \<mapsto> k\<lparr>pkts := [framed str]\<rparr>)\<rparr> in case parse_request str of
       Some (service, sn, tt) \<Rightarrow> smart_host hr hs call_close (call_ready hr hs) s service sn tt w1
     | None \<Rightarrow> smart_device call_close s str w1)"
proof -
  have f: "length (framed str) \<le> MAX_PAYLOAD" using assms(6) by (simp add: framed_def MAX_PAYLOAD_def)
  have "collect (pkts k) (framed str) = Some (framed str)"
    using assms(4) f by (auto simp: collect_def split: list.split)
  then show ?thesis
    using assms scan_request_whole [OF assms(5,6,7)]
    by (simp add: call_enqueue_def numeral_2_eq_2 enqueue_sock.simps(2) sock_simps smart_socket_enqueue_fn_def
        set_pkts_def call_ready_def [abs_def] Let_def split: option.split)
qed

text \<open>C4. Choosing a device and then a service: when exactly one accessible device matches the serial
  number, a client that sends \<open>host:transport:\<close> with that number and then the name of a device service gets
  \<open>OKAY\<close> for the first request, and the second one sends OPEN with the name of the service to exactly that
  device; the smart socket is gone afterwards.\<close>

theorem transport_then_service:
  assumes "sock_inv {} w" and "socks w s = Some k" and "enqueue k = smart_socket_enqueue" and "pkts k = []"
    and "socks w (peer k) = Some q" and "is_local q" and "nb_write 4 (wrs w (sk_fd q)) = (Wrote 4, evs)"
    and "candidates kTransportAny (Some sn) w = [(a, x)]" and "connection_state x \<noteq> CS_OFFLINE"
    and "length sn \<le> 200" and "0 \<notin> set sn"
    and "1 \<le> length dest" and "length dest \<le> 1024" and "0 \<notin> set dest" and "parse_request dest = None"
  shows "\<exists>w1 w2. call_enqueue (host_requests e st) hs s (framed (ascii ''host:transport:'' @ sn)) w = Inr (0, w1)
    \<and> outs w1 (sk_fd q) = outs w (sk_fd q) @ ascii ''OKAY''
    \<and> call_enqueue (host_requests e st) hs s (framed dest) w1 = Inr (1, w2)
    \<and> sent w2 = sent w @ [(a, wire A_OPEN (sk_id q) 0 (dest @ [0]))] \<and> socks w2 s = None \<and> sock_inv {} w2"
proof -
  let ?hr = "host_requests e st"
  note inv = assms(1) and s = assms(2,3) and q = assms(5,6)
  have s0: "s \<noteq> 0" by (rule sock_invD(1) [OF inv s(1)])
  have p0: "peer k \<noteq> 0" by (rule sock_invD(1) [OF inv q(1)])
  have ps: "peer k \<noteq> s" using peer_alive [OF inv s(1) _ p0] q by fastforce
  let ?str = "ascii ''host:transport:'' @ sn" and ?service = "ascii ''transport:'' @ sn"
  have n0: "1 \<le> length ?str" "length ?str \<le> 1024" "0 \<notin> set ?str" using assms(10,11) by (simp_all add: ascii_def)
  define wa where "wa = w\<lparr>socks := (socks w)(s \<mapsto> k\<lparr>pkts := [framed ?str]\<rparr>)\<rparr>"
  define wb where "wb = fd_write (sk_fd q) (ascii ''OKAY'') (wa\<lparr>socks := (socks wa)(s \<mapsto> k\<lparr>pkts := [framed ?str], sk_transport := a\<rparr>)\<rparr>)"
  note io = io_onlyD [OF fd_write_io [of _ "sk_fd q" "ascii ''OKAY''"]]
  define w1 where "w1 = wb\<lparr>socks := (socks wb)(s \<mapsto> k\<lparr>sk_transport := a, pkts := [[]]\<rparr>)\<rparr>"
  have ac: "acquire kTransportAny (Some sn) (st\<lparr>tw := wa\<rparr>) = Inr a"
    by (rule acquire_candidate) (use assms(8,9) in \<open>simp_all add: wa_def candidates_def transports_in_def\<close>)
  have sp: "transport_spec ?service None = (kTransportAny, Some sn)"
    by (simp add: transport_spec_def starts_def ascii_def)
  have sw: "?hr ?service kTransportAny None (sk_fd q) s wa = Inr (1, wb)"
    using assms(10) sp ac s0
    by (simp add: host_requests_def handle_host_request_def log_suffix_def switch_transport_def in_world_def set_sock_def
        deref_def starts_def ascii_def wa_def wb_def)
  have st: "starts (ascii ''transport'') ?service" by (simp add: starts_def ascii_def)
  have kb: "socks wb = (socks w)(s \<mapsto> k\<lparr>pkts := [framed ?str], sk_transport := a\<rparr>)" using io(2) by (simp add: wb_def wa_def)
  have "smart_host ?hr hs call_close (call_ready ?hr hs) s ?service None kTransportAny wa = Inr (0, w1)"
    using s0 p0 ps q(1) sw st kb by (simp add: smart_host_def wa_def deref_def set_pkts_def set_sock_def w1_def)
  then have r1: "call_enqueue ?hr hs s (framed ?str) w = Inr (0, w1)"
    using enqueue_request [OF s(1) s0 s(2) _ n0, of ?hr hs] assms(4) by (simp add: Let_def parse_transport wa_def)
  have o1: "outs w1 (sk_fd q) = outs w (sk_fd q) @ ascii ''OKAY''"
  proof -
    have l: "length (ascii ''OKAY'') = 4" "take 4 (ascii ''OKAY'') = ascii ''OKAY''" by (simp_all add: ascii_def)
    show ?thesis using assms(7) l by (simp add: w1_def wb_def wa_def fd_write_def del: length_ascii)
  qed
  let ?k = "k\<lparr>sk_transport := a, pkts := [[]]\<rparr>"
  have sw1: "socks w1 = (socks w)(s \<mapsto> ?k)" using kb by (simp add: w1_def)
  have i1: "sock_inv {} w1"
  proof -
    have a: "sock_inv {} wa" unfolding wa_def
      by (rule inv_smart_to [OF inv s, where t = "sk_transport k" and ps = "[framed ?str]"]) simp_all
    have "sock_inv {} wb"
      unfolding wb_def io(1)
      by (rule inv_smart_to [OF a, where s = s and t = a and ps = "[framed ?str]" and k = "k\<lparr>pkts := [framed ?str]\<rparr>"])
        (use s in \<open>simp_all add: wa_def\<close>)
    then show ?thesis
      unfolding w1_def
      by (rule inv_smart_to [where s = s and t = a and ps = "[[]]" and k = "k\<lparr>pkts := [framed ?str], sk_transport := a\<rparr>"])
        (use s kb in simp_all)
  qed
  define wc where "wc = w1\<lparr>socks := (socks w1)(s \<mapsto> ?k\<lparr>pkts := [framed dest]\<rparr>)\<rparr>"
  have kc: "socks wc s = Some (k\<lparr>sk_transport := a, pkts := [framed dest]\<rparr>)" "socks wc (peer k) = Some q"
    using sw1 ps q by (simp_all add: wc_def)
  have ic: "sock_inv {} wc" unfolding wc_def
    by (rule inv_smart_to [OF i1, where s = s and t = a and ps = "[framed dest]" and k = ?k]) (use s sw1 in simp_all)
  have same: "transports wc = transports w" "sent wc = sent w"
    using io(3,8) by (simp_all add: wc_def w1_def wb_def wa_def)
  have tc: "transports wc a = Some x" using candidate_alive [OF assms(8)] same by simp
  have nd: "length dest + 1 < MAX_PAYLOAD" using assms(13) by (simp add: MAX_PAYLOAD_def)
  obtain w2 where w2: "smart_device call_close s dest wc = Inr (1, w2)" "sock_inv {} w2"
    "sent w2 = sent wc @ [(a, wire A_OPEN (sk_id q) 0 (dest @ [0]))]" "socks w2 s = None"
    using device_request_opens [OF ic kc(1) _ _ q(2) _ assms(9) nd] kc(2) s tc ps by auto
  have "call_enqueue ?hr hs s (framed dest) w1 = Inr (1, w2)"
    using enqueue_request [of w1 s ?k dest ?hr hs] sw1 s s0 assms(12-15) w2(1) by (simp add: Let_def wc_def)
  with r1 o1 w2(2-4) same show ?thesis by (intro exI [of _ w1] exI [of _ w2]) simp
qed

section \<open>Examples\<close>

definition env0 :: host_env where
  "env0 = \<lparr>psize = 4, malloced = Some (\<lambda>_. 0), new_object = 10, new_tracker = 8, net_client = (\<lambda>_ _. - 1),
     loopback_client = (\<lambda>_. - 1), loopback_server = (\<lambda>_. - 1), service_thread = (\<lambda>_ _ _. 9), stack_int = 0,
     stack_byte = 0, stack_text = [0]\<rparr>"

definition tstate0 :: tstate where
  "tstate0 = \<lparr>tw = world0, tlinks = \<lparr>nxt = id, prv = id\<rparr>, registration = [], local_transports = replicate 16 0,
     tclosed = [], usb_kicked = [], usb_closed = []\<rparr>"

definition one_device :: atransport where "one_device = sample_transport\<lparr>t_product := None\<rparr>"

text \<open>A client connected to a smart socket, and one device.\<close>

lemma asking_world:
  obtains w where "sock_inv {} w" and "socks w = [2 \<mapsto> client_end, 6 \<mapsto> smart_end]"
    and "transports w = [7 \<mapsto> one_device]" and "transport_list w = [7]" and "sent w = []" and "outs w = (\<lambda>_. [])"
    and "wrs w = ws" and "env_ok env0 w"
proof -
  obtain w0 where w0: "sock_inv {} w0" "socks w0 = [2 \<mapsto> client_end, 6 \<mapsto> smart_end]" "transports w0 = [7 \<mapsto> sample_transport]"
    "sent w0 = []" "outs w0 = (\<lambda>_. [])" "fde_fd (fdes (ev w0) 2) = 3" "\<And>b. b \<noteq> 2 \<Longrightarrow> state (fdes (ev w0) b) = 0"
    by (rule smart_world) blast
  let ?w = "w0\<lparr>transports := [7 \<mapsto> one_device], transport_list := [7], wrs := ws\<rparr>"
  have i: "sock_inv {} ?w"
    using w0(1) by (auto simp: sock_inv_def peers_ok_def heap_ok_def lists_ok_def transports_ok_def remote_of_def w0(3)
        one_device_def split: if_splits)
  obtain ps where ps: "fd_inv (ev w0) ps" using w0(1) by (auto simp: sock_inv_def)
  have o: "fde_fd (fdes (ev w0) c) \<noteq> 9" if "bit (state (fdes (ev w0) c)) 8" for c
    using w0(6) w0(7) [of c] that by (cases "c = 2") simp_all
  have "fresh_fde 8 9 (ev w0)" by (rule fresh_beside [OF ps _ _ _ _ _ o]) (simp_all add: w0(7) list_pending_def)
  then have e: "env_ok env0 ?w" by (simp add: env_ok_def env0_def w0)
  show thesis by (rule that [OF i _ _ _ _ _ _ e]) (simp_all add: w0)
qed

lemma asked_framed:
  assumes "pkts k = []" and "1 \<le> length str" and "length str \<le> 1024" and "0 \<notin> set str"
  shows "asked k (framed str) = map_option fst (parse_request str)"
  using scan_request_whole [OF assms(2-4)] assms(1) by (simp add: asked_def collect_def)

lemma asking_ends:
  "enqueue smart_end = smart_socket_enqueue" "peer smart_end = 2" "pkts smart_end = []" "sk_transport smart_end = 7"
  "is_local client_end" "sk_fd client_end = 3" "sk_id client_end = 1"
  by (simp_all add: smart_end_def client_end_def zero_sock_def)

lemma client_cannot_crash_witness:
  "\<exists>w r w'. socks w = [2 \<mapsto> client_end, 6 \<mapsto> smart_end]
     \<and> call_enqueue (host_requests env0 tstate0) (host_service_to_socket env0) 6 (framed (ascii ''host:track-devices'')) w = Inr (r, w')
     \<and> sock_inv {} w'"
proof -
  obtain w where w: "sock_inv {} w" "socks w = [2 \<mapsto> client_end, 6 \<mapsto> smart_end]" "transports w = [7 \<mapsto> one_device]" "env_ok env0 w"
    "transport_list w = [7]" by (rule asking_world) blast
  have "listed w = [one_device]" by (simp add: listed_def transports_in_def List.map_filter_def w)
  then have f: "answers_fit w"
    by (simp add: answers_fit_def names_fit_def w short_line_def shown_serial_def statename_def one_device_def
        sample_transport_def cs_defs ascii_def)
  have "asked smart_end (framed (ascii ''host:track-devices'')) = map_option fst (parse_request (ascii ''host:track-devices''))"
    by (rule asked_framed) (simp_all add: asking_ends ascii_def)
  then have a: "asked smart_end (framed (ascii ''host:track-devices'')) = Some (ascii ''track-devices'')"
    by (simp add: parse_request_def starts_def ascii_def)
  have m: "mild (ascii ''track-devices'')" by (simp add: mild_def starts_def ascii_def)
  have "\<exists>r w'. call_enqueue (host_requests env0 tstate0) (host_service_to_socket env0) 6 (framed (ascii ''host:track-devices'')) w
      = Inr (r, w') \<and> sock_inv {} w'"
    by (rule client_cannot_crash [OF w(1), where k = smart_end and q = client_end]) (use w a m asking_ends f in auto)
  with w(2) show ?thesis by blast
qed

lemma long_request_overruns_witness:
  "\<exists>w. socks w = [2 \<mapsto> client_end, 6 \<mapsto> smart_end]
     \<and> call_enqueue (host_requests env0 tstate0) no_service 6 (framed (ascii ''host:'' @ replicate 240 97)) w = Inl Overrun"
proof -
  obtain w where w: "sock_inv {} w" "socks w = [2 \<mapsto> client_end, 6 \<mapsto> smart_end]"
    by (rule asking_world) blast
  let ?str = "ascii ''host:'' @ replicate 240 97"
  have "asked smart_end (framed ?str) = map_option fst (parse_request ?str)"
    by (rule asked_framed) (simp_all add: asking_ends ascii_def)
  then have a: "asked smart_end (framed ?str) = Some (replicate 240 97)"
    by (simp add: parse_request_def starts_def ascii_def)
  have "call_enqueue (host_requests env0 tstate0) no_service 6 (framed ?str) w = Inl Overrun"
    by (rule long_request_overruns [OF w(1) _ _ _ a, where q = client_end]) (simp_all add: w asking_ends)
  with w(2) show ?thesis by blast
qed

lemma transport_then_service_witness:
  "\<exists>w w1 w2. socks w = [2 \<mapsto> client_end, 6 \<mapsto> smart_end] \<and> sent w = []
     \<and> call_enqueue (host_requests env0 tstate0) no_service 6 (framed (ascii ''host:transport:'' @ ascii ''0123'')) w = Inr (0, w1)
     \<and> outs w1 3 = ascii ''OKAY''
     \<and> call_enqueue (host_requests env0 tstate0) no_service 6 (framed (ascii ''shell:ls'')) w1 = Inr (1, w2)
     \<and> sent w2 = [(7, wire A_OPEN 1 0 (ascii ''shell:ls'' @ [0]))]"
proof -
  obtain w where w: "sock_inv {} w" "socks w = [2 \<mapsto> client_end, 6 \<mapsto> smart_end]" "transports w = [7 \<mapsto> one_device]"
    "transport_list w = [7]" "sent w = []" "outs w = (\<lambda>_. [])" "wrs w = (\<lambda>_. [Room 4])"
    by (rule asking_world [where ws = "\<lambda>_. [Room 4]"]) blast
  have c: "candidates kTransportAny (Some (ascii ''0123'')) w = [(7, one_device)]"
    by (simp add: candidates_def transports_in_def List.map_filter_def w wanted_def serial_matches_def one_device_def
        sample_transport_def cs_defs)
  have s: "connection_state one_device \<noteq> CS_OFFLINE" by (simp add: one_device_def sample_transport_def cs_defs)
  have nb: "nb_write 4 (wrs w (sk_fd client_end)) = (Wrote 4, [])" by (simp add: w nb_write_def)
  have d: "parse_request (ascii ''shell:ls'') = None" by (simp add: parse_request_def starts_def ascii_def)
  have "\<exists>w1 w2. call_enqueue (host_requests env0 tstate0) no_service 6 (framed (ascii ''host:transport:'' @ ascii ''0123'')) w = Inr (0, w1)
    \<and> outs w1 (sk_fd client_end) = outs w (sk_fd client_end) @ ascii ''OKAY''
    \<and> call_enqueue (host_requests env0 tstate0) no_service 6 (framed (ascii ''shell:ls'')) w1 = Inr (1, w2)
    \<and> sent w2 = sent w @ [(7, wire A_OPEN (sk_id client_end) 0 (ascii ''shell:ls'' @ [0]))] \<and> socks w2 6 = None \<and> sock_inv {} w2"
    by (rule transport_then_service [OF w(1) _ _ _ _ _ nb c s _ _ _ _ _ d, where k = smart_end])
      (simp_all add: w asking_ends ascii_def)
  with w(2,5,6) asking_ends show ?thesis by auto
qed

end
