(* ===== verification/Client.thy ===== *)
theory Client
  imports Conn Jdwp Services
begin

text \<open>
  The client of the server (\<open>adb/adb_client.cpp\<close>).  A client dials the server, names a service with its
  length in four hexadecimal digits, and reads a status and perhaps a text.  \<open>dials\<close> are the results of
  the calls of \<open>socket_loopback_client\<close> to come, \<open>conns\<close> the connections by descriptor; \<open>Hangs\<close> is a
  call that never returns, \<open>Overruns\<close> an access beyond a buffer, \<open>Freed\<close> a use of freed memory.
\<close>

datatype stop = Hangs | Overruns | Freed

record client =
  c_transport :: transport_type
  c_serial :: "byte list option"
  adb_error :: "byte list"
  dials :: "int list"
  conns :: "int \<Rightarrow> conn"
  hungup :: "int list"

definition cl_readx :: "int \<Rightarrow> nat \<Rightarrow> client \<Rightarrow> stop + (int \<times> byte list \<times> client)" where
  "cl_readx fd n s = (case conn_readx n (conns s fd) of
     None \<Rightarrow> Inl Hangs
   | Some (r, bs, c) \<Rightarrow> Inr (r, bs, s\<lparr>conns := (conns s)(fd := c)\<rparr>))"

definition cl_writex :: "int \<Rightarrow> byte list \<Rightarrow> client \<Rightarrow> stop + (int \<times> client)" where
  "cl_writex fd bs s = (case conn_writex bs (conns s fd) of
     None \<Rightarrow> Inl Hangs
   | Some (r, c) \<Rightarrow> Inr (r, s\<lparr>conns := (conns s)(fd := c)\<rparr>))"

definition cl_close :: "int \<Rightarrow> client \<Rightarrow> client" where
  "cl_close fd s = s\<lparr>hungup := hungup s @ [fd]\<rparr>"

definition adb_set_transport :: "transport_type \<Rightarrow> byte list option \<Rightarrow> client \<Rightarrow> client" where
  "adb_set_transport tt sn s = s\<lparr>c_transport := tt, c_serial := sn\<rparr>"

text \<open>\<open>strtoul(buf, 0, 16)\<close> of the four bytes of a length.\<close>

definition strtoul16 :: "byte list \<Rightarrow> u32" where
  "strtoul16 str =
     (let s = dropWhile is_space str;
          neg = (take 1 s = [45]);
          s = (if take 1 s = [45] \<or> take 1 s = [43] then drop 1 s else s);
          s = (if take 1 s = [48] \<and> (take 1 (drop 1 s) = [120] \<or> take 1 (drop 1 s) = [88]) then drop 2 s else s);
          n = word_of_nat (digits 16 s 0)
      in if neg then - n else n)"

section \<open>The status\<close>

definition hex2 :: "byte \<Rightarrow> byte list" where
  "hex2 b = [hex_digit (unat b div 16), hex_digit (unat b mod 16)]"

definition status_fault :: "byte list \<Rightarrow> byte list" where
  "status_fault b = ascii ''protocol fault (status '' @ hex2 (b ! 0) @ [32] @ hex2 (b ! 1) @ [32] @ hex2 (b ! 2)
     @ [32] @ hex2 (b ! 3) @ ascii ''?!)''"

definition adb_status :: "int \<Rightarrow> client \<Rightarrow> stop + (int \<times> client)" where
  "adb_status fd s = sbind (cl_readx fd 4 s) (\<lambda>(r, b, s).
     if r \<noteq> 0 then Inr (- 1, s\<lparr>adb_error := ascii ''protocol fault (no status)''\<rparr>)
     else if b = ascii ''OKAY'' then Inr (0, s)
     else if b \<noteq> ascii ''FAIL'' then Inr (- 1, s\<lparr>adb_error := status_fault b\<rparr>)
     else sbind (cl_readx fd 4 s) (\<lambda>(r, b, s).
       if r \<noteq> 0 then Inr (- 1, s\<lparr>adb_error := ascii ''protocol fault (status len)''\<rparr>)
       else sbind (cl_readx fd (min 255 (unat (strtoul16 b))) s) (\<lambda>(r, b, s).
         if r \<noteq> 0 then Inr (- 1, s\<lparr>adb_error := ascii ''protocol fault (status read)''\<rparr>)
         else Inr (- 1, s\<lparr>adb_error := cstr b\<rparr>))))"

section \<open>Connecting\<close>

text \<open>The length in hexadecimal, then the name: two calls of \<open>writex\<close>.\<close>

definition send_service :: "int \<Rightarrow> byte list \<Rightarrow> client \<Rightarrow> stop + (int \<times> client)" where
  "send_service fd service s = sbind (cl_writex fd (hex4 (length service)) s) (\<lambda>(r, s).
     if r \<noteq> 0 then Inr (- 1, s) else cl_writex fd service s)"

definition request_service :: "int \<Rightarrow> byte list \<Rightarrow> client \<Rightarrow> stop + (int \<times> client)" where
  "request_service fd service s = sbind (send_service fd service s) (\<lambda>(r, s).
     if r \<noteq> 0 then Inr (- 1, cl_close fd (s\<lparr>adb_error := ascii ''write failure during connection''\<rparr>))
     else sbind (adb_status fd s) (\<lambda>(r, s). if r \<noteq> 0 then Inr (- 1, cl_close fd s) else Inr (0, s)))"

text \<open>The request for the transport is put into a buffer of 64 bytes.\<close>

definition switch_service :: "client \<Rightarrow> byte list option" where
  "switch_service s = (case c_serial s of
     Some sn \<Rightarrow> Some (ascii ''host:transport:'' @ sn)
   | None \<Rightarrow> (case c_transport s of
       kTransportUsb \<Rightarrow> Some (ascii ''host:transport-usb'')
     | kTransportLocal \<Rightarrow> Some (ascii ''host:transport-local'')
     | kTransportAny \<Rightarrow> Some (ascii ''host:transport-any'')
     | kTransportHost \<Rightarrow> None))"

definition switch_socket_transport :: "int \<Rightarrow> client \<Rightarrow> stop + (int \<times> client)" where
  "switch_socket_transport fd s = (case switch_service s of
     None \<Rightarrow> Inr (0, s)
   | Some service \<Rightarrow> (case snprintf 64 service of None \<Rightarrow> Inl Overruns | Some service \<Rightarrow> request_service fd service s))"

definition dial :: "client \<Rightarrow> int \<times> client" where
  "dial s = (case dials s of [] \<Rightarrow> (- 1, s) | fd # ds \<Rightarrow> (fd, s\<lparr>dials := ds\<rparr>))"

text \<open>\<open>_adb_connect\<close> logs the service first, from an array of 260 wide characters: a longer service does not
  fit with its zero, \<open>MultiByteToWideChar\<close> fails, and \<open>logcat\<close> reads beyond the array.\<close>

definition adb_connect_once :: "byte list \<Rightarrow> client \<Rightarrow> stop + (int \<times> client)" where
  "adb_connect_once service s =
     (if length service \<ge> 260 then Inl Overruns
      else if length service < 1 \<or> length service > 1024
      then Inr (- 1, s\<lparr>adb_error := ascii ''service name too long''\<rparr>)
      else case dial s of (fd, s) \<Rightarrow>
        if fd < 0 then Inr (- 2, s\<lparr>adb_error := ascii ''cannot connect to daemon''\<rparr>)
        else sbind (if take 4 service \<noteq> ascii ''host'' then switch_socket_transport fd s else Inr (0, s)) (\<lambda>(r, s).
             if r \<noteq> 0 then Inr (- 1, s)
             else sbind (request_service fd service s) (\<lambda>(r, s). Inr (if r \<noteq> 0 then - 1 else fd, s))))"

text \<open>The answer to \<open>host:version\<close>: its length must fit a buffer of 100 bytes, whose other bytes are
  those of the length, a zero and \<open>junk\<close>.  The result is the version, if there is one.\<close>

definition read_version :: "byte list \<Rightarrow> int \<Rightarrow> client \<Rightarrow> stop + (int option \<times> client)" where
  "read_version junk fd s = sbind (cl_readx fd 4 s) (\<lambda>(r, b, s).
     if r \<noteq> 0 then Inr (None, cl_close fd s)
     else let n = sint (strtoul16 b) in
       if n > 100 then Inr (None, cl_close fd s)
       else if n < 0 then Inl Overruns
       else sbind (cl_readx fd (nat n) s) (\<lambda>(r, v, s).
         if r \<noteq> 0 then Inr (None, cl_close fd s)
         else let buf = v @ drop (length v) (b @ [0] @ take 95 junk) in
           case scan_hex4 buf of
             None \<Rightarrow> Inr (None, cl_close fd (cl_close fd s))
           | Some i \<Rightarrow> Inr (Some i, cl_close fd s)))"

text \<open>The line that \<open>adb_connect\<close> prints into \<open>log\<close>, an array of 260 wide characters, without a bound.\<close>

definition connect_log :: "int \<Rightarrow> byte list \<Rightarrow> byte list" where
  "connect_log fd service = ascii ''connect result = '' @ fmt_d fd @ ascii '', service = '' @ service"

text \<open>Whether the server can be used: \<open>Some r\<close> is an early return.  A server of another version is
  told to stop.\<close>

definition check_server :: "byte list \<Rightarrow> byte list \<Rightarrow> client \<Rightarrow> stop + (int option \<times> client)" where
  "check_server junk service s = sbind (adb_connect_once (ascii ''host:version'') s) (\<lambda>(fd, s).
     if length (connect_log fd service) \<ge> 260 then Inl Overruns
     else if fd = - 2 then Inr (None, s)
     else if fd < 0 \<and> adb_error s \<noteq> ascii ''unknown host service'' then Inr (Some fd, s)
     else sbind (if fd \<ge> 0 then read_version junk fd s else Inr (Some 30, s)) (\<lambda>(v, s). case v of
            None \<Rightarrow> Inr (Some (- 1), s)
          | Some version \<Rightarrow>
              if version = 31 then Inr (None, s)
              else sbind (adb_connect_once (ascii ''host:kill'') s) (\<lambda>(fd, s). Inr (None, cl_close fd s))))"

definition adb_connect :: "byte list \<Rightarrow> byte list \<Rightarrow> client \<Rightarrow> stop + (int \<times> client)" where
  "adb_connect junk service s = sbind (check_server junk service s) (\<lambda>(early, s). case early of
     Some r \<Rightarrow> Inr (r, s)
   | None \<Rightarrow> if service = ascii ''host:start-server'' then Inr (0, s) else adb_connect_once service s)"

definition adb_command :: "byte list \<Rightarrow> byte list \<Rightarrow> client \<Rightarrow> stop + (int \<times> client)" where
  "adb_command junk service s = sbind (adb_connect junk service s) (\<lambda>(fd, s).
     if fd < 0 then Inr (- 1, s)
     else sbind (adb_status fd s) (\<lambda>(r, s). if r \<noteq> 0 then Inr (- 1, cl_close fd s) else Inr (0, s)))"

definition adb_query :: "byte list \<Rightarrow> byte list \<Rightarrow> client \<Rightarrow> stop + (byte list option \<times> client)" where
  "adb_query junk service s = sbind (adb_connect junk service s) (\<lambda>(fd, s).
     if fd < 0 then Inr (None, s)
     else sbind (cl_readx fd 4 s) (\<lambda>(r, b, s).
       if r \<noteq> 0 \<or> unat (strtoul16 b) > 1024 then Inr (None, cl_close fd s)
       else sbind (cl_readx fd (unat (strtoul16 b)) s) (\<lambda>(r, tmp, s).
         Inr (if r = 0 then Some tmp else None, cl_close fd s))))"

section \<open>The console port of an emulator\<close>

text \<open>The lines up to the first empty rest; the bytes after a zero are not looked at.\<close>

function list_lines_of :: "byte list \<Rightarrow> byte list list" where
  "list_lines_of p = (if p = [] then []
     else takeWhile (\<lambda>c. c \<noteq> 10) p # list_lines_of (drop (length (takeWhile (\<lambda>c. c \<noteq> 10) p) + 1) p))"
  by pat_completeness auto
termination
  by (relation "measure length") auto

declare list_lines_of.simps [simp del]

definition is_emulator :: "byte list \<Rightarrow> bool" where
  "is_emulator sn \<longleftrightarrow> take 9 sn = ascii ''emulator-''"

definition strtol10 :: "byte list \<Rightarrow> int" where
  "strtol10 str =
     (let s = dropWhile is_space str;
          n = int (digits 10 (if take 1 s = [45] \<or> take 1 s = [43] then drop 1 s else s) 0)
      in sint (word_of_int (if take 1 s = [45] then - n else n) :: 32 word))"

text \<open>The list of devices is freed before the serial number found in it is read.\<close>

definition adb_get_emulator_console_port :: "byte list \<Rightarrow> client \<Rightarrow> stop + (int \<times> client)" where
  "adb_get_emulator_console_port junk s = (case c_serial s of
     Some sn \<Rightarrow> Inr (if is_emulator sn then strtol10 (drop 9 sn) else - 1, s)
   | None \<Rightarrow> sbind (adb_query junk (ascii ''host:devices'') s) (\<lambda>(tmp, s). case tmp of
       None \<Rightarrow> Inr (- 1, s)
     | Some bs \<Rightarrow> (case filter is_emulator (list_lines_of (cstr bs)) of
          [] \<Rightarrow> Inr (- 1, s)
        | [_] \<Rightarrow> Inl Freed
        | _ \<Rightarrow> Inr (- 2, s))))"

end
