(* ===== verification/ClientProps.thy ===== *)
theory ClientProps
  imports HostRequestProps Client
begin

text \<open>
  Properties of the client of the server, alone and together with the server: a query is answered with
  what the state of the server says, a failure of the server reaches the client with its message, and
  the console port of an unnamed emulator is read from freed memory.
\<close>

section \<open>Hexadecimal lengths\<close>

lemma hex_digit_facts:
  assumes "d < 16"
  shows "digit_of (hex_digit d) = Some d" "\<not> is_space (hex_digit d)" "hex_digit d \<noteq> 45" "hex_digit d \<noteq> 43"
    "hex_digit d \<noteq> 120" "hex_digit d \<noteq> 88" "hex_digit d \<noteq> 0"
proof -
  from assms have "d \<in> set [0..<16]" by simp
  moreover have "\<forall>d \<in> set [0..<16]. digit_of (hex_digit d) = Some d \<and> \<not> is_space (hex_digit d) \<and> hex_digit d \<noteq> 45
      \<and> hex_digit d \<noteq> 43 \<and> hex_digit d \<noteq> 120 \<and> hex_digit d \<noteq> 88 \<and> hex_digit d \<noteq> 0"
    by (simp add: upt_rec hex_digit_def digit_of_def is_space_def)
  ultimately show "digit_of (hex_digit d) = Some d" "\<not> is_space (hex_digit d)" "hex_digit d \<noteq> 45" "hex_digit d \<noteq> 43"
    "hex_digit d \<noteq> 120" "hex_digit d \<noteq> 88" "hex_digit d \<noteq> 0" by blast+
qed

lemma strtoul16_hex4:
  assumes "n < 65536"
  shows "strtoul16 (hex4 n) = word_of_nat n"
proof -
  define a b c d where "a = n div 4096 mod 16" and "b = n div 256 mod 16" and "c = n div 16 mod 16" and "d = n mod 16"
  have l: "a < 16" "b < 16" "c < 16" "d < 16" by (simp_all add: a_def b_def c_def d_def)
  have h: "hex4 n = [hex_digit a, hex_digit b, hex_digit c, hex_digit d]"
    by (simp add: hex4_def a_def b_def c_def d_def)
  have "digits 16 (hex4 n) 0 = ((a * 16 + b) * 16 + c) * 16 + d"
    using l by (simp add: h hex_digit_facts)
  also have "\<dots> = n" using hex_parts [OF assms] by (simp only: a_def b_def c_def d_def mult.commute)
  finally show ?thesis
    using l by (simp add: strtoul16_def h hex_digit_facts Let_def)
qed

lemma unat_strtoul16: "n < 65536 \<Longrightarrow> unat (strtoul16 (hex4 n)) = n"
  by (simp add: strtoul16_hex4 unat_of_nat take_bit_nat_eq_self)

section \<open>Calls on a connection\<close>

lemma cl_readx_have:
  assumes "unread (conns s fd) = bs @ rest" and "length bs = n"
  obtains c where "cl_readx fd n s = Inr (0, bs, s\<lparr>conns := (conns s)(fd := c)\<rparr>)" and "unread c = rest"
    and "cput c = cput (conns s fd)" and "cout c = cout (conns s fd)"
proof -
  obtain c where c: "conn_readx n (conns s fd) = Some (0, bs, c)" "unread c = rest" "c = (conns s fd)\<lparr>cin := cin c\<rparr>"
    by (rule conn_readx_have [OF assms])
  note fr = conn_readx_frame [OF c(1)]
  from c(1,2) fr show thesis by (intro that [of c]) (simp_all add: cl_readx_def)
qed

lemma cl_writex_fits:
  assumes "length bs \<le> space (conns s fd)"
  obtains c where "cl_writex fd bs s = Inr (0, s\<lparr>conns := (conns s)(fd := c)\<rparr>)" and "unread c = unread (conns s fd)"
    and "cput c = cput (conns s fd) @ bs" and "space c = space (conns s fd) - length bs"
proof -
  obtain c where c: "conn_writex bs (conns s fd) = Some (0, c)" "cput c = cput (conns s fd) @ bs"
    "space c = space (conns s fd) - length bs"
    by (rule conn_writex_fits [OF assms])
  note fr = conn_writex_frame(1) [OF c(1)]
  from c fr show thesis by (intro that [of c]) (simp_all add: cl_writex_def)
qed

lemma adb_status_okay:
  assumes "unread (conns s fd) = ascii ''OKAY'' @ rest"
  obtains c where "adb_status fd s = Inr (0, s\<lparr>conns := (conns s)(fd := c)\<rparr>)" and "unread c = rest"
    and "cput c = cput (conns s fd)" and "cout c = cout (conns s fd)"
  by (rule cl_readx_have [OF assms, of 4]) (auto simp: adb_status_def ascii_def intro: that)

text \<open>A request that the server accepts.\<close>

lemma request_service_okay:
  assumes "unread (conns s fd) = ascii ''OKAY'' @ rest" and "length service + 4 \<le> space (conns s fd)"
  obtains c where "request_service fd service s = Inr (0, s\<lparr>conns := (conns s)(fd := c)\<rparr>)" and "unread c = rest"
    and "cput c = cput (conns s fd) @ framed service" and "space c = space (conns s fd) - (length service + 4)"
proof -
  have "length (hex4 (length service)) \<le> space (conns s fd)" using assms(2) by simp
  then obtain c1 where c1: "cl_writex fd (hex4 (length service)) s = Inr (0, s\<lparr>conns := (conns s)(fd := c1)\<rparr>)"
    "unread c1 = unread (conns s fd)" "cput c1 = cput (conns s fd) @ hex4 (length service)" "space c1 = space (conns s fd) - 4"
    by (rule cl_writex_fits) simp
  let ?s1 = "s\<lparr>conns := (conns s)(fd := c1)\<rparr>"
  have "length service \<le> space (conns ?s1 fd)" using c1(4) assms(2) by simp
  then obtain c2 where c2: "cl_writex fd service ?s1 = Inr (0, ?s1\<lparr>conns := (conns ?s1)(fd := c2)\<rparr>)"
    "unread c2 = unread (conns ?s1 fd)" "cput c2 = cput (conns ?s1 fd) @ service" "space c2 = space (conns ?s1 fd) - length service"
    by (rule cl_writex_fits)
  let ?s2 = "?s1\<lparr>conns := (conns ?s1)(fd := c2)\<rparr>"
  have "unread (conns ?s2 fd) = ascii ''OKAY'' @ rest" using c1 c2 assms(1) by simp
  then obtain c3 where c3: "adb_status fd ?s2 = Inr (0, ?s2\<lparr>conns := (conns ?s2)(fd := c3)\<rparr>)" "unread c3 = rest"
    "cput c3 = cput (conns ?s2 fd)" "cout c3 = cout (conns ?s2 fd)" by (rule adb_status_okay)
  show thesis
    by (rule that [of c3]) (use c1 c2 c3 in \<open>simp_all add: request_service_def send_service_def framed_def\<close>)
qed

lemma connect_once_host:
  assumes "dials s = fd # ds" and "0 \<le> fd" and "take 4 service = ascii ''host''" and "length service < 260"
    and "unread (conns s fd) = ascii ''OKAY'' @ rest" and "length service + 4 \<le> space (conns s fd)"
  obtains c where "adb_connect_once service s = Inr (fd, s\<lparr>dials := ds, conns := (conns s)(fd := c)\<rparr>)"
    and "unread c = rest" and "cput c = cput (conns s fd) @ framed service"
proof -
  have l: "service \<noteq> []" using assms(3) by (auto simp: ascii_def)
  let ?s = "s\<lparr>dials := ds\<rparr>"
  obtain c where c: "request_service fd service ?s = Inr (0, ?s\<lparr>conns := (conns ?s)(fd := c)\<rparr>)" "unread c = rest"
    "cput c = cput (conns ?s fd) @ framed service" "space c = space (conns ?s fd) - (length service + 4)"
    by (rule request_service_okay [of ?s fd rest service]) (use assms(5,6) in simp_all)
  show thesis
    by (rule that [of c]) (use l c assms(1-4) in \<open>simp_all add: adb_connect_once_def dial_def Let_def\<close>)
qed

section \<open>A server of the right version\<close>

lemma framed_reply: "length body \<le> 1024 \<Longrightarrow> reply body = ascii ''OKAY'' @ framed body"
  by (simp add: reply_def framed_def)

lemma version_scanned: "scan_hex4 (hex4 31 @ 0 # rest) = Some 31"
  by (simp add: scan_hex4_def scan_unsigned_def scan_digits_def hex4_def hex_digit_def cstr_def is_space_def hex_value_def)

text \<open>What the connection for the version needs: the answer, and room for the request.\<close>

definition current_server :: "conn \<Rightarrow> bool" where
  "current_server c \<longleftrightarrow> unread c = reply (hex4 31) \<and> 16 \<le> space c"

lemma check_server_current:
  assumes "dials s = f1 # ds" and "0 \<le> f1" and "current_server (conns s f1)" and "length (connect_log f1 service) < 260"
  obtains c where "check_server junk service s = Inr (None, s\<lparr>dials := ds, conns := (conns s)(f1 := c), hungup := hungup s @ [f1]\<rparr>)"
proof -
  have u: "unread (conns s f1) = ascii ''OKAY'' @ (hex4 4 @ hex4 31)"
    using assms(3) by (simp add: current_server_def framed_reply framed_def)
  have sp: "length (ascii ''host:version'') + 4 \<le> space (conns s f1)" using assms(3) by (simp add: current_server_def ascii_def)
  obtain c1 where c1: "adb_connect_once (ascii ''host:version'') s = Inr (f1, s\<lparr>dials := ds, conns := (conns s)(f1 := c1)\<rparr>)"
    "unread c1 = hex4 4 @ hex4 31"
    by (rule connect_once_host [OF assms(1,2) _ _ u sp]) (simp_all add: ascii_def)
  let ?s1 = "s\<lparr>dials := ds, conns := (conns s)(f1 := c1)\<rparr>"
  obtain c2 where c2: "cl_readx f1 4 ?s1 = Inr (0, hex4 4, ?s1\<lparr>conns := (conns ?s1)(f1 := c2)\<rparr>)" "unread c2 = hex4 31"
    by (rule cl_readx_have [of ?s1 f1 "hex4 4" "hex4 31" 4]) (simp_all add: c1)
  let ?s2 = "?s1\<lparr>conns := (conns ?s1)(f1 := c2)\<rparr>"
  obtain c3 where c3: "cl_readx f1 4 ?s2 = Inr (0, hex4 31, ?s2\<lparr>conns := (conns ?s2)(f1 := c3)\<rparr>)"
    by (rule cl_readx_have [of ?s2 f1 "hex4 31" "[]" 4]) (simp_all add: c2)
  have n: "sint (strtoul16 (hex4 4)) = 4" by (simp add: strtoul16_hex4)
  have "read_version junk f1 ?s1 = Inr (Some 31, cl_close f1 (?s2\<lparr>conns := (conns ?s2)(f1 := c3)\<rparr>))"
    using c2(1) c3 n version_scanned by (simp add: read_version_def)
  then show thesis
    using c1(1) assms(2,4) by (intro that [of c3]) (simp add: check_server_def cl_close_def)
qed

lemma logged_service: "length (connect_log fd service) < 260 \<Longrightarrow> length service < 260"
  by (simp add: connect_log_def)

text \<open>A query that the server answers with a text.\<close>

lemma adb_query_answered:
  assumes "dials s = f1 # f2 # ds" and "0 \<le> f1" and "0 \<le> f2" and "f1 \<noteq> f2" and "current_server (conns s f1)"
    and "take 4 service = ascii ''host''" and "length (connect_log f1 service) < 260" and "service \<noteq> ascii ''host:start-server''"
    and "unread (conns s f2) = reply body" and "length body \<le> 1024" and "length service + 4 \<le> space (conns s f2)"
  shows "\<exists>s'. adb_query junk service s = Inr (Some body, s') \<and> cput (conns s' f2) = cput (conns s f2) @ framed service"
proof -
  obtain c1 where c1: "check_server junk service s = Inr (None, s\<lparr>dials := f2 # ds, conns := (conns s)(f1 := c1), hungup := hungup s @ [f1]\<rparr>)"
    by (rule check_server_current [OF assms(1,2,5,7)])
  let ?s1 = "s\<lparr>dials := f2 # ds, conns := (conns s)(f1 := c1), hungup := hungup s @ [f1]\<rparr>"
  have u: "unread (conns ?s1 f2) = ascii ''OKAY'' @ framed body" using assms(4,9,10) by (simp add: framed_reply)
  obtain c2 where c2: "adb_connect_once service ?s1 = Inr (f2, ?s1\<lparr>dials := ds, conns := (conns ?s1)(f2 := c2)\<rparr>)"
    "unread c2 = framed body" "cput c2 = cput (conns ?s1 f2) @ framed service"
    by (rule connect_once_host [OF _ assms(3,6) logged_service [OF assms(7)] u]) (use assms(4,11) in simp_all)
  let ?s2 = "?s1\<lparr>dials := ds, conns := (conns ?s1)(f2 := c2)\<rparr>"
  have cn: "adb_connect junk service s = Inr (f2, ?s2)" using c1 c2(1) assms(8) by (simp add: adb_connect_def)
  obtain c3 where c3: "cl_readx f2 4 ?s2 = Inr (0, hex4 (length body), ?s2\<lparr>conns := (conns ?s2)(f2 := c3)\<rparr>)"
    "unread c3 = body" "cput c3 = cput c2"
    by (rule cl_readx_have [of ?s2 f2 "hex4 (length body)" body 4]) (simp_all add: c2 framed_def)
  let ?s3 = "?s2\<lparr>conns := (conns ?s2)(f2 := c3)\<rparr>"
  obtain c4 where c4: "cl_readx f2 (length body) ?s3 = Inr (0, body, ?s3\<lparr>conns := (conns ?s3)(f2 := c4)\<rparr>)" "cput c4 = cput c3"
    by (rule cl_readx_have [of ?s3 f2 body "[]" "length body"]) (simp_all add: c3)
  have n: "unat (strtoul16 (hex4 (length body))) = length body" using assms(10) by (simp add: unat_strtoul16)
  have "adb_query junk service s = Inr (Some body, cl_close f2 (?s3\<lparr>conns := (conns ?s3)(f2 := c4)\<rparr>))"
    using cn c3(1) c4(1) n assms(3,10) by (simp add: adb_query_def)
  moreover have "cput c4 = cput (conns s f2) @ framed service" using c4(2) c3(3) c2(3) assms(4) by simp
  ultimately show ?thesis by (simp add: cl_close_def)
qed

section \<open>The answers of the server\<close>

text \<open>What a query means: a function of the devices, the type and the serial number asked for.\<close>

definition device_meant :: "transport_type \<Rightarrow> byte list option \<Rightarrow> world \<Rightarrow> atransport option" where
  "device_meant tt sn w = (case candidates tt sn w of
     [(a, x)] \<Rightarrow> if connection_state x = CS_OFFLINE then None else Some x
   | _ \<Rightarrow> None)"

definition host_answer :: "byte list \<Rightarrow> transport_type \<Rightarrow> byte list option \<Rightarrow> world \<Rightarrow> byte list option" where
  "host_answer service tt sn w =
     (if service = ascii ''devices'' then Some (all_lines (listed w))
      else if service = ascii ''version'' then Some (hex4 31)
      else if service = ascii ''get-serialno'' then Some (or_unknown (Option.bind (device_meant tt sn w) serial))
      else if service = ascii ''get-devpath'' then Some (or_unknown (Option.bind (device_meant tt sn w) devpath))
      else if service = ascii ''get-state'' then Some (connection_state_name (device_meant tt sn w))
      else None)"

lemma acquire_pass_any: "acquire_pass CS_ANY tt sn w \<noteq> Inl u"
  by (auto simp: acquire_pass_def Let_def split: prod.splits option.splits if_splits)

lemma acquired_meant: "acquired tt sn s = device_meant tt sn (tw s)"
proof (cases "\<exists>a. acquire_pass CS_ANY tt sn (tw s) = Inr (Inr a)")
  case True
  then obtain a t where a: "acquire_pass CS_ANY tt sn (tw s) = Inr (Inr a)" "candidates tt sn (tw s) = [(a, t)]"
    "connection_state t \<noteq> CS_OFFLINE" unfolding acquire_pass_spec by blast
  then show ?thesis
    using candidate_alive [OF a(2)] by (simp add: acquired_def acquire_def device_meant_def)
next
  case False
  then obtain msg where m: "acquire_pass CS_ANY tt sn (tw s) = Inr (Inl msg)"
    using acquire_pass_any [of tt sn "tw s"] by (cases "acquire_pass CS_ANY tt sn (tw s)") (auto, metis sum.exhaust)
  have "device_meant tt sn (tw s) = None"
    using False unfolding acquire_pass_spec by (auto simp: device_meant_def split: list.split)
  then show ?thesis using m by (simp add: acquired_def acquire_def)
qed

lemma handle_answer:
  assumes "host_answer service tt sn (tw s) = Some body" and "length body < 4088"
  shows "handle_host_request e service tt sn fd sk s = answer fd body s"
proof -
  consider "service = ascii ''devices''" | "service = ascii ''version''" | "service = ascii ''get-serialno''"
    | "service = ascii ''get-devpath''" | "service = ascii ''get-state''"
    using assms by (auto simp: host_answer_def split: if_splits)
  then show ?thesis
  proof cases
    case 1
    then have "list_transports 4096 False (tw s) = Some body" using assms list_all [of "tw s" 4096] by (simp add: host_answer_def)
    then show ?thesis using assms 1
      by (simp add: handle_host_request_def host_answer_def devices_request_def starts_def log_suffix_def ascii_def)
  qed (use assms in \<open>simp_all add: handle_host_request_def host_answer_def starts_def log_suffix_def ascii_def
      ADB_SERVER_VERSION_def acquired_meant\<close>)
qed

lemma room_append: "room evs \<le> room (evs @ xs)"
  by (induction evs rule: room.induct) auto

lemma fd_writex_fits:
  assumes "length bs \<le> room (wrs w fd)"
  obtains evs where "fd_writex fd bs w = (0, put_out fd bs evs w)"
proof -
  have "length bs \<le> room (wrs w fd @ [WrErr EAGAIN])" using assms room_append le_trans by blast
  from writex_complete [OF this] obtain evs where "writex bs (wrs w fd @ [WrErr EAGAIN]) = Some ((0, bs), evs)" by blast
  then show thesis by (intro that [of evs]) (simp add: fd_writex_def nb_writex_def)
qed

text \<open>Closing a smart socket writes nothing to its client.\<close>

lemma destroy_outs: "local_socket_destroy s w = Inr w' \<Longrightarrow> outs w' = outs w"
  by (auto simp: local_socket_destroy_def sbind_Inr_iff fd_try_def remove_socket_def set_sock_def free_sock_def
      split: sum.splits if_splits)

lemma locked_outs:
  assumes "local_socket_close_locked cl s w = Inr w'" and "socks w s = Some k" and "peer k = 0"
  shows "outs w' = outs w"
  using assms
  by (auto simp: local_socket_close_locked_def sbind_Inr_iff deref_def set_sock_def remove_socket_def
      insert_closing_socket_def fd_op_def destroy_outs split: if_splits)

lemma smart_close_outs:
  assumes c: "call_close s w = Inr w'" and s: "socks w s = Some k" "close k = smart_socket_close" "s \<noteq> 0"
    and q: "socks w (peer k) = Some q" "close q = local_socket_close" "peer k \<noteq> 0"
  shows "outs w' = outs w"
proof -
  let ?w1 = "w\<lparr>socks := (socks w)(peer k \<mapsto> q\<lparr>peer := 0\<rparr>)\<rparr>"
  obtain w2 w3 where "local_socket_close_locked (close_sock 0) (peer k) ?w1 = Inr w2"
    "set_sock s (\<lambda>k. k\<lparr>peer := 0\<rparr>) w2 = Inr w3" "w' = free_sock s w3"
    using c s q by (auto simp: numeral_2_eq_2 close_sock.simps(2) sock_simps smart_socket_close_fn_def sbind_Inr_iff deref_def split: if_splits option.splits)
  with locked_outs [of "close_sock 0" "peer k" ?w1 w2 "q\<lparr>peer := 0\<rparr>"] show ?thesis
    by (auto simp: set_sock_def free_sock_def sbind_Inr_iff)
qed

lemma server_writes_answer:
  assumes "sock_inv {} w" and "socks w s = Some k" and "enqueue k = smart_socket_enqueue" and "pkts k = []"
    and "socks w (peer k) = Some q" and "is_local q" and "close q = local_socket_close"
    and "length (reply body) \<le> room (wrs w (sk_fd q))"
    and "parse_request str = Some (service, sn, tt)" and "host_answer service tt sn w = Some body"
    and "1 \<le> length str" and "length str \<le> 1024" and "0 \<notin> set str" and lb: "length body < 4088"
  shows "\<exists>w'. call_enqueue (host_requests e st) hs s (framed str) w = Inr (- 1, w')
    \<and> outs w' (sk_fd q) = outs w (sk_fd q) @ reply body \<and> sock_inv {} w'"
proof -
  note inv = assms(1) and s = assms(2,3) and q = assms(5,6)
  have s0: "s \<noteq> 0" by (rule sock_invD(1) [OF inv s(1)])
  have p0: "peer k \<noteq> 0" by (rule sock_invD(1) [OF inv q(1)])
  have ps: "peer k \<noteq> s" using peer_alive [OF inv s(1) _ p0] q by fastforce
  let ?k = "k\<lparr>pkts := [framed str]\<rparr>"
  define w1 where "w1 = w\<lparr>socks := (socks w)(s \<mapsto> ?k)\<rparr>"
  have k1: "socks w1 s = Some ?k" "socks w1 (peer k) = Some q" using ps q by (simp_all add: w1_def)
  have i1: "sock_inv {} w1" unfolding w1_def
    by (rule inv_smart_to [OF inv s, where t = "sk_transport k" and ps = "[framed str]"]) simp_all
  have tr: "transports_in w1 = transports_in w" by (simp add: transports_in_def w1_def)
  have h: "host_answer service tt sn w1 = Some body"
    using assms(10) unfolding host_answer_def device_meant_def candidates_def listed_def tr .
  have "length (reply body) \<le> room (wrs w1 (sk_fd q))" using assms(8) by (simp add: w1_def)
  then obtain evs where f: "fd_writex (sk_fd q) (reply body) w1 = (0, put_out (sk_fd q) (reply body) evs w1)"
    by (rule fd_writex_fits)
  let ?w2 = "put_out (sk_fd q) (reply body) evs w1"
  have hr: "host_requests e st service tt sn (sk_fd q) s w1 = Inr (0, ?w2)"
    using handle_answer [of service tt sn "st\<lparr>tw := w1\<rparr>" body] h f lb by (simp add: host_requests_def answer_fits)
  have i2: "sock_inv {} ?w2" "socks ?w2 s = Some ?k" "socks ?w2 (peer ?k) = Some q" using i1 k1 by simp_all
  obtain w' where w': "call_close s ?w2 = Inr w'" "sock_inv {} w'" by (rule close_safe [OF i2(1,2)])
  have "vtable_ok k" using sock_invD(2) [OF inv s(1)] .
  then have ck: "close ?k = smart_socket_close" using s(2) by (simp add: vtable_ok.simps)
  have "outs w' = outs ?w2" by (rule smart_close_outs [OF w'(1) i2(2) ck s0 i2(3) assms(7)]) (use p0 in simp)
  moreover have "smart_host (host_requests e st) hs call_close rdy s service sn tt w1 = Inr (- 1, w')" for rdy
    using s0 p0 k1 hr w'(1) by (simp add: smart_host_def deref_def smart_fail_def)
  then have "call_enqueue (host_requests e st) hs s (framed str) w = Inr (- 1, w')"
    using enqueue_request [OF s(1) s0 s(2) _ assms(11-13), of "host_requests e st" hs] assms(4,9)
    by (simp add: Let_def w1_def)
  ultimately show ?thesis using w'(2) by (simp add: w1_def)
qed

lemma starts_take: "starts p s \<Longrightarrow> n \<le> length p \<Longrightarrow> take n s = take n p"
  unfolding starts_def by (metis min.absorb1 take_take)

lemma parse_request_host:
  assumes "parse_request str = Some r"
  shows "take 4 str = ascii ''host''"
proof -
  have "starts (ascii ''host-serial:'') str \<or> starts (ascii ''host-usb:'') str \<or> starts (ascii ''host-local:'') str
      \<or> starts (ascii ''host:'') str"
    using assms by (auto simp: parse_request_def split: if_splits)
  then show ?thesis
    using starts_take [of "ascii ''host-serial:''" str 4] starts_take [of "ascii ''host-usb:''" str 4]
      starts_take [of "ascii ''host-local:''" str 4] starts_take [of "ascii ''host:''" str 4]
    by (elim disjE) (simp_all add: ascii_def)
qed

section \<open>Client and server together\<close>

text \<open>C5. A query is answered with the truth: what \<open>adb_query\<close> sends makes the smart socket of the server
  write a reply, and when that reply arrives, in whatever pieces, \<open>adb_query\<close> returns exactly the text
  that the state of the server defines: the list of the devices, the version, or the serial number, path or
  state of the one device that is meant.  The text has at most 1024 bytes (\<open>adb_query\<close> refuses a longer one, see
  \<open>long_answer_refused\<close>), the request is short enough for the line that \<open>adb_connect\<close> logs (260 characters with 31 of
  its own and the number of the descriptor), the server has the version of the client, and the client and the connection take what is written.\<close>

theorem query_answered:
  assumes "sock_inv {} w" and "socks w s = Some k" and "enqueue k = smart_socket_enqueue" and "pkts k = []"
    and "socks w (peer k) = Some q" and "is_local q" and "close q = local_socket_close"
    and "length (reply body) \<le> room (wrs w (sk_fd q))" and "outs w (sk_fd q) = []"
    and "parse_request str = Some (service, sn, tt)" and "host_answer service tt sn w = Some body"
    and "length (connect_log f1 str) < 260" and "0 \<notin> set str" and "length body \<le> 1024"
    and "dials c = f1 # f2 # ds" and "0 \<le> f1" and "0 \<le> f2" and "f1 \<noteq> f2" and "current_server (conns c f1)"
    and "cput (conns c f2) = []" and "length str + 4 \<le> space (conns c f2)"
  shows "\<exists>w'. call_enqueue (host_requests e st) hs s (framed str) w = Inr (- 1, w')
    \<and> (unread (conns c f2) = outs w' (sk_fd q) \<longrightarrow>
         (\<exists>c'. adb_query junk str c = Inr (Some body, c') \<and> cput (conns c' f2) = framed str))"
proof -
  have h4: "take 4 str = ascii ''host''" by (rule parse_request_host [OF assms(10)])
  then have l1: "1 \<le> length str" by (cases str) (auto simp: ascii_def)
  have l2: "length str \<le> 1024" using logged_service [OF assms(12)] by simp
  obtain w' where w': "call_enqueue (host_requests e st) hs s (framed str) w = Inr (- 1, w')"
    "outs w' (sk_fd q) = outs w (sk_fd q) @ reply body"
    using server_writes_answer [OF assms(1-8,10,11) l1 l2 assms(13), of e st hs] assms(14) by auto
  have ns: "str \<noteq> ascii ''host:start-server''"
  proof
    assume "str = ascii ''host:start-server''"
    then have "service = ascii ''start-server''" using assms(10) by (simp add: parse_request_def starts_def ascii_def)
    then show False using assms(11) by (simp add: host_answer_def ascii_def)
  qed
  have "\<exists>c'. adb_query junk str c = Inr (Some body, c') \<and> cput (conns c' f2) = framed str"
    if "unread (conns c f2) = outs w' (sk_fd q)"
    using adb_query_answered [OF assms(15-19) h4 assms(12) ns _ assms(14,21), of junk] that w'(2) assms(9,20) by simp
  with w'(1) show ?thesis by blast
qed

definition answering_client :: "byte list \<Rightarrow> client" where
  "answering_client answer_bytes = \<lparr>c_transport = kTransportAny, c_serial = None, adb_error = [], dials = [11, 12],
     conns = (\<lambda>fd. \<lparr>cin = [Avail (if fd = 11 then reply (hex4 31) else answer_bytes)], cout = [Room 100], cput = []\<rparr>),
     hungup = []\<rparr>"

lemma query_answered_witness:
  "\<exists>w w' c c'. socks w = [2 \<mapsto> client_end, 6 \<mapsto> smart_end]
     \<and> call_enqueue (host_requests env0 tstate0) no_service 6 (framed (ascii ''host:devices'')) w = Inr (- 1, w')
     \<and> unread (conns c 12) = outs w' 3
     \<and> adb_query [] (ascii ''host:devices'') c = Inr (Some (ascii ''0123'' @ [9] @ ascii ''device'' @ [10]), c')"
proof -
  let ?body = "ascii ''0123'' @ [9] @ ascii ''device'' @ [10]" and ?str = "ascii ''host:devices''"
  let ?call = "call_enqueue (host_requests env0 tstate0) no_service 6 (framed ?str)"
  obtain w where w: "sock_inv {} w" "socks w = [2 \<mapsto> client_end, 6 \<mapsto> smart_end]" "transports w = [7 \<mapsto> one_device]"
    "transport_list w = [7]" "outs w = (\<lambda>_. [])" "wrs w = (\<lambda>_. [Room 100])"
    by (rule asking_world [where ws = "\<lambda>_. [Room 100]"]) blast
  have t: "transports_in w = [(7, one_device)]" by (simp add: transports_in_def List.map_filter_def w)
  have sl: "short_line one_device = ?body"
    by (simp add: short_line_def shown_serial_def statename_def one_device_def sample_transport_def cs_defs ascii_def)
  have l: "all_lines (listed w) = ?body" using sl by (simp add: listed_def t)
  have h: "host_answer (ascii ''devices'') kTransportAny None w = Some ?body" using l by (simp add: host_answer_def)
  have p: "parse_request ?str = Some (ascii ''devices'', None, kTransportAny)"
    by (simp add: parse_request_def starts_def ascii_def)
  have lb: "length ?body = 12" "length (reply ?body) \<le> 100" "reply ?body \<noteq> []" by (simp_all add: reply_def ascii_def)
  let ?c = "answering_client (reply ?body)"
  have f1: "current_server (conns ?c 11)" by (simp add: current_server_def answering_client_def reply_def ascii_def)
  have u: "unread (conns ?c 12) = reply ?body" using lb(3) by (simp add: answering_client_def)
  obtain w1 where w1: "?call w = Inr (- 1, w1)" "outs w1 3 = reply ?body"
    using server_writes_answer [OF w(1) _ _ _ _ _ _ _ p h, where s = 6 and k = smart_end and q = client_end and e = env0
        and st = tstate0 and hs = no_service] lb(2) w
    by (auto simp: asking_ends ascii_def client_end_def zero_sock_def)
  have "\<exists>w'. ?call w = Inr (- 1, w')
    \<and> (unread (conns ?c 12) = outs w' (sk_fd client_end) \<longrightarrow>
         (\<exists>c'. adb_query [] ?str ?c = Inr (Some ?body, c') \<and> cput (conns c' 12) = framed ?str))"
    by (rule query_answered [OF w(1) _ _ _ _ _ _ _ _ p h _ _ _ _ _ _ _ f1, where k = smart_end and q = client_end and ds = "[]"])
      (use lb w in \<open>simp_all add: asking_ends client_end_def zero_sock_def answering_client_def ascii_def
        connect_log_def fmt_d_def decimal.simps\<close>)
  then have "\<exists>c'. adb_query [] ?str ?c = Inr (Some ?body, c')" using w1 u asking_ends(6) by auto
  with w(2) w1 u show ?thesis by metis
qed

section \<open>Failures\<close>

lemma sendfailmsg_fits:
  assumes "length msg + 8 \<le> room (wrs w fd)" and "length msg \<le> 0xffff"
  shows "outs (snd (sendfailmsg fd msg w)) fd = outs w fd @ ascii ''FAIL'' @ framed msg"
proof -
  let ?h = "ascii ''FAIL'' @ hex4 (length msg)"
  have "length ?h \<le> room (wrs w fd)" using assms(1) by (simp add: ascii_def)
  from writex_complete [OF order_trans [OF this room_append [of _ "[WrErr EAGAIN]"]]] obtain evs where
    a: "writex ?h (wrs w fd @ [WrErr EAGAIN]) = Some ((0, ?h), evs)"
    "room evs = room (wrs w fd @ [WrErr EAGAIN]) - length ?h" by blast
  let ?w1 = "put_out fd ?h evs w"
  have f: "fd_writex fd ?h w = (0, ?w1)" using a(1) by (simp add: fd_writex_def nb_writex_def)
  have "length msg \<le> room (wrs ?w1 fd)" using a(2) assms(1) room_append [of "wrs w fd" "[WrErr EAGAIN]"] by (simp add: ascii_def)
  then obtain evs2 where "fd_writex fd msg ?w1 = (0, put_out fd msg evs2 ?w1)" by (rule fd_writex_fits)
  then show ?thesis using f assms(2) by (simp add: sendfailmsg_def min_def framed_def)
qed

text \<open>A failure reaches the client with its message: when the server answers a request with
  \<open>sendfailmsg\<close> and the bytes arrive in whatever pieces, \<open>adb_status\<close> fails and \<open>adb_error\<close> is the first
  255 bytes of the message.\<close>

theorem failure_reported:
  assumes "length msg + 8 \<le> room (wrs w g)" and "length msg \<le> 0xffff" and "0 \<notin> set msg" and "outs w g = []"
    and "unread (conns c fd) = outs (snd (sendfailmsg g msg w)) g"
  shows "\<exists>c'. adb_status fd c = Inr (- 1, c') \<and> adb_error c' = take 255 msg"
proof -
  have u: "unread (conns c fd) = ascii ''FAIL'' @ hex4 (length msg) @ msg"
    using sendfailmsg_fits [OF assms(1,2)] assms(4,5) by (simp add: framed_def)
  obtain c1 where c1: "cl_readx fd 4 c = Inr (0, ascii ''FAIL'', c\<lparr>conns := (conns c)(fd := c1)\<rparr>)" "unread c1 = hex4 (length msg) @ msg"
    by (rule cl_readx_have [OF u, of 4]) (simp_all add: ascii_def)
  let ?s1 = "c\<lparr>conns := (conns c)(fd := c1)\<rparr>"
  obtain c2 where c2: "cl_readx fd 4 ?s1 = Inr (0, hex4 (length msg), ?s1\<lparr>conns := (conns ?s1)(fd := c2)\<rparr>)" "unread c2 = msg"
    by (rule cl_readx_have [of ?s1 fd "hex4 (length msg)" msg 4]) (simp_all add: c1)
  let ?s2 = "?s1\<lparr>conns := (conns ?s1)(fd := c2)\<rparr>" and ?n = "min 255 (length msg)"
  obtain c3 where c3: "cl_readx fd ?n ?s2 = Inr (0, take 255 msg, ?s2\<lparr>conns := (conns ?s2)(fd := c3)\<rparr>)"
    by (rule cl_readx_have [of ?s2 fd "take 255 msg" "drop 255 msg" ?n]) (simp_all add: c2)
  have "unat (strtoul16 (hex4 (length msg))) = length msg" using assms(2) by (simp add: unat_strtoul16)
  moreover have "cstr (take 255 msg) = take 255 msg" using assms(3) by (intro cstr_id) (auto dest: in_set_takeD)
  ultimately show ?thesis using c1(1) c2(1) c3 by (simp add: adb_status_def ascii_def)
qed

lemma failure_reported_witness:
  "\<exists>c c'. unread (conns c 12) = ascii ''FAIL'' @ framed (ascii ''device offline'')
     \<and> adb_status 12 c = Inr (- 1, c') \<and> adb_error c' = ascii ''device offline''"
proof -
  let ?msg = "ascii ''device offline''" and ?w = "world0\<lparr>wrs := \<lambda>_. [Room 100], outs := \<lambda>_. []\<rparr>"
  let ?c = "answering_client (ascii ''FAIL'' @ framed ?msg)"
  have o: "outs (snd (sendfailmsg 3 ?msg ?w)) 3 = ascii ''FAIL'' @ framed ?msg"
    using sendfailmsg_fits [of ?msg ?w 3] by (simp add: ascii_def)
  have u: "unread (conns ?c 12) = ascii ''FAIL'' @ framed ?msg" by (simp add: answering_client_def ascii_def)
  have "\<exists>c'. adb_status 12 ?c = Inr (- 1, c') \<and> adb_error c' = take 255 ?msg"
    by (rule failure_reported [of ?msg ?w 3]) (use o u in \<open>simp_all add: ascii_def\<close>)
  with u show ?thesis by (auto simp: ascii_def)
qed

text \<open>Without a serial number the console port of an emulator is never found: the search ends with a
  failure or with a use of freed memory.\<close>

lemma no_console_port:
  assumes "c_serial s = None" and "adb_get_emulator_console_port junk s = Inr (r, s')"
  shows "r = - 1 \<or> r = - 2"
  using assms by (auto simp: adb_get_emulator_console_port_def elim!: sbind_InrE split: option.split_asm list.split_asm)

text \<open>A text of more than 1024 bytes is refused, though the server sends up to 4087.\<close>

lemma long_answer_refused:
  assumes "adb_connect junk service s = Inr (fd, s1)" and "0 \<le> fd" and "unread (conns s1 fd) = framed body"
    and "1024 < length body" and "length body \<le> 4087"
  shows "\<exists>s'. adb_query junk service s = Inr (None, s')"
proof -
  obtain c where c: "cl_readx fd 4 s1 = Inr (0, hex4 (length body), s1\<lparr>conns := (conns s1)(fd := c)\<rparr>)"
    by (rule cl_readx_have [of s1 fd "hex4 (length body)" body 4]) (simp_all add: assms framed_def)
  show ?thesis using assms c by (simp add: adb_query_def unat_strtoul16)
qed

end
