(* ===== verification/Zipfile.thy ===== *)
theory Zipfile
  imports Prelude
begin

text \<open>
  The reader of zip archives (\<open>adb/centraldir.cpp\<close>, \<open>adb/zipfile.cpp\<close>, \<open>adb/private.h\<close>), with which the
  client looks for the manifest in a package before it installs it.  A pointer into the archive is its
  distance from the start of the buffer, a number of 32 bits like the pointers of the machine, so that
  sums of file offsets wrap; a read outside of the buffer is the result \<open>Outside\<close>.  The buffer is
  shorter than \<open>2 ^ 31\<close>, since its size is an \<open>int\<close>.
\<close>

datatype zip_fault = Outside

type_synonym zpos = u32

record zipentry =
  fileNameLength :: u32
  fileName :: "zpos option"
  compressionMethod :: u16
  uncompressedSize :: u32
  compressedSize :: u32
  zdata :: zpos

record zipfile =
  zbuf :: "byte list"
  disknum :: u16
  diskWithCentralDir :: u16
  entryCount :: u16
  totalEntryCount :: u16
  centralDirSize :: u32
  centralDirOffest :: u32
  commentLen :: u16
  zcomment :: "zpos option"
  entries :: "zipentry list"

definition CD_SIGNATURE :: u32 where "CD_SIGNATURE = 0x06054b50"
definition ENTRY_SIGNATURE :: u32 where "ENTRY_SIGNATURE = 0x02014b50"
definition EOCD_LEN :: int where "EOCD_LEN = 22"
definition MAX_EOCD_SEARCH :: nat where "MAX_EOCD_SEARCH = 65535 + 22"
definition ENTRY_LEN :: u32 where "ENTRY_LEN = 46"
definition LFH_SIZE :: u32 where "LFH_SIZE = 30"

lemmas zip_consts = CD_SIGNATURE_def ENTRY_SIGNATURE_def EOCD_LEN_def MAX_EOCD_SEARCH_def ENTRY_LEN_def LFH_SIZE_def

section \<open>Fields\<close>

definition le16_of :: "byte list \<Rightarrow> u16" where
  "le16_of bs = (case bs of a # b # _ \<Rightarrow> ucast a OR push_bit 8 (ucast b) | _ \<Rightarrow> 0)"

definition le16_bytes :: "u16 \<Rightarrow> byte list" where
  "le16_bytes w = [ucast w, ucast (drop_bit 8 w)]"

definition read_le_int :: "byte list \<Rightarrow> zpos \<Rightarrow> zip_fault + u32" where
  "read_le_int buf p = (if unat p + 4 \<le> length buf then Inr (le32_of (drop (unat p) buf)) else Inl Outside)"

definition read_le_short :: "byte list \<Rightarrow> zpos \<Rightarrow> zip_fault + u16" where
  "read_le_short buf p = (if unat p + 2 \<le> length buf then Inr (le16_of (drop (unat p) buf)) else Inl Outside)"

section \<open>The end of the central directory\<close>

text \<open>The search runs backwards: \<open>find_eocd buf start k\<close> tries the positions \<open>start + k - 1\<close> to \<open>start\<close>.\<close>

fun find_eocd :: "byte list \<Rightarrow> nat \<Rightarrow> nat \<Rightarrow> nat option" where
  "find_eocd buf start 0 = None"
| "find_eocd buf start (Suc k) =
     (if buf ! (start + k) = 0x50 \<and> le32_of (drop (start + k) buf) = CD_SIGNATURE then Some (start + k)
      else find_eocd buf start k)"

definition read_central_dir_values :: "zipfile \<Rightarrow> zpos \<Rightarrow> int \<Rightarrow> zip_fault + (int \<times> zipfile)" where
  "read_central_dir_values file eocd len =
     (if len < EOCD_LEN then Inr (- 1, file)
      else let b = zbuf file in
        sbind (read_le_short b (eocd + 4)) (\<lambda>disk.
        sbind (read_le_short b (eocd + 6)) (\<lambda>cddisk.
        sbind (read_le_short b (eocd + 8)) (\<lambda>count.
        sbind (read_le_short b (eocd + 10)) (\<lambda>total.
        sbind (read_le_int b (eocd + 12)) (\<lambda>cdsize.
        sbind (read_le_int b (eocd + 16)) (\<lambda>cdoff.
        sbind (read_le_short b (eocd + 20)) (\<lambda>clen.
          let file = file\<lparr>disknum := disk, diskWithCentralDir := cddisk, entryCount := count,
                totalEntryCount := total, centralDirSize := cdsize, centralDirOffest := cdoff, commentLen := clen\<rparr>
          in if clen > 0
             then if EOCD_LEN + uint clen > len then Inr (- 1, file)
                  else Inr (0, file\<lparr>zcomment := Some (eocd + 22)\<rparr>)
             else Inr (0, file)))))))))"

section \<open>One entry\<close>

text \<open>The entry at \<open>p\<close> and the position behind it, \<open>None\<close> for the result -1.  The length \<open>len\<close> is tested
  and never changed.  Fields that nothing reads are left out.\<close>

definition read_central_directory_entry ::
    "byte list \<Rightarrow> zpos \<Rightarrow> int \<Rightarrow> zip_fault + (zipentry \<times> zpos) option" where
  "read_central_directory_entry b p len =
     (if len < uint ENTRY_LEN then Inr None
      else sbind (read_le_int b p) (\<lambda>sig.
        if sig \<noteq> ENTRY_SIGNATURE then Inr None
        else
          sbind (read_le_short b (p + 0x0a)) (\<lambda>cmethod.
          sbind (read_le_int b (p + 0x14)) (\<lambda>csize.
          sbind (read_le_int b (p + 0x18)) (\<lambda>usize.
          sbind (read_le_short b (p + 0x1c)) (\<lambda>nlen.
          sbind (read_le_short b (p + 0x1e)) (\<lambda>xlen.
          sbind (read_le_short b (p + 0x20)) (\<lambda>clen.
          sbind (read_le_int b (p + 0x2a)) (\<lambda>lho.
          sbind (read_le_short b (lho + 0x1c)) (\<lambda>lxlen.
            Inr (Some (\<lparr>fileNameLength = ucast nlen,
                 fileName = (if nlen \<noteq> 0 then Some (p + ENTRY_LEN) else None),
                 compressionMethod = cmethod, uncompressedSize = usize, compressedSize = csize,
                 zdata = lho + LFH_SIZE + ucast nlen + ucast lxlen\<rparr>,
               p + ENTRY_LEN + ucast nlen + ucast xlen + ucast clen))))))))))))"

fun read_entries :: "nat \<Rightarrow> zipfile \<Rightarrow> zpos \<Rightarrow> int \<Rightarrow> zip_fault + (int \<times> zipfile)" where
  "read_entries 0 file p len = Inr (0, file)"
| "read_entries (Suc n) file p len = sbind (read_central_directory_entry (zbuf file) p len) (\<lambda>e. case e of
     None \<Rightarrow> Inr (- 1, file)
   | Some (entry, p) \<Rightarrow> read_entries n (file\<lparr>entries := entry # entries file\<rparr>) p len)"

section \<open>The directory\<close>

text \<open>\<open>(buf + bufsize) - p\<close> is a difference of pointers in an \<open>int\<close>.\<close>

definition zdist :: "byte list \<Rightarrow> zpos \<Rightarrow> int" where
  "zdist b p = sint (word_of_nat (length b) - p)"

definition read_central_dir :: "zipfile \<Rightarrow> zip_fault + (int \<times> zipfile)" where
  "read_central_dir file =
     (let b = zbuf file; bufsize = length b in
      if int bufsize < EOCD_LEN then Inr (- 1, file)
      else let start = (if bufsize > MAX_EOCD_SEARCH then bufsize - MAX_EOCD_SEARCH else 0)
        in case find_eocd b start (bufsize - 4 + 1 - start) of
             None \<Rightarrow> Inr (- 1, file)
           | Some eocd \<Rightarrow>
               sbind (read_central_dir_values file (word_of_nat eocd) (int (bufsize - eocd))) (\<lambda>(err, file).
                 if err \<noteq> 0 then Inr (- 1, file)
                 else if disknum file \<noteq> 0 \<or> diskWithCentralDir file \<noteq> 0 \<or> entryCount file \<noteq> totalEntryCount file
                 then Inr (- 1, file)
                 else read_entries (unat (totalEntryCount file)) file (centralDirOffest file) (zdist b (centralDirOffest file))))"

definition init_zipfile :: "byte list \<Rightarrow> zip_fault + zipfile option" where
  "init_zipfile data =
     sbind (read_central_dir \<lparr>zbuf = data, disknum = 0, diskWithCentralDir = 0, entryCount = 0, totalEntryCount = 0,
       centralDirSize = 0, centralDirOffest = 0, commentLen = 0, zcomment = None, entries = []\<rparr>) (\<lambda>(err, file).
       Inr (if err \<noteq> 0 then None else Some file))"

section \<open>Looking an entry up\<close>

text \<open>\<open>memcmp\<close> of the name asked for, with its terminator, and the \<open>fileNameLength\<close> bytes of the entry:
  it stops at the first difference, and it fails outside of either buffer.\<close>

fun memcmp_name :: "byte list \<Rightarrow> byte list \<Rightarrow> nat \<Rightarrow> zip_fault + bool" where
  "memcmp_name s t 0 = Inr True"
| "memcmp_name [] t (Suc n) = Inl Outside"
| "memcmp_name s [] (Suc n) = Inl Outside"
| "memcmp_name (c # s) (d # t) (Suc n) = (if c = d then memcmp_name s t n else Inr False)"

definition name_bytes :: "byte list \<Rightarrow> zipentry \<Rightarrow> byte list" where
  "name_bytes b e = (case fileName e of None \<Rightarrow> [] | Some p \<Rightarrow> drop (unat p) b)"

fun lookup_entries :: "byte list \<Rightarrow> byte list \<Rightarrow> zipentry list \<Rightarrow> zip_fault + zipentry option" where
  "lookup_entries b name [] = Inr None"
| "lookup_entries b name (e # es) = sbind (memcmp_name (name @ [0]) (name_bytes b e) (unat (fileNameLength e))) (\<lambda>eq.
     if eq then Inr (Some e) else lookup_entries b name es)"

definition lookup_zipentry :: "zipfile \<Rightarrow> byte list \<Rightarrow> zip_fault + zipentry option" where
  "lookup_zipentry file name = lookup_entries (zbuf file) name (entries file)"

definition get_zipentry_size :: "zipentry \<Rightarrow> u32" where
  "get_zipentry_size e = uncompressedSize e"

definition get_zipentry_name :: "byte list \<Rightarrow> zipentry \<Rightarrow> zip_fault + byte list" where
  "get_zipentry_name b e = (let l = unat (fileNameLength e) in
     if l \<le> length (name_bytes b e) then Inr (take l (name_bytes b e)) else Inl Outside)"

text \<open>The iterator: the cookie is the rest of the list from the entry given out last, \<open>None\<close> before the
  first call and after the end, so that a call after the end starts again.\<close>

definition iterate_zipfile :: "zipfile \<Rightarrow> zipentry list option \<Rightarrow> zipentry option \<times> zipentry list option" where
  "iterate_zipfile file cookie =
     (let l = (case cookie of None \<Rightarrow> entries file | Some l \<Rightarrow> tl l)
      in case l of [] \<Rightarrow> (None, None) | e # _ \<Rightarrow> (Some e, Some l))"

text \<open>The dump goes through \<open>entryCount\<close> entries; \<open>None\<close> is a null entry that it follows.\<close>

fun dump_names :: "byte list \<Rightarrow> nat \<Rightarrow> zipentry list \<Rightarrow> (byte list list) option" where
  "dump_names b 0 es = Some []"
| "dump_names b (Suc n) [] = None"
| "dump_names b (Suc n) (e # es) =
     map_option (Cons (take (unat (fileNameLength e)) (name_bytes b e))) (dump_names b n es)"

end
