(* ===== verification/SyncClient.thy ===== *)
theory SyncClient
  imports Client FileSync Zipfile
begin

text \<open>
  The client of the file transfer service (\<open>adb/file_sync_client.cpp\<close>): listing a directory of the device,
  asking for the time and the mode of a file, sending a file and receiving one.  The state is that of the
  service, the connection with the history of system calls and the static buffer, extended by what the
  client prints on its error stream, how often it closes the connection and its count of bytes.
  \<open>strerror\<close> is the constant text that the source defines it to be.  A length that arrives as a negative
  \<open>int\<close> passes the tests of the source and asks for more than the buffer holds: \<open>Overruns\<close>.  Paths are
  those of the Windows build.
\<close>

declare sbind_cong [fundef_cong]

record push = sync +
  shown :: "byte list list"
  hung :: nat
  total_bytes :: u32

definition sc_readx :: "int \<Rightarrow> push \<Rightarrow> stop + (int \<times> byte list \<times> push)" where
  "sc_readx n s = (if n < 0 then Inl Overruns
     else case conn_readx (nat n) s of None \<Rightarrow> Inl Hangs | Some x \<Rightarrow> Inr x)"

definition sc_writex :: "byte list \<Rightarrow> push \<Rightarrow> stop + (int \<times> push)" where
  "sc_writex bs s = (case conn_writex bs s of None \<Rightarrow> Inl Hangs | Some x \<Rightarrow> Inr x)"

definition say :: "byte list \<Rightarrow> push \<Rightarrow> push" where
  "say line s = s\<lparr>shown := shown s @ [line]\<rparr>"

definition hang_up :: "push \<Rightarrow> push" where
  "hang_up s = s\<lparr>hung := hung s + 1\<rparr>"

definition tally :: "nat \<Rightarrow> push \<Rightarrow> push" where
  "tally n s = s\<lparr>total_bytes := total_bytes s + word_of_nat n\<rparr>"

text \<open>The request: its header, then the path; nothing of the second when the first fails.\<close>

definition sync_request :: "u32 \<Rightarrow> byte list \<Rightarrow> push \<Rightarrow> stop + (int \<times> push)" where
  "sync_request i path s = sbind (sc_writex (msg_data i (word_of_nat (length path))) s) (\<lambda>(r, s).
     if r \<noteq> 0 then Inr (- 1, s) else sc_writex path s)"

definition sync_quit :: "push \<Rightarrow> stop + (int \<times> push)" where
  "sync_quit s = sc_writex (msg_data ID_QUIT 0) s"

section \<open>Listing\<close>

text \<open>A call of the call-back: mode, size, time and name.\<close>

type_synonym ls_call = "u32 \<times> u32 \<times> u32 \<times> byte list"

lemma sc_readx_shrinks: "sc_readx n s = Inr (0, bs, s') \<Longrightarrow> 0 < n \<Longrightarrow> length (unread s') < length (unread s)"
  using conn_readx_ok [of "nat n" s bs s'] by (auto simp: sc_readx_def split: if_splits option.splits)

lemma sc_readx_shrinks_le: "sc_readx n s = Inr (0, bs, s') \<Longrightarrow> length (unread s') \<le> length (unread s)"
  using conn_readx_ok [of "nat n" s bs s'] by (auto simp: sc_readx_def split: if_splits option.splits)

function ls_loop :: "ls_call list \<Rightarrow> push \<Rightarrow> stop + (int \<times> ls_call list \<times> push)" where
  "ls_loop calls s = sbind (sc_readx 20 s) (\<lambda>(r, d, s1).
     if r \<noteq> 0 then Inr (- 1, calls, hang_up s1)
     else if le32_of d = ID_DONE then Inr (0, calls, s1)
     else if le32_of d \<noteq> ID_DENT then Inr (- 1, calls, hang_up s1)
     else let len = sint (le32_of (drop 16 d)) in
       if len > 256 then Inr (- 1, calls, hang_up s1)
       else sbind (sc_readx len s1) (\<lambda>(r, name, s2).
         if r \<noteq> 0 then Inr (- 1, calls, hang_up s2)
         else ls_loop (calls @ [(le32_of (drop 4 d), le32_of (drop 8 d), le32_of (drop 12 d), cstr name)]) s2))"
  by pat_completeness auto
termination
proof (relation "measure (\<lambda>(calls, s). length (unread s))", goal_cases)
  case 1
  show ?case by simp
next
  case (2 calls s a r p d s1 len b r2 q name s2)
  then have "length (unread s1) < length (unread s)" "length (unread s2) \<le> length (unread s1)"
    using sc_readx_shrinks [of 20 s d s1] sc_readx_shrinks_le [of len s1 name s2] by auto
  then show ?case by simp
qed

declare ls_loop.simps [simp del]

definition sync_ls :: "byte list \<Rightarrow> push \<Rightarrow> stop + (int \<times> ls_call list \<times> push)" where
  "sync_ls path s =
     (if length path > 1024 then Inr (- 1, [], hang_up s)
      else sbind (sync_request ID_LIST path s) (\<lambda>(r, s).
        if r \<noteq> 0 then Inr (- 1, [], hang_up s) else ls_loop [] s))"

section \<open>Time and mode of a file\<close>

text \<open>Two calls, so that a request can be sent before the answer to the one before it is read; the result
  is the answer's time, mode and size.\<close>

definition sync_start_readtime :: "byte list \<Rightarrow> push \<Rightarrow> stop + (int \<times> push)" where
  "sync_start_readtime path s = sbind (sync_request ID_STAT path s) (\<lambda>(r, s). Inr (if r \<noteq> 0 then - 1 else 0, s))"

definition sync_finish_readtime :: "push \<Rightarrow> stop + ((u32 \<times> u32 \<times> u32) option \<times> push)" where
  "sync_finish_readtime s = sbind (sc_readx 16 s) (\<lambda>(r, m, s).
     Inr (if r \<noteq> 0 \<or> le32_of m \<noteq> ID_STAT then None
          else Some (le32_of (drop 12 m), le32_of (drop 4 m), le32_of (drop 8 m)), s))"

definition sync_readtime :: "byte list \<Rightarrow> push \<Rightarrow> stop + (u32 option \<times> push)" where
  "sync_readtime path s = sbind (sync_request ID_STAT path s) (\<lambda>(r, s).
     if r \<noteq> 0 then Inr (None, s)
     else sbind (sc_readx 16 s) (\<lambda>(r, m, s).
       Inr (if r \<noteq> 0 \<or> le32_of m \<noteq> ID_STAT then None else Some (le32_of (drop 12 m)), s)))"

definition sync_readmode :: "byte list \<Rightarrow> push \<Rightarrow> stop + (u32 option \<times> push)" where
  "sync_readmode path s = sbind (sync_request ID_STAT path s) (\<lambda>(r, s).
     if r \<noteq> 0 then Inr (None, s)
     else sbind (sc_readx 16 s) (\<lambda>(r, m, s).
       Inr (if r \<noteq> 0 \<or> le32_of m \<noteq> ID_STAT then None else Some (le32_of (drop 4 m)), s)))"

section \<open>Sending the data of a file\<close>

definition quoted :: "byte list \<Rightarrow> byte list" where
  "quoted s = [39] @ s @ [39]"

definition file_error :: "byte list" where
  "file_error = ascii '': file error''"

text \<open>\<open>n\<close> bounds the reads of the file, which the environment decides.\<close>

fun data_file_loop :: "nat \<Rightarrow> environment \<Rightarrow> byte list \<Rightarrow> push \<Rightarrow> stop + (int \<times> push)" where
  "data_file_loop 0 os path s = Inl Hangs"
| "data_file_loop (Suc n) os path s = (case syscall os (Read path SYNC_DATA_MAX) s of
     (Err e, s) \<Rightarrow>
       if e = EINTR_FS then data_file_loop n os path s
       else Inr (0, say (ascii ''cannot read '' @ quoted path @ file_error) s)
   | (Data bs, s) \<Rightarrow>
       if bs = [] then Inr (0, s)
       else sbind (sc_writex (msg_data ID_DATA (word_of_nat (length bs)) @ bs) (fill bs s)) (\<lambda>(r, s).
         if r \<noteq> 0 then Inr (- 1, s) else data_file_loop n os path (tally (length bs) s))
   | (_, s) \<Rightarrow> Inl Hangs)"

definition write_data_file :: "nat \<Rightarrow> environment \<Rightarrow> byte list \<Rightarrow> push \<Rightarrow> stop + (int \<times> push)" where
  "write_data_file n os path s = (case syscall os (Open path [O_RDONLY] 0) s of
     (Err e, s) \<Rightarrow> Inr (- 1, say (ascii ''cannot open '' @ quoted path @ file_error) s)
   | (_, s) \<Rightarrow> sbind (data_file_loop n os path s) (\<lambda>(err, s). Inr (err, snd (syscall os (Close path) s))))"

text \<open>The buffer is sent in chunks of at most \<open>SYNC_DATA_MAX\<close> bytes.\<close>

function write_data_buffer :: "byte list \<Rightarrow> push \<Rightarrow> stop + (int \<times> push)" where
  "write_data_buffer buf s =
     (if buf = [] then Inr (0, s)
      else let c = take SYNC_DATA_MAX buf in
        sbind (sc_writex (msg_data ID_DATA (word_of_nat (length c)) @ c) (fill c s)) (\<lambda>(r, s).
          if r \<noteq> 0 then Inr (- 1, s) else write_data_buffer (drop SYNC_DATA_MAX buf) (tally (length c) s)))"
  by pat_completeness auto
termination
  by (relation "measure (\<lambda>(buf, s). length buf)") (auto simp: SYNC_DATA_MAX_def)

declare write_data_buffer.simps [simp del]

section \<open>Checking a package\<close>

text \<open>What a check of the file finds: \<open>Inl r\<close> is the early return, \<open>Inr b\<close> the contents of the file.  A
  read outside of the buffer is \<open>Overruns\<close>.\<close>

definition zip_check :: "byte list \<Rightarrow> byte list \<Rightarrow> push \<Rightarrow> stop + ((int + byte list) \<times> push)" where
  "zip_check lpath buf s = (case init_zipfile buf of
     Inl Outside \<Rightarrow> Inl Overruns
   | Inr None \<Rightarrow> Inr (Inl 1, say (ascii ''file '' @ quoted lpath @ ascii '' is not a valid zip file'') s)
   | Inr (Some z) \<Rightarrow> (case lookup_zipentry z (ascii ''AndroidManifest.xml'') of
        Inl Outside \<Rightarrow> Inl Overruns
      | Inr None \<Rightarrow> Inr (Inl 1, say (ascii ''file '' @ quoted lpath @ ascii '' does not contain AndroidManifest.xml'') s)
      | Inr (Some entry) \<Rightarrow> Inr (Inr buf, s)))"

definition load_package :: "environment \<Rightarrow> byte list \<Rightarrow> push \<Rightarrow> stop + ((int + byte list) \<times> push)" where
  "load_package os lpath s = (case syscall os (Open lpath [O_RDONLY] 0) s of
     (Err e, s) \<Rightarrow> Inr (Inl (- 1), say (ascii ''cannot open '' @ quoted lpath @ file_error) s)
   | (_, s) \<Rightarrow>
     let close = (\<lambda>s. snd (syscall os (Close lpath) s));
         seek_error = (\<lambda>s. Inr (Inl 1, close (say (ascii ''error seeking in file '' @ quoted lpath) s)))
     in case syscall os (Seek_end lpath) s of
       (Size sz, s) \<Rightarrow> (case syscall os (Seek_set lpath) s of
          (Err e, s) \<Rightarrow> seek_error s
        | (_, s) \<Rightarrow> (case syscall os (Read lpath sz) s of
             (Data bs, s) \<Rightarrow>
               if length bs \<noteq> sz then Inr (Inl 1, close (say (ascii ''error reading from file: '' @ quoted lpath) s))
               else zip_check lpath bs (close s)
           | (_, s) \<Rightarrow> Inr (Inl 1, close (say (ascii ''error reading from file: '' @ quoted lpath) s))))
     | (_, s) \<Rightarrow> seek_error s)"

section \<open>Sending a file\<close>

definition S_ISREG :: "u32 \<Rightarrow> bool" where
  "S_ISREG m \<longleftrightarrow> m AND 0xf000 = 0x8000"

text \<open>\<open>snprintf(tmp, 64, ",%d", mode)\<close>.\<close>

definition mode_text :: "u32 \<Rightarrow> byte list" where
  "mode_text mode = (let m = sint mode in
     [44] @ (if m < 0 then [45] @ decimal (nat (- m)) else decimal (nat m)))"

definition protocol_failure :: "push \<Rightarrow> stop + (int \<times> push)" where
  "protocol_failure s = Inr (- 1, hang_up (say (ascii ''protocol failure'') s))"

definition copy_failure :: "byte list \<Rightarrow> byte list \<Rightarrow> byte list \<Rightarrow> push \<Rightarrow> push" where
  "copy_failure from dest reason = say (ascii ''failed to copy '' @ quoted from @ ascii '' to '' @ quoted dest @ ascii '': '' @ reason)"

text \<open>The message that follows DONE: OKAY, or FAIL with a reason of which at most 256 bytes are read.\<close>

definition read_status :: "byte list \<Rightarrow> byte list \<Rightarrow> push \<Rightarrow> stop + (int \<times> push)" where
  "read_status lpath rpath s = sbind (sc_readx 8 s) (\<lambda>(r, m, s).
     if r \<noteq> 0 then Inr (- 1, s)
     else if le32_of m = ID_OKAY then Inr (0, s)
     else if le32_of m = ID_FAIL then
       sbind (sc_readx (min 256 (sint (le32_of (drop 4 m)))) s) (\<lambda>(r, reason, s).
         if r \<noteq> 0 then Inr (- 1, s)
         else Inr (- 1, copy_failure lpath rpath (cstr reason) (fill (reason @ [0]) s)))
     else Inr (- 1, copy_failure lpath rpath (ascii ''unknown reason'') (fill (ascii ''unknown reason'' @ [0]) s)))"

text \<open>The results of the functions that send the data are not looked at.\<close>

definition send_contents ::
    "nat \<Rightarrow> environment \<Rightarrow> byte list \<Rightarrow> u32 \<Rightarrow> byte list option \<Rightarrow> push \<Rightarrow> stop + (bool \<times> push)" where
  "send_contents n os lpath mode file_buffer s = (case file_buffer of
     Some buf \<Rightarrow> sbind (write_data_buffer buf s) (\<lambda>(_, s). Inr (True, s))
   | None \<Rightarrow> if S_ISREG mode then sbind (write_data_file n os lpath s) (\<lambda>(_, s). Inr (True, s)) else Inr (False, s))"

definition send_checked ::
    "nat \<Rightarrow> environment \<Rightarrow> byte list \<Rightarrow> byte list \<Rightarrow> u32 \<Rightarrow> u32 \<Rightarrow> byte list option \<Rightarrow> push \<Rightarrow> stop + (int \<times> push)" where
  "send_checked n os lpath rpath mtime mode file_buffer s =
     (let tmp = mode_text mode in
      sbind (sc_writex (msg_data ID_SEND (word_of_nat (length rpath + length tmp))) s) (\<lambda>(r, s).
      if r \<noteq> 0 then protocol_failure s
      else sbind (sc_writex rpath s) (\<lambda>(r, s).
      if r \<noteq> 0 then protocol_failure s
      else sbind (sc_writex tmp s) (\<lambda>(r, s).
      if r \<noteq> 0 then protocol_failure s
      else sbind (send_contents n os lpath mode file_buffer s) (\<lambda>(sent, s).
      if \<not> sent then protocol_failure s
      else sbind (sc_writex (msg_data ID_DONE mtime) s) (\<lambda>(r, s).
      if r \<noteq> 0 then protocol_failure s
      else read_status lpath rpath s))))))"

definition sync_send ::
    "nat \<Rightarrow> environment \<Rightarrow> byte list \<Rightarrow> byte list \<Rightarrow> u32 \<Rightarrow> u32 \<Rightarrow> bool \<Rightarrow> push \<Rightarrow> stop + (int \<times> push)" where
  "sync_send n os lpath rpath mtime mode verifyApk s =
     (if length rpath > 1024 then protocol_failure s
      else if verifyApk then sbind (load_package os lpath s) (\<lambda>(v, s). case v of
          Inl r \<Rightarrow> Inr (r, s)
        | Inr buf \<Rightarrow> send_checked n os lpath rpath mtime mode (Some buf) s)
      else send_checked n os lpath rpath mtime mode None s)"

section \<open>Receiving a file\<close>

text \<open>\<open>adb_dirstart\<close> of the Windows build: the first slash and the first backslash are looked for, and of the
  two the later one is taken.\<close>

fun find_byte :: "byte \<Rightarrow> byte list \<Rightarrow> nat \<Rightarrow> nat option" where
  "find_byte b [] i = None"
| "find_byte b (c # cs) i = (if c = b then Some i else find_byte b cs (i + 1))"

lemma find_byte_bound: "find_byte b cs i = Some j \<Longrightarrow> i \<le> j \<and> j < i + length cs"
  by (induction b cs i rule: find_byte.induct) (auto split: if_splits)

definition adb_dirstart :: "byte list \<Rightarrow> nat \<Rightarrow> nat option" where
  "adb_dirstart name i = (case find_byte 47 (drop i name) i of
     None \<Rightarrow> find_byte 92 (drop i name) i
   | Some p \<Rightarrow> (case find_byte 92 (drop i name) i of
        Some p2 \<Rightarrow> Some (if p2 > p then p2 else p)
      | None \<Rightarrow> Some p))"

lemma adb_dirstart_bound: "adb_dirstart name i = Some j \<Longrightarrow> i \<le> j \<and> j < length name"
  by (auto simp: adb_dirstart_def split: option.splits if_splits dest!: find_byte_bound)

text \<open>The separators are replaced by backslashes in the caller's string as the directories are made; the
  result holds the string as it is left.\<close>

function cl_mkdirs_loop :: "environment \<Rightarrow> byte list \<Rightarrow> nat \<Rightarrow> push \<Rightarrow> int \<times> byte list \<times> push" where
  "cl_mkdirs_loop os name i s = (case adb_dirstart name i of
     None \<Rightarrow> (0, name, s)
   | Some j \<Rightarrow> (case syscall os (Mkdir (take j name) mode_0775) s of (r, s1) \<Rightarrow>
        let name = name[j := 92] in
        if mkdir_failed r then (- 1, name, s1) else cl_mkdirs_loop os name (j + 1) s1))"
  by pat_completeness auto
termination
  by (relation "measure (\<lambda>(os, name, i, s). length name - i)") (auto dest!: adb_dirstart_bound)

declare cl_mkdirs_loop.simps [simp del]

definition cl_mkdirs :: "environment \<Rightarrow> byte list \<Rightarrow> push \<Rightarrow> int \<times> byte list \<times> push" where
  "cl_mkdirs os name s = cl_mkdirs_loop os name 1 s"

definition mode_0644 :: u32 where "mode_0644 = 6 * 64 + 4 * 8 + 4"

text \<open>The label \<open>remote_error\<close>: the local file is removed, the reason is shown, and the result is 0.  The
  name of an unknown message is shown as it is.\<close>

definition remote_error :: "environment \<Rightarrow> byte list \<Rightarrow> byte list \<Rightarrow> bool \<Rightarrow> byte list \<Rightarrow> push \<Rightarrow> stop + (int \<times> push)" where
  "remote_error os rpath lpath opened m s =
     (let s = (if opened then snd (syscall os (Close lpath) s) else s);
          s = snd (syscall os (Unlink lpath) s)
      in if le32_of m = ID_FAIL then
           sbind (sc_readx (min 256 (sint (le32_of (drop 4 m)))) s) (\<lambda>(r, reason, s).
             if r \<noteq> 0 then Inr (- 1, s)
             else Inr (0, copy_failure rpath lpath (cstr reason) (fill (reason @ [0]) s)))
         else Inr (0, copy_failure rpath lpath (cstr (take 4 m)) (fill (take 4 m @ [0]) s)))"

lemma tally_sel [simp]: "cin (tally n s) = cin s" "cout (tally n s) = cout s" "cput (tally n s) = cput s"
  "trace (tally n s) = trace s" "sbuf (tally n s) = sbuf s" "shown (tally n s) = shown s" "hung (tally n s) = hung s"
  by (simp_all add: tally_def)

lemma recv_step_shrinks:
  assumes "sc_readx n s = Inr (0, bs, s1)" and "(w, s2) = syscall os q (fill bs s1)" and "sc_readx 8 (tally k s2) = Inr (0, m, s3)"
  shows "length (unread s3) < length (unread s)"
proof -
  have "cin s2 = cin s1" using assms(2) by (auto simp: syscall_def)
  then show ?thesis using sc_readx_shrinks_le [OF assms(1)] sc_readx_shrinks [OF assms(3)] by simp
qed

text \<open>\<open>m\<close> is the message that has been read; the local file is open.  A failure to read the next message
  leaves it open.\<close>

function recv_data :: "environment \<Rightarrow> byte list \<Rightarrow> byte list \<Rightarrow> byte list \<Rightarrow> push \<Rightarrow> stop + (int \<times> push)" where
  "recv_data os rpath lpath m s =
     (let len = sint (le32_of (drop 4 m)); close = (\<lambda>s. snd (syscall os (Close lpath) s)) in
      if le32_of m = ID_DONE then Inr (0, close s)
      else if le32_of m \<noteq> ID_DATA then remote_error os rpath lpath True m s
      else if len > int SYNC_DATA_MAX then Inr (- 1, close (say (ascii ''data overrun'') s))
      else sbind (sc_readx len s) (\<lambda>(r, bs, s1).
        if r \<noteq> 0 then Inr (- 1, close s1)
        else (case syscall os (Write lpath bs) (fill bs s1) of (w, s2) \<Rightarrow>
          if failed w \<noteq> None then Inr (- 1, close (say (ascii ''cannot write '' @ quoted rpath @ file_error) s2))
          else sbind (sc_readx 8 (tally (length bs) s2)) (\<lambda>(r, m, s3).
            if r \<noteq> 0 then Inr (- 1, s3) else recv_data os rpath lpath m s3))))"
  by pat_completeness auto

termination
  by (relation "measure (\<lambda>(os, rpath, lpath, m, s). length (unread s))") (auto dest: recv_step_shrinks)

declare recv_data.simps [simp del]

definition sync_recv :: "environment \<Rightarrow> byte list \<Rightarrow> byte list \<Rightarrow> push \<Rightarrow> stop + (int \<times> push)" where
  "sync_recv os rpath lpath s =
     (if length rpath > 1024 then Inr (- 1, s)
      else sbind (sync_request ID_RECV rpath s) (\<lambda>(r, s).
        if r \<noteq> 0 then Inr (- 1, s)
        else sbind (sc_readx 8 s) (\<lambda>(r, m, s).
          if r \<noteq> 0 then Inr (- 1, s)
          else if le32_of m = ID_DATA \<or> le32_of m = ID_DONE then
            (let s = snd (syscall os (Unlink lpath) s)
             in case cl_mkdirs os lpath s of (_, lpath, s) \<Rightarrow>
               (case syscall os (Creat lpath mode_0644) s of
                  (Err e, s) \<Rightarrow> Inr (- 1, say (ascii ''cannot create '' @ quoted lpath @ file_error) s)
                | (_, s) \<Rightarrow> recv_data os rpath lpath m s))
          else remote_error os rpath lpath False m s)))"

section \<open>The command ls\<close>

text \<open>\<open>%08x\<close>.\<close>

definition hex8 :: "u32 \<Rightarrow> byte list" where
  "hex8 w = map (\<lambda>k. hex_digit (unat (drop_bit (4 * k) w AND 15))) [7, 6, 5, 4, 3, 2, 1, 0]"

definition do_sync_ls_cb :: "ls_call \<Rightarrow> byte list" where
  "do_sync_ls_cb c = (case c of (mode, sz, time, name) \<Rightarrow> hex8 mode @ [32] @ hex8 sz @ [32] @ hex8 time @ [32] @ name)"

text \<open>The session of a descriptor that the client of the server has connected.\<close>

definition session :: "client \<Rightarrow> int \<Rightarrow> push" where
  "session s fd = \<lparr>cin = cin (conns s fd), cout = cout (conns s fd), cput = cput (conns s fd), trace = [], sbuf = [],
     shown = [], hung = 0, total_bytes = 0\<rparr>"

text \<open>The exit status, the lines printed, and the session if there was one.\<close>

definition do_sync_ls :: "byte list \<Rightarrow> byte list \<Rightarrow> client \<Rightarrow> stop + (int \<times> byte list list \<times> push option)" where
  "do_sync_ls junk path s = sbind (adb_connect junk (ascii ''sync:'') s) (\<lambda>(fd, s).
     if fd < 0 then Inr (1, [ascii ''error: '' @ adb_error s], None)
     else sbind (sync_ls path (session s fd)) (\<lambda>(r, calls, p).
       if r \<noteq> 0 then Inr (1, map do_sync_ls_cb calls, Some p)
       else sbind (sync_quit p) (\<lambda>(_, p). Inr (0, map do_sync_ls_cb calls, Some p))))"

text \<open>The entry of a list of files to copy: the paths are the directory and the name, and a slash after the
  name of a directory, put into buffers with room for all of it.\<close>

record copyinfo =
  ci_src :: "byte list"
  ci_dst :: "byte list"
  ci_time :: u32
  ci_mode :: u32
  ci_size :: u32
  ci_flag :: int

definition mkcopyinfo :: "byte list \<Rightarrow> byte list \<Rightarrow> byte list \<Rightarrow> bool \<Rightarrow> copyinfo" where
  "mkcopyinfo spath dpath name isdir =
     (let full = (\<lambda>p. p @ name @ (if isdir then [47] else []));
          ssize = length spath + length name + 2; dsize = length dpath + length name + 2
      in \<lparr>ci_src = take (ssize - 1) (full spath), ci_dst = take (dsize - 1) (full dpath),
          ci_time = 0, ci_mode = 0, ci_size = 0, ci_flag = 0\<rparr>)"

end
