(* ===== verification/ZipfileProps.thy ===== *)
theory ZipfileProps
  imports Zipfile
begin

text \<open>
  Properties of the zip reader.  \<open>archive\<close> writes a directory the way the format has it; reading it
  gives the names, sizes and places of the members back, in reverse.  A lookup takes a member whose name
  is a prefix of the one asked for, and the place of a member is followed without a test.
\<close>

section \<open>The search\<close>

definition has_magic :: "byte list \<Rightarrow> nat \<Rightarrow> bool" where
  "has_magic b i \<longleftrightarrow> b ! i = 0x50 \<and> le32_of (drop i b) = CD_SIGNATURE"

lemma find_eocd_iff:
  "find_eocd b start k = Some i \<longleftrightarrow> start \<le> i \<and> i < start + k \<and> has_magic b i \<and> (\<forall>j. i < j \<and> j < start + k \<longrightarrow> \<not> has_magic b j)"
proof (induction k)
  case 0
  show ?case by simp
next
  case (Suc k)
  show ?case
  proof (cases "has_magic b (start + k)")
    case True
    then have "find_eocd b start (Suc k) = Some (start + k)" by (simp add: has_magic_def)
    moreover have "i = start + k" if "i < start + Suc k" "\<forall>j. i < j \<and> j < start + Suc k \<longrightarrow> \<not> has_magic b j"
      using that True by (metis add_Suc_right less_Suc_eq lessI)
    ultimately show ?thesis using True by auto
  next
    case False
    then have "find_eocd b start (Suc k) = find_eocd b start k" by (auto simp: has_magic_def)
    with Suc False show ?thesis by (auto simp: less_Suc_eq)
  qed
qed

section \<open>Fields of a record\<close>

lemma length_le16_bytes [simp]: "length (le16_bytes w) = 2"
  by (simp add: le16_bytes_def)

lemma le16_of_bytes [simp]: "le16_of (le16_bytes w @ rest) = w"
proof -
  have "(ucast (ucast w :: byte) :: u16) OR push_bit 8 (ucast (ucast (drop_bit 8 w) :: byte)) = w"
  proof (rule bit_word_eqI)
    fix n :: nat
    assume "n < LENGTH(16)"
    then consider "n < 8" | "8 \<le> n" "n < 16" by fastforce
    then show "bit ((ucast (ucast w :: byte) :: u16) OR push_bit 8 (ucast (ucast (drop_bit 8 w) :: byte))) n = bit w n"
      by cases (auto simp: bit_simps)
  qed
  then show ?thesis by (simp add: le16_of_def le16_bytes_def)
qed

lemma le16_of_bytes_Nil [simp]: "le16_of (le16_bytes w) = w"
  using le16_of_bytes [of w "[]"] by simp

lemma unat_pos:
  fixes c :: u32
  assumes "n + unat c < 2 ^ 31"
  shows "unat (word_of_nat n + c) = n + unat c"
proof -
  have "unat (word_of_nat n :: u32) = n" using assms by (simp add: unat_of_nat)
  then show ?thesis using assms by (subst unat_add_lem [THEN iffD1]) simp_all
qed

lemma read_le_int_at:
  assumes "length pre + length x < 2 ^ 31" and "unat c + 4 \<le> length x"
  shows "read_le_int (pre @ x) (word_of_nat (length pre) + c) = Inr (le32_of (drop (unat c) x))"
  using assms unat_pos [of "length pre" c] by (simp add: read_le_int_def)

lemma read_le_short_at:
  assumes "length pre + length x < 2 ^ 31" and "unat c + 2 \<le> length x"
  shows "read_le_short (pre @ x) (word_of_nat (length pre) + c) = Inr (le16_of (drop (unat c) x))"
  using assms unat_pos [of "length pre" c] by (simp add: read_le_short_def)

section \<open>Writing an archive\<close>

record member =
  m_name :: "byte list"
  m_method :: u16
  m_csize :: u32
  m_usize :: u32
  m_extra :: "byte list"
  m_comment :: "byte list"
  m_offset :: u32

definition cd_entry :: "member \<Rightarrow> byte list" where
  "cd_entry m = le32_bytes ENTRY_SIGNATURE @ replicate 6 0 @ le16_bytes (m_method m) @ replicate 8 0
     @ le32_bytes (m_csize m) @ le32_bytes (m_usize m) @ le16_bytes (word_of_nat (length (m_name m)))
     @ le16_bytes (word_of_nat (length (m_extra m))) @ le16_bytes (word_of_nat (length (m_comment m)))
     @ replicate 8 0 @ le32_bytes (m_offset m) @ m_name m @ m_extra m @ m_comment m"

definition end_record :: "nat \<Rightarrow> nat \<Rightarrow> nat \<Rightarrow> byte list" where
  "end_record n csize off = le32_bytes CD_SIGNATURE @ le16_bytes 0 @ le16_bytes 0 @ le16_bytes (word_of_nat n) @ le16_bytes (word_of_nat n)
     @ le32_bytes (word_of_nat csize) @ le32_bytes (word_of_nat off) @ le16_bytes 0"

definition directory_of :: "member list \<Rightarrow> byte list" where
  "directory_of ms = concat (map cd_entry ms)"

definition archive :: "byte list \<Rightarrow> member list \<Rightarrow> byte list" where
  "archive body ms = body @ directory_of ms @ end_record (length ms) (length (directory_of ms)) (length body)"

text \<open>The fields fit; the local header is inside; no second signature in the final record.\<close>

definition member_ok :: "byte list \<Rightarrow> member \<Rightarrow> bool" where
  "member_ok b m \<longleftrightarrow> length (m_name m) < 2 ^ 16 \<and> length (m_extra m) < 2 ^ 16 \<and> length (m_comment m) < 2 ^ 16
     \<and> unat (m_offset m) + 30 \<le> length b"

definition archive_ok :: "byte list \<Rightarrow> member list \<Rightarrow> bool" where
  "archive_ok body ms \<longleftrightarrow> length (archive body ms) < 2 ^ 31 \<and> length ms < 2 ^ 16
     \<and> (\<forall>j\<in>set [1..<19]. le32_of (drop j (end_record (length ms) (length (directory_of ms)) (length body))) \<noteq> CD_SIGNATURE)"

lemma length_cd_entry: "length (cd_entry m) = 46 + length (m_name m) + length (m_extra m) + length (m_comment m)"
  by (simp add: cd_entry_def)

lemma length_end_record [simp]: "length (end_record n c off) = 22"
  by (simp add: end_record_def)

section \<open>Reading an entry back\<close>

definition local_extra :: "byte list \<Rightarrow> member \<Rightarrow> u16" where
  "local_extra b m = le16_of (drop (unat (m_offset m) + 28) b)"

definition entry_of :: "byte list \<Rightarrow> nat \<Rightarrow> member \<Rightarrow> zipentry" where
  "entry_of b i m = \<lparr>fileNameLength = word_of_nat (length (m_name m)),
     fileName = (if m_name m \<noteq> [] then Some (word_of_nat i + ENTRY_LEN) else None),
     compressionMethod = m_method m, uncompressedSize = m_usize m, compressedSize = m_csize m,
     zdata = m_offset m + LFH_SIZE + word_of_nat (length (m_name m)) + ucast (local_extra b m)\<rparr>"

lemma unat_len16: "n < 2 ^ 16 \<Longrightarrow> unat (word_of_nat n :: u16) = n"
  by (simp add: unat_of_nat)

lemma ucast_len16: "n < 2 ^ 16 \<Longrightarrow> (ucast (word_of_nat n :: u16) :: u32) = word_of_nat n"
  by (simp add: word_unat_eq_iff unsigned_ucast_eq unat_of_nat take_bit_nat_eq_self)

lemma len16_zero: "n < 2 ^ 16 \<Longrightarrow> (word_of_nat n :: u16) = 0 \<longleftrightarrow> n = 0"
  by (simp add: word_unat_eq_iff unat_of_nat take_bit_nat_eq_self)

lemma entry_fields:
  assumes "length pre + length (cd_entry m @ suf) < 2 ^ 31"
  defines "b \<equiv> pre @ cd_entry m @ suf" and "p \<equiv> word_of_nat (length pre)"
  shows "read_le_int b p = Inr ENTRY_SIGNATURE" "read_le_short b (p + 0x0a) = Inr (m_method m)"
    "read_le_int b (p + 0x14) = Inr (m_csize m)" "read_le_int b (p + 0x18) = Inr (m_usize m)"
    "read_le_short b (p + 0x1c) = Inr (word_of_nat (length (m_name m)))"
    "read_le_short b (p + 0x1e) = Inr (word_of_nat (length (m_extra m)))"
    "read_le_short b (p + 0x20) = Inr (word_of_nat (length (m_comment m)))"
    "read_le_int b (p + 0x2a) = Inr (m_offset m)"
proof -
  note at = read_le_int_at [OF assms(1)] read_le_short_at [OF assms(1)]
  show "read_le_int b p = Inr ENTRY_SIGNATURE"
    using at(1) [of 0] by (simp add: b_def p_def length_cd_entry) (simp add: cd_entry_def)
  show "read_le_short b (p + 0x0a) = Inr (m_method m)"
    using at(2) [of "0x0a"] by (simp add: b_def p_def length_cd_entry) (simp add: cd_entry_def)
  show "read_le_int b (p + 0x14) = Inr (m_csize m)"
    using at(1) [of "0x14"] by (simp add: b_def p_def length_cd_entry) (simp add: cd_entry_def)
  show "read_le_int b (p + 0x18) = Inr (m_usize m)"
    using at(1) [of "0x18"] by (simp add: b_def p_def length_cd_entry) (simp add: cd_entry_def)
  show "read_le_short b (p + 0x1c) = Inr (word_of_nat (length (m_name m)))"
    using at(2) [of "0x1c"] by (simp add: b_def p_def length_cd_entry) (simp add: cd_entry_def)
  show "read_le_short b (p + 0x1e) = Inr (word_of_nat (length (m_extra m)))"
    using at(2) [of "0x1e"] by (simp add: b_def p_def length_cd_entry) (simp add: cd_entry_def)
  show "read_le_short b (p + 0x20) = Inr (word_of_nat (length (m_comment m)))"
    using at(2) [of "0x20"] by (simp add: b_def p_def length_cd_entry) (simp add: cd_entry_def)
  show "read_le_int b (p + 0x2a) = Inr (m_offset m)"
    using at(1) [of "0x2a"] by (simp add: b_def p_def length_cd_entry) (simp add: cd_entry_def)
qed

lemma read_entry_back:
  assumes "length pre + length (cd_entry m @ suf) < 2 ^ 31" and "46 \<le> len"
    and b: "b = pre @ cd_entry m @ suf" and "member_ok b m"
  shows "read_central_directory_entry b (word_of_nat (length pre)) len
     = Inr (Some (entry_of b (length pre) m, word_of_nat (length pre + length (cd_entry m))))"
proof -
  have ok: "length (m_name m) < 2 ^ 16" "length (m_extra m) < 2 ^ 16" "length (m_comment m) < 2 ^ 16"
    "unat (m_offset m) + 30 \<le> length b" using assms(4) by (auto simp: member_ok_def)
  have "unat (m_offset m + 28) = unat (m_offset m) + 28"
    using ok(4) assms(1) b by (subst unat_add_lem [THEN iffD1]) simp_all
  then have lx: "read_le_short b (m_offset m + 0x1c) = Inr (local_extra b m)"
    using ok(4) by (simp add: read_le_short_def local_extra_def)
  note f = entry_fields [OF assms(1), folded b]
  have "word_of_nat (length pre) + ENTRY_LEN + word_of_nat (length (m_name m)) + word_of_nat (length (m_extra m))
      + word_of_nat (length (m_comment m)) = (word_of_nat (length pre + length (cd_entry m)) :: u32)"
    by (simp add: length_cd_entry ENTRY_LEN_def add.commute add.left_commute)
  then show ?thesis
    using f lx assms(2) ok
    by (simp add: read_central_directory_entry_def entry_of_def ucast_len16 len16_zero ENTRY_LEN_def)
qed

fun entries_of :: "byte list \<Rightarrow> nat \<Rightarrow> member list \<Rightarrow> zipentry list" where
  "entries_of b i [] = []"
| "entries_of b i (m # ms) = entry_of b i m # entries_of b (i + length (cd_entry m)) ms"

lemma read_entries_back:
  assumes "length b < 2 ^ 31" and "46 \<le> len" and "zbuf f = b" and "b = pre @ directory_of ms @ suf"
    and "\<forall>m\<in>set ms. member_ok b m"
  shows "read_entries (length ms) f (word_of_nat (length pre)) len
    = Inr (0, f\<lparr>entries := rev (entries_of b (length pre) ms) @ entries f\<rparr>)"
  using assms(3-5)
proof (induction ms arbitrary: pre f)
  case Nil
  show ?case by simp
next
  case (Cons m ms)
  let ?f = "f\<lparr>entries := entry_of b (length pre) m # entries f\<rparr>"
  have eq: "b = pre @ cd_entry m @ directory_of ms @ suf" using Cons.prems(2) by (simp add: directory_of_def)
  then have "length pre + length (cd_entry m @ directory_of ms @ suf) < 2 ^ 31" using assms(1) by simp
  note one = read_entry_back [OF this assms(2) eq]
  have "read_entries (length ms) ?f (word_of_nat (length (pre @ cd_entry m))) len
    = Inr (0, ?f\<lparr>entries := rev (entries_of b (length (pre @ cd_entry m)) ms) @ entries ?f\<rparr>)"
    by (rule Cons.IH) (use Cons.prems eq in simp_all)
  then show ?case using one Cons.prems by simp
qed

section \<open>Reading an archive back\<close>

lemma zdist_inside: "n \<le> length b \<Longrightarrow> length b < 2 ^ 31 \<Longrightarrow> zdist b (word_of_nat n) = int (length b - n)"
  using sint_small [of "length b - n"] by (simp add: zdist_def of_nat_diff)

lemma end_record_found:
  assumes "archive_ok body ms"
  defines "b \<equiv> archive body ms" and "i \<equiv> length body + length (directory_of ms)"
  defines "start \<equiv> (if length b > MAX_EOCD_SEARCH then length b - MAX_EOCD_SEARCH else 0)"
  shows "find_eocd b start (length b - 4 + 1 - start) = Some i"
proof -
  define x where "x = end_record (length ms) (length (directory_of ms)) (length body)"
  have b: "b = (body @ directory_of ms) @ x" and i: "i = length (body @ directory_of ms)" and lx: "length x = 22"
    by (simp_all add: b_def archive_def x_def i_def)
  then have len: "length b = i + 22" by simp
  have d: "drop (i + j) b = drop j x" for j using b i by simp
  have "x = 0x50 # tl x" by (simp add: x_def end_record_def le32_bytes_def CD_SIGNATURE_def)
  moreover have "le32_of x = CD_SIGNATURE" by (simp add: x_def end_record_def)
  ultimately have "has_magic b i"
    using b i d [of 0] by (simp add: has_magic_def) (metis nth_append_length)
  moreover have "\<not> has_magic b j" if "i < j" "j < i + 19" for j
  proof -
    have "\<forall>k\<in>set [1..<19]. le32_of (drop k x) \<noteq> CD_SIGNATURE" using assms(1) unfolding archive_ok_def x_def by blast
    moreover have "j - i \<in> set [1..<19]" using that by (simp del: upt_rec_numeral) linarith
    ultimately have "le32_of (drop (j - i) x) \<noteq> CD_SIGNATURE" by (rule bspec)
    with d [of "j - i"] that show ?thesis by (simp add: has_magic_def)
  qed
  moreover have "start \<le> i" "start + (length b - 4 + 1 - start) = i + 19"
    using len by (auto simp: start_def MAX_EOCD_SEARCH_def)
  ultimately show ?thesis by (subst find_eocd_iff) auto
qed

lemma end_record_read:
  assumes "archive_ok body ms"
  defines "b \<equiv> archive body ms" and "i \<equiv> length body + length (directory_of ms)" and "n \<equiv> word_of_nat (length ms)"
  assumes "zbuf f = b" and "commentLen f = 0"
  shows "read_central_dir_values f (word_of_nat i) 22 = Inr (0, f\<lparr>disknum := 0, diskWithCentralDir := 0, entryCount := n,
     totalEntryCount := n, centralDirSize := word_of_nat (length (directory_of ms)),
     centralDirOffest := word_of_nat (length body), commentLen := 0\<rparr>)"
proof -
  define x where "x = end_record (length ms) (length (directory_of ms)) (length body)"
  have b: "b = (body @ directory_of ms) @ x" and i: "i = length (body @ directory_of ms)" and lx: "length x = 22"
    by (simp_all add: b_def archive_def x_def i_def)
  have "length (body @ directory_of ms) + length x < 2 ^ 31" using assms(1) by (simp add: archive_ok_def archive_def x_def)
  note at = read_le_int_at [OF this, folded b i] read_le_short_at [OF this, folded b i]
  have "read_le_short b (word_of_nat i + 4) = Inr 0" "read_le_short b (word_of_nat i + 6) = Inr 0"
    using at(2) [of 4] at(2) [of 6] by (simp_all add: lx) (simp_all add: x_def end_record_def)
  moreover have "read_le_short b (word_of_nat i + 8) = Inr n" "read_le_short b (word_of_nat i + 10) = Inr n"
    using at(2) [of 8] at(2) [of 10] by (simp_all add: lx) (simp_all add: x_def end_record_def n_def)
  moreover have "read_le_int b (word_of_nat i + 12) = Inr (word_of_nat (length (directory_of ms)))"
    "read_le_int b (word_of_nat i + 16) = Inr (word_of_nat (length body))"
    using at(1) [of 12] at(1) [of 16] by (simp_all add: lx) (simp_all add: x_def end_record_def)
  moreover have "read_le_short b (word_of_nat i + 20) = Inr 0"
    using at(2) [of 20] by (simp add: lx) (simp add: x_def end_record_def)
  ultimately show ?thesis using assms(5) by (simp add: read_central_dir_values_def EOCD_LEN_def)
qed

definition member_spec :: "byte list \<Rightarrow> member \<Rightarrow> (zip_fault + byte list) \<times> u32 \<times> u32" where
  "member_spec b m = (Inr (m_name m), m_usize m,
     m_offset m + LFH_SIZE + word_of_nat (length (m_name m)) + ucast (local_extra b m))"

definition entry_view :: "byte list \<Rightarrow> zipentry \<Rightarrow> (zip_fault + byte list) \<times> u32 \<times> u32" where
  "entry_view b e = (get_zipentry_name b e, get_zipentry_size e, zdata e)"

lemma entry_name_at:
  assumes "length pre + length (cd_entry m @ suf) < 2 ^ 31" and "b = pre @ cd_entry m @ suf" and "member_ok b m"
  shows "unat (fileNameLength (entry_of b (length pre) m)) = length (m_name m)"
    and "\<exists>rest. name_bytes b (entry_of b (length pre) m) = m_name m @ rest"
proof -
  have "length (m_name m) < 2 ^ 16" using assms(3) by (simp add: member_ok_def)
  then show "unat (fileNameLength (entry_of b (length pre) m)) = length (m_name m)"
    by (simp add: entry_of_def unat_of_nat)
  have "unat (word_of_nat (length pre) + ENTRY_LEN) = length pre + 46"
    using assms(1) unat_pos [of "length pre" ENTRY_LEN] by (simp add: ENTRY_LEN_def length_cd_entry)
  then have "drop (unat (word_of_nat (length pre) + ENTRY_LEN)) b = m_name m @ m_extra m @ m_comment m @ suf"
    using assms(2) by (simp add: cd_entry_def)
  then show "\<exists>rest. name_bytes b (entry_of b (length pre) m) = m_name m @ rest"
    by (auto simp: name_bytes_def entry_of_def)
qed

lemma entries_view:
  assumes "length b < 2 ^ 31" and "b = pre @ directory_of ms @ suf" and "\<forall>m\<in>set ms. member_ok b m"
  shows "map (entry_view b) (entries_of b (length pre) ms) = map (member_spec b) ms"
  using assms(2,3)
proof (induction ms arbitrary: pre)
  case Nil
  show ?case by simp
next
  case (Cons m ms)
  have eq: "b = pre @ cd_entry m @ directory_of ms @ suf" using Cons.prems(1) by (simp add: directory_of_def)
  have "length pre + length (cd_entry m @ directory_of ms @ suf) < 2 ^ 31" using assms(1) eq by simp
  note n = entry_name_at [OF this eq]
  have "entry_view b (entry_of b (length pre) m) = member_spec b m"
    using n Cons.prems(2) by (auto simp: entry_view_def member_spec_def get_zipentry_name_def get_zipentry_size_def entry_of_def)
  moreover have "map (entry_view b) (entries_of b (length (pre @ cd_entry m)) ms) = map (member_spec b) ms"
    by (rule Cons.IH) (use Cons.prems eq in simp_all)
  ultimately show ?case by simp
qed

lemma directory_long: "ms \<noteq> [] \<Longrightarrow> 46 \<le> length (directory_of ms)"
  by (cases ms) (simp_all add: directory_of_def length_cd_entry)

lemma archive_read:
  assumes "archive_ok body ms" and "\<forall>m\<in>set ms. member_ok (archive body ms) m"
  obtains f where "init_zipfile (archive body ms) = Inr (Some f)" and "zbuf f = archive body ms"
    and "entries f = rev (entries_of (archive body ms) (length body) ms)"
proof -
  define b i where "b = archive body ms" and "i = length body + length (directory_of ms)"
  define f0 where "f0 = \<lparr>zbuf = b, disknum = 0, diskWithCentralDir = 0, entryCount = 0, totalEntryCount = 0,
       centralDirSize = 0, centralDirOffest = 0, commentLen = 0, zcomment = None, entries = []\<rparr>"
  have len: "length b = i + 22" "length b < 2 ^ 31" "length ms < 2 ^ 16"
    using assms(1) by (simp_all add: b_def i_def archive_def archive_ok_def)
  note found = end_record_found [OF assms(1), folded b_def i_def]
  obtain f1 where f1: "read_central_dir_values f0 (word_of_nat i) 22 = Inr (0, f1)" "zbuf f1 = b" "entries f1 = []"
    "disknum f1 = 0" "diskWithCentralDir f1 = 0" "entryCount f1 = totalEntryCount f1"
    "totalEntryCount f1 = word_of_nat (length ms)" "centralDirOffest f1 = word_of_nat (length body)"
    using end_record_read [OF assms(1), of f0, folded i_def] by (simp add: f0_def b_def)
  have "read_entries (length ms) f1 (word_of_nat (length body)) (zdist b (word_of_nat (length body)))
    = Inr (0, f1\<lparr>entries := rev (entries_of b (length body) ms) @ entries f1\<rparr>)"
  proof (cases "ms = []")
    case False
    then have "46 \<le> zdist b (word_of_nat (length body))"
      using zdist_inside [of "length body" b] len directory_long [of ms] by (simp add: i_def)
    then show ?thesis
      by (rule read_entries_back [OF len(2) _ f1(2), where suf = "end_record (length ms) (length (directory_of ms)) (length body)"])
        (use assms(2) in \<open>simp_all add: b_def archive_def\<close>)
  qed simp
  then have "read_central_dir f0 = Inr (0, f1\<lparr>entries := rev (entries_of b (length body) ms)\<rparr>)"
    using found f1 len by (simp add: read_central_dir_def f0_def EOCD_LEN_def Let_def unat_of_nat take_bit_nat_eq_self)
  then have "init_zipfile b = Inr (Some (f1\<lparr>entries := rev (entries_of b (length body) ms)\<rparr>))"
    by (simp add: init_zipfile_def f0_def)
  then show thesis using f1 by (intro that [of "f1\<lparr>entries := rev (entries_of b (length body) ms)\<rparr>"]) (simp_all add: b_def)
qed

text \<open>C38. Writing and reading a zip archive is a round trip: for an archive with any number of members whose
  fields fit, reading succeeds and the entries are those of the members, in reverse: the name that
  \<open>get_zipentry_name\<close> copies is the name written, the size is the size written, and the data begins behind
  the local header, its name and its padding.\<close>

theorem archive_roundtrip:
  assumes "archive_ok body ms" and "\<forall>m\<in>set ms. member_ok (archive body ms) m"
  shows "\<exists>f. init_zipfile (archive body ms) = Inr (Some f)
     \<and> map (entry_view (archive body ms)) (entries f) = rev (map (member_spec (archive body ms)) ms)"
proof -
  obtain f where f: "init_zipfile (archive body ms) = Inr (Some f)"
    "entries f = rev (entries_of (archive body ms) (length body) ms)"
    by (rule archive_read [OF assms])
  have "map (entry_view (archive body ms)) (entries_of (archive body ms) (length body) ms) = map (member_spec (archive body ms)) ms"
    by (rule entries_view [where suf = "end_record (length ms) (length (directory_of ms)) (length body)"])
      (use assms in \<open>simp_all add: archive_def archive_ok_def\<close>)
  with f show ?thesis by (simp flip: rev_map)
qed

text \<open>An archive of two members, with a local header of 30 bytes and a name behind it.\<close>

definition sample_members :: "member list" where
  "sample_members = [\<lparr>m_name = ascii ''a'', m_method = 0, m_csize = 1, m_usize = 1, m_extra = [], m_comment = [9], m_offset = 0\<rparr>,
     \<lparr>m_name = ascii ''Android'', m_method = 8, m_csize = 2, m_usize = 3, m_extra = [1, 2], m_comment = [], m_offset = 0\<rparr>]"

definition sample_body :: "byte list" where
  "sample_body = replicate 40 0"

lemma sample_ok: "archive_ok sample_body sample_members" "\<forall>m\<in>set sample_members. member_ok (archive sample_body sample_members) m"
proof -
  have "\<forall>j\<in>set [1..<19]. le32_of (drop j (end_record 2 103 40)) \<noteq> CD_SIGNATURE"
    by code_simp
  moreover have "length (directory_of sample_members) = 103" "length sample_members = 2" "length sample_body = 40"
    by (simp_all add: sample_members_def sample_body_def directory_of_def length_cd_entry)
  ultimately show "archive_ok sample_body sample_members" by (simp add: archive_ok_def archive_def)
  show "\<forall>m\<in>set sample_members. member_ok (archive sample_body sample_members) m"
    by (simp add: sample_members_def sample_body_def member_ok_def archive_def)
qed

lemma archive_roundtrip_witness:
  "\<exists>f. init_zipfile (archive sample_body sample_members) = Inr (Some f)
     \<and> map fst (map (entry_view (archive sample_body sample_members)) (entries f)) = [Inr (ascii ''Android''), Inr (ascii ''a'')]"
  using archive_roundtrip [OF sample_ok] by (auto simp: sample_members_def member_spec_def)

section \<open>Looking a member up\<close>

lemma memcmp_name_prefix:
  assumes "0 \<notin> set n"
  shows "memcmp_name (s @ [0]) (n @ rest) (length n) = Inr (take (length n) s = n)"
  using assms
proof (induction n arbitrary: s)
  case (Cons c n)
  then show ?case by (cases s) auto
qed simp

lemma lookup_found:
  assumes "\<forall>e\<in>set es. memcmp_name (name @ [0]) (name_bytes b e) (unat (fileNameLength e)) = Inr (Q e)"
  shows "lookup_entries b name es = Inr (find Q es)"
  using assms by (induction es) auto

lemma list_all2_bex: "list_all2 (\<lambda>e m. g e = Inr (P m)) es ms \<Longrightarrow> (\<exists>e\<in>set es. g e = Inr True) \<longleftrightarrow> (\<exists>m\<in>set ms. P m)"
  by (induction es ms rule: list_all2_induct) auto

lemma entries_of_match:
  assumes "length b < 2 ^ 31" and "b = pre @ directory_of ms @ suf" and "\<forall>m\<in>set ms. member_ok b m \<and> 0 \<notin> set (m_name m)"
  shows "list_all2 (\<lambda>e m. memcmp_name (name @ [0]) (name_bytes b e) (unat (fileNameLength e)) = Inr (take (length (m_name m)) name = m_name m))
    (entries_of b (length pre) ms) ms"
  using assms(2,3)
proof (induction ms arbitrary: pre)
  case Nil
  show ?case by simp
next
  case (Cons m ms)
  have eq: "b = pre @ cd_entry m @ directory_of ms @ suf" using Cons.prems(1) by (simp add: directory_of_def)
  have "length pre + length (cd_entry m @ directory_of ms @ suf) < 2 ^ 31" using assms(1) eq by simp
  note n = entry_name_at [OF this eq]
  have ok: "member_ok b m" "0 \<notin> set (m_name m)" using Cons.prems(2) by simp_all
  from n(2) [OF ok(1)] obtain rest where r: "name_bytes b (entry_of b (length pre) m) = m_name m @ rest" by blast
  have "memcmp_name (name @ [0]) (name_bytes b (entry_of b (length pre) m)) (unat (fileNameLength (entry_of b (length pre) m)))
    = Inr (take (length (m_name m)) name = m_name m)"
    using n(1) [OF ok(1)] memcmp_name_prefix [OF ok(2)] r by simp
  moreover have "list_all2 (\<lambda>e m. memcmp_name (name @ [0]) (name_bytes b e) (unat (fileNameLength e)) = Inr (take (length (m_name m)) name = m_name m))
    (entries_of b (length (pre @ cd_entry m)) ms) ms"
    by (rule Cons.IH) (use Cons.prems eq in simp_all)
  ultimately show ?case by simp
qed

lemma lookup_prefixes:
  assumes "archive_ok body ms" and "\<forall>m\<in>set ms. member_ok (archive body ms) m \<and> 0 \<notin> set (m_name m)"
  shows "\<exists>f r. init_zipfile (archive body ms) = Inr (Some f) \<and> lookup_zipentry f name = Inr r
     \<and> (r \<noteq> None \<longleftrightarrow> (\<exists>m\<in>set ms. take (length (m_name m)) name = m_name m))"
proof -
  let ?b = "archive body ms"
  obtain f where f: "init_zipfile ?b = Inr (Some f)" "zbuf f = ?b" "entries f = rev (entries_of ?b (length body) ms)"
    by (rule archive_read [OF assms(1)]) (use assms(2) in auto)
  have m: "list_all2 (\<lambda>e m. memcmp_name (name @ [0]) (name_bytes ?b e) (unat (fileNameLength e)) = Inr (take (length (m_name m)) name = m_name m))
    (entries_of ?b (length body) ms) ms"
    by (rule entries_of_match [where suf = "end_record (length ms) (length (directory_of ms)) (length body)"])
      (use assms in \<open>simp_all add: archive_def archive_ok_def\<close>)
  define Q where "Q e \<longleftrightarrow> memcmp_name (name @ [0]) (name_bytes ?b e) (unat (fileNameLength e)) = Inr True" for e
  have "\<forall>e\<in>set (entries f). memcmp_name (name @ [0]) (name_bytes ?b e) (unat (fileNameLength e)) = Inr (Q e)"
    using m f(3) unfolding Q_def by (auto simp: list_all2_conv_all_nth in_set_conv_nth)
  from lookup_found [OF this] have l: "lookup_zipentry f name = Inr (find Q (entries f))"
    using f(2) by (simp add: lookup_zipentry_def)
  have "find Q (entries f) \<noteq> None \<longleftrightarrow> (\<exists>e\<in>set (entries f). Q e)" by (auto simp: find_None_iff)
  also have "\<dots> \<longleftrightarrow> (\<exists>m\<in>set ms. take (length (m_name m)) name = m_name m)"
    using list_all2_bex [OF m] f(3) unfolding Q_def by simp
  finally show ?thesis using f l by blast
qed

text \<open>What a lookup decides: in an archive that was read, whose names hold no zero, a member is found exactly
  when the name of some member is a prefix of the name asked for.  So a package is accepted that has a
  member \<open>Android\<close>, or one without a name, and no \<open>AndroidManifest.xml\<close>.\<close>

theorem lookup_takes_prefixes:
  assumes "archive_ok body ms" and "\<forall>m\<in>set ms. member_ok (archive body ms) m \<and> 0 \<notin> set (m_name m)"
  shows "\<exists>f r. init_zipfile (archive body ms) = Inr (Some f) \<and> lookup_zipentry f name = Inr r
     \<and> (r \<noteq> None \<longleftrightarrow> (\<exists>m\<in>set ms. take (length (m_name m)) name = m_name m))"
  by (rule lookup_prefixes [OF assms])

lemma lookup_takes_prefixes_witness:
  "\<exists>f r. init_zipfile (archive sample_body sample_members) = Inr (Some f)
     \<and> lookup_zipentry f (ascii ''AndroidManifest.xml'') = Inr (Some r)"
proof -
  have z: "\<forall>m\<in>set sample_members. member_ok (archive sample_body sample_members) m \<and> 0 \<notin> set (m_name m)"
    using sample_ok(2) by (auto simp: sample_members_def ascii_def)
  show ?thesis
    using lookup_takes_prefixes [OF sample_ok(1) z, of "ascii ''AndroidManifest.xml''"]
    by (auto simp: sample_members_def ascii_def)
qed

section \<open>Reading outside\<close>

text \<open>The place of a member is followed without a test: an archive of one member whose local header lies
  beyond the end makes the reader read outside of the buffer.\<close>

theorem member_place_unchecked:
  assumes "archive_ok body [m]" and "length (m_name m) < 2 ^ 16" "length (m_extra m) < 2 ^ 16" "length (m_comment m) < 2 ^ 16"
    and "length (archive body [m]) \<le> unat (m_offset m)" and "unat (m_offset m) < 2 ^ 32 - 28"
  shows "init_zipfile (archive body [m]) = Inl Outside"
proof -
  define b i where "b = archive body [m]" and "i = length body + length (directory_of [m])"
  define f0 where "f0 = \<lparr>zbuf = b, disknum = 0, diskWithCentralDir = 0, entryCount = 0, totalEntryCount = 0,
       centralDirSize = 0, centralDirOffest = 0, commentLen = 0, zcomment = None, entries = []\<rparr>"
  have len: "length b = i + 22" "length b < 2 ^ 31"
    using assms(1) by (simp_all add: b_def i_def archive_def archive_ok_def)
  note found = end_record_found [OF assms(1), folded b_def i_def]
  obtain f1 where f1: "read_central_dir_values f0 (word_of_nat i) 22 = Inr (0, f1)" "zbuf f1 = b"
    "disknum f1 = 0" "diskWithCentralDir f1 = 0" "entryCount f1 = totalEntryCount f1"
    "totalEntryCount f1 = 1" "centralDirOffest f1 = word_of_nat (length body)"
    using end_record_read [OF assms(1), of f0, folded i_def] by (simp add: f0_def b_def)
  have z: "46 \<le> zdist b (word_of_nat (length body))"
    using zdist_inside [of "length body" b] len directory_long [of "[m]"] by (simp add: i_def)
  have eq: "b = body @ cd_entry m @ end_record 1 (length (directory_of [m])) (length body)"
    by (simp add: b_def archive_def directory_of_def)
  have "length body + length (cd_entry m @ end_record 1 (length (directory_of [m])) (length body)) < 2 ^ 31"
    using len eq by simp
  note f = entry_fields [OF this, folded eq]
  have "unat (m_offset m + 28) = unat (m_offset m) + 28"
    using assms(6) by (subst unat_add_lem [THEN iffD1]) simp_all
  then have "read_le_short b (m_offset m + 0x1c) = Inl Outside"
    using assms(5) by (simp add: read_le_short_def b_def)
  then have "read_central_directory_entry b (word_of_nat (length body)) (zdist b (word_of_nat (length body))) = Inl Outside"
    using f z by (simp add: read_central_directory_entry_def ENTRY_LEN_def)
  then have "read_central_dir f0 = Inl Outside"
    using found f1 len by (simp add: read_central_dir_def f0_def EOCD_LEN_def Let_def)
  then show ?thesis by (simp add: init_zipfile_def f0_def b_def)
qed

definition stray :: member where
  "stray = \<lparr>m_name = ascii ''a'', m_method = 0, m_csize = 1, m_usize = 1, m_extra = [], m_comment = [], m_offset = 1000\<rparr>"

lemma member_place_unchecked_witness: "init_zipfile (archive [] [stray]) = Inl Outside"
proof -
  have "\<forall>j\<in>set [1..<19]. le32_of (drop j (end_record 1 47 0)) \<noteq> CD_SIGNATURE"
    by code_simp
  moreover have d: "length (directory_of [stray]) = 47"
    by (simp add: stray_def directory_of_def length_cd_entry)
  ultimately have "archive_ok [] [stray]" by (simp add: archive_ok_def archive_def)
  then show ?thesis
    by (rule member_place_unchecked) (use d in \<open>simp_all add: archive_def\<close>, simp_all add: stray_def)
qed

end
