(* ===== verification/SyncClientProps.thy ===== *)
theory SyncClientProps
  imports SyncClient FileSyncProps ZipfileProps
begin

text \<open>
  Properties of the client of the file transfer service, together with the service: a file that is sent
  is stored, a file that is received is the one the device has, a listing shows the directory; and the
  cases in which a failure is taken for a success.
\<close>

section \<open>Numbers in a request\<close>

lemma decimal_head: "0 < n \<Longrightarrow> \<exists>d cs. decimal n = word_of_nat (48 + d) # cs \<and> 0 < d \<and> d < 10"
proof (induction n rule: decimal.induct)
  case (1 n)
  show ?case
  proof (cases "n < 10")
    case True
    then show ?thesis using "1.prems" by (auto simp: decimal.simps [of n])
  next
    case False
    then have "0 < n div 10" by auto
    with "1.IH" [OF False] obtain d cs where "decimal (n div 10) = word_of_nat (48 + d) # cs \<and> 0 < d \<and> d < 10" by blast
    then show ?thesis using False by (auto simp: decimal.simps [of n])
  qed
qed

lemma strtoul0_decimal:
  assumes "0 < n" and "n < 2 ^ 32"
  shows "strtoul0 (decimal n) = Some (word_of_nat n)"
proof -
  obtain d cs where d: "decimal n = word_of_nat (48 + d) # cs" "0 < d" "d < 10" using decimal_head [OF assms(1)] by blast
  then have "d \<in> {1, 2, 3, 4, 5, 6, 7, 8, 9}" by auto
  then have c: "\<not> is_space (word_of_nat (48 + d))" "word_of_nat (48 + d) \<noteq> (45 :: byte)" "word_of_nat (48 + d) \<noteq> (43 :: byte)"
    "word_of_nat (48 + d) \<noteq> (48 :: byte)" by (auto simp: is_space_def)
  then show ?thesis
    using d digits_of_decimal [of n] assms(2) by (simp add: strtoul0_def Let_def)
qed

lemma last_comma_at: "44 \<notin> set m \<Longrightarrow> last_comma (p @ 44 # m) = Some (p, m)"
proof -
  assume a: "44 \<notin> set m"
  then have "takeWhile (\<lambda>c. c \<noteq> 44) (rev m @ 44 # rev p) = rev m" "dropWhile (\<lambda>c. c \<noteq> 44) (rev m @ 44 # rev p) = 44 # rev p"
    by (subst takeWhile_append2 dropWhile_append2; auto)+
  then show ?thesis by (simp add: last_comma_def)
qed

text \<open>What the service makes of the name and the mode that the client sends.\<close>

lemma S_ISREG_not_link: "S_ISREG m \<Longrightarrow> \<not> S_ISLNK m"
  by (simp add: S_ISREG_def S_ISLNK_def)

lemma parse_send_mode:
  assumes "S_ISREG mode" and "unat mode < 2 ^ 31"
  shows "parse_send (rpath @ mode_text mode) = (rpath, mode AND (7 * 64 + 7 * 8 + 7), False)"
proof -
  have "mode \<noteq> 0" using assms(1) by (auto simp: S_ISREG_def)
  then have "0 < unat mode" by (simp add: unat_gt_0)
  then have s: "strtoul0 (decimal (unat mode)) = Some mode" using assms(2) by (simp add: strtoul0_decimal)
  have m: "mode_text mode = 44 # decimal (unat mode)" using sint_small [OF assms(2)] by (simp add: mode_text_def)
  show ?thesis
    using S_ISREG_not_link [OF assms(1)] s last_comma_at [OF decimal_no(1), of rpath "unat mode"]
    by (simp add: parse_send_def m)
qed

section \<open>Sending\<close>

lemma sc_writex_fits:
  assumes "length bs \<le> space s"
  obtains s' where "sc_writex bs s = Inr (0, s')" and "cput s' = cput s @ bs" and "space s' = space s - length bs"
    and "cin s' = cin s" and "trace s' = trace s" and "shown s' = shown s" and "hung s' = hung s"
proof -
  obtain s' where s': "conn_writex bs s = Some (0, s')" "cput s' = cput s @ bs" "space s' = space s - length bs"
    "s' = s\<lparr>cout := cout s', cput := cput s'\<rparr>"
    using conn_writex_fits [OF assms] by blast
  have "cin s' = cin s" "trace s' = trace s" "shown s' = shown s" "hung s' = hung s" by (subst s'(4), simp)+
  with s' show thesis by (intro that [of s']) (simp_all add: sc_writex_def)
qed

lemma sc_readx_have:
  assumes "unread s = bs @ rest" and "int (length bs) = n"
  obtains s' where "sc_readx n s = Inr (0, bs, s')" and "unread s' = rest" and "cout s' = cout s" and "cput s' = cput s"
    and "trace s' = trace s" and "shown s' = shown s" and "hung s' = hung s"
proof -
  have "length bs = nat n" using assms(2) by simp
  then obtain s' where s': "conn_readx (nat n) s = Some (0, bs, s')" "unread s' = rest" "s' = s\<lparr>cin := cin s'\<rparr>"
    using conn_readx_have [OF assms(1)] by blast
  have "cout s' = cout s" "cput s' = cput s" "trace s' = trace s" "shown s' = shown s" "hung s' = hung s" by (subst s'(3), simp)+
  with s' assms(2) show thesis by (intro that [of s']) (auto simp: sc_readx_def)
qed

lemma say_sel [simp]: "cin (say l s) = cin s" "cout (say l s) = cout s" "cput (say l s) = cput s" "trace (say l s) = trace s"
  "shown (say l s) = shown s @ [l]" "hung (say l s) = hung s"
  by (simp_all add: say_def)

lemma fill_push_sel [simp]: "shown (fill bs s) = shown s" "hung (fill bs s) = hung s"
  by (simp_all add: fill_def)

lemma syscall_push_sel [simp]: "shown (snd (syscall os q s)) = shown s" "hung (snd (syscall os q s)) = hung s"
  by (simp_all add: syscall_def)

lemma data_file_piece:
  assumes os: "os (trace s @ [Read path SYNC_DATA_MAX]) = Data c" and c: "c \<noteq> []" and sp: "8 + length c \<le> space s"
  obtains s2 where "data_file_loop (Suc n) os path s = data_file_loop n os path s2"
    and "trace s2 = trace s @ [Read path SYNC_DATA_MAX]" and "cput s2 = cput s @ chunk_msg c"
    and "space s2 = space s - (8 + length c)" and "cin s2 = cin s" and "shown s2 = shown s" and "hung s2 = hung s"
proof -
  define s0 where "s0 = fill c (snd (syscall os (Read path SYNC_DATA_MAX) s))"
  have "length (chunk_msg c) \<le> space s0" using sp by (simp add: s0_def chunk_msg_def)
  then obtain s1 where w: "sc_writex (chunk_msg c) s0 = Inr (0, s1)" "cput s1 = cput s0 @ chunk_msg c"
    "space s1 = space s0 - length (chunk_msg c)" "cin s1 = cin s0" "trace s1 = trace s0" "shown s1 = shown s0" "hung s1 = hung s0"
    by (rule sc_writex_fits)
  have r: "syscall os (Read path SYNC_DATA_MAX) s = (Data c, snd (syscall os (Read path SYNC_DATA_MAX) s))"
    using os by (simp add: syscall_def)
  have "data_file_loop (Suc n) os path s = data_file_loop n os path (tally (length c) s1)"
    unfolding data_file_loop.simps by (subst r) (use w(1) c in \<open>simp add: s0_def chunk_msg_def\<close>)
  then show thesis
    by (rule that) (use w in \<open>simp_all add: s0_def chunk_msg_def\<close>)
qed

lemma data_file_sends:
  assumes "\<forall>k<length cs. os (trace s @ replicate (Suc k) (Read path SYNC_DATA_MAX)) = Data (cs ! k)"
    and "os (trace s @ replicate (Suc (length cs)) (Read path SYNC_DATA_MAX)) = Data []"
    and "[] \<notin> set cs" and "length (concat (map chunk_msg cs)) \<le> space s" and "length cs < n"
  shows "\<exists>s'. data_file_loop n os path s = Inr (0, s') \<and> cput s' = cput s @ concat (map chunk_msg cs)
     \<and> space s' = space s - length (concat (map chunk_msg cs)) \<and> cin s' = cin s \<and> shown s' = shown s \<and> hung s' = hung s
     \<and> trace s' = trace s @ replicate (Suc (length cs)) (Read path SYNC_DATA_MAX)"
  using assms
proof (induction cs arbitrary: s n)
  case Nil
  then obtain m where n: "n = Suc m" by (cases n) auto
  have r: "syscall os (Read path SYNC_DATA_MAX) s = (Data [], snd (syscall os (Read path SYNC_DATA_MAX) s))"
    using Nil.prems(2) by (simp add: syscall_def)
  show ?case unfolding n data_file_loop.simps by (subst r) simp
next
  case (Cons c cs)
  then obtain m where n: "n = Suc m" by (cases n) auto
  have os: "os (trace s @ [Read path SYNC_DATA_MAX]) = Data c" using Cons.prems(1) [rule_format, of 0] by simp
  have len: "length (chunk_msg c) = 8 + length c" by (simp add: chunk_msg_def)
  have c: "c \<noteq> []" "8 + length c \<le> space s" using Cons.prems(3,4) len by auto
  obtain s2 where s2: "data_file_loop (Suc m) os path s = data_file_loop m os path s2"
    "trace s2 = trace s @ [Read path SYNC_DATA_MAX]" "cput s2 = cput s @ chunk_msg c"
    "space s2 = space s - (8 + length c)" "cin s2 = cin s" "shown s2 = shown s" "hung s2 = hung s"
    by (rule data_file_piece [where n = m and os = os and s = s and path = path and c = c, OF os c]) blast
  have k: "\<forall>k<length cs. os (trace s2 @ replicate (Suc k) (Read path SYNC_DATA_MAX)) = Data (cs ! k)"
  proof (intro allI impI)
    fix k assume "k < length cs"
    then show "os (trace s2 @ replicate (Suc k) (Read path SYNC_DATA_MAX)) = Data (cs ! k)"
      using Cons.prems(1) [rule_format, of "Suc k"] s2 by simp
  qed
  have "os (trace s2 @ replicate (Suc (length cs)) (Read path SYNC_DATA_MAX)) = Data []"
    using Cons.prems(2) s2 by simp
  moreover have "[] \<notin> set cs" "length (concat (map chunk_msg cs)) \<le> space s2" "length cs < m"
    using Cons.prems(3-5) n s2(4) len by simp_all
  ultimately obtain s' where
    "data_file_loop m os path s2 = Inr (0, s')" "cput s' = cput s2 @ concat (map chunk_msg cs)"
    "space s' = space s2 - length (concat (map chunk_msg cs))" "cin s' = cin s2" "shown s' = shown s2" "hung s' = hung s2"
    "trace s' = trace s2 @ replicate (Suc (length cs)) (Read path SYNC_DATA_MAX)" using Cons.IH [OF k] by blast
  then show ?case unfolding n s2(1) using s2(2-) len by simp
qed

text \<open>What goes over the connection for one file.\<close>

definition push_msgs :: "byte list \<Rightarrow> u32 \<Rightarrow> byte list list \<Rightarrow> u32 \<Rightarrow> byte list" where
  "push_msgs rpath mode cs mtime = msg_data ID_SEND (word_of_nat (length (rpath @ mode_text mode))) @ rpath @ mode_text mode
     @ file_msgs cs mtime"

text \<open>The frame that is left when bytes are written and the file system is called.\<close>

definition moved :: "push \<Rightarrow> push \<Rightarrow> byte list \<Rightarrow> bool" where
  "moved s s' bs \<longleftrightarrow> cput s' = cput s @ bs \<and> space s' = space s - length bs \<and> cin s' = cin s \<and> shown s' = shown s \<and> hung s' = hung s"

lemma moved_trans: "moved s1 s2 xs \<Longrightarrow> moved s2 s3 ys \<Longrightarrow> moved s1 s3 (xs @ ys)"
  by (simp add: moved_def)

lemma sc_writex_moved:
  assumes "length bs \<le> space s"
  obtains s' where "sc_writex bs s = Inr (0, s')" and "moved s s' bs" and "trace s' = trace s"
proof -
  obtain s' where "sc_writex bs s = Inr (0, s')" "cput s' = cput s @ bs" "space s' = space s - length bs"
    "cin s' = cin s" "trace s' = trace s" "shown s' = shown s" "hung s' = hung s"
    using sc_writex_fits [OF assms] by blast
  then show thesis by (intro that [of s']) (simp_all add: moved_def)
qed

lemma write_data_file_moved:
  assumes "os (trace s @ [Open path [O_RDONLY] 0]) = Ok"
    and "\<forall>k<length cs. os (trace s @ Open path [O_RDONLY] 0 # replicate (Suc k) (Read path SYNC_DATA_MAX)) = Data (cs ! k)"
    and "os (trace s @ Open path [O_RDONLY] 0 # replicate (Suc (length cs)) (Read path SYNC_DATA_MAX)) = Data []"
    and "[] \<notin> set cs" and "length (concat (map chunk_msg cs)) \<le> space s" and "length cs < n"
  obtains s' where "write_data_file n os path s = Inr (0, s')" and "moved s s' (concat (map chunk_msg cs))"
    and "trace s' = trace s @ Open path [O_RDONLY] 0 # replicate (Suc (length cs)) (Read path SYNC_DATA_MAX) @ [Close path]"
proof -
  define s0 where "s0 = snd (syscall os (Open path [O_RDONLY] 0) s)"
  have o: "syscall os (Open path [O_RDONLY] 0) s = (Ok, s0)" using assms(1) by (simp add: syscall_def s0_def)
  obtain s' where s': "data_file_loop n os path s0 = Inr (0, s')" "moved s0 s' (concat (map chunk_msg cs))"
    "trace s' = trace s0 @ replicate (Suc (length cs)) (Read path SYNC_DATA_MAX)"
    using data_file_sends [of cs os s0 path n] assms(2-6) by (auto simp: s0_def moved_def)
  then have "write_data_file n os path s = Inr (0, snd (syscall os (Close path) s'))"
    using o by (simp add: write_data_file_def)
  then show thesis
    by (rule that) (use s' in \<open>simp_all add: s0_def moved_def\<close>)
qed

lemma file_msgs_split: "file_msgs cs t = concat (map chunk_msg cs) @ msg_data ID_DONE t"
  by (simp add: file_msgs_def)

lemma moved_space: "moved s s' bs \<Longrightarrow> space s' = space s - length bs"
  by (simp add: moved_def)

text \<open>The whole of a transfer up to the answer.\<close>

lemma send_checked_moved:
  assumes opened: "os (trace s @ [Open lpath [O_RDONLY] 0]) = Ok"
    and pieces: "\<forall>k<length cs. os (trace s @ Open lpath [O_RDONLY] 0 # replicate (Suc k) (Read lpath SYNC_DATA_MAX)) = Data (cs ! k)"
    and at_end: "os (trace s @ Open lpath [O_RDONLY] 0 # replicate (Suc (length cs)) (Read lpath SYNC_DATA_MAX)) = Data []"
    and "[] \<notin> set cs" and fits: "length (push_msgs rpath mode cs mtime) \<le> space s" and "length cs < n" and "S_ISREG mode"
  obtains s' where "send_checked n os lpath rpath mtime mode None s = read_status lpath rpath s'"
    and "moved s s' (push_msgs rpath mode cs mtime)"
proof -
  let ?hd = "msg_data ID_SEND (word_of_nat (length rpath + length (mode_text mode)))"
  have pm: "push_msgs rpath mode cs mtime = ?hd @ rpath @ mode_text mode @ concat (map chunk_msg cs) @ msg_data ID_DONE mtime"
    by (simp add: push_msgs_def file_msgs_split)
  then have len: "8 + (length rpath + (length (mode_text mode) + (length (concat (map chunk_msg cs)) + 8))) \<le> space s"
    using fits by simp
  have "length ?hd \<le> space s" using len by simp
  then obtain s1 where s1: "sc_writex ?hd s = Inr (0, s1)" "moved s s1 ?hd" "trace s1 = trace s" by (rule sc_writex_moved)
  have "length rpath \<le> space s1" using len moved_space [OF s1(2)] by simp
  then obtain s2 where s2: "sc_writex rpath s1 = Inr (0, s2)" "moved s1 s2 rpath" "trace s2 = trace s1" by (rule sc_writex_moved)
  have "length (mode_text mode) \<le> space s2" using len moved_space [OF s1(2)] moved_space [OF s2(2)] by simp
  then obtain s3 where s3: "sc_writex (mode_text mode) s2 = Inr (0, s3)" "moved s2 s3 (mode_text mode)" "trace s3 = trace s2"
    by (rule sc_writex_moved)
  have sp3: "length (concat (map chunk_msg cs)) + 8 \<le> space s3"
    using len moved_space [OF s1(2)] moved_space [OF s2(2)] moved_space [OF s3(2)] by simp
  have tr: "trace s3 = trace s" using s1 s2 s3 by simp
  obtain s4 where s4: "write_data_file n os lpath s3 = Inr (0, s4)" "moved s3 s4 (concat (map chunk_msg cs))"
    by (rule write_data_file_moved [of os s3 lpath cs n]) (use assms sp3 tr in simp_all)
  have "length (msg_data ID_DONE mtime) \<le> space s4" using sp3 moved_space [OF s4(2)] by simp
  then obtain s5 where s5: "sc_writex (msg_data ID_DONE mtime) s4 = Inr (0, s5)" "moved s4 s5 (msg_data ID_DONE mtime)"
    by (rule sc_writex_moved)
  have "send_checked n os lpath rpath mtime mode None s = read_status lpath rpath s5"
    using s1 s2 s3 s4 s5 assms(7) by (simp add: send_checked_def send_contents_def)
  moreover have "moved s s5 (push_msgs rpath mode cs mtime)"
    using moved_trans [OF s1(2) moved_trans [OF s2(2) moved_trans [OF s3(2) moved_trans [OF s4(2) s5(2)]]]] pm by simp
  ultimately show thesis by (rule that)
qed

lemma read_status_okay:
  assumes "unread s = msg_data ID_OKAY v @ rest"
  obtains s' where "read_status lpath rpath s = Inr (0, s')" and "unread s' = rest" and "cput s' = cput s"
    and "shown s' = shown s" and "hung s' = hung s"
proof -
  obtain s' where "sc_readx 8 s = Inr (0, msg_data ID_OKAY v, s')" "unread s' = rest" "cput s' = cput s"
    "shown s' = shown s" "hung s' = hung s"
    using sc_readx_have [OF assms, of 8] by auto
  then show thesis by (intro that [of s']) (simp_all add: read_status_def)
qed

lemma small_unat: "k < 2 ^ 32 \<Longrightarrow> unat (word_of_nat k :: u32) = k"
  by (simp add: unat_of_nat)

text \<open>The service takes the request of the client and stores the file.\<close>

lemma service_stores:
  assumes ok: "\<forall>h. failed (os h) = None" and cs: "\<forall>c\<in>set cs. length c \<le> SYNC_DATA_MAX" and sp: "8 \<le> space s"
    and u: "unread s = push_msgs rpath mode cs mtime @ rest"
    and reg: "S_ISREG mode" "unat mode < 2 ^ 31" and nul: "0 \<notin> set rpath" and len: "length (rpath @ mode_text mode) \<le> 1024"
  shows "\<exists>s'. file_sync_service n os strerror s = file_sync_service n os strerror s' \<and> unread s' = rest
     \<and> trace s' = trace s @ [Unlink rpath, Open rpath [O_WRONLY, O_CREAT, O_EXCL] (spread_mode (mode AND (7 * 64 + 7 * 8 + 7)))]
         @ map (Write rpath) cs @ [Close rpath, Utime rpath mtime]
     \<and> cput s' = cput s @ msg_data ID_OKAY 0"
proof -
  let ?spec = "rpath @ mode_text mode" and ?m = "spread_mode (mode AND (7 * 64 + 7 * 8 + 7))"
  have u1: "unread s = msg_data ID_SEND (word_of_nat (length ?spec)) @ ?spec @ file_msgs cs mtime @ rest"
    using u by (simp add: push_msgs_def)
  obtain s1 where h: "conn_readx 8 s = Some (0, msg_data ID_SEND (word_of_nat (length ?spec)), s1)"
    "unread s1 = ?spec @ file_msgs cs mtime @ rest" "s1 = s\<lparr>cin := cin s1\<rparr>"
    using conn_readx_have [OF u1, of 8] by auto
  obtain s2 where d: "conn_readx (length ?spec) s1 = Some (0, ?spec, s2)"
    "unread s2 = file_msgs cs mtime @ rest" "s2 = s1\<lparr>cin := cin s2\<rparr>"
    using conn_readx_have [OF h(2) refl] by auto
  have un: "unat (word_of_nat (length ?spec) :: u32) = length ?spec" using len by (intro small_unat) simp
  have "word_of_nat (length ?spec) \<le> (1024 :: u32)" using un len by (simp add: word_le_nat_alt)
  then have small: "\<not> 1024 < (word_of_nat (length ?spec) :: u32)" by (simp add: not_less)
  have c: "cstr ?spec = ?spec" using nul decimal_no(2) by (intro cstr_id) (auto simp: mode_text_def Let_def)
  define s3 where "s3 = snd (syscall os (Unlink rpath) s2)"
  have e: "trace s2 = trace s" "cput s2 = cput s" "cout s2 = cout s" by (subst d(3), subst h(3), simp)+
  obtain s' where s': "handle_send_file os strerror rpath ?m s3 = Some (0, s')" "unread s' = rest"
    "trace s' = trace s3 @ Open rpath [O_WRONLY, O_CREAT, O_EXCL] ?m # map (Write rpath) cs @ [Close rpath, Utime rpath mtime]"
    "cput s' = cput s3 @ msg_data ID_OKAY 0"
    using handle_send_stores [OF ok cs, of s3 mtime rest strerror rpath ?m] sp d(2) e by (auto simp: s3_def)
  have "sync_command n os strerror ID_SEND ?spec s2 = Some (0, s')"
    using s'(1) parse_send_mode [OF reg, of rpath]
    by (simp add: sync_command_def do_send_def s3_def) (simp add: id_defs MKID_def le32_of_def ascii_def)
  then have "file_sync_service n os strerror s = file_sync_service n os strerror s'"
    using h(1) d(1) c un small by (simp add: file_sync_service.simps [of n os strerror s] Let_def)
  with s' e show ?thesis by (intro exI [of _ s']) (simp add: s3_def)
qed

text \<open>C6. A file that is sent arrives.  The local file reads as the pieces \<open>cs\<close>; every call of the device
  succeeds; the client is fed what the device answers, and the device is fed what the client writes.  Then
  the client returns 0, complains of nothing and keeps the connection open; the device removes what the
  path held, creates it with the permission bits of the mode spread to group and others, writes exactly
  the pieces in order, closes the file and sets its time, and goes on with the next command.\<close>

theorem push_arrives:
  assumes opened: "os (trace s @ [Open lpath [O_RDONLY] 0]) = Ok"
    and pieces: "\<forall>k<length cs. os (trace s @ Open lpath [O_RDONLY] 0 # replicate (Suc k) (Read lpath SYNC_DATA_MAX)) = Data (cs ! k)"
    and at_end: "os (trace s @ Open lpath [O_RDONLY] 0 # replicate (Suc (length cs)) (Read lpath SYNC_DATA_MAX)) = Data []"
    and sizes: "\<forall>c\<in>set cs. c \<noteq> [] \<and> length c \<le> SYNC_DATA_MAX"
    and fits: "length (push_msgs rpath mode cs mtime) \<le> space s" and n: "length cs < n"
    and reg: "S_ISREG mode" "unat mode < 2 ^ 31" and path: "0 \<notin> set rpath" "length (rpath @ mode_text mode) \<le> 1024"
    and ok: "\<forall>h. failed (os2 h) = None" and sp: "8 \<le> space d"
    and fed: "unread d = push_msgs rpath mode cs mtime @ later" and answer: "unread s = msg_data ID_OKAY 0 @ rest"
  shows "\<exists>s' d'. sync_send n os lpath rpath mtime mode False s = Inr (0, s')
     \<and> cput s' = cput s @ push_msgs rpath mode cs mtime \<and> unread s' = rest \<and> shown s' = shown s \<and> hung s' = hung s
     \<and> file_sync_service n os2 strerror d = file_sync_service n os2 strerror d' \<and> unread d' = later
     \<and> trace d' = trace d @ [Unlink rpath, Open rpath [O_WRONLY, O_CREAT, O_EXCL] (spread_mode (mode AND (7 * 64 + 7 * 8 + 7)))]
         @ map (Write rpath) cs @ [Close rpath, Utime rpath mtime]
     \<and> cput d' = cput d @ msg_data ID_OKAY 0"
proof -
  obtain s1 where s1: "send_checked n os lpath rpath mtime mode None s = read_status lpath rpath s1"
    "moved s s1 (push_msgs rpath mode cs mtime)"
    by (rule send_checked_moved [of os s lpath cs rpath mode mtime n]) (use assms in auto)
  then have "unread s1 = msg_data ID_OKAY 0 @ rest" using answer by (simp add: moved_def)
  then obtain s' where s': "read_status lpath rpath s1 = Inr (0, s')" "unread s' = rest" "cput s' = cput s1"
    "shown s' = shown s1" "hung s' = hung s1"
    by (rule read_status_okay)
  have "sync_send n os lpath rpath mtime mode False s = Inr (0, s')"
    using s1(1) s'(1) path(2) by (simp add: sync_send_def)
  moreover obtain d' where "file_sync_service n os2 strerror d = file_sync_service n os2 strerror d'" "unread d' = later"
    "trace d' = trace d @ [Unlink rpath, Open rpath [O_WRONLY, O_CREAT, O_EXCL] (spread_mode (mode AND (7 * 64 + 7 * 8 + 7)))]
         @ map (Write rpath) cs @ [Close rpath, Utime rpath mtime]" "cput d' = cput d @ msg_data ID_OKAY 0"
    using service_stores [OF ok _ sp fed reg path] sizes by blast
  ultimately show ?thesis using s' s1(2) by (intro exI [of _ s'] exI [of _ d']) (simp add: moved_def)
qed

definition push0 :: "byte list \<Rightarrow> push" where
  "push0 bs = \<lparr>cin = [Avail bs], cout = [Room 1000], cput = [], trace = [], sbuf = [], shown = [], hung = 0, total_bytes = 0\<rparr>"

lemma push_arrives_witness:
  "\<exists>s' (d' :: sync). sync_send 5 (serves [[1, 2], [3]]) (ascii ''a'') (ascii ''/b'') 7 0x81a4 False (push0 (msg_data ID_OKAY 0)) = Inr (0, s')
     \<and> unread s' = [] \<and> trace d' = [Unlink (ascii ''/b''), Open (ascii ''/b'') [O_WRONLY, O_CREAT, O_EXCL] (spread_mode 0x1a4),
         Write (ascii ''/b'') [1, 2], Write (ascii ''/b'') [3], Close (ascii ''/b''), Utime (ascii ''/b'') 7]"
proof -
  let ?W = "push_msgs (ascii ''/b'') 0x81a4 [[1, 2], [3]] 7"
  have m: "mode_text 0x81a4 = ascii '',33188''" by (simp add: mode_text_def decimal.simps ascii_def)
  have l: "length ?W = 43" by (simp add: push_msgs_def m file_msgs_def chunk_msg_def)
  have ne: "?W \<noteq> []" "msg_data ID_OKAY 0 \<noteq> []" using l by (auto simp: msg_data_def le32_bytes_def)
  have p: "\<forall>k<length [[1, 2], [3]]. serves [[1, 2], [3]] (trace (push0 (msg_data ID_OKAY 0)) @
      Open (ascii ''a'') [O_RDONLY] 0 # replicate (Suc k) (Read (ascii ''a'') SYNC_DATA_MAX)) = Data ([[1, 2], [3]] ! k)"
    by (auto simp: serves_def push0_def less_Suc_eq numeral_2_eq_2)
  have "\<exists>s' d'. sync_send 5 (serves [[1, 2], [3]]) (ascii ''a'') (ascii ''/b'') 7 0x81a4 False (push0 (msg_data ID_OKAY 0)) = Inr (0, s')
     \<and> cput s' = cput (push0 (msg_data ID_OKAY 0)) @ ?W \<and> unread s' = [] \<and> shown s' = shown (push0 (msg_data ID_OKAY 0))
     \<and> hung s' = hung (push0 (msg_data ID_OKAY 0))
     \<and> file_sync_service 5 (\<lambda>_. Ok) (\<lambda>_. []) (sync0 ?W) = file_sync_service 5 (\<lambda>_. Ok) (\<lambda>_. []) d' \<and> unread d' = []
     \<and> trace d' = trace (sync0 ?W) @ [Unlink (ascii ''/b''), Open (ascii ''/b'') [O_WRONLY, O_CREAT, O_EXCL] (spread_mode (0x81a4 AND (7 * 64 + 7 * 8 + 7)))]
         @ map (Write (ascii ''/b'')) [[1, 2], [3]] @ [Close (ascii ''/b''), Utime (ascii ''/b'') 7]
     \<and> cput d' = cput (sync0 ?W) @ msg_data ID_OKAY 0"
    by (rule push_arrives [OF _ p])
      (use ne l in \<open>simp_all add: push0_def sync0_def serves_def S_ISREG_def m SYNC_DATA_MAX_def ascii_def\<close>)
  then obtain s' and d' :: sync where "sync_send 5 (serves [[1, 2], [3]]) (ascii ''a'') (ascii ''/b'') 7 0x81a4 False (push0 (msg_data ID_OKAY 0)) = Inr (0, s')"
    "unread s' = []" and d: "trace d' = trace (sync0 ?W) @ [Unlink (ascii ''/b''), Open (ascii ''/b'') [O_WRONLY, O_CREAT, O_EXCL] (spread_mode (0x81a4 AND (7 * 64 + 7 * 8 + 7)))]
         @ map (Write (ascii ''/b'')) [[1, 2], [3]] @ [Close (ascii ''/b''), Utime (ascii ''/b'') 7]" by blast
  moreover have "trace d' = [Unlink (ascii ''/b''), Open (ascii ''/b'') [O_WRONLY, O_CREAT, O_EXCL] (spread_mode 0x1a4),
         Write (ascii ''/b'') [1, 2], Write (ascii ''/b'') [3], Close (ascii ''/b''), Utime (ascii ''/b'') 7]"
    using d by (simp add: sync0_def)
  ultimately show ?thesis by blast
qed

section \<open>Receiving\<close>

text \<open>The next message and its data.\<close>

lemma failed_syscall_push: "\<forall>h. failed (os h) = None \<Longrightarrow> failed (fst (syscall os q s)) = None"
  by (simp add: syscall_def)

lemma recv_data_piece:
  assumes ok: "\<forall>h. failed (os h) = None" and c: "length c \<le> SYNC_DATA_MAX"
    and u: "unread s = c @ m @ rest" and m: "length m = 8"
  obtains s' where "recv_data os rpath lpath (msg_data ID_DATA (word_of_nat (length c))) s = recv_data os rpath lpath m s'"
    and "unread s' = rest" and "trace s' = trace s @ [Write lpath c]" and "cput s' = cput s" and "shown s' = shown s"
    and "hung s' = hung s"
proof -
  have len: "sint (word_of_nat (length c) :: u32) = int (length c)" using c by (intro sint_small) (simp add: SYNC_DATA_MAX_def)
  obtain s1 where r1: "sc_readx (int (length c)) s = Inr (0, c, s1)" "unread s1 = m @ rest" "cput s1 = cput s"
    "trace s1 = trace s" "shown s1 = shown s" "hung s1 = hung s"
    using sc_readx_have [OF u refl] by blast
  define w s2 where "w = fst (syscall os (Write lpath c) (fill c s1))" and "s2 = snd (syscall os (Write lpath c) (fill c s1))"
  have w: "syscall os (Write lpath c) (fill c s1) = (w, s2)" "\<not> (\<exists>e. w = Err e)"
    using failed_syscall_push [OF ok, of "Write lpath c" "fill c s1"] by (auto simp: w_def s2_def)
  have "unread (tally (length c) s2) = m @ rest" using r1(2) by (simp add: s2_def)
  then obtain s3 where r3: "sc_readx 8 (tally (length c) s2) = Inr (0, m, s3)" "unread s3 = rest"
    "cput s3 = cput (tally (length c) s2)" "trace s3 = trace (tally (length c) s2)" "shown s3 = shown (tally (length c) s2)"
    "hung s3 = hung (tally (length c) s2)"
    using sc_readx_have [of "tally (length c) s2" m rest 8] m by auto
  have "recv_data os rpath lpath (msg_data ID_DATA (word_of_nat (length c))) s = recv_data os rpath lpath m s3"
    using r1(1) r3(1) w c by (simp add: recv_data.simps [of os rpath lpath "msg_data ID_DATA (word_of_nat (length c))"]
        Let_def ids_distinct len)
  then show thesis by (rule that) (use r1 r3 in \<open>simp_all add: s2_def\<close>)
qed

lemma recv_data_stores:
  assumes ok: "\<forall>h. failed (os h) = None" and cs: "\<forall>c\<in>set cs. length c \<le> SYNC_DATA_MAX"
    and "m @ unread s = file_msgs cs t @ rest" and "length m = 8"
  shows "\<exists>s'. recv_data os rpath lpath m s = Inr (0, s') \<and> unread s' = rest
    \<and> trace s' = trace s @ map (Write lpath) cs @ [Close lpath] \<and> cput s' = cput s \<and> shown s' = shown s \<and> hung s' = hung s"
  using cs assms(3,4)
proof (induction cs arbitrary: m s)
  case Nil
  then have "m = msg_data ID_DONE t" "unread s = rest" by (simp_all add: file_msgs_simps append_eq_append_conv)
  then show ?case
    by (intro exI [of _ "snd (syscall os (Close lpath) s)"]) (simp add: recv_data.simps [of os rpath lpath "msg_data ID_DONE t" s] Let_def)
next
  case (Cons c cs)
  define m2 where "m2 = take 8 (file_msgs cs t)"
  have l8: "8 \<le> length (file_msgs cs t)" by (simp add: file_msgs_def)
  then have m2: "length m2 = 8" "m2 @ drop 8 (file_msgs cs t) = file_msgs cs t" by (simp_all add: m2_def)
  have m: "m = msg_data ID_DATA (word_of_nat (length c))"
    and "unread s = c @ file_msgs cs t @ rest"
    using Cons.prems(2,3) by (simp_all add: file_msgs_simps append_eq_append_conv)
  then have "unread s = c @ m2 @ drop 8 (file_msgs cs t) @ rest" using m2(2) by (metis append_assoc)
  then obtain s' where s': "recv_data os rpath lpath m s = recv_data os rpath lpath m2 s'"
    "unread s' = drop 8 (file_msgs cs t) @ rest" "trace s' = trace s @ [Write lpath c]" "cput s' = cput s" "shown s' = shown s"
    "hung s' = hung s"
    using recv_data_piece [OF ok _ _ m2(1)] Cons.prems(1) m by (metis list.set_intros(1))
  have "m2 @ unread s' = file_msgs cs t @ rest" using s'(2) m2(2) by (metis append_assoc)
  from Cons.IH [OF _ this m2(1)] Cons.prems(1) s' show ?case by auto
qed

text \<open>Making the directories leaves the path as it is, up to slashes that become backslashes.\<close>

definition same_path :: "byte list \<Rightarrow> byte list \<Rightarrow> bool" where
  "same_path p q \<longleftrightarrow> length q = length p \<and> (\<forall>i<length p. q ! i = p ! i \<or> p ! i = 47 \<and> q ! i = 92)"

lemma same_path_refl: "same_path p p"
  by (simp add: same_path_def)

lemma same_path_trans: "same_path p q \<Longrightarrow> same_path q r \<Longrightarrow> same_path p r"
proof -
  assume a: "same_path p q" "same_path q r"
  have "r ! i = p ! i \<or> p ! i = 47 \<and> r ! i = 92" if "i < length p" for i
  proof (cases "q ! i = p ! i")
    case True
    then show ?thesis using a that by (auto simp: same_path_def)
  next
    case False
    then have "p ! i = 47" "q ! i = 92" using a(1) that by (auto simp: same_path_def)
    then show ?thesis using a that by (fastforce simp: same_path_def)
  qed
  then show ?thesis using a by (simp add: same_path_def)
qed

lemma find_byte_at: "find_byte b cs i = Some j \<Longrightarrow> cs ! (j - i) = b"
proof (induction b cs i rule: find_byte.induct)
  case (2 b c cs i)
  show ?case
  proof (cases "c = b")
    case False
    then have "find_byte b cs (i + 1) = Some j" using "2.prems" by simp
    then have "cs ! (j - (i + 1)) = b" "j - i = Suc (j - (i + 1))"
      using "2.IH" [OF False] find_byte_bound [of b cs "i + 1" j] by auto
    then show ?thesis by simp
  qed (use 2 in simp)
qed simp

lemma adb_dirstart_at:
  assumes "adb_dirstart name i = Some j"
  shows "name ! j = 47 \<or> name ! j = 92"
proof -
  have "name ! j = b" if f: "find_byte b (drop i name) i = Some j" for b
  proof -
    have "i \<le> j" "j < i + (length name - i)" using find_byte_bound [OF f] by simp_all
    then have "i \<le> length name" by arith
    then show ?thesis using find_byte_at [OF f] nth_drop [of i name "j - i"] \<open>i \<le> j\<close> by simp
  qed
  then show ?thesis using assms by (auto simp: adb_dirstart_def split: option.splits if_splits)
qed

lemma same_path_update: "name ! j = 47 \<or> name ! j = 92 \<Longrightarrow> same_path name (name[j := 92])"
proof -
  assume a: "name ! j = 47 \<or> name ! j = 92"
  have "name[j := 92] ! i = name ! i \<or> name ! i = 47 \<and> name[j := 92] ! i = 92" if "i < length name" for i
    using a that by (cases "i = j") auto
  then show ?thesis by (simp add: same_path_def)
qed

lemma cl_mkdirs_loop_trace:
  "cl_mkdirs_loop os name i s = (r, name', s') \<Longrightarrow> same_path name name' \<and> cin s' = cin s \<and> cput s' = cput s
     \<and> shown s' = shown s \<and> hung s' = hung s \<and> (\<exists>ds. trace s' = trace s @ map (\<lambda>d. Mkdir d mode_0775) ds)"
proof (induction os name i s rule: cl_mkdirs_loop.induct)
  case (1 os name i s)
  show ?case
  proof (cases "adb_dirstart name i")
    case None
    then show ?thesis using "1.prems" by (auto simp: cl_mkdirs_loop.simps [of os name i] same_path_refl)
  next
    case (Some j)
    define s1 where "s1 = snd (syscall os (Mkdir (take j name) mode_0775) s)"
    define r1 where "r1 = fst (syscall os (Mkdir (take j name) mode_0775) s)"
    have s1: "syscall os (Mkdir (take j name) mode_0775) s = (r1, s1)" by (simp add: r1_def s1_def)
    have up: "same_path name (name[j := 92])" by (rule same_path_update [OF adb_dirstart_at [OF Some]])
    have e: "cin s1 = cin s" "cput s1 = cput s" "shown s1 = shown s" "hung s1 = hung s"
      "trace s1 = trace s @ map (\<lambda>d. Mkdir d mode_0775) [take j name]" by (simp_all add: s1_def)
    show ?thesis
    proof (cases "mkdir_failed r1")
      case True
      then have "name' = name[j := 92]" "s' = s1" using "1.prems" Some s1 by (simp_all add: cl_mkdirs_loop.simps [of os name i] Let_def)
      with up e show ?thesis by blast
    next
      case False
      then have "cl_mkdirs_loop os (name[j := 92]) (j + 1) s1 = (r, name', s')"
        using "1.prems" Some s1 by (simp add: cl_mkdirs_loop.simps [of os name i] Let_def)
      from "1.IH" [OF Some s1 [symmetric] refl False this] obtain ds where
        ih: "same_path (name[j := 92]) name'" "cin s' = cin s1" "cput s' = cput s1" "shown s' = shown s1" "hung s' = hung s1"
          "trace s' = trace s1 @ map (\<lambda>d. Mkdir d mode_0775) ds" by blast
      then have "trace s' = trace s @ map (\<lambda>d. Mkdir d mode_0775) (take j name # ds)" using e by simp
      with ih e same_path_trans [OF up] show ?thesis by (metis (no_types))
    qed
  qed
qed

lemma sync_request_moved:
  assumes "8 + length path \<le> space s"
  obtains s' where "sync_request i path s = Inr (0, s')" and "moved s s' (msg_data i (word_of_nat (length path)) @ path)"
    and "trace s' = trace s"
proof -
  let ?hd = "msg_data i (word_of_nat (length path))"
  have "length ?hd \<le> space s" using assms by simp
  then obtain s1 where s1: "sc_writex ?hd s = Inr (0, s1)" "moved s s1 ?hd" "trace s1 = trace s" by (rule sc_writex_moved)
  have "length path \<le> space s1" using assms moved_space [OF s1(2)] by simp
  then obtain s2 where s2: "sc_writex path s1 = Inr (0, s2)" "moved s1 s2 path" "trace s2 = trace s1" by (rule sc_writex_moved)
  have "sync_request i path s = Inr (0, s2)" using s1(1) s2(1) by (simp add: sync_request_def)
  then show thesis using moved_trans [OF s1(2) s2(2)] s1(3) s2(3) by (intro that [of s2]) simp_all
qed

lemma request_read:
  assumes u: "unread s = msg_data i (word_of_nat (length name)) @ name @ later" and len: "length name \<le> 1024" and nul: "0 \<notin> set name"
  obtains s2 where "unread s2 = later" and "trace s2 = trace s" and "cput s2 = cput s" and "cout s2 = cout s"
    and "file_sync_service n os strerror s = Option.bind (sync_command n os strerror i name s2) (\<lambda>(r, s3).
       if r \<noteq> 0 then Some s3 else file_sync_service n os strerror s3)"
proof -
  obtain s1 where h: "conn_readx 8 s = Some (0, msg_data i (word_of_nat (length name)), s1)"
    "unread s1 = name @ later" "s1 = s\<lparr>cin := cin s1\<rparr>"
    using conn_readx_have [OF u, of 8] by auto
  obtain s2 where d: "conn_readx (length name) s1 = Some (0, name, s2)" "unread s2 = later" "s2 = s1\<lparr>cin := cin s2\<rparr>"
    using conn_readx_have [OF h(2) refl] by auto
  have un: "unat (word_of_nat (length name) :: u32) = length name" using len by (intro small_unat) simp
  have "word_of_nat (length name) \<le> (1024 :: u32)" using un len by (simp add: word_le_nat_alt)
  then have small: "\<not> 1024 < (word_of_nat (length name) :: u32)" by (simp add: not_less)
  have e: "trace s2 = trace s" "cput s2 = cput s" "cout s2 = cout s" by (subst d(3), subst h(3), simp)+
  show thesis
    by (rule that [OF d(2) e])
      (use h(1) d(1) un small cstr_id [OF nul] in \<open>simp add: file_sync_service.simps [of n os strerror s] Let_def\<close>)
qed

lemma service_sends:
  assumes pieces: "\<forall>k<length cs. os (trace s @ Open path [O_RDONLY] 0 # replicate (Suc k) (Read path SYNC_DATA_MAX)) = Data (cs ! k)"
    and at_end: "os (trace s @ Open path [O_RDONLY] 0 # replicate (Suc (length cs)) (Read path SYNC_DATA_MAX)) = Data []"
    and opened: "os (trace s @ [Open path [O_RDONLY] 0]) = Ok"
    and sizes: "[] \<notin> set cs" and fits: "length (file_msgs cs 0) \<le> space s" and n: "length cs < n"
    and u: "unread s = msg_data ID_RECV (word_of_nat (length path)) @ path @ later" and len: "length path \<le> 1024" and nul: "0 \<notin> set path"
  shows "\<exists>s'. file_sync_service n os strerror s = file_sync_service n os strerror s' \<and> unread s' = later
     \<and> cput s' = cput s @ file_msgs cs 0 \<and> last (trace s') = Close path"
proof -
  obtain s2 where s2: "unread s2 = later" "trace s2 = trace s" "cput s2 = cput s" "cout s2 = cout s"
    "file_sync_service n os strerror s = Option.bind (sync_command n os strerror ID_RECV path s2) (\<lambda>(r, s3).
       if r \<noteq> 0 then Some s3 else file_sync_service n os strerror s3)"
    by (rule request_read [OF u len nul])
  define s0 where "s0 = snd (syscall os (Open path [O_RDONLY] 0) s2)"
  have o: "syscall os (Open path [O_RDONLY] 0) s2 = (Ok, s0)" using opened s2(2) by (simp add: syscall_def s0_def)
  obtain s1 where s1: "recv_loop n os strerror path s0 = Some (0, s1)" "cput s1 = cput s0 @ file_msgs cs 0"
    "trace s1 = trace s0 @ replicate (Suc (length cs)) (Read path SYNC_DATA_MAX) @ [Close path]"
    using recv_loop_sends [of cs os s0 path n strerror] assms(1-6) s2 by (auto simp: s0_def)
  have "do_recv n os strerror path s2 = Some (0, s1)" using o s1(1) by (simp add: do_recv_def)
  then have "sync_command n os strerror ID_RECV path s2 = Some (0, s1)"
    by (simp add: sync_command_def) (simp add: id_defs MKID_def le32_of_def ascii_def)
  then have "file_sync_service n os strerror s = file_sync_service n os strerror s1" using s2(5) by simp
  moreover have "unread s1 = later" using recv_loop_cin [OF s1(1)] s2(1) by (simp add: s0_def)
  ultimately show ?thesis using s1 s2(3) by (intro exI [of _ s1]) (simp add: s0_def)
qed

lemma sync_recv_stores:
  assumes ok: "\<forall>h. failed (os h) = None" and cs: "\<forall>c\<in>set cs. length c \<le> SYNC_DATA_MAX"
    and sp: "8 + length rpath \<le> space s" and len: "length rpath \<le> 1024"
    and u: "unread s = file_msgs cs t @ rest"
  shows "\<exists>s' ds lpath'. sync_recv os rpath lpath s = Inr (0, s') \<and> unread s' = rest
     \<and> cput s' = cput s @ msg_data ID_RECV (word_of_nat (length rpath)) @ rpath \<and> shown s' = shown s \<and> hung s' = hung s
     \<and> same_path lpath lpath'
     \<and> trace s' = trace s @ Unlink lpath # map (\<lambda>d. Mkdir d mode_0775) ds @ Creat lpath' mode_0644 # map (Write lpath') cs @ [Close lpath']"
proof -
  obtain s1 where s1: "sync_request ID_RECV rpath s = Inr (0, s1)"
    "moved s s1 (msg_data ID_RECV (word_of_nat (length rpath)) @ rpath)" "trace s1 = trace s"
    by (rule sync_request_moved [OF sp])
  define m where "m = take 8 (file_msgs cs t)"
  have l8: "8 \<le> length (file_msgs cs t)" by (simp add: file_msgs_def)
  then have m: "length m = 8" "m @ drop 8 (file_msgs cs t) = file_msgs cs t" by (simp_all add: m_def)
  have id: "le32_of m = ID_DATA \<or> le32_of m = ID_DONE" by (cases cs) (simp_all add: m_def file_msgs_simps)
  have "unread s1 = m @ drop 8 (file_msgs cs t) @ rest" using u s1(2) m(2) by (metis append_assoc moved_def)
  then obtain s2 where s2: "sc_readx 8 s1 = Inr (0, m, s2)" "unread s2 = drop 8 (file_msgs cs t) @ rest" "cput s2 = cput s1"
    "trace s2 = trace s1" "shown s2 = shown s1" "hung s2 = hung s1"
    using sc_readx_have [of s1 m _ 8] m(1) by auto
  define s3 where "s3 = snd (syscall os (Unlink lpath) s2)"
  obtain r lpath' s4 where mk: "cl_mkdirs os lpath s3 = (r, lpath', s4)" by (metis prod_cases3)
  from cl_mkdirs_loop_trace [OF mk [unfolded cl_mkdirs_def]] obtain ds where
    s4: "same_path lpath lpath'" "cin s4 = cin s3" "cput s4 = cput s3" "shown s4 = shown s3" "hung s4 = hung s3"
      "trace s4 = trace s3 @ map (\<lambda>d. Mkdir d mode_0775) ds" by blast
  define w s5 where "w = fst (syscall os (Creat lpath' mode_0644) s4)" and "s5 = snd (syscall os (Creat lpath' mode_0644) s4)"
  have w: "syscall os (Creat lpath' mode_0644) s4 = (w, s5)" "\<not> (\<exists>e. w = Err e)"
    using failed_syscall_push [OF ok, of "Creat lpath' mode_0644" s4] by (auto simp: w_def s5_def)
  have "m @ unread s5 = file_msgs cs t @ rest" using s2(2) s4(2) by (simp add: s5_def s3_def flip: append_assoc) (simp add: m(2))
  then obtain s' where s': "recv_data os rpath lpath' m s5 = Inr (0, s')" "unread s' = rest"
    "trace s' = trace s5 @ map (Write lpath') cs @ [Close lpath']" "cput s' = cput s5" "shown s' = shown s5" "hung s' = hung s5"
    using recv_data_stores [OF ok cs _ m(1)] by blast
  have "sync_recv os rpath lpath s = Inr (0, s')"
    using s1(1) s2(1) id mk w s'(1) len by (cases w) (auto simp: sync_recv_def s3_def Let_def)
  moreover have "trace s' = trace s @ Unlink lpath # map (\<lambda>d. Mkdir d mode_0775) ds @ Creat lpath' mode_0644 # map (Write lpath') cs @ [Close lpath']"
    using s'(3) s4(6) s2(4) s1(3) by (simp add: s5_def s3_def)
  ultimately show ?thesis using s' s4 s2 s1(2) by (intro exI [of _ s'] exI [of _ ds] exI [of _ lpath']) (simp add: s5_def s3_def moved_def)
qed

text \<open>C7. A file that is received is the one the device has.  The file reads as the pieces \<open>cs\<close> on the device;
  every local call succeeds; each side is fed what the other writes.  Then the client returns 0 and
  complains of nothing; it removes the local file, makes its directories, creates it, writes exactly the
  pieces in order and closes it; the device closes its file and goes on with the next command.  The local
  path stays as it was but for slashes that become backslashes.\<close>

theorem pull_arrives:
  assumes pieces: "\<forall>k<length cs. os2 (trace d @ Open rpath [O_RDONLY] 0 # replicate (Suc k) (Read rpath SYNC_DATA_MAX)) = Data (cs ! k)"
    and at_end: "os2 (trace d @ Open rpath [O_RDONLY] 0 # replicate (Suc (length cs)) (Read rpath SYNC_DATA_MAX)) = Data []"
    and opened: "os2 (trace d @ [Open rpath [O_RDONLY] 0]) = Ok"
    and sizes: "\<forall>c\<in>set cs. c \<noteq> [] \<and> length c \<le> SYNC_DATA_MAX"
    and fits: "length (file_msgs cs 0) \<le> space d" "8 + length rpath \<le> space s" and n: "length cs < n"
    and path: "0 \<notin> set rpath" "length rpath \<le> 1024" and ok: "\<forall>h. failed (os h) = None"
    and fed: "unread d = msg_data ID_RECV (word_of_nat (length rpath)) @ rpath @ later" and answer: "unread s = file_msgs cs 0 @ rest"
  shows "\<exists>s' d' ds lpath'. sync_recv os rpath lpath s = Inr (0, s') \<and> unread s' = rest
     \<and> cput s' = cput s @ msg_data ID_RECV (word_of_nat (length rpath)) @ rpath \<and> shown s' = shown s \<and> hung s' = hung s
     \<and> same_path lpath lpath'
     \<and> trace s' = trace s @ Unlink lpath # map (\<lambda>d. Mkdir d mode_0775) ds @ Creat lpath' mode_0644 # map (Write lpath') cs @ [Close lpath']
     \<and> file_sync_service n os2 strerror d = file_sync_service n os2 strerror d' \<and> unread d' = later
     \<and> cput d' = cput d @ file_msgs cs 0 \<and> last (trace d') = Close rpath"
proof -
  have cs: "[] \<notin> set cs" "\<forall>c\<in>set cs. length c \<le> SYNC_DATA_MAX" using sizes by auto
  obtain d' where d': "file_sync_service n os2 strerror d = file_sync_service n os2 strerror d'" "unread d' = later"
    "cput d' = cput d @ file_msgs cs 0" "last (trace d') = Close rpath"
    using service_sends [OF pieces at_end opened cs(1) fits(1) n fed path(2,1)] by blast
  obtain s' ds lpath' where s': "sync_recv os rpath lpath s = Inr (0, s')" "unread s' = rest"
    "cput s' = cput s @ msg_data ID_RECV (word_of_nat (length rpath)) @ rpath" "shown s' = shown s" "hung s' = hung s"
    "same_path lpath lpath'"
    "trace s' = trace s @ Unlink lpath # map (\<lambda>d. Mkdir d mode_0775) ds @ Creat lpath' mode_0644 # map (Write lpath') cs @ [Close lpath']"
    using sync_recv_stores [OF ok cs(2) fits(2) path(2) answer] by blast
  show ?thesis
    by (rule exI [of _ s'], rule exI [of _ d'], rule exI [of _ ds], rule exI [of _ lpath']) (simp add: s' d')
qed

lemma pull_arrives_witness:
  "\<exists>s' ds lpath'. sync_recv (\<lambda>_. Ok) (ascii ''/b'') (ascii ''x/a'') (push0 (file_msgs [[1, 2], [3]] 0)) = Inr (0, s')
     \<and> same_path (ascii ''x/a'') lpath'
     \<and> trace s' = Unlink (ascii ''x/a'') # map (\<lambda>d. Mkdir d mode_0775) ds @ [Creat lpath' mode_0644, Write lpath' [1, 2], Write lpath' [3], Close lpath']"
proof -
  let ?req = "msg_data ID_RECV (word_of_nat (length (ascii ''/b''))) @ ascii ''/b''"
  have l: "length (file_msgs [[1, 2], [3]] 0) = 27" by (simp add: file_msgs_def chunk_msg_def)
  have ne: "file_msgs [[1, 2], [3]] 0 \<noteq> []" using l by auto
  have p: "\<forall>k<length [[1, 2], [3]]. serves [[1, 2], [3]] (trace (sync0 ?req) @
      Open (ascii ''/b'') [O_RDONLY] 0 # replicate (Suc k) (Read (ascii ''/b'') SYNC_DATA_MAX)) = Data ([[1, 2], [3]] ! k)"
    by (auto simp: serves_def sync0_def less_Suc_eq numeral_2_eq_2)
  have "\<exists>s' d' ds lpath'. sync_recv (\<lambda>_. Ok) (ascii ''/b'') (ascii ''x/a'') (push0 (file_msgs [[1, 2], [3]] 0)) = Inr (0, s')
     \<and> unread s' = [] \<and> cput s' = cput (push0 (file_msgs [[1, 2], [3]] 0)) @ ?req
     \<and> shown s' = shown (push0 (file_msgs [[1, 2], [3]] 0)) \<and> hung s' = hung (push0 (file_msgs [[1, 2], [3]] 0))
     \<and> same_path (ascii ''x/a'') lpath'
     \<and> trace s' = trace (push0 (file_msgs [[1, 2], [3]] 0)) @ Unlink (ascii ''x/a'') # map (\<lambda>d. Mkdir d mode_0775) ds @ Creat lpath' mode_0644 # map (Write lpath') [[1, 2], [3]] @ [Close lpath']
     \<and> file_sync_service 5 (serves [[1, 2], [3]]) (\<lambda>_. []) (sync0 ?req) = file_sync_service 5 (serves [[1, 2], [3]]) (\<lambda>_. []) d'
     \<and> unread d' = [] \<and> cput d' = cput (sync0 ?req) @ file_msgs [[1, 2], [3]] 0 \<and> last (trace d') = Close (ascii ''/b'')"
    by (rule pull_arrives [OF p])
      (use ne l in \<open>simp_all add: push0_def sync0_def serves_def SYNC_DATA_MAX_def ascii_def\<close>)
  then obtain s' ds lpath' where "sync_recv (\<lambda>_. Ok) (ascii ''/b'') (ascii ''x/a'') (push0 (file_msgs [[1, 2], [3]] 0)) = Inr (0, s')"
    "same_path (ascii ''x/a'') lpath'" "trace s' = trace (push0 (file_msgs [[1, 2], [3]] 0)) @ Unlink (ascii ''x/a'') # map (\<lambda>d. Mkdir d mode_0775) ds @ Creat lpath' mode_0644 # map (Write lpath') [[1, 2], [3]] @ [Close lpath']"
    by blast
  then show ?thesis
    by (intro exI [of _ s'] exI [of _ ds] exI [of _ lpath']) (simp add: push0_def)
qed

text \<open>A failure on the device destroys the local file and counts as success: when the device answers FAIL
  with a reason of at most 256 bytes, the client removes the local file, which it has not opened, shows the
  reason and returns 0.\<close>

theorem failed_pull_returns_success:
  assumes "unread s = msg_data ID_FAIL (word_of_nat (length reason)) @ reason @ rest" and "length reason \<le> 256"
    and "0 \<notin> set reason" and "8 + length rpath \<le> space s" and "length rpath \<le> 1024"
  shows "\<exists>s'. sync_recv os rpath lpath s = Inr (0, s') \<and> trace s' = trace s @ [Unlink lpath]
     \<and> unread s' = rest \<and> shown s' = shown s @ [ascii ''failed to copy '' @ quoted rpath @ ascii '' to '' @ quoted lpath @ ascii '': '' @ reason]"
proof -
  let ?m = "msg_data ID_FAIL (word_of_nat (length reason))"
  obtain s1 where s1: "sync_request ID_RECV rpath s = Inr (0, s1)"
    "moved s s1 (msg_data ID_RECV (word_of_nat (length rpath)) @ rpath)" "trace s1 = trace s"
    by (rule sync_request_moved [OF assms(4)])
  then have "unread s1 = ?m @ reason @ rest" using assms(1) by (simp add: moved_def)
  then obtain s2 where s2: "sc_readx 8 s1 = Inr (0, ?m, s2)" "unread s2 = reason @ rest" "trace s2 = trace s1"
    "shown s2 = shown s1"
    using sc_readx_have [of s1 ?m _ 8] by auto
  define s3 where "s3 = snd (syscall os (Unlink lpath) s2)"
  have len: "sint (word_of_nat (length reason) :: u32) = int (length reason)" using assms(2) by (intro sint_small) simp
  have "unread s3 = reason @ rest" using s2 by (simp add: s3_def)
  then obtain s4 where s4: "sc_readx (int (length reason)) s3 = Inr (0, reason, s4)" "unread s4 = rest" "trace s4 = trace s3"
    "shown s4 = shown s3"
    using sc_readx_have [OF _ refl] by blast
  have mn: "min 256 (int (length reason)) = int (length reason)" using assms(2) by simp
  have ids: "ID_FAIL \<noteq> ID_DATA" "ID_FAIL \<noteq> ID_DONE" by (simp_all add: id_defs MKID_def le32_of_def ascii_def)
  have "sync_recv os rpath lpath s = Inr (0, copy_failure rpath lpath (cstr reason) (fill (reason @ [0]) s4))"
    using s1(1) s2(1) s4(1) assms(5) ids len mn by (simp add: sync_recv_def remote_error_def s3_def)
  then show ?thesis
    using s4 s2 s1 cstr_id [OF assms(3)]
    by (intro exI [of _ "copy_failure rpath lpath (cstr reason) (fill (reason @ [0]) s4)"]) (simp add: copy_failure_def s3_def moved_def)
qed

lemma failed_pull_returns_success_witness:
  "\<exists>s'. sync_recv (\<lambda>_. Ok) (ascii ''/b'') (ascii ''a'') (push0 (msg_data ID_FAIL 2 @ ascii ''no'')) = Inr (0, s')
     \<and> trace s' = [Unlink (ascii ''a'')]"
proof -
  have "0 \<notin> set (ascii ''no'')" by (simp add: ascii_def)
  moreover have "msg_data ID_FAIL 2 \<noteq> []" by (simp add: msg_data_def le32_bytes_def)
  ultimately show ?thesis
    using failed_pull_returns_success [of "push0 (msg_data ID_FAIL 2 @ ascii ''no'')" "ascii ''no''" "[]" "ascii ''/b''" "\<lambda>_. Ok" "ascii ''a''"]
    by (auto simp: push0_def)
qed

section \<open>Listing\<close>

text \<open>The calls of the call-back for the entries of a directory.\<close>

definition entry_call :: "(byte list \<Rightarrow> sysres) \<Rightarrow> byte list \<Rightarrow> byte list \<Rightarrow> ls_call list" where
  "entry_call st path name = (if length name > 256 then [] else case st (path @ [47] @ name) of
     Attr mode sz time \<Rightarrow> [(mode, sz, time, name)]
   | _ \<Rightarrow> [])"

lemma msg_dent_fields: "le32_of (msg_dent i m z t l) = i" "le32_of (drop 4 (msg_dent i m z t l)) = m"
  "le32_of (drop 8 (msg_dent i m z t l)) = z" "le32_of (drop 12 (msg_dent i m z t l)) = t"
  "le32_of (drop 16 (msg_dent i m z t l)) = l"
  by (simp_all add: msg_dent_def msg_stat_def)

lemma dent_not_done: "ID_DENT \<noteq> ID_DONE"
  by (simp add: id_defs MKID_def le32_of_def ascii_def)

lemma ls_loop_entry:
  assumes u: "unread s = entry_msg st path name @ rest" and nul: "0 \<notin> set name"
  obtains s' where "ls_loop calls s = ls_loop (calls @ entry_call st path name) s'" and "unread s' = rest" and "cput s' = cput s"
    and "cout s' = cout s" and "hung s' = hung s"
proof (cases "length name \<le> 256 \<and> (\<exists>m z t. st (path @ [47] @ name) = Attr m z t)")
  case False
  then have "entry_msg st path name = []" "entry_call st path name = []"
    by (auto simp: entry_msg_def entry_call_def split: sysres.split)
  then show thesis using u that [of s] by simp
next
  case True
  then obtain m z t where st: "st (path @ [47] @ name) = Attr m z t" and len: "length name \<le> 256" by blast
  let ?h = "msg_dent ID_DENT m z t (word_of_nat (length name))"
  have u': "unread s = ?h @ name @ rest" using u st len by (simp add: entry_msg_def)
  obtain s1 where s1: "sc_readx 20 s = Inr (0, ?h, s1)" "unread s1 = name @ rest" "cput s1 = cput s" "cout s1 = cout s" "hung s1 = hung s"
    using sc_readx_have [OF u', of 20] by auto
  obtain s2 where s2: "sc_readx (int (length name)) s1 = Inr (0, name, s2)" "unread s2 = rest" "cput s2 = cput s1"
    "cout s2 = cout s1" "hung s2 = hung s1"
    using sc_readx_have [OF s1(2) refl] by blast
  have n: "sint (word_of_nat (length name) :: u32) = int (length name)" using len by (intro sint_small) simp
  have "ls_loop calls s = ls_loop (calls @ [(m, z, t, name)]) s2"
    using s1(1) s2(1) len by (simp add: ls_loop.simps [of calls s] Let_def msg_dent_fields dent_not_done n cstr_id [OF nul])
  then show thesis
    by (intro that [of s2]) (use st len s1 s2 in \<open>simp_all add: entry_call_def\<close>)
qed

lemma ls_loop_reads:
  assumes "unread s = concat (map (entry_msg st path) es) @ msg_dent ID_DONE 0 0 0 0 @ rest" and "\<forall>e\<in>set es. 0 \<notin> set e"
  shows "\<exists>s'. ls_loop calls s = Inr (0, calls @ concat (map (entry_call st path) es), s') \<and> unread s' = rest
    \<and> cput s' = cput s \<and> hung s' = hung s"
  using assms
proof (induction es arbitrary: calls s)
  case Nil
  then obtain s' where "sc_readx 20 s = Inr (0, msg_dent ID_DONE 0 0 0 0, s')" "unread s' = rest" "cput s' = cput s" "hung s' = hung s"
    using sc_readx_have [of s "msg_dent ID_DONE 0 0 0 0" rest 20] by auto
  then show ?case by (simp add: ls_loop.simps [of calls s] msg_dent_fields)
next
  case (Cons e es)
  let ?rest = "concat (map (entry_msg st path) es) @ msg_dent ID_DONE 0 0 0 0 @ rest"
  have "unread s = entry_msg st path e @ ?rest" "0 \<notin> set e" using Cons.prems by simp_all
  then obtain s1 where s1: "ls_loop calls s = ls_loop (calls @ entry_call st path e) s1" "unread s1 = ?rest" "cput s1 = cput s"
    "hung s1 = hung s"
    using ls_loop_entry by blast
  show ?case using Cons.IH [OF s1(2), of "calls @ entry_call st path e"] Cons.prems(2) s1 by simp
qed

lemma reads_frame: "trace s' = trace s \<Longrightarrow> reads s' = reads s"
  by (simp add: reads_def)

text \<open>C39. A listing shows the directory: when each side is fed what the other writes, the client calls back once for
  every entry that the device can examine and whose name has at most 256 bytes, in the order of the
  directory, with its mode, size, time and name, and returns 0.\<close>

theorem listing_shows_directory:
  assumes answer: "unread s = concat (map (entry_msg st path) es) @ msg_dent ID_DONE 0 0 0 0 @ rest"
    and names: "\<forall>e\<in>set es. 0 \<notin> set e" and path: "length path \<le> 1024" "0 \<notin> set path"
    and fits: "8 + length path \<le> space s" "length (concat (map (entry_msg st path) es)) + 20 \<le> space d" and n: "length es < n"
    and fed: "unread d = msg_data ID_LIST (word_of_nat (length path)) @ path @ later" and fresh: "reads d = 0"
  shows "\<exists>s' d'. sync_ls path s = Inr (0, concat (map (entry_call st path) es), s') \<and> unread s' = rest \<and> hung s' = hung s
     \<and> cput s' = cput s @ msg_data ID_LIST (word_of_nat (length path)) @ path
     \<and> file_sync_service n (directory es st) strerror d = file_sync_service n (directory es st) strerror d' \<and> unread d' = later
     \<and> cput d' = cput d @ concat (map (entry_msg st path) es) @ msg_dent ID_DONE 0 0 0 0"
proof -
  obtain s1 where s1: "sync_request ID_LIST path s = Inr (0, s1)"
    "moved s s1 (msg_data ID_LIST (word_of_nat (length path)) @ path)"
    by (rule sync_request_moved [OF fits(1)])
  then have "unread s1 = concat (map (entry_msg st path) es) @ msg_dent ID_DONE 0 0 0 0 @ rest" using answer by (simp add: moved_def)
  from ls_loop_reads [OF this names, of "[]"] obtain s' where s': "ls_loop [] s1 = Inr (0, concat (map (entry_call st path) es), s')"
    "unread s' = rest" "cput s' = cput s1" "hung s' = hung s1" by auto
  have c: "sync_ls path s = Inr (0, concat (map (entry_call st path) es), s')"
    using s1(1) s'(1) path(1) by (simp add: sync_ls_def)
  obtain d2 where d2: "unread d2 = later" "trace d2 = trace d" "cput d2 = cput d" "cout d2 = cout d"
    "file_sync_service n (directory es st) strerror d = Option.bind (sync_command n (directory es st) strerror ID_LIST path d2) (\<lambda>(r, s3).
       if r \<noteq> 0 then Some s3 else file_sync_service n (directory es st) strerror s3)"
    by (rule request_read [OF fed path])
  define d3 where "d3 = snd (syscall (directory es st) (Opendir path) d2)"
  have o: "syscall (directory es st) (Opendir path) d2 = (Ok, d3)" by (simp add: syscall_def directory_def d3_def)
  have "reads d3 = 0" using fresh d2(2) by (simp add: reads_def d3_def is_readdir_def)
  then obtain d' where d': "list_loop n (directory es st) path d3 = Some (0, d')" "cin d' = cin d3"
    "cput d' = cput d3 @ concat (map (entry_msg st path) es) @ msg_dent ID_DONE 0 0 0 0"
    using list_loop_entries [of d3 es st path n] fits(2) n d2(4) by (auto simp: d3_def)
  have "do_list n (directory es st) path d2 = Some (0, d')" using o d'(1) by (simp add: do_list_def)
  then have "sync_command n (directory es st) strerror ID_LIST path d2 = Some (0, d')"
    by (simp add: sync_command_def) (simp add: id_defs MKID_def le32_of_def ascii_def)
  then have "file_sync_service n (directory es st) strerror d = file_sync_service n (directory es st) strerror d'" using d2(5) by simp
  moreover have "unread d' = later" "cput d' = cput d @ concat (map (entry_msg st path) es) @ msg_dent ID_DONE 0 0 0 0"
    using d' d2 by (simp_all add: d3_def)
  ultimately show ?thesis using c s' s1(2) by (intro exI [of _ s'] exI [of _ d']) (simp add: moved_def)
qed

lemma listing_shows_directory_witness:
  "\<exists>s'. sync_ls (ascii ''/d'') (push0 (msg_dent ID_DENT 1 2 3 1 @ ascii ''x'' @ msg_dent ID_DONE 0 0 0 0)) = Inr (0, [(1, 2, 3, ascii ''x'')], s')
     \<and> unread s' = []"
proof -
  let ?st = "\<lambda>p. if last p = 121 then Err ENOENT else Attr 1 2 3"
  let ?es = "[ascii ''x'', replicate 300 65, ascii ''y'']"
  let ?answer = "msg_dent ID_DENT 1 2 3 1 @ ascii ''x'' @ msg_dent ID_DONE 0 0 0 0"
  let ?req = "msg_data ID_LIST (word_of_nat (length (ascii ''/d''))) @ ascii ''/d''"
  have a: "concat (map (entry_msg ?st (ascii ''/d'')) ?es) = msg_dent ID_DENT 1 2 3 1 @ ascii ''x''"
    "concat (map (entry_call ?st (ascii ''/d'')) ?es) = [(1, 2, 3, ascii ''x'')]"
    by (simp_all add: entry_msg_def entry_call_def ascii_def)
  have ne: "?answer \<noteq> []" "?req \<noteq> []" by (simp_all add: ascii_def)
  have "\<exists>s' d'. sync_ls (ascii ''/d'') (push0 ?answer) = Inr (0, concat (map (entry_call ?st (ascii ''/d'')) ?es), s') \<and> unread s' = [] \<and> hung s' = hung (push0 ?answer)
     \<and> cput s' = cput (push0 ?answer) @ ?req
     \<and> file_sync_service 5 (directory ?es ?st) (\<lambda>_. []) (sync0 ?req) = file_sync_service 5 (directory ?es ?st) (\<lambda>_. []) d' \<and> unread d' = []
     \<and> cput d' = cput (sync0 ?req) @ concat (map (entry_msg ?st (ascii ''/d'')) ?es) @ msg_dent ID_DONE 0 0 0 0"
    by (rule listing_shows_directory)
      (use ne a in \<open>simp_all add: push0_def sync0_def reads_def\<close>, simp_all add: ascii_def)
  then show ?thesis unfolding a by blast
qed

text \<open>A name whose length is negative as an \<open>int\<close> passes the test of the client and overruns its buffer.\<close>

theorem listing_overruns:
  assumes "unread s = msg_dent ID_DENT m z t len @ rest" and "sint len < 0" and "8 + length path \<le> space s" and "length path \<le> 1024"
  shows "sync_ls path s = Inl Overruns"
proof -
  obtain s1 where s1: "sync_request ID_LIST path s = Inr (0, s1)"
    "moved s s1 (msg_data ID_LIST (word_of_nat (length path)) @ path)"
    by (rule sync_request_moved [OF assms(3)])
  then have "unread s1 = msg_dent ID_DENT m z t len @ rest" using assms(1) by (simp add: moved_def)
  then obtain s2 where s2: "sc_readx 20 s1 = Inr (0, msg_dent ID_DENT m z t len, s2)"
    using sc_readx_have [of s1 "msg_dent ID_DENT m z t len" rest 20] by auto
  then have "ls_loop [] s1 = Inl Overruns"
    using assms(2) by (simp add: ls_loop.simps [of _ s1] msg_dent_fields dent_not_done Let_def sc_readx_def [of "sint len"])
  then show ?thesis using s1(1) assms(4) by (simp add: sync_ls_def)
qed

lemma listing_overruns_witness: "sync_ls (ascii ''/'') (push0 (msg_dent ID_DENT 0 0 0 (- 1))) = Inl Overruns"
proof -
  have "msg_dent ID_DENT 0 0 0 (- 1) \<noteq> []" by (simp add: msg_dent_def msg_stat_def le32_bytes_def)
  then show ?thesis
    by (intro listing_overruns [of _ 0 0 0 "- 1" "[]"]) (simp_all add: push0_def)
qed

section \<open>Sending a package\<close>

function chunks :: "byte list \<Rightarrow> byte list list" where
  "chunks buf = (if buf = [] then [] else take SYNC_DATA_MAX buf # chunks (drop SYNC_DATA_MAX buf))"
  by pat_completeness auto
termination
  by (relation "measure length") (auto simp: SYNC_DATA_MAX_def)

declare chunks.simps [simp del]

lemma concat_chunks: "concat (chunks buf) = buf"
  by (induction buf rule: chunks.induct) (simp add: chunks.simps)

lemma chunks_size: "c \<in> set (chunks buf) \<Longrightarrow> c \<noteq> [] \<and> length c \<le> SYNC_DATA_MAX"
proof (induction buf rule: chunks.induct)
  case (1 buf)
  then show ?case by (auto simp: chunks.simps [of buf] SYNC_DATA_MAX_def split: if_splits)
qed

lemma moved_tally: "moved (fill c s) s1 bs \<Longrightarrow> moved s (tally n s1) bs"
  by (simp add: moved_def)

lemma write_data_buffer_moved:
  assumes "length (concat (map chunk_msg (chunks buf))) \<le> space s"
  shows "\<exists>s'. write_data_buffer buf s = Inr (0, s') \<and> moved s s' (concat (map chunk_msg (chunks buf)))"
  using assms
proof (induction buf arbitrary: s rule: chunks.induct)
  case (1 buf)
  show ?case
  proof (cases "buf = []")
    case True
    then show ?thesis by (simp add: write_data_buffer.simps [of "[]"] chunks.simps [of "[]"] moved_def)
  next
    case False
    define c where "c = take SYNC_DATA_MAX buf"
    have ch: "chunks buf = c # chunks (drop SYNC_DATA_MAX buf)" using False by (simp add: chunks.simps [of buf] c_def)
    have "length (chunk_msg c) \<le> space (fill c s)" using "1.prems" ch by simp
    then obtain s1 where s1: "sc_writex (chunk_msg c) (fill c s) = Inr (0, s1)" "moved (fill c s) s1 (chunk_msg c)"
      by (rule sc_writex_moved)
    have m: "moved s (tally (length c) s1) (chunk_msg c)" by (rule moved_tally [OF s1(2)])
    then have "length (concat (map chunk_msg (chunks (drop SYNC_DATA_MAX buf)))) \<le> space (tally (length c) s1)"
      using "1.prems" ch moved_space [OF m] by simp
    from "1.IH" [OF False this] obtain s' where
      s': "write_data_buffer (drop SYNC_DATA_MAX buf) (tally (length c) s1) = Inr (0, s')"
        "moved (tally (length c) s1) s' (concat (map chunk_msg (chunks (drop SYNC_DATA_MAX buf))))" by blast
    have "write_data_buffer buf s = Inr (0, s')"
      using False s1(1) s'(1) by (simp add: write_data_buffer.simps [of buf] Let_def c_def chunk_msg_def)
    then show ?thesis using moved_trans [OF m s'(2)] ch by auto
  qed
qed

text \<open>A package that passes the check is sent whole: the messages are those of a file that reads as
  pieces of at most 64 kB whose concatenation is the contents that were checked, and the result is the
  device's answer.\<close>

theorem package_sent_whole:
  assumes "load_package os lpath s = Inr (Inr buf, s1)" and "length (push_msgs rpath mode (chunks buf) mtime) \<le> space s1"
    and "length rpath \<le> 1024"
  shows "\<exists>s'. sync_send n os lpath rpath mtime mode True s = read_status lpath rpath s'
     \<and> cput s' = cput s1 @ push_msgs rpath mode (chunks buf) mtime \<and> concat (chunks buf) = buf
     \<and> (\<forall>c\<in>set (chunks buf). c \<noteq> [] \<and> length c \<le> SYNC_DATA_MAX)"
proof -
  let ?hd = "msg_data ID_SEND (word_of_nat (length rpath + length (mode_text mode)))"
  let ?body = "concat (map chunk_msg (chunks buf))"
  have pm: "push_msgs rpath mode (chunks buf) mtime = ?hd @ rpath @ mode_text mode @ ?body @ msg_data ID_DONE mtime"
    by (simp add: push_msgs_def file_msgs_split)
  then have len: "8 + (length rpath + (length (mode_text mode) + (length ?body + 8))) \<le> space s1" using assms(2) by simp
  have "length ?hd \<le> space s1" using len by simp
  then obtain s2 where s2: "sc_writex ?hd s1 = Inr (0, s2)" "moved s1 s2 ?hd" by (rule sc_writex_moved)
  have "length rpath \<le> space s2" using len moved_space [OF s2(2)] by simp
  then obtain s3 where s3: "sc_writex rpath s2 = Inr (0, s3)" "moved s2 s3 rpath" by (rule sc_writex_moved)
  have "length (mode_text mode) \<le> space s3" using len moved_space [OF s2(2)] moved_space [OF s3(2)] by simp
  then obtain s4 where s4: "sc_writex (mode_text mode) s3 = Inr (0, s4)" "moved s3 s4 (mode_text mode)" by (rule sc_writex_moved)
  have sp: "length ?body + 8 \<le> space s4" using len moved_space [OF s2(2)] moved_space [OF s3(2)] moved_space [OF s4(2)] by simp
  then have "length ?body \<le> space s4" by simp
  from write_data_buffer_moved [OF this] obtain s5 where s5: "write_data_buffer buf s4 = Inr (0, s5)" "moved s4 s5 ?body" by blast
  have "length (msg_data ID_DONE mtime) \<le> space s5" using sp moved_space [OF s5(2)] by simp
  then obtain s6 where s6: "sc_writex (msg_data ID_DONE mtime) s5 = Inr (0, s6)" "moved s5 s6 (msg_data ID_DONE mtime)"
    by (rule sc_writex_moved)
  have "sync_send n os lpath rpath mtime mode True s = read_status lpath rpath s6"
    using assms s2 s3 s4 s5 s6 by (simp add: sync_send_def send_checked_def send_contents_def)
  moreover have "cput s6 = cput s1 @ push_msgs rpath mode (chunks buf) mtime"
    using moved_trans [OF s2(2) moved_trans [OF s3(2) moved_trans [OF s4(2) moved_trans [OF s5(2) s6(2)]]]] pm by (simp add: moved_def)
  ultimately show ?thesis using concat_chunks chunks_size by blast
qed

definition package_os :: "byte list \<Rightarrow> environment" where
  "package_os buf h = (case last h of Seek_end _ \<Rightarrow> Size (length buf) | Read _ _ \<Rightarrow> Data buf | _ \<Rightarrow> Ok)"

definition sample_package :: "byte list" where
  "sample_package = archive sample_body sample_members"

lemma sample_package_loads:
  "\<exists>s1. load_package (package_os sample_package) (ascii ''a'') (push0 []) = Inr (Inr sample_package, s1) \<and> space s1 = 1000"
proof -
  have z: "\<forall>m\<in>set sample_members. member_ok (archive sample_body sample_members) m \<and> 0 \<notin> set (m_name m)"
    using sample_ok(2) by (auto simp: sample_members_def ascii_def)
  obtain f r where f: "init_zipfile sample_package = Inr (Some f)" "lookup_zipentry f (ascii ''AndroidManifest.xml'') = Inr (Some r)"
    using lookup_prefixes [OF sample_ok(1) z, of "ascii ''AndroidManifest.xml''"]
    by (auto simp: sample_package_def sample_members_def ascii_def)
  show ?thesis
    using f by (simp add: load_package_def zip_check_def syscall_def package_os_def push0_def)
qed

lemma package_sent_whole_witness:
  "\<exists>s' s1. load_package (package_os sample_package) (ascii ''a'') (push0 []) = Inr (Inr sample_package, s1)
     \<and> sync_send 1 (package_os sample_package) (ascii ''a'') (ascii ''/b'') 7 0x81a4 True (push0 []) = read_status (ascii ''a'') (ascii ''/b'') s'
     \<and> cput s' = cput s1 @ push_msgs (ascii ''/b'') 0x81a4 (chunks sample_package) 7"
proof -
  obtain s1 where s1: "load_package (package_os sample_package) (ascii ''a'') (push0 []) = Inr (Inr sample_package, s1)" "space s1 = 1000"
    using sample_package_loads by blast
  have l: "length sample_package = 165"
    by (simp add: sample_package_def archive_def sample_body_def sample_members_def directory_of_def length_cd_entry)
  then have "chunks sample_package = [sample_package]"
    by (subst chunks.simps, subst chunks.simps) (auto simp: SYNC_DATA_MAX_def)
  moreover have "mode_text 0x81a4 = ascii '',33188''" by (simp add: mode_text_def decimal.simps ascii_def)
  ultimately have "length (push_msgs (ascii ''/b'') 0x81a4 (chunks sample_package) 7) \<le> space s1"
    using s1(2) l by (simp add: push_msgs_def file_msgs_def chunk_msg_def)
  from package_sent_whole [OF s1(1) this] s1(1) show ?thesis by auto
qed

end
