(* ===== verification/WinLoop.thy ===== *)
theory WinLoop
  imports Fdevent FhTable
begin

text \<open>
  The event loop of the Windows build (\<open>adb/sysdeps_win32.cpp\<close>).  It offers the operations of
  \<open>fdevent.c\<close> over another back end: every descriptor that is listened to has a hook with functions of
  its class, and the loop waits for a set of handles.  The objects, their table and the pending ring are
  those of Fdevent (\<open>wfd\<close>; the sets for \<open>select\<close> in it are not used), the descriptors those of FhTable
  (\<open>ww\<close>).  What Windows answers within one call of \<open>fdevent_process\<close> is a \<open>penv\<close>.
\<close>

section \<open>State\<close>

text \<open>\<open>PairEvent p a rd\<close> is an event of the pair at \<open>p\<close>: of its buffer from \<open>a\<close> to \<open>b\<close> or of the other one,
  the one for reading or the one for writing.\<close>

datatype whandle = NoHandle | Handle int | PairEvent int bool bool

text \<open>The five functions of a hook are those of a class; none are set in a new hook.\<close>

record hook =
  hk_fh :: nat
  hk_h :: whandle
  wanted :: u16
  ready :: u16
  hk_class :: "fh_class option"

record wloop =
  hooks :: "hook list"
  htab :: "whandle list"
  wfd :: fdst
  ww :: win

datatype whalt = WFatal fd_fatal | Outside_table | Log_overrun | Crashed crash | Exits | Blocks

text \<open>\<open>lNetworkEvents\<close>, and whether \<open>iErrorCode\<close> is set for \<open>FD_READ\<close> and \<open>FD_WRITE\<close>.\<close>

type_synonym netev = "u32 \<times> bool \<times> bool"

text \<open>The answers, by slot: of \<open>WSAEnumNetworkEvents\<close> in the three places that call it, of
  \<open>WSAEventSelect\<close>, and of the waits to come (\<open>None\<close> is \<open>WAIT_FAILED\<close>), each with the answers to the
  checks after it.  \<open>pair_number\<close> are the numbers of the handles that the pairs have created.\<close>

record penv =
  at_prepare :: "nat \<Rightarrow> netev option"
  select_fails :: "nat \<Rightarrow> bool"
  waits :: "(nat option \<times> (nat \<Rightarrow> netev option)) list"
  at_peek :: "nat \<Rightarrow> netev option"
  pair_number :: "int \<Rightarrow> bool \<Rightarrow> bool \<Rightarrow> int"

definition of_crash :: "crash + 'a \<Rightarrow> whalt + 'a" where
  "of_crash r = (case r of Inl c \<Rightarrow> Inl (Crashed c) | Inr x \<Rightarrow> Inr x)"

definition upd_hook :: "nat \<Rightarrow> (hook \<Rightarrow> hook) \<Rightarrow> wloop \<Rightarrow> wloop" where
  "upd_hook i g s = s\<lparr>hooks := (hooks s)[i := g (hooks s ! i)]\<rparr>"

section \<open>Hooks\<close>

definition event_hook_alloc :: "nat \<Rightarrow> hook" where
  "event_hook_alloc f = \<lparr>hk_fh = f, hk_h = NoHandle, wanted = 0, ready = 0, hk_class = None\<rparr>"

text \<open>All events that the hook wants are marked, whichever are ready.\<close>

definition event_hook_signal :: "hook \<Rightarrow> wloop \<Rightarrow> whalt + wloop" where
  "event_hook_signal hk s =
     (let fd = fh_to_int (hk_fh hk) (ww s); i = fd - WIN32_FH_BASE in
      if i < 0 \<or> i \<ge> int (length (fd_table (wfd s))) then Inl Outside_table
      else let fde = fd_table (wfd s) ! nat i in
        if fde \<noteq> 0 \<and> fde_fd (fdes (wfd s) fde) = fd then
          let st = wfd s;
              st = (if has (state (fdes st fde)) FDE_PENDING then st
                    else fdevent_plist_enqueue fde (upd_fde fde (\<lambda>f. f\<lparr>state := state f OR FDE_PENDING\<rparr>) st));
              st = upd_fde fde (\<lambda>f. f\<lparr>events := events f OR wanted hk\<rparr>) st
          in Inr (s\<lparr>wfd := st\<rparr>)
        else Inr s)"

text \<open>The position of the hook of a slot, or of the end of the list.\<close>

definition event_looper_find :: "wloop \<Rightarrow> nat \<Rightarrow> nat" where
  "event_looper_find s f = length (takeWhile (\<lambda>hk. hk_fh hk \<noteq> f) (hooks s))"

section \<open>The functions of the classes\<close>

definition FD_READ :: u32 where "FD_READ = 1"
definition FD_WRITE :: u32 where "FD_WRITE = 2"
definition FD_OOB :: u32 where "FD_OOB = 4"
definition FD_ACCEPT :: u32 where "FD_ACCEPT = 8"
definition FD_CONNECT :: u32 where "FD_CONNECT = 16"
definition FD_CLOSE :: u32 where "FD_CLOSE = 32"

definition event_socket_verify :: "netev \<Rightarrow> hook \<Rightarrow> hook" where
  "event_socket_verify evts hk = (case evts of (ne, rd_err, wr_err) \<Rightarrow>
     let on = (\<lambda>c flag hk. if c \<and> has (wanted hk) flag then hk\<lparr>ready := ready hk OR flag\<rparr> else hk);
         rd = ne AND (FD_READ OR FD_ACCEPT OR FD_CLOSE) \<noteq> 0;
         wr = ne AND (FD_WRITE OR FD_CONNECT OR FD_CLOSE) \<noteq> 0
     in on (ne AND FD_OOB \<noteq> 0) FDE_ERROR
          (on (wr \<and> wr_err) FDE_ERROR (on wr FDE_WRITE (on (rd \<and> rd_err) FDE_ERROR (on rd FDE_READ hk)))))"

definition socket_wanted_to_flags :: "u16 \<Rightarrow> u32" where
  "socket_wanted_to_flags w = (if has w FDE_READ then FD_READ OR FD_ACCEPT OR FD_CLOSE else 0)
     OR (if has w FDE_WRITE then FD_WRITE OR FD_CONNECT OR FD_CLOSE else 0) OR (if has w FDE_ERROR then FD_OOB else 0)"

text \<open>\<open>_event_socket_start\<close> for the hook at \<open>i\<close>: the result and the state; \<open>exit(1)\<close> when the selection fails.\<close>

definition event_socket_start :: "(nat \<Rightarrow> bool) \<Rightarrow> nat \<Rightarrow> wloop \<Rightarrow> whalt + (bool \<times> wloop)" where
  "event_socket_start fails i s =
     (let hk = hooks s ! i; f = hk_fh hk; x = fhs (ww s) ! f; flags = uint (socket_wanted_to_flags (wanted hk));
          s1 = upd_hook i (\<lambda>hk. hk\<lparr>hk_h := (if event x = - 1 then NoHandle else Handle (event x))\<rparr>) s
      in if event x = - 1 then Inr (False, s1)
         else if flags \<noteq> mask x then
           if fails f then Inl Exits
           else Inr (True, s1\<lparr>ww := upd_fh f (\<lambda>x. x\<lparr>mask := flags\<rparr>) (ww s1)\<rparr>)
         else Inr (True, s1))"

text \<open>The two buffers of an end of a pair, the one it reads from first.\<close>

definition pair_ends :: "nat \<Rightarrow> win \<Rightarrow> crash + (int \<times> bool \<times> bip \<times> bip)" where
  "pair_ends f w = sbind (pair_of f w) (\<lambda>po. case po of
     None \<Rightarrow> Inl Null_FH
   | Some sp \<Rightarrow> Inr (if a_fd sp = Some f then (fu (fhs w ! f), True, b2a_bip sp, a2b_bip sp)
                     else (fu (fhs w ! f), False, a2b_bip sp, b2a_bip sp)))"

definition event_socketpair_prepare :: "hook \<Rightarrow> win \<Rightarrow> crash + hook" where
  "event_socketpair_prepare hk w = sbind (pair_ends (hk_fh hk) w) (\<lambda>(p, is_a, rbip, wbip).
     let hk = (if has (wanted hk) FDE_READ \<and> can_read rbip then hk\<lparr>ready := ready hk OR FDE_READ\<rparr> else hk);
         hk = (if has (wanted hk) FDE_WRITE \<and> can_write wbip then hk\<lparr>ready := ready hk OR FDE_WRITE\<rparr> else hk)
     in Inr hk)"

text \<open>A pair can wait for one direction only.\<close>

definition event_socketpair_start :: "nat \<Rightarrow> wloop \<Rightarrow> whalt + (bool \<times> wloop)" where
  "event_socketpair_start i s =
     (let hk = hooks s ! i in sbind (of_crash (pair_ends (hk_fh hk) (ww s))) (\<lambda>(p, is_a, rbip, wbip).
        if wanted hk = FDE_READ then Inr (True, upd_hook i (\<lambda>hk. hk\<lparr>hk_h := PairEvent p (\<not> is_a) True\<rparr>) s)
        else if wanted hk = FDE_WRITE then Inr (True, upd_hook i (\<lambda>hk. hk\<lparr>hk_h := PairEvent p is_a False\<rparr>) s)
        else Inr (False, s)))"

definition file_ready :: "hook \<Rightarrow> u16" where
  "file_ready hk = wanted hk AND (FDE_READ OR FDE_WRITE)"

text \<open>The functions \<open>prepare\<close>, \<open>start\<close>, \<open>stop\<close>, \<open>check\<close> and \<open>peek\<close> of a hook; a file has no start, stop and check,
  a pair has no stop and check.\<close>

definition hook_prepare :: "(nat \<Rightarrow> netev option) \<Rightarrow> hook \<Rightarrow> win \<Rightarrow> crash + hook" where
  "hook_prepare enum hk w = (case hk_class hk of
     None \<Rightarrow> Inr hk
   | Some File_class \<Rightarrow> Inr (if file_ready hk \<noteq> 0 then hk\<lparr>ready := ready hk OR file_ready hk\<rparr> else hk)
   | Some Socket_class \<Rightarrow> Inr (case enum (hk_fh hk) of None \<Rightarrow> hk | Some evts \<Rightarrow> event_socket_verify evts hk)
   | Some Pair_class \<Rightarrow> event_socketpair_prepare hk w)"

definition hook_start :: "(nat \<Rightarrow> bool) \<Rightarrow> nat \<Rightarrow> wloop \<Rightarrow> whalt + (bool \<times> wloop)" where
  "hook_start fails i s = (case hk_class (hooks s ! i) of
     Some Socket_class \<Rightarrow> event_socket_start fails i s
   | Some Pair_class \<Rightarrow> event_socketpair_start i s
   | _ \<Rightarrow> Inr (True, s))"

definition hook_stop :: "hook \<Rightarrow> hook" where
  "hook_stop hk = (if hk_class hk = Some Socket_class then hk\<lparr>hk_h := NoHandle\<rparr> else hk)"

definition hook_check :: "(nat \<Rightarrow> netev option) \<Rightarrow> hook \<Rightarrow> bool \<times> hook" where
  "hook_check enum hk = (if hk_class hk = Some Socket_class
     then (case enum (hk_fh hk) of
        None \<Rightarrow> (False, hk)
      | Some evts \<Rightarrow> let hk = event_socket_verify evts hk in (ready hk \<noteq> 0, hk))
     else (True, hk))"

definition hook_peek :: "(nat \<Rightarrow> netev option) \<Rightarrow> hook \<Rightarrow> win \<Rightarrow> crash + (bool \<times> hook)" where
  "hook_peek enum hk w = (case hk_class hk of
     None \<Rightarrow> Inr (False, hk)
   | Some File_class \<Rightarrow> Inr (file_ready hk \<noteq> 0, hk)
   | Some Socket_class \<Rightarrow>
       let hk = (case enum (hk_fh hk) of None \<Rightarrow> hk | Some evts \<Rightarrow> event_socket_verify evts hk) in Inr (ready hk \<noteq> 0, hk)
   | Some Pair_class \<Rightarrow> sbind (event_socketpair_prepare hk w) (\<lambda>hk. Inr (ready hk \<noteq> 0, hk)))"

text \<open>\<open>f->clazz->_fh_hook\<close>: the handle and the functions; a socket is started with what it wanted before, and
  the result of that is not looked at.\<close>

definition fh_hook :: "(nat \<Rightarrow> bool) \<Rightarrow> nat \<Rightarrow> nat \<Rightarrow> wloop \<Rightarrow> whalt + wloop" where
  "fh_hook fails f i s = (case clazz (fhs (ww s) ! f) of
     None \<Rightarrow> Inl (Crashed Null_FH)
   | Some File_class \<Rightarrow> Inr (upd_hook i (\<lambda>hk. hk\<lparr>hk_h := (if fu (fhs (ww s) ! f) = - 1 then NoHandle else Handle (fu (fhs (ww s) ! f))),
        hk_class := Some File_class\<rparr>) s)
   | Some Socket_class \<Rightarrow> sbind (event_socket_start fails i (upd_hook i (\<lambda>hk. hk\<lparr>hk_class := Some Socket_class\<rparr>) s)) (\<lambda>(_, s). Inr s)
   | Some Pair_class \<Rightarrow> Inr (upd_hook i (\<lambda>hk. hk\<lparr>hk_class := Some Pair_class\<rparr>) s))"

section \<open>Hooking\<close>

definition event_looper_hook :: "(nat \<Rightarrow> bool) \<Rightarrow> int \<Rightarrow> u16 \<Rightarrow> wloop \<Rightarrow> whalt + wloop" where
  "event_looper_hook fails fd evs s = (case fh_from_int fd (ww s) of
     None \<Rightarrow> Inr s
   | Some f \<Rightarrow>
       let i = event_looper_find s f;
           s = (if i = length (hooks s) then s\<lparr>hooks := hooks s @ [event_hook_alloc f]\<rparr> else s)
       in if wanted (hooks s ! i) AND evs \<noteq> evs then
            sbind (fh_hook fails f i s) (\<lambda>s. Inr (upd_hook i (\<lambda>hk. hk\<lparr>wanted := wanted hk OR evs\<rparr>) s))
          else Inr s)"

text \<open>Without a slot there is no hook to find.\<close>

definition event_looper_unhook :: "int \<Rightarrow> u16 \<Rightarrow> wloop \<Rightarrow> wloop" where
  "event_looper_unhook fd evs s = (case fh_from_int fd (ww s) of
     None \<Rightarrow> s
   | Some f \<Rightarrow>
       let i = event_looper_find s f in
       if i = length (hooks s) then s
       else let evs2 = evs AND wanted (hooks s ! i) in
         if evs2 = 0 then s
         else let w = wanted (hooks s ! i) AND NOT evs2 in
           if w = 0 then s\<lparr>hooks := take i (hooks s) @ drop (Suc i) (hooks s)\<rparr>
           else upd_hook i (\<lambda>hk. hk\<lparr>wanted := w\<rparr>) s)"

definition w_fdevent_init :: "wloop \<Rightarrow> wloop" where
  "w_fdevent_init s = s\<lparr>htab := [], hooks := []\<rparr>"

definition w_fdevent_connect :: "(nat \<Rightarrow> bool) \<Rightarrow> nat \<Rightarrow> wloop \<Rightarrow> whalt + wloop" where
  "w_fdevent_connect fails fde s =
     (let f = fdes (wfd s) fde; evs = state f AND FDE_EVENTMASK in
      if evs \<noteq> 0 then event_looper_hook fails (fde_fd f) evs s else Inr s)"

definition w_fdevent_disconnect :: "nat \<Rightarrow> wloop \<Rightarrow> wloop" where
  "w_fdevent_disconnect fde s =
     (let f = fdes (wfd s) fde; evs = state f AND FDE_EVENTMASK in
      if evs \<noteq> 0 then event_looper_unhook (fde_fd f) evs s else s)"

definition w_fdevent_update :: "(nat \<Rightarrow> bool) \<Rightarrow> nat \<Rightarrow> u16 \<Rightarrow> wloop \<Rightarrow> whalt + wloop" where
  "w_fdevent_update fails fde evs s =
     (let f = fdes (wfd s) fde; evs0 = state f AND FDE_EVENTMASK;
          removes = evs0 AND NOT evs; adds = evs AND NOT evs0;
          s = (if removes \<noteq> 0 then event_looper_unhook (fde_fd f) removes s else s)
      in if adds \<noteq> 0 then event_looper_hook fails (fde_fd f) adds s else Inr s)"

section \<open>Registration\<close>

definition on_fd :: "(fdst \<Rightarrow> fdst) \<Rightarrow> wloop \<Rightarrow> wloop" where
  "on_fd g s = s\<lparr>wfd := g (wfd s)\<rparr>"

definition w_fdevent_register :: "nat \<Rightarrow> (nat \<Rightarrow> nat) option \<Rightarrow> nat \<Rightarrow> wloop \<Rightarrow> whalt + wloop" where
  "w_fdevent_register psz mem fde s =
     (let n = fde_fd (fdes (wfd s) fde); fd = n - WIN32_FH_BASE; tbl = fd_table (wfd s) in
      if fd < 0 then Inl (WFatal (BogusNegativeFd n))
      else sbind
        (if int (length tbl) \<le> fd then
           (if 32000 < n then Inl (WFatal (BogusHugeFd n))
            else
              let s1 = (if tbl = [] then w_fdevent_init s else s);
                  start = (if tbl = [] then 256 else length tbl);
                  newmax = grow_max start (nat fd)
              in case mem of
                   None \<Rightarrow> Inl (WFatal NoMemory)
                 | Some junk \<Rightarrow> Inr (on_fd (\<lambda>st. st\<lparr>fd_table := grow_table psz junk tbl newmax\<rparr>) s1))
         else Inr s)
        (\<lambda>s2. Inr (on_fd (\<lambda>st. st\<lparr>fd_table := (fd_table st)[nat fd := fde]\<rparr>) s2)))"

definition w_fdevent_unregister :: "nat \<Rightarrow> wloop \<Rightarrow> whalt + wloop" where
  "w_fdevent_unregister fde s =
     (let n = fde_fd (fdes (wfd s) fde); fd = n - WIN32_FH_BASE; tbl = fd_table (wfd s) in
      if fd < 0 \<or> int (length tbl) \<le> fd then Inl (WFatal (FdOutOfRange n))
      else if tbl ! nat fd \<noteq> fde then Inl (WFatal (TableOutOfSync n))
      else
        let s1 = on_fd (\<lambda>st. st\<lparr>fd_table := (fd_table st)[nat fd := 0]\<rparr>) s in
        if has (state (fdes (wfd s) fde)) FDE_DONT_CLOSE then Inr s1
        else sbind (of_crash (FhTable.adb_close n (ww s1))) (\<lambda>(_, w). Inr (s1\<lparr>ww := w\<rparr>)))"

definition w_fdevent_install ::
    "nat \<Rightarrow> (nat \<Rightarrow> nat) option \<Rightarrow> (nat \<Rightarrow> bool) \<Rightarrow> nat \<Rightarrow> int \<Rightarrow> fd_func \<Rightarrow> nat \<Rightarrow> wloop \<Rightarrow> whalt + wloop" where
  "w_fdevent_install psz mem fails fde fd fn a s =
     (let s1 = on_fd (\<lambda>st. st\<lparr>fdes := (fdes st)(fde := \<lparr>fde_fd = fd, force_eof = False, state = FDE_ACTIVE,
                   events = 0, func = fn, fde_arg = a\<rparr>),
                 plist := (plist st)\<lparr>nxt := (nxt (plist st))(fde := 0), prv := (prv (plist st))(fde := 0)\<rparr>\<rparr>) s
      in sbind (w_fdevent_register psz mem fde s1) (\<lambda>s2. sbind (w_fdevent_connect fails fde s2)
           (\<lambda>s3. Inr (on_fd (upd_fde fde (\<lambda>f. f\<lparr>state := state f OR FDE_ACTIVE\<rparr>)) s3))))"

definition w_fdevent_create ::
    "nat \<Rightarrow> (nat \<Rightarrow> nat) option \<Rightarrow> (nat \<Rightarrow> bool) \<Rightarrow> nat option \<Rightarrow> int \<Rightarrow> fd_func \<Rightarrow> nat \<Rightarrow> wloop \<Rightarrow> whalt + (nat \<times> wloop)" where
  "w_fdevent_create psz mem fails new fd fn a s = (case new of
     None \<Rightarrow> Inr (0, s)
   | Some fde \<Rightarrow> sbind (w_fdevent_install psz mem fails fde fd fn a s)
       (\<lambda>s1. Inr (fde, on_fd (upd_fde fde (\<lambda>f. f\<lparr>state := state f OR FDE_CREATED\<rparr>)) s1)))"

definition w_fdevent_remove :: "nat \<Rightarrow> wloop \<Rightarrow> whalt + wloop" where
  "w_fdevent_remove fde s =
     (let s1 = (if has (state (fdes (wfd s) fde)) FDE_PENDING then on_fd (fdevent_plist_remove fde) s else s)
      in sbind (if has (state (fdes (wfd s) fde)) FDE_ACTIVE
                then w_fdevent_unregister fde (w_fdevent_disconnect fde s1) else Inr s1)
           (\<lambda>s2. Inr (on_fd (upd_fde fde (\<lambda>f. f\<lparr>state := 0, events := 0\<rparr>)) s2)))"

definition w_fdevent_destroy :: "nat \<Rightarrow> wloop \<Rightarrow> whalt + wloop" where
  "w_fdevent_destroy fde s =
     (if fde = 0 then Inr s
      else if \<not> has (state (fdes (wfd s) fde)) FDE_CREATED then Inl (WFatal (NotCreated fde))
      else w_fdevent_remove fde s)"

definition w_fdevent_set :: "(nat \<Rightarrow> bool) \<Rightarrow> nat \<Rightarrow> u32 \<Rightarrow> wloop \<Rightarrow> whalt + wloop" where
  "w_fdevent_set fails fde evs s =
     (let ev = (ucast evs :: u16) AND FDE_EVENTMASK in
      if state (fdes (wfd s) fde) AND FDE_EVENTMASK = ev then Inr s
      else sbind (if has (state (fdes (wfd s) fde)) FDE_ACTIVE then w_fdevent_update fails fde ev s else Inr s) (\<lambda>s1.
        let s2 = on_fd (upd_fde fde (\<lambda>f. f\<lparr>state := (state f AND FDE_STATEMASK) OR ev\<rparr>)) s1
        in if has (state (fdes (wfd s2) fde)) FDE_PENDING then
             let s3 = on_fd (upd_fde fde (\<lambda>f. f\<lparr>events := events f AND NOT ev\<rparr>)) s2
             in if events (fdes (wfd s3) fde) = 0
                then Inr (on_fd (\<lambda>st. upd_fde fde (\<lambda>f. f\<lparr>state := state f AND NOT FDE_PENDING\<rparr>) (fdevent_plist_remove fde st)) s3)
                else Inr s3
           else Inr s2))"

definition w_fdevent_add :: "(nat \<Rightarrow> bool) \<Rightarrow> nat \<Rightarrow> u32 \<Rightarrow> wloop \<Rightarrow> whalt + wloop" where
  "w_fdevent_add fails fde evs s =
     w_fdevent_set fails fde (ucast ((state (fdes (wfd s) fde) AND FDE_EVENTMASK) OR (ucast evs AND FDE_EVENTMASK))) s"

definition w_fdevent_del :: "(nat \<Rightarrow> bool) \<Rightarrow> nat \<Rightarrow> u32 \<Rightarrow> wloop \<Rightarrow> whalt + wloop" where
  "w_fdevent_del fails fde evs s =
     w_fdevent_set fails fde (ucast ((state (fdes (wfd s) fde) AND FDE_EVENTMASK) AND NOT (ucast evs AND FDE_EVENTMASK))) s"

section \<open>Waiting for more handles than Windows takes\<close>

text \<open>
  The handles are divided among threads that wait for 63 each and for a common event.  A chunk is its
  first index and its size.  \<open>finish\<close> lists the threads that come back, in the order in which they
  exchange the index, each with the result of its wait; the first index that is stored stays.
\<close>

definition WAIT_ALL_CHUNK_SIZE :: nat where "WAIT_ALL_CHUNK_SIZE = 63"
definition MAXIMUM_WAIT_OBJECTS :: nat where "MAXIMUM_WAIT_OBJECTS = 64"

definition wait_chunks :: "nat \<Rightarrow> (nat \<times> nat) list" where
  "wait_chunks n = map (\<lambda>c. (WAIT_ALL_CHUNK_SIZE * c, WAIT_ALL_CHUNK_SIZE)) [0..<n div WAIT_ALL_CHUNK_SIZE]
     @ (if n mod WAIT_ALL_CHUNK_SIZE \<noteq> 0
        then [(WAIT_ALL_CHUNK_SIZE * (n div WAIT_ALL_CHUNK_SIZE), n mod WAIT_ALL_CHUNK_SIZE)] else [])"

definition in_waiter_thread :: "nat \<times> nat \<Rightarrow> int \<Rightarrow> int \<Rightarrow> int" where
  "in_waiter_thread chunk res sig = (case chunk of (first, n) \<Rightarrow>
     if 0 < res \<and> res < int n + 1 \<and> sig = - 1 then res - 1 + int first else sig)"

definition wait_for_all :: "nat \<Rightarrow> (nat \<times> int) list \<Rightarrow> nat option" where
  "wait_for_all n finish =
     (let sig = foldl (\<lambda>sig (c, res). in_waiter_thread (wait_chunks n ! c) res sig) (- 1) finish
      in if sig \<ge> 0 then Some (nat sig) else None)"

section \<open>The loop\<close>

text \<open>\<open>n\<close> hooks from the position \<open>i\<close> on.\<close>

fun prepare_hooks :: "(nat \<Rightarrow> netev option) \<Rightarrow> nat \<Rightarrow> nat \<Rightarrow> bool \<Rightarrow> wloop \<Rightarrow> whalt + (bool \<times> wloop)" where
  "prepare_hooks enum i 0 gotone s = Inr (gotone, s)"
| "prepare_hooks enum i (Suc n) gotone s =
     sbind (of_crash (hook_prepare enum ((hooks s ! i)\<lparr>ready := 0\<rparr>) (ww s))) (\<lambda>hk.
       let s = upd_hook i (\<lambda>_. hk) s in
       if ready hk \<noteq> 0 then sbind (event_hook_signal hk s) (prepare_hooks enum (Suc i) n True)
       else prepare_hooks enum (Suc i) n gotone s)"

text \<open>\<open>False\<close> when a hook cannot be started.  The table has room for 128 handles.\<close>

fun start_hooks :: "(nat \<Rightarrow> bool) \<Rightarrow> nat \<Rightarrow> nat \<Rightarrow> wloop \<Rightarrow> whalt + (bool \<times> wloop)" where
  "start_hooks fails i 0 s = Inr (True, s)"
| "start_hooks fails i (Suc n) s = sbind (hook_start fails i s) (\<lambda>(ok, s).
     if \<not> ok then Inr (False, s)
     else let h = hk_h (hooks s ! i) in
       if h = NoHandle \<or> h \<in> set (htab s) then start_hooks fails (Suc i) n s
       else if length (htab s) \<ge> WIN32_MAX_FHS then Inl Outside_table
       else start_hooks fails (Suc i) n (s\<lparr>htab := htab s @ [h]\<rparr>))"

text \<open>The first hook with the handle whose check succeeds is signalled.\<close>

fun find_signalled :: "(nat \<Rightarrow> netev option) \<Rightarrow> whandle \<Rightarrow> nat \<Rightarrow> nat \<Rightarrow> wloop \<Rightarrow> whalt + (bool \<times> wloop)" where
  "find_signalled enum h i 0 s = Inr (False, s)"
| "find_signalled enum h i (Suc n) s =
     (if hk_h (hooks s ! i) = h then
        (case hook_check enum (hooks s ! i) of (ok, hk) \<Rightarrow>
           let s = upd_hook i (\<lambda>_. hk) s in
           if ok then sbind (event_hook_signal hk s) (\<lambda>s. Inr (True, s)) else find_signalled enum h (Suc i) n s)
      else find_signalled enum h (Suc i) n s)"

text \<open>Before and after a wait for at most 64 handles their numbers and the result are written one behind the other
  into an array of 260 wide characters.\<close>

definition handle_number :: "penv \<Rightarrow> whandle \<Rightarrow> int" where
  "handle_number pe h = (case h of NoHandle \<Rightarrow> - 1 | Handle n \<Rightarrow> n | PairEvent p a rd \<Rightarrow> pair_number pe p a rd)"

definition wait_log :: "int list \<Rightarrow> byte list" where
  "wait_log hs = ascii ''wait objects count '' @ fmt_d (int (length hs)) @ ascii ''.''
     @ concat (map (\<lambda>(i, h). ascii ''htab'' @ fmt_d (int i) @ ascii '' '' @ fmt_d h) (enumerate 0 hs))"

definition wait_result_log :: "nat option \<Rightarrow> byte list" where
  "wait_result_log ret = ascii '' ret '' @ fmt_d (case ret of None \<Rightarrow> - 1 | Some i \<Rightarrow> int i) @ ascii '' --end''"

text \<open>Each way to wait once; \<open>num\<close> are the numbers of the handles.  With at most 64 handles the result of the wait
  is the index of the handle that is reset: a failed wait indexes the table with -1.\<close>

definition wait_once :: "(whandle \<Rightarrow> int) \<Rightarrow> nat option \<Rightarrow> wloop \<Rightarrow> whalt + nat option" where
  "wait_once num ret s =
     (if length (htab s) > MAXIMUM_WAIT_OBJECTS then Inr ret
      else if length (wait_log (map num (htab s)) @ wait_result_log ret) \<ge> 260 then Inl Log_overrun
      else case ret of None \<Rightarrow> Inl Outside_table
         | Some i \<Rightarrow> if i \<ge> WIN32_MAX_FHS then Inl Outside_table else Inr ret)"

fun wait_loop :: "(whandle \<Rightarrow> int) \<Rightarrow> (nat option \<times> (nat \<Rightarrow> netev option)) list \<Rightarrow> wloop \<Rightarrow> whalt + wloop" where
  "wait_loop num [] s =
     (if length (htab s) \<le> MAXIMUM_WAIT_OBJECTS \<and> length (wait_log (map num (htab s))) \<ge> 260 then Inl Log_overrun
      else Inl Blocks)"
| "wait_loop num ((ret, enum) # ws) s = sbind (wait_once num ret s) (\<lambda>ret. case ret of
     None \<Rightarrow> wait_loop num ws s
   | Some i \<Rightarrow>
       if i < length (htab s) then
         sbind (find_signalled enum (htab s ! i) 0 (length (hooks s)) s) (\<lambda>(gotone, s).
           if gotone then Inr s else wait_loop num ws s)
       else wait_loop num ws s)"

fun peek_hooks :: "(nat \<Rightarrow> netev option) \<Rightarrow> nat \<Rightarrow> nat \<Rightarrow> wloop \<Rightarrow> whalt + wloop" where
  "peek_hooks enum i 0 s = Inr s"
| "peek_hooks enum i (Suc n) s = sbind (of_crash (hook_peek enum (hooks s ! i) (ww s))) (\<lambda>(ok, hk).
     let s = upd_hook i (\<lambda>_. hk) s in
     if ok then sbind (event_hook_signal hk s) (peek_hooks enum (Suc i) n) else peek_hooks enum (Suc i) n s)"

text \<open>What happens when nothing is ready yet: \<open>False\<close> is the early return of \<open>fdevent_process\<close>.\<close>

definition wait_for_event :: "penv \<Rightarrow> wloop \<Rightarrow> whalt + (bool \<times> wloop)" where
  "wait_for_event pe s =
     sbind (start_hooks (select_fails pe) 0 (length (hooks s)) (s\<lparr>htab := []\<rparr>)) (\<lambda>(ok, s).
       if \<not> ok then Inr (False, s)
       else if htab s = [] then Inr (False, s)
       else sbind (wait_loop (handle_number pe) (waits pe) s) (\<lambda>s. Inr (True, s\<lparr>hooks := map hook_stop (hooks s)\<rparr>)))"

definition w_fdevent_process :: "penv \<Rightarrow> wloop \<Rightarrow> whalt + wloop" where
  "w_fdevent_process pe s =
     sbind (prepare_hooks (at_prepare pe) 0 (length (hooks s)) False s) (\<lambda>(gotone, s).
       sbind (if gotone then Inr (True, s) else wait_for_event pe s) (\<lambda>(go, s).
         if \<not> go then Inr s else peek_hooks (at_peek pe) 0 (length (hooks s)) s))"

text \<open>One round of \<open>fdevent_loop\<close>: the callbacks are \<open>run\<close>; \<open>n\<close> bounds their number.\<close>

fun w_drain :: "nat \<Rightarrow> (fd_call \<Rightarrow> wloop \<Rightarrow> whalt + wloop) \<Rightarrow> wloop \<Rightarrow> (whalt + (fd_call list \<times> wloop)) option" where
  "w_drain 0 run s = None"
| "w_drain (Suc n) run s =
     (let (fde, st) = fdevent_plist_dequeue (wfd s) in
      if fde = 0 then Some (Inr ([], s\<lparr>wfd := st\<rparr>))
      else let f = fdes st fde; c = (func f, fde_fd f, events f, fde_arg f);
               st = upd_fde fde (\<lambda>f. f\<lparr>events := 0, state := state f AND NOT FDE_PENDING\<rparr>) st
        in case run c (s\<lparr>wfd := st\<rparr>) of
             Inl e \<Rightarrow> Some (Inl e)
           | Inr s \<Rightarrow> map_option (map_sum id (\<lambda>(cs, s). (c # cs, s))) (w_drain n run s))"

definition w_fdevent_round ::
    "nat \<Rightarrow> penv \<Rightarrow> (fd_call \<Rightarrow> wloop \<Rightarrow> whalt + wloop) \<Rightarrow> wloop \<Rightarrow> (whalt + (fd_call list \<times> wloop)) option" where
  "w_fdevent_round n pe run s = (case w_fdevent_process pe s of Inl e \<Rightarrow> Some (Inl e) | Inr s \<Rightarrow> w_drain n run s)"

end
