(* ===== verification/WinLoopProps.thy ===== *)
theory WinLoopProps
  imports WinLoop
begin

text \<open>
  Properties of the event loop of the Windows build: the events of an object are changed as in
  \<open>fdevent.c\<close> and the hooks follow them; what is ready is marked without waiting; the threads that wait
  for many handles report a handle of their own; and a pair that waits for both directions keeps the loop
  from waiting at all.
\<close>

section \<open>Waiting in chunks\<close>

lemma wait_chunks_bound: "(first, n) \<in> set (wait_chunks m) \<Longrightarrow> first + n \<le> m \<and> n \<le> 63"
proof -
  assume a: "(first, n) \<in> set (wait_chunks m)"
  then consider c where "c < m div 63" "first = 63 * c" "n = 63" | "first = 63 * (m div 63)" "n = m mod 63"
    by (auto simp: wait_chunks_def WAIT_ALL_CHUNK_SIZE_def split: if_splits)
  then show ?thesis
  proof cases
    case 1
    then have "63 * c + 63 \<le> 63 * (m div 63)" by simp
    also have "\<dots> \<le> m" by simp
    finally show ?thesis using 1 by simp
  next
    case 2
    then show ?thesis by simp
  qed
qed

lemma wait_chunks_cover: "j < m \<Longrightarrow> \<exists>(first, n)\<in>set (wait_chunks m). first \<le> j \<and> j < first + n"
proof -
  assume j: "j < m"
  have jd: "63 * (j div 63) \<le> j" "j < 63 * (j div 63) + 63" by (simp_all add: mult.commute)
  show ?thesis
  proof (cases "j div 63 < m div 63")
    case True
    then have "(63 * (j div 63), 63) \<in> set (wait_chunks m)" by (auto simp: wait_chunks_def WAIT_ALL_CHUNK_SIZE_def)
    then show ?thesis using jd by (intro bexI) auto
  next
    case False
    moreover have "j div 63 \<le> m div 63" using j by (simp add: div_le_mono)
    ultimately have e: "j div 63 = m div 63" by simp
    have m: "m = 63 * (m div 63) + m mod 63" by simp
    then have "j < 63 * (m div 63) + m mod 63" using j by simp
    moreover have "m mod 63 \<noteq> 0" using jd(1) e j m by linarith
    ultimately have "(63 * (m div 63), m mod 63) \<in> set (wait_chunks m)" by (auto simp: wait_chunks_def WAIT_ALL_CHUNK_SIZE_def)
    then show ?thesis using jd(1) e \<open>j < 63 * (m div 63) + m mod 63\<close> by (intro bexI) auto
  qed
qed

text \<open>The handle that a thread reports.\<close>

definition reports :: "nat \<Rightarrow> nat \<times> int \<Rightarrow> nat option" where
  "reports m r = (case r of (c, res) \<Rightarrow> case wait_chunks m ! c of (first, n) \<Rightarrow>
     if 0 < res \<and> res \<le> int n then Some (nat (res - 1) + first) else None)"

fun first_report :: "nat \<Rightarrow> (nat \<times> int) list \<Rightarrow> nat option" where
  "first_report m [] = None"
| "first_report m (r # rs) = (case reports m r of Some i \<Rightarrow> Some i | None \<Rightarrow> first_report m rs)"

lemma waiter_reports:
  "in_waiter_thread (wait_chunks m ! c) res sig =
     (if sig = - 1 then (case reports m (c, res) of Some i \<Rightarrow> int i | None \<Rightarrow> - 1) else sig)"
  by (auto simp: in_waiter_thread_def reports_def split: prod.splits)

lemma wait_fold:
  "foldl (\<lambda>sig (c, res). in_waiter_thread (wait_chunks m ! c) res sig) sig rs
     = (if sig = - 1 then (case first_report m rs of Some i \<Rightarrow> int i | None \<Rightarrow> - 1) else sig)"
proof (induction rs arbitrary: sig)
  case (Cons r rs)
  obtain c res where r: "r = (c, res)" by (cases r)
  show ?case
  proof (cases "reports m (c, res)")
    case None
    then show ?thesis using Cons r by (simp add: waiter_reports)
  next
    case (Some i)
    then show ?thesis using Cons r by (simp add: waiter_reports)
  qed
qed simp

lemma wait_for_all_first: "wait_for_all m rs = first_report m rs"
  by (simp add: wait_for_all_def wait_fold split: option.split)

lemma first_report_Some: "first_report m rs = Some i \<Longrightarrow> \<exists>r\<in>set rs. reports m r = Some i"
  by (induction rs) (auto split: option.splits)

lemma first_report_None: "first_report m rs = None \<longleftrightarrow> (\<forall>r\<in>set rs. reports m r = None)"
  by (induction rs) (auto split: option.splits)

text \<open>Waiting for more handles than Windows takes at once: when threads \<open>finish\<close>, each of which waits for the
  handles of one chunk, the result is a failure exactly if none of them has seen a handle; otherwise it is
  the index, below the number of handles, that the first of them to store one has seen in its own chunk.
  Every handle is in a chunk, and with the common event a chunk never exceeds the 64 that Windows takes.\<close>

theorem wait_for_all_sound:
  assumes "\<forall>(c, res)\<in>set finish. c < length (wait_chunks m)"
  shows "(wait_for_all m finish = None \<longleftrightarrow> (\<forall>r\<in>set finish. reports m r = None))
    \<and> (\<forall>i. wait_for_all m finish = Some i \<longrightarrow> i < m \<and> (\<exists>(c, res)\<in>set finish. reports m (c, res) = Some i
         \<and> fst (wait_chunks m ! c) \<le> i \<and> i < fst (wait_chunks m ! c) + snd (wait_chunks m ! c)))
    \<and> (\<forall>j<m. \<exists>(first, n)\<in>set (wait_chunks m). first \<le> j \<and> j < first + n)
    \<and> (\<forall>(first, n)\<in>set (wait_chunks m). n + 1 \<le> MAXIMUM_WAIT_OBJECTS)"
proof (intro conjI allI impI)
  show "wait_for_all m finish = None \<longleftrightarrow> (\<forall>r\<in>set finish. reports m r = None)"
    by (simp add: wait_for_all_first first_report_None)
next
  fix i
  assume "wait_for_all m finish = Some i"
  then obtain c res where r: "(c, res) \<in> set finish" "reports m (c, res) = Some i"
    using first_report_Some wait_for_all_first by (metis surj_pair)
  obtain first n where ch: "wait_chunks m ! c = (first, n)" by force
  have res: "0 < res" "res \<le> int n" "i = nat (res - 1) + first" using r(2) ch by (auto simp: reports_def split: if_splits)
  then have in_chunk: "first \<le> i" "i < first + n" by auto
  have "(first, n) \<in> set (wait_chunks m)" using assms r(1) ch by (metis (no_types, lifting) case_prodD nth_mem)
  then have "first + n \<le> m" by (simp add: wait_chunks_bound)
  with in_chunk show "i < m" by simp
  show "\<exists>(c, res)\<in>set finish. reports m (c, res) = Some i
         \<and> fst (wait_chunks m ! c) \<le> i \<and> i < fst (wait_chunks m ! c) + snd (wait_chunks m ! c)"
    by (rule bexI [OF _ r(1)]) (use r(2) ch in_chunk in simp)
next
  fix j
  assume "j < m"
  then show "\<exists>(first, n)\<in>set (wait_chunks m). first \<le> j \<and> j < first + n" by (rule wait_chunks_cover)
next
  show "\<forall>(first, n)\<in>set (wait_chunks m). n + 1 \<le> MAXIMUM_WAIT_OBJECTS"
    using wait_chunks_bound by (auto simp: MAXIMUM_WAIT_OBJECTS_def)
qed

lemma wait_for_all_sound_witness:
  "wait_for_all 100 [(0, 0), (1, 5), (0, 3)] = Some 67 \<and> 67 < (100::nat)"
proof -
  have ch: "wait_chunks 100 = [(0, 63), (63, 37)]" by (simp add: wait_chunks_def WAIT_ALL_CHUNK_SIZE_def)
  have w: "wait_for_all 100 [(0, 0), (1, 5), (0, 3)] = Some 67"
    by (simp add: wait_for_all_def ch in_waiter_thread_def)
  then show ?thesis using wait_for_all_sound [of "[(0, 0), (1, 5), (0, 3)]" 100] ch by auto
qed

section \<open>What the hooks want\<close>

definition hook_view :: "wloop \<Rightarrow> (nat \<times> u16) list" where
  "hook_view s = map (\<lambda>hk. (hk_fh hk, wanted hk)) (hooks s)"

definition wanted_of :: "wloop \<Rightarrow> nat \<Rightarrow> u16" where
  "wanted_of s f = (case map_of (hook_view s) f of None \<Rightarrow> 0 | Some w \<Rightarrow> w)"

text \<open>One hook for a slot, none that wants nothing.\<close>

definition hooks_ok :: "wloop \<Rightarrow> bool" where
  "hooks_ok s \<longleftrightarrow> distinct (map fst (hook_view s)) \<and> 0 \<notin> snd ` set (hook_view s)"

definition same_fhs :: "win \<Rightarrow> win \<Rightarrow> bool" where
  "same_fhs w w' \<longleftrightarrow> fh_count w' = fh_count w \<and> pairs w' = pairs w
     \<and> (\<forall>f. used (fhs w' ! f) = used (fhs w ! f) \<and> clazz (fhs w' ! f) = clazz (fhs w ! f) \<and> fu (fhs w' ! f) = fu (fhs w ! f)
          \<and> event (fhs w' ! f) = event (fhs w ! f))"

lemma same_fhs_refl: "same_fhs w w"
  by (simp add: same_fhs_def)

lemma same_fhs_int: "same_fhs w w' \<Longrightarrow> fh_from_int fd w' = fh_from_int fd w"
  by (auto simp: same_fhs_def fh_from_int_def Let_def)

lemma same_fhs_mask: "same_fhs w (upd_fh f (\<lambda>x. x\<lparr>mask := m\<rparr>) w)"
proof -
  have "P ((fhs w)[f := (fhs w ! f)\<lparr>mask := m\<rparr>] ! g) = P (fhs w ! g)" if "P ((fhs w ! f)\<lparr>mask := m\<rparr>) = P (fhs w ! f)" for P :: "fh \<Rightarrow> 'a" and g
    using that by (cases "f = g"; cases "f < length (fhs w)") (auto simp: list_update_beyond)
  from this [of used] this [of clazz] this [of fu] this [of event] show ?thesis
    by (simp add: same_fhs_def upd_fh_def)
qed

lemma map_of_remove:
  assumes "distinct (map fst (xs @ (f, v) # ys))"
  shows "map_of (xs @ ys) g = (if g = f then None else map_of (xs @ (f, v) # ys) g)"
proof -
  have "f \<notin> fst ` set xs" "f \<notin> fst ` set ys" using assms by auto
  then have "map_of xs f = None" "map_of ys f = None" by (simp_all add: map_of_eq_None_iff)
  then show ?thesis by (auto simp: map_add_def split: option.split)
qed

lemma map_of_change:
  assumes "distinct (map fst (xs @ (f, v) # ys))"
  shows "map_of (xs @ (f, w) # ys) g = (if g = f then Some w else map_of (xs @ (f, v) # ys) g)"
proof -
  have "f \<notin> fst ` set ys" using assms by auto
  then have "map_of xs f = None" using assms by (auto simp: map_of_eq_None_iff)
  then show ?thesis by (auto simp: map_add_def split: option.split)
qed

text \<open>The hook that is found.\<close>

lemma find_hook:
  assumes "event_looper_find s f < length (hooks s)"
  shows "hk_fh (hooks s ! event_looper_find s f) = f"
  using assms nth_length_takeWhile [of "\<lambda>hk. hk_fh hk \<noteq> f" "hooks s"] by (simp add: event_looper_find_def)

lemma find_no_hook:
  assumes "event_looper_find s f = length (hooks s)"
  shows "f \<notin> fst ` set (hook_view s)"
proof -
  have "takeWhile (\<lambda>hk. hk_fh hk \<noteq> f) (hooks s) = hooks s"
    using assms by (metis append_eq_conv_conj event_looper_find_def take_all takeWhile_eq_take order_refl)
  then have "\<forall>hk\<in>set (hooks s). hk_fh hk \<noteq> f" by (metis set_takeWhileD)
  then show ?thesis by (auto simp: hook_view_def)
qed

lemma find_bound: "event_looper_find s f \<le> length (hooks s)"
  by (simp add: event_looper_find_def length_takeWhile_le)

lemma view_split:
  assumes "i < length (hooks s)"
  shows "hook_view s = hook_view (s\<lparr>hooks := take i (hooks s)\<rparr>) @ (hk_fh (hooks s ! i), wanted (hooks s ! i)) # hook_view (s\<lparr>hooks := drop (Suc i) (hooks s)\<rparr>)"
  using id_take_nth_drop [OF assms] by (simp add: hook_view_def flip: map_append list.map(2)) (metis (no_types, lifting) list.simps(9) map_append)

lemma wanted_of_find:
  assumes "hooks_ok s" and "event_looper_find s f < length (hooks s)"
  shows "wanted_of s f = wanted (hooks s ! event_looper_find s f)"
proof -
  have "(f, wanted (hooks s ! event_looper_find s f)) \<in> set (hook_view s)"
    using view_split [OF assms(2)] find_hook [OF assms(2)] by simp
  then show ?thesis using assms(1) by (simp add: wanted_of_def hooks_ok_def)
qed

lemma wanted_of_none: "event_looper_find s f = length (hooks s) \<Longrightarrow> wanted_of s f = 0"
  using find_no_hook [of s f] by (simp add: wanted_of_def map_of_eq_None_iff [THEN iffD2])

lemma hook_view_simps [simp]: "hook_view (on_fd g s) = hook_view s" "hook_view (s\<lparr>ww := w\<rparr>) = hook_view s"
  "hook_view (s\<lparr>wfd := st\<rparr>) = hook_view s"
  by (simp_all add: hook_view_def on_fd_def)

lemma upd_hook_sel [simp]: "wfd (upd_hook i g s) = wfd s" "ww (upd_hook i g s) = ww s" "htab (upd_hook i g s) = htab s"
  "length (hooks (upd_hook i g s)) = length (hooks s)"
  by (simp_all add: upd_hook_def)

lemma upd_hook_view_same:
  assumes "hk_fh (g (hooks s ! i)) = hk_fh (hooks s ! i)" and "wanted (g (hooks s ! i)) = wanted (hooks s ! i)"
  shows "hook_view (upd_hook i g s) = hook_view s"
proof (cases "i < length (hooks s)")
  case True
  have "map (\<lambda>hk. (hk_fh hk, wanted hk)) ((hooks s)[i := g (hooks s ! i)])
      = (map (\<lambda>hk. (hk_fh hk, wanted hk)) (hooks s))[i := (hk_fh (hooks s ! i), wanted (hooks s ! i))]"
    using assms by (simp add: map_update)
  also have "\<dots> = map (\<lambda>hk. (hk_fh hk, wanted hk)) (hooks s)" using True by (metis (no_types, lifting) list_update_id nth_map)
  finally show ?thesis by (simp add: hook_view_def upd_hook_def)
qed (simp add: upd_hook_def list_update_beyond)

text \<open>Setting what the found hook wants, dropping the found hook, adding one.\<close>

lemma hook_wants:
  fixes w :: u16
  assumes ok: "distinct (map fst (hook_view s))" and i: "event_looper_find s f < length (hooks s)"
    and s': "s' = upd_hook (event_looper_find s f) (\<lambda>hk. hk\<lparr>wanted := w\<rparr>) s"
  shows "map_of (hook_view s') g = (if g = f then Some w else map_of (hook_view s) g)"
    and "map fst (hook_view s') = map fst (hook_view s)" and "snd ` set (hook_view s') \<subseteq> insert w (snd ` set (hook_view s))"
proof -
  let ?i = "event_looper_find s f"
  let ?xs = "hook_view (s\<lparr>hooks := take ?i (hooks s)\<rparr>)" and ?ys = "hook_view (s\<lparr>hooks := drop (Suc ?i) (hooks s)\<rparr>)"
  have v: "hook_view s = ?xs @ (f, wanted (hooks s ! ?i)) # ?ys"
    using view_split [OF i] find_hook [OF i] by simp
  have v': "hook_view s' = ?xs @ (f, w) # ?ys"
    using i find_hook [OF i] by (simp add: s' upd_hook_def hook_view_def upd_conv_take_nth_drop)
  have d: "distinct (map fst (?xs @ (f, wanted (hooks s ! ?i)) # ?ys))" using ok v by simp
  show "map_of (hook_view s') g = (if g = f then Some w else map_of (hook_view s) g)"
    unfolding v' v by (rule map_of_change [OF d])
  show "map fst (hook_view s') = map fst (hook_view s)" unfolding v' v by simp
  show "snd ` set (hook_view s') \<subseteq> insert w (snd ` set (hook_view s))" unfolding v' v by auto
qed

lemma hook_dropped:
  assumes ok: "distinct (map fst (hook_view s))" and i: "event_looper_find s f < length (hooks s)"
  defines "s' \<equiv> s\<lparr>hooks := take (event_looper_find s f) (hooks s) @ drop (Suc (event_looper_find s f)) (hooks s)\<rparr>"
  shows "map_of (hook_view s') g = (if g = f then None else map_of (hook_view s) g)"
    and "distinct (map fst (hook_view s'))" and "set (hook_view s') \<subseteq> set (hook_view s)"
proof -
  let ?i = "event_looper_find s f"
  let ?xs = "hook_view (s\<lparr>hooks := take ?i (hooks s)\<rparr>)" and ?ys = "hook_view (s\<lparr>hooks := drop (Suc ?i) (hooks s)\<rparr>)"
  have v: "hook_view s = ?xs @ (f, wanted (hooks s ! ?i)) # ?ys"
    using view_split [OF i] find_hook [OF i] by simp
  have v': "hook_view s' = ?xs @ ?ys" by (simp add: s'_def hook_view_def)
  have d: "distinct (map fst (?xs @ (f, wanted (hooks s ! ?i)) # ?ys))" using ok v by simp
  show "map_of (hook_view s') g = (if g = f then None else map_of (hook_view s) g)"
    unfolding v' v by (rule map_of_remove [OF d])
  show "distinct (map fst (hook_view s'))" unfolding v' using d by auto
  show "set (hook_view s') \<subseteq> set (hook_view s)" unfolding v' v by auto
qed

lemma unhook_wants:
  fixes evs :: u16
  assumes ok: "hooks_ok s" and f: "fh_from_int fd (ww s) = Some f"
  defines "s' \<equiv> event_looper_unhook fd evs s"
  shows "wanted_of s' g = (if g = f then wanted_of s f AND NOT evs else wanted_of s g)" and "hooks_ok s'"
    and "wfd s' = wfd s" and "ww s' = ww s"
proof -
  let ?i = "event_looper_find s f"
  have d: "distinct (map fst (hook_view s))" "0 \<notin> snd ` set (hook_view s)" using ok by (simp_all add: hooks_ok_def)
  show "wfd s' = wfd s" "ww s' = ww s"
    by (simp_all add: s'_def event_looper_unhook_def Let_def split: option.split)
  have "(\<forall>g. wanted_of s' g = (if g = f then wanted_of s f AND NOT evs else wanted_of s g)) \<and> hooks_ok s'"
  proof (cases "?i = length (hooks s)")
    case True
    then have "s' = s" using f by (simp add: s'_def event_looper_unhook_def)
    then show ?thesis using wanted_of_none [OF True] ok by simp
  next
    case False
    then have i: "?i < length (hooks s)" using find_bound [of s f] by simp
    note w = wanted_of_find [OF ok i]
    let ?w = "wanted (hooks s ! ?i) AND NOT (evs AND wanted (hooks s ! ?i))"
    have eq: "?w = wanted_of s f AND NOT evs" unfolding w by (rule bit_word_eqI) (auto simp: bit_simps)
    consider "evs AND wanted (hooks s ! ?i) = 0" | "evs AND wanted (hooks s ! ?i) \<noteq> 0" "?w = 0"
      | "evs AND wanted (hooks s ! ?i) \<noteq> 0" "?w \<noteq> 0" by blast
    then show ?thesis
    proof cases
      case 1
      then have "s' = s" using f i by (simp add: s'_def event_looper_unhook_def Let_def)
      then show ?thesis using eq 1 w ok by simp
    next
      case 2
      then have s': "s' = s\<lparr>hooks := take ?i (hooks s) @ drop (Suc ?i) (hooks s)\<rparr>"
        using f i by (simp add: s'_def event_looper_unhook_def Let_def)
      show ?thesis
        using hook_dropped [OF d(1) i, folded s'] eq 2(2) d(2) by (auto simp: wanted_of_def hooks_ok_def)
    next
      case 3
      then have s': "s' = upd_hook ?i (\<lambda>hk. hk\<lparr>wanted := ?w\<rparr>) s"
        using f i by (simp add: s'_def event_looper_unhook_def Let_def)
      show ?thesis
        using hook_wants [OF d(1) i s'] eq 3(2) d by (auto simp: wanted_of_def hooks_ok_def)
    qed
  qed
  then show "wanted_of s' g = (if g = f then wanted_of s f AND NOT evs else wanted_of s g)" "hooks_ok s'" by simp_all
qed

lemma socket_start_frame:
  assumes "event_socket_start fails i s = Inr (b, s')"
  shows "hook_view s' = hook_view s" and "wfd s' = wfd s" and "same_fhs (ww s) (ww s')" and "length (hooks s') = length (hooks s)"
    and "htab s' = htab s"
  using assms
  by (auto simp: event_socket_start_def Let_def upd_hook_view_same same_fhs_refl same_fhs_mask split: if_splits)

lemma fh_hook_frame:
  assumes r: "fh_hook fails f i s = Inr s'"
  shows "hook_view s' = hook_view s" and "wfd s' = wfd s" and "same_fhs (ww s) (ww s')" and "length (hooks s') = length (hooks s)"
proof -
  have "hook_view s' = hook_view s \<and> wfd s' = wfd s \<and> same_fhs (ww s) (ww s') \<and> length (hooks s') = length (hooks s)"
  proof (cases "clazz (fhs (ww s) ! f) = Some Socket_class")
    case True
    then obtain b where "event_socket_start fails i (upd_hook i (\<lambda>hk. hk\<lparr>hk_class := Some Socket_class\<rparr>) s) = Inr (b, s')"
      using r by (auto simp: fh_hook_def sbind_Inr_iff)
    from socket_start_frame [OF this] show ?thesis by (simp add: upd_hook_view_same)
  next
    case False
    then show ?thesis using r by (auto simp: fh_hook_def upd_hook_view_same same_fhs_refl split: option.splits fh_class.splits)
  qed
  then show "hook_view s' = hook_view s" "wfd s' = wfd s" "same_fhs (ww s) (ww s')" "length (hooks s') = length (hooks s)" by simp_all
qed

lemma socket_start_returns: "\<not> fails (hk_fh (hooks s ! i)) \<Longrightarrow> \<exists>b s'. event_socket_start fails i s = Inr (b, s')"
  unfolding event_socket_start_def Let_def by auto

lemma fh_hook_returns:
  assumes "clazz (fhs (ww s) ! f) \<noteq> None" and "\<not> fails f" and "hk_fh (hooks s ! i) = f" and "i < length (hooks s)"
  shows "\<exists>s'. fh_hook fails f i s = Inr s'"
proof -
  have "hk_fh (hooks (upd_hook i (\<lambda>hk. hk\<lparr>hk_class := Some Socket_class\<rparr>) s) ! i) = f"
    using assms(3,4) by (simp add: upd_hook_def)
  then obtain b s1 where "event_socket_start fails i (upd_hook i (\<lambda>hk. hk\<lparr>hk_class := Some Socket_class\<rparr>) s) = Inr (b, s1)"
    using socket_start_returns assms(2) by metis
  then show ?thesis using assms(1) by (auto simp: fh_hook_def split: option.split fh_class.split)
qed

lemma find_view: "map hk_fh (hooks s') = map hk_fh (hooks s) \<Longrightarrow> event_looper_find s' f = event_looper_find s f"
proof -
  assume a: "map hk_fh (hooks s') = map hk_fh (hooks s)"
  have "event_looper_find s f = length (takeWhile (\<lambda>g. g \<noteq> f) (map hk_fh (hooks s)))" for s
    by (simp add: event_looper_find_def takeWhile_map comp_def)
  then show ?thesis using a by metis
qed

lemma view_fh: "map fst (hook_view s) = map hk_fh (hooks s)"
  by (simp add: hook_view_def)

lemma find_append:
  assumes "event_looper_find s f = length (hooks s)"
  shows "event_looper_find (s\<lparr>hooks := hooks s @ [event_hook_alloc f]\<rparr>) f = length (hooks s)"
  using assms find_no_hook [OF assms]
  by (auto simp: event_looper_find_def hook_view_def event_hook_alloc_def takeWhile_append image_iff)

lemma absorbs: "x AND e = e \<Longrightarrow> x OR e = (x :: u16)"
  by (rule bit_word_eqI) (metis bit_and_iff bit_or_iff)

lemma looper_hook_wants:
  fixes evs :: u16
  assumes ok: "hooks_ok s" and f: "fh_from_int fd (ww s) = Some f" and cl: "clazz (fhs (ww s) ! f) \<noteq> None" and nf: "\<not> fails f"
    and evs: "evs \<noteq> 0"
  obtains s' where "event_looper_hook fails fd evs s = Inr s'"
    and "\<And>g. wanted_of s' g = (if g = f then wanted_of s f OR evs else wanted_of s g)" and "hooks_ok s'"
    and "wfd s' = wfd s" and "same_fhs (ww s) (ww s')"
proof -
  define i where "i = event_looper_find s f"
  define s0 where "s0 = (if i = length (hooks s) then s\<lparr>hooks := hooks s @ [event_hook_alloc f]\<rparr> else s)"
  have fd0: "event_looper_find s0 f = i" using find_append [of s f] by (simp add: s0_def i_def)
  have i0: "i < length (hooks s0)" using find_bound [of s f] by (auto simp: s0_def i_def)
  have fh0: "hk_fh (hooks s0 ! i) = f" using find_hook [of s0 f] fd0 i0 by simp
  have d0: "distinct (map fst (hook_view s0))"
  proof (cases "i = length (hooks s)")
    case True
    then show ?thesis using ok find_no_hook [of s f] by (simp add: s0_def i_def hooks_ok_def hook_view_def event_hook_alloc_def image_image comp_def)
  qed (use ok in \<open>simp add: s0_def hooks_ok_def\<close>)
  have m0: "map_of (hook_view s0) g = (if g = f \<and> i = length (hooks s) then Some 0 else map_of (hook_view s) g)" for g
  proof (cases "i = length (hooks s)")
    case True
    then have "map_of (hook_view s) f = None" using find_no_hook [of s f] by (simp add: i_def map_of_eq_None_iff)
    then show ?thesis using True
      by (auto simp: s0_def hook_view_def event_hook_alloc_def map_add_def split: option.split)
  qed (simp add: s0_def)
  have w0: "wanted (hooks s0 ! i) = wanted_of s f"
  proof (cases "i = length (hooks s)")
    case True
    then show ?thesis using wanted_of_none [of s f] by (simp add: s0_def i_def event_hook_alloc_def)
  next
    case False
    then show ?thesis using wanted_of_find [OF ok, of f] find_bound [of s f] by (simp add: s0_def i_def)
  qed
  show thesis
  proof (cases "wanted_of s f AND evs = evs")
    case True
    then have "i \<noteq> length (hooks s)" using wanted_of_none [of s f] evs by (auto simp: i_def)
    then have "event_looper_hook fails fd evs s = Inr s" using f True w0 by (simp add: event_looper_hook_def Let_def i_def s0_def)
    moreover have "wanted_of s f OR evs = wanted_of s f" by (rule absorbs [OF True])
    ultimately show thesis using ok by (intro that [of s]) (simp_all add: same_fhs_refl)
  next
    case False
    have cl0: "clazz (fhs (ww s0) ! f) \<noteq> None" using cl by (simp add: s0_def)
    obtain s1 where s1: "fh_hook fails f i s0 = Inr s1"
      using fh_hook_returns [where fails = fails, OF cl0 nf fh0 i0] by blast
    note fr = fh_hook_frame [OF s1]
    define s' where "s' = upd_hook i (\<lambda>hk. hk\<lparr>wanted := wanted hk OR evs\<rparr>) s1"
    have fd1: "event_looper_find s1 f = i" using find_view [of s1 s0 f] fr(1) fd0 view_fh by metis
    have i1: "event_looper_find s1 f < length (hooks s1)" using fd1 i0 fr(4) by simp
    have w1: "wanted (hooks s1 ! i) = wanted_of s f"
    proof -
      have "snd (hook_view s1 ! i) = snd (hook_view s0 ! i)" using fr(1) by simp
      then show ?thesis using i0 i1 fd1 w0 by (simp add: hook_view_def)
    qed
    have d1: "distinct (map fst (hook_view s1))" using d0 fr(1) by simp
    have s'w: "s' = upd_hook (event_looper_find s1 f) (\<lambda>hk. hk\<lparr>wanted := wanted_of s f OR evs\<rparr>) s1"
      using w1 fd1 by (simp add: s'_def upd_hook_def)
    have "event_looper_hook fails fd evs s = Inr s'"
      using f False w0 s1 by (simp add: event_looper_hook_def Let_def i_def [symmetric] s0_def [symmetric] s'_def)
    moreover have "wanted_of s' g = (if g = f then wanted_of s f OR evs else wanted_of s g)" for g
      using hook_wants(1) [OF d1 i1 s'w, of g] fr(1) m0 by (simp add: wanted_of_def)
    moreover have "hooks_ok s'"
    proof -
      have nz: "wanted_of s f OR evs \<noteq> 0" using evs by (simp add: or_eq_0_iff)
      have d': "distinct (map fst (hook_view s'))" using hook_wants(2) [OF d1 i1 s'w] d1 by simp
      have "w \<noteq> 0" if "(g, w) \<in> set (hook_view s')" for g w
      proof (cases "g = f")
        case True
        then show ?thesis using that d' hook_wants(1) [OF d1 i1 s'w, of f] nz by (metis map_of_eq_Some_iff option.inject)
      next
        case False
        then have "map_of (hook_view s) g = Some w"
          using that d' hook_wants(1) [OF d1 i1 s'w, of g] fr(1) m0 [of g] by simp
        then show ?thesis using ok by (metis hooks_ok_def image_eqI map_of_SomeD snd_conv)
      qed
      then show ?thesis using d' by (auto simp: hooks_ok_def)
    qed
    moreover have "wfd s' = wfd s" "same_fhs (ww s) (ww s')" using fr(2,3) by (simp_all add: s'_def s0_def split: if_splits)
    ultimately show thesis by (rule that)
  qed
qed

section \<open>Changing what an object wants\<close>

lemma wanted_change: "((m AND NOT (m AND NOT ev)) OR (ev AND NOT m)) = (ev :: u16)"
  by (rule bit_word_eqI) (auto simp: bit_simps)

lemma update_wants:
  fixes ev :: u16
  assumes ok: "hooks_ok s" and f: "fh_from_int (fde_fd (fdes (wfd s) fde)) (ww s) = Some f"
    and cl: "clazz (fhs (ww s) ! f) \<noteq> None" and nf: "\<not> fails f"
    and w: "wanted_of s f = state (fdes (wfd s) fde) AND FDE_EVENTMASK"
  obtains s' where "w_fdevent_update fails fde ev s = Inr s'" and "\<And>g. wanted_of s' g = (if g = f then ev else wanted_of s g)"
    and "hooks_ok s'" and "wfd s' = wfd s" and "same_fhs (ww s) (ww s')"
proof -
  define m where "m = state (fdes (wfd s) fde) AND FDE_EVENTMASK"
  define fd where "fd = fde_fd (fdes (wfd s) fde)"
  define s1 where "s1 = (if m AND NOT ev \<noteq> 0 then event_looper_unhook fd (m AND NOT ev) s else s)"
  have fdf: "fh_from_int fd (ww s) = Some f" using f by (simp add: fd_def)
  note un = unhook_wants [OF ok fdf, of "m AND NOT ev"]
  have w1: "wanted_of s1 g = (if g = f then m AND NOT (m AND NOT ev) else wanted_of s g)" for g
  proof (cases "m AND NOT ev = 0")
    case True
    have "m AND NOT (m AND NOT ev) = m" by (subst True) simp
    then show ?thesis using True w by (simp add: s1_def m_def)
  next
    case False
    then show ?thesis using un(1) [of g] w by (simp only: s1_def m_def if_True if_False simp_thms)
  qed
  have s1: "hooks_ok s1" "wfd s1 = wfd s" "ww s1 = ww s" using un(2-4) ok by (simp_all add: s1_def)
  have up: "w_fdevent_update fails fde ev s = (if ev AND NOT m \<noteq> 0 then event_looper_hook fails fd (ev AND NOT m) s1 else Inr s1)"
    by (simp add: w_fdevent_update_def Let_def m_def fd_def s1_def)
  show thesis
  proof (cases "ev AND NOT m = 0")
    case True
    then have "m AND NOT (m AND NOT ev) = ev" using wanted_change [of m ev] by simp
    then show thesis using up True s1 w1 by (intro that [of s1]) (simp_all add: same_fhs_refl)
  next
    case False
    obtain s' where "event_looper_hook fails fd (ev AND NOT m) s1 = Inr s'"
      "\<And>g. wanted_of s' g = (if g = f then wanted_of s1 f OR (ev AND NOT m) else wanted_of s1 g)" "hooks_ok s'"
      "wfd s' = wfd s1" "same_fhs (ww s1) (ww s')"
      by (rule looper_hook_wants [where fails = fails and s = s1 and fd = fd and f = f and evs = "ev AND NOT m"])
        (use s1 fdf cl nf False in auto)
    then show thesis using up False s1 w1 wanted_change [of m ev] by (intro that [of s']) simp_all
  qed
qed

lemma merge_twice: "((x AND FDE_STATEMASK) OR e) AND FDE_STATEMASK OR e = (x AND FDE_STATEMASK) OR (e :: u16)"
  by (rule bit_word_eqI) (auto simp: bit_simps)

text \<open>What \<open>fdevent_set\<close> of \<open>fdevent.c\<close> does to the objects and to the ring.\<close>

definition same_objects :: "fdst \<Rightarrow> fdst \<Rightarrow> bool" where
  "same_objects st st' \<longleftrightarrow> fdes st' = fdes st \<and> plist st' = plist st \<and> fd_table st' = fd_table st"

lemma set_same_objects:
  assumes "wfd s1 = st"
    and "state (fdes st fde) AND FDE_EVENTMASK \<noteq> ev"
    and "r = (let s2 = on_fd (upd_fde fde (\<lambda>f. f\<lparr>state := (state f AND FDE_STATEMASK) OR ev\<rparr>)) s1
        in if has (state (fdes (wfd s2) fde)) FDE_PENDING then
             let s3 = on_fd (upd_fde fde (\<lambda>f. f\<lparr>events := events f AND NOT ev\<rparr>)) s2
             in if events (fdes (wfd s3) fde) = 0
                then on_fd (\<lambda>st. upd_fde fde (\<lambda>f. f\<lparr>state := state f AND NOT FDE_PENDING\<rparr>) (fdevent_plist_remove fde st)) s3
                else s3
           else s2)"
    and "ev = ucast evs AND FDE_EVENTMASK"
  shows "same_objects (fdevent_set fde evs st) (wfd r)" and "hook_view r = hook_view s1" and "ww r = ww s1"
proof -
  show "hook_view r = hook_view s1" unfolding assms(3) by (simp add: Let_def)
  show "ww r = ww s1" unfolding assms(3) by (simp add: Let_def on_fd_def)
  have u: "upd_fde fde g (upd_fde fde h st) = upd_fde fde (g \<circ> h) st" for g h st by (simp add: upd_fde_def)
  show "same_objects (fdevent_set fde evs st) (wfd r)"
    using assms(1,2,4) unfolding assms(3)
    by (simp add: Let_def on_fd_def fdevent_set_def fdevent_update_def same_objects_def merge_twice fun_eq_iff
        fdevent_plist_remove_def)
qed

text \<open>C13. The two event loops agree on the objects: when the slot of a registered object is open and has a hook
  that wants what the object wants, setting events changes the objects, the pending ring and the table
  exactly as \<open>fdevent_set\<close> of \<open>fdevent.c\<close> does; the hook of the slot then wants the new events, the other
  hooks want what they wanted, there is still at most one hook for a slot, and none that wants nothing.\<close>

theorem windows_set_agrees:
  assumes ok: "hooks_ok s" and f: "fh_from_int (fde_fd (fdes (wfd s) fde)) (ww s) = Some f"
    and cl: "clazz (fhs (ww s) ! f) \<noteq> None" and nf: "\<not> fails f" and active: "bit (state (fdes (wfd s) fde)) 8"
    and w: "wanted_of s f = state (fdes (wfd s) fde) AND FDE_EVENTMASK"
  shows "\<exists>s'. w_fdevent_set fails fde evs s = Inr s' \<and> same_objects (fdevent_set fde evs (wfd s)) (wfd s')
    \<and> (\<forall>g. wanted_of s' g = (if g = f then ucast evs AND FDE_EVENTMASK else wanted_of s g))
    \<and> hooks_ok s' \<and> same_fhs (ww s) (ww s')"
proof (cases "state (fdes (wfd s) fde) AND FDE_EVENTMASK = ucast evs AND FDE_EVENTMASK")
  case True
  then have "w_fdevent_set fails fde evs s = Inr s" "fdevent_set fde evs (wfd s) = wfd s"
    by (simp_all add: w_fdevent_set_def fdevent_set_def Let_def)
  then show ?thesis using True w ok by (simp add: same_objects_def same_fhs_refl)
next
  case False
  define ev :: u16 where "ev = ucast evs AND FDE_EVENTMASK"
  have ne: "state (fdes (wfd s) fde) AND FDE_EVENTMASK \<noteq> ev" using False by (simp add: ev_def)
  obtain s1 where s1: "w_fdevent_update fails fde ev s = Inr s1" "\<And>g. wanted_of s1 g = (if g = f then ev else wanted_of s g)"
    "hooks_ok s1" "wfd s1 = wfd s" "same_fhs (ww s) (ww s1)"
    by (rule update_wants [where fails = fails and s = s and fde = fde and f = f and ev = ev]) (use assms in auto)
  define r where "r = (let s2 = on_fd (upd_fde fde (\<lambda>f. f\<lparr>state := (state f AND FDE_STATEMASK) OR ev\<rparr>)) s1
        in if has (state (fdes (wfd s2) fde)) FDE_PENDING then
             let s3 = on_fd (upd_fde fde (\<lambda>f. f\<lparr>events := events f AND NOT ev\<rparr>)) s2
             in if events (fdes (wfd s3) fde) = 0
                then on_fd (\<lambda>st. upd_fde fde (\<lambda>f. f\<lparr>state := state f AND NOT FDE_PENDING\<rparr>) (fdevent_plist_remove fde st)) s3
                else s3
           else s2)"
  note so = set_same_objects [OF s1(4) ne r_def ev_def]
  have "w_fdevent_set fails fde evs s = Inr r"
    using ne active s1(1) unfolding w_fdevent_set_def r_def by (simp add: Let_def ev_def)
  moreover have "wanted_of r g = wanted_of s1 g" for g using so(2) by (simp add: wanted_of_def)
  moreover have "hooks_ok r" using so(2) s1(3) by (simp add: hooks_ok_def)
  ultimately show ?thesis using so s1 by (auto simp: ev_def)
qed

text \<open>A loop with one open socket in slot 0, its object at 2 listening for reading.\<close>

definition fh_none :: fh where
  "fh_none = \<lparr>clazz = None, used = False, eof = False, fu = 0, event = 0, mask = 0\<rparr>"

definition fh_socket :: fh where
  "fh_socket = \<lparr>clazz = Some Socket_class, used = True, eof = False, fu = 7, event = 9, mask = 0\<rparr>"

definition fdst_one :: fdst where
  "fdst_one = \<lparr>fdes = (\<lambda>_. \<lparr>fde_fd = 0, force_eof = False, state = 0, events = 0, func = local_socket_event_func, fde_arg = 0\<rparr>)
       (2 := \<lparr>fde_fd = 100, force_eof = False, state = FDE_ACTIVE OR FDE_READ, events = 0, func = local_socket_event_func, fde_arg = 5\<rparr>),
     fd_table = 2 # replicate 255 0, read_fds = {}, write_fds = {}, error_fds = {}, select_n = 0,
     plist = \<lparr>nxt = (\<lambda>_. 0)(1 := 1), prv = (\<lambda>_. 0)(1 := 1)\<rparr>, nonblock = {}, closed = [], exit_notify_fd = 0\<rparr>"

definition wloop_one :: wloop where
  "wloop_one = \<lparr>hooks = [\<lparr>hk_fh = 0, hk_h = NoHandle, wanted = FDE_READ, ready = 0, hk_class = Some Socket_class\<rparr>],
     htab = [], wfd = fdst_one, ww = \<lparr>fhs = fh_socket # replicate 127 fh_none, fh_count = 1, pairs = (\<lambda>_. None), freed = []\<rparr>\<rparr>"

lemma windows_set_agrees_witness:
  "\<exists>s'. w_fdevent_set (\<lambda>_. False) 2 3 wloop_one = Inr s' \<and> wanted_of s' 0 = 3"
proof -
  have "hooks_ok wloop_one" by (simp add: hooks_ok_def hook_view_def wloop_one_def FDE_READ_def)
  moreover have "fh_from_int (fde_fd (fdes (wfd wloop_one) 2)) (ww wloop_one) = Some 0"
    by (simp add: wloop_one_def fdst_one_def fh_from_int_def WIN32_FH_BASE_def fh_socket_def)
  moreover have "clazz (fhs (ww wloop_one) ! 0) \<noteq> None" by (simp add: wloop_one_def fh_socket_def)
  moreover have "bit (state (fdes (wfd wloop_one) 2)) 8" by (simp add: wloop_one_def fdst_one_def bit_or_iff)
  moreover have "wanted_of wloop_one 0 = state (fdes (wfd wloop_one) 2) AND FDE_EVENTMASK"
    by (simp add: wanted_of_def hook_view_def wloop_one_def fdst_one_def FDE_READ_def FDE_ACTIVE_def FDE_EVENTMASK_def)
  ultimately show ?thesis
    using windows_set_agrees [of wloop_one 2 0 "\<lambda>_. False" 3] by (auto simp: FDE_EVENTMASK_def)
qed

section \<open>Signalling\<close>

text \<open>Every hook belongs to an open slot, and to the object that the table has for it.\<close>

definition bound_hook :: "fdst \<Rightarrow> win \<Rightarrow> hook \<Rightarrow> bool" where
  "bound_hook st w hk \<longleftrightarrow> hk_fh hk < WIN32_MAX_FHS \<and> used (fhs w ! hk_fh hk) \<and> hk_fh hk < length (fd_table st)
     \<and> fd_table st ! hk_fh hk \<noteq> 0 \<and> fd_table st ! hk_fh hk \<noteq> list_pending
     \<and> fde_fd (fdes st (fd_table st ! hk_fh hk)) = int (hk_fh hk) + WIN32_FH_BASE"

abbreviation mark_hook :: "nat list \<Rightarrow> hook \<Rightarrow> fdst \<Rightarrow> fdst" where
  "mark_hook tbl hk st \<equiv> mark_pending (tbl ! hk_fh hk) (wanted hk) st"

lemma signal_bound:
  assumes "bound_hook (wfd s) (ww s) hk"
  shows "event_hook_signal hk s = Inr (s\<lparr>wfd := mark_hook (fd_table (wfd s)) hk (wfd s)\<rparr>)"
proof -
  let ?fde = "fd_table (wfd s) ! hk_fh hk"
  have fd: "fh_to_int (hk_fh hk) (ww s) = int (hk_fh hk) + WIN32_FH_BASE"
    using assms by (simp add: fh_to_int_def bound_hook_def)
  have swap: "upd_fde a f (fdevent_plist_enqueue a (upd_fde a g st)) = fdevent_plist_enqueue a (upd_fde a g (upd_fde a f st))"
    if "\<And>x. f (g x) = g (f x)" for a f g st
    using that by (simp add: upd_fde_def fdevent_plist_enqueue_def)
  show ?thesis
    using assms fd by (auto simp: event_hook_signal_def Let_def bound_hook_def mark_pending_def swap)
qed

lemma bound_mark [simp]: "bound_hook (mark_pending a ev st) w hk = bound_hook st w hk"
  by (simp add: bound_hook_def)

lemma bound_cong: "hk_fh hk' = hk_fh hk \<Longrightarrow> bound_hook st w hk' = bound_hook st w hk"
  by (simp add: bound_hook_def)

text \<open>What a socket adds to the ready events.\<close>

definition socket_bits :: "netev \<Rightarrow> u16 \<Rightarrow> u16" where
  "socket_bits ev w = ready (event_socket_verify ev ((event_hook_alloc 0)\<lparr>wanted := w\<rparr>))"

lemma verify_bits: "event_socket_verify ev hk = hk\<lparr>ready := ready hk OR socket_bits ev (wanted hk)\<rparr>"
proof -
  have on: "(if c \<and> has (wanted hk) flag then hk\<lparr>ready := ready hk OR flag\<rparr> else hk)
      = hk\<lparr>ready := ready hk OR (if c \<and> has (wanted hk) flag then flag else 0)\<rparr>" for c flag and hk :: hook
    by simp
  obtain ne a b where ev: "ev = (ne, a, b)" by (cases ev)
  show ?thesis
    unfolding ev socket_bits_def event_socket_verify_def event_hook_alloc_def Let_def on
    by (simp add: or.assoc split del: if_split)
qed

text \<open>The functions of a hook keep its slot and what it wants.\<close>

lemma verify_frame: "hk_fh (event_socket_verify ev hk) = hk_fh hk" "wanted (event_socket_verify ev hk) = wanted hk"
  by (simp_all add: verify_bits)

lemma pair_prepare_frame: "event_socketpair_prepare hk w = Inr hk' \<Longrightarrow> hk_fh hk' = hk_fh hk \<and> wanted hk' = wanted hk"
  by (auto simp: event_socketpair_prepare_def sbind_Inr_iff Let_def split: if_splits)

lemma prepare_frame: "hook_prepare enum hk w = Inr hk' \<Longrightarrow> hk_fh hk' = hk_fh hk \<and> wanted hk' = wanted hk"
  by (auto simp: hook_prepare_def verify_frame dest!: pair_prepare_frame split: option.splits fh_class.splits if_splits)

lemma prepare_class: "hook_prepare enum hk w = Inr hk' \<Longrightarrow> hk_class hk' = hk_class hk"
  by (auto simp: hook_prepare_def verify_bits event_socketpair_prepare_def sbind_Inr_iff Let_def
      split: option.splits fh_class.splits if_splits prod.splits)

lemma peek_frame: "hook_peek enum hk w = Inr (b, hk') \<Longrightarrow> hk_fh hk' = hk_fh hk \<and> wanted hk' = wanted hk"
  by (auto simp: hook_peek_def verify_frame sbind_Inr_iff Let_def dest!: pair_prepare_frame split: option.splits fh_class.splits if_splits)

lemma drop_upd: "i < length xs \<Longrightarrow> drop (Suc i) (xs[i := x]) = drop (Suc i) xs" "i < length xs \<Longrightarrow> take (Suc i) (xs[i := x]) = take i xs @ [x]"
  by (simp_all add: take_Suc_conv_app_nth)

lemma prepare_hooks_result:
  assumes "\<forall>hk\<in>set (drop i (hooks s)). hook_prepare enum (hk\<lparr>ready := 0\<rparr>) (ww s) = Inr (pr hk) \<and> bound_hook (wfd s) (ww s) hk"
    and "i + n = length (hooks s)"
  shows "\<exists>s'. prepare_hooks enum i n g s = Inr (g \<or> (\<exists>hk\<in>set (drop i (hooks s)). ready (pr hk) \<noteq> 0), s')
    \<and> hooks s' = take i (hooks s) @ map pr (drop i (hooks s)) \<and> ww s' = ww s
    \<and> wfd s' = fold (mark_hook (fd_table (wfd s))) (filter (\<lambda>hk. ready (pr hk) \<noteq> 0) (drop i (hooks s))) (wfd s)"
  using assms
proof (induction n arbitrary: i g s)
  case 0
  then show ?case by simp
next
  case (Suc n)
  then have i: "i < length (hooks s)" by simp
  define hk where "hk = hooks s ! i"
  have d: "drop i (hooks s) = hk # drop (Suc i) (hooks s)" using i by (simp add: hk_def Cons_nth_drop_Suc)
  have p: "hook_prepare enum (hk\<lparr>ready := 0\<rparr>) (ww s) = Inr (pr hk)" and b: "bound_hook (wfd s) (ww s) hk"
    using Suc.prems(1) d by simp_all
  have fr: "hk_fh (pr hk) = hk_fh hk" "wanted (pr hk) = wanted hk" using prepare_frame [OF p] by simp_all
  define s1 where "s1 = upd_hook i (\<lambda>_. pr hk) s"
  define s2 where "s2 = (if ready (pr hk) \<noteq> 0 then s1\<lparr>wfd := mark_hook (fd_table (wfd s)) hk (wfd s)\<rparr> else s1)"
  have s2: "hooks s2 = (hooks s)[i := pr hk]" "ww s2 = ww s" "fd_table (wfd s2) = fd_table (wfd s)"
    by (simp_all add: s2_def s1_def upd_hook_def)
  have sg: "event_hook_signal (pr hk) s1 = Inr (s1\<lparr>wfd := mark_hook (fd_table (wfd s)) hk (wfd s)\<rparr>)"
    using signal_bound [of s1 "pr hk"] b fr bound_cong [OF fr(1)] by (simp add: s1_def)
  have step: "prepare_hooks enum i (Suc n) g s = prepare_hooks enum (Suc i) n (g \<or> ready (pr hk) \<noteq> 0) s2"
    using p sg by (simp add: hk_def [symmetric] of_crash_def s1_def [symmetric] s2_def Let_def)
  have "\<forall>hk\<in>set (drop (Suc i) (hooks s2)). hook_prepare enum (hk\<lparr>ready := 0\<rparr>) (ww s2) = Inr (pr hk) \<and> bound_hook (wfd s2) (ww s2) hk"
    using Suc.prems(1) d i by (auto simp: s2 drop_upd) (simp add: s2_def s1_def)
  from Suc.IH [OF this, of "g \<or> ready (pr hk) \<noteq> 0"] Suc.prems(2) s2 obtain s' where
    s': "prepare_hooks enum (Suc i) n (g \<or> ready (pr hk) \<noteq> 0) s2 = Inr ((g \<or> ready (pr hk) \<noteq> 0) \<or> (\<exists>hk\<in>set (drop (Suc i) (hooks s2)). ready (pr hk) \<noteq> 0), s')"
      "hooks s' = take (Suc i) (hooks s2) @ map pr (drop (Suc i) (hooks s2))" "ww s' = ww s2"
      "wfd s' = fold (mark_hook (fd_table (wfd s2))) (filter (\<lambda>hk. ready (pr hk) \<noteq> 0) (drop (Suc i) (hooks s2))) (wfd s2)"
    by auto
  have w2: "wfd s2 = (if ready (pr hk) \<noteq> 0 then mark_hook (fd_table (wfd s)) hk (wfd s) else wfd s)"
    by (simp add: s2_def s1_def)
  show ?case
    by (rule exI [of _ s']) (use step s' s2 d i w2 in \<open>simp add: drop_upd\<close>)
qed

lemma peek_hooks_result:
  assumes "\<forall>hk\<in>set (drop i (hooks s)). hook_peek enum hk (ww s) = Inr (pk hk) \<and> bound_hook (wfd s) (ww s) hk"
    and "i + n = length (hooks s)"
  shows "\<exists>s'. peek_hooks enum i n s = Inr s'
    \<and> hooks s' = take i (hooks s) @ map (snd \<circ> pk) (drop i (hooks s)) \<and> ww s' = ww s
    \<and> wfd s' = fold (mark_hook (fd_table (wfd s))) (filter (\<lambda>hk. fst (pk hk)) (drop i (hooks s))) (wfd s)"
  using assms
proof (induction n arbitrary: i s)
  case 0
  then show ?case by simp
next
  case (Suc n)
  then have i: "i < length (hooks s)" by simp
  define hk where "hk = hooks s ! i"
  obtain b hk' where pk: "pk hk = (b, hk')" by force
  have d: "drop i (hooks s) = hk # drop (Suc i) (hooks s)" using i by (simp add: hk_def Cons_nth_drop_Suc)
  have p: "hook_peek enum hk (ww s) = Inr (b, hk')" and bd: "bound_hook (wfd s) (ww s) hk"
    using Suc.prems(1) d pk by simp_all
  have fr: "hk_fh hk' = hk_fh hk" "wanted hk' = wanted hk" using peek_frame [OF p] by simp_all
  define s1 where "s1 = upd_hook i (\<lambda>_. hk') s"
  define s2 where "s2 = (if b then s1\<lparr>wfd := mark_hook (fd_table (wfd s)) hk (wfd s)\<rparr> else s1)"
  have s2: "hooks s2 = (hooks s)[i := hk']" "ww s2 = ww s" "fd_table (wfd s2) = fd_table (wfd s)"
    by (simp_all add: s2_def s1_def upd_hook_def)
  have sg: "event_hook_signal hk' s1 = Inr (s1\<lparr>wfd := mark_hook (fd_table (wfd s)) hk (wfd s)\<rparr>)"
    using signal_bound [of s1 hk'] bd fr bound_cong [OF fr(1)] by (simp add: s1_def)
  have step: "peek_hooks enum i (Suc n) s = peek_hooks enum (Suc i) n s2"
    using p sg by (simp add: hk_def [symmetric] of_crash_def s1_def [symmetric] s2_def Let_def)
  have "\<forall>hk\<in>set (drop (Suc i) (hooks s2)). hook_peek enum hk (ww s2) = Inr (pk hk) \<and> bound_hook (wfd s2) (ww s2) hk"
    using Suc.prems(1) d i by (auto simp: s2 drop_upd) (simp add: s2_def s1_def)
  from Suc.IH [OF this] Suc.prems(2) s2 obtain s' where
    s': "peek_hooks enum (Suc i) n s2 = Inr s'"
      "hooks s' = take (Suc i) (hooks s2) @ map (snd \<circ> pk) (drop (Suc i) (hooks s2))" "ww s' = ww s2"
      "wfd s' = fold (mark_hook (fd_table (wfd s2))) (filter (\<lambda>hk. fst (pk hk)) (drop (Suc i) (hooks s2))) (wfd s2)"
    by auto
  have w2: "wfd s2 = (if b then mark_hook (fd_table (wfd s)) hk (wfd s) else wfd s)"
    by (simp add: s2_def s1_def)
  show ?case
    by (rule exI [of _ s']) (use step s' s2 d i w2 pk in \<open>simp add: drop_upd\<close>)
qed

text \<open>Marking the objects of some hooks.\<close>

lemma mark_fold_frame: "fd_table (fold (mark_hook tbl) hs st) = fd_table st"
  "fde_fd (fdes (fold (mark_hook tbl) hs st) a) = fde_fd (fdes st a)"
  by (induction hs arbitrary: st) simp_all

lemma bound_mark_fold [simp]: "bound_hook (fold (mark_hook tbl) hs st) w hk = bound_hook st w hk"
  by (simp add: bound_hook_def mark_fold_frame)

lemma mark_fold_pend:
  assumes "pend_inv st ps" and "fd_table st = tbl" and "\<forall>hk\<in>set hs. bound_hook st w hk \<and> wanted hk \<noteq> 0"
  shows "\<exists>ps'. pend_inv (fold (mark_hook tbl) hs st) ps' \<and> set ps' = set ps \<union> (\<lambda>hk. tbl ! hk_fh hk) ` set hs"
  using assms
proof (induction hs arbitrary: st ps)
  case Nil
  then show ?case by (auto intro!: exI [of _ ps])
next
  case (Cons hk hs)
  let ?a = "tbl ! hk_fh hk"
  let ?ps = "if ?a \<in> set ps then ps else ps @ [?a]"
  have "pend_inv (mark_hook tbl hk st) ?ps"
    by (rule mark_pending_pend [OF Cons.prems(1)]) (use Cons.prems in \<open>auto simp: bound_hook_def\<close>)
  from Cons.IH [OF this] Cons.prems obtain ps' where
    "pend_inv (fold (mark_hook tbl) hs (mark_hook tbl hk st)) ps'" "set ps' = set ?ps \<union> (\<lambda>hk. tbl ! hk_fh hk) ` set hs"
    by auto
  then show ?case by (intro exI [of _ ps']) auto
qed

lemma mark_fold_events:
  assumes "\<forall>hk\<in>set hs. tbl ! hk_fh hk = a \<longrightarrow> wanted hk = v"
  shows "events (fdes (fold (mark_hook tbl) hs st) a) = events (fdes st a) OR (if a \<in> (\<lambda>hk. tbl ! hk_fh hk) ` set hs then v else 0)"
  using assms
proof (induction hs arbitrary: st)
  case (Cons hk hs)
  show ?case
  proof (cases "tbl ! hk_fh hk = a")
    case True
    then have "events (fdes (mark_hook tbl hk st) a) = events (fdes st a) OR v" using Cons.prems by (simp add: mark_pending_events)
    with True Cons show ?thesis by (simp add: or.assoc)
  next
    case False
    then have "events (fdes (mark_hook tbl hk st) a) = events (fdes st a)" by (simp add: mark_pending_events)
    with False Cons show ?thesis by auto
  qed
qed simp

lemma object_inj:
  assumes "bound_hook st w hk" "bound_hook st w hk'" and "fd_table st ! hk_fh hk' = fd_table st ! hk_fh hk"
  shows "hk_fh hk' = hk_fh hk"
proof -
  have "int (hk_fh hk') + WIN32_FH_BASE = int (hk_fh hk) + WIN32_FH_BASE"
    using assms unfolding bound_hook_def by metis
  then show ?thesis by simp
qed

lemma hooks_ok_wanted: "hooks_ok s \<Longrightarrow> hk \<in> set (hooks s) \<Longrightarrow> wanted hk \<noteq> 0"
  by (force simp: hooks_ok_def hook_view_def)

lemma hooks_ok_inj: "hooks_ok s \<Longrightarrow> hk \<in> set (hooks s) \<Longrightarrow> hk' \<in> set (hooks s) \<Longrightarrow> hk_fh hk' = hk_fh hk \<Longrightarrow> hk' = hk"
  by (auto simp: hooks_ok_def hook_view_def distinct_map inj_on_def)

text \<open>The effect on the objects of marking the hooks of a set.\<close>

definition signalled :: "wloop \<Rightarrow> hook set \<Rightarrow> nat list \<Rightarrow> wloop \<Rightarrow> bool" where
  "signalled s R ps s' \<longleftrightarrow> fd_table (wfd s') = fd_table (wfd s) \<and> hook_view s' = hook_view s \<and> same_fhs (ww s) (ww s')
     \<and> (\<exists>ps'. pend_inv (wfd s') ps' \<and> set ps' = set ps \<union> (\<lambda>hk. fd_table (wfd s) ! hk_fh hk) ` R)
     \<and> (\<forall>hk\<in>set (hooks s). events (fdes (wfd s') (fd_table (wfd s) ! hk_fh hk))
          = events (fdes (wfd s) (fd_table (wfd s) ! hk_fh hk)) OR (if hk \<in> R then wanted hk else 0))"

lemma fold_signalled:
  assumes ok: "hooks_ok s" and b: "\<forall>hk\<in>set (hooks s). bound_hook (wfd s) (ww s) hk" and p: "pend_inv (wfd s) ps"
    and hs: "set hs \<subseteq> set (hooks s)" and s': "wfd s' = fold (mark_hook (fd_table (wfd s))) hs (wfd s)"
    and v: "hook_view s' = hook_view s" "same_fhs (ww s) (ww s')"
  shows "signalled s (set hs) ps s'"
proof -
  have bw: "\<forall>hk\<in>set hs. bound_hook (wfd s) (ww s) hk \<and> wanted hk \<noteq> 0" using hs b hooks_ok_wanted [OF ok] by auto
  have ev: "events (fdes (wfd s') (fd_table (wfd s) ! hk_fh hk))
      = events (fdes (wfd s) (fd_table (wfd s) ! hk_fh hk)) OR (if hk \<in> set hs then wanted hk else 0)" if hk: "hk \<in> set (hooks s)" for hk
  proof -
    have e: "hk' = hk" if "hk' \<in> set hs" "fd_table (wfd s) ! hk_fh hk' = fd_table (wfd s) ! hk_fh hk" for hk'
      using that hs hk b object_inj [of "wfd s" "ww s" hk hk'] hooks_ok_inj [OF ok hk, of hk'] by auto
    then have "(fd_table (wfd s) ! hk_fh hk \<in> (\<lambda>hk. fd_table (wfd s) ! hk_fh hk) ` set hs) \<longleftrightarrow> hk \<in> set hs" by fastforce
    then show ?thesis using e by (subst s', subst mark_fold_events [where v = "wanted hk"]) auto
  qed
  from mark_fold_pend [OF p refl bw] show ?thesis using ev by (simp add: signalled_def v s' mark_fold_frame)
qed

lemma mark_fold_map:
  assumes "\<forall>hk\<in>set hs. hk_fh (g hk) = hk_fh hk \<and> wanted (g hk) = wanted hk"
  shows "fold (mark_hook tbl) (filter P (map g hs)) st = fold (mark_hook tbl) (filter (\<lambda>hk. P (g hk)) hs) st"
  using assms by (induction hs arbitrary: st) simp_all

lemma hook_view_map:
  assumes "\<forall>hk\<in>set (hooks s). hk_fh (g hk) = hk_fh hk \<and> wanted (g hk) = wanted hk" and "hooks s' = map g (hooks s)"
  shows "hook_view s' = hook_view s"
  using assms by (simp add: hook_view_def)

text \<open>The last look at the hooks, after others have been signalled.\<close>

lemma peek_signalled:
  assumes ok: "hooks_ok s" and b: "\<forall>hk\<in>set (hooks s). bound_hook (wfd s) (ww s) hk" and p: "pend_inv (wfd s) ps"
    and hs: "set hs \<subseteq> set (hooks s)" and w1: "wfd s1 = fold (mark_hook (fd_table (wfd s))) hs (wfd s)"
    and h1: "hooks s1 = map g (hooks s)" and g: "\<forall>hk\<in>set (hooks s). hk_fh (g hk) = hk_fh hk \<and> wanted (g hk) = wanted hk"
    and sf: "same_fhs (ww s) (ww s1)" and pk: "\<forall>hk\<in>set (hooks s). hook_peek enum (g hk) (ww s1) = Inr (pk (g hk))"
  shows "\<exists>s'. peek_hooks enum 0 (length (hooks s1)) s1 = Inr s'
    \<and> signalled s (set hs \<union> {hk \<in> set (hooks s). fst (pk (g hk))}) ps s'"
proof -
  have tb: "fd_table (wfd s1) = fd_table (wfd s)" by (simp add: w1 mark_fold_frame)
  have u: "used (fhs (ww s1) ! f) = used (fhs (ww s) ! f)" for f using sf by (simp add: same_fhs_def)
  have bg: "bound_hook (wfd s1) (ww s1) (g hk)" if "hk \<in> set (hooks s)" for hk
    using b g that u by (simp add: bound_hook_def w1 mark_fold_frame)
  have "\<forall>hk\<in>set (drop 0 (hooks s1)). hook_peek enum hk (ww s1) = Inr (pk hk) \<and> bound_hook (wfd s1) (ww s1) hk"
    using pk bg by (auto simp: h1)
  from peek_hooks_result [OF this] obtain s' where
    s': "peek_hooks enum 0 (length (hooks s1)) s1 = Inr s'" "hooks s' = map (snd \<circ> pk) (hooks s1)" "ww s' = ww s1"
      "wfd s' = fold (mark_hook (fd_table (wfd s1))) (filter (\<lambda>hk. fst (pk hk)) (hooks s1)) (wfd s1)" by auto
  have fr: "hk_fh (snd (pk (g hk))) = hk_fh hk \<and> wanted (snd (pk (g hk))) = wanted hk" if "hk \<in> set (hooks s)" for hk
    using peek_frame [of enum "g hk" "ww s1" "fst (pk (g hk))" "snd (pk (g hk))"] pk g that by simp
  have "wfd s' = fold (mark_hook (fd_table (wfd s))) (hs @ filter (\<lambda>hk. fst (pk (g hk))) (hooks s)) (wfd s)"
    unfolding s'(4) h1 tb mark_fold_map [OF g] by (simp add: w1)
  moreover have "hook_view s' = hook_view s"
    by (rule hook_view_map [where g = "\<lambda>hk. snd (pk (g hk))"]) (use fr s'(2) h1 in auto)
  ultimately have "signalled s (set (hs @ filter (\<lambda>hk. fst (pk (g hk))) (hooks s))) ps s'"
    using hs sf s'(3) by (intro fold_signalled [OF ok b p]) auto
  with s'(1) show ?thesis by (auto simp: Un_def)
qed

text \<open>When some hook is ready before waiting, \<open>fdevent_process\<close> returns without waiting: whatever the waits
  would give, the objects of exactly the hooks that were ready at the first or the last look are pending
  besides those that were, each has been given all the events its hook wants (and not just the ready ones),
  no other object of a hook has got events, and the hooks want what they wanted.\<close>

theorem ready_hooks_signalled:
  assumes ok: "hooks_ok s" and b: "\<forall>hk\<in>set (hooks s). bound_hook (wfd s) (ww s) hk" and p: "pend_inv (wfd s) ps"
    and pr: "\<forall>hk\<in>set (hooks s). hook_prepare (at_prepare pe) (hk\<lparr>ready := 0\<rparr>) (ww s) = Inr (pr hk)"
    and some: "\<exists>hk\<in>set (hooks s). ready (pr hk) \<noteq> 0"
    and pk: "\<forall>hk\<in>set (hooks s). hook_peek (at_peek pe) (pr hk) (ww s) = Inr (pk (pr hk))"
  shows "\<exists>s'. w_fdevent_process pe s = Inr s'
    \<and> signalled s {hk \<in> set (hooks s). ready (pr hk) \<noteq> 0 \<or> fst (pk (pr hk))} ps s'"
proof -
  have g: "\<forall>hk\<in>set (hooks s). hk_fh (pr hk) = hk_fh hk \<and> wanted (pr hk) = wanted hk"
    using pr prepare_frame by fastforce
  have "\<forall>hk\<in>set (drop 0 (hooks s)). hook_prepare (at_prepare pe) (hk\<lparr>ready := 0\<rparr>) (ww s) = Inr (pr hk) \<and> bound_hook (wfd s) (ww s) hk"
    using pr b by simp
  from prepare_hooks_result [OF this, of "length (hooks s)" False] obtain s1 where
    s1: "prepare_hooks (at_prepare pe) 0 (length (hooks s)) False s = Inr (\<exists>hk\<in>set (hooks s). ready (pr hk) \<noteq> 0, s1)"
      "hooks s1 = map pr (hooks s)" "ww s1 = ww s"
      "wfd s1 = fold (mark_hook (fd_table (wfd s))) (filter (\<lambda>hk. ready (pr hk) \<noteq> 0) (hooks s)) (wfd s)" by auto
  have "\<exists>s'. peek_hooks (at_peek pe) 0 (length (hooks s1)) s1 = Inr s'
    \<and> signalled s (set (filter (\<lambda>hk. ready (pr hk) \<noteq> 0) (hooks s)) \<union> {hk \<in> set (hooks s). fst (pk (pr hk))}) ps s'"
    by (rule peek_signalled [OF ok b p _ s1(4) s1(2) g]) (use pk s1(3) same_fhs_refl in auto)
  moreover have "set (filter (\<lambda>hk. ready (pr hk) \<noteq> 0) (hooks s)) \<union> {hk \<in> set (hooks s). fst (pk (pr hk))}
      = {hk \<in> set (hooks s). ready (pr hk) \<noteq> 0 \<or> fst (pk (pr hk))}" by auto
  ultimately show ?thesis using some s1(1) by (auto simp: w_fdevent_process_def)
qed

definition penv_ready :: penv where
  "penv_ready = \<lparr>at_prepare = (\<lambda>_. Some (FD_READ, False, False)), select_fails = (\<lambda>_. False), waits = [], at_peek = (\<lambda>_. None), pair_number = (\<lambda>_ _ _. 0)\<rparr>"

lemma one_hooks: "hooks wloop_one = [\<lparr>hk_fh = 0, hk_h = NoHandle, wanted = FDE_READ, ready = 0, hk_class = Some Socket_class\<rparr>]"
  by (simp add: wloop_one_def)

lemma one_ok: "hooks_ok wloop_one" "\<forall>hk\<in>set (hooks wloop_one). bound_hook (wfd wloop_one) (ww wloop_one) hk" "pend_inv (wfd wloop_one) []"
proof -
  show "hooks_ok wloop_one" by (simp add: hooks_ok_def hook_view_def wloop_one_def FDE_READ_def)
  show "\<forall>hk\<in>set (hooks wloop_one). bound_hook (wfd wloop_one) (ww wloop_one) hk"
    by (simp add: wloop_one_def bound_hook_def fdst_one_def WIN32_MAX_FHS_def WIN32_FH_BASE_def fh_socket_def list_pending_def)
  show "pend_inv (wfd wloop_one) []"
    by (simp add: pend_inv_def wloop_one_def fdst_one_def ring_def list_pending_def FDE_ACTIVE_def FDE_READ_def bit_or_iff)
qed

lemma ready_hooks_signalled_witness:
  "\<exists>s' ps'. w_fdevent_process penv_ready wloop_one = Inr s' \<and> pend_inv (wfd s') ps' \<and> set ps' = {2} \<and> events (fdes (wfd s') 2) = 1"
proof -
  let ?hk = "\<lparr>hk_fh = 0, hk_h = NoHandle, wanted = FDE_READ, ready = 1, hk_class = Some Socket_class\<rparr>"
  have v: "hook_prepare (at_prepare penv_ready) (hk\<lparr>ready := 0\<rparr>) (ww wloop_one) = Inr ?hk" if "hk \<in> set (hooks wloop_one)" for hk
    using that by (simp add: one_hooks hook_prepare_def penv_ready_def event_socket_verify_def Let_def FDE_READ_def FDE_WRITE_def FDE_ERROR_def
        FD_READ_def FD_WRITE_def FD_OOB_def FD_CLOSE_def FD_ACCEPT_def FD_CONNECT_def has_def)
  have "hook_peek (at_peek penv_ready) ?hk (ww wloop_one) = Inr (True, ?hk)"
    by (simp add: hook_peek_def penv_ready_def)
  then obtain s' where s': "w_fdevent_process penv_ready wloop_one = Inr s'" "signalled wloop_one (set (hooks wloop_one)) [] s'"
    using ready_hooks_signalled [OF one_ok, of penv_ready "\<lambda>_. ?hk" "\<lambda>_. (True, ?hk)"] v by (auto simp: one_hooks)
  moreover have "fd_table (wfd wloop_one) ! 0 = 2" "events (fdes (wfd wloop_one) 2) = 0" by (simp_all add: wloop_one_def fdst_one_def)
  ultimately show ?thesis by (auto simp: signalled_def one_hooks FDE_READ_def)
qed

section \<open>Nothing to wait for\<close>

lemma same_fhs_trans: "same_fhs a b \<Longrightarrow> same_fhs b c \<Longrightarrow> same_fhs a c"
  by (simp add: same_fhs_def)

lemma same_fhs_pair: "same_fhs w w' \<Longrightarrow> pair_ends f w' = pair_ends f w"
  by (cases "pairs w (fu (fhs w ! f))") (simp_all add: pair_ends_def pair_of_def same_fhs_def Let_def)

definition startable :: "win \<Rightarrow> hook \<Rightarrow> bool" where
  "startable w hk \<longleftrightarrow> (hk_class hk = Some Pair_class \<longrightarrow> wanted hk = FDE_READ \<or> wanted hk = FDE_WRITE)
     \<and> (hk_class hk = Some Socket_class \<longrightarrow> event (fhs w ! hk_fh hk) \<noteq> - 1)"

text \<open>Starting changes the handle of a hook and masks.\<close>

lemma start_cases:
  assumes "\<not> fails (hk_fh (hooks s ! i))"
    and "hk_class (hooks s ! i) = Some Pair_class \<longrightarrow> pair_ends (hk_fh (hooks s ! i)) (ww s) = Inr e"
  obtains ok s' h where "hook_start fails i s = Inr (ok, s')" "hooks s' = (hooks s)[i := (hooks s ! i)\<lparr>hk_h := h\<rparr>]"
    "wfd s' = wfd s" "htab s' = htab s" "same_fhs (ww s) (ww s')"
    "ok = startable (ww s) (hooks s ! i)"
    "hk_class (hooks s ! i) = Some Socket_class \<Longrightarrow> ok \<Longrightarrow> h = Handle (event (fhs (ww s) ! hk_fh (hooks s ! i)))"
proof (cases "hk_class (hooks s ! i)")
  case None
  then show ?thesis by (intro that [of True s "hk_h (hooks s ! i)"]) (simp_all add: hook_start_def same_fhs_refl startable_def)
next
  case (Some c)
  show ?thesis
  proof (cases c)
    case File_class
    then show ?thesis using Some by (intro that [of True s "hk_h (hooks s ! i)"]) (simp_all add: hook_start_def same_fhs_refl startable_def)
  next
    case Socket_class
    let ?e = "event (fhs (ww s) ! hk_fh (hooks s ! i))"
    define s1 where "s1 = upd_hook i (\<lambda>hk. hk\<lparr>hk_h := (if ?e = - 1 then NoHandle else Handle ?e)\<rparr>) s"
    let ?m = "uint (socket_wanted_to_flags (wanted (hooks s ! i)))"
    define s' where "s' = (if ?e \<noteq> - 1 \<and> ?m \<noteq> mask (fhs (ww s) ! hk_fh (hooks s ! i))
      then s1\<lparr>ww := upd_fh (hk_fh (hooks s ! i)) (\<lambda>x. x\<lparr>mask := ?m\<rparr>) (ww s)\<rparr> else s1)"
    have "hook_start fails i s = Inr (?e \<noteq> - 1, s')"
      using assms Some Socket_class by (auto simp: hook_start_def event_socket_start_def Let_def s'_def s1_def)
    moreover have "hooks s' = (hooks s)[i := (hooks s ! i)\<lparr>hk_h := (if ?e = - 1 then NoHandle else Handle ?e)\<rparr>]"
      "wfd s' = wfd s" "htab s' = htab s" "same_fhs (ww s) (ww s')"
      by (simp_all add: s'_def s1_def upd_hook_def same_fhs_mask same_fhs_refl)
    ultimately show ?thesis using Some Socket_class by (intro that [of "?e \<noteq> - 1" s' "if ?e = - 1 then NoHandle else Handle ?e"]) (simp_all add: startable_def split: if_splits)
  next
    case Pair_class
    note result = that
    obtain p a r w where "pair_ends (hk_fh (hooks s ! i)) (ww s) = Inr (p, a, r, w)" using assms Some Pair_class by (cases e) auto
    then have e: "hook_start fails i s = (if wanted (hooks s ! i) = FDE_READ then Inr (True, upd_hook i (\<lambda>hk. hk\<lparr>hk_h := PairEvent p (\<not> a) True\<rparr>) s)
        else if wanted (hooks s ! i) = FDE_WRITE then Inr (True, upd_hook i (\<lambda>hk. hk\<lparr>hk_h := PairEvent p a False\<rparr>) s)
        else Inr (False, s))"
      using Some Pair_class by (simp add: hook_start_def event_socketpair_start_def of_crash_def Let_def)
    have g: thesis if "hook_start fails i s = Inr (True, upd_hook i (\<lambda>hk. hk\<lparr>hk_h := h\<rparr>) s)" "startable (ww s) (hooks s ! i)" for h
      by (rule result [of True "upd_hook i (\<lambda>hk. hk\<lparr>hk_h := h\<rparr>) s" h]) (use that Some Pair_class in \<open>simp_all add: upd_hook_def same_fhs_refl\<close>)
    show ?thesis
    proof (cases "startable (ww s) (hooks s ! i)")
      case True
      with e g Some Pair_class show ?thesis by (auto simp: startable_def split: if_splits)
    next
      case False
      with e Some Pair_class show ?thesis
        by (intro that [of False s "hk_h (hooks s ! i)"]) (auto simp: startable_def same_fhs_refl)
    qed
  qed
qed

text \<open>A pair that wants both directions, or neither, stops the start of the hooks.\<close>

definition unstartable :: "hook \<Rightarrow> bool" where
  "unstartable hk \<longleftrightarrow> hk_class hk = Some Pair_class \<and> wanted hk \<noteq> FDE_READ \<and> wanted hk \<noteq> FDE_WRITE"

lemma start_hooks_stuck:
  assumes "\<forall>hk\<in>set (drop i (hooks s)). \<not> fails (hk_fh hk) \<and> (hk_class hk = Some Pair_class \<longrightarrow> (\<exists>e. pair_ends (hk_fh hk) (ww s) = Inr e))"
    and "\<exists>hk\<in>set (drop i (hooks s)). unstartable hk"
    and "i + n = length (hooks s)" and "length (htab s) \<le> i" and "length (hooks s) \<le> WIN32_MAX_FHS"
  shows "\<exists>s'. start_hooks fails i n s = Inr (False, s') \<and> wfd s' = wfd s \<and> hook_view s' = hook_view s"
  using assms
proof (induction n arbitrary: i s)
  case 0
  then show ?case by simp
next
  case (Suc n)
  then have i: "i < length (hooks s)" by simp
  have d: "drop i (hooks s) = hooks s ! i # drop (Suc i) (hooks s)" using i by (simp add: Cons_nth_drop_Suc)
  have "\<not> fails (hk_fh (hooks s ! i))" using Suc.prems(1) d by simp
  moreover obtain e where "hk_class (hooks s ! i) = Some Pair_class \<longrightarrow> pair_ends (hk_fh (hooks s ! i)) (ww s) = Inr e"
    using Suc.prems(1) d by auto
  ultimately obtain ok s1 h where s1: "hook_start fails i s = Inr (ok, s1)" "hooks s1 = (hooks s)[i := (hooks s ! i)\<lparr>hk_h := h\<rparr>]"
    "wfd s1 = wfd s" "htab s1 = htab s" "same_fhs (ww s) (ww s1)" and ok: "ok = startable (ww s) (hooks s ! i)"
    by (rule start_cases)
  have v: "hook_view s1 = hook_view s"
    using s1(2) upd_hook_view_same [where s = s and i = i and g = "\<lambda>hk. hk\<lparr>hk_h := h\<rparr>"] by (simp add: upd_hook_def hook_view_def)
  show ?case
  proof (cases ok)
    case False
    then show ?thesis using s1 v by auto
  next
    case True
    have room: "length (htab s) < WIN32_MAX_FHS" using Suc.prems(4,5) i by simp
    define s2 where "s2 = (if hk_h (hooks s1 ! i) = NoHandle \<or> hk_h (hooks s1 ! i) \<in> set (htab s1) then s1
      else s1\<lparr>htab := htab s1 @ [hk_h (hooks s1 ! i)]\<rparr>)"
    have step: "start_hooks fails i (Suc n) s = start_hooks fails (Suc i) n s2"
      using s1(1) True room by (simp add: s2_def Let_def s1(4))
    have f2: "hooks s2 = hooks s1" "wfd s2 = wfd s" "ww s2 = ww s1" "length (htab s2) \<le> Suc (length (htab s))" "hook_view s2 = hook_view s"
      using s1 v by (auto simp: s2_def hook_view_def)
    have d2: "drop (Suc i) (hooks s2) = drop (Suc i) (hooks s)" using i by (simp add: f2 s1(2))
    have "\<exists>s'. start_hooks fails (Suc i) n s2 = Inr (False, s') \<and> wfd s' = wfd s2 \<and> hook_view s' = hook_view s2"
    proof (rule Suc.IH)
      show "\<forall>hk\<in>set (drop (Suc i) (hooks s2)). \<not> fails (hk_fh hk) \<and> (hk_class hk = Some Pair_class \<longrightarrow> (\<exists>e. pair_ends (hk_fh hk) (ww s2) = Inr e))"
        using Suc.prems(1) unfolding d2 d by (simp add: f2 same_fhs_pair [OF s1(5)])
      show "\<exists>hk\<in>set (drop (Suc i) (hooks s2)). unstartable hk" using Suc.prems(2) ok True unfolding d2 d by (auto simp: unstartable_def startable_def)
    qed (use Suc.prems f2 s1(2) in simp_all)
    then show ?thesis using step f2 by simp
  qed
qed

lemma fold_mark_none: "(\<forall>hk\<in>set hs. \<not> P hk) \<Longrightarrow> fold (mark_hook tbl) (filter P hs) st = st"
  by (simp add: filter_False)

lemma pair_prepared: "event_socketpair_prepare hk w = Inr hk' \<Longrightarrow> \<exists>e. pair_ends (hk_fh hk) w = Inr e"
  by (auto simp: event_socketpair_prepare_def sbind_Inr_iff)

lemma hooks_few:
  assumes "hooks_ok s" and "\<forall>hk\<in>set (hooks s). bound_hook (wfd s) (ww s) hk"
  shows "length (hooks s) \<le> WIN32_MAX_FHS"
proof -
  have "distinct (map hk_fh (hooks s))" using assms(1) by (simp add: hooks_ok_def hook_view_def comp_def)
  moreover have "set (map hk_fh (hooks s)) \<subseteq> {..<WIN32_MAX_FHS}" using assms(2) by (auto simp: bound_hook_def)
  ultimately have "length (map hk_fh (hooks s)) \<le> card {..<WIN32_MAX_FHS}" by (metis card_mono distinct_card finite_lessThan)
  then show ?thesis by simp
qed

text \<open>A socket pair can be waited for in one direction only: while an object on a pair listens in both
  and nothing is ready, \<open>fdevent_process\<close> returns at once, whatever could be waited for, with no object
  changed and every hook wanting what it wanted; the loop that calls it runs without ever waiting.\<close>

theorem pair_both_ways_never_waits:
  assumes ok: "hooks_ok s" and b: "\<forall>hk\<in>set (hooks s). bound_hook (wfd s) (ww s) hk"
    and pr: "\<forall>hk\<in>set (hooks s). hook_prepare (at_prepare pe) (hk\<lparr>ready := 0\<rparr>) (ww s) = Inr (pr hk) \<and> ready (pr hk) = 0"
    and st: "\<forall>hk\<in>set (hooks s). \<not> select_fails pe (hk_fh hk)" and un: "\<exists>hk\<in>set (hooks s). unstartable hk"
  shows "\<exists>s'. w_fdevent_process pe s = Inr s' \<and> wfd s' = wfd s \<and> hook_view s' = hook_view s"
proof -
  have g: "hk_fh (pr hk) = hk_fh hk \<and> wanted (pr hk) = wanted hk \<and> hk_class (pr hk) = hk_class hk" if "hk \<in> set (hooks s)" for hk
    using pr that prepare_frame prepare_class by fastforce
  have "\<forall>hk\<in>set (drop 0 (hooks s)). hook_prepare (at_prepare pe) (hk\<lparr>ready := 0\<rparr>) (ww s) = Inr (pr hk) \<and> bound_hook (wfd s) (ww s) hk"
    using pr b by simp
  from prepare_hooks_result [OF this, of "length (hooks s)" False] obtain s1 where
    s1: "prepare_hooks (at_prepare pe) 0 (length (hooks s)) False s = Inr (False, s1)" "hooks s1 = map pr (hooks s)" "ww s1 = ww s"
      "wfd s1 = wfd s" using pr by (auto simp: fold_mark_none)
  have pe: "\<exists>e. pair_ends (hk_fh hk) (ww s) = Inr e" if "hk \<in> set (hooks s)" "hk_class hk = Some Pair_class" for hk
    using pr that pair_prepared [of "hk\<lparr>ready := 0\<rparr>" "ww s" "pr hk"] by (auto simp: hook_prepare_def)
  have "\<exists>s'. start_hooks (select_fails pe) 0 (length (hooks s1)) (s1\<lparr>htab := []\<rparr>) = Inr (False, s')
      \<and> wfd s' = wfd (s1\<lparr>htab := []\<rparr>) \<and> hook_view s' = hook_view (s1\<lparr>htab := []\<rparr>)"
    by (rule start_hooks_stuck) (use g pe st un s1 hooks_few [OF ok b] in \<open>auto simp: unstartable_def\<close>)
  then obtain s' where s': "start_hooks (select_fails pe) 0 (length (hooks s1)) (s1\<lparr>htab := []\<rparr>) = Inr (False, s')"
    "wfd s' = wfd s" "hook_view s' = hook_view s1" using s1 by (auto simp: hook_view_def)
  moreover have "hook_view s1 = hook_view s" by (rule hook_view_map [of _ pr]) (use g s1(2) in auto)
  ultimately show ?thesis using s1(1) by (simp add: w_fdevent_process_def wait_for_event_def)
qed

text \<open>An end of a pair whose buffer is full, with nothing to read.\<close>

definition spair_full :: spair where
  "spair_full = \<lparr>a2b_bip = \<lparr>a_start = 0, a_end = BIP_BUFFER_SIZE, b_end = 0, bclosed = False, can_write = False, evt_write = False,
       can_read = True, evt_read = True, buff = replicate BIP_BUFFER_SIZE 0\<rparr>,
     b2a_bip = bip_buffer_init (replicate BIP_BUFFER_SIZE 0), a_fd = Some 0, pused = 2\<rparr>"

definition wloop_pair :: wloop where
  "wloop_pair = \<lparr>hooks = [\<lparr>hk_fh = 0, hk_h = NoHandle, wanted = FDE_READ OR FDE_WRITE, ready = 0, hk_class = Some Pair_class\<rparr>],
     htab = [], wfd = fdst_one, ww = \<lparr>fhs = fh_socket\<lparr>clazz := Some Pair_class, fu := 5\<rparr> # replicate 127 fh_none, fh_count = 1,
       pairs = [5 \<mapsto> spair_full], freed = []\<rparr>\<rparr>"

definition penv_quiet :: penv where
  "penv_quiet = \<lparr>at_prepare = (\<lambda>_. None), select_fails = (\<lambda>_. False), waits = [], at_peek = (\<lambda>_. None), pair_number = (\<lambda>_ _ _. 0)\<rparr>"

lemma pair_both_ways_never_waits_witness:
  "\<exists>s'. w_fdevent_process penv_quiet wloop_pair = Inr s' \<and> wfd s' = fdst_one"
proof -
  have h: "hooks wloop_pair = [\<lparr>hk_fh = 0, hk_h = NoHandle, wanted = FDE_READ OR FDE_WRITE, ready = 0, hk_class = Some Pair_class\<rparr>]"
    by (simp add: wloop_pair_def)
  have "hooks_ok wloop_pair" by (simp add: hooks_ok_def hook_view_def wloop_pair_def FDE_READ_def FDE_WRITE_def)
  moreover have "\<forall>hk\<in>set (hooks wloop_pair). bound_hook (wfd wloop_pair) (ww wloop_pair) hk"
    by (simp add: wloop_pair_def bound_hook_def fdst_one_def WIN32_MAX_FHS_def WIN32_FH_BASE_def fh_socket_def list_pending_def)
  moreover have "\<forall>hk\<in>set (hooks wloop_pair). hook_prepare (at_prepare penv_quiet) (hk\<lparr>ready := 0\<rparr>) (ww wloop_pair) = Inr hk \<and> ready hk = 0"
    by (simp add: wloop_pair_def hook_prepare_def event_socketpair_prepare_def pair_ends_def pair_of_def spair_full_def bip_buffer_init_def fh_socket_def)
  moreover have "\<forall>hk\<in>set (hooks wloop_pair). \<not> select_fails penv_quiet (hk_fh hk)" by (simp add: penv_quiet_def)
  moreover have "\<exists>hk\<in>set (hooks wloop_pair). unstartable hk" by (simp add: h unstartable_def FDE_READ_def FDE_WRITE_def)
  ultimately have "\<exists>s'. w_fdevent_process penv_quiet wloop_pair = Inr s' \<and> wfd s' = wfd wloop_pair \<and> hook_view s' = hook_view wloop_pair"
    by (rule pair_both_ways_never_waits [where pr = "\<lambda>hk. hk"])
  then show ?thesis by (auto simp: wloop_pair_def)
qed

section \<open>Waiting\<close>

definition socket_ready :: "(nat \<Rightarrow> netev option) \<Rightarrow> hook \<Rightarrow> u16" where
  "socket_ready enum hk = (case enum (hk_fh hk) of None \<Rightarrow> 0 | Some ev \<Rightarrow> socket_bits ev (wanted hk))"

lemma socket_prepare: "hk_class hk = Some Socket_class \<Longrightarrow>
    hook_prepare enum (hk\<lparr>ready := 0\<rparr>) w = Inr (hk\<lparr>ready := socket_ready enum hk\<rparr>)"
  by (simp add: hook_prepare_def socket_ready_def verify_bits split: option.split)

lemma socket_check: "hk_class hk = Some Socket_class \<Longrightarrow> ready hk = 0 \<Longrightarrow>
    hook_check enum hk = (socket_ready enum hk \<noteq> 0, hk\<lparr>ready := socket_ready enum hk\<rparr>)"
  by (auto simp: hook_check_def socket_ready_def verify_bits Let_def split: option.split)

lemma socket_peek: "hk_class hk = Some Socket_class \<Longrightarrow>
    hook_peek enum hk w = Inr (ready hk OR socket_ready enum hk \<noteq> 0, hk\<lparr>ready := ready hk OR socket_ready enum hk\<rparr>)"
  by (auto simp: hook_peek_def socket_ready_def verify_bits Let_def split: option.split)

abbreviation socket_event :: "win \<Rightarrow> hook \<Rightarrow> whandle" where
  "socket_event w hk \<equiv> Handle (event (fhs w ! hk_fh hk))"

lemma start_sockets:
  assumes "\<forall>hk\<in>set (drop i (hooks s)). hk_class hk = Some Socket_class \<and> \<not> fails (hk_fh hk) \<and> event (fhs (ww s) ! hk_fh hk) \<noteq> - 1"
    and "distinct (htab s @ map (socket_event (ww s)) (drop i (hooks s)))"
    and "i + n = length (hooks s)" and "length (htab s) + n \<le> WIN32_MAX_FHS"
  shows "\<exists>s'. start_hooks fails i n s = Inr (True, s') \<and> wfd s' = wfd s \<and> same_fhs (ww s) (ww s')
    \<and> hooks s' = take i (hooks s) @ map (\<lambda>hk. hk\<lparr>hk_h := socket_event (ww s) hk\<rparr>) (drop i (hooks s))
    \<and> htab s' = htab s @ map (socket_event (ww s)) (drop i (hooks s))"
  using assms
proof (induction n arbitrary: i s)
  case 0
  then show ?case by (simp add: same_fhs_refl)
next
  case (Suc n)
  then have i: "i < length (hooks s)" by simp
  let ?hk = "hooks s ! i"
  have d: "drop i (hooks s) = ?hk # drop (Suc i) (hooks s)" using i by (simp add: Cons_nth_drop_Suc)
  have hk: "hk_class ?hk = Some Socket_class" "\<not> fails (hk_fh ?hk)" "event (fhs (ww s) ! hk_fh ?hk) \<noteq> - 1" using Suc.prems(1) d by simp_all
  obtain ok s1 h where s1: "hook_start fails i s = Inr (ok, s1)" "hooks s1 = (hooks s)[i := ?hk\<lparr>hk_h := h\<rparr>]"
    "wfd s1 = wfd s" "htab s1 = htab s" "same_fhs (ww s) (ww s1)" "ok = startable (ww s) ?hk"
    "hk_class ?hk = Some Socket_class \<Longrightarrow> ok \<Longrightarrow> h = socket_event (ww s) ?hk"
    by (rule start_cases [of fails s i "(0, True, undefined, undefined)"]) (use hk in auto)
  have ok: ok "h = socket_event (ww s) ?hk" using s1(6,7) hk by (simp_all add: startable_def)
  define s2 where "s2 = s1\<lparr>htab := htab s @ [h]\<rparr>"
  have new: "h \<notin> set (htab s)" using Suc.prems(2) ok unfolding d by auto
  have step: "start_hooks fails i (Suc n) s = start_hooks fails (Suc i) n s2"
    using s1(1,2,4) ok new i Suc.prems(4) by (simp add: s2_def Let_def)
  have ev: "socket_event (ww s2) hk = socket_event (ww s) hk" for hk using s1(5) by (simp add: s2_def same_fhs_def)
  have d2: "drop (Suc i) (hooks s2) = drop (Suc i) (hooks s)" using i by (simp add: s2_def s1(2))
  have "\<exists>s'. start_hooks fails (Suc i) n s2 = Inr (True, s') \<and> wfd s' = wfd s2 \<and> same_fhs (ww s2) (ww s')
    \<and> hooks s' = take (Suc i) (hooks s2) @ map (\<lambda>hk. hk\<lparr>hk_h := socket_event (ww s2) hk\<rparr>) (drop (Suc i) (hooks s2))
    \<and> htab s' = htab s2 @ map (socket_event (ww s2)) (drop (Suc i) (hooks s2))"
  proof (rule Suc.IH)
    show "\<forall>hk\<in>set (drop (Suc i) (hooks s2)). hk_class hk = Some Socket_class \<and> \<not> fails (hk_fh hk) \<and> event (fhs (ww s2) ! hk_fh hk) \<noteq> - 1"
      using Suc.prems(1) s1(5) unfolding d2 d by (simp add: s2_def same_fhs_def)
    show "distinct (htab s2 @ map (socket_event (ww s2)) (drop (Suc i) (hooks s2)))"
      using Suc.prems(2) ok unfolding d2 ev d by (auto simp: s2_def)
  qed (use Suc.prems s1(2) in \<open>simp_all add: s2_def\<close>)
  then obtain s' where "start_hooks fails (Suc i) n s2 = Inr (True, s')" "wfd s' = wfd s2" "same_fhs (ww s2) (ww s')"
    "hooks s' = take (Suc i) (hooks s2) @ map (\<lambda>hk. hk\<lparr>hk_h := socket_event (ww s2) hk\<rparr>) (drop (Suc i) (hooks s2))"
    "htab s' = htab s2 @ map (socket_event (ww s2)) (drop (Suc i) (hooks s2))" by blast
  moreover have "take (Suc i) (hooks s2) = take i (hooks s) @ [?hk\<lparr>hk_h := socket_event (ww s) ?hk\<rparr>]"
    using i ok by (simp add: s2_def s1(2) drop_upd)
  moreover have "same_fhs (ww s) (ww s')" using \<open>same_fhs (ww s2) (ww s')\<close> s1(5) same_fhs_trans by (simp add: s2_def)
  ultimately show ?case using step s1(3) ok unfolding d2 ev d
    by (intro exI [of _ s']) (simp add: s2_def)
qed

text \<open>Looking for the hook of a handle.\<close>

lemma find_skip:
  assumes "i \<le> j" "j \<le> i + n" and "\<forall>k. i \<le> k \<longrightarrow> k < j \<longrightarrow> hk_h (hooks s ! k) \<noteq> h"
  shows "find_signalled enum h i n s = find_signalled enum h j (i + n - j) s"
  using assms
proof (induction n arbitrary: i)
  case 0
  then show ?case by simp
next
  case (Suc n)
  show ?case
  proof (cases "i = j")
    case False
    then have "find_signalled enum h i (Suc n) s = find_signalled enum h (Suc i) n s" using Suc.prems by simp
    also have "\<dots> = find_signalled enum h j (Suc i + n - j) s" by (rule Suc.IH) (use Suc.prems False in auto)
    finally show ?thesis by simp
  qed simp
qed

definition armed :: "wloop \<Rightarrow> bool" where
  "armed s \<longleftrightarrow> htab s = map hk_h (hooks s) \<and> distinct (map hk_h (hooks s))
     \<and> (\<forall>hk\<in>set (hooks s). hk_class hk = Some Socket_class \<and> ready hk = 0 \<and> bound_hook (wfd s) (ww s) hk)"

lemma find_armed:
  assumes "armed s" and i: "i < length (hooks s)"
  shows "find_signalled enum (htab s ! i) 0 (length (hooks s)) s
    = (if socket_ready enum (hooks s ! i) \<noteq> 0
       then Inr (True, (upd_hook i (\<lambda>hk. hk\<lparr>ready := socket_ready enum hk\<rparr>) s)\<lparr>wfd := mark_hook (fd_table (wfd s)) (hooks s ! i) (wfd s)\<rparr>)
       else Inr (False, s))"
proof -
  let ?h = "htab s ! i" and ?hk = "hooks s ! i"
  have h: "?h = hk_h ?hk" and dist: "distinct (map hk_h (hooks s))" using assms by (simp_all add: armed_def)
  have other: "hk_h (hooks s ! k) \<noteq> ?h" if "k < length (hooks s)" "k \<noteq> i" for k
    using nth_eq_iff_index_eq [OF dist, of k i] that i h by auto
  have hk: "hk_class ?hk = Some Socket_class" "ready ?hk = 0" "bound_hook (wfd s) (ww s) ?hk" using assms by (simp_all add: armed_def)
  obtain m where m: "length (hooks s) - i = Suc m" using i by (metis Suc_diff_Suc)
  have a: "find_signalled enum ?h 0 (length (hooks s)) s = find_signalled enum ?h i (Suc m) s"
    using find_skip [of 0 i "length (hooks s)" s ?h enum] other i m by simp
  let ?s = "upd_hook i (\<lambda>hk. hk\<lparr>ready := socket_ready enum hk\<rparr>) s"
  have u: "upd_hook i (\<lambda>_. ?hk\<lparr>ready := socket_ready enum ?hk\<rparr>) s = ?s" by (simp add: upd_hook_def)
  have sg: "event_hook_signal (?hk\<lparr>ready := socket_ready enum ?hk\<rparr>) ?s
      = Inr (?s\<lparr>wfd := mark_hook (fd_table (wfd s)) ?hk (wfd s)\<rparr>)"
    using signal_bound [of ?s "?hk\<lparr>ready := socket_ready enum ?hk\<rparr>"] hk(3) by (simp add: bound_hook_def)
  show ?thesis
  proof (cases "socket_ready enum ?hk = 0")
    case True
    have "?hk\<lparr>ready := 0\<rparr> = ?hk" using hk(2) by simp
    then have e: "?s = s" using True by (simp add: upd_hook_def)
    have "find_signalled enum ?h (Suc i) m s = find_signalled enum ?h (Suc i + m) 0 s"
      using find_skip [of "Suc i" "Suc i + m" m s ?h enum] other m by auto
    then show ?thesis using a h u e True by (simp add: socket_check [OF hk(1,2)] Let_def)
  next
    case False
    then show ?thesis using a h u sg by (simp add: socket_check [OF hk(1,2)] Let_def)
  qed
qed

text \<open>The length of the log.\<close>

lemma length_fmt_d: "0 < length (fmt_d n)" "10 \<le> n \<Longrightarrow> 2 \<le> length (fmt_d n)" "0 \<le> n \<Longrightarrow> n < 100 \<Longrightarrow> length (fmt_d n) \<le> 2"
proof -
  have pos: "0 < length (decimal k)" for k by (subst decimal.simps) simp
  then show "0 < length (fmt_d n)" by (simp add: fmt_d_def)
  show "10 \<le> n \<Longrightarrow> 2 \<le> length (fmt_d n)"
    using pos [of "nat n div 10"] by (simp add: fmt_d_def decimal.simps [of "nat n"] Suc_le_eq)
  have "length (decimal k) \<le> 2" if "k < 100" for k
    using that by (subst decimal.simps, subst decimal.simps) auto
  then show "0 \<le> n \<Longrightarrow> n < 100 \<Longrightarrow> length (fmt_d n) \<le> 2" by (simp add: fmt_d_def)
qed

lemma wait_log_long:
  assumes "31 \<le> length hs"
  shows "260 \<le> length (wait_log hs)"
proof -
  let ?f = "\<lambda>(i, h). ascii ''htab'' @ fmt_d (int i) @ ascii '' '' @ fmt_d h"
  have few: "7 * length xs \<le> length (concat (map ?f (enumerate k xs)))" for k and xs :: "int list"
  proof (induction xs arbitrary: k)
    case (Cons x xs)
    show ?case using Cons [of "Suc k"] length_fmt_d(1) [of "int k"] length_fmt_d(1) [of x] by (simp add: ascii_def del: length_greater_0_conv)
  qed simp
  have most: "8 * length xs \<le> length (concat (map ?f (enumerate k xs)))" if "10 \<le> k" for k and xs :: "int list"
    using that
  proof (induction xs arbitrary: k)
    case (Cons x xs)
    show ?case using Cons.IH [of "Suc k"] Cons.prems length_fmt_d(2) [of "int k"] length_fmt_d(1) [of x] by (simp add: ascii_def del: length_greater_0_conv)
  qed simp
  have "enumerate 0 hs = enumerate 0 (take 10 hs) @ enumerate 10 (drop 10 hs)"
    using assms enumerate_append_eq [of 0 "take 10 hs" "drop 10 hs"] by simp
  then have "length (concat (map ?f (enumerate 0 hs)))
      = length (concat (map ?f (enumerate 0 (take 10 hs)))) + length (concat (map ?f (enumerate 10 (drop 10 hs))))"
    by (simp only: map_append concat_append length_append)
  moreover have "70 \<le> length (concat (map ?f (enumerate 0 (take 10 hs))))" using few [of "take 10 hs" 0] assms by simp
  moreover have "168 \<le> length (concat (map ?f (enumerate 10 (drop 10 hs))))" using most [of 10 "drop 10 hs"] assms by simp
  ultimately have "238 \<le> length (concat (map ?f (enumerate 0 hs)))" by linarith
  moreover have "2 \<le> length (fmt_d (int (length hs)))" using assms by (intro length_fmt_d(2)) simp
  moreover have "length (wait_log hs) = 20 + length (fmt_d (int (length hs))) + length (concat (map ?f (enumerate 0 hs)))"
    by (simp add: wait_log_def ascii_def)
  ultimately show ?thesis by linarith
qed

text \<open>The numbers of the handles fit, with the longest result of a wait behind them.\<close>

definition log_fits :: "int list \<Rightarrow> bool" where
  "log_fits hs \<longleftrightarrow> length hs > MAXIMUM_WAIT_OBJECTS \<or> length (wait_log hs) \<le> 246"

lemma wait_once_fits:
  assumes "log_fits (map num (htab s))" "i < length (htab s)"
  shows "wait_once num (Some i) s = Inr (Some i)"
proof -
  have "length (fmt_d (int i)) \<le> 2" if "length (htab s) \<le> MAXIMUM_WAIT_OBJECTS"
    using that assms(2) by (intro length_fmt_d(3)) (auto simp: MAXIMUM_WAIT_OBJECTS_def)
  then have "length (wait_result_log (Some i)) \<le> 13" if "length (htab s) \<le> MAXIMUM_WAIT_OBJECTS"
    using that by (simp add: wait_result_log_def ascii_def)
  then show ?thesis using assms
    by (fastforce simp: wait_once_def log_fits_def MAXIMUM_WAIT_OBJECTS_def WIN32_MAX_FHS_def)
qed

text \<open>Wakings of the wait that turn out to be nothing are slept over.\<close>

lemma wait_loop_armed:
  assumes "armed s" and "i < length (hooks s)" and "socket_ready enum (hooks s ! i) \<noteq> 0"
    and fits: "log_fits (map num (htab s))"
    and "\<forall>(j, e)\<in>set vain. j < length (hooks s) \<and> socket_ready e (hooks s ! j) = 0"
  shows "wait_loop num (map (\<lambda>(j, e). (Some j, e)) vain @ (Some i, enum) # ws) s
    = Inr ((upd_hook i (\<lambda>hk. hk\<lparr>ready := socket_ready enum hk\<rparr>) s)\<lparr>wfd := mark_hook (fd_table (wfd s)) (hooks s ! i) (wfd s)\<rparr>)"
  using assms(5)
proof (induction vain)
  case Nil
  have "i < length (htab s)" using assms(1,2) by (simp add: armed_def)
  then show ?case using wait_once_fits [OF fits] find_armed [OF assms(1,2), of enum] assms(3) by simp
next
  case (Cons v vain)
  obtain j e where v: "v = (j, e)" by (cases v)
  have "j < length (htab s)" using assms(1) Cons.prems v by (simp add: armed_def)
  then show ?case using Cons v wait_once_fits [OF fits, of j] find_armed [OF assms(1), of j e] by simp
qed

lemma socket_ready_cong [simp]:
  "socket_ready enum (hk\<lparr>ready := r\<rparr>) = socket_ready enum hk" "socket_ready enum (hk\<lparr>hk_h := h\<rparr>) = socket_ready enum hk"
  by (simp_all add: socket_ready_def split: option.split)

text \<open>The hooks when all sockets have been started, and when the one at \<open>i\<close> has been signalled.\<close>

lemma hooks_after_wait:
  assumes "distinct hs" and "i < length hs"
  shows "map hook_stop ((map (\<lambda>hk. hk\<lparr>ready := 0, hk_h := e hk\<rparr>) hs)[i := (hs ! i)\<lparr>ready := r, hk_h := e (hs ! i)\<rparr>])
    = map (\<lambda>hk. hook_stop (hk\<lparr>ready := (if hk = hs ! i then r else 0), hk_h := e hk\<rparr>)) hs"
proof (rule nth_equalityI)
  fix k
  assume "k < length (map hook_stop ((map (\<lambda>hk. hk\<lparr>ready := 0, hk_h := e hk\<rparr>) hs)[i := (hs ! i)\<lparr>ready := r, hk_h := e (hs ! i)\<rparr>]))"
  then show "map hook_stop ((map (\<lambda>hk. hk\<lparr>ready := 0, hk_h := e hk\<rparr>) hs)[i := (hs ! i)\<lparr>ready := r, hk_h := e (hs ! i)\<rparr>]) ! k
    = map (\<lambda>hk. hook_stop (hk\<lparr>ready := (if hk = hs ! i then r else 0), hk_h := e hk\<rparr>)) hs ! k"
    using assms by (cases "k = i") (auto simp: nth_eq_iff_index_eq)
qed simp

text \<open>The state in which the loop waits.\<close>

lemma sockets_armed:
  assumes ok: "hooks_ok s" and b: "\<forall>hk\<in>set (hooks s). bound_hook (wfd s) (ww s) hk"
    and sock: "\<forall>hk\<in>set (hooks s). hk_class hk = Some Socket_class \<and> event (fhs (ww s) ! hk_fh hk) \<noteq> - 1
        \<and> \<not> select_fails pe (hk_fh hk) \<and> socket_ready (at_prepare pe) hk = 0"
    and ev: "distinct (map (socket_event (ww s)) (hooks s))"
  obtains s1 s2 where "prepare_hooks (at_prepare pe) 0 (length (hooks s)) False s = Inr (False, s1)"
    "start_hooks (select_fails pe) 0 (length (hooks s1)) (s1\<lparr>htab := []\<rparr>) = Inr (True, s2)"
    "armed s2" "hooks s2 = map (\<lambda>hk. hk\<lparr>ready := 0, hk_h := socket_event (ww s) hk\<rparr>) (hooks s)"
    "wfd s2 = wfd s" "same_fhs (ww s) (ww s2)"
proof -
  have "\<forall>hk\<in>set (drop 0 (hooks s)). hook_prepare (at_prepare pe) (hk\<lparr>ready := 0\<rparr>) (ww s) = Inr (hk\<lparr>ready := 0\<rparr>) \<and> bound_hook (wfd s) (ww s) hk"
    using sock b by (simp add: socket_prepare)
  from prepare_hooks_result [OF this, of "length (hooks s)" False] obtain s1 where
    s1: "prepare_hooks (at_prepare pe) 0 (length (hooks s)) False s = Inr (False, s1)" "hooks s1 = map (\<lambda>hk. hk\<lparr>ready := 0\<rparr>) (hooks s)"
      "ww s1 = ww s" "wfd s1 = wfd s" by (auto simp: fold_mark_none)
  let ?s1 = "s1\<lparr>htab := []\<rparr>"
  have evs: "map (socket_event (ww ?s1)) (hooks ?s1) = map (socket_event (ww s)) (hooks s)" by (simp add: s1)
  have "\<exists>s2. start_hooks (select_fails pe) 0 (length (hooks s1)) ?s1 = Inr (True, s2) \<and> wfd s2 = wfd ?s1 \<and> same_fhs (ww ?s1) (ww s2)
    \<and> hooks s2 = take 0 (hooks ?s1) @ map (\<lambda>hk. hk\<lparr>hk_h := socket_event (ww ?s1) hk\<rparr>) (drop 0 (hooks ?s1))
    \<and> htab s2 = htab ?s1 @ map (socket_event (ww ?s1)) (drop 0 (hooks ?s1))"
    by (rule start_sockets) (use sock ev hooks_few [OF ok b] s1 evs in \<open>auto simp: comp_def\<close>)
  then obtain s2 where s2: "start_hooks (select_fails pe) 0 (length (hooks s1)) ?s1 = Inr (True, s2)" "wfd s2 = wfd s"
    "same_fhs (ww s) (ww s2)" "hooks s2 = map (\<lambda>hk. hk\<lparr>ready := 0, hk_h := socket_event (ww s) hk\<rparr>) (hooks s)"
    "htab s2 = map (socket_event (ww s)) (hooks s)" using s1 evs by (auto simp: comp_def)
  have "armed s2"
    using s2 ev b sock by (auto simp: armed_def comp_def bound_hook_def same_fhs_def)
  with s1 s2 show ?thesis by (intro that)
qed

text \<open>C12. Sockets are waited for: when every hook is a socket with an event of its own, nothing is ready, and the
  line with the numbers of the handles that the loop logs before it waits fits its array (it has at most 246 characters, or
  there are more than 64 handles and no line), the loop waits, sleeps over any number of wakings at which the socket in question has nothing it wants, and
  when the socket at \<open>i\<close> has, returns with the objects of exactly that socket and of those found ready at the
  last look pending besides those that were, each with the events its hook wants.\<close>

theorem waiting_socket_signalled:
  assumes ok: "hooks_ok s" and b: "\<forall>hk\<in>set (hooks s). bound_hook (wfd s) (ww s) hk" and p: "pend_inv (wfd s) ps"
    and sock: "\<forall>hk\<in>set (hooks s). hk_class hk = Some Socket_class \<and> event (fhs (ww s) ! hk_fh hk) \<noteq> - 1
        \<and> \<not> select_fails pe (hk_fh hk) \<and> socket_ready (at_prepare pe) hk = 0"
    and ev: "distinct (map (socket_event (ww s)) (hooks s))"
    and fits: "log_fits (map (\<lambda>hk. event (fhs (ww s) ! hk_fh hk)) (hooks s))"
    and i: "i < length (hooks s)" "socket_ready enum (hooks s ! i) \<noteq> 0"
    and ws: "waits pe = map (\<lambda>(j, e). (Some j, e)) vain @ (Some i, enum) # later"
    and vain: "\<forall>(j, e)\<in>set vain. j < length (hooks s) \<and> socket_ready e (hooks s ! j) = 0"
  shows "\<exists>s'. w_fdevent_process pe s = Inr s'
    \<and> signalled s ({hooks s ! i} \<union> {hk \<in> set (hooks s). socket_ready (at_peek pe) hk \<noteq> 0}) ps s'"
proof -
  let ?e = "socket_event (ww s)"
  from ok b sock ev obtain s1 s2 where s1: "prepare_hooks (at_prepare pe) 0 (length (hooks s)) False s = Inr (False, s1)"
    and s2: "start_hooks (select_fails pe) 0 (length (hooks s1)) (s1\<lparr>htab := []\<rparr>) = Inr (True, s2)"
    "armed s2" "hooks s2 = map (\<lambda>hk. hk\<lparr>ready := 0, hk_h := ?e hk\<rparr>) (hooks s)" "wfd s2 = wfd s" "same_fhs (ww s) (ww s2)"
    by (rule sockets_armed)
  define g where "g hk = hook_stop (hk\<lparr>ready := (if hk = hooks s ! i then socket_ready enum (hooks s ! i) else 0), hk_h := ?e hk\<rparr>)" for hk
  have "i < length (hooks s2)" using i by (simp add: s2)
  moreover have "\<forall>(j, e)\<in>set vain. j < length (hooks s2) \<and> socket_ready e (hooks s2 ! j) = 0" using vain by (auto simp: s2)
  moreover have "log_fits (map (handle_number pe) (htab s2))"
    using fits s2(2,3) by (simp add: armed_def comp_def handle_number_def)
  ultimately have
    w: "wait_loop (handle_number pe) (waits pe) s2 = Inr ((upd_hook i (\<lambda>hk. hk\<lparr>ready := socket_ready enum hk\<rparr>) s2)
      \<lparr>wfd := mark_hook (fd_table (wfd s)) (hooks s ! i) (wfd s)\<rparr>)" (is "_ = Inr ?s3")
    using wait_loop_armed [OF s2(2), of i enum "handle_number pe" vain later] i by (simp add: s2 ws)
  define s4 where "s4 = ?s3\<lparr>hooks := map hook_stop (hooks ?s3)\<rparr>"
  have "distinct (hooks s)" using ev by (simp add: distinct_map)
  have e: "hk\<lparr>ready := 0, hk_h := h, ready := r\<rparr> = hk\<lparr>ready := r, hk_h := h\<rparr>" for hk :: hook and h r by simp
  have "hooks s4 = map hook_stop ((map (\<lambda>hk. hk\<lparr>ready := 0, hk_h := ?e hk\<rparr>) (hooks s))
      [i := (hooks s ! i)\<lparr>ready := socket_ready enum (hooks s ! i), hk_h := ?e (hooks s ! i)\<rparr>])"
    using i(1) by (simp add: s4_def upd_hook_def s2 e)
  then have h4: "hooks s4 = map g (hooks s)"
    using hooks_after_wait [OF \<open>distinct (hooks s)\<close> i(1), of ?e "socket_ready enum (hooks s ! i)"] by (simp add: g_def)
  have ne: "htab s2 \<noteq> []" using s2(2,3) i(1) by (auto simp: armed_def)
  have g: "\<forall>hk\<in>set (hooks s). hk_fh (g hk) = hk_fh hk \<and> wanted (g hk) = wanted hk \<and> hk_class (g hk) = hk_class hk"
    by (simp add: g_def hook_stop_def)
  have gr: "ready (g hk) = (if hk = hooks s ! i then socket_ready enum hk else 0)" "socket_ready f (g hk) = socket_ready f hk" for hk f
    by (simp_all add: g_def hook_stop_def)
  let ?pk = "\<lambda>hk. (ready hk OR socket_ready (at_peek pe) hk \<noteq> 0, hk\<lparr>ready := ready hk OR socket_ready (at_peek pe) hk\<rparr>)"
  have "\<exists>s'. peek_hooks (at_peek pe) 0 (length (hooks s4)) s4 = Inr s'
    \<and> signalled s (set [hooks s ! i] \<union> {hk \<in> set (hooks s). fst (?pk (g hk))}) ps s'"
    by (rule peek_signalled [OF ok b p _ _ h4]) (use i g sock s2 socket_peek in \<open>auto simp: s4_def\<close>)
  moreover have "set [hooks s ! i] \<union> {hk \<in> set (hooks s). fst (?pk (g hk))}
      = {hooks s ! i} \<union> {hk \<in> set (hooks s). socket_ready (at_peek pe) hk \<noteq> 0}"
    using i by (auto simp: gr split: if_splits)
  ultimately show ?thesis using s1 s2(1) w ne by (simp add: w_fdevent_process_def wait_for_event_def s4_def)
qed

lemma waiting_socket_signalled_witness:
  "\<exists>s' ps'. w_fdevent_process (penv_quiet\<lparr>waits := [(Some 0, \<lambda>_. None), (Some 0, \<lambda>_. Some (FD_READ, False, False))]\<rparr>) wloop_one = Inr s'
     \<and> pend_inv (wfd s') ps' \<and> set ps' = {2} \<and> events (fdes (wfd s') 2) = 1"
proof -
  let ?pe = "penv_quiet\<lparr>waits := [(Some 0, \<lambda>_. None), (Some 0, \<lambda>_. Some (FD_READ, False, False))]\<rparr>"
  have sock: "\<forall>hk\<in>set (hooks wloop_one). hk_class hk = Some Socket_class \<and> event (fhs (ww wloop_one) ! hk_fh hk) \<noteq> - 1
      \<and> \<not> select_fails ?pe (hk_fh hk) \<and> socket_ready (at_prepare ?pe) hk = 0"
    by (simp add: wloop_one_def fh_socket_def penv_quiet_def socket_ready_def)
  have ev: "distinct (map (socket_event (ww wloop_one)) (hooks wloop_one))" by (simp add: one_hooks)
  have rdy: "socket_ready (\<lambda>_. Some (FD_READ, False, False)) (hooks wloop_one ! 0) \<noteq> 0"
    by (simp add: one_hooks socket_ready_def socket_bits_def event_hook_alloc_def event_socket_verify_def Let_def FDE_READ_def FDE_WRITE_def
        FDE_ERROR_def FD_READ_def FD_WRITE_def FD_OOB_def FD_CLOSE_def FD_ACCEPT_def FD_CONNECT_def has_def)
  have v0: "\<forall>(j, e)\<in>set [(0, \<lambda>_. None)]. j < length (hooks wloop_one) \<and> socket_ready e (hooks wloop_one ! j) = 0"
    by (simp add: one_hooks socket_ready_def)
  have lf: "log_fits (map (\<lambda>hk. event (fhs (ww wloop_one) ! hk_fh hk)) (hooks wloop_one))"
    by (simp add: one_hooks wloop_one_def fh_socket_def log_fits_def wait_log_def fmt_d_def decimal.simps ascii_def event_hook_alloc_def)
  obtain s' where s': "w_fdevent_process ?pe wloop_one = Inr s'" "signalled wloop_one (set (hooks wloop_one)) [] s'"
    using waiting_socket_signalled [OF one_ok sock ev lf _ rdy _ v0, of "[]"] by (auto simp: one_hooks penv_quiet_def socket_ready_def)
  moreover have "fd_table (wfd wloop_one) ! 0 = 2" "events (fdes (wfd wloop_one) 2) = 0" by (simp_all add: wloop_one_def fdst_one_def)
  ultimately show ?thesis by (auto simp: signalled_def one_hooks FDE_READ_def)
qed

text \<open>Waiting overruns the log: under the same conditions, with 31 to 64 sockets, \<open>fdevent_process\<close> never comes to the
  wait: the line with the numbers of the handles does not fit the array of 260 characters on its stack, whatever the
  numbers of the events are.\<close>

theorem many_sockets_overrun_log:
  assumes ok: "hooks_ok s" and b: "\<forall>hk\<in>set (hooks s). bound_hook (wfd s) (ww s) hk"
    and sock: "\<forall>hk\<in>set (hooks s). hk_class hk = Some Socket_class \<and> event (fhs (ww s) ! hk_fh hk) \<noteq> - 1
        \<and> \<not> select_fails pe (hk_fh hk) \<and> socket_ready (at_prepare pe) hk = 0"
    and ev: "distinct (map (socket_event (ww s)) (hooks s))"
    and n: "31 \<le> length (hooks s)" "length (hooks s) \<le> MAXIMUM_WAIT_OBJECTS"
  shows "w_fdevent_process pe s = Inl Log_overrun"
proof -
  from ok b sock ev obtain s1 s2 where s1: "prepare_hooks (at_prepare pe) 0 (length (hooks s)) False s = Inr (False, s1)"
    and s2: "start_hooks (select_fails pe) 0 (length (hooks s1)) (s1\<lparr>htab := []\<rparr>) = Inr (True, s2)"
    "armed s2" "hooks s2 = map (\<lambda>hk. hk\<lparr>ready := 0, hk_h := socket_event (ww s) hk\<rparr>) (hooks s)"
    by (rule sockets_armed)
  have l: "length (htab s2) = length (hooks s)" using s2(2,3) by (simp add: armed_def)
  then have "260 \<le> length (wait_log (map (handle_number pe) (htab s2)))" using n(1) by (intro wait_log_long) simp
  then have "wait_loop (handle_number pe) (waits pe) s2 = Inl Log_overrun"
    using l n(2) by (cases "waits pe") (auto simp: wait_once_def)
  moreover have "htab s2 \<noteq> []" using l n(1) by auto
  ultimately show ?thesis using s1 s2(1) by (simp add: w_fdevent_process_def wait_for_event_def)
qed

text \<open>Forty sockets that nothing happens to.\<close>

definition wloop_many :: wloop where
  "wloop_many = \<lparr>hooks = map (\<lambda>i. \<lparr>hk_fh = i, hk_h = NoHandle, wanted = FDE_READ, ready = 0, hk_class = Some Socket_class\<rparr>) [0..<40],
     htab = [], wfd = fdst_one\<lparr>fdes := (\<lambda>a. \<lparr>fde_fd = int a + 98, force_eof = False, state = FDE_ACTIVE OR FDE_READ, events = 0,
         func = local_socket_event_func, fde_arg = a\<rparr>), fd_table := [2..<258]\<rparr>,
     ww = \<lparr>fhs = map (\<lambda>i. fh_socket\<lparr>event := 1000 + int i\<rparr>) [0..<128], fh_count = 40, pairs = (\<lambda>_. None), freed = []\<rparr>\<rparr>"

lemma many_sockets_overrun_log_witness: "w_fdevent_process penv_quiet wloop_many = Inl Log_overrun"
proof (rule many_sockets_overrun_log)
  show "hooks_ok wloop_many"
    by (auto simp: hooks_ok_def hook_view_def wloop_many_def FDE_READ_def comp_def simp del: upt_rec_numeral)
  show "\<forall>hk\<in>set (hooks wloop_many). bound_hook (wfd wloop_many) (ww wloop_many) hk"
    by (auto simp: wloop_many_def bound_hook_def WIN32_MAX_FHS_def WIN32_FH_BASE_def fh_socket_def list_pending_def simp del: upt_rec_numeral)
  show "\<forall>hk\<in>set (hooks wloop_many). hk_class hk = Some Socket_class \<and> event (fhs (ww wloop_many) ! hk_fh hk) \<noteq> - 1
      \<and> \<not> select_fails penv_quiet (hk_fh hk) \<and> socket_ready (at_prepare penv_quiet) hk = 0"
    by (auto simp: wloop_many_def penv_quiet_def socket_ready_def simp del: upt_rec_numeral)
  have "map (socket_event (ww wloop_many)) (hooks wloop_many) = map (\<lambda>i. Handle (1000 + int i)) [0..<40]"
    by (auto simp: wloop_many_def simp del: upt_rec_numeral)
  then show "distinct (map (socket_event (ww wloop_many)) (hooks wloop_many))"
    by (simp add: distinct_map inj_on_def del: upt_rec_numeral)
qed (simp_all add: wloop_many_def del: upt_rec_numeral add: MAXIMUM_WAIT_OBJECTS_def)

end
