(* ===== verification/Usb.thy ===== *)
theory Usb
  imports Packet DList
begin

text \<open>
  The USB back end of this build: \<open>adb/usb_windows.cpp\<close> over the calls of \<open>adb_api.cpp\<close>, and the USB side of
  \<open>adb/transport_usb.cpp\<close>.  A device is opened under one fixed name; one system handle serves as the
  interface and as both pipes.  The poll thread looks for the device every second, its transport reads,
  writes, kicks and closes it.  What \<open>ReadFile\<close> and \<open>WriteFile\<close> answer is a script; both fail on a handle
  that is not open.
\<close>

section \<open>State\<close>

text \<open>Null handles are 0; the name is \<open>None\<close> when the pointer is null.\<close>

record usb_handle =
  adb_interface :: int
  adb_read_pipe :: int
  adb_write_pipe :: int
  interface_name :: "byte list option"
  zero_mask :: u32

text \<open>
  \<open>u_live\<close>: the handles by address, \<open>u_list\<close>: the pointers of the ring of \<open>handle_list\<close>, \<open>openh\<close>: the open
  system handles, \<open>closes\<close>: the calls of \<open>CloseHandle\<close>, \<open>rd_script\<close>: whether \<open>ReadFile\<close> succeeds, its bytes,
  and whether the error is \<open>ERROR_INVALID_HANDLE\<close>, \<open>wr_script\<close>: the same for \<open>WriteFile\<close> with the number of
  bytes, \<open>transfers\<close>: what has been written, \<open>heap_spill\<close>: how many bytes have been written beyond a block of
  the heap, \<open>announced\<close>: the calls of \<open>register_usb_transport\<close>.
\<close>

record usb_state =
  u_live :: "nat \<Rightarrow> usb_handle option"
  u_list :: links
  g_ADBHANDLE :: int
  openh :: "int set"
  closes :: "int list"
  rd_script :: "(bool \<times> byte list \<times> bool) list"
  wr_script :: "(bool \<times> nat \<times> bool) list"
  transfers :: "byte list list"
  heap_spill :: nat
  announced :: "(nat \<times> byte list) list"

text \<open>A call that does not return, a write beyond an array of the stack, the use of a freed handle.\<close>

datatype usb_stop = Blocked | Array_overrun | Freed_handle

definition handle_list :: nat where "handle_list = 1"

section \<open>The calls of adb\_api.cpp\<close>

definition custom_interface :: "byte list" where
  "custom_interface = ascii ''custom interface''"

text \<open>\<open>cf\<close> is the result of \<open>CreateFile\<close>, -1 for a failure.\<close>

definition AdbCreateInterfaceByName :: "int \<Rightarrow> usb_state \<Rightarrow> int \<times> usb_state" where
  "AdbCreateInterfaceByName cf s =
     (let g = (if cf = 0 \<or> cf = - 1 then 0 else cf)
      in (g, s\<lparr>g_ADBHANDLE := g, openh := (if g = 0 then openh s else insert g (openh s))\<rparr>))"

definition AdbCloseHandle :: "int \<Rightarrow> usb_state \<Rightarrow> usb_state" where
  "AdbCloseHandle h s = s\<lparr>openh := openh s - {h}, closes := closes s @ [h]\<rparr>"

text \<open>The length of the name does not count its end.\<close>

definition name_len :: nat where "name_len = length custom_interface"

definition AdbGetSerialNumber :: "usb_state \<Rightarrow> byte list \<Rightarrow> byte list" where
  "AdbGetSerialNumber s buf = (if g_ADBHANDLE s \<noteq> 0 then ascii ''1234567890'' else buf)"

text \<open>The bytes that are read are copied to \<open>wLog\<close> and printed to \<open>wLog1\<close> behind a word, arrays of 1024.\<close>

definition log_overruns :: "bool \<Rightarrow> byte list \<Rightarrow> bool" where
  "log_overruns ok bs \<longleftrightarrow> length bs \<ge> 1024
     \<or> length (ascii (if ok then ''read sucess -- '' else ''read -- '')) + length (takeWhile (\<lambda>b. b \<noteq> 0) bs) \<ge> 1024"

definition AdbReadEndpointSync :: "int \<Rightarrow> nat \<Rightarrow> usb_state \<Rightarrow> usb_stop + (bool \<times> byte list \<times> bool \<times> usb_state)" where
  "AdbReadEndpointSync h n s =
     (if h \<notin> openh s then Inr (False, [], True, s)
      else case rd_script s of
        [] \<Rightarrow> Inl Blocked
      | (ok, bs, gone) # evs \<Rightarrow>
          if log_overruns ok (take n bs) then Inl Array_overrun
          else Inr (ok, take n bs, gone, s\<lparr>rd_script := evs\<rparr>))"

definition AdbWriteEndpointSync :: "int \<Rightarrow> byte list \<Rightarrow> usb_state \<Rightarrow> usb_stop + (bool \<times> nat \<times> bool \<times> usb_state)" where
  "AdbWriteEndpointSync h data s =
     (if h \<notin> openh s then Inr (False, 0, True, s)
      else case wr_script s of
        [] \<Rightarrow> Inl Blocked
      | (ok, n, gone) # evs \<Rightarrow> let n = min n (length data) in
          Inr (ok, n, gone, s\<lparr>wr_script := evs, transfers := (if ok then transfers s @ [take n data] else transfers s)\<rparr>))"

section \<open>The list of handles\<close>

definition lower :: "byte \<Rightarrow> byte" where
  "lower c = (if 65 \<le> c \<and> c \<le> 90 then c + 32 else c)"

definition same_name :: "byte list \<Rightarrow> byte list \<Rightarrow> bool" where
  "same_name x y \<longleftrightarrow> map lower x = map lower y"

definition names_it :: "byte list \<Rightarrow> usb_handle \<Rightarrow> bool" where
  "names_it dev h = (case interface_name h of None \<Rightarrow> False | Some n \<Rightarrow> same_name n dev)"

text \<open>The walk from the handle \<open>p\<close> on; it does not return from a list that is not a ring.\<close>

partial_function (option) known_from :: "byte list \<Rightarrow> nat \<Rightarrow> usb_state \<Rightarrow> (usb_stop + bool) option" where
  "known_from dev p s =
     (if p = handle_list then Some (Inr False)
      else case u_live s p of
        None \<Rightarrow> Some (Inl Freed_handle)
      | Some h \<Rightarrow> if names_it dev h then Some (Inr True) else known_from dev (nxt (u_list s) p) s)"

definition known_device_locked :: "byte list \<Rightarrow> usb_state \<Rightarrow> usb_stop + bool" where
  "known_device_locked dev s = (case known_from dev (nxt (u_list s) handle_list) s of None \<Rightarrow> Inl Blocked | Some r \<Rightarrow> r)"

text \<open>A handle without a name is known to nobody.\<close>

definition known_device :: "byte list option \<Rightarrow> usb_state \<Rightarrow> usb_stop + bool" where
  "known_device dev s = (case dev of None \<Rightarrow> Inr False | Some d \<Rightarrow> known_device_locked d s)"

definition register_new_device :: "nat \<Rightarrow> usb_state \<Rightarrow> usb_stop + (bool \<times> usb_state)" where
  "register_new_device p s =
     (if p = 0 then Inr (False, s)
      else case u_live s p of
        None \<Rightarrow> Inl Freed_handle
      | Some h \<Rightarrow> sbind (known_device (interface_name h) s) (\<lambda>known.
          Inr (if known then (False, s) else (True, s\<lparr>u_list := dl_enqueue handle_list p (u_list s)\<rparr>))))"

section \<open>Closing\<close>

text \<open>The write pipe, the read pipe and the interface are closed, as far as they are not null.\<close>

definition close_pipe :: "int \<Rightarrow> usb_state \<Rightarrow> usb_state" where
  "close_pipe h s = (if h \<noteq> 0 then AdbCloseHandle h s else s)"

definition usb_cleanup_handle :: "nat \<Rightarrow> usb_state \<Rightarrow> usb_stop + usb_state" where
  "usb_cleanup_handle p s =
     (if p = 0 then Inr s
      else case u_live s p of
        None \<Rightarrow> Inl Freed_handle
      | Some h \<Rightarrow>
          let s = close_pipe (adb_interface h) (close_pipe (adb_read_pipe h) (close_pipe (adb_write_pipe h) s))
          in Inr (s\<lparr>u_live := (u_live s)(p \<mapsto> h\<lparr>interface_name := None, adb_write_pipe := 0, adb_read_pipe := 0,
               adb_interface := 0\<rparr>)\<rparr>))"

definition usb_kick :: "nat \<Rightarrow> usb_state \<Rightarrow> usb_stop + usb_state" where
  "usb_kick p s = (if p \<noteq> 0 then usb_cleanup_handle p s else Inr s)"

definition usb_free :: "nat \<Rightarrow> usb_state \<Rightarrow> usb_state" where
  "usb_free p s = s\<lparr>u_live := (u_live s)(p := None)\<rparr>"

text \<open>\<open>handle->next->prev = handle->prev; handle->prev->next = handle->next;\<close> then the links point at itself.\<close>

definition usb_unlink :: "nat \<Rightarrow> links \<Rightarrow> links" where
  "usb_unlink p l =
     (let l1 = l\<lparr>prv := (prv l)(nxt l p := prv l p)\<rparr>;
          l2 = l1\<lparr>nxt := (nxt l1)(prv l1 p := nxt l1 p)\<rparr>
      in l2\<lparr>nxt := (nxt l2)(p := p), prv := (prv l2)(p := p)\<rparr>)"

definition usb_close :: "nat \<Rightarrow> usb_state \<Rightarrow> usb_stop + usb_state" where
  "usb_close p s =
     (if p = 0 then Inr s
      else if u_live s p = None then Inl Freed_handle
      else let l = u_list s;
               s = (if nxt l p \<noteq> p \<and> prv l p \<noteq> p then s\<lparr>u_list := usb_unlink p l\<rparr> else s)
           in sbind (usb_cleanup_handle p s) (\<lambda>s. Inr (usb_free p s)))"

section \<open>Opening\<close>

text \<open>\<open>new\<close> is the address of the handle, 0 when there is no memory, \<open>junk\<close> what was there before: nobody sets
  \<open>zero_mask\<close>.  \<open>mem\<close>: whether there is memory for the name, whose end is written beyond its block.\<close>

definition do_usb_open :: "nat \<Rightarrow> usb_handle \<Rightarrow> bool \<Rightarrow> int \<Rightarrow> usb_state \<Rightarrow> usb_stop + (nat \<times> usb_state)" where
  "do_usb_open new junk mem cf s =
     (if new = 0 then Inr (0, s)
      else let l = u_list s;
               s = s\<lparr>u_list := l\<lparr>nxt := (nxt l)(new := new), prv := (prv l)(new := new)\<rparr>\<rparr>
           in case AdbCreateInterfaceByName cf s of (g, s) \<Rightarrow>
             if g = 0 then Inr (0, s)
             else let h = junk\<lparr>adb_interface := g, adb_read_pipe := g, adb_write_pipe := g,
                            interface_name := (if mem then Some custom_interface else None)\<rparr>;
                      s = s\<lparr>u_live := (u_live s)(new \<mapsto> h)\<rparr>
                  in if mem then Inr (new, s\<lparr>heap_spill := heap_spill s + (length (custom_interface @ [0]) - name_len)\<rparr>)
                     else sbind (usb_cleanup_handle new s) (\<lambda>s. Inr (0, usb_free new s)))"

definition recognized_device :: "nat \<Rightarrow> bool" where
  "recognized_device p = True"

definition find_devices :: "nat \<Rightarrow> usb_handle \<Rightarrow> bool \<Rightarrow> int \<Rightarrow> byte list \<Rightarrow> usb_state \<Rightarrow> usb_stop + usb_state" where
  "find_devices new junk mem cf buf s = sbind (known_device (Some custom_interface) s) (\<lambda>known.
     if known then Inr s
     else sbind (do_usb_open new junk mem cf s) (\<lambda>(p, s).
       if p = 0 then Inr s
       else if recognized_device p then
         let serial = AdbGetSerialNumber s buf in
         sbind (register_new_device p s) (\<lambda>(new, s).
           if new then Inr (s\<lparr>announced := announced s @ [(p, cstr serial)]\<rparr>)
           else sbind (usb_cleanup_handle p s) (\<lambda>s. Inr (usb_free p s)))
       else sbind (usb_cleanup_handle p s) (\<lambda>s. Inr (usb_free p s))))"

section \<open>Reading and writing\<close>

lemma read_endpoint_script:
  "AdbReadEndpointSync h n s = Inr (ok, bs, gone, s') \<Longrightarrow> ok \<Longrightarrow> length (rd_script s') < length (rd_script s)"
  by (auto simp: AdbReadEndpointSync_def split: if_splits list.splits)

text \<open>The bytes so far, when the handle is to be kicked or the transfers are over: 0 or -1.\<close>

function usb_read_loop :: "nat \<Rightarrow> nat \<Rightarrow> byte list \<Rightarrow> usb_state \<Rightarrow> usb_stop + (int \<times> byte list \<times> usb_state)" where
  "usb_read_loop p n acc s =
     (if n = 0 then Inr (- 1, acc, s)
      else case u_live s p of
        None \<Rightarrow> Inl Freed_handle
      | Some h \<Rightarrow> (case AdbReadEndpointSync (adb_read_pipe h) (min 4096 n) s of
          Inl e \<Rightarrow> Inl e
        | Inr (ok, bs, gone, s1) \<Rightarrow>
            if ok then
              (if n = length bs then Inr (0, acc @ bs, s1) else usb_read_loop p (n - length bs) (acc @ bs) s1)
            else (case (if gone then usb_kick p s1 else Inr s1) of
              Inl e \<Rightarrow> Inl e
            | Inr s2 \<Rightarrow> Inr (- 1, acc, s2))))"
  by pat_completeness auto
termination
  by (relation "measure (\<lambda>(p, n, acc, s). length (rd_script s))") (auto dest: read_endpoint_script)

declare usb_read_loop.simps [simp del]

definition usb_read :: "nat \<Rightarrow> nat \<Rightarrow> usb_state \<Rightarrow> usb_stop + (int \<times> byte list \<times> usb_state)" where
  "usb_read p n s = (if p \<noteq> 0 then usb_read_loop p n [] s else Inr (- 1, [], s))"

definition usb_write :: "nat \<Rightarrow> byte list \<Rightarrow> usb_state \<Rightarrow> usb_stop + (int \<times> usb_state)" where
  "usb_write p data s =
     (if p = 0 then Inr (- 1, s)
      else case u_live s p of
        None \<Rightarrow> Inl Freed_handle
      | Some h \<Rightarrow> sbind (AdbWriteEndpointSync (adb_write_pipe h) data s) (\<lambda>(ok, written, gone, s).
          if ok then
            if written = length data then
              if zero_mask h \<noteq> 0 \<and> word_of_nat (length data) AND zero_mask h = 0
              then sbind (AdbWriteEndpointSync (adb_write_pipe h) [] s) (\<lambda>(_, _, _, s). Inr (0, s))
              else Inr (0, s)
            else Inr (- 1, s)
          else sbind (if gone then usb_kick p s else Inr s) (\<lambda>s. Inr (- 1, s))))"

section \<open>Transfers under way\<close>

text \<open>
  \<open>ReadFile\<close> and \<open>WriteFile\<close> take their time, and the other threads run meanwhile.  The points of a call of \<open>usb_read\<close>:
  before it takes the pipe out of the handle, with the bytes that are still wanted and those it has, and while \<open>ReadFile\<close>
  runs; and of \<open>usb_write\<close>, where a second, empty transfer may follow.  An answer is the success, the bytes that were
  read, the number that were written, and whether the error is \<open>ERROR_INVALID_HANDLE\<close>.  The definitions above are the
  case in which nothing comes between.
\<close>

datatype usb_op =
    Read_turn nat nat "byte list"
  | Read_under nat nat "byte list"
  | Write_turn nat "byte list"
  | Write_under nat "byte list"
  | Zero_under nat

type_synonym usb_answer = "bool \<times> byte list \<times> nat \<times> bool"

datatype op_next = Returns int "byte list" | Goes_on usb_op

definition op_failed :: "nat \<Rightarrow> bool \<Rightarrow> byte list \<Rightarrow> usb_state \<Rightarrow> usb_stop + (op_next \<times> usb_state)" where
  "op_failed p gone acc s = sbind (if gone then usb_kick p s else Inr s) (\<lambda>s. Inr (Returns (- 1) acc, s))"

fun usb_op_step :: "usb_answer \<Rightarrow> usb_op \<Rightarrow> usb_state \<Rightarrow> usb_stop + (op_next \<times> usb_state)" where
  "usb_op_step ans (Read_turn p n acc) s =
     (if n = 0 then Inr (Returns (- 1) acc, s)
      else if u_live s p = None then Inl Freed_handle else Inr (Goes_on (Read_under p n acc), s))"
| "usb_op_step (ok, bs, m, gone) (Read_under p n acc) s = (let bs = take (min 4096 n) bs in
     if log_overruns ok bs then Inl Array_overrun
     else if ok then Inr (if n = length bs then Returns 0 (acc @ bs) else Goes_on (Read_turn p (n - length bs) (acc @ bs)), s)
     else op_failed p gone acc s)"
| "usb_op_step ans (Write_turn p data) s =
     (if u_live s p = None then Inl Freed_handle else Inr (Goes_on (Write_under p data), s))"
| "usb_op_step (ok, bs, m, gone) (Write_under p data) s = (let m = min m (length data) in
     if ok then
       let s = s\<lparr>transfers := transfers s @ [take m data]\<rparr> in
       if m = length data then
         (case u_live s p of
            None \<Rightarrow> Inl Freed_handle
          | Some h \<Rightarrow> Inr (if zero_mask h \<noteq> 0 \<and> word_of_nat (length data) AND zero_mask h = 0
                         then Goes_on (Zero_under p) else Returns 0 [], s))
       else Inr (Returns (- 1) [], s)
     else op_failed p gone [] s)"
| "usb_op_step (ok, bs, m, gone) (Zero_under p) s =
     Inr (Returns 0 [], if ok then s\<lparr>transfers := transfers s @ [[]]\<rparr> else s)"

fun op_handle :: "usb_op \<Rightarrow> nat" where
  "op_handle (Read_turn p n acc) = p"
| "op_handle (Read_under p n acc) = p"
| "op_handle (Write_turn p data) = p"
| "op_handle (Write_under p data) = p"
| "op_handle (Zero_under p) = p"

section \<open>The transport\<close>

text \<open>\<open>remote_read\<close> and \<open>remote_write\<close> of \<open>adb/transport_usb.cpp\<close>: the header and the payload are transfers of
  their own.  \<open>None\<close> stands for -1.\<close>

definition usb_remote_read :: "bool \<Rightarrow> nat \<Rightarrow> apacket \<Rightarrow> usb_state \<Rightarrow> usb_stop + (apacket option \<times> usb_state)" where
  "usb_remote_read big u p s = sbind (usb_read u 24 s) (\<lambda>(r, hdr, s).
     if r \<noteq> 0 then Inr (None, s)
     else let p = p\<lparr>pk_msg := fix_endians big (mem_load big hdr)\<rparr> in
       if check_header p \<noteq> 0 then Inr (None, s)
       else sbind (if data_length (pk_msg p) \<noteq> 0 then usb_read u (unat (data_length (pk_msg p))) s else Inr (0, [], s)) (\<lambda>(r, bs, s).
         if r \<noteq> 0 then Inr (None, s)
         else let p = p\<lparr>pk_data := bs @ drop (length bs) (pk_data p)\<rparr> in
           Inr (if check_data p = Some 0 then Some p else None, s)))"

definition usb_remote_write :: "bool \<Rightarrow> nat \<Rightarrow> apacket \<Rightarrow> usb_state \<Rightarrow> usb_stop + (int \<times> usb_state)" where
  "usb_remote_write big u p s = (let size = unat (data_length (pk_msg p)) in
     sbind (usb_write u (mem_image big (fix_endians big (pk_msg p))) s) (\<lambda>(r, s).
       if r \<noteq> 0 then Inr (- 1, s)
       else if data_length (fix_endians big (pk_msg p)) = 0 then Inr (0, s)
       else sbind (usb_write u (take size (pk_data p)) s) (\<lambda>(r, s). Inr (if r \<noteq> 0 then - 1 else 0, s))))"

end
