(* ===== verification/UsbProps.thy ===== *)
theory UsbProps
  imports Usb
begin

text \<open>
  Properties of the USB back end: the handles stay well formed and at most one of them can be used,
  whatever the poll thread and the transports do; a small packet is received as it was sent, and a large
  one runs over the arrays of the log.
\<close>

section \<open>The list\<close>

lemma known_from_seg:
  assumes "seg (u_list s) a ps handle_list" and "\<forall>p\<in>set ps. p \<noteq> handle_list \<and> u_live s p \<noteq> None"
  shows "known_from dev (nxt (u_list s) a) s = Some (Inr (\<exists>p\<in>set ps. names_it dev (the (u_live s p))))"
  using assms
proof (induction ps arbitrary: a)
  case Nil
  then show ?case by (simp add: known_from.simps)
next
  case (Cons p ps)
  then obtain h where h: "u_live s p = Some h" by auto
  have n: "nxt (u_list s) a = p" "p \<noteq> handle_list" using Cons.prems by auto
  show ?case
  proof (cases "names_it dev h")
    case True
    then show ?thesis using n h by (simp add: known_from.simps [of dev p])
  next
    case False
    then have "known_from dev (nxt (u_list s) a) s = known_from dev (nxt (u_list s) p) s"
      using n h by (simp add: known_from.simps [of dev p])
    also have "\<dots> = Some (Inr (\<exists>p\<in>set ps. names_it dev (the (u_live s p))))"
      by (rule Cons.IH) (use Cons.prems in auto)
    finally show ?thesis using False h by simp
  qed
qed

lemma known_ring:
  assumes "ring (u_list s) handle_list ps" and "\<forall>p\<in>set ps. u_live s p \<noteq> None"
  shows "known_device_locked dev s = Inr (\<exists>p\<in>set ps. names_it dev (the (u_live s p)))"
proof -
  have "seg (u_list s) handle_list ps handle_list" "\<forall>p\<in>set ps. p \<noteq> handle_list \<and> u_live s p \<noteq> None"
    using assms by (auto simp: ring_def)
  from known_from_seg [OF this] show ?thesis by (simp add: known_device_locked_def)
qed

text \<open>Unlinking, with its two halves in the other order, is \<open>dl_remove\<close> up to the links of the node itself.\<close>

lemma ring_not_self:
  assumes "ring l h (xs @ n # ys)"
  shows "prv l n \<noteq> n" "nxt l n \<noteq> n"
proof -
  have "seg l h xs n" "seg l n ys h" and d: "distinct (h # xs @ n # ys)"
    using assms by (auto simp: ring_def seg_append)
  then have "prv l n = last (h # xs)" "nxt l n = hd (ys @ [h])" using seg_last seg_hd by metis+
  moreover have "last (h # xs) \<in> set (h # xs)" "hd (ys @ [h]) \<in> set (ys @ [h])"
    using last_in_set hd_in_set by blast+
  ultimately show "prv l n \<noteq> n" "nxt l n \<noteq> n" using d by auto
qed

lemma ring_unlink:
  assumes r: "ring l h (xs @ n # ys)"
  shows "ring (usb_unlink n l) h (xs @ ys)"
proof -
  note nb = ring_not_self [OF r]
  let ?r = "dl_remove n l"
  have "usb_unlink n l = ?r\<lparr>nxt := (nxt ?r)(n := n), prv := (prv ?r)(n := n)\<rparr>"
    using nb by (auto simp: usb_unlink_def dl_remove_def Let_def fun_eq_iff)
  moreover have "n \<notin> set (h # xs @ ys)" using r by (auto simp: ring_def)
  ultimately show ?thesis using ring_frame [OF ring_remove [OF r]] by simp
qed

section \<open>Well-formed handles\<close>

text \<open>A handle is spent when it has been kicked, and usable before.\<close>

definition spent :: "usb_handle \<Rightarrow> bool" where
  "spent h \<longleftrightarrow> adb_interface h = 0 \<and> adb_read_pipe h = 0 \<and> adb_write_pipe h = 0 \<and> interface_name h = None"

definition usable :: "usb_state \<Rightarrow> usb_handle \<Rightarrow> bool" where
  "usable s h \<longleftrightarrow> adb_interface h \<noteq> 0 \<and> adb_read_pipe h = adb_interface h \<and> adb_write_pipe h = adb_interface h
     \<and> adb_interface h \<in> openh s \<and> interface_name h = Some custom_interface"

definition usb_wf :: "usb_state \<Rightarrow> nat list \<Rightarrow> bool" where
  "usb_wf s ps \<longleftrightarrow> ring (u_list s) handle_list ps \<and> set ps = dom (u_live s) \<and> 0 \<notin> openh s
     \<and> (\<forall>p h. u_live s p = Some h \<longrightarrow> spent h \<or> usable s h)
     \<and> (\<forall>p q h k. u_live s p = Some h \<longrightarrow> u_live s q = Some k \<longrightarrow> usable s h \<longrightarrow> usable s k \<longrightarrow> p = q)"

lemma usb_wf_cong:
  assumes "usb_wf s ps" and "u_live s' = u_live s" "u_list s' = u_list s" "openh s' = openh s"
  shows "usb_wf s' ps"
proof -
  have "usable s' = usable s" by (simp add: usable_def assms(4) fun_eq_iff)
  then show ?thesis using assms by (simp add: usb_wf_def)
qed

lemma spent_unusable: "spent h \<Longrightarrow> \<not> usable s h"
  by (simp add: spent_def usable_def)

text \<open>What cleaning up does.\<close>

lemma cleanup_effect:
  assumes "u_live s p = Some h" and "p \<noteq> 0"
  obtains s' where "usb_cleanup_handle p s = Inr s'"
    "u_live s' = (u_live s)(p \<mapsto> h\<lparr>interface_name := None, adb_write_pipe := 0, adb_read_pipe := 0, adb_interface := 0\<rparr>)"
    "u_list s' = u_list s" "openh s' = openh s - {x \<in> {adb_interface h, adb_read_pipe h, adb_write_pipe h}. x \<noteq> 0}"
    "closes s' = closes s @ filter (\<lambda>x. x \<noteq> 0) [adb_write_pipe h, adb_read_pipe h, adb_interface h]"
    "rd_script s' = rd_script s" "wr_script s' = wr_script s"
proof -
  have f: "u_live (close_pipe x t) = u_live t" "u_list (close_pipe x t) = u_list t" "rd_script (close_pipe x t) = rd_script t"
    "wr_script (close_pipe x t) = wr_script t" "openh (close_pipe x t) = openh t - {y \<in> {x}. y \<noteq> 0}"
    "closes (close_pipe x t) = closes t @ filter (\<lambda>y. y \<noteq> 0) [x]" for x t
    by (auto simp: close_pipe_def AdbCloseHandle_def)
  show thesis
    by (rule that) (use assms in \<open>simp add: usb_cleanup_handle_def Let_def\<close>, simp_all add: f, blast)
qed

lemma cleanup_wf:
  assumes wf: "usb_wf s ps" and p: "u_live s p = Some h" and p0: "p \<noteq> 0"
  obtains s' where "usb_cleanup_handle p s = Inr s'" "usb_wf s' ps" "u_list s' = u_list s" "dom (u_live s') = dom (u_live s)"
proof -
  obtain s' where s': "usb_cleanup_handle p s = Inr s'"
    "u_live s' = (u_live s)(p \<mapsto> h\<lparr>interface_name := None, adb_write_pipe := 0, adb_read_pipe := 0, adb_interface := 0\<rparr>)"
    "u_list s' = u_list s" "openh s' = openh s - {x \<in> {adb_interface h, adb_read_pipe h, adb_write_pipe h}. x \<noteq> 0}"
    by (rule cleanup_effect [OF p p0])
  have less: "usable s k" if "usable s' k" for k using that by (auto simp: usable_def s'(4))
  have keep: "usable s' k" if "usable s k" "u_live s q = Some k" "q \<noteq> p" for q k
  proof (cases "usable s h")
    case True
    with that wf p show ?thesis by (auto simp: usb_wf_def)
  next
    case False
    then have "spent h" using wf p by (auto simp: usb_wf_def)
    then show ?thesis using that by (auto simp: usable_def spent_def s'(4))
  qed
  have new: "spent k" if "u_live s' p = Some k" for k using that by (auto simp: s'(2) spent_def)
  have d: "dom (u_live s') = dom (u_live s)" using p by (auto simp: s'(2))
  have "usb_wf s' ps"
    unfolding usb_wf_def
  proof (intro conjI allI impI)
    show "ring (u_list s') handle_list ps" "set ps = dom (u_live s')" "0 \<notin> openh s'"
      using wf s'(3,4) d by (auto simp: usb_wf_def)
  next
    fix q k assume "u_live s' q = Some k"
    then show "spent k \<or> usable s' k"
    proof (cases "q = p")
      case True
      then show ?thesis using new \<open>u_live s' q = Some k\<close> by simp
    next
      case False
      then have q: "u_live s q = Some k" using \<open>u_live s' q = Some k\<close> by (simp add: s'(2))
      then have "spent k \<or> usable s k" using wf by (simp add: usb_wf_def)
      then show ?thesis using keep [OF _ q False] by blast
    qed
  next
    fix q r k m assume a: "u_live s' q = Some k" "u_live s' r = Some m" "usable s' k" "usable s' m"
    then have "q \<noteq> p" "r \<noteq> p" using new spent_unusable by blast+
    then show "q = r" using a less wf s'(2) by (simp add: usb_wf_def)
  qed
  with s' d show thesis by (intro that)
qed

text \<open>Kicking, closing and looking for the device.\<close>

lemma kick_wf:
  assumes "usb_wf s ps" and "u_live s p \<noteq> None"
  obtains s' where "usb_kick p s = Inr s'" "usb_wf s' ps" "dom (u_live s') = dom (u_live s)"
proof (cases "p = 0")
  case True
  then show ?thesis using assms(1) by (intro that [of s]) (simp_all add: usb_kick_def)
next
  case False
  from assms(2) obtain h where "u_live s p = Some h" by auto
  then show ?thesis using that by (rule cleanup_wf [OF assms(1) _ False]) (simp add: usb_kick_def False)
qed

lemma live_nonzero: "usb_wf s ps \<Longrightarrow> u_live s p \<noteq> None \<Longrightarrow> p \<noteq> 0 \<and> p \<in> set ps"
  by (auto simp: usb_wf_def ring_def)

lemma close_wf:
  assumes wf: "usb_wf s ps" and p: "u_live s p \<noteq> None"
  obtains s' where "usb_close p s = Inr s'" "usb_wf s' (remove1 p ps)" "dom (u_live s') = dom (u_live s) - {p}"
proof -
  have p0: "p \<noteq> 0" "p \<in> set ps" using live_nonzero [OF wf p] by simp_all
  then obtain xs ys where ps: "ps = xs @ p # ys" "p \<notin> set xs" by (meson split_list_first)
  have r: "ring (u_list s) handle_list (xs @ p # ys)" using wf ps by (simp add: usb_wf_def)
  have nb: "nxt (u_list s) p \<noteq> p \<and> prv (u_list s) p \<noteq> p" using ring_not_self [OF r] by simp
  obtain h where h: "u_live s p = Some h" using p by auto
  obtain s1 where s1: "usb_cleanup_handle p s = Inr s1" "usb_wf s1 ps" "u_list s1 = u_list s" "dom (u_live s1) = dom (u_live s)"
    by (rule cleanup_wf [OF wf h p0(1)])
  let ?l = "usb_unlink p (u_list s)"
  have swap: "usb_cleanup_handle p (s\<lparr>u_list := ?l\<rparr>) = Inr (s1\<lparr>u_list := ?l\<rparr>)"
    using s1(1) h p0 by (auto simp: usb_cleanup_handle_def Let_def close_pipe_def AdbCloseHandle_def)
  let ?s = "usb_free p (s1\<lparr>u_list := ?l\<rparr>)"
  have "usb_close p s = Inr ?s" using p0 p nb swap by (simp add: usb_close_def Let_def)
  moreover have "usb_wf ?s (remove1 p ps)"
  proof -
    have "ring ?l handle_list (xs @ ys)" by (rule ring_unlink [OF r])
    moreover have "p \<notin> set (xs @ ys)" using r by (auto simp: ring_def)
    moreover have "usable ?s k = usable s1 k" for k by (simp add: usable_def usb_free_def)
    ultimately show ?thesis using s1(2) ps by (auto simp: usb_wf_def usb_free_def remove1_append)
  qed
  moreover have "dom (u_live ?s) = dom (u_live s) - {p}" using s1(4) by (auto simp: usb_free_def)
  ultimately show thesis by (rule that)
qed

lemma find_devices_wf:
  assumes wf: "usb_wf s ps" and new: "new = 0 \<or> u_live s new = None \<and> new \<noteq> handle_list" and cf: "cf \<notin> openh s"
  shows "\<exists>s' ps'. find_devices new junk mem cf buf s = Inr s' \<and> usb_wf s' ps'"
proof -
  have r: "ring (u_list s) handle_list ps" and live: "\<forall>p\<in>set ps. u_live s p \<noteq> None"
    using wf by (auto simp: usb_wf_def)
  note kd = known_ring [OF r live]
  show ?thesis
  proof (cases "\<exists>p\<in>set ps. names_it custom_interface (the (u_live s p))")
    case True
    then show ?thesis using wf kd by (auto simp: find_devices_def known_device_def)
  next
    case unknown: False
    then have sp: "spent h" if "u_live s p = Some h" for p h
      using that wf by (force simp: usb_wf_def usable_def names_it_def same_name_def)
    show ?thesis
    proof (cases "new = 0 \<or> cf = 0 \<or> cf = - 1")
      case True
      show ?thesis
      proof (cases "new = 0")
        case True
        then show ?thesis using wf kd unknown by (auto simp: find_devices_def known_device_def do_usb_open_def)
      next
        case n0: False
        with new have n: "new \<notin> set (handle_list # ps)" using live by auto
        let ?s = "s\<lparr>u_list := (u_list s)\<lparr>nxt := (nxt (u_list s))(new := new), prv := (prv (u_list s))(new := new)\<rparr>, g_ADBHANDLE := 0\<rparr>"
        have "usb_wf ?s ps" using wf ring_frame [OF r n, of new new] by (simp add: usb_wf_def usable_def)
        moreover have "find_devices new junk mem cf buf s = Inr ?s"
          using True n0 kd unknown
          by (auto simp: find_devices_def known_device_def do_usb_open_def AdbCreateInterfaceByName_def Let_def)
        ultimately show ?thesis by blast
      qed
    next
      case nz: False
      then have n: "new \<notin> set (handle_list # ps)" "new \<noteq> 0" and c: "cf \<noteq> 0" "cf \<noteq> - 1" using new live by auto
      let ?l = "(u_list s)\<lparr>nxt := (nxt (u_list s))(new := new), prv := (prv (u_list s))(new := new)\<rparr>"
      define h where "h = junk\<lparr>adb_interface := cf, adb_read_pipe := cf, adb_write_pipe := cf,
        interface_name := (if mem then Some custom_interface else None)\<rparr>"
      define s1 where "s1 = s\<lparr>u_list := ?l, g_ADBHANDLE := cf, openh := insert cf (openh s), u_live := (u_live s)(new \<mapsto> h)\<rparr>"
      have rl: "ring ?l handle_list ps" by (rule ring_frame [OF r n(1)])
      have h1: "u_live s1 new = Some h" by (simp add: s1_def)
      show ?thesis
      proof (cases mem)
        case False
        obtain s2 where s2: "usb_cleanup_handle new s1 = Inr s2"
          "u_live s2 = (u_live s1)(new \<mapsto> h\<lparr>interface_name := None, adb_write_pipe := 0, adb_read_pipe := 0, adb_interface := 0\<rparr>)"
          "u_list s2 = u_list s1" "openh s2 = openh s1 - {x \<in> {adb_interface h, adb_read_pipe h, adb_write_pipe h}. x \<noteq> 0}"
          by (rule cleanup_effect [OF h1 n(2)])
        have o: "openh (usb_free new s2) = openh s" using c cf by (auto simp: s2(4) s1_def h_def usb_free_def)
        have "u_live s new = None" using new n by simp
        then have "u_live (usb_free new s2) = u_live s" by (simp add: usb_free_def s2(2) s1_def fun_eq_iff)
        moreover have "u_list (usb_free new s2) = ?l" by (simp add: usb_free_def s2(3) s1_def)
        ultimately have "usb_wf (usb_free new s2) ps" using wf rl o by (simp add: usb_wf_def usable_def)
        moreover have "find_devices new junk mem cf buf s = Inr (usb_free new s2)"
          using False kd unknown s2(1) n(2) c
          by (simp add: find_devices_def known_device_def do_usb_open_def AdbCreateInterfaceByName_def Let_def s1_def h_def)
        ultimately show ?thesis by blast
      next
        case True
        define s2 where "s2 = s1\<lparr>heap_spill := heap_spill s1 + (length (custom_interface @ [0]) - name_len)\<rparr>"
        have r2: "ring (u_list s2) handle_list ps" and live2: "\<forall>p\<in>set ps. u_live s2 p \<noteq> None"
          using rl live by (auto simp: s2_def s1_def)
        have "\<not> (\<exists>p\<in>set ps. names_it custom_interface (the (u_live s2 p)))" using unknown n(1) by (auto simp: s2_def s1_def)
        then have k2: "known_device_locked custom_interface s2 = Inr False" using known_ring [OF r2 live2] by simp
        define s3 where "s3 = s2\<lparr>u_list := dl_enqueue handle_list new (u_list s2), announced := announced s2 @ [(new, cstr (AdbGetSerialNumber s2 buf))]\<rparr>"
        have "do_usb_open new junk mem cf s = Inr (new, s2)"
          using True n(2) c by (simp add: do_usb_open_def AdbCreateInterfaceByName_def Let_def s2_def s1_def h_def)
        moreover have "register_new_device new s2 = Inr (True, s2\<lparr>u_list := dl_enqueue handle_list new (u_list s2)\<rparr>)"
          using k2 h1 n(2) True by (simp add: register_new_device_def known_device_def s2_def h_def)
        ultimately have "find_devices new junk mem cf buf s = Inr s3"
          using kd unknown n(2) by (simp add: find_devices_def known_device_def recognized_device_def s3_def)
        moreover have "usb_wf s3 (ps @ [new])"
          unfolding usb_wf_def
        proof (intro conjI allI impI)
          show "ring (u_list s3) handle_list (ps @ [new])" using ring_enqueue [OF r2 n] by (simp add: s3_def)
          show "set (ps @ [new]) = dom (u_live s3)" using wf by (auto simp: s3_def s2_def s1_def usb_wf_def)
          show "0 \<notin> openh s3" using wf c by (simp add: s3_def s2_def s1_def usb_wf_def)
        next
          fix p k assume "u_live s3 p = Some k"
          then show "spent k \<or> usable s3 k"
            using sp True c by (cases "p = new") (auto simp: s3_def s2_def s1_def h_def usable_def)
        next
          fix p q k m assume "u_live s3 p = Some k" "u_live s3 q = Some m" "usable s3 k" "usable s3 m"
          then show "p = q" using sp spent_unusable
            by (cases "p = new"; cases "q = new") (force simp: s3_def s2_def s1_def)+
        qed
        ultimately show ?thesis by blast
      qed
    qed
  qed
qed

text \<open>The steps of a transfer change the handles only by kicking theirs, and meet no freed handle while it is there.\<close>

lemma op_failed_wf:
  assumes "usb_wf s ps" "u_live s p \<noteq> None"
  obtains s' where "op_failed p gone acc s = Inr (Returns (- 1) acc, s')" "usb_wf s' ps" "dom (u_live s') = dom (u_live s)"
proof (cases gone)
  case True
  obtain s' where "usb_kick p s = Inr s'" "usb_wf s' ps" "dom (u_live s') = dom (u_live s)" by (rule kick_wf [OF assms])
  with True show ?thesis by (intro that [of s']) (simp_all add: op_failed_def)
next
  case False
  with assms(1) show ?thesis by (intro that [of s]) (simp_all add: op_failed_def)
qed

lemma transfers_wf: "usb_wf s ps \<Longrightarrow> usb_wf (s\<lparr>transfers := ts\<rparr>) ps"
  by (rule usb_wf_cong) simp_all

lemma op_step_wf:
  assumes wf: "usb_wf s ps" and live: "u_live s (op_handle op) \<noteq> None"
  shows "case usb_op_step ans op s of
      Inl e \<Rightarrow> e = Array_overrun \<and> (\<exists>p n acc. op = Read_under p n acc)
    | Inr (nx, s') \<Rightarrow> usb_wf s' ps \<and> dom (u_live s') = dom (u_live s)
        \<and> (\<forall>op'. nx = Goes_on op' \<longrightarrow> op_handle op' = op_handle op)"
proof -
  obtain ok bs m gone where ans: "ans = (ok, bs, m, gone)" by (cases ans) auto
  obtain h where h: "u_live s (op_handle op) = Some h" using live by auto
  have failed: "\<exists>s'. op_failed (op_handle op) gone acc s = Inr (Returns (- 1) acc, s') \<and> usb_wf s' ps \<and> dom (u_live s') = dom (u_live s)" for acc
    by (rule op_failed_wf [OF wf live, of gone acc]) blast
  show ?thesis
  proof (cases op)
    case (Read_turn p n acc)
    then show ?thesis using wf h by (simp add: ans)
  next
    case (Read_under p n acc)
    obtain s' where "op_failed p gone acc s = Inr (Returns (- 1) acc, s')" "usb_wf s' ps" "dom (u_live s') = dom (u_live s)"
      using failed [of acc] Read_under by auto
    then show ?thesis using wf Read_under by (simp add: ans Let_def)
  next
    case (Write_turn p data)
    then show ?thesis using wf h by (simp add: ans)
  next
    case (Write_under p data)
    obtain s' where "op_failed p gone [] s = Inr (Returns (- 1) [], s')" "usb_wf s' ps" "dom (u_live s') = dom (u_live s)"
      using failed [of "[]"] Write_under by auto
    then show ?thesis using wf h transfers_wf [OF wf] Write_under by (simp add: ans Let_def)
  next
    case (Zero_under p)
    then show ?thesis using wf transfers_wf [OF wf] by (simp add: ans)
  qed
qed

text \<open>Without anything between them the steps are \<open>usb_read\<close> and \<open>usb_write\<close>: the answers come from the scripts.\<close>

definition read_answer :: "nat \<Rightarrow> usb_state \<Rightarrow> (usb_answer \<times> usb_state) option" where
  "read_answer p s =
     (if adb_read_pipe (the (u_live s p)) \<notin> openh s then Some ((False, [], 0, True), s)
      else case rd_script s of [] \<Rightarrow> None | (ok, bs, gone) # evs \<Rightarrow> Some ((ok, bs, 0, gone), s\<lparr>rd_script := evs\<rparr>))"

lemma usb_read_loop_steps:
  assumes "u_live s p \<noteq> None" "0 < n"
  shows "usb_read_loop p n acc s = (case read_answer p s of None \<Rightarrow> Inl Blocked
    | Some (ans, s1) \<Rightarrow> sbind (usb_op_step ans (Read_under p n acc) s1) (\<lambda>(nx, s2). case nx of
        Returns r bs \<Rightarrow> Inr (r, bs, s2)
      | Goes_on op \<Rightarrow> (case op of Read_turn p n acc \<Rightarrow> usb_read_loop p n acc s2 | _ \<Rightarrow> Inl Blocked)))"
proof -
  have e: "\<not> log_overruns False []" by (simp add: log_overruns_def ascii_def)
  from assms show ?thesis
    by (auto simp: usb_read_loop.simps [of p n] read_answer_def AdbReadEndpointSync_def Let_def op_failed_def e
        split: list.splits sum.splits)
qed

definition write_answer :: "nat \<Rightarrow> usb_state \<Rightarrow> (usb_answer \<times> usb_state) option" where
  "write_answer p s =
     (if adb_write_pipe (the (u_live s p)) \<notin> openh s then Some ((False, [], 0, True), s)
      else case wr_script s of [] \<Rightarrow> None | (ok, m, gone) # evs \<Rightarrow> Some ((ok, [], m, gone), s\<lparr>wr_script := evs\<rparr>))"

lemma usb_write_steps:
  assumes "u_live s p \<noteq> None" "p \<noteq> 0"
  shows "usb_write p data s = (case write_answer p s of None \<Rightarrow> Inl Blocked
    | Some (ans, s1) \<Rightarrow> sbind (usb_op_step ans (Write_under p data) s1) (\<lambda>(nx, s2). case nx of
        Returns r _ \<Rightarrow> Inr (r, s2)
      | Goes_on op \<Rightarrow> (case write_answer p s2 of None \<Rightarrow> Inl Blocked
          | Some (ans, s3) \<Rightarrow> sbind (usb_op_step ans op s3) (\<lambda>(nx, s4). case nx of
              Returns r _ \<Rightarrow> Inr (r, s4) | Goes_on _ \<Rightarrow> Inl Blocked))))"
  using assms
proof -
  have f: "sbind (op_failed p gone [] t) g = sbind (if gone then usb_kick p t else Inr t) (\<lambda>t. g (Returns (- 1) [], t))" for gone t
    and g :: "op_next \<times> usb_state \<Rightarrow> usb_stop + (int \<times> usb_state)"
    by (auto simp: op_failed_def sbind_def split: sum.splits)
  from assms show ?thesis
    by (auto simp: usb_write_def write_answer_def AdbWriteEndpointSync_def Let_def f min_def
        split: list.splits sum.splits)
qed

section \<open>Reachable states\<close>

text \<open>Steps of the poll thread and of the transports, with the transfers that are under way.  \<open>CreateFile\<close> gives a handle
  that is not open, \<open>malloc\<close> an address that is not in use.  A transfer goes one point further, with any answer (also of a
  handle that has been closed meanwhile); a handle is kicked at any time, and closed when no transfer on it is under
  way: the transport closes it when its threads have ended.  Looking for the device, kicking and closing are one step
  each.\<close>

type_synonym usb_conf = "usb_state \<times> usb_op list"

inductive usb_step :: "usb_conf \<Rightarrow> usb_conf \<Rightarrow> bool" where
  Polls: "new = 0 \<or> u_live s new = None \<and> new \<noteq> handle_list \<Longrightarrow> cf \<notin> openh s
    \<Longrightarrow> find_devices new junk mem cf buf s = Inr s' \<Longrightarrow> usb_step (s, ops) (s', ops)"
| Reads: "u_live s p \<noteq> None \<Longrightarrow> usb_step (s, ops) (s, Read_turn p n [] # ops)"
| Writes: "u_live s p \<noteq> None \<Longrightarrow> usb_step (s, ops) (s, Write_turn p data # ops)"
| Goes: "usb_op_step ans op s = Inr (Goes_on op', s') \<Longrightarrow> usb_step (s, xs @ op # ys) (s', xs @ op' # ys)"
| Ends: "usb_op_step ans op s = Inr (Returns r bs, s') \<Longrightarrow> usb_step (s, xs @ op # ys) (s', xs @ ys)"
| Kicks: "u_live s p \<noteq> None \<Longrightarrow> usb_kick p s = Inr s' \<Longrightarrow> usb_step (s, ops) (s', ops)"
| Closes: "u_live s p \<noteq> None \<Longrightarrow> p \<notin> op_handle ` set ops \<Longrightarrow> usb_close p s = Inr s' \<Longrightarrow> usb_step (s, ops) (s', ops)"

definition usb_start :: "(bool \<times> byte list \<times> bool) list \<Rightarrow> (bool \<times> nat \<times> bool) list \<Rightarrow> usb_state" where
  "usb_start rs ws = \<lparr>u_live = (\<lambda>_. None), u_list = \<lparr>nxt = (\<lambda>_. 0)(handle_list := handle_list), prv = (\<lambda>_. 0)(handle_list := handle_list)\<rparr>,
     g_ADBHANDLE = 0, openh = {}, closes = [], rd_script = rs, wr_script = ws, transfers = [], heap_spill = 0, announced = []\<rparr>"

inductive usb_reach :: "usb_conf \<Rightarrow> bool" where
  Start: "usb_reach (usb_start rs ws, [])"
| Step: "usb_reach c \<Longrightarrow> usb_step c c' \<Longrightarrow> usb_reach c'"

definition conf_wf :: "usb_conf \<Rightarrow> nat list \<Rightarrow> bool" where
  "conf_wf c ps \<longleftrightarrow> usb_wf (fst c) ps \<and> op_handle ` set (snd c) \<subseteq> dom (u_live (fst c))"

lemma find_devices_live:
  assumes "find_devices new junk mem cf buf s = Inr s'" and "new = 0 \<or> u_live s new = None"
  shows "dom (u_live s) \<subseteq> dom (u_live s')"
  using assms
  by (auto simp: find_devices_def do_usb_open_def AdbCreateInterfaceByName_def register_new_device_def usb_cleanup_handle_def
      close_pipe_def AdbCloseHandle_def usb_free_def recognized_device_def Let_def sbind_Inr_iff split: if_splits)

lemma usb_step_wf: "usb_step c c' \<Longrightarrow> conf_wf c ps \<Longrightarrow> \<exists>ps'. conf_wf c' ps'"
proof (induction rule: usb_step.induct)
  case (Polls new s cf junk mem buf s' ops)
  then have wf: "usb_wf s ps" by (simp add: conf_wf_def)
  from find_devices_wf [OF wf Polls(1,2), of junk mem buf] Polls(3) obtain ps' where ps': "usb_wf s' ps'" by auto
  have "dom (u_live s) \<subseteq> dom (u_live s')" by (rule find_devices_live [OF Polls(3)]) (use Polls(1) in auto)
  moreover have "op_handle ` set ops \<subseteq> dom (u_live s)" using Polls(4) by (simp add: conf_wf_def)
  ultimately have "op_handle ` set ops \<subseteq> dom (u_live s')" by (rule subset_trans [rotated])
  with ps' show ?case by (intro exI [of _ ps']) (simp add: conf_wf_def)
next
  case (Goes ans op s op' s' xs ys)
  then have "usb_wf s ps" "u_live s (op_handle op) \<noteq> None" by (auto simp: conf_wf_def)
  from op_step_wf [OF this, of ans] Goes show ?case by (auto simp: conf_wf_def)
next
  case (Ends ans op s r bs s' xs ys)
  then have "usb_wf s ps" "u_live s (op_handle op) \<noteq> None" by (auto simp: conf_wf_def)
  from op_step_wf [OF this, of ans] Ends show ?case by (auto simp: conf_wf_def)
next
  case (Kicks s p s' ops)
  then have wf: "usb_wf s ps" by (simp add: conf_wf_def)
  obtain t where "usb_kick p s = Inr t" "usb_wf t ps" "dom (u_live t) = dom (u_live s)" by (rule kick_wf [OF wf Kicks(1)])
  then show ?case using Kicks by (auto simp: conf_wf_def)
next
  case (Closes s p ops s')
  then have wf: "usb_wf s ps" by (simp add: conf_wf_def)
  obtain t where "usb_close p s = Inr t" "usb_wf t (remove1 p ps)" "dom (u_live t) = dom (u_live s) - {p}"
    by (rule close_wf [OF wf Closes(1)])
  moreover have "op_handle ` set ops \<subseteq> dom (u_live s) - {p}" using Closes(2,4) by (auto simp: conf_wf_def)
  ultimately show ?case using Closes(3) by (auto simp: conf_wf_def)
next
  case (Reads s p ops n)
  then have "conf_wf (s, Read_turn p n [] # ops) ps" by (auto simp: conf_wf_def)
  then show ?case ..
next
  case (Writes s p ops data)
  then have "conf_wf (s, Write_turn p data # ops) ps" by (auto simp: conf_wf_def)
  then show ?case ..
qed

lemma usb_reach_wf: "usb_reach c \<Longrightarrow> \<exists>ps. conf_wf c ps"
proof (induction rule: usb_reach.induct)
  case (Start rs ws)
  have "usb_wf (usb_start rs ws) []" by (simp add: usb_wf_def usb_start_def ring_def handle_list_def)
  then show ?case by (auto simp: conf_wf_def)
next
  case (Step c c')
  then show ?case using usb_step_wf by blast
qed

text \<open>C14. The handles are well formed, whatever the poll thread and the transports have done, with kicks while transfers
  are under way and closes when none is: the list is a ring of the handles that are there; each is either usable,
  with the one system handle it was opened with, or spent; and at most one is usable.  A call that looks for the device
  returns, also with no memory and with no device; so do a kick of a handle and a close of one without transfers.
  Every transfer under way is on a handle that is there: its next step, whatever the answer, uses no freed handle and
  fails only where the answer to a read overruns the arrays of the log.\<close>

theorem usb_handles_well_formed:
  assumes "usb_reach (s, ops)"
  shows "(\<exists>ps. ring (u_list s) handle_list ps \<and> set ps = dom (u_live s))
    \<and> (\<forall>p h. u_live s p = Some h \<longrightarrow> spent h \<or> usable s h)
    \<and> (\<forall>p q h k. u_live s p = Some h \<longrightarrow> u_live s q = Some k \<longrightarrow> usable s h \<longrightarrow> usable s k \<longrightarrow> p = q)
    \<and> (\<forall>new junk mem cf buf. (new = 0 \<or> u_live s new = None \<and> new \<noteq> handle_list) \<longrightarrow> cf \<notin> openh s
         \<longrightarrow> (\<exists>s'. find_devices new junk mem cf buf s = Inr s'))
    \<and> (\<forall>p. u_live s p \<noteq> None \<longrightarrow> (\<exists>s'. usb_kick p s = Inr s')
         \<and> (p \<notin> op_handle ` set ops \<longrightarrow> (\<exists>s'. usb_close p s = Inr s')))
    \<and> (\<forall>op ans e. op \<in> set ops \<longrightarrow> u_live s (op_handle op) \<noteq> None
         \<and> (usb_op_step ans op s = Inl e \<longrightarrow> e = Array_overrun \<and> (\<exists>p n acc. op = Read_under p n acc)))"
proof -
  obtain ps where wf: "usb_wf s ps" and live: "op_handle ` set ops \<subseteq> dom (u_live s)"
    using usb_reach_wf [OF assms] by (auto simp: conf_wf_def)
  have op: "u_live s (op_handle op) \<noteq> None" if "op \<in> set ops" for op using live that by auto
  have st: "e = Array_overrun \<and> (\<exists>p n acc. op = Read_under p n acc)" if "op \<in> set ops" "usb_op_step ans op s = Inl e" for op ans e
    using op_step_wf [OF wf op [OF that(1)], of ans] that(2) by simp
  have kc: "\<exists>s'. usb_kick p s = Inr s'" "\<exists>s'. usb_close p s = Inr s'" if "u_live s p \<noteq> None" for p
    by (rule kick_wf [OF wf that], blast) (rule close_wf [OF wf that], blast)
  have fd: "\<exists>s'. find_devices new junk mem cf buf s = Inr s'"
    if "new = 0 \<or> u_live s new = None \<and> new \<noteq> handle_list" "cf \<notin> openh s" for new junk mem cf buf
    using find_devices_wf [OF wf that] by blast
  show ?thesis
  proof (intro conjI)
    show "\<exists>ps. ring (u_list s) handle_list ps \<and> set ps = dom (u_live s)"
      "\<forall>p h. u_live s p = Some h \<longrightarrow> spent h \<or> usable s h"
      "\<forall>p q h k. u_live s p = Some h \<longrightarrow> u_live s q = Some k \<longrightarrow> usable s h \<longrightarrow> usable s k \<longrightarrow> p = q"
      using wf by (auto simp: usb_wf_def)
  next
    show "\<forall>new junk mem cf buf. (new = 0 \<or> u_live s new = None \<and> new \<noteq> handle_list) \<longrightarrow> cf \<notin> openh s
         \<longrightarrow> (\<exists>s'. find_devices new junk mem cf buf s = Inr s')"
      by (intro allI impI fd)
  next
    show "\<forall>p. u_live s p \<noteq> None \<longrightarrow> (\<exists>s'. usb_kick p s = Inr s')
         \<and> (p \<notin> op_handle ` set ops \<longrightarrow> (\<exists>s'. usb_close p s = Inr s'))"
      by (intro allI impI conjI kc)
  next
    show "\<forall>op ans e. op \<in> set ops \<longrightarrow> u_live s (op_handle op) \<noteq> None
         \<and> (usb_op_step ans op s = Inl e \<longrightarrow> e = Array_overrun \<and> (\<exists>p n acc. op = Read_under p n acc))"
      by (intro allI impI conjI op st)
  qed
qed

text \<open>A device is found: the state in which it is open.\<close>

definition usb_junk :: usb_handle where
  "usb_junk = \<lparr>adb_interface = 9, adb_read_pipe = 8, adb_write_pipe = 7, interface_name = None, zero_mask = 63\<rparr>"

definition usb_one :: "(bool \<times> byte list \<times> bool) list \<Rightarrow> (bool \<times> nat \<times> bool) list \<Rightarrow> usb_state" where
  "usb_one rs ws = (usb_start rs ws)\<lparr>u_live := [2 \<mapsto> \<lparr>adb_interface = 5, adb_read_pipe = 5, adb_write_pipe = 5,
      interface_name = Some custom_interface, zero_mask = 63\<rparr>],
    u_list := dl_enqueue handle_list 2 \<lparr>nxt = (\<lambda>_. 0)(handle_list := handle_list, 2 := 2), prv = (\<lambda>_. 0)(handle_list := handle_list, 2 := 2)\<rparr>,
    g_ADBHANDLE := 5, openh := {5}, heap_spill := 1, announced := [(2, ascii ''1234567890'')]\<rparr>"

lemma usb_one_found: "find_devices 2 usb_junk True 5 [] (usb_start rs ws) = Inr (usb_one rs ws)"
proof -
  have k: "known_device_locked custom_interface s = Inr False" if "nxt (u_list s) handle_list = handle_list" for s
    using that by (simp add: known_device_locked_def known_from.simps)
  let ?h = "\<lparr>adb_interface = 5, adb_read_pipe = 5, adb_write_pipe = 5, interface_name = Some custom_interface, zero_mask = 63\<rparr>"
  let ?s = "(usb_start rs ws)\<lparr>u_list := \<lparr>nxt = (\<lambda>_. 0)(handle_list := handle_list, 2 := 2), prv = (\<lambda>_. 0)(handle_list := handle_list, 2 := 2)\<rparr>,
    g_ADBHANDLE := 5, openh := {5}, u_live := [2 \<mapsto> ?h], heap_spill := 1\<rparr>"
  have o: "do_usb_open 2 usb_junk True 5 (usb_start rs ws) = Inr (2, ?s)"
    by (simp add: do_usb_open_def AdbCreateInterfaceByName_def usb_start_def usb_junk_def name_len_def)
  have r: "register_new_device 2 ?s = Inr (True, ?s\<lparr>u_list := dl_enqueue handle_list 2 (u_list ?s)\<rparr>)"
    by (simp add: register_new_device_def known_device_def k handle_list_def [symmetric])
  have c: "cstr (AdbGetSerialNumber ?s []) = ascii ''1234567890''" by (simp add: AdbGetSerialNumber_def cstr_def ascii_def)
  have "known_device (Some custom_interface) (usb_start rs ws) = Inr False" by (simp add: known_device_def k usb_start_def)
  then show ?thesis
    unfolding find_devices_def recognized_device_def using o r c by (simp add: usb_one_def usb_start_def)
qed

text \<open>A read is under way when the handle is kicked.\<close>

lemma usb_handles_well_formed_witness:
  "\<exists>s. usb_reach (s, [Read_under 2 24 []]) \<and> spent (the (u_live s 2)) \<and> u_live s 2 \<noteq> None"
proof -
  have "usb_step (usb_start [] [], []) (usb_one [] [], [])"
    by (rule usb_step.Polls [OF _ _ usb_one_found]) (simp_all add: usb_start_def handle_list_def)
  then have "usb_reach (usb_one [] [], [])" by (rule usb_reach.Step [OF usb_reach.Start])
  moreover have l: "u_live (usb_one [] []) 2 \<noteq> None" by (simp add: usb_one_def)
  ultimately have "usb_reach (usb_one [] [], [Read_turn 2 24 []])" by (rule usb_reach.Step [OF _ usb_step.Reads])
  moreover have "usb_step (usb_one [] [], [] @ Read_turn 2 24 [] # []) (usb_one [] [], [] @ Read_under 2 24 [] # [])"
    by (rule usb_step.Goes) (use l in simp)
  ultimately have r: "usb_reach (usb_one [] [], [Read_under 2 24 []])" using usb_reach.Step by (metis append_Nil)
  let ?h = "the (u_live (usb_one [] []) 2)"
  obtain s where s: "usb_kick 2 (usb_one [] []) = Inr s"
    "u_live s = (u_live (usb_one [] []))(2 \<mapsto> ?h\<lparr>interface_name := None, adb_write_pipe := 0, adb_read_pipe := 0, adb_interface := 0\<rparr>)"
    by (rule cleanup_effect [of "usb_one [] []" 2 ?h]) (use l in \<open>auto simp: usb_kick_def\<close>)
  have r2: "usb_reach (s, [Read_under 2 24 []])" by (rule usb_reach.Step [OF r usb_step.Kicks [OF l s(1)]])
  have "\<forall>p h. u_live s p = Some h \<longrightarrow> spent h \<or> usable s h"
    by (rule conjunct1 [OF conjunct2 [OF usb_handles_well_formed [OF r2]]])
  moreover have l2: "\<not> usable s (the (u_live s 2))" "u_live s 2 = Some (the (u_live s 2))" by (simp_all add: s(2) usable_def)
  ultimately have "spent (the (u_live s 2))" by blast
  then show ?thesis using r2 l2(2) by (intro exI [of _ s]) auto
qed

section \<open>One system handle for three fields\<close>

text \<open>Kicking a usable handle closes one system handle three times: the write pipe, the read pipe and the
  interface are the same, and each of them is given to \<open>CloseHandle\<close>.\<close>

theorem kick_closes_thrice:
  assumes "u_live s p = Some h" and "usable s h" and "p \<noteq> 0"
  shows "\<exists>s'. usb_kick p s = Inr s' \<and> closes s' = closes s @ [adb_interface h, adb_interface h, adb_interface h]
    \<and> openh s' = openh s - {adb_interface h} \<and> (\<exists>k. u_live s' p = Some k \<and> spent k)"
proof -
  obtain s' where s': "usb_cleanup_handle p s = Inr s'"
    "u_live s' = (u_live s)(p \<mapsto> h\<lparr>interface_name := None, adb_write_pipe := 0, adb_read_pipe := 0, adb_interface := 0\<rparr>)"
    "openh s' = openh s - {x \<in> {adb_interface h, adb_read_pipe h, adb_write_pipe h}. x \<noteq> 0}"
    "closes s' = closes s @ filter (\<lambda>x. x \<noteq> 0) [adb_write_pipe h, adb_read_pipe h, adb_interface h]"
    by (rule cleanup_effect [OF assms(1,3)])
  have "{x \<in> {adb_interface h, adb_read_pipe h, adb_write_pipe h}. x \<noteq> 0} = {adb_interface h}" using assms(2) by (auto simp: usable_def)
  then show ?thesis using s' assms(2,3) by (intro exI [of _ s']) (simp add: usb_kick_def usable_def spent_def)
qed

lemma kick_closes_thrice_witness:
  "\<exists>s'. usb_kick 2 (usb_one [] []) = Inr s' \<and> closes s' = [5, 5, 5]"
proof -
  let ?h = "\<lparr>adb_interface = 5, adb_read_pipe = 5, adb_write_pipe = 5, interface_name = Some custom_interface, zero_mask = 63\<rparr>"
  have "u_live (usb_one [] []) 2 = Some ?h" "usable (usb_one [] []) ?h" "closes (usb_one [] []) = []"
    by (simp_all add: usb_one_def usable_def usb_start_def)
  then show ?thesis using kick_closes_thrice [of "usb_one [] []" 2 ?h] by auto
qed

section \<open>Packets\<close>

text \<open>The transfers of one call of \<open>usb_write\<close>, the second one empty.\<close>

definition zero_transfer :: "usb_handle \<Rightarrow> byte list \<Rightarrow> byte list list" where
  "zero_transfer h data = (if zero_mask h \<noteq> 0 \<and> word_of_nat (length data) AND zero_mask h = 0 then [[]] else [])"

definition accepts :: "usb_state \<Rightarrow> nat \<Rightarrow> bool" where
  "accepts s k \<longleftrightarrow> k \<le> length (wr_script s) \<and> (\<forall>(ok, n, gone)\<in>set (wr_script s). ok \<and> 4096 \<le> n)"

lemma write_endpoint:
  assumes "h \<in> openh s" and "accepts s (Suc k)" and "length data \<le> 4096"
  obtains gone s' where "AdbWriteEndpointSync h data s = Inr (True, length data, gone, s')" "accepts s' k"
    "transfers s' = transfers s @ [data]" "u_live s' = u_live s" "openh s' = openh s"
proof -
  from assms(2) obtain ok n gone evs where w: "wr_script s = (ok, n, gone) # evs" by (cases "wr_script s") (auto simp: accepts_def)
  have "ok" "4096 \<le> n" using assms(2) w by (auto simp: accepts_def)
  then show thesis using assms w
    by (intro that [of gone "s\<lparr>wr_script := evs, transfers := transfers s @ [data]\<rparr>"])
      (auto simp: AdbWriteEndpointSync_def accepts_def Let_def min_def)
qed

lemma accepts_less: "accepts s k \<Longrightarrow> j \<le> k \<Longrightarrow> accepts s j"
  by (auto simp: accepts_def)

lemma usb_write_all:
  assumes h: "u_live s u = Some h" "adb_write_pipe h \<in> openh s" "u \<noteq> 0" and a: "accepts s (Suc (Suc k))" and l: "length data \<le> 4096"
  obtains s' where "usb_write u data s = Inr (0, s')" "accepts s' k" "transfers s' = transfers s @ data # zero_transfer h data"
    "u_live s' = u_live s" "openh s' = openh s"
proof -
  obtain g1 s1 where s1: "AdbWriteEndpointSync (adb_write_pipe h) data s = Inr (True, length data, g1, s1)" "accepts s1 (Suc k)"
    "transfers s1 = transfers s @ [data]" "u_live s1 = u_live s" "openh s1 = openh s"
    by (rule write_endpoint [OF h(2) a l])
  show thesis
  proof (cases "zero_mask h \<noteq> 0 \<and> word_of_nat (length data) AND zero_mask h = 0")
    case True
    obtain g2 s2 where s2: "AdbWriteEndpointSync (adb_write_pipe h) [] s1 = Inr (True, length ([] :: byte list), g2, s2)" "accepts s2 k"
      "transfers s2 = transfers s1 @ [[]]" "u_live s2 = u_live s1" "openh s2 = openh s1"
      by (rule write_endpoint [of "adb_write_pipe h" s1 k "[]"]) (use h s1 in auto)
    then show thesis using h s1 True by (intro that [of s2]) (auto simp: usb_write_def zero_transfer_def)
  next
    case False
    then show thesis using h s1 accepts_less [OF s1(2), of k]
      by (intro that [of s1]) (auto simp: usb_write_def zero_transfer_def)
  qed
qed

text \<open>Reading transfers that are small enough for the arrays of the log.\<close>

lemma log_small: "length t < 1009 \<Longrightarrow> \<not> log_overruns True t"
  using length_takeWhile_le [of "\<lambda>b. b \<noteq> 0" t] by (simp add: log_overruns_def ascii_def)

lemma usb_read_loop_gets:
  assumes "u_live s p = Some h" "adb_read_pipe h \<in> openh s"
    and "rd_script s = map (\<lambda>t. (True, t, False)) ts @ (True, t, False) # rest"
    and "\<forall>x\<in>set (t # ts). length x < 1009" and "t \<noteq> []" and "n = length (concat ts @ t)" and "n \<le> 4096"
  shows "usb_read_loop p n acc s = Inr (0, acc @ concat ts @ t, s\<lparr>rd_script := rest\<rparr>)"
  using assms
proof (induction ts arbitrary: n acc s)
  case Nil
  then have "AdbReadEndpointSync (adb_read_pipe h) (min 4096 n) s = Inr (True, t, False, s\<lparr>rd_script := rest\<rparr>)"
    using log_small [of t] by (simp add: AdbReadEndpointSync_def)
  then show ?case using Nil by (simp add: usb_read_loop.simps [of p _ acc s])
next
  case (Cons x ts)
  let ?s = "s\<lparr>rd_script := map (\<lambda>t. (True, t, False)) ts @ (True, t, False) # rest\<rparr>"
  have r: "AdbReadEndpointSync (adb_read_pipe h) (min 4096 n) s = Inr (True, x, False, ?s)"
    using Cons.prems log_small [of x] by (simp add: AdbReadEndpointSync_def)
  have "usb_read_loop p (n - length x) (acc @ x) ?s = Inr (0, (acc @ x) @ concat ts @ t, ?s\<lparr>rd_script := rest\<rparr>)"
    by (rule Cons.IH) (use Cons.prems in auto)
  then show ?case using Cons.prems r by (simp add: usb_read_loop.simps [of p _ acc s])
qed

lemma usb_read_gets:
  assumes "u_live s p = Some h" "adb_read_pipe h \<in> openh s" "p \<noteq> 0"
    and "rd_script s = map (\<lambda>t. (True, t, False)) (ts @ [t]) @ rest"
    and "\<forall>x\<in>set (t # ts). length x < 1009" and "t \<noteq> []" and "length (concat ts @ t) \<le> 4096"
  shows "usb_read p (length (concat ts @ t)) s = Inr (0, concat ts @ t, s\<lparr>rd_script := rest\<rparr>)"
  using usb_read_loop_gets [of s p h ts t rest "length (concat ts @ t)" "[]"] assms by (simp add: usb_read_def)

text \<open>The transfers of a packet.\<close>

definition packet_transfers :: "usb_handle \<Rightarrow> amessage \<times> byte list \<Rightarrow> byte list list" where
  "packet_transfers h x = (case x of (m, bs) \<Rightarrow> (msg_bytes m # zero_transfer h (msg_bytes m))
     @ (if bs = [] then [] else bs # zero_transfer h bs))"

lemma fix_endians_length: "data_length (fix_endians big m) = 0 \<longleftrightarrow> data_length m = 0"
proof -
  have "H4 0 = 0" by (simp add: H4_def)
  then have "H4 x = 0 \<longleftrightarrow> x = 0" for x by (metis H4_involution)
  then show ?thesis by (simp add: fix_endians_def)
qed

lemma payload_empty: "wf_packet p \<Longrightarrow> payload p = [] \<longleftrightarrow> data_length (pk_msg p) = 0"
  by (auto simp: wf_packet_def payload_def MAX_PAYLOAD_def unat_eq_0)

lemma usb_write_packet:
  assumes wf: "wf_packet p" and h: "u_live s u = Some h" "adb_write_pipe h \<in> openh s" "u \<noteq> 0" and a: "accepts s 4"
  shows "\<exists>s'. usb_remote_write big u p s = Inr (0, s') \<and> transfers s' = transfers s @ packet_transfers h (view p)"
proof -
  let ?m = "msg_bytes (pk_msg p)"
  obtain s1 where s1: "usb_write u ?m s = Inr (0, s1)" "accepts s1 2" "transfers s1 = transfers s @ ?m # zero_transfer h ?m"
    "u_live s1 = u_live s" "openh s1 = openh s"
    by (rule usb_write_all [OF h, of 2 ?m]) (use a in \<open>simp_all add: numeral_eq_Suc\<close>)
  show ?thesis
  proof (cases "payload p = []")
    case True
    then show ?thesis using s1 payload_empty [OF wf]
      by (simp add: usb_remote_write_def Let_def mem_image_wire fix_endians_length packet_transfers_def view_def)
  next
    case False
    have pl: "take (unat (data_length (pk_msg p))) (pk_data p) = payload p" by (simp add: payload_def)
    obtain s2 where s2: "usb_write u (payload p) s1 = Inr (0, s2)" "transfers s2 = transfers s1 @ payload p # zero_transfer h (payload p)"
      by (rule usb_write_all [of s1 u h 0 "payload p"])
        (use h s1 wf in \<open>auto simp: numeral_eq_Suc payload_def wf_packet_def MAX_PAYLOAD_def\<close>)
    then show ?thesis using s1 False payload_empty [OF wf]
      by (simp add: usb_remote_write_def Let_def mem_image_wire fix_endians_length packet_transfers_def view_def pl)
  qed
qed

lemma zero_transfer_empty: "\<forall>t\<in>set (zero_transfer h bs). t = []" "concat (zero_transfer h bs) = []"
  by (simp_all add: zero_transfer_def)

lemma msg_bytes_nonempty: "msg_bytes m \<noteq> []"
  by (metis length_0_conv length_msg_bytes zero_neq_numeral)

text \<open>What the receiver does with the transfers of a sealed packet.\<close>

lemma usb_read_packet:
  assumes sealed: "sealed p" and small: "length (payload p) < 1009"
    and k: "u_live r v = Some k" "adb_read_pipe k \<in> openh r" "v \<noteq> 0" and buf: "length (pk_data buf) = MAX_PAYLOAD"
    and rd: "rd_script r = map (\<lambda>t. (True, t, False)) (packet_transfers h (view p)) @ rest"
  shows "\<exists>q r'. usb_remote_read big v buf r = Inr (Some q, r') \<and> view q = view p \<and> sealed q
    \<and> (rd_script r' = rest \<or> rd_script r' = (True, [], False) # rest)"
proof -
  let ?m = "pk_msg p" and ?z = "zero_transfer h"
  have wf: "wf_packet p" using sealed by (simp add: sealed_def)
  define q where "q = buf\<lparr>pk_msg := ?m, pk_data := payload p @ drop (length (payload p)) (pk_data buf)\<rparr>"
  have lp: "length (payload p) = unat (data_length ?m)" using wf by (simp add: payload_def wf_packet_def)
  have wfq: "wf_packet q" using wf buf lp by (simp add: q_def wf_packet_def)
  have pq: "payload q = payload p" using lp by (simp add: q_def payload_def)
  have sq: "sealed q" using sealed wfq pq by (simp add: sealed_iff q_def)
  have vq: "view q = view p" using pq by (simp add: view_def q_def)
  have ch: "check_header (buf\<lparr>pk_msg := ?m\<rparr>) = 0" using sealed by (simp add: sealed_def check_header_def split: if_splits)
  define rest1 where "rest1 = map (\<lambda>t. (True, t, False)) (?z (msg_bytes ?m) @ (if payload p = [] then [] else payload p # ?z (payload p))) @ rest"
  have "rd_script r = map (\<lambda>t. (True, t, False)) ([] @ [msg_bytes ?m]) @ rest1"
    using rd by (simp add: packet_transfers_def view_def rest1_def)
  from usb_read_gets [OF k this] msg_bytes_nonempty have r1: "usb_read v 24 r = Inr (0, msg_bytes ?m, r\<lparr>rd_script := rest1\<rparr>)"
    by simp
  show ?thesis
  proof (cases "payload p = []")
    case True
    then have d0: "data_length ?m = 0" using payload_empty [OF wf] by simp
    have "usb_remote_read big v buf r = Inr (Some q, r\<lparr>rd_script := rest1\<rparr>)"
      using r1 ch d0 sq by (simp add: usb_remote_read_def mem_load_msg_bytes sealed_def Let_def q_def True)
    moreover have "rest1 = rest \<or> rest1 = (True, [], False) # rest" using True by (simp add: rest1_def zero_transfer_def)
    ultimately show ?thesis using vq sq by (intro exI [of _ q] exI [of _ "r\<lparr>rd_script := rest1\<rparr>"]) simp
  next
    case False
    then have dn: "data_length ?m \<noteq> 0" using payload_empty [OF wf] by simp
    let ?r1 = "r\<lparr>rd_script := rest1\<rparr>" and ?rest2 = "map (\<lambda>t. (True, t, False)) (?z (payload p)) @ rest"
    have k1: "u_live ?r1 v = Some k" "adb_read_pipe k \<in> openh ?r1" using k by simp_all
    have e: "rd_script ?r1 = map (\<lambda>t. (True, t, False)) (?z (msg_bytes ?m) @ [payload p]) @ ?rest2" using False by (simp add: rest1_def)
    have sm: "\<forall>x\<in>set (payload p # ?z (msg_bytes ?m)). length x < 1009" using small by (simp add: zero_transfer_def)
    have r2: "usb_read v (unat (data_length ?m)) ?r1 = Inr (0, payload p, r\<lparr>rd_script := ?rest2\<rparr>)"
      using usb_read_gets [OF k1 k(3) e sm False] small lp by (simp add: zero_transfer_empty)
    have "usb_remote_read big v buf r = Inr (Some q, r\<lparr>rd_script := ?rest2\<rparr>)"
      using r1 r2 ch dn sq by (simp add: usb_remote_read_def mem_load_msg_bytes sealed_def q_def Let_def)
    moreover have "?rest2 = rest \<or> ?rest2 = (True, [], False) # rest" by (simp add: zero_transfer_def)
    ultimately show ?thesis using vq sq by (intro exI [of _ q] exI [of _ "r\<lparr>rd_script := ?rest2\<rparr>"]) simp
  qed
qed

text \<open>C15. A packet over USB: a sealed packet with a payload of at most 1008 bytes, written by one end to a pipe
  that takes its transfers and read transfer by transfer by an end of any byte order, is received with the
  same message and payload, whatever \<open>zero_mask\<close> was left with; at most one empty transfer is not read yet.\<close>

theorem usb_packet_roundtrip:
  assumes "sealed p" and "length (payload p) < 1009"
    and "u_live s u = Some h" "adb_write_pipe h \<in> openh s" "u \<noteq> 0" "accepts s 4"
    and "u_live r v = Some k" "adb_read_pipe k \<in> openh r" "v \<noteq> 0" and "length (pk_data buf) = MAX_PAYLOAD"
  shows "\<exists>s' ts. usb_remote_write big u p s = Inr (0, s') \<and> transfers s' = transfers s @ ts
    \<and> (rd_script r = map (\<lambda>t. (True, t, False)) ts @ rest \<longrightarrow>
         (\<exists>q r'. usb_remote_read big' v buf r = Inr (Some q, r') \<and> view q = view p \<and> sealed q
            \<and> (rd_script r' = rest \<or> rd_script r' = (True, [], False) # rest)))"
proof -
  have "wf_packet p" using assms(1) by (simp add: sealed_def)
  from usb_write_packet [OF this assms(3-6), of big] obtain s' where
    "usb_remote_write big u p s = Inr (0, s')" "transfers s' = transfers s @ packet_transfers h (view p)" by blast
  then show ?thesis using usb_read_packet [OF assms(1,2,7-10), of h rest big'] by blast
qed

lemma usb_packet_roundtrip_witness:
  "\<exists>q r'. usb_remote_read True 2 (get_apacket (replicate MAX_PAYLOAD 0))
     (usb_one (map (\<lambda>t. (True, t, False)) (packet_transfers (the (u_live (usb_one [] []) 2)) (view sealed_sample))) []) = Inr (Some q, r')
     \<and> view q = view sealed_sample"
proof -
  let ?s = "usb_one [] (replicate 4 (True, 4096, False))"
  let ?h = "the (u_live (usb_one [] []) 2)"
  let ?rd = "map (\<lambda>t. (True, t, False)) (packet_transfers ?h (view sealed_sample))"
  let ?r = "usb_one ?rd []"
  have h: "u_live ?s 2 = Some ?h" "adb_write_pipe ?h \<in> openh ?s" "u_live ?r 2 = Some ?h" "adb_read_pipe ?h \<in> openh ?r"
    "transfers ?s = []" "rd_script ?r = ?rd"
    by (simp_all add: usb_one_def usb_start_def)
  have a: "accepts ?s 4" by (simp add: accepts_def usb_one_def usb_start_def)
  have l: "length (payload sealed_sample) < 1009" by (simp add: sealed_sample_def sample_packet_def payload_def)
  have b: "length (pk_data (get_apacket (replicate MAX_PAYLOAD 0))) = MAX_PAYLOAD" by (simp add: get_apacket_def)
  have w: "\<exists>s'. usb_remote_write False 2 sealed_sample ?s = Inr (0, s') \<and> transfers s' = transfers ?s @ packet_transfers ?h (view sealed_sample)"
    using usb_write_packet [OF _ h(1,2) _ a] sealed_sample_sealed by (simp add: sealed_def)
  from usb_packet_roundtrip [OF sealed_sample_sealed l h(1,2) _ a h(3,4) _ b, of False "[]" True] w h(5,6)
  show ?thesis by auto
qed

section \<open>Large packets\<close>

text \<open>C40. A packet with a payload of 1024 bytes or more that arrives in one transfer, as it is sent, runs over the
  array of 1024 characters into which the log of the read copies it, whatever the packet holds and although
  packets may have 4096 bytes.\<close>

theorem large_packet_overruns:
  assumes sealed: "sealed p" and large: "1024 \<le> length (payload p)"
    and k: "u_live r v = Some k" "adb_read_pipe k \<in> openh r" "v \<noteq> 0"
    and rd: "rd_script r = map (\<lambda>t. (True, t, False)) (packet_transfers h (view p)) @ rest"
  shows "usb_remote_read big v buf r = Inl Array_overrun"
proof -
  let ?m = "pk_msg p" and ?z = "zero_transfer h"
  have wf: "wf_packet p" using sealed by (simp add: sealed_def)
  have lp: "length (payload p) = unat (data_length ?m)" "length (payload p) \<le> 4096" using wf by (simp_all add: payload_def wf_packet_def MAX_PAYLOAD_def)
  have ne: "payload p \<noteq> []" using large by auto
  then have dn: "data_length ?m \<noteq> 0" using payload_empty [OF wf] by simp
  have ch: "check_header (buf\<lparr>pk_msg := ?m\<rparr>) = 0" using sealed by (simp add: sealed_def check_header_def split: if_splits)
  let ?rest = "map (\<lambda>t. (True, t, False)) (?z (payload p)) @ rest"
  define rest1 where "rest1 = map (\<lambda>t. (True, t, False)) (?z (msg_bytes ?m)) @ (True, payload p, False) # ?rest"
  have "rd_script r = map (\<lambda>t. (True, t, False)) ([] @ [msg_bytes ?m]) @ rest1"
    using rd ne by (simp add: packet_transfers_def view_def rest1_def)
  from usb_read_gets [OF k this] msg_bytes_nonempty have r1: "usb_read v 24 r = Inr (0, msg_bytes ?m, r\<lparr>rd_script := rest1\<rparr>)"
    by simp
  have over: "usb_read_loop v (length (payload p)) [] s = Inl Array_overrun"
    if "u_live s v = Some k" "adb_read_pipe k \<in> openh s" "rd_script s = (True, payload p, False) # evs" for s evs
    using that large lp by (simp add: usb_read_loop.simps [of v _ "[]" s] AdbReadEndpointSync_def log_overruns_def)
  have "usb_read_loop v (length (payload p)) [] (r\<lparr>rd_script := rest1\<rparr>) = Inl Array_overrun"
  proof (cases "?z (msg_bytes ?m) = []")
    case True
    then show ?thesis using over k by (simp add: rest1_def)
  next
    case False
    let ?r2 = "r\<lparr>rd_script := (True, payload p, False) # ?rest\<rparr>"
    have e: "rest1 = (True, [], False) # (True, payload p, False) # ?rest" using False by (simp add: rest1_def zero_transfer_def split: if_splits)
    have a: "AdbReadEndpointSync (adb_read_pipe k) (length (payload p)) (r\<lparr>rd_script := rest1\<rparr>) = Inr (True, [], False, ?r2)"
      using k log_small [of "[]"] by (simp add: e AdbReadEndpointSync_def)
    have "usb_read_loop v (length (payload p)) [] ?r2 = Inl Array_overrun" using over [of ?r2] k by simp
    then show ?thesis using a k(1) lp(2) ne by (simp add: usb_read_loop.simps [of v _ "[]" "r\<lparr>rd_script := rest1\<rparr>"])
  qed
  then have "usb_read v (unat (data_length ?m)) (r\<lparr>rd_script := rest1\<rparr>) = Inl Array_overrun" using k lp by (simp add: usb_read_def)
  then show ?thesis using r1 ch dn by (simp add: usb_remote_read_def mem_load_msg_bytes Let_def)
qed

definition large_sample :: apacket where
  "large_sample = (let p = sealed_sample\<lparr>pk_data := replicate MAX_PAYLOAD 0,
     pk_msg := (pk_msg sealed_sample)\<lparr>data_length := 1024, data_check := 0\<rparr>\<rparr> in p)"

lemma large_packet_overruns_witness:
  "usb_remote_read True 2 (get_apacket [])
     (usb_one (map (\<lambda>t. (True, t, False)) (packet_transfers (the (u_live (usb_one [] []) 2)) (view large_sample))) []) = Inl Array_overrun"
proof -
  let ?h = "the (u_live (usb_one [] []) 2)"
  let ?r = "usb_one (map (\<lambda>t. (True, t, False)) (packet_transfers ?h (view large_sample))) []"
  have z: "sum_list (replicate n (0 :: u32)) = 0" for n by (induction n) simp_all
  have m: "magic (pk_msg sealed_sample) = command (pk_msg sealed_sample) XOR 0xffffffff" using sealed_sample_sealed by (simp add: sealed_iff)
  have "sealed large_sample" by (simp add: sealed_iff large_sample_def wf_packet_def payload_def z m) (simp add: MAX_PAYLOAD_def)
  moreover have "1024 \<le> length (payload large_sample)" by (simp add: large_sample_def payload_def MAX_PAYLOAD_def)
  moreover have "u_live ?r 2 = Some ?h" "adb_read_pipe ?h \<in> openh ?r"
    "rd_script ?r = map (\<lambda>t. (True, t, False)) (packet_transfers ?h (view large_sample)) @ []"
    by (simp_all add: usb_one_def usb_start_def)
  ultimately show ?thesis by (intro large_packet_overruns [where k = ?h and h = ?h and rest = "[]"]) simp_all
qed

end
