(* ===== verification/Commandline.thy ===== *)
theory Commandline
  imports Client
begin

text \<open>
  The command line (\<open>adb/commandline.cpp\<close>) and the console of an emulator (\<open>adb/console.cpp\<close>), over the client
  of Client.  The state adds what the commands print; what the functions of the client print is left out.
  Only the commands that this build compiles are there.  \<open>junk\<close> is passed to \<open>adb_connect\<close>, where it is what
  a buffer held before.
\<close>

section \<open>State\<close>

datatype said = Out "byte list" | Err "byte list" | Help_text

record console =
  cl :: client
  said :: "said list"

definition say :: "said \<Rightarrow> console \<Rightarrow> console" where
  "say x s = s\<lparr>said := said s @ [x]\<rparr>"

definition on_client :: "(client \<Rightarrow> stop + ('a \<times> client)) \<Rightarrow> console \<Rightarrow> stop + ('a \<times> console)" where
  "on_client f s = sbind (f (cl s)) (\<lambda>(x, c). Inr (x, s\<lparr>cl := c\<rparr>))"

definition hang_up_on :: "int \<Rightarrow> console \<Rightarrow> console" where
  "hang_up_on fd s = s\<lparr>cl := cl_close fd (cl s)\<rparr>"

text \<open>\<open>snprintf\<close> into a buffer of \<open>n\<close> bytes that is read afterwards.\<close>

definition fit :: "nat \<Rightarrow> byte list \<Rightarrow> stop + byte list" where
  "fit n bs = (case snprintf n bs of None \<Rightarrow> Inl Overruns | Some x \<Rightarrow> Inr x)"

definition complain :: "console \<Rightarrow> console" where
  "complain s = say (Err (ascii ''error: '' @ adb_error (cl s) @ [10])) s"

definition usage :: "console \<Rightarrow> int \<times> console" where
  "usage s = (1, say Help_text s)"

section \<open>Copying a stream\<close>

text \<open>What reading can still give.\<close>

definition ev_size :: "rd_ev list \<Rightarrow> nat" where
  "ev_size evs = sum_list (map (\<lambda>e. case e of Avail bs \<Rightarrow> Suc (length bs) | RdErr _ \<Rightarrow> 1) evs)"

lemma adb_read_size:
  assumes "adb_read n evs = Some (r, evs')" and "0 < n"
  shows "ev_size evs' < ev_size evs"
  using assms by (cases "(n, evs)" rule: adb_read.cases) (auto simp: ev_size_def split: if_splits)

text \<open>The pieces that are read up to the end or an error other than \<open>EINTR\<close>.\<close>

function dump_loop :: "nat \<Rightarrow> rd_ev list \<Rightarrow> (byte list list \<times> rd_ev list) option" where
  "dump_loop n evs =
     (if n = 0 then None
      else case adb_read n evs of
        None \<Rightarrow> None
      | Some (Got bs, evs') \<Rightarrow> map_option (\<lambda>(ps, es). (bs # ps, es)) (dump_loop n evs')
      | Some (RdFail EINTR, evs') \<Rightarrow> dump_loop n evs'
      | Some (_, evs') \<Rightarrow> Some ([], evs'))"
  by pat_completeness auto
termination
  by (relation "measure (\<lambda>(n, evs). ev_size evs)") (auto dest: adb_read_size)

declare dump_loop.simps [simp del]

definition read_and_dump :: "int \<Rightarrow> console \<Rightarrow> stop + console" where
  "read_and_dump fd s =
     (if fd < 0 then Inr s
      else let c = conns (cl s) fd in case dump_loop 4096 (cin c) of
        None \<Rightarrow> Inl Hangs
      | Some (ps, evs) \<Rightarrow> Inr (s\<lparr>cl := (cl s)\<lparr>conns := (conns (cl s))(fd := c\<lparr>cin := evs\<rparr>)\<rparr>,
          said := said s @ map Out ps\<rparr>))"

text \<open>One \<open>write\<close> for every piece, whose result is not looked at.\<close>

fun put_pieces :: "byte list list \<Rightarrow> conn \<Rightarrow> conn option" where
  "put_pieces [] c = Some c"
| "put_pieces (b # bs) c = (case adb_write (length b) (cout c) of
     None \<Rightarrow> None
   | Some (Wrote k, evs) \<Rightarrow> put_pieces bs (c\<lparr>cout := evs, cput := cput c @ take k b\<rparr>)
   | Some (WrFail e, evs) \<Rightarrow> put_pieces bs (c\<lparr>cout := evs\<rparr>))"

definition copy_to_file :: "conn \<Rightarrow> conn \<Rightarrow> (conn \<times> conn) option" where
  "copy_to_file inp out = (case dump_loop (32 * 1024) (cin inp) of
     None \<Rightarrow> None
   | Some (ps, evs) \<Rightarrow> map_option (\<lambda>out. (inp\<lparr>cin := evs\<rparr>, out)) (put_pieces ps out))"

section \<open>Requests\<close>

definition format_host_command :: "nat \<Rightarrow> byte list \<Rightarrow> transport_type \<Rightarrow> byte list option \<Rightarrow> stop + byte list" where
  "format_host_command buflen cmd tt sn0 = fit buflen (case sn0 of
     Some sn \<Rightarrow> ascii ''host-serial:'' @ sn @ ascii '':'' @ cmd
   | None \<Rightarrow> (case tt of
        kTransportUsb \<Rightarrow> ascii ''host-usb''
      | kTransportLocal \<Rightarrow> ascii ''host-local''
      | _ \<Rightarrow> ascii ''host'') @ ascii '':'' @ cmd)"

definition CHUNK_SIZE :: nat where "CHUNK_SIZE = 64 * 1024"

text \<open>What remains, as a percentage in four places.\<close>

definition pad4 :: "byte list \<Rightarrow> byte list" where
  "pad4 x = replicate (4 - length x) 32 @ x"

definition progress_line :: "byte list \<Rightarrow> nat \<Rightarrow> nat \<Rightarrow> byte list" where
  "progress_line service left_n full = ascii ''sending: '' @ [39] @ service @ [39, 32] @ pad4 (decimal (100 - 100 * left_n div full))
     @ [37] @ ascii ''    '' @ [13]"

definition after_colon :: "byte list \<Rightarrow> byte list" where
  "after_colon x = (if 58 \<in> set x then rev (takeWhile (\<lambda>c. c \<noteq> 58) (rev x)) else x)"

text \<open>The loop over the chunks; \<open>False\<close> when a write has failed.\<close>

function send_chunks :: "int \<Rightarrow> byte list \<Rightarrow> bool \<Rightarrow> nat \<Rightarrow> byte list \<Rightarrow> console \<Rightarrow> stop + (bool \<times> console)" where
  "send_chunks fd service progress full data s =
     (if data = [] then Inr (True, s)
      else case on_client (cl_writex fd (take CHUNK_SIZE data)) s of
        Inl e \<Rightarrow> Inl e
      | Inr (r, s) \<Rightarrow>
          if r \<noteq> 0 then Inr (False, s)
          else let rest = drop CHUNK_SIZE data;
                   s = (if progress then say (Out (progress_line service (length rest) full)) s else s)
               in send_chunks fd service progress full rest s)"
  by pat_completeness auto
termination
  by (relation "measure (\<lambda>(fd, service, progress, full, data, s). length data)") (auto simp: CHUNK_SIZE_def)

declare send_chunks.simps [simp del]

definition adb_download_buffer :: "byte list \<Rightarrow> byte list \<Rightarrow> byte list \<Rightarrow> bool \<Rightarrow> console \<Rightarrow> stop + (int \<times> console)" where
  "adb_download_buffer junk service data progress s =
     (let buf = service @ [58] @ decimal (length data) in
      if length buf \<ge> 4096 then Inl Overruns
      else sbind (on_client (adb_connect junk buf) s) (\<lambda>(fd, s).
        if fd < 0 then Inr (- 1, complain s)
        else sbind (send_chunks fd (if progress then after_colon service else service) progress (length data) data s) (\<lambda>(ok, s).
          if \<not> ok then sbind (on_client (adb_status fd) s) (\<lambda>(_, s).
            Inr (- 1, say (Err (ascii ''* failed to write data '' @ [39] @ adb_error (cl s) @ [39] @ ascii '' *'' @ [10])) s))
          else
            let s = (if progress then say (Out [10]) s else s) in
            sbind (on_client (\<lambda>c. sbind (cl_readx fd 4 c) (\<lambda>(r, b, c). Inr ((r, b), c))) s) (\<lambda>((r, b), s).
              if r \<noteq> 0 then Inr (- 1, hang_up_on fd (say (Err (ascii ''* error reading response *'' @ [10])) s))
              else if b \<noteq> ascii ''OKAY''
              then Inr (- 1, hang_up_on fd (say (Err (ascii ''* error response '' @ [39] @ cstr b @ [39] @ ascii '' *'' @ [10])) s))
              else Inr (0, hang_up_on fd s)))))"

section \<open>Commands\<close>

text \<open>The modifiers in front of a command.  The loop looks at the first argument only and never moves on.\<close>

record modifiers =
  is_server :: bool
  no_daemon :: bool
  is_daemon :: bool
  persist :: bool

partial_function (option) read_modifiers :: "byte list list \<Rightarrow> modifiers \<Rightarrow> modifiers option" where
  "read_modifiers argv f = (case argv of
     [] \<Rightarrow> Some f
   | a # _ \<Rightarrow>
       if a = ascii ''server'' then read_modifiers argv (f\<lparr>is_server := True\<rparr>)
       else if a = ascii ''nodaemon'' then read_modifiers argv (f\<lparr>no_daemon := True\<rparr>)
       else if a = ascii ''fork-server'' then read_modifiers argv (f\<lparr>is_daemon := True\<rparr>)
       else if a = ascii ''persist'' then read_modifiers argv (f\<lparr>persist := True\<rparr>)
       else Some f)"

text \<open>With \<open>is_server\<close> the code starts a server; but the loop ends only when no modifier was there.\<close>

definition enter :: "byte list list \<Rightarrow> console \<Rightarrow> stop + console" where
  "enter argv s = (case read_modifiers argv \<lparr>is_server = False, no_daemon = False, is_daemon = False, persist = False\<rparr> of
     None \<Rightarrow> Inl Hangs
   | Some f \<Rightarrow> if is_server f then Inl Hangs else Inr (s\<lparr>cl := adb_set_transport kTransportAny None (cl s)\<rparr>))"

definition print_query :: "byte list \<Rightarrow> byte list \<Rightarrow> said list \<Rightarrow> console \<Rightarrow> stop + (int \<times> console)" where
  "print_query junk service head s = sbind (on_client (adb_query junk service) s) (\<lambda>(tmp, s). case tmp of
     None \<Rightarrow> Inr (1, s)
   | Some bs \<Rightarrow> Inr (0, s\<lparr>said := said s @ head @ [Out (cstr bs @ [10])]\<rparr>))"

definition cmd_devices :: "byte list \<Rightarrow> byte list list \<Rightarrow> console \<Rightarrow> stop + (int \<times> console)" where
  "cmd_devices junk args s =
     (if args \<noteq> [] \<and> args \<noteq> [ascii ''-l''] then Inr (1, say (Err (ascii ''Usage: adb devices [-l]'' @ [10])) s)
      else sbind (fit 4096 (ascii ''host:devices'' @ concat args)) (\<lambda>buf.
        print_query junk buf [Out (ascii ''List of devices attached '' @ [10])] s))"

definition cmd_connect :: "byte list \<Rightarrow> byte list list \<Rightarrow> console \<Rightarrow> stop + (int \<times> console)" where
  "cmd_connect junk args s = (case args of
     [host] \<Rightarrow> sbind (fit 4096 (ascii ''host:connect:'' @ host)) (\<lambda>buf. print_query junk buf [] s)
   | _ \<Rightarrow> Inr (1, say (Err (ascii ''Usage: adb connect <host>[:<port>]'' @ [10])) s))"

definition cmd_disconnect :: "byte list \<Rightarrow> byte list list \<Rightarrow> console \<Rightarrow> stop + (int \<times> console)" where
  "cmd_disconnect junk args s =
     (if length args > 1 then Inr (1, say (Err (ascii ''Usage: adb disconnect [<host>[:<port>]]'' @ [10])) s)
      else sbind (fit 4096 (ascii ''host:disconnect:'' @ concat args)) (\<lambda>buf. print_query junk buf [] s))"

definition cmd_kill_server :: "console \<Rightarrow> stop + (int \<times> console)" where
  "cmd_kill_server s = sbind (on_client (adb_connect_once (ascii ''host:kill'')) s) (\<lambda>(fd, s).
     if fd = - 1 then Inr (1, say (Err (ascii ''* server not running *'' @ [10])) s) else Inr (0, s))"

text \<open>\<open>remount\<close>, \<open>reboot\<close>, \<open>reboot-bootloader\<close>, \<open>tcpip\<close>, \<open>usb\<close> and \<open>root\<close>.\<close>

definition device_commands :: "byte list list" where
  "device_commands = map ascii [''remount'', ''reboot'', ''reboot-bootloader'', ''tcpip'', ''usb'', ''root'']"

definition device_service :: "byte list \<Rightarrow> byte list list \<Rightarrow> stop + byte list" where
  "device_service cmd args = fit 100
     (if cmd = ascii ''reboot-bootloader'' then ascii ''reboot:bootloader''
      else cmd @ [58] @ (case args of [] \<Rightarrow> [] | a # _ \<Rightarrow> a))"

definition cmd_device :: "byte list \<Rightarrow> byte list \<Rightarrow> byte list list \<Rightarrow> console \<Rightarrow> stop + (int \<times> console)" where
  "cmd_device junk cmd args s = sbind (device_service cmd args) (\<lambda>command.
     sbind (on_client (adb_connect junk command) s) (\<lambda>(fd, s).
     if fd \<ge> 0 then sbind (read_and_dump fd s) (\<lambda>s. Inr (0, hang_up_on fd s)) else Inr (1, complain s)))"

definition wait_service :: "byte list \<Rightarrow> transport_type \<Rightarrow> byte list" where
  "wait_service service tt =
     (if take 15 service = ascii ''wait-for-device'' then (case tt of
        kTransportUsb \<Rightarrow> ascii ''wait-for-usb''
      | kTransportLocal \<Rightarrow> ascii ''wait-for-local''
      | _ \<Rightarrow> ascii ''wait-for-any'')
      else service)"

definition cmd_forward :: "byte list \<Rightarrow> transport_type \<Rightarrow> byte list option \<Rightarrow> byte list list \<Rightarrow> console \<Rightarrow> stop + (int \<times> console)" where
  "cmd_forward junk tt sn0 args s = (case args of
     [a, b] \<Rightarrow> sbind (format_host_command 4096 (ascii ''forward:'' @ a @ [59] @ b) tt sn0) (\<lambda>buf.
       sbind (on_client (adb_command junk buf) s) (\<lambda>(r, s). if r \<noteq> 0 then Inr (1, complain s) else Inr (0, s)))
   | _ \<Rightarrow> Inr (usage s))"

text \<open>The arguments of \<open>do_cmd\<close>, an array of 16 pointers with a null one at the end.\<close>

definition do_argv :: "transport_type \<Rightarrow> byte list option \<Rightarrow> byte list list \<Rightarrow> byte list list option" where
  "do_argv tt sn0 args =
     (let argv = (case sn0 of
            Some sn \<Rightarrow> [ascii ''-s'', sn]
          | None \<Rightarrow> (case tt of kTransportUsb \<Rightarrow> [ascii ''-d''] | kTransportLocal \<Rightarrow> [ascii ''-e''] | _ \<Rightarrow> [])) @ args
      in if length argv < 16 then Some argv else None)"

text \<open>How deep the commands nest: \<open>wait-for-device\<close> may be followed by a command, and \<open>bugreport\<close> starts one.\<close>

primrec cmd_depth :: "byte list list \<Rightarrow> nat" where
  "cmd_depth [] = 0"
| "cmd_depth (a # as) =
     (if a = ascii ''bugreport'' then 1 else if take 9 a = ascii ''wait-for-'' then Suc (cmd_depth as) else 0)"

lemma shell_depth: "do_argv tt sn0 [ascii ''shell'', ascii ''bugreport''] = Some argv \<Longrightarrow> cmd_depth argv = 0"
  by (auto simp: do_argv_def ascii_def split: if_splits option.splits transport_type.splits)

function commands :: "byte list \<Rightarrow> transport_type \<Rightarrow> byte list option \<Rightarrow> byte list list \<Rightarrow> console \<Rightarrow> stop + (int \<times> console)" where
  "commands junk tt sn0 [] s = Inr (usage s)"
| "commands junk tt sn0 (a # args) s =
     (if a = ascii ''devices'' then cmd_devices junk args s
      else if a = ascii ''connect'' then cmd_connect junk args s
      else if a = ascii ''disconnect'' then cmd_disconnect junk args s
      else if a = ascii ''kill-server'' then cmd_kill_server s
      else if a \<in> set device_commands then cmd_device junk a args s
      else if a = ascii ''bugreport'' then
        (if args \<noteq> [] then Inr (usage s)
         else case do_argv tt sn0 [ascii ''shell'', ascii ''bugreport''] of
           None \<Rightarrow> Inl Overruns
         | Some argv \<Rightarrow> (case enter argv s of
             Inl e \<Rightarrow> Inl e
           | Inr s \<Rightarrow> (case commands junk kTransportAny None argv s of Inl e \<Rightarrow> Inl e | Inr (_, s) \<Rightarrow> Inr (0, s))))
      else if take 9 a = ascii ''wait-for-'' then
        (case sbind (format_host_command 4096 (wait_service a tt) tt sn0) (\<lambda>buf. on_client (adb_command junk buf) s) of
           Inl e \<Rightarrow> Inl e
         | Inr (r, s) \<Rightarrow>
             if r \<noteq> 0 then Inr (1, complain s)
             else if args \<noteq> [] then commands junk tt sn0 args s
             else Inr (0, s))
      else if a = ascii ''forward'' then cmd_forward junk tt sn0 args s
      else if a = ascii ''start-server'' then on_client (adb_connect junk (ascii ''host:start-server'')) s
      else Inr (1, snd (usage s)))"
  by pat_completeness auto
termination
  by (relation "measure (\<lambda>(junk, tt, sn0, argv, s). cmd_depth argv)") (auto dest: shell_depth)

declare commands.simps(2) [simp del]

definition adb_commandline :: "byte list \<Rightarrow> byte list list \<Rightarrow> console \<Rightarrow> stop + (int \<times> console)" where
  "adb_commandline junk argv s = sbind (enter argv s) (commands junk kTransportAny None argv)"

definition do_cmd :: "byte list \<Rightarrow> transport_type \<Rightarrow> byte list option \<Rightarrow> byte list list \<Rightarrow> console \<Rightarrow> stop + (int \<times> console)" where
  "do_cmd junk tt sn0 args s = (case do_argv tt sn0 args of
     None \<Rightarrow> Inl Overruns
   | Some argv \<Rightarrow> adb_commandline junk argv s)"

section \<open>Packages\<close>

text \<open>Functions that this build compiles, though the commands that call them are left out of it.\<close>

definition quoted_char :: "byte \<Rightarrow> bool" where
  "quoted_char c \<longleftrightarrow> c = 32 \<or> c = 34 \<or> c = 92 \<or> c = 40 \<or> c = 41"

definition dupAndQuote :: "byte list \<Rightarrow> byte list" where
  "dupAndQuote s = concat (map (\<lambda>c. if quoted_char c then [92, c] else [c]) s)"

text \<open>Until the service can be reached; between two attempts \<open>adb wait-for-device\<close> is run.\<close>

partial_function (option) reach_shell ::
    "byte list \<Rightarrow> transport_type \<Rightarrow> byte list option \<Rightarrow> byte list \<Rightarrow> console \<Rightarrow> (stop + (int \<times> console)) option" where
  "reach_shell junk tt sn0 buf s = (case on_client (adb_connect junk buf) s of
     Inl e \<Rightarrow> Some (Inl e)
   | Inr (fd, s) \<Rightarrow>
       if fd \<ge> 0 then Some (Inr (fd, s))
       else (case do_cmd junk tt sn0 [ascii ''wait-for-device''] (say (Err (ascii ''- waiting for device -'' @ [10])) s) of
         Inl e \<Rightarrow> Some (Inl e)
       | Inr (_, s) \<Rightarrow> reach_shell junk tt sn0 buf s))"

definition send_shellcommand :: "byte list \<Rightarrow> transport_type \<Rightarrow> byte list option \<Rightarrow> byte list \<Rightarrow> console \<Rightarrow> stop + (int \<times> console)" where
  "send_shellcommand junk tt sn0 buf s =
     sbind (case reach_shell junk tt sn0 buf s of None \<Rightarrow> Inl Hangs | Some r \<Rightarrow> r) (\<lambda>(fd, s).
       sbind (read_and_dump fd s) (\<lambda>s. Inr (0, hang_up_on fd s)))"

text \<open>\<open>strncat(buf, x, sizeof(buf)-1)\<close> bounds what is added, and not the sum.\<close>

definition strncat_4095 :: "byte list \<Rightarrow> byte list \<Rightarrow> stop + byte list" where
  "strncat_4095 buf x = (let b = buf @ take 4095 x in if length b \<ge> 4096 then Inl Overruns else Inr b)"

fun append_quoted :: "byte list \<Rightarrow> byte list list \<Rightarrow> stop + byte list" where
  "append_quoted buf [] = Inr buf"
| "append_quoted buf (a # as) = sbind (strncat_4095 buf [32]) (\<lambda>b. sbind (strncat_4095 b (dupAndQuote a)) (\<lambda>b. append_quoted b as))"

definition pm_command :: "byte list \<Rightarrow> transport_type \<Rightarrow> byte list option \<Rightarrow> byte list list \<Rightarrow> console \<Rightarrow> stop + (int \<times> console)" where
  "pm_command junk tt sn0 argv s = sbind (append_quoted (ascii ''shell:pm'') argv) (\<lambda>buf.
     sbind (send_shellcommand junk tt sn0 buf s) (\<lambda>(_, s). Inr (0, s)))"

definition delete_file :: "byte list \<Rightarrow> transport_type \<Rightarrow> byte list option \<Rightarrow> byte list \<Rightarrow> console \<Rightarrow> stop + (int \<times> console)" where
  "delete_file junk tt sn0 filename s = sbind (strncat_4095 (ascii ''shell:rm '') (dupAndQuote filename)) (\<lambda>buf.
     sbind (send_shellcommand junk tt sn0 buf s) (\<lambda>(_, s). Inr (0, s)))"

section \<open>Paths\<close>

text \<open>The part from the last slash or backslash on, of the host's paths.\<close>

definition adb_dirstop :: "byte list \<Rightarrow> nat option" where
  "adb_dirstop path = (let is = filter (\<lambda>i. path ! i = 47 \<or> path ! i = 92) [0..<length path]
     in if is = [] then None else Some (last is))"

definition get_basename :: "byte list \<Rightarrow> byte list" where
  "get_basename filename = (case adb_dirstop filename of None \<Rightarrow> filename | Some i \<Rightarrow> drop (Suc i) filename)"

definition top_works :: "byte list option \<Rightarrow> bool" where
  "top_works path = False"

lemma dirstop_less: "adb_dirstop p = Some i \<Longrightarrow> i < length p"
proof -
  let ?is = "filter (\<lambda>i. p ! i = 47 \<or> p ! i = 92) [0..<length p]"
  assume "adb_dirstop p = Some i"
  then have "?is \<noteq> []" "i = last ?is" by (simp_all add: adb_dirstop_def Let_def split: if_splits)
  then have "i \<in> set ?is" using last_in_set by blast
  then show ?thesis by simp
qed

text \<open>The directory upwards of \<open>indir\<close> that works.\<close>

function find_top_from :: "byte list \<Rightarrow> byte list option" where
  "find_top_from path_buf =
     (if top_works (Some path_buf) then Some path_buf
      else case adb_dirstop path_buf of None \<Rightarrow> None | Some i \<Rightarrow> find_top_from (take i path_buf))"
  by pat_completeness auto
termination
  by (relation "measure length") (auto dest: dirstop_less)

declare find_top_from.simps [simp del]

text \<open>\<open>None\<close> is \<open>exit(1)\<close>; nobody sets the path.\<close>

definition product_file :: "byte list option \<Rightarrow> byte list \<Rightarrow> byte list option" where
  "product_file out extra = map_option (\<lambda>p. p @ [92] @ extra) out"

definition find_sync_dirs :: "byte list option \<Rightarrow> byte list option \<Rightarrow> (int \<times> byte list option \<times> byte list option) option" where
  "find_sync_dirs out srcarg = (case srcarg of
     None \<Rightarrow> (case (product_file out (ascii ''system''), product_file out (ascii ''data'')) of
       (Some sys, Some data) \<Rightarrow> Some (0, Some sys, Some data)
     | _ \<Rightarrow> None)
   | Some a \<Rightarrow>
       if a = ascii ''system'' then map_option (\<lambda>p. (0, Some p, None)) (product_file out a)
       else if a = ascii ''data'' then map_option (\<lambda>p. (0, None, Some p)) (product_file out a)
       else Some (1, None, None))"

section \<open>The console of an emulator\<close>

text \<open>The port, and then a connection of the next dial.\<close>

definition connect_to_console :: "byte list \<Rightarrow> console \<Rightarrow> stop + (int \<times> console)" where
  "connect_to_console junk s = sbind (on_client (adb_get_emulator_console_port junk) s) (\<lambda>(port, s).
     if port < 0 then
       Inr (- 1, say (Err ((if port = - 2 then ascii ''error: more than one emulator detected. use -s option''
         else ascii ''error: no emulator detected'') @ [10])) s)
     else case dial (cl s) of (fd, c) \<Rightarrow> let s = s\<lparr>cl := c\<rparr> in
       if fd < 0 then Inr (- 1, say (Err (ascii ''error: could not connect to TCP port '' @ decimal (nat port) @ [10])) s)
       else Inr (fd, s))"

definition cl_put :: "int \<Rightarrow> byte list list \<Rightarrow> client \<Rightarrow> stop + client" where
  "cl_put fd ps c = (case put_pieces ps (conns c fd) of None \<Rightarrow> Inl Hangs | Some k \<Rightarrow> Inr (c\<lparr>conns := (conns c)(fd := k)\<rparr>))"

text \<open>Each argument and a space, or the end of the line after the last one.\<close>

definition console_line :: "byte list list \<Rightarrow> byte list list" where
  "console_line args = concat (map (\<lambda>i. [args ! i, if Suc i = length args then [10] else [32]]) [0..<length args])"

definition adb_send_emulator_command :: "byte list \<Rightarrow> byte list list \<Rightarrow> console \<Rightarrow> stop + (int \<times> console)" where
  "adb_send_emulator_command junk argv s = sbind (connect_to_console junk s) (\<lambda>(fd, s).
     if fd < 0 then Inr (1, s)
     else sbind (cl_put fd (console_line (tl argv) @ [ascii ''quit'' @ [10]]) (cl s)) (\<lambda>c. Inr (0, hang_up_on fd (s\<lparr>cl := c\<rparr>))))"

end
