(* ===== verification/CommandlineProps.thy ===== *)
theory CommandlineProps
  imports ClientProps Commandline
begin

text \<open>
  Properties of the command line: what is asked of the server and printed, with both ends together; the
  quoting of the arguments that reach the shell of a device; and the commands that never return or never
  reach a device.
\<close>

section \<open>Streams that end\<close>

fun ended :: "rd_ev list \<Rightarrow> bool" where
  "ended [] = False"
| "ended (Avail bs # evs) = (bs = [] \<or> ended evs)"
| "ended (RdErr e # evs) = (e \<noteq> EINTR \<or> ended evs)"

lemma adb_read_ended: "adb_read n evs = Some (r, evs') \<Longrightarrow> 0 < n \<Longrightarrow> r = RdFail EINTR \<or> (\<exists>bs. r = Got bs) \<Longrightarrow> ended evs \<Longrightarrow> ended evs'"
  by (cases "(n, evs)" rule: adb_read.cases) (auto split: if_splits)

lemma ended_reads: "ended evs \<Longrightarrow> \<exists>r es. adb_read n evs = Some (r, es)"
  by (cases "(n, evs)" rule: adb_read.cases) auto

lemma dump_ended:
  assumes "ended evs" and "0 < n"
  shows "\<exists>ps evs'. dump_loop n evs = Some (ps, evs') \<and> concat ps = pending evs"
  using assms
proof (induction n evs rule: dump_loop.induct)
  case (1 n evs)
  obtain r evs' where r: "adb_read n evs = Some (r, evs')" using ended_reads [OF \<open>ended evs\<close>] by blast
  show ?case
  proof (cases r)
    case (Got bs)
    have "ended evs'" using adb_read_ended [OF r] 1 Got by simp
    then obtain ps es where p: "dump_loop n evs' = Some (ps, es)" "concat ps = pending evs'"
      using "1.IH"(1) [OF _ r refl Got] \<open>0 < n\<close> by auto
    then show ?thesis using r Got 1 adb_read_pending_Got [of n evs bs evs'] by (simp add: dump_loop.simps [of n evs])
  next
    case Eof
    have "pending evs = []" using r Eof by (cases "(n, evs)" rule: adb_read.cases) (auto split: if_splits)
    then show ?thesis using r Eof \<open>0 < n\<close> by (simp add: dump_loop.simps [of n evs])
  next
    case (RdFail e)
    show ?thesis
    proof (cases e)
      case EINTR
      have e: "ended evs'" using adb_read_ended [OF r] 1 RdFail EINTR by simp
      have "pending evs = pending evs'" using r RdFail EINTR by (cases "(n, evs)" rule: adb_read.cases) (auto split: if_splits)
      then show ?thesis using "1.IH"(2) [OF _ r refl RdFail EINTR e] RdFail EINTR \<open>0 < n\<close> r by (simp add: dump_loop.simps [of n evs])
    next
      case EAGAIN
      have "pending evs = []" using r RdFail EAGAIN by (cases "(n, evs)" rule: adb_read.cases) (auto split: if_splits)
      then show ?thesis using r RdFail EAGAIN \<open>0 < n\<close> by (simp add: dump_loop.simps [of n evs])
    next
      case EIO
      have "pending evs = []" using r RdFail EIO by (cases "(n, evs)" rule: adb_read.cases) (auto split: if_splits)
      then show ?thesis using r RdFail EIO \<open>0 < n\<close> by (simp add: dump_loop.simps [of n evs])
    qed
  qed
qed

lemma readx_ended: "readx n evs = Some ((0, bs), evs') \<Longrightarrow> ended evs \<Longrightarrow> ended evs'"
proof (induction n evs arbitrary: bs rule: readx.induct)
  case (1 n evs)
  show ?case
  proof (cases "n = 0")
    case True
    then show ?thesis using "1.prems" by (simp add: readx.simps [of n evs])
  next
    case n: False
    obtain r es where r: "adb_read n evs = Some (r, es)" using ended_reads [OF "1.prems"(2)] by blast
    show ?thesis
    proof (cases r)
      case (Got b)
      then have "ended es" using adb_read_ended [OF r] n "1.prems" by simp
      moreover obtain more where "readx (n - length b) es = Some ((0, more), evs')"
        using "1.prems"(1) n r Got by (auto simp: readx.simps [of n evs] split: option.splits)
      ultimately show ?thesis using "1.IH"(1) [OF n r refl Got] by blast
    next
      case Eof
      then show ?thesis using "1.prems"(1) n r by (simp add: readx.simps [of n evs])
    next
      case (RdFail e)
      show ?thesis
      proof (cases e)
        case EINTR
        then have "ended es" using adb_read_ended [OF r] n RdFail "1.prems" by simp
        moreover have "readx n es = Some ((0, bs), evs')" using "1.prems"(1) n r RdFail EINTR by (simp add: readx.simps [of n evs])
        ultimately show ?thesis using "1.IH"(2) [OF n r refl RdFail EINTR] by blast
      qed (use "1.prems"(1) n r RdFail in \<open>simp_all add: readx.simps [of n evs]\<close>)
    qed
  qed
qed

abbreviation ended_at :: "int \<Rightarrow> client \<Rightarrow> bool" where
  "ended_at fd c \<equiv> ended (cin (conns c fd))"

lemma cl_readx_ended: "cl_readx fd n c = Inr (0, bs, c') \<Longrightarrow> ended_at fd c \<Longrightarrow> ended_at fd c'"
  by (auto simp: cl_readx_def conn_readx_def split: option.splits dest: readx_ended)

lemma cl_writex_cin: "cl_writex fd bs c = Inr (r, c') \<Longrightarrow> cin (conns c' fd) = cin (conns c fd)"
  by (auto simp: cl_writex_def conn_writex_def split: option.splits)

lemma request_ended: "request_service fd service c = Inr (0, c') \<Longrightarrow> ended_at fd c \<Longrightarrow> ended_at fd c'"
  by (auto simp: request_service_def send_service_def adb_status_def sbind_Inr_iff Let_def
      dest!: cl_writex_cin dest: cl_readx_ended split: if_splits)

section \<open>Modifiers\<close>

definition modifier_words :: "byte list set" where
  "modifier_words = set (map ascii [''server'', ''nodaemon'', ''fork-server'', ''persist''])"

lemma modifiers_return: "read_modifiers argv f = Some f' \<Longrightarrow> f' = f \<and> (argv = [] \<or> hd argv \<notin> modifier_words)"
proof -
  have "argv = [] \<or> hd argv \<notin> modifier_words" if "read_modifiers argv f = Some f'"
    using that
  proof (rule read_modifiers.raw_induct [where P = "\<lambda>argv _ _. argv = [] \<or> hd argv \<notin> modifier_words", rotated])
    fix rm :: "byte list list \<Rightarrow> modifiers \<Rightarrow> modifiers option" and argv f x
    assume IH: "\<And>a b y. rm a b = Some y \<Longrightarrow> a = [] \<or> hd a \<notin> modifier_words"
    assume "(case argv of [] \<Rightarrow> Some f
        | a # x \<Rightarrow> if a = ascii ''server'' then rm argv (f\<lparr>is_server := True\<rparr>)
            else if a = ascii ''nodaemon'' then rm argv (f\<lparr>no_daemon := True\<rparr>)
            else if a = ascii ''fork-server'' then rm argv (f\<lparr>is_daemon := True\<rparr>)
            else if a = ascii ''persist'' then rm argv (f\<lparr>persist := True\<rparr>) else Some f) = Some x"
    then show "argv = [] \<or> hd argv \<notin> modifier_words"
      by (auto simp: modifier_words_def dest: IH split: list.splits if_splits)
  qed
  moreover assume "read_modifiers argv f = Some f'"
  ultimately show ?thesis
    by (auto simp: read_modifiers.simps [of argv] modifier_words_def split: list.splits if_splits)
qed

lemma modifiers_none: "argv \<noteq> [] \<Longrightarrow> hd argv \<in> modifier_words \<Longrightarrow> read_modifiers argv f = None"
  using modifiers_return [of argv f] by (cases "read_modifiers argv f") auto

lemma modifiers_some: "argv = [] \<or> hd argv \<notin> modifier_words \<Longrightarrow> read_modifiers argv f = Some f"
  by (auto simp: read_modifiers.simps [of argv] modifier_words_def split: list.splits)

lemma enter_plain:
  "argv = [] \<or> hd argv \<notin> modifier_words \<Longrightarrow> enter argv s = Inr (s\<lparr>cl := adb_set_transport kTransportAny None (cl s)\<rparr>)"
  by (simp add: enter_def modifiers_some)

text \<open>C18. The command line returns only without a modifier: a command behind \<open>server\<close>, \<open>nodaemon\<close>,
  \<open>fork-server\<close> or \<open>persist\<close> is never reached, because the loop over the modifiers does not move on; and
  without one the loop ends at once and leaves everything to the commands.\<close>

theorem modifiers_never_end:
  "adb_commandline junk argv s =
     (if argv \<noteq> [] \<and> hd argv \<in> modifier_words then Inl Hangs
      else commands junk kTransportAny None argv (s\<lparr>cl := adb_set_transport kTransportAny None (cl s)\<rparr>))"
  by (auto simp: adb_commandline_def enter_plain) (simp add: enter_def modifiers_none)

section \<open>Asking the server\<close>

lemma set_transport_conns [simp]: "dials (adb_set_transport tt sn c) = dials c" "conns (adb_set_transport tt sn c) = conns c"
  "hungup (adb_set_transport tt sn c) = hungup c"
  by (simp_all add: adb_set_transport_def)

text \<open>C16. \<open>adb devices\<close> prints the devices of the server, as long as their lines have at most 1024 bytes together
  (the server answers up to 4087, which \<open>adb_query\<close> refuses): when the smart socket of a server whose devices make
  the text \<open>body\<close> has answered what \<open>adb devices\<close> sends, and its reply arrives in whatever pieces, the
  command prints a head line and exactly that text and returns 0.  The server has the version of the client, no
  name has a zero, the line for the log fits, and the client and the connection take what is written.\<close>

theorem devices_printed:
  assumes "sock_inv {} w" and "socks w i = Some k" and "enqueue k = smart_socket_enqueue" and "pkts k = []"
    and "socks w (peer k) = Some q" and "is_local q" and "close q = local_socket_close"
    and "length (reply body) \<le> room (wrs w (sk_fd q))" and "outs w (sk_fd q) = []"
    and "body = all_lines (listed w)" and "length body \<le> 1024" and "0 \<notin> set body"
    and "dials (cl s) = f1 # f2 # ds" and "0 \<le> f1" and "0 \<le> f2" and "f1 \<noteq> f2" and "current_server (conns (cl s) f1)"
    and "16 \<le> space (conns (cl s) f2)" and "length (connect_log f1 (ascii ''host:devices'')) < 260"
  shows "\<exists>w'. call_enqueue (host_requests e st) hs i (framed (ascii ''host:devices'')) w = Inr (- 1, w')
    \<and> (unread (conns (cl s) f2) = outs w' (sk_fd q) \<longrightarrow>
         (\<exists>s'. adb_commandline junk [ascii ''devices''] s = Inr (0, s')
            \<and> said s' = said s @ [Out (ascii ''List of devices attached '' @ [10]), Out (body @ [10])]
            \<and> cput (conns (cl s') f2) = cput (conns (cl s) f2) @ framed (ascii ''host:devices'')))"
proof -
  let ?str = "ascii ''host:devices''"
  have p: "parse_request ?str = Some (ascii ''devices'', None, kTransportAny)"
    by (simp add: parse_request_def starts_def ascii_def)
  have h: "host_answer (ascii ''devices'') kTransportAny None w = Some body" using assms(10) by (simp add: host_answer_def)
  obtain w' where w': "call_enqueue (host_requests e st) hs i (framed ?str) w = Inr (- 1, w')"
    "outs w' (sk_fd q) = reply body"
    using server_writes_answer [OF assms(1-8) p h, of e st hs] assms(9,11) by (auto simp: ascii_def)
  let ?s = "s\<lparr>cl := adb_set_transport kTransportAny None (cl s)\<rparr>"
  have "\<exists>s'. adb_commandline junk [ascii ''devices''] s = Inr (0, s')
      \<and> said s' = said s @ [Out (ascii ''List of devices attached '' @ [10]), Out (body @ [10])]
      \<and> cput (conns (cl s') f2) = cput (conns (cl s) f2) @ framed ?str"
    if u: "unread (conns (cl s) f2) = outs w' (sk_fd q)"
  proof -
    have "dials (cl ?s) = f1 # f2 # ds" "current_server (conns (cl ?s) f1)" "unread (conns (cl ?s) f2) = reply body"
      "length ?str + 4 \<le> space (conns (cl ?s) f2)"
      using assms(13,17,18) u w'(2) by (simp_all add: ascii_def)
    from adb_query_answered [OF this(1) assms(14-16) this(2) _ assms(19) _ this(3) assms(11) this(4), of junk] obtain c' where
      c': "adb_query junk ?str (cl ?s) = Inr (Some body, c')" "cput (conns c' f2) = cput (conns (cl s) f2) @ framed ?str"
      by (auto simp: ascii_def)
    have d: "[ascii ''devices''] = [] \<or> hd [ascii ''devices''] \<notin> modifier_words" by (simp add: modifier_words_def ascii_def)
    have f: "fit 4096 (?str @ []) = Inr ?str" by (simp add: fit_def ascii_def)
    show ?thesis
      using c' assms(12) enter_plain [OF d] f
      by (simp add: adb_commandline_def commands.simps(2) cmd_devices_def print_query_def on_client_def cstr_id)
  qed
  with w'(1) show ?thesis by blast
qed

lemma devices_printed_witness:
  "\<exists>w w' s s'. socks w = [2 \<mapsto> client_end, 6 \<mapsto> smart_end]
     \<and> call_enqueue (host_requests env0 tstate0) no_service 6 (framed (ascii ''host:devices'')) w = Inr (- 1, w')
     \<and> unread (conns (cl s) 12) = outs w' 3 \<and> said s = []
     \<and> adb_commandline [] [ascii ''devices''] s = Inr (0, s')
     \<and> said s' = [Out (ascii ''List of devices attached '' @ [10]), Out (ascii ''0123'' @ [9] @ ascii ''device'' @ [10, 10])]"
proof -
  let ?body = "ascii ''0123'' @ [9] @ ascii ''device'' @ [10]" and ?str = "ascii ''host:devices''"
  let ?call = "call_enqueue (host_requests env0 tstate0) no_service 6 (framed ?str)"
  obtain w where w: "sock_inv {} w" "socks w = [2 \<mapsto> client_end, 6 \<mapsto> smart_end]" "transports w = [7 \<mapsto> one_device]"
    "transport_list w = [7]" "outs w = (\<lambda>_. [])" "wrs w = (\<lambda>_. [Room 100])"
    by (rule asking_world [where ws = "\<lambda>_. [Room 100]"]) blast
  have sl: "short_line one_device = ?body"
    by (simp add: short_line_def shown_serial_def statename_def one_device_def sample_transport_def cs_defs ascii_def)
  have l: "?body = all_lines (listed w)" using sl by (simp add: listed_def transports_in_def List.map_filter_def w)
  let ?s = "\<lparr>cl = answering_client (reply ?body), said = []\<rparr>"
  have f1: "current_server (conns (cl ?s) 11)" by (simp add: current_server_def answering_client_def reply_def ascii_def)
  have lb: "length (reply ?body) \<le> 100" "reply ?body \<noteq> []" by (simp_all add: reply_def ascii_def)
  have u: "unread (conns (cl ?s) 12) = reply ?body" using lb(2) by (simp add: answering_client_def)
  have h: "host_answer (ascii ''devices'') kTransportAny None w = Some ?body" using l by (simp add: host_answer_def)
  have p: "parse_request ?str = Some (ascii ''devices'', None, kTransportAny)" by (simp add: parse_request_def starts_def ascii_def)
  obtain w1 where w1: "?call w = Inr (- 1, w1)" "outs w1 3 = reply ?body"
    using server_writes_answer [OF w(1) _ _ _ _ _ _ _ p h, where s = 6 and k = smart_end and q = client_end and e = env0
        and st = tstate0 and hs = no_service] lb(1) w
    by (auto simp: asking_ends ascii_def client_end_def zero_sock_def)
  have "\<exists>w'. ?call w = Inr (- 1, w')
    \<and> (unread (conns (cl ?s) 12) = outs w' (sk_fd client_end) \<longrightarrow>
         (\<exists>s'. adb_commandline [] [ascii ''devices''] ?s = Inr (0, s')
            \<and> said s' = said ?s @ [Out (ascii ''List of devices attached '' @ [10]), Out (?body @ [10])]
            \<and> cput (conns (cl s') 12) = cput (conns (cl ?s) 12) @ framed ?str))"
    by (rule devices_printed [OF w(1) _ _ _ _ _ _ _ _ l _ _ _ _ _ _ f1, where k = smart_end and q = client_end and ds = "[]"])
      (use lb w in \<open>simp_all add: asking_ends client_end_def zero_sock_def answering_client_def ascii_def
        connect_log_def fmt_d_def decimal.simps\<close>)
  then obtain s' where s': "adb_commandline [] [ascii ''devices''] ?s = Inr (0, s')"
    "said s' = [Out (ascii ''List of devices attached '' @ [10]), Out (?body @ [10])]"
    using w1 u asking_ends(6) by auto
  have "ascii ''0123'' @ [9] @ ascii ''device'' @ [10, 10] = ?body @ [10]" by simp
  then show ?thesis using w(2) w1 u s' by (intro exI [of _ w] exI [of _ w1] exI [of _ ?s] exI [of _ s']) simp
qed

section \<open>Requests to a device\<close>

text \<open>A service of a device: the server is asked to switch to the device, and the device for the service.\<close>

lemma connect_device:
  assumes "dials c = f1 # f2 # ds" and "0 \<le> f1" and "0 \<le> f2" and "f1 \<noteq> f2" and "current_server (conns c f1)"
    and "switch_service c = Some sw" and "take 4 service \<noteq> ascii ''host''" and "1 \<le> length service" and lg: "length (connect_log f1 service) < 260"
    and u: "unread (conns c f2) = ascii ''OKAY'' @ ascii ''OKAY'' @ rest"
    and sp: "length sw + length service + 8 \<le> space (conns c f2)" and e: "ended_at f2 c" and lw: "length sw < 64"
  obtains c' where "adb_connect junk service c = Inr (f2, c')" "unread (conns c' f2) = rest" "ended_at f2 c'"
    "cput (conns c' f2) = cput (conns c f2) @ framed sw @ framed service" "dials c' = ds"
    "space (conns c' f2) = space (conns c f2) - (length sw + length service + 8)"
proof -
  obtain c1 where c1: "check_server junk service c = Inr (None, c\<lparr>dials := f2 # ds, conns := (conns c)(f1 := c1), hungup := hungup c @ [f1]\<rparr>)"
    by (rule check_server_current [OF assms(1,2,5) lg])
  let ?c2 = "c\<lparr>conns := (conns c)(f1 := c1), hungup := hungup c @ [f1], dials := ds\<rparr>"
  have f: "conns ?c2 f2 = conns c f2" using assms(4) by simp
  have sw: "switch_service ?c2 = Some sw" using assms(6) by (simp add: switch_service_def split: option.splits transport_type.splits)
  have u2: "unread (conns ?c2 f2) = ascii ''OKAY'' @ (ascii ''OKAY'' @ rest)" using u f by simp
  obtain k3 where k3: "request_service f2 sw ?c2 = Inr (0, ?c2\<lparr>conns := (conns ?c2)(f2 := k3)\<rparr>)" "unread k3 = ascii ''OKAY'' @ rest"
    "cput k3 = cput (conns ?c2 f2) @ framed sw" "space k3 = space (conns ?c2 f2) - (length sw + 4)"
    by (rule request_service_okay [OF u2, of sw]) (use sp f in auto)
  let ?c3 = "?c2\<lparr>conns := (conns ?c2)(f2 := k3)\<rparr>"
  obtain k4 where k4: "request_service f2 service ?c3 = Inr (0, ?c3\<lparr>conns := (conns ?c3)(f2 := k4)\<rparr>)" "unread k4 = rest"
    "cput k4 = cput (conns ?c3 f2) @ framed service" "space k4 = space (conns ?c3 f2) - (length service + 4)"
    by (rule request_service_okay [of ?c3 f2 rest service]) (use sp f k3 in simp_all)
  let ?c4 = "?c3\<lparr>conns := (conns ?c3)(f2 := k4)\<rparr>"
  have "ended_at f2 ?c2" using e f by simp
  then have e4: "ended_at f2 ?c4" using request_ended [OF k3(1)] request_ended [OF k4(1)] by blast
  have "service \<noteq> []" using assms(8) by auto
  have sh: "service \<noteq> ascii ''host:start-server''" using assms(7) by (auto simp: ascii_def)
  have "adb_connect junk service c = Inr (f2, ?c4)"
    using c1 k3(1) k4(1) sw assms(3,7) lw \<open>service \<noteq> []\<close> sh logged_service [OF lg]
    by (simp add: adb_connect_def adb_connect_once_def dial_def switch_socket_transport_def Let_def)
  then show thesis using k4 k3 f e4 by (intro that [of ?c4]) simp_all
qed

lemma read_and_dump_all:
  assumes "ended_at fd (cl s)" and "0 \<le> fd"
  obtains s' ps where "read_and_dump fd s = Inr s'" "said s' = said s @ map Out ps" "concat ps = unread (conns (cl s) fd)"
    "cput (conns (cl s') fd) = cput (conns (cl s) fd)" "hungup (cl s') = hungup (cl s)"
proof -
  obtain ps es where d: "dump_loop 4096 (cin (conns (cl s) fd)) = Some (ps, es)" "concat ps = unread (conns (cl s) fd)"
    using dump_ended [OF assms(1), of 4096] by auto
  let ?s = "s\<lparr>cl := (cl s)\<lparr>conns := (conns (cl s))(fd := (conns (cl s) fd)\<lparr>cin := es\<rparr>)\<rparr>, said := said s @ map Out ps\<rparr>"
  have "read_and_dump fd s = Inr ?s" using d(1) assms(2) by (simp add: read_and_dump_def Let_def)
  then show thesis by (rule that [of ?s ps]) (simp_all add: d(2))
qed

section \<open>Commands for a device\<close>

text \<open>C17. The commands for a device (\<open>adb remount\<close>, \<open>reboot\<close>, \<open>reboot-bootloader\<close>, \<open>tcpip\<close>, \<open>usb\<close>, \<open>root\<close>): when
  the server has the version of the client, accepts the switch to the device and the service, and the device
  answers in whatever pieces and then closes the connection, the
  client has sent the request for any device and then the service with its argument, both with their
  lengths; it prints everything that the device has to say, in order, closes its end and returns 0.  The service fits into the buffer of
  100 bytes and the line for the log, and the connection takes what is written.\<close>

theorem device_command_runs:
  assumes "cmd \<in> set device_commands"
    and "service = (if cmd = ascii ''reboot-bootloader'' then ascii ''reboot:bootloader''
      else cmd @ [58] @ (case args of [] \<Rightarrow> [] | a # _ \<Rightarrow> a))"
    and "length service < 100" and "length (connect_log f1 service) < 260"
    and "dials (cl s) = f1 # f2 # ds" and "0 \<le> f1" and "0 \<le> f2" and "f1 \<noteq> f2" and "current_server (conns (cl s) f1)"
    and "unread (conns (cl s) f2) = ascii ''OKAY'' @ ascii ''OKAY'' @ answer_text"
    and "length service + 26 \<le> space (conns (cl s) f2)" and "ended_at f2 (cl s)"
  shows "\<exists>s' ps. adb_commandline junk (cmd # args) s = Inr (0, s')
    \<and> cput (conns (cl s') f2) = cput (conns (cl s) f2) @ framed (ascii ''host:transport-any'') @ framed service
    \<and> said s' = said s @ map Out ps \<and> concat ps = answer_text \<and> f2 \<in> set (hungup (cl s'))"
proof -
  let ?s0 = "s\<lparr>cl := adb_set_transport kTransportAny None (cl s)\<rparr>" and ?sw = "ascii ''host:transport-any''"
  have c: "cmd \<noteq> ascii ''devices''" "cmd \<noteq> ascii ''connect''" "cmd \<noteq> ascii ''disconnect''" "cmd \<noteq> ascii ''kill-server''"
    "cmd \<notin> modifier_words" and h: "take 4 service \<noteq> ascii ''host''" "service \<noteq> []"
    using assms(1,2) by (auto simp: device_commands_def modifier_words_def ascii_def)
  have sw: "switch_service (cl ?s0) = Some ?sw" by (simp add: switch_service_def adb_set_transport_def)
  obtain c' where c': "adb_connect junk service (cl ?s0) = Inr (f2, c')" "unread (conns c' f2) = answer_text" "ended_at f2 c'"
    "cput (conns c' f2) = cput (conns (cl ?s0) f2) @ framed ?sw @ framed service"
    by (rule connect_device [of "cl ?s0" f1 f2 ds ?sw service answer_text])
      (use assms(4-12) sw h in \<open>auto simp: ascii_def Suc_le_eq\<close>)
  let ?s1 = "?s0\<lparr>cl := c'\<rparr>"
  obtain s2 ps where s2: "read_and_dump f2 ?s1 = Inr s2" "said s2 = said ?s1 @ map Out ps" "concat ps = unread (conns (cl ?s1) f2)"
    "cput (conns (cl s2) f2) = cput (conns (cl ?s1) f2)"
    by (rule read_and_dump_all [where fd = f2 and s = ?s1]) (use c'(3) assms(7) in auto)
  have ds: "device_service cmd args = Inr service" using assms(2,3) by (simp add: device_service_def fit_def)
  have "cmd_device junk cmd args ?s0 = Inr (0, hang_up_on f2 s2)"
    using c'(1) ds s2(1) assms(7) by (simp add: cmd_device_def on_client_def)
  then have "adb_commandline junk (cmd # args) s = Inr (0, hang_up_on f2 s2)"
    using c assms(1) enter_plain [of "cmd # args" s] by (simp add: adb_commandline_def commands.simps(2))
  then show ?thesis
    using s2 c' by (intro exI [of _ "hang_up_on f2 s2"] exI [of _ ps]) (simp add: hang_up_on_def cl_close_def)
qed

text \<open>The streams of \<open>answering_client\<close>, ended, with more room.\<close>

definition asking_console :: "byte list \<Rightarrow> console" where
  "asking_console bytes = \<lparr>cl = (answering_client bytes)\<lparr>conns := (\<lambda>fd.
     \<lparr>cin = [Avail (if fd = 11 then reply (hex4 31) else bytes), RdErr EIO], cout = [Room 2000], cput = []\<rparr>)\<rparr>, said = []\<rparr>"

lemma device_command_runs_witness:
  "\<exists>s' ps. adb_commandline [] [ascii ''tcpip'', ascii ''5555''] (asking_console (ascii ''OKAYOKAYrestarting'')) = Inr (0, s')
    \<and> cput (conns (cl s') 12) = framed (ascii ''host:transport-any'') @ framed (ascii ''tcpip:5555'')
    \<and> said s' = map Out ps \<and> concat ps = ascii ''restarting''"
proof -
  let ?s = "asking_console (ascii ''OKAYOKAYrestarting'')"
  have v: "current_server (conns (cl ?s) 11)" by (simp add: current_server_def asking_console_def reply_def ascii_def)
  have "\<exists>s' ps. adb_commandline [] (ascii ''tcpip'' # [ascii ''5555'']) ?s = Inr (0, s')
    \<and> cput (conns (cl s') 12) = cput (conns (cl ?s) 12) @ framed (ascii ''host:transport-any'') @ framed (ascii ''tcpip:5555'')
    \<and> said s' = said ?s @ map Out ps \<and> concat ps = ascii ''restarting'' \<and> 12 \<in> set (hungup (cl s'))"
    by (rule device_command_runs [OF _ _ _ _ _ _ _ _ v, where ds = "[]"])
      (simp_all add: asking_console_def answering_client_def device_commands_def connect_log_def fmt_d_def decimal.simps ascii_def)
  moreover have "said ?s = []" "cput (conns (cl ?s) 12) = []" by (simp_all add: asking_console_def)
  ultimately show ?thesis by auto
qed

section \<open>Commands that do nothing\<close>

text \<open>\<open>adb bugreport\<close> prints the help text and reports success: it runs the command \<open>shell\<close>, which this
  build does not have, and does not look at what that returns; no server is asked.\<close>

theorem bugreport_prints_help:
  "adb_commandline junk [ascii ''bugreport''] s =
     Inr (0, s\<lparr>cl := adb_set_transport kTransportAny None (cl s), said := said s @ [Help_text]\<rparr>)"
proof -
  have e: "enter [ascii c] s = Inr (s\<lparr>cl := adb_set_transport kTransportAny None (cl s)\<rparr>)" 
    if "c \<in> {''bugreport''}" for c s
    by (rule enter_plain) (use that in \<open>simp add: modifier_words_def ascii_def\<close>)
  have e2: "enter [ascii ''shell'', ascii ''bugreport''] s = Inr (s\<lparr>cl := adb_set_transport kTransportAny None (cl s)\<rparr>)" for s
    by (rule enter_plain) (simp add: modifier_words_def ascii_def)
  have t: "adb_set_transport tt x (adb_set_transport tt' y c) = adb_set_transport tt x c" for tt x tt' y c
    by (simp add: adb_set_transport_def)
  have sh: "commands junk kTransportAny None [ascii ''shell'', ascii ''bugreport''] s = Inr (1, say Help_text s)" for s
    by (simp add: commands.simps(2) device_commands_def usage_def ascii_def)
  have d: "do_argv kTransportAny None [ascii ''shell'', ascii ''bugreport''] = Some [ascii ''shell'', ascii ''bugreport'']"
    by (simp add: do_argv_def)
  have "commands junk kTransportAny None [ascii ''bugreport''] s = Inr (0, say Help_text (s\<lparr>cl := adb_set_transport kTransportAny None (cl s)\<rparr>))" for s
    using d e2 sh by (simp add: commands.simps(2) device_commands_def) (simp add: ascii_def)
  then show ?thesis by (simp add: adb_commandline_def e t say_def)
qed

end
