(* ===== verification/DeviceServices.thy ===== *)
theory DeviceServices
  imports Services Conn
begin

text \<open>
  The services that run in a thread: those of a device (\<open>adb/services.cpp\<close> and the files \<open>framebuffer_service.c\<close>, \<open>log_service.c\<close>,
  \<open>remount_service.c\<close>, \<open>backup_service.c\<close>), as a build without \<open>ADB_HOST\<close> compiles them, and the two of the
  server, \<open>dns_service\<close> and \<open>wait_for_state\<close>.  A service owns the descriptors it is given: \<open>fds\<close> are their streams, \<open>shut\<close> those that have
  been closed, \<open>setprops\<close> the system properties that have been set.  \<open>Blocks\<close> is a call that never
  returns, \<open>Wild\<close> a use of memory or of a value that the program has not set.
\<close>

datatype trouble = Blocks | Wild

record service =
  fds :: "int \<Rightarrow> conn"
  shut :: "int list"
  setprops :: "(byte list \<times> byte list) list"

definition sv_readx :: "int \<Rightarrow> nat \<Rightarrow> service \<Rightarrow> trouble + (int \<times> byte list \<times> service)" where
  "sv_readx fd n s = (case conn_readx n (fds s fd) of
     None \<Rightarrow> Inl Blocks
   | Some (r, bs, c) \<Rightarrow> Inr (r, bs, s\<lparr>fds := (fds s)(fd := c)\<rparr>))"

definition sv_writex :: "int \<Rightarrow> byte list \<Rightarrow> service \<Rightarrow> trouble + (int \<times> service)" where
  "sv_writex fd bs s = (case conn_writex bs (fds s fd) of
     None \<Rightarrow> Inl Blocks
   | Some (r, c) \<Rightarrow> Inr (r, s\<lparr>fds := (fds s)(fd := c)\<rparr>))"

definition sv_close :: "int \<Rightarrow> service \<Rightarrow> service" where
  "sv_close fd s = s\<lparr>shut := shut s @ [fd]\<rparr>"

definition property_set :: "byte list \<Rightarrow> byte list \<Rightarrow> service \<Rightarrow> service" where
  "property_set k v s = s\<lparr>setprops := setprops s @ [(k, v)]\<rparr>"

text \<open>A message, whose writing may fail, and the end of the service.\<close>

definition say_and_close :: "int \<Rightarrow> byte list \<Rightarrow> service \<Rightarrow> trouble + service" where
  "say_and_close fd bs s = sbind (sv_writex fd bs s) (\<lambda>(_, s). Inr (sv_close fd s))"

section \<open>The threads of the server\<close>

text \<open>\<open>hp\<close> is the address that \<open>gethostbyname\<close> finds.\<close>

definition dns_service :: "byte list option \<Rightarrow> int \<Rightarrow> service \<Rightarrow> trouble + service" where
  "dns_service hp fd s = say_and_close fd (case hp of None \<Rightarrow> le32_bytes 0 | Some addr \<Rightarrow> take 4 addr) s"

definition sv_sendfailmsg :: "int \<Rightarrow> byte list \<Rightarrow> service \<Rightarrow> trouble + (int \<times> service)" where
  "sv_sendfailmsg fd reason s =
     (let len = min (length reason) 0xffff in
      sbind (sv_writex fd (ascii ''FAIL'' @ hex4 len) s) (\<lambda>(r, s).
        if r \<noteq> 0 then Inr (- 1, s) else sv_writex fd (take len reason) s))"

text \<open>\<open>ws\<close> are the states of the server that the passes of \<open>acquire_one_transport\<close> find, one each second.\<close>

definition wait_for_state :: "world list \<Rightarrow> int \<Rightarrow> transport_type \<Rightarrow> byte list option \<Rightarrow> int \<Rightarrow> service \<Rightarrow> trouble + service" where
  "wait_for_state ws st tt sn fd s = (case acquire_one_transport st tt sn ws of
     None \<Rightarrow> Inl Blocks
   | Some (Inr _) \<Rightarrow> say_and_close fd (ascii ''OKAY'') s
   | Some (Inl err) \<Rightarrow> sbind (sv_sendfailmsg fd (ascii err) s) (\<lambda>(_, s). Inr (sv_close fd s)))"

section \<open>Restarting and rebooting\<close>

definition restart_root_service :: "bool \<Rightarrow> byte list \<Rightarrow> int \<Rightarrow> service \<Rightarrow> trouble + service" where
  "restart_root_service root debuggable fd s =
     (if root then say_and_close fd (ascii ''adbd is already running as root'' @ [10]) s
      else if debuggable \<noteq> ascii ''1''
      then say_and_close fd (ascii ''adbd cannot run as root in production builds'' @ [10]) s
      else say_and_close fd (ascii ''restarting adbd as root'' @ [10])
             (property_set (ascii ''service.adb.root'') (ascii ''1'') s))"

definition restart_tcp_service :: "int \<Rightarrow> int \<Rightarrow> service \<Rightarrow> trouble + service" where
  "restart_tcp_service port fd s =
     (if port \<le> 0 then say_and_close fd (ascii ''invalid port'' @ [10]) s
      else say_and_close fd (ascii ''restarting in TCP mode port: '' @ fmt_d port @ [10])
             (property_set (ascii ''service.adb.tcp.port'') (fmt_d port) s))"

definition restart_usb_service :: "int \<Rightarrow> service \<Rightarrow> trouble + service" where
  "restart_usb_service fd s = say_and_close fd (ascii ''restarting in USB mode'' @ [10])
     (property_set (ascii ''service.adb.tcp.port'') (ascii ''0'') s)"

text \<open>\<open>failure\<close> is the text of the error of \<open>android_reboot\<close>, if it returns one.\<close>

definition reboot_service :: "byte list option \<Rightarrow> int \<Rightarrow> service \<Rightarrow> trouble + service" where
  "reboot_service failure fd s = (case failure of
     None \<Rightarrow> Inr (sv_close fd s)
   | Some e \<Rightarrow> say_and_close fd (take 99 (ascii ''reboot failed: '' @ e @ [10])) s)"

section \<open>Recovery\<close>

text \<open>\<open>fd\<close> is the file; the loop ends at the first failure and the result is what is still missing.\<close>

function recover_loop :: "int \<Rightarrow> int \<Rightarrow> nat \<Rightarrow> service \<Rightarrow> trouble + (nat \<times> service)" where
  "recover_loop sk fd n s =
     (if n = 0 then Inr (0, s)
      else case sv_readx sk (min n 4096) s of
        Inl e \<Rightarrow> Inl e
      | Inr (r, buf, s) \<Rightarrow>
          if r \<noteq> 0 then Inr (n, s)
          else (case sv_writex fd buf s of
            Inl e \<Rightarrow> Inl e
          | Inr (r, s) \<Rightarrow> if r \<noteq> 0 then Inr (n, s) else recover_loop sk fd (n - min n 4096) s))"
  by pat_completeness auto
termination
  by (relation "measure (\<lambda>(sk, fd, n, s). n)") auto

declare recover_loop.simps [simp del]

text \<open>The descriptor of the mark is closed whether it could be opened or not.\<close>

definition recover_service :: "int \<Rightarrow> int \<Rightarrow> int \<Rightarrow> u32 \<Rightarrow> service \<Rightarrow> trouble + service" where
  "recover_service update mark sk n s =
     (if update < 0 then Inr (sv_close sk s)
      else sbind (recover_loop sk update (unat n) s) (\<lambda>(left_n, s).
           sbind (sv_writex sk (if left_n = 0 then ascii ''OKAY'' else ascii ''FAIL'') s) (\<lambda>(_, s).
             Inr (sv_close mark (sv_close sk (sv_close update s))))))"

section \<open>Remounting\<close>

text \<open>A word of at most \<open>n\<close> bytes (\<open>%ns\<close>, \<open>%*s\<close>) after white space.\<close>

definition scan_word :: "nat option \<Rightarrow> byte list \<Rightarrow> (byte list \<times> byte list) option" where
  "scan_word n str =
     (let s = dropWhile is_space str; x = takeWhile (\<lambda>c. \<not> is_space c) s;
          x = (case n of None \<Rightarrow> x | Some k \<Rightarrow> take k x)
      in if x = [] then None else Some (x, drop (length x) s))"

definition scan_int :: "byte list \<Rightarrow> (int \<times> byte list) option" where
  "scan_int str = (case signed_number str of None \<Rightarrow> None
     | Some i \<Rightarrow> let s = dropWhile is_space str; s = (if take 1 s = [45] \<or> take 1 s = [43] then drop 1 s else s)
                 in Some (i, dropWhile is_digit s))"

text \<open>The device and the directory of a line, if all four conversions succeed.\<close>

definition mount_line :: "byte list \<Rightarrow> (byte list \<times> byte list) option" where
  "mount_line l =
     Option.bind (scan_word (Some 255) l) (\<lambda>(dev, l).
     Option.bind (scan_word (Some 255) l) (\<lambda>(dir, l).
     Option.bind (scan_word None l) (\<lambda>(_, l).
     Option.bind (scan_word None l) (\<lambda>(_, l).
     Option.bind (scan_int l) (\<lambda>(_, l).
     Option.bind (scan_int l) (\<lambda>_. Some (dev, dir)))))))"

text \<open>\<open>mounts\<close> is what one \<open>read\<close> of \<open>/proc/mounts\<close> gives; the bytes behind it are \<open>junk\<close>, what the
  stack held, up to the zero in the last of the 4096 bytes.\<close>

definition mount_text :: "byte list \<Rightarrow> byte list \<Rightarrow> byte list" where
  "mount_text junk mounts = (let d = take 4095 mounts in cstr (take 4095 (d @ drop (length d) junk)))"

definition find_mount :: "byte list \<Rightarrow> byte list option \<Rightarrow> byte list \<Rightarrow> byte list option" where
  "find_mount junk mounts dir = (case mounts of
     None \<Rightarrow> None
   | Some bs \<Rightarrow> Option.bind (find (\<lambda>l. case mount_line l of None \<Rightarrow> False | Some (_, d) \<Rightarrow> d = dir) (tokens 10 (mount_text junk bs)))
       (\<lambda>l. map_option fst (mount_line l)))"

text \<open>The result and the new \<open>system_ro\<close>; \<open>mount\<close> is the system call.\<close>

definition remount_system :: "byte list \<Rightarrow> byte list option \<Rightarrow> (byte list \<Rightarrow> int) \<Rightarrow> int \<Rightarrow> int \<times> int" where
  "remount_system junk mounts mount system_ro =
     (if system_ro = 0 then (0, 0)
      else case find_mount junk mounts (ascii ''/system'') of
        None \<Rightarrow> (- 1, system_ro)
      | Some dev \<Rightarrow> (mount dev, mount dev))"

definition remount_service ::
    "byte list \<Rightarrow> byte list option \<Rightarrow> (byte list \<Rightarrow> int) \<Rightarrow> byte list \<Rightarrow> int \<Rightarrow> int \<Rightarrow> service \<Rightarrow> trouble + (int \<times> service)" where
  "remount_service junk mounts mount strerror system_ro fd s =
     (case remount_system junk mounts mount system_ro of (r, ro) \<Rightarrow>
       sbind (say_and_close fd (if r = 0 then ascii ''remount succeeded'' @ [10]
         else take 199 (ascii ''remount failed: '' @ strerror @ [10])) s) (\<lambda>s. Inr (ro, s)))"

section \<open>The screen\<close>

definition DDMS_RAWIMAGE_VERSION :: u32 where "DDMS_RAWIMAGE_VERSION = 1"

record fbinfo =
  bpp :: u32
  fb_size :: u32
  width :: u32
  height :: u32
  red :: "u32 \<times> u32"
  blue :: "u32 \<times> u32"
  green :: "u32 \<times> u32"
  alpha :: "u32 \<times> u32"

text \<open>The offset and the length of each colour.\<close>

definition fb_format :: "u32 \<Rightarrow> u32 \<Rightarrow> u32 \<Rightarrow> fbinfo option" where
  "fb_format w h f =
     (if f = 1 then Some \<lparr>bpp = 32, fb_size = w * h * 4, width = w, height = h, red = (0, 8), blue = (16, 8), green = (8, 8), alpha = (24, 8)\<rparr>
      else if f = 2 then Some \<lparr>bpp = 32, fb_size = w * h * 4, width = w, height = h, red = (0, 8), blue = (16, 8), green = (8, 8), alpha = (24, 0)\<rparr>
      else if f = 3 then Some \<lparr>bpp = 24, fb_size = w * h * 3, width = w, height = h, red = (0, 8), blue = (16, 8), green = (8, 8), alpha = (24, 0)\<rparr>
      else if f = 4 then Some \<lparr>bpp = 16, fb_size = w * h * 2, width = w, height = h, red = (11, 5), blue = (0, 5), green = (5, 6), alpha = (0, 0)\<rparr>
      else if f = 5 then Some \<lparr>bpp = 32, fb_size = w * h * 4, width = w, height = h, red = (16, 8), blue = (0, 8), green = (8, 8), alpha = (24, 8)\<rparr>
      else None)"

text \<open>The packed structure, in the order of its declaration.\<close>

definition fb_header :: "fbinfo \<Rightarrow> byte list" where
  "fb_header b = concat (map le32_bytes [DDMS_RAWIMAGE_VERSION, bpp b, fb_size b, width b, height b,
     fst (red b), snd (red b), fst (blue b), snd (blue b), fst (green b), snd (green b), fst (alpha b), snd (alpha b)])"

text \<open>A piece of \<open>n\<close> bytes from the pipe to the client.\<close>

definition fb_piece :: "int \<Rightarrow> int \<Rightarrow> nat \<Rightarrow> service \<Rightarrow> trouble + (bool \<times> service)" where
  "fb_piece pipe fd n s = sbind (sv_readx pipe n s) (\<lambda>(r, buf, s).
     if r \<noteq> 0 then Inr (False, s) else sbind (sv_writex fd buf s) (\<lambda>(r, s). Inr (r = 0, s)))"

lemma sv_readx_unread:
  "sv_readx fd n s = Inr (0, buf, s') \<Longrightarrow> length (unread (fds s fd)) = n + length (unread (fds s' fd))"
proof -
  assume "sv_readx fd n s = Inr (0, buf, s')"
  then obtain c where c: "conn_readx n (fds s fd) = Some (0, buf, c)" and s': "s' = s\<lparr>fds := (fds s)(fd := c)\<rparr>"
    by (auto simp: sv_readx_def split: option.splits)
  from conn_readx_ok [OF c] show ?thesis by (simp add: s')
qed

lemma sv_writex_unread: "sv_writex fd bs s = Inr (r, s') \<Longrightarrow> unread (fds s' g) = unread (fds s g)"
  by (auto simp: sv_writex_def split: option.splits dest: conn_writex_frame)

lemma fb_piece_unread:
  "fb_piece pipe fd n s = Inr (True, s') \<Longrightarrow> length (unread (fds s pipe)) = n + length (unread (fds s' pipe))"
  by (auto simp: fb_piece_def sbind_Inr_iff split: if_splits dest!: sv_readx_unread dest: sv_writex_unread [where g = pipe])

text \<open>The loop counts in 32 bits.\<close>

function fb_loop :: "int \<Rightarrow> int \<Rightarrow> u32 \<Rightarrow> u32 \<Rightarrow> service \<Rightarrow> trouble + (bool \<times> service)" where
  "fb_loop pipe fd i sz s =
     (if i < sz then
        (case fb_piece pipe fd 640 s of
           Inl e \<Rightarrow> Inl e
         | Inr (ok, s) \<Rightarrow> if ok then fb_loop pipe fd (i + 640) sz s else Inr (False, s))
      else Inr (True, s))"
  by pat_completeness auto
termination
  by (relation "measure (\<lambda>(pipe, fd, i, sz, s). length (unread (fds s pipe)))") (auto dest: fb_piece_unread)

declare fb_loop.simps [simp del]

text \<open>The child that takes the picture writes to a pipe; \<open>child_ends\<close> says whether it ends, given the state of
  the pipe, while the service waits for it.\<close>

definition read_word :: "int \<Rightarrow> service \<Rightarrow> trouble + (u32 option \<times> service)" where
  "read_word pipe s = sbind (sv_readx pipe 4 s) (\<lambda>(r, b, s). Inr (if r \<noteq> 0 then None else Some (le32_of b), s))"

definition fb_send :: "int \<Rightarrow> int \<Rightarrow> service \<Rightarrow> trouble + service" where
  "fb_send pipe fd s = sbind (read_word pipe s) (\<lambda>(w, s). case w of None \<Rightarrow> Inr s | Some w \<Rightarrow>
     sbind (read_word pipe s) (\<lambda>(h, s). case h of None \<Rightarrow> Inr s | Some h \<Rightarrow>
     sbind (read_word pipe s) (\<lambda>(f, s). case f of None \<Rightarrow> Inr s | Some f \<Rightarrow>
     (case fb_format w h f of
        None \<Rightarrow> Inr s
      | Some b \<Rightarrow> sbind (sv_writex fd (fb_header b) s) (\<lambda>(r, s).
          if r \<noteq> 0 then Inr s
          else sbind (fb_loop pipe fd 0 (fb_size b) s) (\<lambda>(ok, s).
            if \<not> ok then Inr s
            else sbind (fb_piece pipe fd (unat (fb_size b mod 640)) s) (\<lambda>(_, s). Inr s)))))))"

definition framebuffer_service :: "(int \<times> int) option \<Rightarrow> bool \<Rightarrow> (conn \<Rightarrow> bool) \<Rightarrow> int \<Rightarrow> service \<Rightarrow> trouble + service" where
  "framebuffer_service pipes forked child_ends fd s = (case pipes of
     None \<Rightarrow> Inl Wild
   | Some (rd, wr) \<Rightarrow> sbind (if forked then fb_send rd fd s else Inr s) (\<lambda>s.
       if \<not> child_ends (fds s rd) then Inl Blocks
       else Inr (sv_close fd (sv_close wr (sv_close rd s)))))"

section \<open>The log\<close>

definition LOG_FILE_DIR :: "byte list" where "LOG_FILE_DIR = ascii ''/dev/log/''"

definition get_log_file_path :: "byte list \<Rightarrow> byte list" where
  "get_log_file_path log_name = LOG_FILE_DIR @ log_name"

definition LOGGER_ENTRY_MAX_LEN :: nat where "LOGGER_ENTRY_MAX_LEN = 5 * 1024"

text \<open>The length of the payload, behind a header of 20 bytes.\<close>

definition entry_len :: "byte list \<Rightarrow> nat" where
  "entry_len buf = unat (buf ! 0) + 256 * unat (buf ! 1)"

definition write_log_entry :: "int \<Rightarrow> byte list \<Rightarrow> service \<Rightarrow> trouble + service" where
  "write_log_entry fd buf s = sbind (sv_writex fd (take (20 + entry_len buf) buf) s) (\<lambda>(_, s). Inr s)"

text \<open>\<open>evs\<close> are the answers of the log device; \<open>buf\<close> has one byte more than an entry.\<close>

fun log_loop :: "int \<Rightarrow> byte list \<Rightarrow> rd_ev list \<Rightarrow> service \<Rightarrow> trouble + service" where
  "log_loop fd buf [] s = Inl Blocks"
| "log_loop fd buf (RdErr e # evs) s = (if e = EINTR \<or> e = EAGAIN then log_loop fd buf evs s else Inr s)"
| "log_loop fd buf (Avail bs # evs) s =
     (if bs = [] then Inr s
      else let buf = take LOGGER_ENTRY_MAX_LEN bs @ drop (min (length bs) LOGGER_ENTRY_MAX_LEN) buf in
        if 20 + entry_len buf \<ge> length buf then Inl Wild
        else let buf = buf[20 + entry_len buf := 0] in
          sbind (write_log_entry fd buf s) (log_loop fd buf evs))"

definition log_service :: "byte list \<Rightarrow> rd_ev list option \<Rightarrow> int \<Rightarrow> service \<Rightarrow> trouble + service" where
  "log_service junk logfd fd s = (case logfd of
     None \<Rightarrow> Inr (sv_close fd s)
   | Some evs \<Rightarrow> sbind (log_loop fd junk evs s) (\<lambda>s. Inr (sv_close fd s)))"

section \<open>Backups\<close>

text \<open>The words of the argument: the first loop counts them, the second one keeps them.\<close>

function backup_words :: "byte list \<Rightarrow> byte list list" where
  "backup_words p = (if p = [] then []
     else takeWhile (\<lambda>c. c \<noteq> 58) p # backup_words (drop 1 (dropWhile (\<lambda>c. c \<noteq> 58) p)))"
  by pat_completeness auto
termination
proof (relation "measure length", goal_cases)
  case (2 p)
  have "length (dropWhile (\<lambda>c. c \<noteq> 58) p) \<le> length p" by (rule length_dropWhile_le)
  with 2 have "length (dropWhile (\<lambda>c. c \<noteq> 58) p) - 1 < length p" by (cases p) auto
  then show ?case by simp
qed simp

declare backup_words.simps [simp del]

text \<open>The arguments of the child, the bytes of its array of pointers, and the bytes that are written to it.\<close>

definition backup_child :: "nat \<Rightarrow> byte list \<Rightarrow> int \<Rightarrow> byte list option \<Rightarrow> byte list list \<times> nat \<times> nat" where
  "backup_child psize operation port args =
     (let ws = backup_words (case args of None \<Rightarrow> [] | Some a \<Rightarrow> a); argc = 3 + length ws
      in (ascii ''bu'' # fmt_d port # operation # ws, argc * psize + 1, (argc + 1) * psize))"

text \<open>The parent: its end of the pair, whether the thread that waits for the child runs, and what has been closed.\<close>

definition backup_service :: "(int \<times> int) option \<Rightarrow> int \<Rightarrow> bool \<Rightarrow> int \<times> bool \<times> int list" where
  "backup_service pair pid threaded = (case pair of
     None \<Rightarrow> (- 1, False, [])
   | Some (a, b) \<Rightarrow> if pid < 0 then (- 1, False, [a, b])
       else if threaded then (a, True, [b]) else (- 1, False, [b, a]))"

section \<open>Shells\<close>

definition SHELL_COMMAND :: "byte list" where "SHELL_COMMAND = ascii ''/system/bin/sh''"

text \<open>The parent of \<open>create_subprocess\<close>: its result, \<open>*pid\<close> if it is set, the command lines of the children that
  run at the other end of the terminal, and what is closed.\<close>

definition create_subprocess ::
    "int \<Rightarrow> bool \<Rightarrow> int \<Rightarrow> byte list list \<Rightarrow> int \<times> int option \<times> byte list list list \<times> int list" where
  "create_subprocess ptm granted forked argv =
     (if ptm < 0 then (- 1, None, [], [])
      else if \<not> granted then (- 1, None, [], [ptm])
      else if forked < 0 then (- 1, Some forked, [], [ptm])
      else (ptm, Some forked, [argv], []))"

text \<open>The thread that waits; \<open>evs\<close> are the results of \<open>waitpid\<close>, whose status is that of an end.\<close>

definition waiter_ends :: "int \<Rightarrow> int list \<Rightarrow> bool" where
  "waiter_ends pid evs \<longleftrightarrow> pid \<in> set evs"

definition subproc_waiter_service :: "int \<Rightarrow> int \<Rightarrow> int \<Rightarrow> int list \<Rightarrow> service \<Rightarrow> trouble + service" where
  "subproc_waiter_service notify fd pid evs s =
     (if \<not> waiter_ends pid evs then Inl Blocks
      else if notify < 0 then Inr s
      else sbind (sv_writex notify (le32_bytes (word_of_int fd)) s) (\<lambda>(_, s). Inr s))"

section \<open>The table of services\<close>

datatype device_job =
    Framebuffer | Recover u32 | Log "byte list" | File_sync | Remount | Reboot "byte list"
  | Restart_root | Restart_tcp int | Restart_usb | Waiter int | Child "byte list list"

datatype namespace = Reserved | Abstract | Filesystem

record device_env = service_env +
  d_local :: "byte list \<Rightarrow> namespace \<Rightarrow> int"
  d_open :: "byte list \<Rightarrow> int"
  d_recovery :: bool
  d_jdwp :: "int \<Rightarrow> int"
  d_ptm :: int
  d_granted :: bool
  d_forked :: int

text \<open>A child counts as a thread at the terminal; it runs on when the thread that waits for it cannot be started.\<close>

definition create_subproc_thread ::
    "'a device_env_scheme \<Rightarrow> byte list option \<Rightarrow> trouble + (int \<times> (device_job \<times> int) list \<times> int list)" where
  "create_subproc_thread e name =
     (let argv = SHELL_COMMAND # (case name of None \<Rightarrow> [ascii ''-''] | Some c \<Rightarrow> [ascii ''-c'', c]) in
      case create_subprocess (d_ptm e) (d_granted e) (d_forked e) argv of (fd, pid, children, gone) \<Rightarrow>
      (case pid of None \<Rightarrow> Inl Wild
       | Some pid \<Rightarrow> let jobs = map (\<lambda>c. (Child c, fd)) children in
           Inr (if s_thread e then (fd, jobs @ [(Waiter pid, fd)], gone) else (- 1, jobs, gone @ [fd]))))"

definition service_thread :: "'a device_env_scheme \<Rightarrow> device_job \<Rightarrow> trouble + (int \<times> (device_job \<times> int) list \<times> int list)" where
  "service_thread e j = Inr (create_service_thread (service_env.truncate e) j)"

definition device_service_to_fd :: "'a device_env_scheme \<Rightarrow> byte list \<Rightarrow> trouble + (int \<times> (device_job \<times> int) list \<times> int list)" where
  "device_service_to_fd e name =
     (let arg = (\<lambda>n. drop n name); given = (\<lambda>fd. Inr (fd, [], [])) in
      if starts (ascii ''tcp:'') name then
        given (if 58 \<in> set (arg 4) then - 1 else s_loopback e (atoi (arg 4)))
      else if starts (ascii ''local:'') name then given (d_local e (arg 6) Reserved)
      else if starts (ascii ''localreserved:'') name then given (d_local e (arg 14) Reserved)
      else if starts (ascii ''localabstract:'') name then given (d_local e (arg 14) Abstract)
      else if starts (ascii ''localfilesystem:'') name then given (d_local e (arg 16) Filesystem)
      else if starts (ascii ''dev:'') name then given (d_open e (arg 4))
      else if starts (ascii ''framebuffer:'') name then service_thread e Framebuffer
      else if d_recovery e \<and> starts (ascii ''recover:'') name then service_thread e (Recover (word_of_int (atoi (arg 8))))
      else if starts (ascii ''jdwp:'') name then given (d_jdwp e (atoi (arg 5)))
      else if starts (ascii ''log:'') name then service_thread e (Log (get_log_file_path (arg 4)))
      else if starts (ascii ''shell:'') name then create_subproc_thread e (if arg 6 = [] then None else Some (arg 6))
      else if starts (ascii ''sync:'') name then service_thread e File_sync
      else if starts (ascii ''remount:'') name then service_thread e Remount
      else if starts (ascii ''reboot:'') name then service_thread e (Reboot (arg 7))
      else if starts (ascii ''root:'') name then service_thread e Restart_root
      else if starts (ascii ''backup:'') name \<or> starts (ascii ''restore:'') name then
        (case backup_service (s_pair e) (d_forked e) (s_thread e) of (fd, _, gone) \<Rightarrow> Inr (fd, [], gone))
      else if starts (ascii ''tcpip:'') name then
        (case sscanf_d (arg 6) of (r, port) \<Rightarrow>
           if r = 0 then service_thread e (Restart_tcp 0)
           else case port of None \<Rightarrow> Inl Wild | Some port \<Rightarrow> service_thread e (Restart_tcp port))
      else if starts (ascii ''usb:'') name then service_thread e Restart_usb
      else given (- 1))"

end
