(* ===== verification/DeviceServicesProps.thy ===== *)
theory DeviceServicesProps
  imports DeviceServices
begin

text \<open>
  What the services of \<open>DeviceServices\<close> do to their connections: an image for recovery is stored byte by byte
  and confirmed, a picture of the screen is sent whole when its size is a multiple of the 640 bytes of the
  buffer and makes the service wait forever otherwise, and the table of services reads a port that was never set.
\<close>

section \<open>Reading and writing\<close>

lemma sv_readx_have:
  assumes "unread (fds s fd) = bs @ rest" and "length bs = n"
  obtains s' where "sv_readx fd n s = Inr (0, bs, s')" and "unread (fds s' fd) = rest"
    and "\<And>g. cput (fds s' g) = cput (fds s g)" and "\<And>g. cout (fds s' g) = cout (fds s g)"
    and "\<And>g. g \<noteq> fd \<Longrightarrow> fds s' g = fds s g" and "shut s' = shut s"
proof -
  obtain c where c: "conn_readx n (fds s fd) = Some (0, bs, c)" "unread c = rest" "c = (fds s fd)\<lparr>cin := cin c\<rparr>"
    by (rule conn_readx_have [OF assms])
  note fr = conn_readx_frame [OF c(1)]
  have r: "sv_readx fd n s = Inr (0, bs, s\<lparr>fds := (fds s)(fd := c)\<rparr>)" using c(1) by (simp add: sv_readx_def)
  show thesis by (rule that [OF r]) (simp_all add: c(2) fr)
qed

lemma sv_writex_fits:
  assumes "length bs \<le> space (fds s fd)"
  obtains s' where "sv_writex fd bs s = Inr (0, s')" and "cput (fds s' fd) = cput (fds s fd) @ bs"
    and "space (fds s' fd) = space (fds s fd) - length bs" and "\<And>g. cin (fds s' g) = cin (fds s g)"
    and "\<And>g. g \<noteq> fd \<Longrightarrow> fds s' g = fds s g" and "shut s' = shut s"
proof -
  obtain c where c: "conn_writex bs (fds s fd) = Some (0, c)" "cput c = cput (fds s fd) @ bs"
      "space c = space (fds s fd) - length bs" "c = (fds s fd)\<lparr>cout := cout c, cput := cput c\<rparr>"
    by (rule conn_writex_fits [OF assms])
  note fr = conn_writex_frame [OF c(1)]
  have r: "sv_writex fd bs s = Inr (0, s\<lparr>fds := (fds s)(fd := c)\<rparr>)" using c(1) by (simp add: sv_writex_def)
  show thesis by (rule that [OF r]) (simp_all add: c(2,3) fr)
qed

text \<open>A descriptor whose writer neither ends nor fails: what is missing is waited for.\<close>

definition lively :: "rd_ev list \<Rightarrow> bool" where
  "lively evs \<longleftrightarrow> (\<forall>e \<in> set evs. e = RdErr EINTR \<or> (\<exists>b bs. e = Avail (b # bs)))"

lemma lively_simps [simp]: "lively []" "lively (RdErr e # evs) \<longleftrightarrow> e = EINTR \<and> lively evs"
  "lively (Avail bs # evs) \<longleftrightarrow> bs \<noteq> [] \<and> lively evs"
  by (auto simp: lively_def neq_Nil_conv)

lemma lively_adb_read:
  assumes "adb_read n evs = Some (r, evs')" and "lively evs" and "n \<noteq> 0"
  shows "lively evs'" and "(\<exists>bs. r = Got bs) \<or> r = RdFail EINTR"
  using assms by (induction n evs rule: adb_read.induct) (auto split: if_splits)

lemma lively_readx: "readx n evs = Some ((r, bs), evs') \<Longrightarrow> lively evs \<Longrightarrow> r = 0 \<and> lively evs'"
proof (induction n evs arbitrary: bs rule: readx.induct)
  case (1 n evs)
  show ?case
  proof (cases "n = 0")
    case True
    then show ?thesis using "1.prems" by simp
  next
    case n: False
    obtain x es where x: "adb_read n evs = Some (x, es)"
      using "1.prems"(1) n by (auto simp: readx.simps [of n evs] split: option.splits)
    note q = lively_adb_read [OF x "1.prems"(2) n]
    from q(2) show ?thesis
    proof
      assume "\<exists>bs. x = Got bs"
      then obtain b where b: "x = Got b" ..
      then obtain more where more: "readx (n - length b) es = Some ((r, more), evs')"
        using "1.prems"(1) n x by (auto simp: readx.simps [of n evs] split: option.splits)
      show ?thesis by (rule "1.IH"(1) [OF n x refl b more q(1)])
    next
      assume e: "x = RdFail EINTR"
      then have r: "readx n es = Some ((r, bs), evs')" using "1.prems"(1) n x by (simp add: readx.simps [of n evs])
      show ?thesis by (rule "1.IH"(2) [OF n x refl e refl r q(1)])
    qed
  qed
qed

lemma lively_stalls: "lively (cin (fds s fd)) \<Longrightarrow> length (unread (fds s fd)) < n \<Longrightarrow> sv_readx fd n s = Inl Blocks"
proof -
  assume q: "lively (cin (fds s fd))" and n: "length (unread (fds s fd)) < n"
  have "readx n (cin (fds s fd)) = None"
  proof (cases "readx n (cin (fds s fd))")
    case (Some a)
    then obtain r bs evs where "readx n (cin (fds s fd)) = Some ((r, bs), evs)" by (cases a) (auto split: prod.splits)
    with lively_readx [OF this q] readx_result [OF this] n show ?thesis by simp
  qed
  then show ?thesis by (simp add: sv_readx_def conn_readx_def)
qed

lemma lively_sv_readx: "sv_readx fd n s = Inr (r, bs, s') \<Longrightarrow> lively (cin (fds s fd)) \<Longrightarrow> lively (cin (fds s' fd))"
  by (auto simp: sv_readx_def conn_readx_def split: option.splits dest: lively_readx)

section \<open>Waiting for a device\<close>

text \<open>A pass finds the device: it is the only accessible one that matches, and it is online.\<close>

definition online :: "transport_type \<Rightarrow> byte list \<Rightarrow> world \<Rightarrow> bool" where
  "online tt sn w \<longleftrightarrow> (case candidates tt (Some sn) w of [(a, t)] \<Rightarrow> connection_state t = CS_DEVICE | _ \<Rightarrow> False)"

lemma online_pass: "online tt sn w \<longleftrightarrow> (\<exists>a. acquire_pass CS_DEVICE tt (Some sn) w = Inr (Inr a))"
  by (auto simp: acquire_pass_spec online_def cs_defs split: list.splits prod.splits)

lemma patient_pass: "\<not> online tt sn w \<Longrightarrow> acquire_pass CS_DEVICE tt (Some sn) w = Inl ()"
  by (auto simp: online_pass acquire_pass_def Let_def cs_defs split: prod.splits option.splits if_splits)

text \<open>C19. Waiting for a device by its serial number.  The client gets OKAY, and the connection is closed, if in
  one of the passes exactly one accessible device matches the serial number and it is online; as long as
  there is none, also while several devices match, the service neither answers nor fails.\<close>

theorem wait_until_online:
  assumes "4 \<le> space (fds s fd)"
  shows "if \<exists>w \<in> set ws. online tt sn w
    then \<exists>s'. wait_for_state ws CS_DEVICE tt (Some sn) fd s = Inr s' \<and> cput (fds s' fd) = cput (fds s fd) @ ascii ''OKAY''
      \<and> shut s' = shut s @ [fd]
    else wait_for_state ws CS_DEVICE tt (Some sn) fd s = Inl Blocks"
proof -
  have a: "if \<exists>w \<in> set ws. online tt sn w then \<exists>a. acquire_one_transport CS_DEVICE tt (Some sn) ws = Some (Inr a)
      else acquire_one_transport CS_DEVICE tt (Some sn) ws = None"
  proof (induction ws)
    case (Cons w ws)
    then show ?case by (cases "online tt sn w") (auto simp: patient_pass dest: online_pass [THEN iffD1])
  qed simp
  have "length (ascii ''OKAY'') \<le> space (fds s fd)" using assms by (simp add: ascii_def)
  then obtain s1 where s1: "sv_writex fd (ascii ''OKAY'') s = Inr (0, s1)" "cput (fds s1 fd) = cput (fds s fd) @ ascii ''OKAY''" "shut s1 = shut s"
    by (rule sv_writex_fits) blast
  show ?thesis using a by (auto simp: wait_for_state_def say_and_close_def s1 sv_close_def split: if_splits)
qed

definition waiting_example :: service where
  "waiting_example = \<lparr>fds = (\<lambda>g. \<lparr>cin = [], cout = [Room 4], cput = []\<rparr>), shut = [], setprops = []\<rparr>"

text \<open>The first pass finds nobody, the second one the device.\<close>

theorem wait_until_online_witness:
  "\<exists>s'. wait_for_state [listing_world [], listing_world [sample_transport]] CS_DEVICE kTransportAny (Some (ascii ''0123'')) 7 waiting_example = Inr s'
     \<and> cput (fds s' 7) = ascii ''OKAY'' \<and> shut s' = [7]"
proof -
  let ?ws = "[listing_world [], listing_world [sample_transport]]" and ?sn = "ascii ''0123''"
  have "online kTransportAny ?sn (listing_world [sample_transport])"
    by (simp add: online_def candidates_def transports_in_def List.map_filter_def listing_world_def wanted_def serial_matches_def
        sample_transport_def cs_defs ascii_def)
  then have "\<exists>w \<in> set ?ws. online kTransportAny ?sn w" by simp
  then show ?thesis using wait_until_online [of waiting_example 7 ?ws kTransportAny ?sn] by (simp add: waiting_example_def)
qed

section \<open>Recovery\<close>

lemma recover_loop_stores:
  assumes "unread (fds s sk) = img @ rest" and "length img \<le> space (fds s fd)" and "sk \<noteq> fd"
  obtains s' where "recover_loop sk fd (length img) s = Inr (0, s')" and "cput (fds s' fd) = cput (fds s fd) @ img"
    and "cput (fds s' sk) = cput (fds s sk)" and "cout (fds s' sk) = cout (fds s sk)" and "shut s' = shut s"
proof -
  have "\<exists>s'. recover_loop sk fd (length img) s = Inr (0, s') \<and> cput (fds s' fd) = cput (fds s fd) @ img
      \<and> cput (fds s' sk) = cput (fds s sk) \<and> cout (fds s' sk) = cout (fds s sk) \<and> shut s' = shut s"
    using assms(1,2)
  proof (induction "length img" arbitrary: img s rule: less_induct)
    case less
    show ?case
    proof (cases "img = []")
      case True
      then show ?thesis by (simp add: recover_loop.simps)
    next
      case False
      define k where "k = min (length img) 4096"
      have k: "0 < k" "k \<le> length img" using False by (auto simp: k_def)
      have u: "unread (fds s sk) = take k img @ (drop k img @ rest)" using less.prems(1) by simp
      have l: "length (take k img) = k" using k by simp
      obtain s1 where s1: "sv_readx sk k s = Inr (0, take k img, s1)" "unread (fds s1 sk) = drop k img @ rest"
          "\<And>g. cput (fds s1 g) = cput (fds s g)" "\<And>g. cout (fds s1 g) = cout (fds s g)"
          "\<And>g. g \<noteq> sk \<Longrightarrow> fds s1 g = fds s g" "shut s1 = shut s"
        by (rule sv_readx_have [OF u l]) (rule that)
      have "length (take k img) \<le> space (fds s1 fd)" using less.prems(2) k by (simp add: s1(4))
      then obtain s2 where s2: "sv_writex fd (take k img) s1 = Inr (0, s2)" "cput (fds s2 fd) = cput (fds s1 fd) @ take k img"
          "space (fds s2 fd) = space (fds s1 fd) - length (take k img)" "\<And>g. cin (fds s2 g) = cin (fds s1 g)"
          "\<And>g. g \<noteq> fd \<Longrightarrow> fds s2 g = fds s1 g" "shut s2 = shut s1"
        by (rule sv_writex_fits) (rule that)
      have "length (drop k img) < length img" using k by simp
      moreover have "unread (fds s2 sk) = drop k img @ rest" using s1(2) s2(4) by simp
      moreover have "length (drop k img) \<le> space (fds s2 fd)" using less.prems(2) k by (simp add: s2(3) s1(4))
      ultimately obtain s' where s': "recover_loop sk fd (length (drop k img)) s2 = Inr (0, s')"
          "cput (fds s' fd) = cput (fds s2 fd) @ drop k img" "cput (fds s' sk) = cput (fds s2 sk)"
          "cout (fds s' sk) = cout (fds s2 sk)" "shut s' = shut s2"
        using less.hyps [of "drop k img" s2] by blast
      have e: "recover_loop sk fd (length img) s = recover_loop sk fd (length (drop k img)) s2"
        using False s1(1) s2(1) by (simp add: recover_loop.simps [of sk fd "length img"] k_def)
      show ?thesis using s' s2(2,6) s2(5) [OF assms(3)] s1(3,4,6) by (intro exI [of _ s']) (simp add: e)
    qed
  qed
  then show thesis using that by blast
qed

text \<open>An image for recovery arrives whole.  When the file can be created and written, exactly the announced
  number of bytes of the connection are stored in it, in order, the connection gets OKAY, and the file, the
  connection and the mark are closed, each once.\<close>

theorem recovery_stored:
  assumes "unread (fds s sk) = img @ rest" and "length img = unat n" and "length img \<le> space (fds s update)"
    and "4 \<le> space (fds s sk)" and "0 \<le> update" and "sk \<noteq> update"
  shows "\<exists>s'. recover_service update mark sk n s = Inr s' \<and> cput (fds s' update) = cput (fds s update) @ img
     \<and> cput (fds s' sk) = cput (fds s sk) @ ascii ''OKAY'' \<and> shut s' = shut s @ [update, sk, mark]"
proof -
  obtain s1 where s1: "recover_loop sk update (length img) s = Inr (0, s1)" "cput (fds s1 update) = cput (fds s update) @ img"
      "cput (fds s1 sk) = cput (fds s sk)" "cout (fds s1 sk) = cout (fds s sk)" "shut s1 = shut s"
    by (rule recover_loop_stores [OF assms(1,3,6)])
  have "length (ascii ''OKAY'') \<le> space (fds s1 sk)" using assms(4) s1(4) by (simp add: ascii_def)
  then obtain s2 where s2: "sv_writex sk (ascii ''OKAY'') s1 = Inr (0, s2)" "cput (fds s2 sk) = cput (fds s1 sk) @ ascii ''OKAY''"
      "\<And>g. g \<noteq> sk \<Longrightarrow> fds s2 g = fds s1 g" "shut s2 = shut s1"
    by (rule sv_writex_fits) blast
  show ?thesis
    using assms(5,6) s1 s2(1,2,4) s2(3) [of update] by (simp add: recover_service_def assms(2) sv_close_def)
qed

definition recovery_example :: service where
  "recovery_example = \<lparr>fds = (\<lambda>g. if g = 3 then \<lparr>cin = [Avail [1, 2], RdErr EINTR, Avail [3, 4]], cout = [Room 9], cput = []\<rparr>
     else \<lparr>cin = [], cout = [Room 9], cput = []\<rparr>), shut = [], setprops = []\<rparr>"

theorem recovery_stored_witness:
  "\<exists>s'. recover_service 4 5 3 3 recovery_example = Inr s' \<and> cput (fds s' 4) = [1, 2, 3]
     \<and> cput (fds s' 3) = ascii ''OKAY'' \<and> shut s' = [4, 3, 5]"
  using recovery_stored [of recovery_example 3 "[1, 2, 3]" "[4]" 3 4 5] by (simp add: recovery_example_def)

section \<open>The screen\<close>

lemma fb_piece_sends:
  assumes "unread (fds s pipe) = bs @ rest" and "length bs \<le> space (fds s fd)" and "pipe \<noteq> fd" and "lively (cin (fds s pipe))"
  obtains s' where "fb_piece pipe fd (length bs) s = Inr (True, s')" and "unread (fds s' pipe) = rest"
    and "cput (fds s' fd) = cput (fds s fd) @ bs" and "space (fds s' fd) = space (fds s fd) - length bs"
    and "shut s' = shut s" and "lively (cin (fds s' pipe))"
proof -
  obtain s1 where s1: "sv_readx pipe (length bs) s = Inr (0, bs, s1)" "unread (fds s1 pipe) = rest"
      "\<And>g. cput (fds s1 g) = cput (fds s g)" "\<And>g. cout (fds s1 g) = cout (fds s g)" "shut s1 = shut s"
    by (rule sv_readx_have [OF assms(1) refl]) (rule that)
  have "length bs \<le> space (fds s1 fd)" using assms(2) by (simp add: s1(4))
  then obtain s2 where s2: "sv_writex fd bs s1 = Inr (0, s2)" "cput (fds s2 fd) = cput (fds s1 fd) @ bs"
      "space (fds s2 fd) = space (fds s1 fd) - length bs" "\<And>g. cin (fds s2 g) = cin (fds s1 g)" "shut s2 = shut s1"
    by (rule sv_writex_fits) (rule that)
  show thesis
    using s1(1,2,5) s2 lively_sv_readx [OF s1(1) assms(4)] by (intro that [of s2]) (simp_all add: fb_piece_def s1(3,4))
qed

text \<open>Whole pieces are sent; what is left of less than a piece is waited for.\<close>

lemma fb_loop_runs:
  assumes "unread (fds s pipe) = px" and "length px = unat sz - unat i" and "i \<le> sz" and "length px \<le> space (fds s fd)"
    and "pipe \<noteq> fd" and "lively (cin (fds s pipe))"
  shows "if length px mod 640 = 0
    then \<exists>s'. fb_loop pipe fd i sz s = Inr (True, s') \<and> unread (fds s' pipe) = [] \<and> cput (fds s' fd) = cput (fds s fd) @ px
      \<and> shut s' = shut s
    else fb_loop pipe fd i sz s = Inl Blocks"
  using assms(1-4,6)
proof (induction "length px" arbitrary: px i s rule: less_induct)
  case less
  consider (none) "px = []" | (part) "px \<noteq> []" "length px < 640" | (piece) "640 \<le> length px" by linarith
  then show ?case
  proof cases
    case none
    then have "\<not> i < sz" using less.prems by (simp add: word_less_nat_alt)
    then show ?thesis using none less.prems(1) by (simp add: fb_loop.simps)
  next
    case part
    then have "0 < length px" by simp
    with less.prems(2) have "i < sz" by (simp add: word_less_nat_alt)
    moreover have "fb_piece pipe fd 640 s = Inl Blocks"
      using part less.prems(1) by (simp add: fb_piece_def lively_stalls [OF less.prems(5)])
    ultimately show ?thesis using part by (simp add: fb_loop.simps)
  next
    case piece
    have lt: "i < sz" using piece less.prems(2) by (simp add: word_less_nat_alt)
    have u: "unread (fds s pipe) = take 640 px @ drop 640 px" and l: "length (take 640 px) = 640"
      using piece less.prems(1) by simp_all
    have room: "length (take 640 px) \<le> space (fds s fd)" using l piece less.prems(4) by linarith
    obtain s1 where s1: "fb_piece pipe fd (length (take 640 px)) s = Inr (True, s1)" "unread (fds s1 pipe) = drop 640 px"
        "cput (fds s1 fd) = cput (fds s fd) @ take 640 px" "space (fds s1 fd) = space (fds s fd) - length (take 640 px)"
        "shut s1 = shut s" "lively (cin (fds s1 pipe))"
      by (rule fb_piece_sends [OF u room assms(5) less.prems(5)]) (rule that)
    have p: "fb_piece pipe fd 640 s = Inr (True, s1)" using s1(1) l by simp
    have e: "fb_loop pipe fd i sz s = fb_loop pipe fd (i + 640) sz s1" using lt p by (simp add: fb_loop.simps [of pipe fd i])
    have sum: "unat i + 640 \<le> unat sz" using piece less.prems(2) by linarith
    moreover have "unat sz < 2 ^ LENGTH(32)" by (rule unsigned_less)
    ultimately have i: "unat (i + 640) = unat i + 640" by (simp add: unat_word_ariths)
    have n: "length (drop 640 px) < length px" "length (drop 640 px) = unat sz - unat (i + 640)" "i + 640 \<le> sz"
        "length (drop 640 px) \<le> space (fds s1 fd)"
      using piece less.prems(2,4) sum by (simp_all add: i s1(4) l word_le_nat_alt)
    have m: "length (drop 640 px) mod 640 = length px mod 640" using piece by (simp add: le_mod_geq)
    show ?thesis
      using less.hyps [OF n(1) s1(2) n(2,3,4) s1(6)] unfolding e m by (auto simp: s1(3,5))
  qed
qed

lemma read_word_have:
  assumes "unread (fds s pipe) = le32_bytes w @ rest" and "lively (cin (fds s pipe))"
  obtains s' where "read_word pipe s = Inr (Some w, s')" and "unread (fds s' pipe) = rest" and "lively (cin (fds s' pipe))"
    and "\<And>g. cput (fds s' g) = cput (fds s g)" and "\<And>g. cout (fds s' g) = cout (fds s g)" and "shut s' = shut s"
proof -
  have l: "length (le32_bytes w) = 4" by simp
  obtain s1 where s1: "sv_readx pipe 4 s = Inr (0, le32_bytes w, s1)" "unread (fds s1 pipe) = rest"
      "\<And>g. cput (fds s1 g) = cput (fds s g)" "\<And>g. cout (fds s1 g) = cout (fds s g)" "shut s1 = shut s"
    by (rule sv_readx_have [OF assms(1) l]) (rule that)
  show thesis using s1 lively_sv_readx [OF s1(1) assms(2)] by (intro that [of s1]) (simp_all add: read_word_def)
qed

lemma le32_bytes_not_Nil [simp]: "le32_bytes w \<noteq> []"
  by (simp add: le32_bytes_def)

lemma fb_header_length [simp]: "length (fb_header b) = 52"
  by (simp add: fb_header_def)

text \<open>C20. A picture of the screen and the pieces of its loop.  The child writes the width, the height, the format
  and exactly the pixels of the picture, and the client takes everything.  If the size of the picture is a multiple
  of the 640 bytes of the buffer, the client gets the header and all pixels in order, and both ends of the pipe and
  the connection are closed; otherwise the service never returns, because the loop asks for a whole last piece and
  the service itself keeps the end of the pipe open that the child wrote to.\<close>

theorem picture_sent:
  assumes "unread (fds s rd) = le32_bytes w @ le32_bytes h @ le32_bytes f @ px" and "lively (cin (fds s rd))"
    and "fb_format w h f = Some b" and "length px = unat (fb_size b)" and "52 + length px \<le> space (fds s fd)"
    and "rd \<noteq> fd" and "\<And>c. unread c = [] \<Longrightarrow> child_ends c"
  shows "if length px mod 640 = 0
    then \<exists>s'. framebuffer_service (Some (rd, wr)) True child_ends fd s = Inr s'
      \<and> cput (fds s' fd) = cput (fds s fd) @ fb_header b @ px \<and> shut s' = shut s @ [rd, wr, fd]
    else framebuffer_service (Some (rd, wr)) True child_ends fd s = Inl Blocks"
proof -
  obtain s1 where s1: "read_word rd s = Inr (Some w, s1)" "unread (fds s1 rd) = le32_bytes h @ le32_bytes f @ px"
      "lively (cin (fds s1 rd))" "\<And>g. cput (fds s1 g) = cput (fds s g)" "\<And>g. cout (fds s1 g) = cout (fds s g)" "shut s1 = shut s"
    by (rule read_word_have [OF assms(1,2)]) (rule that)
  obtain s2 where s2: "read_word rd s1 = Inr (Some h, s2)" "unread (fds s2 rd) = le32_bytes f @ px"
      "lively (cin (fds s2 rd))" "\<And>g. cput (fds s2 g) = cput (fds s1 g)" "\<And>g. cout (fds s2 g) = cout (fds s1 g)" "shut s2 = shut s1"
    by (rule read_word_have [OF s1(2,3)]) (rule that)
  obtain s3 where s3: "read_word rd s2 = Inr (Some f, s3)" "unread (fds s3 rd) = px"
      "lively (cin (fds s3 rd))" "\<And>g. cput (fds s3 g) = cput (fds s2 g)" "\<And>g. cout (fds s3 g) = cout (fds s2 g)" "shut s3 = shut s2"
    by (rule read_word_have [OF s2(2,3)]) (rule that)
  have "length (fb_header b) \<le> space (fds s3 fd)" using assms(5) by (simp add: s1(5) s2(5) s3(5))
  then obtain s4 where s4: "sv_writex fd (fb_header b) s3 = Inr (0, s4)" "cput (fds s4 fd) = cput (fds s3 fd) @ fb_header b"
      "space (fds s4 fd) = space (fds s3 fd) - length (fb_header b)" "\<And>g. cin (fds s4 g) = cin (fds s3 g)" "shut s4 = shut s3"
    by (rule sv_writex_fits) (rule that)
  note steps = s1(1) s2(1) s3(1) s4(1) assms(3)
  have run: "if length px mod 640 = 0
    then \<exists>s'. fb_loop rd fd 0 (fb_size b) s4 = Inr (True, s') \<and> unread (fds s' rd) = [] \<and> cput (fds s' fd) = cput (fds s4 fd) @ px
      \<and> shut s' = shut s4
    else fb_loop rd fd 0 (fb_size b) s4 = Inl Blocks"
    by (rule fb_loop_runs) (use assms(4,5,6) s3(2,3) s4(3,4) in \<open>simp_all add: s1(5) s2(5) s3(5)\<close>)
  show ?thesis
  proof (cases "length px mod 640 = 0")
    case False
    with run show ?thesis by (simp add: framebuffer_service_def fb_send_def steps)
  next
    case True
    with run obtain s5 where s5: "fb_loop rd fd 0 (fb_size b) s4 = Inr (True, s5)" "unread (fds s5 rd) = []"
        "cput (fds s5 fd) = cput (fds s4 fd) @ px" "shut s5 = shut s4" by auto
    have z: "unat (fb_size b mod 640) = 0" using True assms(4) by (simp add: unat_mod)
    have p: "fb_piece rd fd 0 s5 = Inr (True, s5)" by (simp add: fb_piece_def sv_readx_def sv_writex_def conn_readx_def conn_writex_def)
    have "fb_send rd fd s = Inr s5" using z p by (simp add: fb_send_def steps s5(1))
    then show ?thesis using True assms(7) [OF s5(2)]
      by (simp add: framebuffer_service_def sv_close_def s5(3,4) s4(2,5) s3(4,6) s2(4,6) s1(4,6))
  qed
qed

definition picture_example :: service where
  "picture_example = \<lparr>fds = (\<lambda>g. if g = 5 then \<lparr>cin = [Avail (le32_bytes 160 @ le32_bytes 1 @ le32_bytes 2), Avail (replicate 640 7)], cout = [], cput = []\<rparr>
     else \<lparr>cin = [], cout = [Room 700], cput = []\<rparr>), shut = [], setprops = []\<rparr>"

theorem picture_sent_witness:
  "\<exists>s'. framebuffer_service (Some (5, 6)) True (\<lambda>c. unread c = []) 7 picture_example = Inr s'
     \<and> cput (fds s' 7) = fb_header \<lparr>bpp = 32, fb_size = 640, width = 160, height = 1, red = (0, 8), blue = (16, 8), green = (8, 8), alpha = (24, 0)\<rparr> @ replicate 640 7
     \<and> shut s' = [5, 6, 7]"
  using picture_sent [of picture_example 5 160 1 2 "replicate 640 7"
      "\<lparr>bpp = 32, fb_size = 640, width = 160, height = 1, red = (0, 8), blue = (16, 8), green = (8, 8), alpha = (24, 0)\<rparr>" 7 "\<lambda>c. unread c = []" 6]
  by (simp add: picture_example_def fb_format_def)

section \<open>The log\<close>

definition whole_entry :: "byte list \<Rightarrow> bool" where
  "whole_entry bs \<longleftrightarrow> 20 \<le> length bs \<and> length bs = 20 + entry_len bs \<and> length bs \<le> LOGGER_ENTRY_MAX_LEN"

lemma log_entry_written:
  assumes "whole_entry bs" and "length buf = LOGGER_ENTRY_MAX_LEN + 1"
  shows "log_loop fd buf (Avail bs # evs) s = sbind (sv_writex fd bs s)
    (\<lambda>(_, s). log_loop fd ((bs @ drop (length bs) buf)[length bs := 0]) evs s)"
proof -
  have n: "20 \<le> length bs" "length bs = 20 + entry_len bs" "length bs \<le> LOGGER_ENTRY_MAX_LEN" using assms(1) by (simp_all add: whole_entry_def)
  then have bs: "bs \<noteq> []" "0 < length bs" "1 < length bs" by auto
  have b: "take LOGGER_ENTRY_MAX_LEN bs @ drop (min (length bs) LOGGER_ENTRY_MAX_LEN) buf = bs @ drop (length bs) buf"
    using n(3) by simp
  have e: "entry_len (bs @ xs) = entry_len bs" for xs using bs by (simp add: entry_len_def nth_append)
  have u: "entry_len ((bs @ drop (length bs) buf)[length bs := 0]) = entry_len bs"
    using bs by (simp add: entry_len_def nth_append)
  show ?thesis
    using bs(1) n(2,3) assms(2) unfolding log_loop.simps b Let_def e n(2) [symmetric]
    by (simp add: write_log_entry_def u n(2) [symmetric] sbind_def split: sum.splits prod.splits)
qed

text \<open>Whole entries are forwarded as they are, one after the other, until the device ends.\<close>

theorem log_forwarded:
  assumes "\<forall>e \<in> set es. whole_entry e" and "length (concat es) \<le> space (fds s fd)" and "length buf = LOGGER_ENTRY_MAX_LEN + 1"
  shows "\<exists>s'. log_service buf (Some (map Avail es @ [Avail []])) fd s = Inr s'
     \<and> cput (fds s' fd) = cput (fds s fd) @ concat es \<and> shut s' = shut s @ [fd]"
proof -
  have "\<exists>s'. log_loop fd buf (map Avail es @ [Avail []]) s = Inr s'
      \<and> cput (fds s' fd) = cput (fds s fd) @ concat es \<and> shut s' = shut s"
    using assms
  proof (induction es arbitrary: buf s)
    case (Cons e es)
    have w: "whole_entry e" using Cons.prems(1) by simp
    have "length e \<le> space (fds s fd)" using Cons.prems(2) by simp
    then obtain s1 where s1: "sv_writex fd e s = Inr (0, s1)" "cput (fds s1 fd) = cput (fds s fd) @ e"
        "space (fds s1 fd) = space (fds s fd) - length e" "shut s1 = shut s"
      by (rule sv_writex_fits) (rule that)
    have l: "length ((e @ drop (length e) buf)[length e := 0]) = LOGGER_ENTRY_MAX_LEN + 1"
      using Cons.prems(3) w by (simp add: whole_entry_def)
    have "\<forall>e \<in> set es. whole_entry e" "length (concat es) \<le> space (fds s1 fd)" using Cons.prems(1,2) by (simp_all add: s1(3))
    from Cons.IH [OF this l] obtain s' where s': "log_loop fd ((e @ drop (length e) buf)[length e := 0]) (map Avail es @ [Avail []]) s1 = Inr s'"
        "cput (fds s' fd) = cput (fds s1 fd) @ concat es" "shut s' = shut s1" by blast
    have "log_loop fd buf (map Avail (e # es) @ [Avail []]) s = Inr s'"
      unfolding list.map append_Cons log_entry_written [OF w Cons.prems(3)] s1(1) by (simp add: s'(1))
    then show ?case using s'(2,3) by (simp add: s1(2,4))
  qed simp
  then show ?thesis by (auto simp: log_service_def sv_close_def)
qed

section \<open>The table\<close>

text \<open>\<open>sscanf\<close> answers an empty argument with \<open>EOF\<close>, which is not 0.\<close>

theorem tcpip_port_unset: "device_service_to_fd e (ascii ''tcpip:'') = Inl Wild"
  by (simp add: device_service_to_fd_def sscanf_d_def starts_def ascii_def Let_def)

text \<open>The array of the child's arguments is always short.\<close>

theorem backup_array_overrun:
  "1 < psize \<Longrightarrow> backup_child psize operation port args = (argv, allocated, written) \<Longrightarrow> allocated < written"
  by (auto simp: backup_child_def Let_def)

end
