(* ===== verification/Startup.thy ===== *)
theory Startup
  imports HostRequestProps
begin

text \<open>
  The start of the server (\<open>adb/adb.cpp\<close>: \<open>adb_main\<close>, \<open>build_local_name\<close>; \<open>adb/transport.cpp\<close>:
  \<open>init_transport_registration\<close>) up to the event loop, and the connection of the first client.  The start
  is where the invariants of the other theories come from: the last property puts the two together with a
  request of the client.
\<close>

section \<open>The start\<close>

text \<open>What the system answers: the memory for the table of descriptors, the pair of the registration channel, the
  sockets that listen.  \<open>st_registration\<close> and \<open>st_listener\<close> are the addresses of the two objects of the loop.\<close>

record start_env =
  st_psize :: nat
  st_mem :: "(nat \<Rightarrow> nat) option"
  st_pair :: "(int \<times> int) option"
  st_registration :: nat
  st_listener :: nat
  st_server :: "int \<Rightarrow> int"

text \<open>The result is the end that registrations are written to.\<close>

definition init_transport_registration :: "start_env \<Rightarrow> world \<Rightarrow> halt + (int \<times> world)" where
  "init_transport_registration e w = (case st_pair e of
     None \<Rightarrow> Inl (Fatal ''cannot open transport registration socketpair'')
   | Some (s0, s1) \<Rightarrow>
       sbind (fd_try (fdevent_install (st_psize e) (st_mem e) (st_registration e) s1 fd_func.transport_registration_func 0) w) (\<lambda>w1.
         Inr (s0, fd_op (fdevent_set (st_registration e) (ucast FDE_READ)) w1)))"

definition build_local_name :: "nat \<Rightarrow> int \<Rightarrow> byte list option" where
  "build_local_name n server_port = Prelude.snprintf n (ascii ''tcp:'' @ fmt_d server_port)"

text \<open>The USB threads that \<open>usb_init\<close> starts have objects of their own (theory \<open>Usb\<close>).\<close>

definition adb_main :: "start_env \<Rightarrow> int \<Rightarrow> world \<Rightarrow> halt + (int \<times> world)" where
  "adb_main e server_port w =
     sbind (init_transport_registration e w) (\<lambda>(send, w).
     case build_local_name 30 server_port of
       None \<Rightarrow> Inl Overread
     | Some name \<Rightarrow>
         sbind (install_listener (st_psize e) (st_mem e) (st_listener e) (local_name_to_fd (st_server e) name) name
                  (ascii ''*smartsocket*'') 0 w) (\<lambda>(r, w).
           if r \<noteq> 0 then Inl (Exit 1) else Inr (send, w)))"

section \<open>Objects of the loop\<close>

definition watching :: "nat \<Rightarrow> int \<Rightarrow> fd_func \<Rightarrow> fdst \<Rightarrow> bool" where
  "watching a fd f s \<longleftrightarrow> nat fd < length (fd_table s) \<and> fd_table s ! nat fd = a \<and> fde_fd (fdes s a) = fd
     \<and> func (fdes s a) = f \<and> bit (state (fdes s a)) 0 \<and> bit (state (fdes s a)) 8"

lemma watch_installed:
  assumes inv: "fd_inv s ps" and new: "fresh_fde a fd s"
  obtains s1 where "fdevent_install 4 (Some j) a fd f arg s = Inr s1"
    and "\<exists>ps. fd_inv (fdevent_set a (ucast FDE_READ) s1) ps"
    and "watching a fd f (fdevent_set a (ucast FDE_READ) s1)"
    and "\<And>b g. b \<noteq> a \<Longrightarrow> g \<noteq> fd \<Longrightarrow> fresh_fde b g s \<Longrightarrow> fresh_fde b g (fdevent_set a (ucast FDE_READ) s1)"
    and "\<And>b g h. b \<noteq> a \<Longrightarrow> g \<noteq> fd \<Longrightarrow> 0 \<le> g \<Longrightarrow> watching b g h s \<Longrightarrow> watching b g h (fdevent_set a (ucast FDE_READ) s1)"
    and "\<And>b. b \<noteq> a \<Longrightarrow> fdes (fdevent_set a (ucast FDE_READ) s1) b = fdes s b"
proof -
  have fd: "0 \<le> fd" using new by (simp add: fresh_fde_def)
  obtain s1 where s1: "fdevent_install 4 (Some j) a fd f arg s = Inr s1"
      "fdes s1 = (fdes s)(a := \<lparr>fde_fd = fd, force_eof = False, state = FDE_ACTIVE OR FDE_ACTIVE, events = 0, func = f, fde_arg = arg\<rparr>)"
      "fd_table s1 = (grown (fd_table s) (nat fd))[nat fd := a]"
    by (rule fdevent_install_result [OF new]) (rule that)
  have i: "fd_inv s1 ps" "state (fdes s1 a) = FDE_ACTIVE" using fdevent_install_inv [OF inv new, of j f arg] s1(1) by auto
  have b8: "bit (state (fdes s1 a)) 8" by (simp add: i(2) FDE_ACTIVE_def bit_simps)
  let ?s = "fdevent_set a (ucast FDE_READ) s1"
  note g = grown_length [where tbl = "fd_table s" and fd = "nat fd"]
  have n: "nat h < length (fd_table ?s) \<Longrightarrow> h \<noteq> fd \<Longrightarrow> 0 \<le> h \<Longrightarrow>
      fd_table ?s ! nat h = (if nat h < length (fd_table s) then fd_table s ! nat h else 0)" for h
    using fd by (simp add: s1(3) nth_list_update grown_nth nat_eq_iff)
  have o: "fdes ?s b = fdes s b" if "b \<noteq> a" for b using that by (simp add: fdevent_set_other s1(2))
  show thesis
  proof (rule that [OF s1(1)])
    show "\<exists>ps. fd_inv ?s ps" using fdevent_set_inv [OF i(1) b8, of "ucast FDE_READ"] by blast
    show "watching a fd f ?s" using g b8 by (simp add: watching_def s1(2,3) fdevent_set_state FDE_READ_def bit_simps)
    show "\<And>b. b \<noteq> a \<Longrightarrow> fdes ?s b = fdes s b" by (rule o)
    show "fresh_fde b h ?s" if "b \<noteq> a" "h \<noteq> fd" "fresh_fde b h s" for b h
      using that(3) n [of h] that(2) unfolding fresh_fde_def o [OF that(1)] by auto
    show "watching b h f' ?s" if "b \<noteq> a" "h \<noteq> fd" "0 \<le> h" "watching b h f' s" for b h f'
      using that(4) n [of h] that(2,3) g(1) unfolding watching_def o [OF that(1)] by (auto simp: s1(3))
  qed
qed

section \<open>Clients\<close>

abbreviation smart :: "nat \<Rightarrow> asocket" where
  "smart s \<equiv> zero_sock\<lparr>enqueue := smart_socket_enqueue, ready := smart_socket_ready, close := smart_socket_close, peer := s\<rparr>"

lemma smart_connected:
  assumes inv: "sock_inv {} w" and s: "socks w s = Some k" "is_local k" "ready k = local_socket_ready" "peer k = 0" "\<not> closing k"
    and a: "socks w a = None" "a \<noteq> 0"
  shows "\<exists>w'. connect_to_smartsocket (call_ready hr hs) a s w = Inr w' \<and> sock_inv {} w'
    \<and> socks w' = (socks w)(a \<mapsto> smart s, s \<mapsto> k\<lparr>peer := a\<rparr>)"
proof -
  have ne: "a \<noteq> s" "s \<noteq> 0" using s a sock_invD(1) [OF inv s(1)] by auto
  let ?w = "w\<lparr>socks := (socks w)(a \<mapsto> smart s, s \<mapsto> k\<lparr>peer := a\<rparr>)\<rparr>"
  have po: "peers_ok {} w" "heap_ok w" "lists_ok w" "transports_ok w" "\<exists>ps. fd_inv (ev w) ps" using inv by (simp_all add: sock_inv_def)
  have sm: "sock_ok a (smart s)" "event_ok (ev w) a (smart s)"
    using a(2) by (simp_all add: sock_ok_def event_ok_def zero_sock_def vtable_ok.simps)
  have k: "sock_ok s k" "event_ok (ev w) s k" using po(2) s(1) by (simp_all add: heap_ok_def)
  have "peers_ok {} ?w"
  proof (unfold peers_ok_def, intro allI impI)
    fix c q
    assume c: "socks ?w c = Some q" "peer q \<noteq> 0"
    show "peer q \<noteq> c \<and> (\<exists>r. socks ?w (peer q) = Some r \<and> peer r = c)"
    proof (cases "c = a \<or> c = s")
      case True
      then show ?thesis using c ne by auto
    next
      case False
      then obtain r where r: "peer q \<noteq> c" "socks w (peer q) = Some r" "peer r = c"
        using po(1) c by (auto simp: peers_ok_def)
      have "c \<noteq> 0" using False po(2) c(1) by (auto simp: heap_ok_def sock_ok_def)
      then have "peer q \<noteq> s" "peer q \<noteq> a" using r s(1,4) a(1) by auto
      then show ?thesis using r by auto
    qed
  qed
  moreover have "heap_ok ?w"
    using po(2) sm k ne by (auto simp: heap_ok_def sock_ok_def event_ok_def s(5))
  moreover have "lists_ok ?w"
    using po(3) s(1,2,5) a(1) ne unfolding lists_ok_def by (auto simp: zero_sock_def)
  moreover have "remote_of ?w x t = remote_of w x t" for x t
    using s(1,2) a(1) by (auto simp: remote_of_def zero_sock_def)
  then have "transports_ok ?w" using po(4) by (auto intro: transports_ok_cong)
  ultimately have i: "sock_inv {} ?w" using po(5) by (simp add: sock_inv_def)
  have c: "connect_to_smartsocket (call_ready hr hs) a s w = Inr (fd_op (fdevent_add s (ucast FDE_READ)) ?w)"
    using s ne a by (simp add: connect_to_smartsocket_def create_smart_socket_def set_sock_def deref_def call_ready_def ready_sock_def
        local_socket_ready_op_def fun_upd_twist)
  have "sock_inv {} (fd_op (fdevent_add s (ucast FDE_READ)) ?w)"
    by (rule inv_read_interest(1) [OF i, of s "k\<lparr>peer := a\<rparr>"]) (simp_all add: s(2))
  then show ?thesis using c by (auto simp: fd_op_def)
qed

section \<open>The first client\<close>

lemma decimal_length: "n < 10 ^ Suc d \<Longrightarrow> length (decimal n) \<le> Suc d"
proof (induction d arbitrary: n)
  case 0
  then show ?case by (simp add: decimal.simps [of n])
next
  case (Suc d)
  have "n div 10 < 10 ^ Suc d" using Suc.prems by (simp add: div_less_iff_less_mult)
  from Suc.IH [OF this] show ?case by (simp add: decimal.simps [of n])
qed

lemma local_name:
  assumes "- (2 ^ 31) \<le> port" and "port < 2 ^ 31"
  shows "build_local_name 30 port = Some (ascii ''tcp:'' @ fmt_d port)" "local_name_to_fd srv (ascii ''tcp:'' @ fmt_d port) = srv port"
proof -
  have "nat (- port) < 10 ^ Suc 10" "nat port < 10 ^ Suc 10" using assms by (simp_all add: nat_less_iff)
  from this [THEN decimal_length] have "length (decimal (nat (- port))) \<le> Suc 10" "length (decimal (nat port)) \<le> Suc 10" .
  then have "length (fmt_d port) \<le> 12" by (simp add: fmt_d_def)
  then show "build_local_name 30 port = Some (ascii ''tcp:'' @ fmt_d port)"
    by (simp add: build_local_name_def snprintf_def ascii_def)
  show "local_name_to_fd srv (ascii ''tcp:'' @ fmt_d port) = srv port"
    using atoi_fmt_d [OF assms] by (simp add: local_name_to_fd_def starts_def ascii_def)
qed

text \<open>Four objects at different addresses for three descriptors that are not in use.\<close>

definition start_ok :: "start_env \<Rightarrow> int \<Rightarrow> int \<Rightarrow> nat \<Rightarrow> nat \<Rightarrow> bool" where
  "start_ok e port c a b \<longleftrightarrow> st_psize e = 4 \<and> st_mem e \<noteq> None \<and> - (2 ^ 31) \<le> port \<and> port < 2 ^ 31
     \<and> (\<exists>s0 s1. st_pair e = Some (s0, s1) \<and> distinct [s1, st_server e port, c] \<and> {s1, st_server e port, c} \<subseteq> {0..32000})
     \<and> distinct [0, list_pending, st_registration e, st_listener e, a, b]"

lemma fresh_at_start: "a \<noteq> 0 \<Longrightarrow> a \<noteq> list_pending \<Longrightarrow> 0 \<le> g \<Longrightarrow> g \<le> 32000 \<Longrightarrow> fresh_fde a g fdst0"
  by (simp add: fresh_fde_def fdst0_def list_pending_def)

lemma no_sockets_inv:
  assumes "\<exists>ps. fd_inv s ps"
  shows "sock_inv {} (world0\<lparr>ev := s, listeners := l, listener_list := ls\<rparr>)"
  using assms by (auto simp: world0_def sock_inv_def peers_ok_def heap_ok_def lists_ok_def transports_ok_def remote_of_def)

text \<open>C3. The start of the server and its first client.  Given descriptors and memory, the server starts: the loop
  waits for registrations and for clients on the port that was asked for, and every invariant that the other
  properties assume holds.  The first client gets a pair of a local socket and a smart socket that are each other's
  peers, in a state in which these invariants hold again.\<close>

theorem first_client_connected:
  assumes "start_ok e port c a b"
  shows "\<exists>s0 s1 w w'. st_pair e = Some (s0, s1) \<and> adb_main e port world0 = Inr (s0, w) \<and> sock_inv {} w
    \<and> watching (st_registration e) s1 fd_func.transport_registration_func (ev w)
    \<and> watching (st_listener e) (st_server e port) ss_listener_event_func (ev w)
    \<and> ss_listener_event (call_ready hr hs) (st_psize e) (st_mem e) a b (ucast FDE_READ) c w = Inr w' \<and> sock_inv {} w'
    \<and> socks w' = [a \<mapsto> zero_sock\<lparr>sk_fd := c, sk_id := 1, peer := b\<rparr>, b \<mapsto> smart a]"
proof -
  let ?fd = "st_server e port" and ?r = "st_registration e" and ?l = "st_listener e"
    and ?name = "ascii ''tcp:'' @ fmt_d port"
  obtain j where j: "st_mem e = Some j" using assms by (auto simp: start_ok_def)
  have p4: "st_psize e = 4" and port: "- (2 ^ 31) \<le> port" "port < 2 ^ 31" using assms by (simp_all add: start_ok_def)
  obtain s0 s1 where sp: "st_pair e = Some (s0, s1)" and d: "distinct [s1, ?fd, c]" and rg: "{s1, ?fd, c} \<subseteq> {0..32000}"
    using assms unfolding start_ok_def by blast
  have ad: "distinct [0, list_pending, ?r, ?l, a, b]" using assms by (simp add: start_ok_def)
  have fresh: "fresh_fde ?r s1 fdst0" "fresh_fde ?l ?fd fdst0" "fresh_fde a c fdst0" using ad rg by (auto intro: fresh_at_start)
  let ?set = "\<lambda>x s. fdevent_set x (ucast FDE_READ) s"
  obtain e1 where e1: "fdevent_install 4 (Some j) ?r s1 fd_func.transport_registration_func 0 fdst0 = Inr e1"
      "\<exists>ps. fd_inv (?set ?r e1) ps" "watching ?r s1 fd_func.transport_registration_func (?set ?r e1)"
      "\<And>b g. b \<noteq> ?r \<Longrightarrow> g \<noteq> s1 \<Longrightarrow> fresh_fde b g fdst0 \<Longrightarrow> fresh_fde b g (?set ?r e1)"
    by (rule watch_installed [OF fdst0_inv fresh(1)]) (rule that)
  have f2: "fresh_fde ?l ?fd (?set ?r e1)" "fresh_fde a c (?set ?r e1)"
    by (rule e1(4); use ad d fresh in auto)+
  obtain ps where ps: "fd_inv (?set ?r e1) ps" using e1(2) ..
  obtain e2 where e2: "fdevent_install 4 (Some j) ?l ?fd ss_listener_event_func ?l (?set ?r e1) = Inr e2"
      "\<exists>ps. fd_inv (?set ?l e2) ps" "watching ?l ?fd ss_listener_event_func (?set ?l e2)"
      "\<And>b g. b \<noteq> ?l \<Longrightarrow> g \<noteq> ?fd \<Longrightarrow> fresh_fde b g (?set ?r e1) \<Longrightarrow> fresh_fde b g (?set ?l e2)"
      "\<And>b g h. b \<noteq> ?l \<Longrightarrow> g \<noteq> ?fd \<Longrightarrow> 0 \<le> g \<Longrightarrow> watching b g h (?set ?r e1) \<Longrightarrow> watching b g h (?set ?l e2)"
    by (rule watch_installed [OF ps f2(1)]) (rule that)
  let ?w1 = "world0\<lparr>ev := ?set ?l e2, listeners := [?l \<mapsto> \<lparr>l_fd = ?fd, local_name = ?name, connect_to = ascii ''*smartsocket*'', l_transport = 0\<rparr>], listener_list := [?l]\<rparr>"
  have main: "adb_main e port world0 = Inr (s0, ?w1)"
    using e1(1) e2(1) rg
    by (simp add: adb_main_def init_transport_registration_def sp p4 j fd_try_def fd_op_def local_name [OF port] install_listener_def
        listener_named_def world0_def Let_def)
  have w1: "sock_inv {} ?w1" by (rule no_sockets_inv [OF e2(2)])
  have wr: "watching ?r s1 fd_func.transport_registration_func (?set ?l e2)" by (rule e2(5) [OF _ _ _ e1(3)]) (use ad d rg in auto)
  have fa: "fresh_fde a c (ev ?w1)" using e2(4) [OF _ _ f2(2)] ad d by auto
  obtain w2 where w2: "create_local_socket 4 (Some j) a c ?w1 = Inr w2" "sock_inv {} w2" "socks w2 = (socks ?w1)(a \<mapsto> zero_sock\<lparr>sk_fd := c, sk_id := next_id ?w1\<rparr>)"
    by (rule create_local_socket_result [OF w1 _ fa, of j]) (simp_all add: world0_def)
  have s2: "socks w2 = [a \<mapsto> zero_sock\<lparr>sk_fd := c, sk_id := 1\<rparr>]" using w2(3) by (simp add: world0_def)
  obtain w3 where w3: "connect_to_smartsocket (call_ready hr hs) b a w2 = Inr w3" "sock_inv {} w3"
      "socks w3 = (socks w2)(b \<mapsto> smart a, a \<mapsto> zero_sock\<lparr>sk_fd := c, sk_id := 1, peer := b\<rparr>)"
    using smart_connected [OF w2(2), of a "zero_sock\<lparr>sk_fd := c, sk_id := 1\<rparr>" b hr hs] s2 ad by (auto simp: zero_sock_def)
  have "ss_listener_event (call_ready hr hs) 4 (Some j) a b (ucast FDE_READ) c ?w1 = Inr w3"
    using rg w2(1) w3(1) by (simp add: ss_listener_event_def has_def FDE_READ_def)
  moreover have "socks w3 = [a \<mapsto> zero_sock\<lparr>sk_fd := c, sk_id := 1, peer := b\<rparr>, b \<mapsto> smart a]"
    using w3(3) s2 ad by (auto simp: fun_eq_iff)
  ultimately show ?thesis using sp main w1 wr e2(3) w3(2) j p4 by (intro exI [of _ s0] exI [of _ s1] exI [of _ ?w1] exI [of _ w3]) simp
qed

definition start_example :: start_env where
  "start_example = \<lparr>st_psize = 4, st_mem = Some (\<lambda>_. 9), st_pair = Some (3, 4), st_registration = 2, st_listener = 5, st_server = (\<lambda>p. 6)\<rparr>"

theorem first_client_connected_witness:
  "\<exists>w w'. adb_main start_example 5037 world0 = Inr (3, w)
    \<and> ss_listener_event (call_ready no_request no_service) 4 (Some (\<lambda>_. 9)) 7 8 (ucast FDE_READ) 9 w = Inr w' \<and> sock_inv {} w'"
  using first_client_connected [of start_example 5037 9 7 8 no_request no_service]
  by (auto simp: start_ok_def start_example_def list_pending_def)

end
