(* ===== verification/Utils.thy ===== *)
theory Utils
  imports DList
begin

text \<open>
  Two small libraries of the sources: the bounded buffers of \<open>adb/utils.cpp\<close> and the rings of
  \<open>adb/list.cpp\<close>.  A buffer is its bytes and the position of the cursor; \<open>buffEnd\<close> is the length.
\<close>

section \<open>Bounded buffers\<close>

type_synonym buffer = "nat \<times> byte list"

definition buff_addc :: "byte \<Rightarrow> buffer \<Rightarrow> buffer" where
  "buff_addc c bf = (case bf of (p, b) \<Rightarrow>
     let avail = int (length b) - int p in
     if avail \<le> 0 then (p, b)
     else if avail = 1 then (p + 1, b[p := 0])
     else (p + 1, b[p := c, p + 1 := 0]))"

text \<open>\<open>data\<close> are the \<open>len\<close> bytes.\<close>

definition buff_addb :: "byte list \<Rightarrow> buffer \<Rightarrow> buffer" where
  "buff_addb data bf = (case bf of (p, b) \<Rightarrow>
     let avail = int (length b) - int p; len = int (length data) in
     if avail \<le> 0 \<or> len \<le> 0 then (p, b)
     else let len = nat (if len > avail then avail else len);
              b = take p b @ take len data @ drop (p + len) b;
              p = p + len
          in if length b \<le> p then (p, b[p - 1 := 0]) else (p, b[p := 0]))"

definition buff_adds :: "byte list \<Rightarrow> buffer \<Rightarrow> buffer" where
  "buff_adds s bf = buff_addb (cstr s) bf"

datatype piece = Char byte | Block "byte list"

fun piece_bytes :: "piece \<Rightarrow> byte list" where
  "piece_bytes (Char c) = [c]"
| "piece_bytes (Block bs) = bs"

fun add_piece :: "piece \<Rightarrow> buffer \<Rightarrow> buffer" where
  "add_piece (Char c) = buff_addc c"
| "add_piece (Block bs) = buff_addb bs"

text \<open>A buffer of \<open>n\<close> bytes to which \<open>bs\<close> has been added: the text is cut after \<open>n - 1\<close> bytes and ends with a
  zero; before the first addition nothing is promised.\<close>

definition holds :: "nat \<Rightarrow> byte list \<Rightarrow> buffer \<Rightarrow> bool" where
  "holds n bs bf \<longleftrightarrow> length (snd bf) = n \<and> fst bf = min n (length bs)
     \<and> (bs \<noteq> [] \<longrightarrow> take (Suc (min (n - 1) (length bs))) (snd bf) = take (n - 1) bs @ [0])"

lemma buff_addc_block: "buff_addc c bf = buff_addb [c] bf"
  by (auto simp: buff_addc_def buff_addb_def Let_def list_update_append upd_conv_take_nth_drop split: prod.splits)

text \<open>An addition appends to the text that the buffer holds.\<close>

lemma buff_addb_holds:
  assumes "holds n bs bf" and "0 < n"
  shows "holds n (bs @ data) (buff_addb data bf)"
proof -
  obtain p b where bf: "bf = (p, b)" by (cases bf)
  have h: "length b = n" "p = min n (length bs)" using assms(1) by (simp_all add: holds_def bf)
  have t: "take (Suc (min (n - 1) (length bs))) b = take (n - 1) bs @ [0]" if "bs \<noteq> []" using that assms(1) by (simp add: holds_def bf)
  show ?thesis
  proof (cases "data = [] \<or> n \<le> length bs")
    case True
    then have "buff_addb data bf = bf" using h by (auto simp: buff_addb_def bf)
    moreover have "bs \<noteq> []" if "data \<noteq> []" using that True assms(2) by auto
    ultimately show ?thesis using True assms by (auto simp: holds_def min_def)
  next
    case False
    then have p: "p = length bs" "p < n" and d: "0 < length data" using h by auto
    have b: "take p b = bs"
    proof (cases "bs = []")
      case ne: False
      have m: "min (n - 1) (length bs) = p" using p by simp
      from t [OF ne] have "take p (take (Suc p) b) = take p (take (n - 1) bs @ [0])" unfolding m by simp
      then show ?thesis using p by simp
    qed (simp add: p)
    let ?k = "min (length data) (n - p)"
    let ?b = "bs @ take ?k data @ drop (p + ?k) b"
    have lb: "length ?b = n" using h(1) p by simp
    have len: "nat (if int (length data) > int n - int p then int n - int p else int (length data)) = ?k" using p by (auto simp: min_def)
    have e: "buff_addb data bf = (if n \<le> p + ?k then (p + ?k, ?b[p + ?k - 1 := 0]) else (p + ?k, ?b[p + ?k := 0]))"
    proof -
      have c: "\<not> (int n - int p \<le> 0 \<or> int (length data) \<le> 0)" using p d by simp
      show ?thesis unfolding buff_addb_def bf prod.case Let_def h(1) len if_not_P [OF c] b lb by (rule refl)
    qed
    have z: "take (Suc i) (xs[i := x]) = take i xs @ [x]" if "i < length xs" for i x and xs :: "byte list"
      using that by (simp add: take_Suc_conv_app_nth)
    show ?thesis
    proof (cases "n \<le> p + ?k")
      case True
      then have k: "p + ?k = n" "n - p \<le> length data" using p by (auto simp: min_def split: if_splits)
      have "take (n - 1) ?b = take (n - 1) (bs @ data)"
      proof -
        have "n - Suc (length bs) \<le> n - length bs" by linarith
        then show ?thesis using k p by (simp add: take_append min_def)
      qed
      moreover have "n - 1 < length ?b" using lb assms(2) by (simp only: diff_less zero_less_one)
      ultimately have t: "take (Suc (n - 1)) (?b[n - 1 := 0]) = take (n - 1) (bs @ data) @ [0]" by (simp only: z)
      have m: "min (n - 1) (length (bs @ data)) = n - 1" "min n (length (bs @ data)) = n" using k(2) p by auto
      have "length (?b[n - 1 := 0]) = n" using lb by (simp only: length_list_update)
      with t show ?thesis unfolding e holds_def m using True by (simp only: k(1) if_True fst_conv snd_conv simp_thms)
    next
      case False
      then have k: "?k = length data" using p by (auto simp: min_def split: if_splits)
      then have n: "p + length data < n" using False by simp
      have "take (p + length data) ?b = bs @ data" unfolding k using p by simp
      moreover have "p + length data < length ?b" unfolding lb by (rule n)
      ultimately have t: "take (Suc (p + length data)) (?b[p + length data := 0]) = (bs @ data) @ [0]" by (simp only: z)
      have m: "min (n - 1) (length (bs @ data)) = p + length data" "min n (length (bs @ data)) = p + length data"
        "take (n - 1) (bs @ data) = bs @ data" using n p by simp_all
      have "length (?b[p + length data := 0]) = n" using lb by (simp only: length_list_update)
      moreover have "\<not> n \<le> p + length data" using n by simp
      ultimately show ?thesis unfolding e holds_def m using t by (simp only: k if_False fst_conv snd_conv simp_thms)
    qed
  qed
qed

text \<open>Whatever is added, in whatever pieces, the buffer is not left, and it holds the start of everything that
  was added, cut after \<open>n - 1\<close> bytes, and a zero.\<close>

theorem buffer_filled:
  assumes "length b = n" and "0 < n"
  shows "holds n (concat (map piece_bytes ps)) (fold add_piece ps (0, b))"
proof -
  have "holds n (bs @ concat (map piece_bytes ps)) (fold add_piece ps bf)" if "holds n bs bf" for bs bf
    using that
  proof (induction ps arbitrary: bs bf)
    case (Cons q ps)
    have "add_piece q bf = buff_addb (piece_bytes q) bf" by (cases q) (simp_all add: buff_addc_block)
    with Cons.IH [OF buff_addb_holds [OF Cons.prems assms(2), of "piece_bytes q"]] show ?case by simp
  qed simp
  from this [of "[]" "(0, b)"] assms show ?thesis by (simp add: holds_def)
qed

section \<open>Rings\<close>

definition list_init :: "nat \<Rightarrow> links \<Rightarrow> links" where
  "list_init node l = l\<lparr>nxt := (nxt l)(node := node), prv := (prv l)(node := node)\<rparr>"

definition list_add_tail :: "nat \<Rightarrow> nat \<Rightarrow> links \<Rightarrow> links" where
  "list_add_tail head item l =
     (let l1 = l\<lparr>nxt := (nxt l)(item := head)\<rparr>;
          l2 = l1\<lparr>prv := (prv l1)(item := prv l1 head)\<rparr>;
          l3 = l2\<lparr>nxt := (nxt l2)(prv l2 head := item)\<rparr>
      in l3\<lparr>prv := (prv l3)(head := item)\<rparr>)"

definition list_remove :: "nat \<Rightarrow> links \<Rightarrow> links" where
  "list_remove item l =
     (let l1 = l\<lparr>prv := (prv l)(nxt l item := prv l item)\<rparr>
      in l1\<lparr>nxt := (nxt l1)(prv l1 item := nxt l1 item)\<rparr>)"

lemma ring_init: "h \<noteq> 0 \<Longrightarrow> ring (list_init h l) h []"
  by (simp add: ring_def list_init_def)

lemma ring_add_tail: "ring l h xs \<Longrightarrow> n \<notin> set (h # xs) \<Longrightarrow> n \<noteq> 0 \<Longrightarrow> ring (list_add_tail h n l) h (xs @ [n])"
  using ring_enqueue [of l h xs n] by (simp add: list_add_tail_def dl_enqueue_def Let_def)

lemma ring_list_remove:
  assumes r: "ring l h (xs @ n # ys)"
  shows "ring (list_remove n l) h (xs @ ys)"
proof -
  have s1: "seg l h xs n" and s2: "seg l n ys h" and d: "distinct (h # xs @ n # ys)" using r by (auto simp: ring_def seg_append)
  have p: "prv l n = last (h # xs)" and q: "nxt l n = hd (ys @ [h])" using seg_last [OF s1] seg_hd [OF s2] by auto
  have pn: "prv l n \<noteq> n" using p d last_in_set [of "h # xs"] by auto
  have qn: "nxt l n \<noteq> n" using q d by (cases ys) auto
  have "list_remove n l = (dl_remove n l)\<lparr>nxt := (nxt (dl_remove n l))(n := nxt l n), prv := (prv (dl_remove n l))(n := prv l n)\<rparr>"
    using pn qn by (simp add: list_remove_def dl_remove_def Let_def fun_eq_iff)
  then show ?thesis using ring_frame [OF ring_remove [OF r], of n "prv l n" "nxt l n"] d by auto
qed

end
